(* ===== verification/Prelude.thy ===== *)
theory Prelude
  imports Complex_Main "HOL-Library.Sublist"
begin

text \<open>
  Shared material of the development: results with an error value, folds that may fail, the
  splice of a JavaScript array, lossless JSON values, and two interface locales.
  \<^item> A source function that may throw returns \<open>'x + 'a\<close>: \<open>Inl\<close> the error that is thrown, \<open>Inr\<close> the
    value that is returned.
  \<^item> \<open>run_fold\<close> is the \<^verbatim>\<open>for (const event of events)\<close> loop over a mutable accumulator whose body
    may throw; a throw abandons the loop.
  \<^item> \<open>json\<close> is the value domain of \<^verbatim>\<open>JsonValue\<close>: an object is the list of its own enumerable
    properties in insertion order, with distinct keys (\<open>json_wf\<close>); a number is a rational, which
    covers every finite double.
  \<^item> \<open>fold_invariant\<close> is the contract of an accumulator whose invariant every step keeps, and
    \<open>incremental_view\<close> the contract of a cache that is extended by the events not yet seen.
\<close>

section \<open>Results\<close>

named_theorems result_simps "simplification of bind and guard on results"

definition bind_res :: "'x + 'a \<Rightarrow> ('a \<Rightarrow> 'x + 'b) \<Rightarrow> 'x + 'b" where
  "bind_res r f = (case r of Inl e \<Rightarrow> Inl e | Inr a \<Rightarrow> f a)"

definition guard_res :: "bool \<Rightarrow> 'x \<Rightarrow> 'x + unit" where
  "guard_res b e = (if b then Inr () else Inl e)"

lemma bind_res_simps [simp, result_simps]:
  "bind_res (Inl e) f = Inl e"
  "bind_res (Inr a) f = f a"
  by (simp_all add: bind_res_def)

lemma bind_res_Inr_iff [simp, result_simps]:
  "bind_res r f = Inr b \<longleftrightarrow> (\<exists>a. r = Inr a \<and> f a = Inr b)"
  by (cases r) simp_all

lemma guard_res_Inr_iff [simp, result_simps]: "guard_res b e = Inr u \<longleftrightarrow> b"
  by (simp add: guard_res_def)

lemma guard_res_True [simp]: "guard_res True e = Inr ()"
  by (simp add: guard_res_def)

lemma guard_res_False [simp]: "guard_res False e = Inl e"
  by (simp add: guard_res_def)

lemma bind_res_cong [fundef_cong]:
  "r = r' \<Longrightarrow> (\<And>a. r' = Inr a \<Longrightarrow> f a = g a) \<Longrightarrow> bind_res r f = bind_res r' g"
  by (cases r') auto

definition is_ok :: "'x + 'a \<Rightarrow> bool" where
  "is_ok r = (case r of Inl _ \<Rightarrow> False | Inr _ \<Rightarrow> True)"

lemma is_ok_simps [simp]: "is_ok (Inl e) = False" "is_ok (Inr a) = True"
  by (simp_all add: is_ok_def)

lemma is_ok_iff: "is_ok r \<longleftrightarrow> (\<exists>a. r = Inr a)"
  by (cases r) simp_all

text \<open>\<^verbatim>\<open>items.map(f)\<close> with a callback that may throw.\<close>

fun map_res :: "('a \<Rightarrow> 'x + 'b) \<Rightarrow> 'a list \<Rightarrow> 'x + 'b list" where
  "map_res f [] = Inr []"
| "map_res f (x # xs) = bind_res (f x) (\<lambda>y. bind_res (map_res f xs) (\<lambda>ys. Inr (y # ys)))"

section \<open>Folds that may fail\<close>

fun run_fold :: "('s \<Rightarrow> 'e \<Rightarrow> 'x + 's) \<Rightarrow> 's \<Rightarrow> 'e list \<Rightarrow> 'x + 's" where
  "run_fold step s [] = Inr s"
| "run_fold step s (e # es) = (case step s e of Inl x \<Rightarrow> Inl x | Inr s' \<Rightarrow> run_fold step s' es)"

lemma run_fold_append:
  "run_fold step s (es @ ds) = bind_res (run_fold step s es) (\<lambda>s'. run_fold step s' ds)"
  by (induction es arbitrary: s) (auto split: sum.splits)

lemma run_fold_append_Inr:
  "run_fold step s es = Inr s' \<Longrightarrow> run_fold step s (es @ ds) = run_fold step s' ds"
  by (simp add: run_fold_append)

lemma run_fold_snoc:
  "run_fold step s (es @ [e]) = bind_res (run_fold step s es) (\<lambda>s'. step s' e)"
  by (auto simp: run_fold_append bind_res_def split: sum.splits)

lemma run_fold_prefix:
  assumes "run_fold step s (es @ ds) = Inr t"
  obtains s' where "run_fold step s es = Inr s'" and "run_fold step s' ds = Inr t"
  using assms by (auto simp: run_fold_append)

lemma run_fold_ConsE:
  assumes "run_fold step s (e # es) = Inr t"
  obtains s' where "step s e = Inr s'" and "run_fold step s' es = Inr t"
  using assms by (auto split: sum.splits)

locale fold_invariant =
  fixes step :: "'s \<Rightarrow> 'e \<Rightarrow> 'x + 's"
    and init :: 's
    and inv :: "'e list \<Rightarrow> 's \<Rightarrow> bool"
  assumes inv_init: "inv [] init"
    and inv_step: "inv es s \<Longrightarrow> step s e = Inr s' \<Longrightarrow> inv (es @ [e]) s'"
begin

lemma run_inv_from: "run_fold step s es = Inr s' \<Longrightarrow> inv ds s \<Longrightarrow> inv (ds @ es) s'"
proof (induction es arbitrary: s ds)
  case Nil
  then show ?case by simp
next
  case (Cons e es)
  from Cons.prems(1) obtain u where u: "step s e = Inr u" and rest: "run_fold step u es = Inr s'"
    by (rule run_fold_ConsE)
  from Cons.prems(2) u have "inv (ds @ [e]) u" by (rule inv_step)
  from Cons.IH [OF rest this] show ?case by simp
qed

lemma run_inv: "run_fold step init es = Inr s \<Longrightarrow> inv es s"
  using run_inv_from [of init es s "[]"] inv_init by simp

end

locale incremental_view =
  fixes full :: "'e list \<Rightarrow> 'v"
    and extend :: "'v \<Rightarrow> 'e list \<Rightarrow> 'v"
  assumes extend_full: "extend (full es) ds = full (es @ ds)"
begin

lemma catch_up: "n \<le> length es \<Longrightarrow> extend (full (take n es)) (drop n es) = full es"
  by (simp add: extend_full)

lemma extend_twice: "extend (extend (full es) ds) fs = extend (full es) (ds @ fs)"
  by (simp add: extend_full)

end

section \<open>Lists\<close>

definition list_splice :: "nat \<Rightarrow> nat \<Rightarrow> 'a list \<Rightarrow> 'a list \<Rightarrow> 'a list" where
  "list_splice i n ys xs = take i xs @ ys @ drop (i + n) xs"

fun index_of :: "'a \<Rightarrow> 'a list \<Rightarrow> nat option" where
  "index_of x [] = None"
| "index_of x (y # ys) = (if x = y then Some 0 else map_option Suc (index_of x ys))"

lemma index_of_None [simp]: "index_of x xs = None \<longleftrightarrow> x \<notin> set xs"
  by (induction xs) auto

lemma index_of_Some: "index_of x xs = Some i \<Longrightarrow> i < length xs \<and> xs ! i = x"
  by (induction xs arbitrary: i) (auto split: if_splits)

lemma index_of_less: "index_of x xs = Some i \<Longrightarrow> i < length xs"
  by (simp add: index_of_Some)

lemma index_of_nth_distinct: "distinct xs \<Longrightarrow> i < length xs \<Longrightarrow> index_of (xs ! i) xs = Some i"
proof (induction xs arbitrary: i)
  case Nil
  then show ?case by simp
next
  case (Cons y ys)
  then show ?case by (cases i) auto
qed

lemma map_filter_append:
  "List.map_filter f (xs @ ys) = List.map_filter f xs @ List.map_filter f ys"
  by (induction xs) (auto split: option.splits)

lemma map_filter_snoc:
  "List.map_filter f (xs @ [x]) = List.map_filter f xs @ (case f x of None \<Rightarrow> [] | Some y \<Rightarrow> [y])"
  by (simp add: map_filter_append split: option.split)

lemma set_map_filter: "set (List.map_filter f xs) = {y. \<exists>x \<in> set xs. f x = Some y}"
  by (induction xs) (auto split: option.splits)

lemma length_list_splice:
  "i + n \<le> length xs \<Longrightarrow> length (list_splice i n ys xs) = length xs - n + length ys"
  by (auto simp: list_splice_def min_def)

lemma set_list_splice_subset: "set (list_splice i n ys xs) \<subseteq> set ys \<union> set xs"
  unfolding list_splice_def using set_take_subset [of i xs] set_drop_subset [of "i + n" xs] by auto

lemma split_three:
  assumes "i + n \<le> length xs"
  shows "xs = take i xs @ take n (drop i xs) @ drop (i + n) xs"
  using append_take_drop_id [of i xs] append_take_drop_id [of n "drop i xs"]
  by (simp add: add.commute)

lemma distinct_list_splice:
  assumes "distinct xs" and "i + n \<le> length xs" and "distinct ys"
    and "set ys \<inter> (set (take i xs) \<union> set (drop (i + n) xs)) = {}"
  shows "distinct (list_splice i n ys xs)"
proof -
  have d: "distinct (take i xs @ take n (drop i xs) @ drop (i + n) xs)"
    using assms(1) split_three [OF assms(2)] by simp
  then show ?thesis using assms(3,4) by (auto simp: list_splice_def)
qed

lemma set_list_splice:
  assumes "distinct xs" and "i + n \<le> length xs"
  shows "set (list_splice i n ys xs) = set ys \<union> (set xs - set (take n (drop i xs)))"
proof -
  have d: "distinct (take i xs @ take n (drop i xs) @ drop (i + n) xs)"
    using assms(1) split_three [OF assms(2)] by simp
  have "set xs = set (take i xs) \<union> set (take n (drop i xs)) \<union> set (drop (i + n) xs)"
    using arg_cong [OF split_three [OF assms(2)], of set] by auto
  with d show ?thesis by (auto simp: list_splice_def)
qed

section \<open>JavaScript numbers\<close>

text \<open>A double, its finite values as rationals; negative zero is zero.\<close>

datatype js_number = NaN | PosInf | NegInf | Fin rat

section \<open>Numbers in templates\<close>

text \<open>The decimal digits a natural number has in a template literal.\<close>

fun show_nat :: "nat \<Rightarrow> string" where
  "show_nat n = (if n < 10 then [char_of (48 + n)] else show_nat (n div 10) @ [char_of (48 + n mod 10)])"

declare show_nat.simps [simp del]

lemma show_nat_nonempty [simp]: "show_nat n \<noteq> []"
  by (subst show_nat.simps) simp

section \<open>Trimming\<close>

text \<open>The white space \<^verbatim>\<open>trim\<close> removes, among the characters of the model.\<close>

definition js_space :: "char \<Rightarrow> bool" where
  "js_space c \<longleftrightarrow> (of_char c :: nat) \<in> {9, 10, 11, 12, 13, 32, 160}"

definition js_trim :: "string \<Rightarrow> string" where
  "js_trim s = rev (dropWhile js_space (rev (dropWhile js_space s)))"

lemma js_trim_Nil [simp]: "js_trim [] = []"
  by (simp add: js_trim_def)

lemma js_trim_idem [simp]: "js_trim (js_trim s) = js_trim s"
proof -
  have ends: "rev (dropWhile P (rev xs)) = xs" if "xs = [] \<or> \<not> P (last xs)" for P :: "char \<Rightarrow> bool" and xs
    using that by (cases xs rule: rev_cases) auto
  let ?u = "dropWhile js_space s"
  have front: "dropWhile js_space (js_trim s) = js_trim s"
  proof (cases "js_trim s")
    case (Cons c cs)
    obtain zs where zs: "?u = js_trim s @ zs"
      using takeWhile_dropWhile_id [of js_space "rev ?u"] by (metis js_trim_def rev_append rev_rev_ident)
    with Cons have "hd ?u = c" "?u \<noteq> []" by simp_all
    then have "\<not> js_space c" using hd_dropWhile [of js_space s] by simp
    with Cons show ?thesis by simp
  qed simp
  have rear: "js_trim s = [] \<or> \<not> js_space (last (js_trim s))"
  proof (cases "dropWhile js_space (rev ?u)")
    case (Cons c cs)
    then show ?thesis using hd_dropWhile [of js_space "rev ?u"] by (simp add: js_trim_def)
  qed (simp add: js_trim_def)
  have "rev (dropWhile js_space (rev (js_trim s))) = js_trim s" by (rule ends) (rule rear)
  then show ?thesis using front by (simp add: js_trim_def [of "js_trim s"])
qed

section \<open>Lossless JSON\<close>

datatype json =
    JNull
  | JBool bool
  | JNum rat
  | JStr string
  | JArr "json list"
  | JObj "(string \<times> json) list"

definition max_safe :: int where
  "max_safe = 9007199254740991"

definition safe_int :: "int \<Rightarrow> bool" where
  "safe_int i \<longleftrightarrow> - max_safe \<le> i \<and> i \<le> max_safe"

definition safe_num :: "rat \<Rightarrow> bool" where
  "safe_num r \<longleftrightarrow> of_int \<lfloor>r\<rfloor> = r \<and> safe_int \<lfloor>r\<rfloor>"

lemma safe_num_of_int [simp]: "safe_num (of_int i) \<longleftrightarrow> safe_int i"
  by (simp add: safe_num_def)

lemma safe_num_of_nat [simp]: "safe_num (of_nat n) \<longleftrightarrow> safe_int (int n)"
  by (simp add: safe_num_def)

fun json_wf :: "json \<Rightarrow> bool" where
  "json_wf (JArr xs) = (\<forall>x \<in> set xs. json_wf x)"
| "json_wf (JObj ps) = (distinct (map fst ps) \<and> (\<forall>p \<in> set ps. json_wf (snd p)))"
| "json_wf _ = True"

definition obj_get :: "json \<Rightarrow> string \<Rightarrow> json option" where
  "obj_get j k = (case j of JObj ps \<Rightarrow> map_of ps k | _ \<Rightarrow> None)"

lemma obj_get_JObj [simp]: "obj_get (JObj ps) k = map_of ps k"
  by (simp add: obj_get_def)

definition num_of :: "nat \<Rightarrow> json" where
  "num_of n = JNum (of_nat n)"

text \<open>
  \<^verbatim>\<open>isDeepEqualJson\<close>: two arrays are compared index by index, two objects by the number of keys
  and by the value each key of the first has in the second, whatever the order of the keys.
\<close>

fun is_deep_equal_json :: "json \<Rightarrow> json \<Rightarrow> bool" where
  "is_deep_equal_json JNull JNull = True"
| "is_deep_equal_json (JBool a) (JBool b) = (a = b)"
| "is_deep_equal_json (JNum a) (JNum b) = (a = b)"
| "is_deep_equal_json (JStr a) (JStr b) = (a = b)"
| "is_deep_equal_json (JArr xs) (JArr ys) = list_all2 is_deep_equal_json xs ys"
| "is_deep_equal_json (JObj ps) (JObj qs) =
     (length ps = length qs \<and>
      (\<forall>p \<in> set ps. case map_of qs (fst p) of
         None \<Rightarrow> False | Some w \<Rightarrow> is_deep_equal_json (snd p) w))"
| "is_deep_equal_json _ _ = False"

lemma is_deep_equal_json_refl: "json_wf j \<Longrightarrow> is_deep_equal_json j j"
proof (induction j rule: json_wf.induct)
  case (1 xs)
  then show ?case by (simp add: list_all2_same)
next
  case (2 ps)
  then show ?case by (auto simp: split_beta)
qed simp_all

end
