(* ===== verification/Llm_Types.thy ===== *)
theory Llm_Types
  imports Prelude
begin

text \<open>
  The message and streaming vocabulary of \<^verbatim>\<open>packages/llm/llm\<close>: content blocks, messages and their
  sources, stream chunks, finish reasons, call configuration (\<^verbatim>\<open>types.ts\<close>, \<^verbatim>\<open>message.ts\<close>,
  \<^verbatim>\<open>call-config.ts\<close>, \<^verbatim>\<open>brand.ts\<close>). Merge-extensible unions keep a constructor for the members
  that plugins add. Branded ids are strings; a JavaScript string is a list of characters; an
  absent optional field is \<open>None\<close>. A fresh message id is an argument of the function that
  draws it from \<^verbatim>\<open>crypto.randomUUID\<close>.
\<close>

type_synonym call_id = string
type_synonym message_id = string

section \<open>Failures and finish reasons\<close>

record llm_failure =
  failure_message :: string
  failure_code :: string
  failure_status :: "int option"
  failure_retry_after :: "rat option"
  failure_request_id :: "string option"

datatype finish_reason =
    FinStop
  | FinToolCalls
  | FinMaxTokens
  | FinAborted llm_failure
  | FinError llm_failure
  | FinOther string json

record token_usage =
  input_tokens :: int
  output_tokens :: int
  cache_read_tokens :: "int option"
  cache_write_tokens :: "int option"
  reasoning_tokens :: "int option"

section \<open>Content blocks and messages\<close>

datatype content_block =
    TextBlock string
  | ReasoningBlock string
  | ImageBlock json
  | ToolCallBlock call_id string string
  | ToolResultBlock call_id "content_block list" "bool option"
  | OtherBlock string json

fun block_type :: "content_block \<Rightarrow> string" where
  "block_type (TextBlock _) = ''text''"
| "block_type (ReasoningBlock _) = ''reasoning''"
| "block_type (ImageBlock _) = ''image''"
| "block_type (ToolCallBlock _ _ _) = ''tool-call''"
| "block_type (ToolResultBlock _ _ _) = ''tool-result''"
| "block_type (OtherBlock t _) = t"

fun is_tool_call :: "content_block \<Rightarrow> bool" where
  "is_tool_call (ToolCallBlock _ _ _) = True"
| "is_tool_call _ = False"

datatype context_form =
    NoForm
  | Instructions
  | Catalog
  | Snapshot "(string \<times> string) list"
  | Notice string
  | Relay
  | Recall

datatype message_source =
    SrcUser
  | SrcPlugin string context_form "(string \<times> json) list"
  | SrcModel string string "json option"
  | SrcTool call_id
  | SrcGoal string rat rat
  | SrcOther string json

datatype role = System | User | Assistant

record message =
  message_id :: message_id
  message_role :: role
  message_content :: "content_block list"
  message_source :: message_source

text \<open>
  \<^verbatim>\<open>ToolResultMessage\<close> narrows \<^verbatim>\<open>content\<close> to exactly one tool-result block and \<^verbatim>\<open>source\<close> to a tool
  source, so both are fields here.
\<close>

record tool_result_message =
  trm_id :: message_id
  trm_call_id :: call_id
  trm_block_call_id :: call_id
  trm_content :: "content_block list"
  trm_is_error :: "bool option"

definition message_of_tool_result :: "tool_result_message \<Rightarrow> message" where
  "message_of_tool_result m =
     \<lparr> message_id = trm_id m, message_role = User,
       message_content = [ToolResultBlock (trm_block_call_id m) (trm_content m) (trm_is_error m)],
       message_source = SrcTool (trm_call_id m) \<rparr>"

definition create_user_message :: "message_id \<Rightarrow> content_block list \<Rightarrow> message_source \<Rightarrow> message" where
  "create_user_message uuid content src =
     \<lparr> message_id = uuid, message_role = User, message_content = content, message_source = src \<rparr>"

definition create_assistant_message ::
  "message_id \<Rightarrow> content_block list \<Rightarrow> string \<Rightarrow> string \<Rightarrow> json option \<Rightarrow> message" where
  "create_assistant_message uuid content prov model replay =
     \<lparr> message_id = uuid, message_role = Assistant, message_content = content,
       message_source = SrcModel prov model replay \<rparr>"

definition create_tool_result_message ::
  "message_id \<Rightarrow> call_id \<Rightarrow> content_block list \<Rightarrow> bool \<Rightarrow> tool_result_message" where
  "create_tool_result_message uuid cid content err =
     \<lparr> trm_id = uuid, trm_call_id = cid, trm_block_call_id = cid,
       trm_content = content, trm_is_error = Some err \<rparr>"

section \<open>Streams\<close>

record replay_envelope =
  replay_response :: json
  replay_blocks :: "json list option"

datatype stream_chunk =
    BlockStart int string
  | TextDelta int string
  | ReasoningDelta int string
  | ToolCallDelta int call_id "string option" string
  | BlockEnd int content_block
  | UsageChunk token_usage
  | FinishChunk finish_reason "replay_envelope option"

fun is_token_delta :: "stream_chunk \<Rightarrow> bool" where
  "is_token_delta (TextDelta _ t) = (t \<noteq> [])"
| "is_token_delta (ReasoningDelta _ t) = (t \<noteq> [])"
| "is_token_delta (ToolCallDelta _ _ name args) = (args \<noteq> [] \<or> name \<noteq> None)"
| "is_token_delta _ = False"

section \<open>Call configuration\<close>

record llm_call_config =
  cfg_provider :: string
  cfg_model :: string
  cfg_reasoning_effort :: "string option"
  cfg_temperature :: "rat option"
  cfg_max_tokens :: "int option"
  cfg_stop :: "string list option"

record adapter_defaults =
  def_reasoning_effort :: bool
  def_max_tokens :: bool

definition call_config_equals :: "llm_call_config \<Rightarrow> llm_call_config \<Rightarrow> bool" where
  "call_config_equals a b =
     (if cfg_provider a \<noteq> cfg_provider b \<or> cfg_model a \<noteq> cfg_model b
         \<or> cfg_reasoning_effort a \<noteq> cfg_reasoning_effort b
         \<or> cfg_temperature a \<noteq> cfg_temperature b
         \<or> cfg_max_tokens a \<noteq> cfg_max_tokens b
      then False
      else case (cfg_stop a, cfg_stop b) of
          (Some xs, Some ys) \<Rightarrow>
            length xs = length ys \<and> list_all (\<lambda>i. xs ! i = ys ! i) [0 ..< length xs]
        | (None, None) \<Rightarrow> True
        | _ \<Rightarrow> False)"

lemma every_index_eq:
  "length xs = length ys \<and> list_all (\<lambda>i. xs ! i = ys ! i) [0 ..< length xs] \<longleftrightarrow> xs = ys"
  by (auto simp: list_all_iff intro: nth_equalityI)

lemma call_config_equals_iff: "call_config_equals a b \<longleftrightarrow> a = b"
  by (cases a; cases b) (auto simp: call_config_equals_def every_index_eq split: option.splits)

end
