(* ===== verification/Session_Types.thy ===== *)
theory Session_Types
  imports Llm_Types
begin

text \<open>
  The durable vocabulary of \<^verbatim>\<open>packages/core/session/src/types.ts\<close>: the event map, the event
  envelope, the session header. \<^verbatim>\<open>SessionEventMap\<close> is merge-extensible: the members declared by the
  packages modelled here have a constructor, every other plugin event is \<open>OtherEvent\<close> with its
  type tag and payload. The surface metadata of an envelope is kept as the raw JSON value it has
  on disk, because the surface fold validates its shape; \<open>None\<close> is an absent property. Sequence
  numbers are natural numbers, turn and step numbers and times are integers.
\<close>

type_synonym session_id = string

definition session_format_version :: int where
  "session_format_version = 0"

record session_header =
  hdr_version :: int
  hdr_id :: session_id
  hdr_created_at :: int
  hdr_cwd :: "string option"
  hdr_parent_session :: "session_id option"
  hdr_seed_length :: "nat option"
  hdr_origin_subagent :: bool
  hdr_delegation_depth :: "nat option"
  hdr_agent_preset :: "string option"

datatype cancel_cause =
    CauseUser
  | CauseParent
  | CauseHook string
  | CauseDisposed
  | CauseLegacy

datatype turn_end_reason =
    EndCompleted
  | EndAborted cancel_cause
  | EndBlocked
  | EndError llm_failure
  | EndMaxTokens
  | EndInterrupted
  | EndOther string json

datatype todo_status = TodoPending | TodoInProgress | TodoCompleted

record todo_item =
  todo_content :: string
  todo_status :: todo_status

record epoch_header =
  eh_config :: llm_call_config
  eh_adapter_defaults :: "adapter_defaults option"
  eh_system :: "string option"
  eh_tools :: "json list option"

record request_context =
  rc_provider :: string
  rc_model :: string
  rc_context_window :: "int option"

datatype inbox_target = NextTurn | NextStep

record inbox_splice =
  spl_target :: inbox_target
  spl_start :: int
  spl_removed_count :: "int option"
  spl_inserted :: "message list"
  spl_canceled :: bool

record compaction_lifecycle =
  cl_id :: string
  cl_source_command :: "string option"
  cl_turn :: "int option"

record tool_result_data =
  tr_turn :: int
  tr_step :: int
  tr_message :: tool_result_message
  tr_error :: "(string \<times> string) option"
  tr_meta :: "json option"

datatype event_data =
    TurnStart int
  | TurnEnd int turn_end_reason
  | StepStart int int
  | StepEnd int int
  | UserMessage message
  | AssistantChunk int int stream_chunk
  | AssistantMessage int int message "token_usage option"
  | ToolCall int int call_id string string
  | ToolResult tool_result_data
  | TodoWrite "todo_item list"
  | RequestHeader epoch_header string
  | RequestContext request_context
  | EndSeed
  | InboxSpliced inbox_splice
  | CompactionStart compaction_lifecycle
  | CompactionEnd compaction_lifecycle "string option"
  | GoalChange json
  | OtherEvent string json

fun data_type :: "event_data \<Rightarrow> string" where
  "data_type (TurnStart _) = ''turn/start''"
| "data_type (TurnEnd _ _) = ''turn/end''"
| "data_type (StepStart _ _) = ''step/start''"
| "data_type (StepEnd _ _) = ''step/end''"
| "data_type (UserMessage _) = ''user/message''"
| "data_type (AssistantChunk _ _ _) = ''assistant/chunk''"
| "data_type (AssistantMessage _ _ _ _) = ''assistant/message''"
| "data_type (ToolCall _ _ _ _ _) = ''tool/call''"
| "data_type (ToolResult _) = ''tool/result''"
| "data_type (TodoWrite _) = ''todo/write''"
| "data_type (RequestHeader _ _) = ''request/header''"
| "data_type (RequestContext _) = ''request/context''"
| "data_type EndSeed = ''session/end-seed''"
| "data_type (InboxSpliced _) = ''agent/inbox/spliced''"
| "data_type (CompactionStart _) = ''compaction/start''"
| "data_type (CompactionEnd _ _) = ''compaction/end''"
| "data_type (GoalChange _) = ''goal/change''"
| "data_type (OtherEvent t _) = t"

record session_event =
  ev_seq :: nat
  ev_time :: int
  ev_data :: event_data
  ev_surface_op :: "json option"
  ev_sources :: "json option"
  ev_ignorable :: bool

abbreviation ev_type :: "session_event \<Rightarrow> string" where
  "ev_type e \<equiv> data_type (ev_data e)"

definition op_append :: json where
  "op_append = JStr ''append''"

definition op_replace :: "nat \<Rightarrow> nat \<Rightarrow> json" where
  "op_replace s e = JObj [(''op'', JStr ''replace''), (''start'', num_of s), (''end'', num_of e)]"

definition seqs_json :: "nat list \<Rightarrow> json" where
  "seqs_json ns = JArr (map num_of ns)"

text \<open>
  An event whose type tag names a member of the modelled vocabulary carries that member's payload:
  \<open>OtherEvent\<close> is for the other tags only.
\<close>

definition core_types :: "string list" where
  "core_types = [''turn/start'', ''turn/end'', ''step/start'', ''step/end'', ''user/message'',
     ''assistant/chunk'', ''assistant/message'', ''tool/call'', ''tool/result'', ''todo/write'',
     ''request/header'', ''request/context'', ''session/end-seed'', ''agent/inbox/spliced'',
     ''compaction/start'', ''compaction/end'', ''goal/change'']"

fun typed_data :: "event_data \<Rightarrow> bool" where
  "typed_data (OtherEvent t _) = (t \<notin> set core_types)"
| "typed_data _ = True"

end
