(* ===== verification/Surface.thy ===== *)
theory Surface
  imports Session_Types "HOL-Library.Multiset"
begin

text \<open>
  The surface layer of \<^verbatim>\<open>packages/core/session/src/surface.ts\<close>: the fold that turns the append-only
  log into the ordered list of model-visible nodes, the validation of one candidate event, and the
  incremental \<^verbatim>\<open>SurfaceManager\<close>. The fold keeps the positions of the nodes; a replacement event
  takes the place of a contiguous range of nodes and cites every one of them. The lemmas show what
  the nodes are at every log, that no surface event is lost or counted twice, and that the
  incremental manager computes the full fold.
\<close>

section \<open>Event classification\<close>

definition surface_event_types :: "string list" where
  "surface_event_types = [''user/message'', ''assistant/message'', ''tool/result'']"

definition is_surface_eligible_type :: "string \<Rightarrow> bool" where
  "is_surface_eligible_type t = (t \<in> set surface_event_types)"

definition is_surface_event :: "session_event \<Rightarrow> bool" where
  "is_surface_event e =
     (if \<not> is_surface_eligible_type (ev_type e) then False else ev_surface_op e \<noteq> None)"

definition is_append_surface_event :: "session_event \<Rightarrow> bool" where
  "is_append_surface_event e = (is_surface_event e \<and> ev_surface_op e = Some op_append)"

definition is_replacement_surface_event :: "session_event \<Rightarrow> bool" where
  "is_replacement_surface_event e = (is_surface_event e \<and> ev_surface_op e \<noteq> Some op_append)"

definition derive_event_message :: "session_event \<Rightarrow> message option" where
  "derive_event_message e = (case ev_data e of
       UserMessage m \<Rightarrow> Some m
     | AssistantMessage _ _ m _ \<Rightarrow> if length (message_content m) = 0 then None else Some m
     | ToolResult d \<Rightarrow> Some (message_of_tool_result (tr_message d))
     | _ \<Rightarrow> None)"

section \<open>Validation of one event\<close>

datatype surface_error =
    NotContiguous nat nat
  | IneligibleSurfaceOp string
  | IneligibleSources string
  | MissingSurfaceOp string
  | InvalidSurfaceOp string
  | InvalidReplaceOp string
  | SourcesNotArray nat
  | SourcesEmpty
  | SourceNotSeq string
  | SourcesDuplicate
  | SourceNotEarlier nat nat
  | MissingShadowed "nat list"
  | StartNotFound nat
  | EndNotFound nat
  | StartAfterEnd nat nat
  | RewriteNotSingle
  | RewriteNotToolResult
  | RewriteBeyondContent

datatype surface_op = OpAppend | OpReplace nat nat

record fold_state =
  fs_nodes :: "nat list"
  fs_generation :: nat

record surface_replacement =
  rep_seq :: nat
  rep_start :: nat
  rep_end :: nat
  rep_shadowed :: "nat list"

record surface_range =
  rg_start_idx :: nat
  rg_end_idx :: nat
  rg_shadowed :: "nat list"

datatype surface_plan =
    PlanAppend nat
  | PlanReplace nat nat nat surface_range

definition create_fold_state :: fold_state where
  "create_fold_state = \<lparr> fs_nodes = [], fs_generation = 0 \<rparr>"

fun is_event_seq :: "json \<Rightarrow> bool" where
  "is_event_seq (JNum r) = (safe_num r \<and> 0 \<le> r)"
| "is_event_seq _ = False"

fun json_seq :: "json \<Rightarrow> nat" where
  "json_seq (JNum r) = nat \<lfloor>r\<rfloor>"
| "json_seq _ = 0"

definition is_replace_op :: "(string \<times> json) list \<Rightarrow> bool" where
  "is_replace_op ps =
     (length ps = 3
      \<and> map_of ps ''op'' \<noteq> None \<and> map_of ps ''start'' \<noteq> None \<and> map_of ps ''end'' \<noteq> None
      \<and> map_of ps ''op'' = Some (JStr ''replace'')
      \<and> (case map_of ps ''start'' of None \<Rightarrow> False | Some j \<Rightarrow> is_event_seq j)
      \<and> (case map_of ps ''end'' of None \<Rightarrow> False | Some j \<Rightarrow> is_event_seq j))"

definition surface_op_of :: "session_event \<Rightarrow> surface_error + surface_op option" where
  "surface_op_of e =
     (if \<not> is_surface_eligible_type (ev_type e) then
        if ev_surface_op e \<noteq> None then Inl (IneligibleSurfaceOp (ev_type e))
        else if ev_sources e \<noteq> None then Inl (IneligibleSources (ev_type e))
        else Inr None
      else case ev_surface_op e of
          None \<Rightarrow> Inl (MissingSurfaceOp (ev_type e))
        | Some op \<Rightarrow>
            if op = op_append then Inr (Some OpAppend)
            else (case op of
                JObj ps \<Rightarrow>
                  if \<not> is_replace_op ps then Inl (InvalidReplaceOp (ev_type e))
                  else Inr (Some (OpReplace (json_seq (the (map_of ps ''start'')))
                                            (json_seq (the (map_of ps ''end'')))))
              | _ \<Rightarrow> Inl (InvalidSurfaceOp (ev_type e))))"

text \<open>
  The loop over the raw source array: the set of sources seen so far, and the first source that is
  not smaller than the sequence number of the event.
\<close>

fun collect_sources ::
  "string \<Rightarrow> nat \<Rightarrow> nat list \<Rightarrow> nat option \<Rightarrow> json list \<Rightarrow> surface_error + (nat list \<times> nat option)" where
  "collect_sources t seq acc late [] = Inr (acc, late)"
| "collect_sources t seq acc late (j # js) =
     (if \<not> is_event_seq j then Inl (SourceNotSeq t)
      else let s = json_seq j in
        collect_sources t seq (List.insert s acc)
          (if late = None \<and> s \<ge> seq then Some s else late) js)"

definition assert_provenance :: "session_event \<Rightarrow> nat list \<Rightarrow> surface_error + unit" where
  "assert_provenance e shadowed =
     bind_res
       (case ev_sources e of
          None \<Rightarrow> Inr []
        | Some (JArr raw) \<Rightarrow>
            if length raw = 0 \<and> ev_type e \<noteq> ''assistant/message'' then Inl SourcesEmpty
            else bind_res (collect_sources (ev_type e) (ev_seq e) [] None raw) (\<lambda>(sources, late).
              if length sources \<noteq> length raw then Inl SourcesDuplicate
              else case late of
                  Some s \<Rightarrow> Inl (SourceNotEarlier s (ev_seq e))
                | None \<Rightarrow> Inr sources)
        | Some _ \<Rightarrow> Inl (SourcesNotArray (ev_seq e)))
       (\<lambda>sources.
          let missing = filter (\<lambda>s. s \<notin> set sources) shadowed in
          if length missing > 0 then Inl (MissingShadowed missing) else Inr ())"

definition replacement_range :: "fold_state \<Rightarrow> nat \<Rightarrow> nat \<Rightarrow> surface_error + surface_range" where
  "replacement_range st s e =
     (case index_of s (fs_nodes st) of
        None \<Rightarrow> Inl (StartNotFound s)
      | Some si \<Rightarrow> (case index_of e (fs_nodes st) of
          None \<Rightarrow> Inl (EndNotFound e)
        | Some ei \<Rightarrow>
            if si > ei then Inl (StartAfterEnd s e)
            else Inr \<lparr> rg_start_idx = si, rg_end_idx = ei,
                       rg_shadowed = take (ei + 1 - si) (drop si (fs_nodes st)) \<rparr>))"

definition opt_deep_equal :: "json option \<Rightarrow> json option \<Rightarrow> bool" where
  "opt_deep_equal a b = (case (a, b) of
      (None, None) \<Rightarrow> True
    | (Some x, Some y) \<Rightarrow> is_deep_equal_json x y
    | _ \<Rightarrow> False)"

definition tool_result_rest_equal :: "tool_result_data \<Rightarrow> tool_result_data \<Rightarrow> bool" where
  "tool_result_rest_equal a b =
     (tr_turn a = tr_turn b \<and> tr_step a = tr_step b
      \<and> trm_id (tr_message a) = trm_id (tr_message b)
      \<and> trm_call_id (tr_message a) = trm_call_id (tr_message b)
      \<and> trm_block_call_id (tr_message a) = trm_block_call_id (tr_message b)
      \<and> trm_is_error (tr_message a) = trm_is_error (tr_message b)
      \<and> tr_error a = tr_error b
      \<and> opt_deep_equal (tr_meta a) (tr_meta b))"

definition event_at :: "session_event list \<Rightarrow> nat \<Rightarrow> nat \<Rightarrow> session_event option" where
  "event_at evs base seq =
     (if base \<le> seq \<and> seq - base < length evs then Some (evs ! (seq - base)) else None)"

fun check_rewrites ::
  "tool_result_data \<Rightarrow> session_event list \<Rightarrow> nat \<Rightarrow> nat list \<Rightarrow> surface_error + unit" where
  "check_rewrites d evs base [] = Inr ()"
| "check_rewrites d evs base (s # ss) =
     (case map_option ev_data (event_at evs base s) of
        Some (ToolResult original) \<Rightarrow>
          if \<not> tool_result_rest_equal original d then Inl RewriteBeyondContent
          else check_rewrites d evs base ss
      | _ \<Rightarrow> Inl RewriteNotToolResult)"

definition assert_tool_result_rewrite ::
  "session_event \<Rightarrow> nat list \<Rightarrow> session_event list \<Rightarrow> nat \<Rightarrow> surface_error + unit" where
  "assert_tool_result_rewrite e shadowed evs base =
     (case ev_data e of
        ToolResult d \<Rightarrow>
          if length shadowed \<noteq> 1 then Inl RewriteNotSingle
          else check_rewrites d evs base shadowed
      | _ \<Rightarrow> Inr ())"

definition plan_surface_event ::
  "fold_state \<Rightarrow> session_event \<Rightarrow> nat \<Rightarrow> session_event list \<Rightarrow> nat
     \<Rightarrow> surface_error + surface_plan option" where
  "plan_surface_event st e expected evs base =
     (if ev_seq e \<noteq> expected then Inl (NotContiguous (ev_seq e) expected)
      else bind_res (surface_op_of e) (\<lambda>op. case op of
          None \<Rightarrow> Inr None
        | Some OpAppend \<Rightarrow>
            bind_res (assert_provenance e []) (\<lambda>_. Inr (Some (PlanAppend (ev_seq e))))
        | Some (OpReplace s t) \<Rightarrow>
            bind_res (replacement_range st s t) (\<lambda>rg.
            bind_res (assert_provenance e (rg_shadowed rg)) (\<lambda>_.
            bind_res (assert_tool_result_rewrite e (rg_shadowed rg) evs base) (\<lambda>_.
              Inr (Some (PlanReplace (ev_seq e) s t rg)))))))"

fun apply_surface_plan ::
  "fold_state \<Rightarrow> surface_plan option \<Rightarrow> fold_state \<times> surface_replacement option" where
  "apply_surface_plan st None = (st, None)"
| "apply_surface_plan st (Some (PlanAppend seq)) =
     (st\<lparr> fs_nodes := fs_nodes st @ [seq] \<rparr>, None)"
| "apply_surface_plan st (Some (PlanReplace seq s t rg)) =
     (st\<lparr> fs_nodes := list_splice (rg_start_idx rg) (rg_end_idx rg - rg_start_idx rg + 1) [seq]
                        (fs_nodes st),
          fs_generation := fs_generation st + 1 \<rparr>,
      Some \<lparr> rep_seq = seq, rep_start = s, rep_end = t, rep_shadowed = rg_shadowed rg \<rparr>)"

definition apply_surface_event ::
  "fold_state \<Rightarrow> session_event \<Rightarrow> nat \<Rightarrow> session_event list \<Rightarrow> nat
     \<Rightarrow> surface_error + (fold_state \<times> surface_replacement option)" where
  "apply_surface_event st e expected evs base =
     bind_res (plan_surface_event st e expected evs base) (\<lambda>plan. Inr (apply_surface_plan st plan))"

section \<open>The full fold\<close>

type_synonym surface_run = "nat \<times> fold_state \<times> surface_replacement list"

definition surface_step ::
  "session_event list \<Rightarrow> nat \<Rightarrow> surface_run \<Rightarrow> session_event \<Rightarrow> surface_error + surface_run" where
  "surface_step evs base r e = (case r of (k, st, reps) \<Rightarrow>
     bind_res (apply_surface_event st e k evs base) (\<lambda>(st', rep).
       Inr (Suc k, st', case rep of None \<Rightarrow> reps | Some p \<Rightarrow> reps @ [p])))"

definition fold_surface :: "session_event list \<Rightarrow> surface_error + (nat list \<times> surface_replacement list)" where
  "fold_surface events =
     bind_res (run_fold (surface_step events 0) (0, create_fold_state, []) events)
       (\<lambda>(_, st, reps). Inr (fs_nodes st, reps))"

section \<open>What the fold computes\<close>

definition surface_seqs :: "session_event list \<Rightarrow> nat list" where
  "surface_seqs es = map ev_seq (filter is_surface_event es)"

definition surface_inv :: "nat \<Rightarrow> session_event list \<Rightarrow> surface_run \<Rightarrow> bool" where
  "surface_inv base es r = (case r of (k, st, reps) \<Rightarrow>
     map ev_seq es = [base ..< k] \<and> base \<le> k
     \<and> mset (fs_nodes st) + mset (concat (map rep_shadowed reps)) = mset (surface_seqs es)
     \<and> fs_generation st = length reps)"

lemma surface_seqs_simps [simp]:
  "surface_seqs [] = []"
  "surface_seqs (es @ [e]) = surface_seqs es @ (if is_surface_event e then [ev_seq e] else [])"
  by (simp_all add: surface_seqs_def)

lemma surface_op_of_None: "surface_op_of e = Inr None \<Longrightarrow> \<not> is_surface_event e"
  by (auto simp: surface_op_of_def is_surface_event_def split: if_splits option.splits json.splits)

lemma surface_op_of_Some: "surface_op_of e = Inr (Some op) \<Longrightarrow> is_surface_event e"
  by (auto simp: surface_op_of_def is_surface_event_def split: if_splits option.splits json.splits)

lemma replacement_rangeD:
  assumes "replacement_range st s t = Inr rg"
  shows "rg_start_idx rg \<le> rg_end_idx rg" and "rg_end_idx rg < length (fs_nodes st)"
    and "rg_shadowed rg = take (rg_end_idx rg + 1 - rg_start_idx rg) (drop (rg_start_idx rg) (fs_nodes st))"
    and "fs_nodes st ! rg_start_idx rg = s" and "fs_nodes st ! rg_end_idx rg = t"
  using assms
  by (auto simp: replacement_range_def dest!: index_of_Some split: option.splits if_splits)

lemma shadowed_subset: "replacement_range st s t = Inr rg \<Longrightarrow> set (rg_shadowed rg) \<subseteq> set (fs_nodes st)"
  using replacement_rangeD(3) set_take_subset set_drop_subset by (metis order_trans)

lemma mset_list_splice:
  assumes "i + n \<le> length xs"
  shows "mset (list_splice i n ys xs) + mset (take n (drop i xs)) = mset xs + mset ys"
  using arg_cong [OF split_three [OF assms], of mset] by (simp add: list_splice_def add_ac)

lemma plan_surface_eventE:
  assumes "plan_surface_event st e k evs base = Inr plan"
  obtains (skip) "plan = None" "surface_op_of e = Inr None" "ev_seq e = k"
    | (append) "plan = Some (PlanAppend k)" "surface_op_of e = Inr (Some OpAppend)" "ev_seq e = k"
        "assert_provenance e [] = Inr ()"
    | (replace) s t rg where "plan = Some (PlanReplace k s t rg)"
        "surface_op_of e = Inr (Some (OpReplace s t))" "ev_seq e = k"
        "replacement_range st s t = Inr rg" "assert_provenance e (rg_shadowed rg) = Inr ()"
        "assert_tool_result_rewrite e (rg_shadowed rg) evs base = Inr ()"
proof -
  from assms have seq: "ev_seq e = k" by (auto simp: plan_surface_event_def split: if_splits)
  with assms obtain op where op: "surface_op_of e = Inr op"
    by (auto simp: plan_surface_event_def)
  show thesis
  proof (cases op)
    case None
    with assms seq op skip show thesis by (simp add: plan_surface_event_def)
  next
    case (Some o')
    then show thesis
    proof (cases o')
      case OpAppend
      with Some assms seq op append show thesis by (auto simp: plan_surface_event_def)
    next
      case (OpReplace s t)
      with Some assms seq op replace show thesis by (auto simp: plan_surface_event_def)
    qed
  qed
qed

lemma surface_stepE:
  assumes "surface_step evs base (k, st, reps) e = Inr (k', st', reps')"
  obtains plan rep where "plan_surface_event st e k evs base = Inr plan"
    and "apply_surface_plan st plan = (st', rep)" and "k' = Suc k"
    and "reps' = (case rep of None \<Rightarrow> reps | Some p \<Rightarrow> reps @ [p])"
  using assms
  by (auto simp: surface_step_def apply_surface_event_def split: prod.splits)

lemma surface_inv_step:
  assumes "surface_inv base es r" and "surface_step evs base r e = Inr r'"
  shows "surface_inv base (es @ [e]) r'"
proof -
  obtain k st reps where r: "r = (k, st, reps)" by (cases r) auto
  obtain k' st' reps' where r': "r' = (k', st', reps')" by (cases r') auto
  from assms(2) r r' obtain plan rep where
    plan: "plan_surface_event st e k evs base = Inr plan"
    and ap: "apply_surface_plan st plan = (st', rep)" and k': "k' = Suc k"
    and reps': "reps' = (case rep of None \<Rightarrow> reps | Some p \<Rightarrow> reps @ [p])"
    by (blast elim: surface_stepE)
  from plan show ?thesis
  proof (cases rule: plan_surface_eventE)
    case skip
    with assms(1) ap k' reps' r r' surface_op_of_None show ?thesis
      by (auto simp: surface_inv_def)
  next
    case append
    with assms(1) ap k' reps' r r' surface_op_of_Some show ?thesis
      by (auto simp: surface_inv_def)
  next
    case (replace s t rg)
    note rg = replacement_rangeD [OF replace(4)]
    have n: "Suc (rg_end_idx rg) - rg_start_idx rg = Suc (rg_end_idx rg - rg_start_idx rg)"
      using rg(1) by simp
    have bound: "rg_start_idx rg + Suc (rg_end_idx rg - rg_start_idx rg) \<le> length (fs_nodes st)"
      using rg(1,2) by simp
    let ?new = "list_splice (rg_start_idx rg) (Suc (rg_end_idx rg - rg_start_idx rg)) [k] (fs_nodes st)"
    have moved: "mset ?new + mset (rg_shadowed rg) = mset (fs_nodes st) + {#k#}"
      using mset_list_splice [OF bound, of "[k]"] rg(3) n by simp
    from assms(1) r have ms: "mset (fs_nodes st) + mset (concat (map rep_shadowed reps)) = mset (surface_seqs es)"
      by (simp add: surface_inv_def)
    have "mset ?new + mset (concat (map rep_shadowed reps @ [rg_shadowed rg]))
        = (mset ?new + mset (rg_shadowed rg)) + mset (concat (map rep_shadowed reps))"
      by simp
    also have "\<dots> = mset (surface_seqs es) + {#k#}"
      unfolding moved using ms by simp
    finally have total: "mset ?new + mset (concat (map rep_shadowed reps @ [rg_shadowed rg]))
        = mset (surface_seqs es) + {#k#}" .
    have st': "st' = st\<lparr> fs_nodes := ?new, fs_generation := fs_generation st + 1 \<rparr>"
      and rep: "rep = Some \<lparr> rep_seq = k, rep_start = s, rep_end = t, rep_shadowed = rg_shadowed rg \<rparr>"
      using ap replace(1) by simp_all
    have "surface_inv base (es @ [e]) (Suc k, st', reps @ [\<lparr> rep_seq = k, rep_start = s, rep_end = t,
        rep_shadowed = rg_shadowed rg \<rparr>])"
      using total assms(1) r replace(3) surface_op_of_Some [OF replace(2)] st'
      by (simp add: surface_inv_def)
    with k' reps' rep r' show ?thesis by simp
  qed
qed

interpretation surf: fold_invariant "surface_step evs base" "(base, create_fold_state, [])"
  "surface_inv base"
  by unfold_locales
     (simp add: surface_inv_def create_fold_state_def, rule surface_inv_step)

text \<open>Every node of a folded log is the sequence number of a surface event of the log.\<close>

lemma surface_inv_nodes:
  assumes "surface_inv base es (k, st, reps)" and "n \<in> set (fs_nodes st)"
  shows "base \<le> n" and "n < base + length es" and "is_surface_event (es ! (n - base))"
    and "ev_seq (es ! (n - base)) = n"
proof -
  from assms(1) have seqs: "map ev_seq es = [base ..< k]"
    and ms: "mset (fs_nodes st) + mset (concat (map rep_shadowed reps)) = mset (surface_seqs es)"
    by (auto simp: surface_inv_def)
  have "n \<in> set (surface_seqs es)"
    using arg_cong [OF ms, of set_mset] assms(2) by auto
  then obtain e where e: "e \<in> set es" "is_surface_event e" "ev_seq e = n"
    by (auto simp: surface_seqs_def)
  then obtain i where i: "i < length es" "es ! i = e" by (auto simp: in_set_conv_nth)
  have len: "length es = k - base" using arg_cong [OF seqs, of length] by simp
  have "ev_seq (es ! i) = [base ..< k] ! i" using seqs i(1) by (metis nth_map)
  then have "n = base + i" using e(3) i len by simp
  then show "base \<le> n" "n < base + length es" "is_surface_event (es ! (n - base))"
    "ev_seq (es ! (n - base)) = n"
    using i e by simp_all
qed

lemma surface_inv_length: "surface_inv base es (k, st, reps) \<Longrightarrow> k = base + length es"
proof -
  assume "surface_inv base es (k, st, reps)"
  then have "map ev_seq es = [base ..< k]" and "base \<le> k" by (auto simp: surface_inv_def)
  then show ?thesis using length_map [of ev_seq es] by simp
qed

lemma surface_inv_distinct:
  assumes "surface_inv base es (k, st, reps)"
  shows "distinct (fs_nodes st @ concat (map rep_shadowed reps))"
proof -
  from assms have seqs: "map ev_seq es = [base ..< k]"
    and ms: "mset (fs_nodes st @ concat (map rep_shadowed reps)) = mset (surface_seqs es)"
    by (auto simp: surface_inv_def)
  have "distinct (map ev_seq es)" using seqs by simp
  then have "distinct (surface_seqs es)"
    unfolding surface_seqs_def by (induction es) auto
  then show ?thesis using ms mset_eq_imp_distinct_iff by blast
qed

section \<open>The fold depends on the folded events only\<close>

text \<open>
  A rewrite looks its target up in the whole log, so the step function takes the log. The targets
  are nodes, which lie in the part already folded: a longer log gives the same plan.
\<close>

lemma event_at_append: "s < base + length evs \<Longrightarrow> event_at (evs @ ds) base s = event_at evs base s"
  by (auto simp: event_at_def nth_append)

lemma check_rewrites_append:
  "\<forall>s \<in> set ss. s < base + length evs \<Longrightarrow> check_rewrites d (evs @ ds) base ss = check_rewrites d evs base ss"
  by (induction ss) (simp_all add: event_at_append split: option.splits event_data.splits)

lemma plan_surface_event_append:
  assumes "\<forall>n \<in> set (fs_nodes st). n < base + length evs"
  shows "plan_surface_event st e k (evs @ ds) base = plan_surface_event st e k evs base"
proof -
  have "assert_tool_result_rewrite e (rg_shadowed rg) (evs @ ds) base
      = assert_tool_result_rewrite e (rg_shadowed rg) evs base"
    if "replacement_range st s t = Inr rg" for s t rg
    using shadowed_subset [OF that] assms
    by (auto simp: assert_tool_result_rewrite_def check_rewrites_append subset_iff split: event_data.splits)
  then show ?thesis
    unfolding plan_surface_event_def
    by (auto intro!: bind_res_cong split: option.split surface_op.split)
qed

lemma surface_step_append:
  "surface_inv base es (k, st, reps) \<Longrightarrow> length es \<le> length evs \<Longrightarrow>
    surface_step (evs @ ds) base (k, st, reps) e = surface_step evs base (k, st, reps) e"
  using surface_inv_nodes(2) [of base es k st reps]
    plan_surface_event_append [of st base evs e k ds]
  by (fastforce simp: surface_step_def apply_surface_event_def)

abbreviation surface_start :: "nat \<Rightarrow> surface_run" where
  "surface_start base \<equiv> (base, create_fold_state, [])"

lemma surface_run_append:
  "length es \<le> length evs \<Longrightarrow>
     run_fold (surface_step (evs @ ds) base) (surface_start base) es
     = run_fold (surface_step evs base) (surface_start base) es"
proof (induction es rule: rev_induct)
  case Nil
  then show ?case by simp
next
  case (snoc e es)
  then have IH: "run_fold (surface_step (evs @ ds) base) (surface_start base) es
      = run_fold (surface_step evs base) (surface_start base) es" by simp
  show ?case
  proof (cases "run_fold (surface_step evs base) (surface_start base) es")
    case (Inl x)
    with IH show ?thesis by (simp add: run_fold_snoc)
  next
    case (Inr r)
    obtain k st reps where r: "r = (k, st, reps)" by (cases r) auto
    have "surface_inv base es (k, st, reps)" using surf.run_inv [OF Inr] r by simp
    from surface_step_append [OF this] snoc.prems IH Inr r show ?thesis by (simp add: run_fold_snoc)
  qed
qed

lemma fold_surface_snoc:
  "run_fold (surface_step (evs @ [e]) 0) (surface_start 0) (evs @ [e])
   = bind_res (run_fold (surface_step evs 0) (surface_start 0) evs) (\<lambda>r. surface_step evs 0 r e)"
proof (cases "run_fold (surface_step evs 0) (surface_start 0) evs")
  case (Inl x)
  then show ?thesis by (simp add: run_fold_snoc surface_run_append)
next
  case (Inr r)
  obtain k st reps where r: "r = (k, st, reps)" by (cases r) auto
  have "surface_inv 0 evs (k, st, reps)" using surf.run_inv [OF Inr] r by simp
  from surface_step_append [OF this] Inr r show ?thesis by (simp add: run_fold_snoc surface_run_append)
qed

section \<open>The incremental manager\<close>

text \<open>
  \<open>sm_next\<close> is \<^verbatim>\<open>_lastProcessedSeq + 1\<close>. The log is the array shared with the owner of the manager,
  so every operation takes its current value. A step that throws leaves the manager as the steps
  before it left it; each operation returns the manager beside the error or the value. The object
  identity that recognises the pending candidate is equality of events here: equal candidates at
  one sequence number have one plan.
\<close>

record surface_manager =
  sm_base :: nat
  sm_next :: nat
  sm_state :: fold_state
  sm_pending :: "(session_event \<times> nat \<times> surface_plan option) option"

definition new_surface_manager :: "nat \<Rightarrow> surface_manager" where
  "new_surface_manager base =
     \<lparr> sm_base = base, sm_next = base, sm_state = create_fold_state, sm_pending = None \<rparr>"

definition delta_step :: "session_event list \<Rightarrow> surface_manager \<Rightarrow> session_event \<Rightarrow> surface_error + surface_manager" where
  "delta_step evs sm e =
     (let seq = sm_next sm in
      bind_res
        (case sm_pending sm of
           Some (pe, pk, plan) \<Rightarrow>
             if pe = e \<and> pk = seq then Inr (fst (apply_surface_plan (sm_state sm) plan))
             else bind_res (apply_surface_event (sm_state sm) e seq evs (sm_base sm)) (\<lambda>(st, _). Inr st)
         | None \<Rightarrow> bind_res (apply_surface_event (sm_state sm) e seq evs (sm_base sm)) (\<lambda>(st, _). Inr st))
        (\<lambda>st. Inr (sm\<lparr> sm_state := st,
                      sm_pending := (case sm_pending sm of
                          Some (pe, pk, plan) \<Rightarrow> if pk \<le> seq then None else Some (pe, pk, plan)
                        | None \<Rightarrow> None),
                      sm_next := Suc seq \<rparr>)))"

fun delta_loop ::
  "session_event list \<Rightarrow> surface_manager \<Rightarrow> session_event list \<Rightarrow> surface_manager \<times> surface_error option" where
  "delta_loop evs sm [] = (sm, None)"
| "delta_loop evs sm (e # es) =
     (case delta_step evs sm e of
        Inl x \<Rightarrow> (sm, Some x)
      | Inr sm' \<Rightarrow> delta_loop evs sm' es)"

definition process_delta :: "surface_manager \<Rightarrow> session_event list \<Rightarrow> surface_manager \<times> surface_error option" where
  "process_delta sm evs = delta_loop evs sm (drop (sm_next sm - sm_base sm) evs)"

definition sync_manager :: "surface_manager \<Rightarrow> session_event list \<Rightarrow> surface_manager \<times> surface_error option" where
  "sync_manager sm evs =
     (if sm_next sm < sm_base sm + length evs then process_delta sm evs else (sm, None))"

definition validate_next ::
  "surface_manager \<Rightarrow> session_event list \<Rightarrow> session_event \<Rightarrow> surface_manager \<times> surface_error option" where
  "validate_next sm evs e =
     (case sync_manager sm evs of
        (sm1, Some x) \<Rightarrow> (sm1, Some x)
      | (sm1, None) \<Rightarrow>
          let expected = sm_base sm1 + length evs in
          (case plan_surface_event (sm_state sm1) e expected evs (sm_base sm1) of
             Inl x \<Rightarrow> (sm1, Some x)
           | Inr plan \<Rightarrow> (sm1\<lparr> sm_pending := Some (e, expected, plan) \<rparr>, None)))"

definition surface_nodes :: "surface_manager \<Rightarrow> session_event list \<Rightarrow> surface_manager \<times> (surface_error + nat list)" where
  "surface_nodes sm evs =
     (case sync_manager sm evs of
        (sm1, Some x) \<Rightarrow> (sm1, Inl x)
      | (sm1, None) \<Rightarrow> (sm1, Inr (fs_nodes (sm_state sm1))))"

definition replace_generation :: "surface_manager \<Rightarrow> session_event list \<Rightarrow> surface_manager \<times> (surface_error + nat)" where
  "replace_generation sm evs =
     (case sync_manager sm evs of
        (sm1, Some x) \<Rightarrow> (sm1, Inl x)
      | (sm1, None) \<Rightarrow> (sm1, Inr (fs_generation (sm_state sm1))))"

text \<open>
  What every manager keeps: its state is the fold of the events before \<open>sm_next\<close>, and a pending
  candidate carries the plan the fold would make for it.
\<close>

definition manager_ok :: "surface_manager \<Rightarrow> session_event list \<Rightarrow> bool" where
  "manager_ok sm evs \<longleftrightarrow>
     sm_base sm \<le> sm_next sm \<and> sm_next sm \<le> sm_base sm + length evs
     \<and> (\<exists>reps. run_fold (surface_step evs (sm_base sm)) (surface_start (sm_base sm))
                 (take (sm_next sm - sm_base sm) evs) = Inr (sm_next sm, sm_state sm, reps))
     \<and> (\<forall>e k plan. sm_pending sm = Some (e, k, plan) \<longrightarrow>
          k = sm_next sm \<and> plan_surface_event (sm_state sm) e k evs (sm_base sm) = Inr plan)"

lemma manager_ok_new: "manager_ok (new_surface_manager base) evs"
  by (simp add: manager_ok_def new_surface_manager_def)

lemma manager_ok_nodes:
  assumes "manager_ok sm evs" and "n \<in> set (fs_nodes (sm_state sm))"
  shows "n < sm_next sm"
proof -
  from assms(1) obtain reps where
    run: "run_fold (surface_step evs (sm_base sm)) (surface_start (sm_base sm))
            (take (sm_next sm - sm_base sm) evs) = Inr (sm_next sm, sm_state sm, reps)"
    and le: "sm_base sm \<le> sm_next sm" "sm_next sm \<le> sm_base sm + length evs"
    by (auto simp: manager_ok_def)
  from surface_inv_nodes(2) [OF surf.run_inv [OF run] assms(2)] le show ?thesis by simp
qed

lemma manager_ok_append:
  assumes "manager_ok sm evs"
  shows "manager_ok sm (evs @ ds)"
proof -
  have "\<forall>n \<in> set (fs_nodes (sm_state sm)). n < sm_base sm + length evs"
    using manager_ok_nodes [OF assms] assms by (auto simp: manager_ok_def intro: less_le_trans)
  note plan = plan_surface_event_append [OF this]
  have len: "length (take (sm_next sm - sm_base sm) evs) \<le> length evs" by simp
  have tk: "take (sm_next sm - sm_base sm) (evs @ ds) = take (sm_next sm - sm_base sm) evs"
    using assms by (simp add: manager_ok_def)
  show ?thesis
    using assms unfolding manager_ok_def tk surface_run_append [OF len] plan by simp
qed

text \<open>One step of the manager is one step of the fold, whether or not the plan was prepared.\<close>

lemma delta_step_fold:
  assumes "manager_ok sm evs"
  shows "delta_step evs sm e =
    bind_res (apply_surface_event (sm_state sm) e (sm_next sm) evs (sm_base sm)) (\<lambda>(st, _).
      Inr (sm\<lparr> sm_state := st, sm_pending := None, sm_next := Suc (sm_next sm) \<rparr>))"
proof (cases "sm_pending sm")
  case None
  then show ?thesis
    by (simp add: delta_step_def bind_res_def split_beta split: sum.splits)
next
  case (Some p)
  obtain pe pk plan where p: "p = (pe, pk, plan)" by (cases p) auto
  with assms Some have k: "pk = sm_next sm"
    and plan: "plan_surface_event (sm_state sm) pe pk evs (sm_base sm) = Inr plan"
    by (auto simp: manager_ok_def)
  show ?thesis
  proof (cases "pe = e")
    case True
    with Some p k plan show ?thesis
      by (simp add: delta_step_def apply_surface_event_def split_beta)
  next
    case False
    with Some p k show ?thesis
      by (simp add: delta_step_def bind_res_def split_beta split: sum.splits)
  qed
qed

lemma delta_step_ok:
  assumes ok: "manager_ok sm evs" and less: "sm_next sm < sm_base sm + length evs"
    and step: "delta_step evs sm (evs ! (sm_next sm - sm_base sm)) = Inr sm'"
  shows "manager_ok sm' evs" and "sm_next sm' = Suc (sm_next sm)" and "sm_base sm' = sm_base sm"
proof -
  let ?i = "sm_next sm - sm_base sm"
  from step [unfolded delta_step_fold [OF ok]] obtain st rep where
    ap: "apply_surface_event (sm_state sm) (evs ! ?i) (sm_next sm) evs (sm_base sm) = Inr (st, rep)"
    and sm': "sm' = sm\<lparr> sm_state := st, sm_pending := None, sm_next := Suc (sm_next sm) \<rparr>"
    by auto
  from ok obtain reps where
    run: "run_fold (surface_step evs (sm_base sm)) (surface_start (sm_base sm)) (take ?i evs)
            = Inr (sm_next sm, sm_state sm, reps)"
    and le: "sm_base sm \<le> sm_next sm"
    by (auto simp: manager_ok_def)
  have i: "?i < length evs" using less le by simp
  have "take (Suc ?i) evs = take ?i evs @ [evs ! ?i]" using i by (rule take_Suc_conv_app_nth)
  with run ap have "\<exists>reps'. run_fold (surface_step evs (sm_base sm)) (surface_start (sm_base sm))
      (take (Suc ?i) evs) = Inr (Suc (sm_next sm), st, reps')"
    by (simp add: run_fold_snoc surface_step_def)
  moreover have "Suc (sm_next sm) - sm_base sm = Suc ?i" using le by simp
  ultimately show "manager_ok sm' evs" "sm_next sm' = Suc (sm_next sm)" "sm_base sm' = sm_base sm"
    using sm' less le by (simp_all add: manager_ok_def)
qed

lemma delta_loop_ok:
  "manager_ok sm evs \<Longrightarrow> es = drop (sm_next sm - sm_base sm) evs \<Longrightarrow> delta_loop evs sm es = (sm', x) \<Longrightarrow>
     manager_ok sm' evs \<and> sm_base sm' = sm_base sm
     \<and> (x = None \<longrightarrow> sm_next sm' = sm_base sm + length evs)"
proof (induction es arbitrary: sm)
  case Nil
  then show ?case by (auto simp: manager_ok_def)
next
  case (Cons e es)
  note ok = Cons.prems(1) and d = Cons.prems(2) and l = Cons.prems(3)
  have le: "sm_base sm \<le> sm_next sm" using ok by (simp add: manager_ok_def)
  have less: "sm_next sm < sm_base sm + length evs"
    using arg_cong [OF d, of length] by simp
  have e: "evs ! (sm_next sm - sm_base sm) = e" using d by (metis nth_via_drop)
  have es: "es = drop (Suc (sm_next sm - sm_base sm)) evs"
    using d by (metis drop_Suc list.sel(3) tl_drop)
  show ?case
  proof (cases "delta_step evs sm e")
    case (Inl y)
    with l ok show ?thesis by auto
  next
    case (Inr u)
    note u = delta_step_ok [OF ok less, unfolded e, OF Inr]
    have "es = drop (sm_next u - sm_base u) evs"
      using u(2,3) le es by (simp add: Suc_diff_le)
    with Cons.IH [OF u(1) this] u(3) l Inr show ?thesis by simp
  qed
qed

lemma sync_manager_ok:
  assumes "manager_ok sm evs" and "sync_manager sm evs = (sm', x)"
  shows "manager_ok sm' evs" and "sm_base sm' = sm_base sm"
    and "x = None \<Longrightarrow> sm_next sm' = sm_base sm + length evs"
  using assms delta_loop_ok [OF assms(1) refl, of sm' x]
  by (auto simp: sync_manager_def process_delta_def manager_ok_def split: if_splits)

lemma validate_next_ok:
  assumes "manager_ok sm evs" and "validate_next sm evs e = (sm', x)"
  shows "manager_ok sm' evs" and "sm_base sm' = sm_base sm"
    and "x = None \<Longrightarrow> sm_next sm' = sm_base sm + length evs
           \<and> (\<exists>plan. sm_pending sm' = Some (e, sm_base sm + length evs, plan))"
proof -
  obtain sm1 y where sy: "sync_manager sm evs = (sm1, y)" by (cases "sync_manager sm evs") auto
  note s1 = sync_manager_ok [OF assms(1) sy]
  show "manager_ok sm' evs" and "sm_base sm' = sm_base sm"
    and "x = None \<Longrightarrow> sm_next sm' = sm_base sm + length evs
           \<and> (\<exists>plan. sm_pending sm' = Some (e, sm_base sm + length evs, plan))"
    using assms(2) sy s1
    by (auto simp: validate_next_def manager_ok_def Let_def split: option.splits sum.splits)
qed

text \<open>A synchronised manager has folded the whole log, and fails exactly when the fold fails.\<close>

lemma manager_ok_full:
  assumes "manager_ok sm evs" and "sm_next sm = sm_base sm + length evs"
  shows "\<exists>reps. run_fold (surface_step evs (sm_base sm)) (surface_start (sm_base sm)) evs
           = Inr (sm_next sm, sm_state sm, reps)"
  using assms by (auto simp: manager_ok_def)

lemma delta_loop_error:
  "manager_ok sm evs \<Longrightarrow> es = drop (sm_next sm - sm_base sm) evs \<Longrightarrow> delta_loop evs sm es = (sm', Some x) \<Longrightarrow>
     run_fold (surface_step evs (sm_base sm)) (surface_start (sm_base sm)) evs = Inl x"
proof (induction es arbitrary: sm)
  case Nil
  then show ?case by simp
next
  case (Cons e es)
  note ok = Cons.prems(1) and d = Cons.prems(2) and l = Cons.prems(3)
  have le: "sm_base sm \<le> sm_next sm" using ok by (simp add: manager_ok_def)
  have less: "sm_next sm < sm_base sm + length evs"
    using arg_cong [OF d, of length] by simp
  have e: "evs ! (sm_next sm - sm_base sm) = e" using d by (metis nth_via_drop)
  have es: "es = drop (Suc (sm_next sm - sm_base sm)) evs"
    using d by (metis drop_Suc list.sel(3) tl_drop)
  show ?case
  proof (cases "delta_step evs sm e")
    case (Inl y)
    from ok obtain reps where
      run: "run_fold (surface_step evs (sm_base sm)) (surface_start (sm_base sm))
              (take (sm_next sm - sm_base sm) evs) = Inr (sm_next sm, sm_state sm, reps)"
      by (auto simp: manager_ok_def)
    from Inl delta_step_fold [OF ok] have
      "apply_surface_event (sm_state sm) e (sm_next sm) evs (sm_base sm) = Inl y"
      by (auto simp: bind_res_def split: sum.splits)
    then have "run_fold (surface_step evs (sm_base sm)) (sm_next sm, sm_state sm, reps) (e # es) = Inl y"
      by (simp add: surface_step_def)
    moreover have "evs = take (sm_next sm - sm_base sm) evs @ (e # es)" using d by simp
    ultimately have "run_fold (surface_step evs (sm_base sm)) (surface_start (sm_base sm)) evs = Inl y"
      using run_fold_append_Inr [OF run] by metis
    with l Inl show ?thesis by simp
  next
    case (Inr u)
    note u = delta_step_ok [OF ok less, unfolded e, OF Inr]
    have "es = drop (sm_next u - sm_base u) evs"
      using u(2,3) le es by (simp add: Suc_diff_le)
    with Cons.IH [OF u(1) this] u(3) l Inr show ?thesis by simp
  qed
qed

inductive manager_run :: "nat \<Rightarrow> surface_manager \<Rightarrow> session_event list \<Rightarrow> bool" where
  created: "manager_run base (new_surface_manager base) evs"
| pushed: "manager_run base sm evs \<Longrightarrow> manager_run base sm (evs @ [e])"
| validated: "manager_run base sm evs \<Longrightarrow> manager_run base (fst (validate_next sm evs e)) evs"
| synced: "manager_run base sm evs \<Longrightarrow> manager_run base (fst (sync_manager sm evs)) evs"

lemma manager_run_ok: "manager_run base sm evs \<Longrightarrow> manager_ok sm evs \<and> sm_base sm = base"
proof (induction rule: manager_run.induct)
  case (created base evs)
  then show ?case by (simp add: manager_ok_new) (simp add: new_surface_manager_def)
next
  case (pushed base sm evs e)
  then show ?case by (simp add: manager_ok_append)
next
  case (validated base sm evs e)
  then show ?case using validate_next_ok(1,2) by (metis prod.collapse)
next
  case (synced base sm evs)
  then show ?case using sync_manager_ok(1,2) by (metis prod.collapse)
qed

lemma surface_nodes_full:
  assumes "manager_ok sm evs"
  shows "snd (surface_nodes sm evs)
    = bind_res (run_fold (surface_step evs (sm_base sm)) (surface_start (sm_base sm)) evs)
        (\<lambda>(_, st, _). Inr (fs_nodes st))"
proof -
  obtain sm1 y where sy: "sync_manager sm evs = (sm1, y)" by (cases "sync_manager sm evs") auto
  note s1 = sync_manager_ok [OF assms sy]
  show ?thesis
  proof (cases y)
    case None
    from manager_ok_full [OF s1(1)] s1(2,3) None sy show ?thesis
      by (auto simp: surface_nodes_def)
  next
    case (Some x)
    with sy have "delta_loop evs sm (drop (sm_next sm - sm_base sm) evs) = (sm1, Some x)"
      by (auto simp: sync_manager_def process_delta_def split: if_splits)
    from delta_loop_error [OF assms refl this] sy Some show ?thesis
      by (simp add: surface_nodes_def)
  qed
qed

section \<open>Replacements cite what they shadow\<close>

definition cited_seqs :: "session_event \<Rightarrow> nat list" where
  "cited_seqs e = (case ev_sources e of Some (JArr js) \<Rightarrow> map json_seq js | _ \<Rightarrow> [])"

text \<open>The record a replacement leaves, read against the event that made it.\<close>

definition replacement_ok :: "session_event list \<Rightarrow> nat \<Rightarrow> session_event \<Rightarrow> surface_replacement \<Rightarrow> bool" where
  "replacement_ok evs base e rep \<longleftrightarrow>
     ev_seq e = rep_seq rep \<and> rep_shadowed rep \<noteq> []
     \<and> hd (rep_shadowed rep) = rep_start rep \<and> last (rep_shadowed rep) = rep_end rep
     \<and> set (rep_shadowed rep) \<subseteq> set (cited_seqs e) \<and> (\<forall>s \<in> set (cited_seqs e). s < rep_seq rep)
     \<and> (case ev_data e of
          ToolResult d \<Rightarrow> \<exists>s e0 original. rep_shadowed rep = [s] \<and> event_at evs base s = Some e0
             \<and> ev_data e0 = ToolResult original \<and> tool_result_rest_equal original d
        | _ \<Rightarrow> True)"

lemma collect_sources_spec:
  "collect_sources t seq acc late js = Inr (acc', late') \<Longrightarrow>
     set acc' = set acc \<union> json_seq ` set js
     \<and> (late' = None \<longrightarrow> late = None \<and> (\<forall>j \<in> set js. json_seq j < seq))"
  by (induction js arbitrary: acc late) (auto simp: Let_def split: if_splits)

lemma assert_provenanceD:
  assumes "assert_provenance e shadowed = Inr ()"
  shows "set shadowed \<subseteq> set (cited_seqs e)" and "\<forall>s \<in> set (cited_seqs e). s < ev_seq e"
proof -
  have "set shadowed \<subseteq> set (cited_seqs e) \<and> (\<forall>s \<in> set (cited_seqs e). s < ev_seq e)"
    using assms
    by (auto simp: assert_provenance_def cited_seqs_def Let_def filter_empty_conv subset_iff
        dest!: collect_sources_spec split: option.splits json.splits if_splits prod.splits)
  then show "set shadowed \<subseteq> set (cited_seqs e)" "\<forall>s \<in> set (cited_seqs e). s < ev_seq e" by auto
qed

lemma assert_tool_result_rewriteD:
  assumes "assert_tool_result_rewrite e shadowed evs base = Inr ()" and "ev_data e = ToolResult d"
  obtains s e0 original where "shadowed = [s]" and "event_at evs base s = Some e0"
    and "ev_data e0 = ToolResult original" and "tool_result_rest_equal original d"
proof -
  from assms have one: "length shadowed = 1" and chk: "check_rewrites d evs base shadowed = Inr ()"
    by (auto simp: assert_tool_result_rewrite_def split: if_splits)
  then obtain s where "shadowed = [s]" by (auto simp: length_Suc_conv)
  with chk that show thesis by (auto split: option.splits event_data.splits if_splits)
qed

lemma replacement_ok_step:
  assumes "plan_surface_event st e k evs base = Inr (Some (PlanReplace q s t rg))"
  shows "replacement_ok evs base e
           \<lparr> rep_seq = q, rep_start = s, rep_end = t, rep_shadowed = rg_shadowed rg \<rparr>"
  using assms
proof (cases rule: plan_surface_eventE)
  case (replace s' t' rg')
  then have eq: "q = k" "s' = s" "t' = t" "rg' = rg" by simp_all
  note rg = replacement_rangeD [OF replace(4) [unfolded eq]]
  let ?xs = "rg_shadowed rg"
  have len: "length ?xs = Suc (rg_end_idx rg) - rg_start_idx rg" using rg(1,2,3) by simp
  have ne: "?xs \<noteq> []" using len rg(1) by auto
  have hd: "hd ?xs = s" using rg by (simp add: hd_drop_conv_nth)
  have last: "last ?xs = t"
    using ne len rg by (simp add: last_conv_nth)
  show ?thesis
    using replace eq ne hd last assert_provenanceD [OF replace(5)] assert_tool_result_rewriteD [OF replace(6)]
    by (auto simp: replacement_ok_def split: event_data.split) metis
qed simp_all

definition replacements_inv ::
  "session_event list \<Rightarrow> nat \<Rightarrow> session_event list \<Rightarrow> surface_run \<Rightarrow> bool" where
  "replacements_inv evs base es r =
     (\<forall>rep \<in> set (snd (snd r)). \<exists>e \<in> set es. replacement_ok evs base e rep)"

lemma replacements_inv_step:
  assumes "replacements_inv evs base es r" and "surface_step evs base r e = Inr r'"
  shows "replacements_inv evs base (es @ [e]) r'"
proof -
  obtain k st reps where r: "r = (k, st, reps)" by (cases r) auto
  obtain k' st' reps' where r': "r' = (k', st', reps')" by (cases r') auto
  from assms(2) r r' obtain plan rep where
    plan: "plan_surface_event st e k evs base = Inr plan"
    and ap: "apply_surface_plan st plan = (st', rep)"
    and reps': "reps' = (case rep of None \<Rightarrow> reps | Some p \<Rightarrow> reps @ [p])"
    by (blast elim: surface_stepE)
  have "\<forall>p. rep = Some p \<longrightarrow> replacement_ok evs base e p"
  proof (cases "\<exists>q s t rg. plan = Some (PlanReplace q s t rg)")
    case True
    with ap replacement_ok_step plan show ?thesis by auto
  next
    case False
    with ap show ?thesis by (cases "(st, plan)" rule: apply_surface_plan.cases) auto
  qed
  with assms(1) r r' reps' show ?thesis
    by (auto simp: replacements_inv_def split: option.splits)
qed

interpretation prov: fold_invariant "surface_step evs base" "(base, create_fold_state, [])"
  "replacements_inv evs base"
  by unfold_locales (simp add: replacements_inv_def, rule replacements_inv_step)

section \<open>Properties\<close>

definition sample_user :: "string \<Rightarrow> message" where
  "sample_user i = create_user_message i [TextBlock ''text''] SrcUser"

definition sample_log :: "session_event list" where
  "sample_log =
     [\<lparr> ev_seq = 0, ev_time = 10, ev_data = TurnStart 1, ev_surface_op = None, ev_sources = None,
        ev_ignorable = False \<rparr>,
      \<lparr> ev_seq = 1, ev_time = 11, ev_data = UserMessage (sample_user ''m1''),
        ev_surface_op = Some op_append, ev_sources = None, ev_ignorable = False \<rparr>,
      \<lparr> ev_seq = 2, ev_time = 12, ev_data = UserMessage (sample_user ''m2''),
        ev_surface_op = Some op_append, ev_sources = None, ev_ignorable = False \<rparr>,
      \<lparr> ev_seq = 3, ev_time = 13, ev_data = UserMessage (sample_user ''m3''),
        ev_surface_op = Some (op_replace 1 2), ev_sources = Some (seqs_json [1, 2]), ev_ignorable = False \<rparr>]"

lemma sample_log_fold:
  "fold_surface sample_log =
     Inr ([3], [\<lparr> rep_seq = 3, rep_start = 1, rep_end = 2, rep_shadowed = [1, 2] \<rparr>])"
  by code_simp

text \<open>
  C4: no message-producing event is lost or counted twice. In a log the fold accepts, the current
  nodes and the nodes shadowed by the replacements are together exactly the surface events of the
  log, each once.
\<close>

theorem surface_conservation:
  assumes "fold_surface evs = Inr (nodes, reps)"
  shows "mset nodes + mset (concat (map rep_shadowed reps)) = mset (surface_seqs evs)
    \<and> distinct (nodes @ concat (map rep_shadowed reps))"
proof -
  from assms obtain k st where
    run: "run_fold (surface_step evs 0) (surface_start 0) evs = Inr (k, st, reps)"
    and nodes: "nodes = fs_nodes st"
    by (auto simp: fold_surface_def)
  note inv = surf.run_inv [OF run]
  from surface_inv_distinct [OF inv] inv nodes show ?thesis by (simp add: surface_inv_def)
qed

theorem surface_conservation_witness:
  "mset [3] + mset (concat (map rep_shadowed [\<lparr> rep_seq = 3, rep_start = 1, rep_end = 2, rep_shadowed = [1, 2] \<rparr>]))
     = mset (surface_seqs sample_log)"
  using surface_conservation [OF sample_log_fold] by (rule conjunct1)

text \<open>
  C8: the incremental manager is the full fold. After any sequence of log appends, candidate
  validations (accepted or refused) and reads, reading the nodes gives what replaying the whole
  log gives, errors included.
\<close>

theorem surface_manager_refines_fold:
  assumes "manager_run 0 sm evs"
  shows "snd (surface_nodes sm evs) = bind_res (fold_surface evs) (\<lambda>(nodes, _). Inr nodes)"
proof -
  note ok = manager_run_ok [OF assms]
  have "snd (surface_nodes sm evs)
      = bind_res (run_fold (surface_step evs 0) (surface_start 0) evs) (\<lambda>(_, st, _). Inr (fs_nodes st))"
    using surface_nodes_full [of sm evs] ok by simp
  then show ?thesis
    by (auto simp: fold_surface_def bind_res_def split: sum.splits prod.splits)
qed

theorem surface_manager_refines_fold_witness:
  "snd (surface_nodes (fst (validate_next (new_surface_manager 0) [] (hd sample_log))) ([] @ [hd sample_log]))
     = Inr []"
proof -
  have "manager_run 0 (fst (validate_next (new_surface_manager 0) [] (hd sample_log))) ([] @ [hd sample_log])"
    by (intro manager_run.intros)
  moreover have "fold_surface ([] @ [hd sample_log]) = Inr ([], [])" by code_simp
  ultimately show ?thesis using surface_manager_refines_fold by fastforce
qed

text \<open>
  C9: a replacement accounts for the range it hides. It shadows a non-empty range from its declared
  start to its declared end, it cites every shadowed event and only earlier events, and a replacing
  tool result rewrites one current tool result in its content only.
\<close>

theorem surface_replacement_provenance:
  assumes "fold_surface evs = Inr (nodes, reps)"
  shows "\<forall>rep \<in> set reps. \<exists>e \<in> set evs. replacement_ok evs 0 e rep"
proof -
  from assms obtain k st where
    run: "run_fold (surface_step evs 0) (surface_start 0) evs = Inr (k, st, reps)"
    by (auto simp: fold_surface_def)
  from prov.run_inv [OF run] show ?thesis by (simp add: replacements_inv_def)
qed

theorem surface_replacement_provenance_witness:
  "\<exists>e \<in> set sample_log. replacement_ok sample_log 0 e
     \<lparr> rep_seq = 3, rep_start = 1, rep_end = 2, rep_shadowed = [1, 2] \<rparr>"
  using surface_replacement_provenance [OF sample_log_fold] by simp

end
