(* ===== verification/Request_Header.thy ===== *)
theory Request_Header
  imports Session_Types
begin

text \<open>
  \<^verbatim>\<open>packages/core/session/src/request-header.ts\<close>: canonical form, comparison and reconstruction of
  the request header. Tool schemas are ordered JSON values; \<^verbatim>\<open>JSON.stringify\<close> distinguishes two of
  them exactly when they differ, key order included, so its comparison is equality of \<open>json\<close>.
\<close>

section \<open>Definitions\<close>

definition canonical_header :: "epoch_header \<Rightarrow> epoch_header" where
  "canonical_header h =
     \<lparr> eh_config = eh_config h,
       eh_adapter_defaults = (case eh_adapter_defaults h of
           Some d \<Rightarrow> if def_reasoning_effort d \<or> def_max_tokens d then Some d else None
         | None \<Rightarrow> None),
       eh_system = (case eh_system h of Some s \<Rightarrow> if length s > 0 then Some s else None | None \<Rightarrow> None),
       eh_tools = (case eh_tools h of Some ts \<Rightarrow> if length ts > 0 then Some ts else None | None \<Rightarrow> None) \<rparr>"

definition same_schema :: "json \<Rightarrow> json \<Rightarrow> bool" where
  "same_schema a b = (a = b)"

definition default_effort :: "epoch_header \<Rightarrow> bool" where
  "default_effort h = (case eh_adapter_defaults h of Some d \<Rightarrow> def_reasoning_effort d | None \<Rightarrow> False)"

definition default_max_tokens :: "epoch_header \<Rightarrow> bool" where
  "default_max_tokens h = (case eh_adapter_defaults h of Some d \<Rightarrow> def_max_tokens d | None \<Rightarrow> False)"

definition header_equals :: "epoch_header \<Rightarrow> epoch_header \<Rightarrow> bool" where
  "header_equals a b =
     (if \<not> call_config_equals (eh_config a) (eh_config b)
         \<or> default_effort a \<noteq> default_effort b
         \<or> default_max_tokens a \<noteq> default_max_tokens b
         \<or> eh_system a \<noteq> eh_system b
      then False
      else let ats = (case eh_tools a of Some ts \<Rightarrow> ts | None \<Rightarrow> []);
               bts = (case eh_tools b of Some ts \<Rightarrow> ts | None \<Rightarrow> [])
        in length ats = length bts \<and> list_all (\<lambda>i. same_schema (ats ! i) (bts ! i)) [0 ..< length ats])"

definition header_step :: "epoch_header option \<Rightarrow> session_event \<Rightarrow> epoch_header option" where
  "header_step st e = (case ev_data e of RequestHeader h _ \<Rightarrow> Some (canonical_header h) | _ \<Rightarrow> st)"

definition fold_request_header ::
  "session_event list \<Rightarrow> epoch_header option \<Rightarrow> epoch_header option" where
  "fold_request_header events from = foldl header_step from events"

section \<open>Laws\<close>

lemma canonical_header_idem [simp]: "canonical_header (canonical_header h) = canonical_header h"
  by (simp add: canonical_header_def split: option.splits)

lemma fold_request_header_append:
  "fold_request_header (es @ ds) from = fold_request_header ds (fold_request_header es from)"
  by (simp add: fold_request_header_def)

interpretation header_view: incremental_view "\<lambda>es. fold_request_header es None"
  "\<lambda>st es. fold_request_header es st"
  by unfold_locales (simp add: fold_request_header_append)

lemma fold_request_header_canonical:
  "fold_request_header es from = Some h \<Longrightarrow> (\<forall>h'. from = Some h' \<longrightarrow> canonical_header h' = h') \<Longrightarrow>
     canonical_header h = h"
proof (induction es arbitrary: "from")
  case Nil
  then show ?case by (simp add: fold_request_header_def)
next
  case (Cons e es)
  then have run: "fold_request_header es (header_step from e) = Some h"
    by (simp add: fold_request_header_def)
  moreover have "\<forall>h'. header_step from e = Some h' \<longrightarrow> canonical_header h' = h'"
    using Cons.prems(2) by (auto simp: header_step_def split: event_data.splits)
  ultimately show ?case by (rule Cons.IH)
qed

text \<open>A canonical header has no empty parts, so the comparison tells any two of them apart.\<close>

lemma header_equals_canonical:
  "header_equals (canonical_header a) (canonical_header b) \<longleftrightarrow> canonical_header a = canonical_header b"
proof
  assume eq: "header_equals (canonical_header a) (canonical_header b)"
  let ?a = "canonical_header a" and ?b = "canonical_header b"
  have cfg: "eh_config ?a = eh_config ?b" and sys: "eh_system ?a = eh_system ?b"
    and de: "default_effort ?a = default_effort ?b" and dm: "default_max_tokens ?a = default_max_tokens ?b"
    and ts: "(case eh_tools ?a of Some ts \<Rightarrow> ts | None \<Rightarrow> []) = (case eh_tools ?b of Some ts \<Rightarrow> ts | None \<Rightarrow> [])"
    using eq every_index_eq
    by (auto simp: header_equals_def call_config_equals_iff same_schema_def Let_def split: if_splits)
  have tools: "eh_tools ?a = eh_tools ?b"
    using ts by (auto simp: canonical_header_def split: option.splits if_splits)
  have defs: "eh_adapter_defaults ?a = eh_adapter_defaults ?b"
    using de dm by (auto simp: canonical_header_def default_effort_def default_max_tokens_def
        split: option.splits if_splits)
  show "?a = ?b" using cfg sys tools defs by (simp add: epoch_header.equality)
next
  assume "canonical_header a = canonical_header b"
  then show "header_equals (canonical_header a) (canonical_header b)"
    by (auto simp: header_equals_def call_config_equals_iff same_schema_def Let_def list_all_iff)
qed

section \<open>Properties\<close>

text \<open>
  On canonical headers the comparison the loop uses decides equality: two headers it does not
  tell apart are the same configuration, adapter defaults, prompt and tool list, and a header is
  never reported as changed when it is not.
\<close>

theorem header_equals_canonical_iff:
  "header_equals (canonical_header a) (canonical_header b) \<longleftrightarrow> canonical_header a = canonical_header b"
  by (rule header_equals_canonical)

end
