(* ===== verification/Session_Log.thy ===== *)
theory Session_Log
  imports Surface Request_Header
begin

text \<open>
  One session of \<^verbatim>\<open>packages/core/session/src/index.ts\<close>: construction from a seed or from restored
  storage, \<^verbatim>\<open>append\<close>, and the three caches over the log (request header, request context, derived
  messages). An operation that can throw returns the session beside the error, because a refused
  append still leaves the surface manager synchronised. Clock readings and \<^verbatim>\<open>node:path\<close>'s
  \<^verbatim>\<open>isAbsolute\<close> are arguments. Payloads are typed JSON values, so the lossless-JSON snapshot and the
  freezing of an accepted event are the identity here.
\<close>

section \<open>State\<close>

datatype session_error =
    SurfaceRejected surface_error
  | SeedSurfaceRejected nat surface_error
  | LegacyHeaderDelta
  | LegacyHeaderFallback
  | InvalidEnvelope nat
  | SeedHeaderLacksModel nat
  | SeedHeaderBadEffort nat
  | SeedHeaderBadDefaults nat
  | MessageUnidentified nat
  | MessageWrongRole nat
  | MessageBadSource nat
  | MessageNotModelSource nat
  | MessageNotToolSource nat
  | MessageMismatchedCall nat
  | SeedNotContiguous nat nat
  | HeaderBadVersion int
  | HeaderBadId session_id
  | HeaderBadCreatedAt
  | HeaderBadCwd string
  | HeaderBadSeedLength
  | HeaderBadDepth
  | AppendReentered
  | AppendVetoed string

record session =
  ses_header :: session_header
  ses_log :: "session_event list"
  ses_manager :: surface_manager
  ses_first_live :: nat
  ses_header_fold :: "epoch_header option"
  ses_header_fold_seq :: nat
  ses_context_fold :: "request_context option"
  ses_context_fold_seq :: nat
  ses_derived :: "message list"
  ses_derived_nodes :: nat
  ses_derived_generation :: nat

section \<open>Validation at the seed and header boundary\<close>

definition has_provider_model :: "string \<Rightarrow> string \<Rightarrow> bool" where
  "has_provider_model p m = (length p > 0 \<and> length m > 0)"

fun source_kind :: "message_source \<Rightarrow> string" where
  "source_kind SrcUser = ''user''"
| "source_kind (SrcPlugin _ _ _) = ''plugin''"
| "source_kind (SrcModel _ _ _) = ''model''"
| "source_kind (SrcTool _) = ''tool''"
| "source_kind (SrcGoal _ _ _) = ''goal''"
| "source_kind (SrcOther k _) = k"

definition assert_adapter_defaults ::
  "adapter_defaults option \<Rightarrow> llm_call_config \<Rightarrow> nat \<Rightarrow> session_error + unit" where
  "assert_adapter_defaults d cfg i =
     (case d of
        None \<Rightarrow> Inr ()
      | Some ds \<Rightarrow>
          if (def_reasoning_effort ds \<and> cfg_reasoning_effort cfg = None)
             \<or> (def_max_tokens ds \<and> cfg_max_tokens cfg = None)
          then Inl (SeedHeaderBadDefaults i) else Inr ())"

definition assert_identified ::
  "message_id \<Rightarrow> role \<Rightarrow> role \<Rightarrow> string \<Rightarrow> nat \<Rightarrow> session_error + unit" where
  "assert_identified mid actual expected kind i =
     (if mid = '''' then Inl (MessageUnidentified i)
      else if actual \<noteq> expected then Inl (MessageWrongRole i)
      else if kind = '''' then Inl (MessageBadSource i)
      else Inr ())"

definition assert_message_event_shape :: "session_event \<Rightarrow> nat \<Rightarrow> session_error + unit" where
  "assert_message_event_shape e i =
     (case ev_data e of
        UserMessage m \<Rightarrow>
          assert_identified (message_id m) (message_role m) User (source_kind (message_source m)) i
      | AssistantMessage _ _ m _ \<Rightarrow>
          bind_res (assert_identified (message_id m) (message_role m) Assistant
                      (source_kind (message_source m)) i) (\<lambda>_.
            case message_source m of
              SrcModel p mo _ \<Rightarrow>
                if has_provider_model p mo then Inr () else Inl (MessageNotModelSource i)
            | _ \<Rightarrow> Inl (MessageNotModelSource i))
      | ToolResult d \<Rightarrow>
          let m = tr_message d in
          bind_res (assert_identified (trm_id m) User User ''tool'' i) (\<lambda>_.
            if trm_call_id m = '''' then Inl (MessageNotToolSource i)
            else if trm_block_call_id m \<noteq> trm_call_id m then Inl (MessageMismatchedCall i)
            else Inr ())
      | _ \<Rightarrow> Inr ())"

definition assert_current_llm_shape :: "session_event \<Rightarrow> nat \<Rightarrow> session_error + unit" where
  "assert_current_llm_shape e i =
     (case ev_data e of
        RequestHeader h _ \<Rightarrow>
          let cfg = eh_config h in
          if \<not> has_provider_model (cfg_provider cfg) (cfg_model cfg) then Inl (SeedHeaderLacksModel i)
          else if cfg_reasoning_effort cfg = Some '''' then Inl (SeedHeaderBadEffort i)
          else assert_adapter_defaults (eh_adapter_defaults h) cfg i
      | _ \<Rightarrow> assert_message_event_shape e i)"

definition assert_session_event_envelope :: "session_event \<Rightarrow> nat \<Rightarrow> session_error + unit" where
  "assert_session_event_envelope e i =
     (if ev_type e = ''request/header-delta'' then Inl LegacyHeaderDelta
      else if \<not> safe_int (int (ev_seq e)) \<or> \<not> safe_int (ev_time e) then Inl (InvalidEnvelope i)
      else if ev_type e \<in> {''request/header'', ''user/message'', ''assistant/message'', ''tool/result''}
      then assert_current_llm_shape e i
      else Inr ())"

definition assert_supported_request_header :: "event_data \<Rightarrow> session_error + unit" where
  "assert_supported_request_header d =
     (if data_type d = ''request/header-delta'' then Inl LegacyHeaderDelta
      else case d of
          RequestHeader _ reason \<Rightarrow> if reason = ''fallback'' then Inl LegacyHeaderFallback else Inr ()
        | _ \<Rightarrow> Inr ())"

definition validate_session_header ::
  "(string \<Rightarrow> bool) \<Rightarrow> session_id \<Rightarrow> session_header \<Rightarrow> session_error + session_header" where
  "validate_session_header is_absolute i h =
     (if hdr_version h \<noteq> session_format_version then Inl (HeaderBadVersion (hdr_version h))
      else if hdr_id h \<noteq> i then Inl (HeaderBadId (hdr_id h))
      else if \<not> safe_int (hdr_created_at h) \<or> hdr_created_at h < 0 then Inl HeaderBadCreatedAt
      else case hdr_cwd h of
          Some d \<Rightarrow> if \<not> is_absolute d then Inl (HeaderBadCwd d) else
            if (case hdr_seed_length h of Some n \<Rightarrow> \<not> safe_int (int n) | None \<Rightarrow> False)
            then Inl HeaderBadSeedLength
            else if (case hdr_delegation_depth h of Some n \<Rightarrow> \<not> safe_int (int n) | None \<Rightarrow> False)
            then Inl HeaderBadDepth else Inr h
        | None \<Rightarrow>
            if (case hdr_seed_length h of Some n \<Rightarrow> \<not> safe_int (int n) | None \<Rightarrow> False)
            then Inl HeaderBadSeedLength
            else if (case hdr_delegation_depth h of Some n \<Rightarrow> \<not> safe_int (int n) | None \<Rightarrow> False)
            then Inl HeaderBadDepth else Inr h)"

section \<open>Append\<close>

text \<open>
  \<open>appending\<close> is the flag of the store entry the session is attached to (\<open>False\<close> when detached) and
  \<open>veto\<close> what the synchronous dispatch checks raise before the log changes. Observers run after the
  push and are contained, so they do not appear in the result.
\<close>

definition make_event ::
  "nat \<Rightarrow> int \<Rightarrow> event_data \<Rightarrow> json option \<Rightarrow> json option \<Rightarrow> bool \<Rightarrow> session_event" where
  "make_event seq now d op srcs ign =
     \<lparr> ev_seq = seq, ev_time = now, ev_data = d, ev_surface_op = op, ev_sources = srcs, ev_ignorable = ign \<rparr>"

definition append_event ::
  "bool \<Rightarrow> (session_event \<Rightarrow> string option) \<Rightarrow> int \<Rightarrow> session \<Rightarrow> event_data \<Rightarrow> json option \<Rightarrow> json option
     \<Rightarrow> bool \<Rightarrow> session \<times> (session_error + session_event)" where
  "append_event appending veto now s d op srcs ign =
     (case assert_supported_request_header d of
        Inl x \<Rightarrow> (s, Inl x)
      | Inr _ \<Rightarrow>
          if appending then (s, Inl AppendReentered)
          else
            let e = make_event (length (ses_log s)) now d op srcs ign in
            (case validate_next (ses_manager s) (ses_log s) e of
               (m, Some x) \<Rightarrow> (s\<lparr> ses_manager := m \<rparr>, Inl (SurfaceRejected x))
             | (m, None) \<Rightarrow>
                 (case veto e of
                    Some why \<Rightarrow> (s\<lparr> ses_manager := m \<rparr>, Inl (AppendVetoed why))
                  | None \<Rightarrow> (s\<lparr> ses_manager := m, ses_log := ses_log s @ [e] \<rparr>, Inr e))))"

abbreviation append_detached ::
  "int \<Rightarrow> session \<Rightarrow> event_data \<Rightarrow> json option \<Rightarrow> json option \<Rightarrow> bool
     \<Rightarrow> session \<times> (session_error + session_event)" where
  "append_detached \<equiv> append_event False (\<lambda>_. None)"

section \<open>Construction\<close>

datatype session_mode = ModeSnapshot | ModeRestore

fun seed_loop ::
  "nat \<Rightarrow> session_event list \<Rightarrow> surface_manager \<Rightarrow> session_event list
     \<Rightarrow> session_error + (session_event list \<times> surface_manager)" where
  "seed_loop i l m [] = Inr (l, m)"
| "seed_loop i l m (e # es) =
     bind_res (assert_session_event_envelope e i) (\<lambda>_.
     bind_res (assert_supported_request_header (ev_data e)) (\<lambda>_.
       if ev_seq e \<noteq> i then Inl (SeedNotContiguous (ev_seq e) i)
       else case validate_next m l e of
           (m', Some x) \<Rightarrow> Inl (SeedSurfaceRejected i x)
         | (m', None) \<Rightarrow> seed_loop (Suc i) (l @ [e]) m' es))"

definition default_header :: "session_id \<Rightarrow> int \<Rightarrow> session_header" where
  "default_header i now =
     \<lparr> hdr_version = session_format_version, hdr_id = i, hdr_created_at = now, hdr_cwd = None,
       hdr_parent_session = None, hdr_seed_length = None, hdr_origin_subagent = False,
       hdr_delegation_depth = None, hdr_agent_preset = None \<rparr>"

definition last_is_end_seed :: "session_event list \<Rightarrow> bool" where
  "last_is_end_seed l = (l \<noteq> [] \<and> ev_type (last l) = ''session/end-seed'')"

definition fresh_session :: "session_header \<Rightarrow> session_event list \<Rightarrow> surface_manager \<Rightarrow> session" where
  "fresh_session h l m =
     \<lparr> ses_header = h, ses_log = l, ses_manager = m, ses_first_live = length l,
       ses_header_fold = None, ses_header_fold_seq = 0,
       ses_context_fold = None, ses_context_fold_seq = 0,
       ses_derived = [], ses_derived_nodes = 0, ses_derived_generation = 0 \<rparr>"

definition new_session ::
  "(string \<Rightarrow> bool) \<Rightarrow> int \<Rightarrow> session_mode \<Rightarrow> session_id \<Rightarrow> session_event list option
     \<Rightarrow> session_header option \<Rightarrow> session_error + session" where
  "new_session is_absolute now mode i seed header =
     (let source = (case header of Some h \<Rightarrow> h | None \<Rightarrow> default_header i now) in
      bind_res (if mode = ModeRestore then validate_session_header is_absolute i source
                else Inr source) (\<lambda>_.
      bind_res (seed_loop 0 [] (new_surface_manager 0) (case seed of Some es \<Rightarrow> es | None \<Rightarrow> []))
        (\<lambda>(l, m).
      bind_res (validate_session_header is_absolute i source) (\<lambda>h.
        let s = fresh_session h l m in
        if seed \<noteq> None \<and> \<not> last_is_end_seed l then
          (case append_detached now s EndSeed None None False of
             (s', Inl x) \<Rightarrow> Inl x
           | (s', Inr _) \<Rightarrow> Inr s')
        else Inr s))))"

section \<open>Caches\<close>

definition request_header :: "session \<Rightarrow> session \<times> epoch_header option" where
  "request_header s =
     (if ses_header_fold_seq s < length (ses_log s) then
        let h = fold_request_header (drop (ses_header_fold_seq s) (ses_log s)) (ses_header_fold s) in
        (s\<lparr> ses_header_fold := h, ses_header_fold_seq := length (ses_log s) \<rparr>, h)
      else (s, ses_header_fold s))"

definition context_step :: "request_context option \<Rightarrow> session_event \<Rightarrow> request_context option" where
  "context_step st e = (case ev_data e of RequestContext c \<Rightarrow> Some c | _ \<Rightarrow> st)"

definition request_context :: "session \<Rightarrow> session \<times> request_context option" where
  "request_context s =
     (if ses_context_fold_seq s < length (ses_log s) then
        let c = foldl context_step (ses_context_fold s) (drop (ses_context_fold_seq s) (ses_log s)) in
        (s\<lparr> ses_context_fold := c, ses_context_fold_seq := length (ses_log s) \<rparr>, c)
      else (s, ses_context_fold s))"

definition messages_of :: "session_event list \<Rightarrow> nat list \<Rightarrow> message list" where
  "messages_of l ns = List.map_filter (\<lambda>n. derive_event_message (l ! n)) ns"

definition derive_messages :: "session \<Rightarrow> session \<times> (surface_error + message list)" where
  "derive_messages s =
     (case sync_manager (ses_manager s) (ses_log s) of
        (m, Some x) \<Rightarrow> (s\<lparr> ses_manager := m \<rparr>, Inl x)
      | (m, None) \<Rightarrow>
          let nodes = fs_nodes (sm_state m);
              generation = fs_generation (sm_state m);
              fresh = (generation \<noteq> ses_derived_generation s);
              old = (if fresh then [] else ses_derived s);
              seen = (if fresh then 0 else ses_derived_nodes s);
              derived = old @ messages_of (ses_log s) (drop seen nodes)
          in (s\<lparr> ses_manager := m, ses_derived := derived, ses_derived_nodes := length nodes,
                 ses_derived_generation := generation \<rparr>, Inr derived))"

end
