(* ===== verification/Session_Run.thy ===== *)
theory Session_Run
  imports Session_Log
begin

text \<open>
  What a session keeps: its log is always a log the full surface fold accepts, and its three caches
  agree with a replay of the log after any sequence of appends and reads. \<open>session_run\<close> is the
  relation of the sessions that construction and the public operations can reach.
\<close>

section \<open>Replaying a log keeps or rebuilds the nodes\<close>

lemma surface_step_generation:
  assumes "surface_step evs base (k, st, reps) e = Inr (k', st', reps')"
  shows "fs_generation st \<le> fs_generation st'
    \<and> (fs_generation st' = fs_generation st \<longrightarrow> (\<exists>zs. fs_nodes st' = fs_nodes st @ zs))"
proof -
  from assms obtain plan rep where ap: "apply_surface_plan st plan = (st', rep)"
    by (blast elim: surface_stepE)
  show ?thesis using ap by (cases "(st, plan)" rule: apply_surface_plan.cases) auto
qed

lemma surface_run_generation:
  "run_fold (surface_step evs base) (k, st, reps) ds = Inr (k', st', reps') \<Longrightarrow>
     fs_generation st \<le> fs_generation st'
     \<and> (fs_generation st' = fs_generation st \<longrightarrow> (\<exists>zs. fs_nodes st' = fs_nodes st @ zs))"
proof (induction ds arbitrary: k st reps)
  case Nil
  then show ?case by simp
next
  case (Cons e ds)
  then obtain k1 st1 reps1 where step: "surface_step evs base (k, st, reps) e = Inr (k1, st1, reps1)"
    and run: "run_fold (surface_step evs base) (k1, st1, reps1) ds = Inr (k', st', reps')"
    by (metis prod_cases3 run_fold_ConsE)
  from surface_step_generation [OF step] Cons.IH [OF run] show ?case by fastforce
qed

lemma messages_of_append: "messages_of evs (ns @ ms) = messages_of evs ns @ messages_of evs ms"
  by (simp add: messages_of_def map_filter_def)

lemma messages_of_longer:
  "\<forall>n \<in> set ns. n < length evs \<Longrightarrow> messages_of (evs @ ds) ns = messages_of evs ns"
  by (induction ns) (auto simp: messages_of_def map_filter_def nth_append)

section \<open>The invariant\<close>

definition log_accepted :: "session_event list \<Rightarrow> bool" where
  "log_accepted evs = (\<exists>r. run_fold (surface_step evs 0) (surface_start 0) evs = Inr r)"

definition derived_ok :: "session \<Rightarrow> bool" where
  "derived_ok s \<longleftrightarrow> (\<exists>n k st reps. n \<le> length (ses_log s)
     \<and> run_fold (surface_step (ses_log s) 0) (surface_start 0) (take n (ses_log s)) = Inr (k, st, reps)
     \<and> ses_derived_generation s = fs_generation st \<and> ses_derived_nodes s = length (fs_nodes st)
     \<and> ses_derived s = messages_of (ses_log s) (fs_nodes st))"

definition session_ok :: "session \<Rightarrow> bool" where
  "session_ok s \<longleftrightarrow>
     manager_ok (ses_manager s) (ses_log s) \<and> sm_base (ses_manager s) = 0
     \<and> log_accepted (ses_log s)
     \<and> ses_header_fold_seq s \<le> length (ses_log s)
     \<and> ses_header_fold s = fold_request_header (take (ses_header_fold_seq s) (ses_log s)) None
     \<and> ses_context_fold_seq s \<le> length (ses_log s)
     \<and> ses_context_fold s = foldl context_step None (take (ses_context_fold_seq s) (ses_log s))
     \<and> derived_ok s"

interpretation context_view: incremental_view "foldl context_step None" "foldl context_step"
  by unfold_locales simp

lemma log_accepted_seqs: "log_accepted evs \<Longrightarrow> map ev_seq evs = [0 ..< length evs]"
proof -
  assume "log_accepted evs"
  then obtain k st reps where "run_fold (surface_step evs 0) (surface_start 0) evs = Inr (k, st, reps)"
    by (auto simp: log_accepted_def)
  from surf.run_inv [OF this] have inv: "surface_inv 0 evs (k, st, reps)" .
  from surface_inv_length [OF inv] inv show ?thesis by (simp add: surface_inv_def)
qed

lemma log_accepted_Nil [simp]: "log_accepted []"
  by (simp add: log_accepted_def)

text \<open>A candidate the manager accepts keeps the log acceptable.\<close>

lemma validate_next_accepts:
  assumes ok: "manager_ok m evs" and base: "sm_base m = 0"
    and v: "validate_next m evs e = (m', None)"
  shows "log_accepted (evs @ [e])"
proof -
  note v3 = validate_next_ok [OF ok v]
  from v3(3) base obtain plan where nx: "sm_next m' = length evs"
    and pend: "sm_pending m' = Some (e, length evs, plan)" by auto
  have b: "sm_base m' = 0" using v3(2) base by simp
  from manager_ok_full [OF v3(1)] nx b obtain reps where
    run: "run_fold (surface_step evs 0) (surface_start 0) evs = Inr (length evs, sm_state m', reps)"
    by auto
  have "plan_surface_event (sm_state m') e (length evs) evs (sm_base m') = Inr plan"
    using v3(1) pend unfolding manager_ok_def by blast
  then have "plan_surface_event (sm_state m') e (length evs) evs 0 = Inr plan"
    using b by simp
  then have "\<exists>r. surface_step evs 0 (length evs, sm_state m', reps) e = Inr r"
    by (simp add: surface_step_def apply_surface_event_def split_beta)
  with run show ?thesis by (auto simp: log_accepted_def fold_surface_snoc)
qed

lemma derived_ok_push:
  assumes "derived_ok s"
  shows "derived_ok (s\<lparr> ses_manager := m, ses_log := ses_log s @ [e] \<rparr>)"
proof -
  from assms obtain n k st reps where n: "n \<le> length (ses_log s)"
    and run: "run_fold (surface_step (ses_log s) 0) (surface_start 0) (take n (ses_log s)) = Inr (k, st, reps)"
    and rest: "ses_derived_generation s = fs_generation st" "ses_derived_nodes s = length (fs_nodes st)"
      "ses_derived s = messages_of (ses_log s) (fs_nodes st)"
    by (auto simp: derived_ok_def)
  have tk: "take n (ses_log s @ [e]) = take n (ses_log s)" using n by simp
  have "run_fold (surface_step (ses_log s @ [e]) 0) (surface_start 0) (take n (ses_log s @ [e])) = Inr (k, st, reps)"
    unfolding tk using run surface_run_append [of "take n (ses_log s)" "ses_log s" "[e]" 0] by simp
  moreover have "\<forall>i \<in> set (fs_nodes st). i < length (ses_log s)"
    using surface_inv_nodes(2) [OF surf.run_inv [OF run]] n by fastforce
  ultimately show ?thesis
    using n rest messages_of_longer [of "fs_nodes st" "ses_log s" "[e]"]
    unfolding derived_ok_def
    by (intro exI [of _ n] exI [of _ k] exI [of _ st] exI [of _ reps]) simp
qed

lemma session_ok_manager:
  assumes "session_ok s" and "manager_ok m (ses_log s)" and "sm_base m = 0"
  shows "session_ok (s\<lparr> ses_manager := m \<rparr>)"
  using assms by (simp add: session_ok_def derived_ok_def)

lemma session_ok_push:
  assumes "session_ok s" and v: "validate_next (ses_manager s) (ses_log s) e = (m, None)"
  shows "session_ok (s\<lparr> ses_manager := m, ses_log := ses_log s @ [e] \<rparr>)"
proof -
  have ok: "manager_ok (ses_manager s) (ses_log s)" "sm_base (ses_manager s) = 0"
    using assms(1) by (simp_all add: session_ok_def)
  note v3 = validate_next_ok [OF ok(1) v]
  have "manager_ok m (ses_log s @ [e])" using manager_ok_append v3(1) by blast
  moreover have "sm_base m = 0" using v3(2) ok(2) by simp
  moreover have "log_accepted (ses_log s @ [e])" by (rule validate_next_accepts [OF ok v])
  ultimately show ?thesis
    using assms(1) derived_ok_push [of s] by (simp add: session_ok_def)
qed

section \<open>Every operation keeps the invariant\<close>

lemma append_event_cases:
  assumes "append_event appending veto now s d op srcs ign = (s', r)"
  obtains (refused) m x where "s' = s\<lparr> ses_manager := m \<rparr>" and "r = Inl x"
      and "m = ses_manager s \<or> m = fst (validate_next (ses_manager s) (ses_log s)
              (make_event (length (ses_log s)) now d op srcs ign))"
    | (logged) m e where "e = make_event (length (ses_log s)) now d op srcs ign" and "r = Inr e"
      and "validate_next (ses_manager s) (ses_log s) e = (m, None)"
      and "assert_supported_request_header d = Inr ()" and "veto e = None" and "\<not> appending"
      and "s' = s\<lparr> ses_manager := m, ses_log := ses_log s @ [e] \<rparr>"
proof -
  have self: "s\<lparr> ses_manager := ses_manager s \<rparr> = s" by simp
  show thesis
    using assms refused [of "ses_manager s"] refused logged
    unfolding append_event_def Let_def
    by (auto simp: self split: sum.splits if_splits prod.splits option.splits)
qed

lemma append_event_ok:
  assumes "session_ok s" and "append_event appending veto now s d op srcs ign = (s', r)"
  shows "session_ok s'"
  using assms(2)
proof (cases rule: append_event_cases)
  case (refused m x)
  have ok: "manager_ok (ses_manager s) (ses_log s)" "sm_base (ses_manager s) = 0"
    using assms(1) by (simp_all add: session_ok_def)
  have "manager_ok m (ses_log s) \<and> sm_base m = 0"
    using refused(3) ok validate_next_ok(1,2) [OF ok(1)] by (metis prod.collapse)
  with refused(1) session_ok_manager [OF assms(1)] show ?thesis by simp
next
  case (logged m e)
  with session_ok_push [OF assms(1)] show ?thesis by simp
qed

lemma request_header_ok: "session_ok s \<Longrightarrow> session_ok (fst (request_header s))"
  by (auto simp: session_ok_def request_header_def derived_ok_def header_view.catch_up Let_def)

lemma request_context_ok: "session_ok s \<Longrightarrow> session_ok (fst (request_context s))"
  by (auto simp: session_ok_def request_context_def derived_ok_def context_view.catch_up Let_def)

lemma sync_manager_accepted:
  assumes ok: "manager_ok m evs" and base: "sm_base m = 0" and acc: "log_accepted evs"
  obtains m' reps where "sync_manager m evs = (m', None)" and "manager_ok m' evs" and "sm_base m' = 0"
    and "run_fold (surface_step evs 0) (surface_start 0) evs = Inr (length evs, sm_state m', reps)"
proof -
  obtain m' y where sy: "sync_manager m evs = (m', y)" by (cases "sync_manager m evs") auto
  note s3 = sync_manager_ok [OF ok sy]
  have y: "y = None"
  proof (cases y)
    case (Some x)
    with sy have "delta_loop evs m (drop (sm_next m - sm_base m) evs) = (m', Some x)"
      by (auto simp: sync_manager_def process_delta_def split: if_splits)
    from delta_loop_error [OF ok refl this] base acc show ?thesis by (simp add: log_accepted_def)
  qed simp
  have "\<exists>reps. run_fold (surface_step evs 0) (surface_start 0) evs = Inr (length evs, sm_state m', reps)"
    using manager_ok_full [OF s3(1)] s3(2) s3(3) [OF y] base by auto
  with that sy y s3(1,2) base show thesis by auto
qed

text \<open>One read of the derived messages: the cache is extended, or rebuilt after a replacement.\<close>

lemma derive_messages_step:
  assumes ok: "session_ok s"
  obtains st reps where
    "run_fold (surface_step (ses_log s) 0) (surface_start 0) (ses_log s) = Inr (length (ses_log s), st, reps)"
    and "snd (derive_messages s) = Inr (messages_of (ses_log s) (fs_nodes st))"
    and "session_ok (fst (derive_messages s))" and "ses_log (fst (derive_messages s)) = ses_log s"
proof -
  let ?l = "ses_log s"
  from ok have "manager_ok (ses_manager s) ?l" "sm_base (ses_manager s) = 0" "log_accepted ?l"
    by (simp_all add: session_ok_def)
  then obtain m reps where sy: "sync_manager (ses_manager s) ?l = (m, None)"
    and m: "manager_ok m ?l" "sm_base m = 0"
    and run: "run_fold (surface_step ?l 0) (surface_start 0) ?l = Inr (length ?l, sm_state m, reps)"
    by (rule sync_manager_accepted)
  from ok obtain n k st0 reps0 where n: "n \<le> length ?l"
    and run0: "run_fold (surface_step ?l 0) (surface_start 0) (take n ?l) = Inr (k, st0, reps0)"
    and c: "ses_derived_generation s = fs_generation st0" "ses_derived_nodes s = length (fs_nodes st0)"
      "ses_derived s = messages_of ?l (fs_nodes st0)"
    by (auto simp: session_ok_def derived_ok_def)
  have "run_fold (surface_step ?l 0) (k, st0, reps0) (drop n ?l) = Inr (length ?l, sm_state m, reps)"
    using run run_fold_append_Inr [OF run0, of "drop n ?l"] by simp
  note gen = surface_run_generation [OF this]
  let ?nodes = "fs_nodes (sm_state m)" and ?fresh = "fs_generation (sm_state m) \<noteq> ses_derived_generation s"
  have all: "(if ?fresh then [] else ses_derived s)
      @ messages_of ?l (drop (if ?fresh then 0 else ses_derived_nodes s) ?nodes) = messages_of ?l ?nodes"
    using gen c by (auto simp: messages_of_append)
  let ?s' = "s\<lparr> ses_manager := m, ses_derived := messages_of ?l ?nodes,
                 ses_derived_nodes := length ?nodes,
                 ses_derived_generation := fs_generation (sm_state m) \<rparr>"
  have d: "derive_messages s = (?s', Inr (messages_of ?l ?nodes))"
    using sy all by (simp add: derive_messages_def Let_def)
  have "derived_ok ?s'" using run by (auto simp: derived_ok_def intro!: exI [of _ "length ?l"])
  then have "session_ok ?s'" using ok m by (simp add: session_ok_def)
  with run d that show thesis by simp
qed

text \<open>The seed loop builds a log and the manager of that log.\<close>

lemma seed_loop_ok:
  "manager_ok m l \<Longrightarrow> sm_base m = 0 \<Longrightarrow> log_accepted l \<Longrightarrow> seed_loop i l m es = Inr (l', m') \<Longrightarrow>
     l' = l @ es \<and> manager_ok m' l' \<and> sm_base m' = 0 \<and> log_accepted l'"
proof (induction i l m es rule: seed_loop.induct)
  case (1 i l m)
  then show ?case by simp
next
  case (2 i l m e es)
  from 2(5) obtain m1 where seq: "ev_seq e = i" and v: "validate_next m l e = (m1, None)"
    and env: "assert_session_event_envelope e i = Inr ()" "assert_supported_request_header (ev_data e) = Inr ()"
    and rest: "seed_loop (Suc i) (l @ [e]) m1 es = Inr (l', m')"
    by (auto split: if_splits prod.splits option.splits)
  have ok: "manager_ok m1 (l @ [e])" "sm_base m1 = 0"
    using validate_next_ok(1,2) [OF 2(2) v] 2(3) manager_ok_append by auto
  have "log_accepted (l @ [e])" using validate_next_accepts [OF 2(2,3) v] .
  from 2(1) [OF env(1) env(2) _ v [symmetric] refl ok this rest] seq
  show ?case by auto
qed

abbreviation seed_events :: "session_event list option \<Rightarrow> session_event list" where
  "seed_events seed \<equiv> (case seed of Some es \<Rightarrow> es | None \<Rightarrow> [])"

lemma new_session_cases:
  assumes "new_session isabs now mode i seed header = Inr s"
  obtains m h where "seed_loop 0 [] (new_surface_manager 0) (seed_events seed) = Inr (seed_events seed, m)"
    and "if seed \<noteq> None \<and> \<not> last_is_end_seed (seed_events seed)
         then \<exists>r. append_detached now (fresh_session h (seed_events seed) m) EndSeed None None False = (s, Inr r)
         else s = fresh_session h (seed_events seed) m"
proof -
  from assms obtain l m h where sl: "seed_loop 0 [] (new_surface_manager 0) (seed_events seed) = Inr (l, m)"
    and s: "(let s = fresh_session h l m in
        if seed \<noteq> None \<and> \<not> last_is_end_seed l then
          (case append_detached now s EndSeed None None False of
             (s', Inl x) \<Rightarrow> Inl x | (s', Inr _) \<Rightarrow> Inr s')
        else Inr s) = Inr s"
    unfolding new_session_def Let_def bind_res_Inr_iff by (auto simp: Let_def simp del: append_event_def)
  then have l: "l = seed_events seed"
    using seed_loop_ok [OF manager_ok_new [of 0 "[]"] _ _ sl] by (simp add: new_surface_manager_def)
  have "if seed \<noteq> None \<and> \<not> last_is_end_seed l
         then \<exists>r. append_detached now (fresh_session h l m) EndSeed None None False = (s, Inr r)
         else s = fresh_session h l m"
    using s by (cases "append_detached now (fresh_session h l m) EndSeed None None False")
      (auto split: if_splits sum.splits)
  with sl show thesis unfolding l by (rule that)
qed

lemma fresh_session_ok:
  assumes "manager_ok m l" and "sm_base m = 0" and "log_accepted l"
  shows "session_ok (fresh_session h l m)"
proof -
  have "derived_ok (fresh_session h l m)"
    unfolding derived_ok_def
    by (intro exI [of _ 0])
       (simp add: fresh_session_def create_fold_state_def messages_of_def map_filter_def)
  with assms show ?thesis by (simp add: session_ok_def fold_request_header_def fresh_session_def)
qed

lemma new_session_ok:
  assumes "new_session isabs now mode i seed header = Inr s"
  shows "session_ok s"
  using assms
proof (rule new_session_cases)
  fix m h
  assume sl: "seed_loop 0 [] (new_surface_manager 0) (seed_events seed) = Inr (seed_events seed, m)"
    and s: "if seed \<noteq> None \<and> \<not> last_is_end_seed (seed_events seed)
         then \<exists>r. append_detached now (fresh_session h (seed_events seed) m) EndSeed None None False = (s, Inr r)
         else s = fresh_session h (seed_events seed) m"
  from seed_loop_ok [OF manager_ok_new [of 0 "[]"] _ _ sl]
  have "session_ok (fresh_session h (seed_events seed) m)"
    by (intro fresh_session_ok) (simp_all add: new_surface_manager_def)
  with s append_event_ok show ?thesis by (auto split: if_splits)
qed

section \<open>Reachable sessions\<close>

inductive session_run :: "session \<Rightarrow> bool" where
  created: "new_session isabs now mode i seed header = Inr s \<Longrightarrow> session_run s"
| appended: "session_run s \<Longrightarrow> session_run (fst (append_event appending veto now s d op srcs ign))"
| header_read: "session_run s \<Longrightarrow> session_run (fst (request_header s))"
| context_read: "session_run s \<Longrightarrow> session_run (fst (request_context s))"
| messages_read: "session_run s \<Longrightarrow> session_run (fst (derive_messages s))"
| surface_read: "session_run s \<Longrightarrow>
    session_run (s\<lparr> ses_manager := fst (surface_nodes (ses_manager s) (ses_log s)) \<rparr>)"

lemma surface_nodes_fst: "fst (surface_nodes m evs) = fst (sync_manager m evs)"
  by (simp add: surface_nodes_def split: prod.splits option.splits)

lemma session_run_ok: "session_run s \<Longrightarrow> session_ok s"
proof (induction rule: session_run.induct)
  case (created isabs now mode i seed header s)
  then show ?case by (rule new_session_ok)
next
  case (appended s appending veto now d op srcs ign)
  then show ?case using append_event_ok by (metis prod.collapse)
next
  case (header_read s)
  then show ?case by (simp add: request_header_ok)
next
  case (context_read s)
  then show ?case by (simp add: request_context_ok)
next
  case (messages_read s)
  then show ?case by (blast elim: derive_messages_step)
next
  case (surface_read s)
  then have "manager_ok (ses_manager s) (ses_log s)" "sm_base (ses_manager s) = 0"
    by (simp_all add: session_ok_def)
  then have "manager_ok (fst (sync_manager (ses_manager s) (ses_log s))) (ses_log s)"
    "sm_base (fst (sync_manager (ses_manager s) (ses_log s))) = 0"
    using sync_manager_ok(1,2) by (metis prod.collapse)+
  then show ?case using session_ok_manager [OF surface_read.IH] by (simp add: surface_nodes_fst)
qed

lemma log_accepted_iff: "log_accepted evs \<longleftrightarrow> is_ok (fold_surface evs)"
  by (auto simp: log_accepted_def fold_surface_def is_ok_iff bind_res_def split: sum.splits)

text \<open>The candidate check is complete: it refuses only what the full fold refuses.\<close>

lemma validate_next_complete:
  assumes ok: "manager_ok m evs" and base: "sm_base m = 0" and acc: "log_accepted evs"
    and next_acc: "log_accepted (evs @ [e])"
  shows "snd (validate_next m evs e) = None"
proof -
  from ok base acc obtain m' reps where sy: "sync_manager m evs = (m', None)" and b: "sm_base m' = 0"
    and run: "run_fold (surface_step evs 0) (surface_start 0) evs = Inr (length evs, sm_state m', reps)"
    by (rule sync_manager_accepted)
  from next_acc run obtain r where "surface_step evs 0 (length evs, sm_state m', reps) e = Inr r"
    by (auto simp: log_accepted_def fold_surface_snoc)
  then obtain plan where "plan_surface_event (sm_state m') e (length evs) evs 0 = Inr plan"
    by (auto simp: surface_step_def apply_surface_event_def)
  with sy b show ?thesis by (simp add: validate_next_def)
qed

lemma append_event_result:
  assumes ok: "session_ok s"
  shows "is_ok (snd (append_event appending veto now s d op srcs ign)) \<longleftrightarrow>
    assert_supported_request_header d = Inr () \<and> \<not> appending
    \<and> log_accepted (ses_log s @ [make_event (length (ses_log s)) now d op srcs ign])
    \<and> veto (make_event (length (ses_log s)) now d op srcs ign) = None"
proof -
  let ?e = "make_event (length (ses_log s)) now d op srcs ign"
  have m: "manager_ok (ses_manager s) (ses_log s)" "sm_base (ses_manager s) = 0" "log_accepted (ses_log s)"
    using ok by (simp_all add: session_ok_def)
  obtain m' x where v: "validate_next (ses_manager s) (ses_log s) ?e = (m', x)"
    by (cases "validate_next (ses_manager s) (ses_log s) ?e") auto
  have "x = None \<longleftrightarrow> log_accepted (ses_log s @ [?e])"
    using validate_next_accepts [OF m(1,2), of ?e m'] validate_next_complete [OF m, of ?e] v by auto
  with v show ?thesis
    by (cases x) (auto simp: append_event_def Let_def split: sum.splits option.splits)
qed

section \<open>Seeds\<close>

lemma seed_loop_append:
  "seed_loop i l m (es @ ds)
     = bind_res (seed_loop i l m es) (\<lambda>(l', m'). seed_loop (i + length es) l' m' ds)"
proof (induction i l m es rule: seed_loop.induct)
  case (1 i l m)
  then show ?case by simp
next
  case (2 i l m e es)
  show ?case
  proof (cases "assert_session_event_envelope e i = Inr ()
      \<and> assert_supported_request_header (ev_data e) = Inr () \<and> ev_seq e = i")
    case True
    with 2 show ?thesis by (auto split: prod.splits option.splits)
  next
    case False
    then show ?thesis by (auto simp: bind_res_def split: sum.splits)
  qed
qed

text \<open>The marker event has no surface metadata, so every synchronised manager accepts it.\<close>

lemma end_seed_accepted:
  assumes ok: "manager_ok m evs" and base: "sm_base m = 0" and acc: "log_accepted evs"
  shows "snd (validate_next m evs (make_event (length evs) now EndSeed None None False)) = None"
proof -
  from assms obtain m' reps where sy: "sync_manager m evs = (m', None)" and b: "sm_base m' = 0"
    by (rule sync_manager_accepted)
  show ?thesis using sy b
    by (simp add: validate_next_def plan_surface_event_def surface_op_of_def make_event_def
        is_surface_eligible_type_def surface_event_types_def Let_def)
qed

lemma seed_loop_mark:
  assumes sl: "seed_loop 0 [] (new_surface_manager 0) es = Inr (es, m)"
    and safe: "safe_int now" "safe_int (int (length es))"
  shows "\<exists>m'. seed_loop 0 [] (new_surface_manager 0)
      (es @ [make_event (length es) now EndSeed None None False])
    = Inr (es @ [make_event (length es) now EndSeed None None False], m')"
proof -
  let ?e = "make_event (length es) now EndSeed None None False"
  from seed_loop_ok [OF manager_ok_new [of 0 "[]"] _ _ sl]
  have "manager_ok m es" "sm_base m = 0" "log_accepted es" by (simp_all add: new_surface_manager_def)
  from end_seed_accepted [OF this, of now] obtain m' where "validate_next m es ?e = (m', None)"
    by (cases "validate_next m es ?e") auto
  moreover have "assert_session_event_envelope ?e (length es) = Inr ()"
    "assert_supported_request_header (ev_data ?e) = Inr ()" "ev_seq ?e = length es"
    using safe by (simp_all add: assert_session_event_envelope_def assert_supported_request_header_def make_event_def)
  ultimately show ?thesis by (simp add: seed_loop_append sl)
qed

lemma validate_session_header_Inr: "validate_session_header isabs i h = Inr h' \<Longrightarrow> h' = h \<and> hdr_id h = i"
  by (auto simp: validate_session_header_def split: if_splits option.splits)

lemma new_session_intro:
  assumes "validate_session_header isabs i h = Inr h" and "last_is_end_seed es"
    and "seed_loop 0 [] (new_surface_manager 0) es = Inr (es, m)"
  shows "new_session isabs now mode i (Some es) (Some h) = Inr (fresh_session h es m)"
  using assms by (simp add: new_session_def Let_def)

lemma new_session_header:
  assumes "new_session isabs now mode i seed header = Inr s"
  shows "validate_session_header isabs i (ses_header s) = Inr (ses_header s)"
proof -
  let ?h = "case header of Some h \<Rightarrow> h | None \<Rightarrow> default_header i now"
  from assms obtain l m h where h: "validate_session_header isabs i ?h = Inr h"
    and s: "(let s = fresh_session h l m in
        if seed \<noteq> None \<and> \<not> last_is_end_seed l then
          (case append_detached now s EndSeed None None False of
             (s', Inl x) \<Rightarrow> Inl x | (s', Inr _) \<Rightarrow> Inr s')
        else Inr s) = Inr s"
    unfolding new_session_def Let_def bind_res_Inr_iff by (auto simp: Let_def)
  have "ses_header s = h"
  proof (cases "append_detached now (fresh_session h l m) EndSeed None None False")
    case (Pair s' r)
    then have "ses_header s' = h"
      by (cases rule: append_event_cases) (simp_all add: fresh_session_def)
    with s Pair show ?thesis
      by (auto simp: Let_def fresh_session_def split: if_splits sum.splits)
  qed
  with h validate_session_header_Inr [OF h] show ?thesis by simp
qed

section \<open>Properties\<close>

definition sample_header :: session_header where
  "sample_header = default_header ''s1'' 5"

definition sample_session :: session where
  "sample_session = (case new_session (\<lambda>_. True) 20 ModeSnapshot ''s1'' (Some sample_log) (Some sample_header) of
     Inr s \<Rightarrow> s | Inl _ \<Rightarrow> fresh_session sample_header [] (new_surface_manager 0))"

lemma sample_session_new:
  "new_session (\<lambda>_. True) 20 ModeSnapshot ''s1'' (Some sample_log) (Some sample_header) = Inr sample_session"
  by code_simp

lemma sample_session_run: "session_run sample_session"
  by (rule session_run.created [OF sample_session_new])

text \<open>
  C10: every reachable session holds a log that a replay accepts, whose sequence numbers are the
  positions, and whose cached request header and request context are what a replay of the whole
  log gives.
\<close>

theorem session_log_replayable:
  assumes "session_run s"
  shows "is_ok (fold_surface (ses_log s)) \<and> map ev_seq (ses_log s) = [0 ..< length (ses_log s)]
    \<and> snd (request_header s) = fold_request_header (ses_log s) None
    \<and> snd (request_context s) = foldl context_step None (ses_log s)"
proof -
  from session_run_ok [OF assms] have ok: "session_ok s" .
  have "log_accepted (ses_log s)" using ok by (simp add: session_ok_def)
  moreover have "snd (request_header s) = fold_request_header (ses_log s) None"
    using ok by (auto simp: session_ok_def request_header_def header_view.catch_up Let_def)
  moreover have "snd (request_context s) = foldl context_step None (ses_log s)"
    using ok by (auto simp: session_ok_def request_context_def context_view.catch_up Let_def)
  ultimately show ?thesis using log_accepted_seqs log_accepted_iff by blast
qed

theorem session_log_replayable_witness:
  "is_ok (fold_surface (ses_log sample_session)) \<and> length (ses_log sample_session) = 5"
  using session_log_replayable [OF sample_session_run] by (intro conjI) (blast, code_simp)

text \<open>
  C5: the cached derivation of the model history is the uncached one. Whatever was read or appended
  before, and whether the cache is extended or rebuilt after a replacement, the messages returned
  are the projection of the nodes a full replay of the log leaves.
\<close>

theorem derive_messages_refines_replay:
  assumes "session_run s"
  shows "snd (derive_messages s)
    = bind_res (fold_surface (ses_log s)) (\<lambda>(nodes, _). Inr (messages_of (ses_log s) nodes))"
  using session_run_ok [OF assms]
proof (rule derive_messages_step)
  fix st reps
  assume "run_fold (surface_step (ses_log s) 0) (surface_start 0) (ses_log s)
      = Inr (length (ses_log s), st, reps)"
    and "snd (derive_messages s) = Inr (messages_of (ses_log s) (fs_nodes st))"
  then show ?thesis by (simp add: fold_surface_def)
qed

theorem derive_messages_refines_replay_witness:
  "snd (derive_messages (fst (derive_messages sample_session))) = Inr [sample_user ''m3'']"
proof -
  have "session_run (fst (derive_messages sample_session))"
    by (intro session_run.messages_read sample_session_run)
  from derive_messages_refines_replay [OF this] show ?thesis
    by (rule trans) code_simp
qed

text \<open>
  C6: append is all or nothing, and refuses nothing else. On a reachable session it logs exactly
  one event, at the next position and with the payload given, when the payload is not a retired
  format, no append is being published, the dispatch checks pass and the longer log replays;
  otherwise the log and every cache stay as they were.
\<close>

theorem append_event_exact:
  assumes "session_run s"
    and "e = make_event (length (ses_log s)) now d op srcs ign"
    and "append_event appending veto now s d op srcs ign = (s', r)"
  shows "r = Inr e \<and> ses_log s' = ses_log s @ [e]
       \<and> assert_supported_request_header d = Inr () \<and> \<not> appending \<and> veto e = None
       \<and> is_ok (fold_surface (ses_log s @ [e]))
     \<or> (\<exists>x m. r = Inl x \<and> s' = s\<lparr> ses_manager := m \<rparr>
       \<and> (assert_supported_request_header d \<noteq> Inr () \<or> appending \<or> veto e \<noteq> None
          \<or> \<not> is_ok (fold_surface (ses_log s @ [e]))))"
  using assms(3)
proof (cases rule: append_event_cases)
  case (refused m x)
  have "\<not> is_ok (snd (append_event appending veto now s d op srcs ign))"
    using assms(3) refused(2) by simp
  with refused(1,2) assms(2) append_event_result [OF session_run_ok [OF assms(1)]] show ?thesis
    by (auto simp: log_accepted_iff)
next
  case (logged m e')
  have "is_ok (snd (append_event appending veto now s d op srcs ign))"
    using assms(3) logged(2) by simp
  with logged assms(2) append_event_result [OF session_run_ok [OF assms(1)]] show ?thesis
    by (simp add: log_accepted_iff)
qed

theorem append_event_exact_witness:
  "ses_log (fst (append_event False (\<lambda>_. None) 30 sample_session (UserMessage (sample_user ''m4'')) None None False))
     = ses_log sample_session
   \<and> ses_log (fst (append_event False (\<lambda>_. None) 30 sample_session (TurnStart 2) None None False))
     = ses_log sample_session @ [make_event 5 30 (TurnStart 2) None None False]"
proof -
  obtain s1 r1 where a: "append_event False (\<lambda>_. None) 30 sample_session (UserMessage (sample_user ''m4'')) None None False
      = (s1, r1)" by fastforce
  obtain s2 r2 where b: "append_event False (\<lambda>_. None) 30 sample_session (TurnStart 2) None None False
      = (s2, r2)" by fastforce
  have "\<not> is_ok (snd (append_event False (\<lambda>_. None) 30 sample_session (UserMessage (sample_user ''m4'')) None None False))"
    "is_ok (snd (append_event False (\<lambda>_. None) 30 sample_session (TurnStart 2) None None False))"
    "length (ses_log sample_session) = 5"
    by code_simp+
  with a b append_event_exact [OF sample_session_run refl a] append_event_exact [OF sample_session_run refl b]
  show ?thesis by auto
qed

text \<open>
  Construction keeps the seed and marks its end once. A seeded session holds the seed followed
  by an end-of-seed marker unless the seed already ends in one; constructing again from the log it
  holds succeeds and gives the same log, so opening a stored session repeatedly does not grow it.
\<close>

theorem new_session_reopen:
  assumes "new_session isabs now mode i (Some es) header = Inr s"
    and "safe_int now" and "safe_int (int (length es))"
  shows "ses_log s = (if last_is_end_seed es then es else es @ [make_event (length es) now EndSeed None None False])
    \<and> ses_first_live s = length es
    \<and> (\<exists>s'. new_session isabs now' mode' i (Some (ses_log s)) (Some (ses_header s)) = Inr s'
          \<and> ses_log s' = ses_log s)"
  using assms(1)
proof (rule new_session_cases)
  fix m h
  let ?e = "make_event (length es) now EndSeed None None False"
  assume sl: "seed_loop 0 [] (new_surface_manager 0) (seed_events (Some es)) = Inr (seed_events (Some es), m)"
    and s: "if Some es \<noteq> None \<and> \<not> last_is_end_seed (seed_events (Some es))
         then \<exists>r. append_detached now (fresh_session h (seed_events (Some es)) m) EndSeed None None False = (s, Inr r)
         else s = fresh_session h (seed_events (Some es)) m"
  have shape: "ses_log s = (if last_is_end_seed es then es else es @ [?e]) \<and> ses_first_live s = length es"
  proof (cases "last_is_end_seed es")
    case True
    with s show ?thesis by (simp add: fresh_session_def)
  next
    case False
    with s obtain r where "append_detached now (fresh_session h es m) EndSeed None None False = (s, Inr r)"
      by auto
    then show ?thesis using False by (cases rule: append_event_cases) (simp_all add: fresh_session_def)
  qed
  have marked: "last_is_end_seed (ses_log s)"
    using shape by (auto simp: last_is_end_seed_def make_event_def)
  have "\<exists>m'. seed_loop 0 [] (new_surface_manager 0) (ses_log s) = Inr (ses_log s, m')"
    using shape sl seed_loop_mark [of es m now] assms(2,3) by auto
  then obtain m' where "seed_loop 0 [] (new_surface_manager 0) (ses_log s) = Inr (ses_log s, m')" ..
  from new_session_intro [OF new_session_header [OF assms(1)] marked this]
  have "new_session isabs now' mode' i (Some (ses_log s)) (Some (ses_header s))
      = Inr (fresh_session (ses_header s) (ses_log s) m')" .
  with shape show ?thesis by (simp add: fresh_session_def)
qed

theorem new_session_reopen_witness:
  "ses_log sample_session = sample_log @ [make_event 4 20 EndSeed None None False]
   \<and> (\<exists>s'. new_session (\<lambda>_. True) 99 ModeRestore ''s1'' (Some (ses_log sample_session)) (Some (ses_header sample_session))
         = Inr s' \<and> ses_log s' = ses_log sample_session)"
proof -
  have "safe_int 20" "safe_int (int (length sample_log))" "\<not> last_is_end_seed sample_log"
    "length sample_log = 4" by code_simp+
  with new_session_reopen [OF sample_session_new, of 99 ModeRestore] show ?thesis by auto
qed

text \<open>
  Seeds are held to more than appends are. A live session accepts a user message without an
  identity; the log this leaves is refused as the seed of another session, at the position of that
  message.
\<close>

theorem append_accepts_unseedable_message:
  "\<exists>s s' e. new_session (\<lambda>_. True) 20 ModeSnapshot ''s1'' None (Some sample_header) = Inr s
     \<and> append_event False (\<lambda>_. None) 30 s (UserMessage (sample_user '''')) (Some op_append) None False = (s', Inr e)
     \<and> new_session (\<lambda>_. True) 40 ModeRestore ''s1'' (Some (ses_log s')) (Some sample_header)
         = Inl (MessageUnidentified 0)"
proof -
  let ?s = "fresh_session sample_header [] (new_surface_manager 0)"
  let ?r = "append_event False (\<lambda>_. None) 30 ?s (UserMessage (sample_user '''')) (Some op_append) None False"
  have "new_session (\<lambda>_. True) 20 ModeSnapshot ''s1'' None (Some sample_header) = Inr ?s"
    by code_simp
  moreover have "is_ok (snd ?r)" by code_simp
  moreover have "new_session (\<lambda>_. True) 40 ModeRestore ''s1'' (Some (ses_log (fst ?r))) (Some sample_header)
      = Inl (MessageUnidentified 0)" by code_simp
  ultimately show ?thesis by (cases ?r) (auto simp: is_ok_iff)
qed

end
