(* ===== verification/Trace.thy ===== *)
theory Trace
  imports Session_Run
begin

text \<open>
  The relational invariants of the session log, \<^verbatim>\<open>packages/core/session/src/invariant.ts\<close>: the
  bookkeeping of the open turn, the open step and the tool calls without a result. \<open>validate_event\<close>
  is pure and yields the transition that \<open>apply_transition\<close> commits after the event has entered the
  log. The lemmas show what a log that passes the checks looks like: consecutively numbered turns,
  and tool results that answer a call of the same step once.
\<close>

section \<open>State\<close>

record session_trace =
  tc_last_seq :: int
  tc_open_turn :: "int option"
  tc_open_step :: "int option"
  tc_next_turn :: int
  tc_next_step :: int
  tc_pending :: "call_id set"

datatype pending_change =
    NoChange
  | AddCall call_id
  | DeleteCall call_id
  | ClearCalls

record trace_transition =
  tt_last_seq :: int
  tt_open_turn :: "int option"
  tt_open_step :: "int option"
  tt_next_turn :: int
  tt_next_step :: int
  tt_pending :: pending_change

datatype trace_error =
    SeqNotIncreasing
  | TurnStillOpen
  | UnexpectedTurn int
  | TurnNotOpen int
  | StepStillOpen
  | UnexpectedStep int
  | NotInOpenStep string int int
  | RewriteOutsideTurn
  | ResultWithoutCall call_id
  | OutsideTurn string

definition fresh_trace :: session_trace where
  "fresh_trace = \<lparr> tc_last_seq = -1, tc_open_turn = None, tc_open_step = None,
     tc_next_turn = 1, tc_next_step = 1, tc_pending = {} \<rparr>"

section \<open>Validation and commit\<close>

definition tool_not_started :: string where
  "tool_not_started = ''TOOL_NOT_STARTED''"

definition require_open_step :: "session_trace \<Rightarrow> string \<Rightarrow> int \<Rightarrow> int \<Rightarrow> trace_error + unit" where
  "require_open_step tr kind turn step =
     (if tc_open_turn tr \<noteq> Some turn \<or> tc_open_step tr \<noteq> Some step
      then Inl (NotInOpenStep kind turn step) else Inr ())"

definition unchanged :: "session_trace \<Rightarrow> session_event \<Rightarrow> trace_transition" where
  "unchanged tr e =
     \<lparr> tt_last_seq = int (ev_seq e), tt_open_turn = tc_open_turn tr, tt_open_step = tc_open_step tr,
       tt_next_turn = tc_next_turn tr, tt_next_step = tc_next_step tr, tt_pending = NoChange \<rparr>"

definition synthetic_not_started :: "tool_result_data \<Rightarrow> bool" where
  "synthetic_not_started d =
     (trm_is_error (tr_message d) = Some True
      \<and> (case tr_error d of Some (_, code) \<Rightarrow> code = tool_not_started | None \<Rightarrow> False))"

definition validate_event :: "session_trace \<Rightarrow> session_event \<Rightarrow> trace_error + trace_transition" where
  "validate_event tr e =
     (if int (ev_seq e) \<le> tc_last_seq tr then Inl SeqNotIncreasing
      else case ev_data e of
        TurnStart turn \<Rightarrow>
          if tc_open_turn tr \<noteq> None then Inl TurnStillOpen
          else if turn \<noteq> tc_next_turn tr then Inl (UnexpectedTurn turn)
          else Inr ((unchanged tr e)\<lparr> tt_open_turn := Some turn, tt_next_step := 1 \<rparr>)
      | TurnEnd turn _ \<Rightarrow>
          if tc_open_turn tr \<noteq> Some turn then Inl (TurnNotOpen turn)
          else if tc_open_step tr \<noteq> None then Inl StepStillOpen
          else Inr ((unchanged tr e)\<lparr> tt_open_turn := None, tt_next_turn := tc_next_turn tr + 1 \<rparr>)
      | StepStart turn step \<Rightarrow>
          if tc_open_turn tr \<noteq> Some turn then Inl (TurnNotOpen turn)
          else if tc_open_step tr \<noteq> None then Inl StepStillOpen
          else if step \<noteq> tc_next_step tr then Inl (UnexpectedStep step)
          else Inr ((unchanged tr e)\<lparr> tt_open_step := Some step \<rparr>)
      | StepEnd turn step \<Rightarrow>
          bind_res (require_open_step tr ''step/end'' turn step) (\<lambda>_.
            Inr ((unchanged tr e)\<lparr> tt_pending := ClearCalls, tt_open_step := None,
                                  tt_next_step := tc_next_step tr + 1 \<rparr>))
      | AssistantChunk turn step _ \<Rightarrow>
          bind_res (require_open_step tr ''assistant/chunk'' turn step) (\<lambda>_. Inr (unchanged tr e))
      | AssistantMessage turn step _ _ \<Rightarrow>
          bind_res (require_open_step tr ''assistant/message'' turn step) (\<lambda>_. Inr (unchanged tr e))
      | ToolCall turn step cid _ _ \<Rightarrow>
          bind_res (require_open_step tr ''tool/call'' turn step) (\<lambda>_.
            Inr ((unchanged tr e)\<lparr> tt_pending := AddCall cid \<rparr>))
      | ToolResult d \<Rightarrow>
          if ev_surface_op e \<noteq> Some op_append then
            if tc_open_turn tr = None then Inl RewriteOutsideTurn else Inr (unchanged tr e)
          else bind_res (require_open_step tr ''tool/result'' (tr_turn d) (tr_step d)) (\<lambda>_.
            let cid = trm_call_id (tr_message d) in
            if cid \<notin> tc_pending tr \<and> \<not> synthetic_not_started d then Inl (ResultWithoutCall cid)
            else Inr ((unchanged tr e)\<lparr> tt_pending := DeleteCall cid \<rparr>))
      | TodoWrite _ \<Rightarrow> if tc_open_turn tr = None then Inl (OutsideTurn ''todo/write'') else Inr (unchanged tr e)
      | RequestHeader _ _ \<Rightarrow>
          if tc_open_turn tr = None then Inl (OutsideTurn ''request/header'') else Inr (unchanged tr e)
      | RequestContext _ \<Rightarrow>
          if tc_open_turn tr = None then Inl (OutsideTurn ''request/context'') else Inr (unchanged tr e)
      | _ \<Rightarrow> Inr (unchanged tr e))"

definition apply_transition :: "session_trace \<Rightarrow> trace_transition \<Rightarrow> session_trace" where
  "apply_transition tr t =
     \<lparr> tc_last_seq = tt_last_seq t, tc_open_turn = tt_open_turn t, tc_open_step = tt_open_step t,
       tc_next_turn = tt_next_turn t, tc_next_step = tt_next_step t,
       tc_pending = (case tt_pending t of
           NoChange \<Rightarrow> tc_pending tr
         | AddCall c \<Rightarrow> insert c (tc_pending tr)
         | DeleteCall c \<Rightarrow> tc_pending tr - {c}
         | ClearCalls \<Rightarrow> {}) \<rparr>"

definition trace_step :: "session_trace \<Rightarrow> session_event \<Rightarrow> trace_error + session_trace" where
  "trace_step tr e = bind_res (validate_event tr e) (\<lambda>t. Inr (apply_transition tr t))"

definition seed_trace :: "session_event list \<Rightarrow> trace_error + session_trace" where
  "seed_trace evs = run_fold trace_step fresh_trace evs"

text \<open>
  The installed checks: the pre-commit listener refuses the event the trace refuses, a later
  dispatch listener may still veto (\<open>later\<close>), and the publication listener commits the staged
  transition only once the event is in the log.
\<close>

definition trace_veto :: "session_trace \<Rightarrow> session_event \<Rightarrow> string option" where
  "trace_veto tr e = (case validate_event tr e of Inl _ \<Rightarrow> Some ''session invariant'' | Inr _ \<Rightarrow> None)"

definition traced_append ::
  "(session_event \<Rightarrow> string option) \<Rightarrow> int \<Rightarrow> session \<times> session_trace \<Rightarrow> event_data \<Rightarrow> json option
     \<Rightarrow> json option \<Rightarrow> bool \<Rightarrow> (session \<times> session_trace) \<times> (session_error + session_event)" where
  "traced_append later now st d op srcs ign = (case st of (s, tr) \<Rightarrow>
     (case append_event False (\<lambda>e. case trace_veto tr e of Some w \<Rightarrow> Some w | None \<Rightarrow> later e)
             now s d op srcs ign of
        (s', Inl x) \<Rightarrow> ((s', tr), Inl x)
      | (s', Inr e) \<Rightarrow>
          ((s', case validate_event tr e of Inr t \<Rightarrow> apply_transition tr t | Inl _ \<Rightarrow> tr), Inr e)))"

section \<open>What a checked log looks like\<close>

definition turn_starts :: "session_event list \<Rightarrow> int list" where
  "turn_starts evs = List.map_filter (\<lambda>e. case ev_data e of TurnStart t \<Rightarrow> Some t | _ \<Rightarrow> None) evs"

definition turn_ends :: "session_event list \<Rightarrow> int list" where
  "turn_ends evs = List.map_filter (\<lambda>e. case ev_data e of TurnEnd t _ \<Rightarrow> Some t | _ \<Rightarrow> None) evs"



definition appended_result :: "call_id \<Rightarrow> session_event \<Rightarrow> bool" where
  "appended_result c e = (case ev_data e of
     ToolResult d \<Rightarrow> ev_surface_op e = Some op_append \<and> trm_call_id (tr_message d) = c | _ \<Rightarrow> False)"

definition is_step_end :: "session_event \<Rightarrow> bool" where
  "is_step_end e = (case ev_data e of StepEnd _ _ \<Rightarrow> True | _ \<Rightarrow> False)"

text \<open>The call \<open>c\<close> of turn \<open>t\<close>, step \<open>s\<close> is in the log and still waits for its result there.\<close>

definition call_waiting :: "session_event list \<Rightarrow> int \<Rightarrow> int \<Rightarrow> call_id \<Rightarrow> bool" where
  "call_waiting evs t s c \<longleftrightarrow> (\<exists>xs ys e n a. evs = xs @ e # ys \<and> ev_data e = ToolCall t s c n a
     \<and> (\<forall>y \<in> set ys. \<not> is_step_end y \<and> \<not> appended_result c y))"

definition turns_ok :: "session_event list \<Rightarrow> session_trace \<Rightarrow> bool" where
  "turns_ok evs tr \<longleftrightarrow>
     turn_ends evs = [1 .. tc_next_turn tr - 1] \<and> 1 \<le> tc_next_turn tr
     \<and> turn_starts evs = (if tc_open_turn tr = None then [1 .. tc_next_turn tr - 1] else [1 .. tc_next_turn tr])
     \<and> (\<forall>t. tc_open_turn tr = Some t \<longrightarrow> t = tc_next_turn tr)
     \<and> (tc_open_step tr \<noteq> None \<longrightarrow> tc_open_turn tr \<noteq> None)"

definition calls_ok :: "session_event list \<Rightarrow> session_trace \<Rightarrow> bool" where
  "calls_ok evs tr \<longleftrightarrow> (\<forall>c \<in> tc_pending tr. \<exists>t s. tc_open_turn tr = Some t \<and> tc_open_step tr = Some s
     \<and> call_waiting evs t s c)"

definition trace_inv :: "session_event list \<Rightarrow> session_trace \<Rightarrow> bool" where
  "trace_inv evs tr \<longleftrightarrow> turns_ok evs tr \<and> calls_ok evs tr
     \<and> (\<forall>e \<in> set evs. int (ev_seq e) \<le> tc_last_seq tr)"

lemma call_waiting_here:
  "ev_data e = ToolCall t s c n a \<Longrightarrow> call_waiting (evs @ [e]) t s c"
  unfolding call_waiting_def by (rule exI [of _ evs]) auto

lemma call_waiting_snoc:
  assumes "call_waiting evs t s c" and "\<not> is_step_end e" and "\<not> appended_result c e"
  shows "call_waiting (evs @ [e]) t s c"
proof -
  from assms(1) obtain xs ys e0 n a where e0: "evs = xs @ e0 # ys" "ev_data e0 = ToolCall t s c n a"
    "\<forall>y \<in> set ys. \<not> is_step_end y \<and> \<not> appended_result c y"
    by (auto simp: call_waiting_def)
  have "evs @ [e] = xs @ e0 # (ys @ [e])" using e0(1) by simp
  moreover have "\<forall>y \<in> set (ys @ [e]). \<not> is_step_end y \<and> \<not> appended_result c y"
    using e0(3) assms(2,3) by simp
  ultimately show ?thesis using e0(2) unfolding call_waiting_def by blast
qed

lemma calls_ok_keep:
  assumes "calls_ok evs tr" and "\<not> is_step_end e" and "\<forall>c \<in> tc_pending tr'. \<not> appended_result c e"
    and "tc_open_turn tr' = tc_open_turn tr" and "tc_open_step tr' = tc_open_step tr"
    and "tc_pending tr' \<subseteq> tc_pending tr"
  shows "calls_ok (evs @ [e]) tr'"
  using assms call_waiting_snoc unfolding calls_ok_def by (metis (no_types, lifting) subsetD)

lemma calls_ok_empty: "tc_pending tr = {} \<Longrightarrow> calls_ok evs tr"
  by (simp add: calls_ok_def)

lemma upto_snoc: "i \<le> j \<Longrightarrow> [i .. j - 1] @ [j] = [i .. j :: int]"
  using upto_rec2 by fastforce

lemma trace_stepE:
  assumes "trace_step tr e = Inr tr'"
  obtains t where "validate_event tr e = Inr t" and "tr' = apply_transition tr t"
    and "tc_last_seq tr < int (ev_seq e)"
  using assms by (auto simp: trace_step_def validate_event_def split: if_splits)

lemma turns_ok_step:
  assumes "turns_ok evs tr" and "trace_step tr e = Inr tr'"
  shows "turns_ok (evs @ [e]) tr'"
  using assms(2)
proof (rule trace_stepE)
  fix t
  assume v: "validate_event tr e = Inr t" and tr': "tr' = apply_transition tr t"
  note simps = turns_ok_def turn_starts_def turn_ends_def map_filter_snoc apply_transition_def
    unchanged_def require_open_step_def validate_event_def
  from assms(1) have up: "[1 .. tc_next_turn tr - 1] @ [tc_next_turn tr] = [1 .. tc_next_turn tr]"
    by (intro upto_snoc) (simp add: turns_ok_def)
  show ?thesis
    using v assms(1) unfolding tr'
    by (cases "ev_data e") (auto simp: simps up Let_def split: if_splits)
qed

lemma calls_ok_step:
  assumes ok: "calls_ok evs tr" and "turns_ok evs tr" and "trace_step tr e = Inr tr'"
  shows "calls_ok (evs @ [e]) tr'"
  using assms(3)
proof (rule trace_stepE)
  fix t
  assume v: "validate_event tr e = Inr t" and tr': "tr' = apply_transition tr t"
  note simps = apply_transition_def unchanged_def require_open_step_def validate_event_def
    is_step_end_def appended_result_def Let_def
  show ?thesis
  proof (cases "ev_data e")
    case (TurnStart x)
    with v ok assms(2) have "tc_pending tr' = {}" unfolding tr'
      by (auto simp: simps calls_ok_def split: if_splits)
    then show ?thesis by (rule calls_ok_empty)
  next
    case (TurnEnd x r)
    with v ok assms(2) have "tc_pending tr' = {}" unfolding tr'
      by (auto simp: simps calls_ok_def split: if_splits)
    then show ?thesis by (rule calls_ok_empty)
  next
    case (StepStart x y)
    with v ok assms(2) have "tc_pending tr' = {}" unfolding tr'
      by (auto simp: simps calls_ok_def split: if_splits)
    then show ?thesis by (rule calls_ok_empty)
  next
    case (StepEnd x y)
    with v have "tc_pending tr' = {}" unfolding tr' by (auto simp: simps split: if_splits)
    then show ?thesis by (rule calls_ok_empty)
  next
    case (ToolCall x y c n a)
    from v ToolCall have same: "tc_open_turn tr' = Some x" "tc_open_step tr' = Some y"
      "tc_open_turn tr = Some x" "tc_open_step tr = Some y" "tc_pending tr' = insert c (tc_pending tr)"
      unfolding tr' by (auto simp: simps split: if_splits)
    have "call_waiting (evs @ [e]) x y k" if "k \<in> tc_pending tr" for k
      using ok that same(3,4) ToolCall
      by (auto simp: calls_ok_def is_step_end_def appended_result_def intro!: call_waiting_snoc)
    with call_waiting_here [OF ToolCall] same show ?thesis by (simp add: calls_ok_def)
  next
    case (ToolResult d)
    show ?thesis
      by (rule calls_ok_keep [OF ok]; use v ToolResult in
          \<open>auto simp: tr' simps split: if_splits\<close>)
  qed (rule calls_ok_keep [OF ok]; use v in \<open>auto simp: tr' simps split: if_splits\<close>)+
qed

lemma trace_inv_step:
  assumes inv: "trace_inv evs tr" and step: "trace_step tr e = Inr tr'"
  shows "trace_inv (evs @ [e]) tr'"
proof -
  from step obtain t where "validate_event tr e = Inr t" and "tr' = apply_transition tr t"
    and seq: "tc_last_seq tr < int (ev_seq e)" by (rule trace_stepE)
  then have "tc_last_seq tr' = int (ev_seq e)"
    by (cases "ev_data e") (auto simp: validate_event_def apply_transition_def unchanged_def Let_def split: if_splits)
  with inv seq turns_ok_step calls_ok_step step show ?thesis
    by (auto simp: trace_inv_def intro: order_trans less_imp_le)
qed

interpretation trace: fold_invariant trace_step fresh_trace trace_inv
  by unfold_locales
     (simp add: trace_inv_def turns_ok_def calls_ok_def fresh_trace_def turn_starts_def turn_ends_def map_filter_def,
      rule trace_inv_step)

section \<open>Properties\<close>

definition sample_result :: "int \<Rightarrow> int \<Rightarrow> call_id \<Rightarrow> tool_result_data" where
  "sample_result t s c =
     \<lparr> tr_turn = t, tr_step = s, tr_message = create_tool_result_message ''r1'' c [TextBlock ''ok''] False,
       tr_error = None, tr_meta = None \<rparr>"

definition sample_turn :: "session_event list" where
  "sample_turn =
     [make_event 0 10 (TurnStart 1) None None False,
      make_event 1 10 (UserMessage (sample_user ''m1'')) (Some op_append) None False,
      make_event 2 10 (StepStart 1 1) None None False,
      make_event 3 11 (AssistantMessage 1 1 (create_assistant_message ''a1''
         [ToolCallBlock ''c1'' ''read'' ''args'', ToolCallBlock ''c2'' ''read'' ''args''] ''p'' ''m'' None) None)
         (Some op_append) None False,
      make_event 4 12 (ToolCall 1 1 ''c1'' ''read'' ''args'') None None False,
      make_event 5 13 (ToolResult (sample_result 1 1 ''c1'')) (Some op_append) (Some (seqs_json [4])) False]"

definition sample_trace :: session_trace where
  "sample_trace = \<lparr> tc_last_seq = 5, tc_open_turn = Some 1, tc_open_step = Some 1, tc_next_turn = 1,
     tc_next_step = 1, tc_pending = {} \<rparr>"

lemma sample_turn_trace: "seed_trace sample_turn = Inr sample_trace"
  by code_simp

text \<open>
  In a log that passes the relational checks the turns are numbered 1, 2, 3 and so on without
  gaps, they end in that order, and at most the last one is still open; a step is open inside an
  open turn only.
\<close>

theorem trace_turns_consecutive:
  assumes "seed_trace evs = Inr tr"
  shows "\<exists>n. 0 \<le> n \<and> turn_ends evs = [1 .. n]
    \<and> turn_starts evs = (case tc_open_turn tr of None \<Rightarrow> [1 .. n] | Some t \<Rightarrow> [1 .. n + 1])
    \<and> (\<forall>t. tc_open_turn tr = Some t \<longrightarrow> t = n + 1)
    \<and> (tc_open_step tr \<noteq> None \<longrightarrow> tc_open_turn tr \<noteq> None)"
proof -
  from assms have "turns_ok evs tr"
    using trace.run_inv by (auto simp: seed_trace_def trace_inv_def)
  then show ?thesis
    by (intro exI [of _ "tc_next_turn tr - 1"]) (auto simp: turns_ok_def split: option.splits)
qed

theorem trace_turns_consecutive_witness:
  "\<exists>n. 0 \<le> n \<and> turn_ends sample_turn = [1 .. n] \<and> turn_starts sample_turn = [1 .. n + 1]"
  using trace_turns_consecutive [OF sample_turn_trace] by (auto simp: sample_trace_def)

text \<open>
  C11: in a log that passes the relational checks every appended tool result, unless it is the
  recovery result of a call that was never started, answers a tool call of the same turn and step
  that no earlier result has answered and that lies in the step still open.
\<close>

theorem trace_results_answer_calls:
  assumes "seed_trace (xs @ e # ys) = Inr tr" and "ev_data e = ToolResult d"
    and "ev_surface_op e = Some op_append" and "\<not> synthetic_not_started d"
  shows "call_waiting xs (tr_turn d) (tr_step d) (trm_call_id (tr_message d))"
proof -
  from assms(1) obtain u where pre: "run_fold trace_step fresh_trace xs = Inr u"
    and rest: "run_fold trace_step u (e # ys) = Inr tr"
    unfolding seed_trace_def by (rule run_fold_prefix)
  from rest obtain u' where "trace_step u e = Inr u'" by (rule run_fold_ConsE)
  with assms(2-4) have "tc_open_turn u = Some (tr_turn d)" "tc_open_step u = Some (tr_step d)"
    "trm_call_id (tr_message d) \<in> tc_pending u"
    by (auto simp: trace_step_def validate_event_def require_open_step_def Let_def split: if_splits)
  moreover have "calls_ok xs u" using trace.run_inv [OF pre] by (simp add: trace_inv_def)
  ultimately show ?thesis by (auto simp: calls_ok_def)
qed

theorem trace_results_answer_calls_witness:
  "call_waiting (take 5 sample_turn) 1 1 ''c1''"
proof -
  have "sample_turn = take 5 sample_turn @ (sample_turn ! 5) # []" by code_simp
  then have "seed_trace (take 5 sample_turn @ (sample_turn ! 5) # []) = Inr sample_trace"
    using sample_turn_trace by metis
  from trace_results_answer_calls [OF this, of "sample_result 1 1 ''c1''"]
  show ?thesis
    by (simp add: sample_turn_def make_event_def synthetic_not_started_def sample_result_def
        create_tool_result_message_def numeral_nat)
qed

text \<open>
  The checks and the log stay in step. When the committed trace is the trace of the log, an
  append that any check refuses changes neither, and an accepted append leaves the trace of the
  longer log; no event the relational checks refuse ever enters the log.
\<close>

theorem traced_append_in_step:
  assumes "seed_trace (ses_log s) = Inr tr"
    and "traced_append later now (s, tr) d op srcs ign = ((s', tr'), r)"
  shows "seed_trace (ses_log s') = Inr tr'
    \<and> (case r of Inl _ \<Rightarrow> ses_log s' = ses_log s \<and> tr' = tr
         | Inr e \<Rightarrow> ses_log s' = ses_log s @ [e] \<and> is_ok (validate_event tr e))"
proof -
  let ?veto = "\<lambda>e. case trace_veto tr e of Some w \<Rightarrow> Some w | None \<Rightarrow> later e"
  obtain s1 r1 where a: "append_event False ?veto now s d op srcs ign = (s1, r1)"
    by (cases "append_event False ?veto now s d op srcs ign") auto
  from a show ?thesis
  proof (cases rule: append_event_cases)
    case (refused m x)
    with a assms show ?thesis by (auto simp: traced_append_def)
  next
    case (logged m e)
    then obtain t where v: "validate_event tr e = Inr t"
      by (auto simp: trace_veto_def split: option.splits sum.splits)
    with logged a assms have "r = Inr e" "ses_log s' = ses_log s @ [e]" "tr' = apply_transition tr t"
      by (auto simp: traced_append_def)
    moreover have "seed_trace (ses_log s @ [e]) = Inr (apply_transition tr t)"
      using assms(1) v by (simp add: seed_trace_def run_fold_snoc trace_step_def)
    ultimately show ?thesis using v by simp
  qed
qed

theorem traced_append_in_step_witness:
  "seed_trace (ses_log (fst (fst (traced_append (\<lambda>_. None) 30
      (fresh_session sample_header [] (new_surface_manager 0), fresh_trace) (TurnStart 1) None None False))))
   = Inr (snd (fst (traced_append (\<lambda>_. None) 30
      (fresh_session sample_header [] (new_surface_manager 0), fresh_trace) (TurnStart 1) None None False)))"
proof -
  let ?s = "fresh_session sample_header [] (new_surface_manager 0)"
  have "seed_trace (ses_log ?s) = Inr fresh_trace" by (simp add: seed_trace_def fresh_session_def)
  from traced_append_in_step [OF this, of "\<lambda>_. None" 30 "TurnStart 1" None None False]
  show ?thesis
    by (cases "traced_append (\<lambda>_. None) 30 (?s, fresh_trace) (TurnStart 1) None None False") auto
qed

end
