(* ===== verification/Repair.thy ===== *)
theory Repair
  imports Trace "HOL-Library.AList"
begin

text \<open>
  Crash recovery, \<^verbatim>\<open>packages/core/session/src/repair.ts\<close>: the synthetic events that close the turn a
  crash left open. The \<^verbatim>\<open>Map\<close> of pending calls is an association list, which keeps its insertion
  order. The lemmas relate the scan to the bookkeeping of the relational checks and show that the
  repaired log passes them, stays on a valid surface, answers every dangling call once, and needs
  no second repair.
\<close>

section \<open>The scan\<close>

record pending_call =
  pc_step :: int
  pc_call_seq :: "nat option"

record repair_scan =
  rs_open_turn :: "int option"
  rs_open_step :: "int option"
  rs_pending :: "(call_id \<times> pending_call) list"

definition start_scan :: repair_scan where
  "start_scan = \<lparr> rs_open_turn = None, rs_open_step = None, rs_pending = [] \<rparr>"

fun register_blocks ::
  "int \<Rightarrow> content_block list \<Rightarrow> (call_id \<times> pending_call) list \<Rightarrow> (call_id \<times> pending_call) list" where
  "register_blocks s [] ps = ps"
| "register_blocks s (b # bs) ps =
     register_blocks s bs
       (case b of ToolCallBlock c _ _ \<Rightarrow> AList.update c \<lparr> pc_step = s, pc_call_seq = None \<rparr> ps | _ \<Rightarrow> ps)"

definition scan_event :: "repair_scan \<Rightarrow> session_event \<Rightarrow> repair_scan" where
  "scan_event st e = (case ev_data e of
       TurnStart t \<Rightarrow> \<lparr> rs_open_turn = Some t, rs_open_step = None, rs_pending = [] \<rparr>
     | TurnEnd _ _ \<Rightarrow> \<lparr> rs_open_turn = None, rs_open_step = None, rs_pending = [] \<rparr>
     | StepStart _ s \<Rightarrow> st\<lparr> rs_open_step := Some s \<rparr>
     | StepEnd _ _ \<Rightarrow> st\<lparr> rs_pending := [], rs_open_step := None \<rparr>
     | AssistantMessage _ s m _ \<Rightarrow> st\<lparr> rs_pending := register_blocks s (message_content m) (rs_pending st) \<rparr>
     | ToolCall _ _ c _ _ \<Rightarrow>
         (case map_of (rs_pending st) c of
            Some entry \<Rightarrow> st\<lparr> rs_pending := AList.update c (entry\<lparr> pc_call_seq := Some (ev_seq e) \<rparr>) (rs_pending st) \<rparr>
          | None \<Rightarrow> st)
     | ToolResult d \<Rightarrow> st\<lparr> rs_pending := AList.delete (trm_call_id (tr_message d)) (rs_pending st) \<rparr>
     | _ \<Rightarrow> st)"

definition scan_log :: "session_event list \<Rightarrow> repair_scan" where
  "scan_log evs = foldl scan_event start_scan evs"

section \<open>The closers\<close>

definition tool_outcome_unknown :: string where
  "tool_outcome_unknown = ''TOOL_OUTCOME_UNKNOWN''"

definition started_text :: string where
  "started_text = ''The tool call was interrupted after it was recorded, but no result was durably recorded. Its outcome is unknown. Decide whether to retry from the tool semantics: retry only if the operation is read-only or idempotent; if it may have side effects, first verify external state or ask the user. Do not retry blindly.''"

definition not_started_text :: string where
  "not_started_text = ''The tool call was interrupted before the Harness recorded it as started. Retry it if it is still needed.''"

definition closing_result :: "int \<Rightarrow> int \<Rightarrow> nat \<Rightarrow> call_id \<Rightarrow> pending_call \<Rightarrow> session_event" where
  "closing_result turn time seq c p =
     (let started = (pc_call_seq p \<noteq> None) in
      make_event seq time
        (ToolResult \<lparr> tr_turn = turn, tr_step = pc_step p,
           tr_message = \<lparr> trm_id = ''interrupted-tool-result-'' @ c @ ''-'' @ show_nat seq,
              trm_call_id = c, trm_block_call_id = c,
              trm_content = [TextBlock (if started then started_text else not_started_text)],
              trm_is_error = Some True \<rparr>,
           tr_error = Some (if started then (''ToolOutcomeUnknownError'', tool_outcome_unknown)
                            else (''ToolNotStartedError'', tool_not_started)),
           tr_meta = None \<rparr>)
        (Some op_append)
        (case pc_call_seq p of Some q \<Rightarrow> Some (seqs_json [q]) | None \<Rightarrow> None) False)"

fun close_calls :: "int \<Rightarrow> int \<Rightarrow> nat \<Rightarrow> (call_id \<times> pending_call) list \<Rightarrow> session_event list" where
  "close_calls turn time seq [] = []"
| "close_calls turn time seq ((c, p) # ps) =
     closing_result turn time seq c p # close_calls turn time (Suc seq) ps"

definition closing_boundaries :: "int \<Rightarrow> int option \<Rightarrow> int \<Rightarrow> nat \<Rightarrow> session_event list" where
  "closing_boundaries turn open_step time seq =
     (case open_step of
        Some s \<Rightarrow> [make_event seq time (StepEnd turn s) None None False,
                   make_event (Suc seq) time (TurnEnd turn EndInterrupted) None None False]
      | None \<Rightarrow> [make_event seq time (TurnEnd turn EndInterrupted) None None False])"

definition interrupted_turn_closers :: "session_event list \<Rightarrow> session_event list" where
  "interrupted_turn_closers evs =
     (let st = scan_log evs in
      case rs_open_turn st of
        None \<Rightarrow> []
      | Some turn \<Rightarrow>
          if evs = [] then []
          else let seq = ev_seq (last evs) + 1; time = ev_time (last evs);
                   results = close_calls turn time seq (rs_pending st)
               in results @ closing_boundaries turn (rs_open_step st) time (seq + length results))"

section \<open>The scan against the relational checks\<close>

lemma scan_log_snoc: "scan_log (evs @ [e]) = scan_event (scan_log evs) e"
  by (simp add: scan_log_def)

lemma scan_log_append: "scan_log (evs @ ds) = foldl scan_event (scan_log evs) ds"
  by (simp add: scan_log_def)

text \<open>
  The scan knows the open turn and step of the trace, its calls belong to the open step, and a call
  it takes for started is one the trace waits for.
\<close>

definition scan_matches :: "repair_scan \<Rightarrow> session_trace \<Rightarrow> bool" where
  "scan_matches st tr \<longleftrightarrow> rs_open_turn st = tc_open_turn tr \<and> rs_open_step st = tc_open_step tr
     \<and> distinct (map fst (rs_pending st))
     \<and> (\<forall>(c, p) \<in> set (rs_pending st). rs_open_step st = Some (pc_step p)
          \<and> (pc_call_seq p \<noteq> None \<longrightarrow> c \<in> tc_pending tr \<and> int (the (pc_call_seq p)) \<le> tc_last_seq tr))"

lemma set_register_blocks:
  "distinct (map fst ps) \<Longrightarrow> distinct (map fst (register_blocks s bs ps))
     \<and> set (register_blocks s bs ps) \<subseteq> set ps \<union> {(c, p). p = \<lparr> pc_step = s, pc_call_seq = None \<rparr>}"
proof (induction bs arbitrary: ps)
  case Nil
  then show ?case by simp
next
  case (Cons b bs)
  let ?ps = "case b of ToolCallBlock c _ _ \<Rightarrow> AList.update c \<lparr> pc_step = s, pc_call_seq = None \<rparr> ps | _ \<Rightarrow> ps"
  have d: "distinct (map fst ?ps)"
    using Cons.prems by (simp add: distinct_update split: content_block.split)
  have sub: "set ?ps \<subseteq> set ps \<union> {(c, p). p = \<lparr> pc_step = s, pc_call_seq = None \<rparr>}"
  proof -
    have "set (AList.update c v ps) \<subseteq> set ps \<union> {(c, v)}" for c v
      by (induction ps) auto
    then show ?thesis by (cases b) (auto dest!: subsetD)
  qed
  from Cons.IH [OF d] sub show ?case by auto
qed

lemma set_update_distinct:
  "distinct (map fst ps) \<Longrightarrow> set (AList.update c v ps) = {(c, v)} \<union> {x \<in> set ps. fst x \<noteq> c}"
  by (induction ps) force+

lemma scan_matches_step:
  assumes "scan_matches st tr" and inv: "trace_inv evs tr" and "trace_step tr e = Inr tr'"
  shows "scan_matches (scan_event st e) tr'"
  using assms(3)
proof (rule trace_stepE)
  fix t
  assume v: "validate_event tr e = Inr t" and tr': "tr' = apply_transition tr t"
    and seq: "tc_last_seq tr < int (ev_seq e)"
  note simps = apply_transition_def unchanged_def require_open_step_def validate_event_def
    scan_event_def scan_matches_def Let_def
  show ?thesis
  proof (cases "ev_data e")
    case (TurnStart x)
    with v inv show ?thesis unfolding tr'
      by (auto simp: simps trace_inv_def turns_ok_def split: if_splits)
  next
    case (TurnEnd x r)
    with v show ?thesis unfolding tr' by (auto simp: simps split: if_splits)
  next
    case (StepStart x y)
    with v assms(1) show ?thesis unfolding tr' by (auto simp: simps split: if_splits)
  next
    case (StepEnd x y)
    with v assms(1) show ?thesis unfolding tr' by (auto simp: simps split: if_splits)
  next
    case (AssistantMessage x y m u)
    with v assms(1) seq set_register_blocks [of "rs_pending st" y "message_content m"]
    show ?thesis unfolding tr' by (fastforce simp: simps split: if_splits)
  next
    case (ToolCall x y c n a)
    with v assms(1) seq show ?thesis unfolding tr'
      by (fastforce simp: simps set_update_distinct distinct_update split: if_splits option.split dest: map_of_SomeD)
  next
    case (ToolResult d)
    have dd: "distinct (map fst (AList.delete c ps))" if "distinct (map fst ps)" for c and ps :: "(call_id \<times> pending_call) list"
      using that by (simp add: distinct_delete)
    with ToolResult v assms(1) seq show ?thesis unfolding tr'
      by (fastforce simp: simps AList.delete_eq split: if_splits)
  qed (use v assms(1) seq in \<open>fastforce simp: tr' simps split: if_splits\<close>)+
qed

lemma scan_matches_log: "seed_trace evs = Inr tr \<Longrightarrow> scan_matches (scan_log evs) tr"
proof (induction evs arbitrary: tr rule: rev_induct)
  case Nil
  then show ?case
    by (auto simp: seed_trace_def scan_matches_def scan_log_def start_scan_def fresh_trace_def)
next
  case (snoc e evs)
  then obtain u where u: "run_fold trace_step fresh_trace evs = Inr u" and e: "trace_step u e = Inr tr"
    by (auto simp: seed_trace_def run_fold_snoc)
  from scan_matches_step [OF snoc.IH trace.run_inv [OF u] e] u show ?case
    by (simp add: seed_trace_def scan_log_snoc)
qed

section \<open>The repaired log passes the relational checks\<close>

lemma closing_result_step:
  assumes "tc_open_turn tr = Some turn" and "tc_open_step tr = Some (pc_step p)"
    and "pc_call_seq p \<noteq> None \<longrightarrow> c \<in> tc_pending tr" and "tc_last_seq tr < int seq"
  shows "trace_step tr (closing_result turn time seq c p)
    = Inr (tr\<lparr> tc_last_seq := int seq, tc_pending := tc_pending tr - {c} \<rparr>)"
  using assms
  by (auto simp: closing_result_def make_event_def trace_step_def validate_event_def require_open_step_def
      synthetic_not_started_def unchanged_def apply_transition_def Let_def tool_outcome_unknown_def
      tool_not_started_def)

lemma close_calls_trace:
  "tc_open_turn tr = Some turn \<Longrightarrow> distinct (map fst ps) \<Longrightarrow> tc_last_seq tr < int seq \<Longrightarrow>
     (\<forall>(c, p) \<in> set ps. tc_open_step tr = Some (pc_step p) \<and> (pc_call_seq p \<noteq> None \<longrightarrow> c \<in> tc_pending tr)) \<Longrightarrow>
     run_fold trace_step tr (close_calls turn time seq ps)
       = Inr (tr\<lparr> tc_last_seq := (if ps = [] then tc_last_seq tr else int (seq + length ps - 1)),
                  tc_pending := tc_pending tr - fst ` set ps \<rparr>)"
proof (induction turn time seq ps arbitrary: tr rule: close_calls.induct)
  case (1 turn time seq)
  then show ?case by simp
next
  case (2 turn time seq c p ps)
  let ?u = "tr\<lparr> tc_last_seq := int seq, tc_pending := tc_pending tr - {c} \<rparr>"
  have step: "trace_step tr (closing_result turn time seq c p) = Inr ?u"
    using 2(2,4,5) by (intro closing_result_step) auto
  have "run_fold trace_step ?u (close_calls turn time (Suc seq) ps)
      = Inr (?u\<lparr> tc_last_seq := (if ps = [] then tc_last_seq ?u else int (Suc seq + length ps - 1)),
                 tc_pending := tc_pending ?u - fst ` set ps \<rparr>)"
    using 2(2-5) by (intro 2(1)) (auto simp: image_iff)
  moreover have "tc_pending tr - {c} - fst ` set ps = tc_pending tr - fst ` set ((c, p) # ps)" by auto
  ultimately show ?case using step by (auto simp: of_nat_diff)
qed

lemma closing_boundaries_trace:
  assumes "tc_open_turn tr = Some turn" and "tc_last_seq tr < int seq"
  shows "\<exists>tr'. run_fold trace_step tr (closing_boundaries turn (tc_open_step tr) time seq) = Inr tr'
    \<and> tc_open_turn tr' = None \<and> tc_open_step tr' = None \<and> (tc_open_step tr \<noteq> None \<or> tc_pending tr = {} \<longrightarrow> tc_pending tr' = {})"
  using assms
  by (auto simp: closing_boundaries_def make_event_def trace_step_def validate_event_def
      require_open_step_def unchanged_def apply_transition_def split: option.split)

lemma length_close_calls [simp]: "length (close_calls turn time seq ps) = length ps"
  by (induction turn time seq ps rule: close_calls.induct) auto

lemma trace_last_seq:
  assumes "seed_trace evs = Inr tr" and "evs \<noteq> []"
  shows "tc_last_seq tr = int (ev_seq (last evs))"
proof -
  from assms(2) obtain xs e where evs: "evs = xs @ [e]" by (metis append_butlast_last_id)
  with assms(1) obtain u where "trace_step u e = Inr tr" by (auto simp: seed_trace_def run_fold_snoc)
  then show ?thesis unfolding evs
    by (rule trace_stepE) (auto simp: validate_event_def apply_transition_def unchanged_def Let_def
        split: if_splits event_data.splits)
qed

lemma scan_open_nonempty: "rs_open_turn (scan_log evs) \<noteq> None \<Longrightarrow> evs \<noteq> []"
  by (auto simp: scan_log_def start_scan_def)

lemma closers_trace:
  assumes ok: "seed_trace evs = Inr tr"
  shows "\<exists>tr'. seed_trace (evs @ interrupted_turn_closers evs) = Inr tr'
    \<and> tc_open_turn tr' = None \<and> tc_open_step tr' = None \<and> tc_pending tr' = {}"
proof (cases "rs_open_turn (scan_log evs)")
  case None
  have m: "scan_matches (scan_log evs) tr" by (rule scan_matches_log [OF ok])
  have "trace_inv evs tr" using trace.run_inv ok by (simp add: seed_trace_def)
  with None m have "tc_open_turn tr = None \<and> tc_open_step tr = None \<and> tc_pending tr = {}"
    by (auto simp: scan_matches_def trace_inv_def turns_ok_def calls_ok_def)
  with None ok show ?thesis by (simp add: interrupted_turn_closers_def Let_def)
next
  case (Some turn)
  let ?st = "scan_log evs" and ?seq = "ev_seq (last evs) + 1" and ?time = "ev_time (last evs)"
  have ne: "evs \<noteq> []" using scan_open_nonempty Some by simp
  have m: "scan_matches ?st tr" by (rule scan_matches_log [OF ok])
  have inv: "trace_inv evs tr" using trace.run_inv ok by (simp add: seed_trace_def)
  have last: "tc_last_seq tr < int ?seq" using trace_last_seq [OF ok ne] by simp
  let ?u = "tr\<lparr> tc_last_seq := (if rs_pending ?st = [] then tc_last_seq tr
                                  else int (?seq + length (rs_pending ?st) - 1)),
                tc_pending := tc_pending tr - fst ` set (rs_pending ?st) \<rparr>"
  have calls: "run_fold trace_step tr (close_calls turn ?time ?seq (rs_pending ?st)) = Inr ?u"
    using m Some last by (intro close_calls_trace) (auto simp: scan_matches_def)
  have "tc_open_turn ?u = Some turn" "tc_last_seq ?u < int (?seq + length (rs_pending ?st))"
    using m Some last by (auto simp: scan_matches_def of_nat_diff)
  from closing_boundaries_trace [OF this, of ?time] obtain tr' where
    b: "run_fold trace_step ?u (closing_boundaries turn (rs_open_step ?st) ?time (?seq + length (rs_pending ?st))) = Inr tr'"
    and c: "tc_open_turn tr' = None" "tc_open_step tr' = None"
      "tc_open_step ?u \<noteq> None \<or> tc_pending ?u = {} \<longrightarrow> tc_pending tr' = {}"
    using m by (auto simp: scan_matches_def)
  have "tc_open_step ?u \<noteq> None \<or> tc_pending ?u = {}"
    using inv by (auto simp: trace_inv_def calls_ok_def)
  moreover have "interrupted_turn_closers evs = close_calls turn ?time ?seq (rs_pending ?st)
      @ closing_boundaries turn (rs_open_step ?st) ?time (?seq + length (rs_pending ?st))"
    using Some ne by (simp add: interrupted_turn_closers_def Let_def)
  moreover have "run_fold trace_step fresh_trace evs = Inr tr" using ok by (simp add: seed_trace_def)
  ultimately show ?thesis using c b calls
    by (simp add: seed_trace_def run_fold_append)
qed

section \<open>One repair is enough\<close>

lemma closers_none: "rs_open_turn (scan_log evs) = None \<Longrightarrow> interrupted_turn_closers evs = []"
  by (simp add: interrupted_turn_closers_def)

lemma closers_close: "rs_open_turn (scan_log (evs @ interrupted_turn_closers evs)) = None"
proof (cases "rs_open_turn (scan_log evs)")
  case None
  then show ?thesis by (simp add: closers_none)
next
  case (Some turn)
  then have "evs \<noteq> []" by (simp add: scan_open_nonempty)
  with Some show ?thesis
    by (simp add: interrupted_turn_closers_def Let_def scan_log_append closing_boundaries_def
        scan_event_def make_event_def split: option.split)
qed

section \<open>The repaired log stays on a valid surface\<close>

lemma closing_result_surface:
  assumes "pc_call_seq p \<noteq> None \<longrightarrow> the (pc_call_seq p) < k" and "int k \<le> max_safe + 1"
  shows "surface_step evs b (k, st, reps) (closing_result turn time k c p)
    = Inr (Suc k, st\<lparr> fs_nodes := fs_nodes st @ [k] \<rparr>, reps)"
proof -
  have "is_event_seq (num_of q)" "json_seq (num_of q) = q" if "q < k" for q
    using that assms(2) by (auto simp: num_of_def safe_int_def max_safe_def)
  with assms(1) show ?thesis
    by (auto simp: surface_step_def apply_surface_event_def plan_surface_event_def surface_op_of_def
        closing_result_def make_event_def is_surface_eligible_type_def surface_event_types_def
        assert_provenance_def seqs_json_def Let_def split: option.split)
qed

lemma close_calls_surface:
  "\<forall>(c, p) \<in> set ps. pc_call_seq p \<noteq> None \<longrightarrow> the (pc_call_seq p) < k \<Longrightarrow>
   int k + int (length ps) \<le> max_safe + 1 \<Longrightarrow>
     run_fold (surface_step evs b) (k, st, reps) (close_calls turn time k ps)
       = Inr (k + length ps, st\<lparr> fs_nodes := fs_nodes st @ [k ..< k + length ps] \<rparr>, reps)"
proof (induction turn time k ps arbitrary: st rule: close_calls.induct)
  case (1 turn time k)
  then show ?case by simp
next
  case (2 turn time k c p ps)
  let ?st = "st\<lparr> fs_nodes := fs_nodes st @ [k] \<rparr>"
  have step: "surface_step evs b (k, st, reps) (closing_result turn time k c p) = Inr (Suc k, ?st, reps)"
    using 2(2,3) by (intro closing_result_surface) auto
  have "run_fold (surface_step evs b) (Suc k, ?st, reps) (close_calls turn time (Suc k) ps)
      = Inr (Suc k + length ps, ?st\<lparr> fs_nodes := fs_nodes ?st @ [Suc k ..< Suc k + length ps] \<rparr>, reps)"
    using 2(2,3) by (intro 2(1)) auto
  moreover have "[k ..< k + length ((c, p) # ps)] = k # [Suc k ..< Suc k + length ps]"
    by (simp add: upt_rec)
  ultimately show ?case using step by simp
qed

lemma closing_boundaries_surface:
  "\<exists>k'. run_fold (surface_step evs b) (k, st, reps) (closing_boundaries turn os time k) = Inr (k', st, reps)"
  by (auto simp: closing_boundaries_def make_event_def surface_step_def apply_surface_event_def
      plan_surface_event_def surface_op_of_def is_surface_eligible_type_def surface_event_types_def
      split: option.split)

section \<open>Every dangling call is answered\<close>

definition is_result_for :: "call_id \<Rightarrow> session_event \<Rightarrow> bool" where
  "is_result_for c e = (case ev_data e of ToolResult d \<Rightarrow> trm_call_id (tr_message d) = c | _ \<Rightarrow> False)"

definition clears_calls :: "session_event \<Rightarrow> bool" where
  "clears_calls e = (case ev_data e of
     TurnStart _ \<Rightarrow> True | TurnEnd _ _ \<Rightarrow> True | StepEnd _ _ \<Rightarrow> True | _ \<Rightarrow> False)"

lemma register_blocks_keys:
  "fst ` set (register_blocks s bs ps) = fst ` set ps \<union> {c. \<exists>n a. ToolCallBlock c n a \<in> set bs}"
proof (induction bs arbitrary: ps)
  case Nil
  then show ?case by simp
next
  case (Cons b bs)
  have "fst ` set (AList.update c v ps) = insert c (fst ` set ps)" for c v
    by (induction ps) auto
  then show ?case using Cons by (cases b) auto
qed

lemma scan_keeps_call:
  assumes "c \<in> fst ` set (rs_pending st)" and "\<not> clears_calls e" and "\<not> is_result_for c e"
  shows "c \<in> fst ` set (rs_pending (scan_event st e))"
proof -
  have up: "fst ` set (AList.update k v ps) = insert k (fst ` set ps)" for k v and ps :: "(call_id \<times> pending_call) list"
    by (induction ps) auto
  show ?thesis
    using assms
    by (cases "ev_data e")
       (auto simp: scan_event_def clears_calls_def is_result_for_def register_blocks_keys up AList.delete_eq
         split: option.split)
qed

lemma scan_keeps_call_list:
  "c \<in> fst ` set (rs_pending st) \<Longrightarrow> \<forall>y \<in> set ys. \<not> clears_calls y \<and> \<not> is_result_for c y \<Longrightarrow>
     c \<in> fst ` set (rs_pending (foldl scan_event st ys))"
  by (induction ys arbitrary: st) (simp_all add: scan_keeps_call)

lemma scan_distinct: "distinct (map fst (rs_pending (scan_log evs)))"
proof (induction evs rule: rev_induct)
  case Nil
  then show ?case by (simp add: scan_log_def start_scan_def)
next
  case (snoc e evs)
  then show ?case
    using set_register_blocks
    by (auto simp: scan_log_snoc scan_event_def distinct_update distinct_delete
        split: event_data.splits option.split)
qed

lemma is_result_for_closing [simp]: "is_result_for c (closing_result turn time seq k p) \<longleftrightarrow> k = c"
  by (simp add: closing_result_def make_event_def is_result_for_def Let_def)

lemma close_calls_count:
  "distinct (map fst ps) \<Longrightarrow>
     length (filter (is_result_for c) (close_calls turn time seq ps)) = (if c \<in> fst ` set ps then 1 else 0)"
  by (induction turn time seq ps rule: close_calls.induct) auto

lemma boundaries_no_result [simp]: "filter (is_result_for c) (closing_boundaries turn os time seq) = []"
  by (auto simp: closing_boundaries_def make_event_def is_result_for_def split: option.split)

lemma closers_count:
  assumes "rs_open_turn (scan_log evs) \<noteq> None"
  shows "length (filter (is_result_for c) (interrupted_turn_closers evs))
    = (if c \<in> fst ` set (rs_pending (scan_log evs)) then 1 else 0)"
proof -
  obtain turn where "rs_open_turn (scan_log evs) = Some turn" using assms by blast
  with scan_open_nonempty [OF assms] show ?thesis
    by (simp add: interrupted_turn_closers_def Let_def close_calls_count [OF scan_distinct])
qed

section \<open>Properties\<close>

text \<open>
  C12: repair restores the relational invariants. Appending the closers to a log that passes the
  checks gives a log that passes them, with no open turn, no open step and no call left waiting.
\<close>

theorem closers_restore_invariants:
  assumes "seed_trace evs = Inr tr"
  shows "\<exists>tr'. seed_trace (evs @ interrupted_turn_closers evs) = Inr tr'
    \<and> tc_open_turn tr' = None \<and> tc_open_step tr' = None \<and> tc_pending tr' = {}"
  using assms by (rule closers_trace)

theorem closers_restore_invariants_witness:
  "is_ok (seed_trace (sample_turn @ interrupted_turn_closers sample_turn))
   \<and> length (interrupted_turn_closers sample_turn) = 3"
  using closers_restore_invariants [OF sample_turn_trace]
  by (intro conjI) (auto simp: is_ok_iff, code_simp)

text \<open>
  Repair extends the surface and rewrites nothing. When the interrupted log folds, the
  repaired log folds to the same nodes followed by the synthetic results, with the same
  replacements.
\<close>

theorem closers_extend_surface:
  assumes "fold_surface evs = Inr (nodes, reps)" and "seed_trace evs = Inr tr"
    and "int (length evs) + int (length (interrupted_turn_closers evs)) \<le> max_safe"
  shows "fold_surface (evs @ interrupted_turn_closers evs)
    = Inr (nodes @ (if rs_open_turn (scan_log evs) = None then []
                    else [length evs ..< length evs + length (rs_pending (scan_log evs))]), reps)"
proof (cases "rs_open_turn (scan_log evs)")
  case None
  with assms(1) show ?thesis by (simp add: closers_none)
next
  case (Some turn)
  let ?ps = "rs_pending (scan_log evs)" and ?k = "length evs" and ?time = "ev_time (last evs)"
  have ne: "evs \<noteq> []" using scan_open_nonempty Some by simp
  from assms(1) obtain k st where
    run: "run_fold (surface_step evs 0) (surface_start 0) evs = Inr (k, st, reps)"
    and nodes: "nodes = fs_nodes st" by (auto simp: fold_surface_def)
  have k: "k = ?k" using surface_inv_length [OF surf.run_inv [OF run]] by simp
  have "map ev_seq evs = [0 ..< ?k]" using run by (intro log_accepted_seqs) (auto simp: log_accepted_def)
  then have "ev_seq (last evs) = last [0 ..< ?k]" using ne by (metis last_map)
  then have seq: "ev_seq (last evs) + 1 = ?k" using ne by simp
  have m: "scan_matches (scan_log evs) tr" by (rule scan_matches_log [OF assms(2)])
  have "tc_last_seq tr < int ?k" using trace_last_seq [OF assms(2) ne] seq by simp
  with m have cited: "\<forall>(c, p) \<in> set ?ps. pc_call_seq p \<noteq> None \<longrightarrow> the (pc_call_seq p) < ?k"
    by (fastforce simp: scan_matches_def)
  have cl: "interrupted_turn_closers evs = close_calls turn ?time ?k ?ps
      @ closing_boundaries turn (rs_open_step (scan_log evs)) ?time (?k + length ?ps)"
    using Some ne seq by (simp add: interrupted_turn_closers_def Let_def)
  let ?all = "evs @ interrupted_turn_closers evs"
  have "run_fold (surface_step ?all 0) (surface_start 0) evs = Inr (?k, st, reps)"
    using run k by (simp add: surface_run_append)
  moreover have "run_fold (surface_step ?all 0) (?k, st, reps) (close_calls turn ?time ?k ?ps)
      = Inr (?k + length ?ps, st\<lparr> fs_nodes := fs_nodes st @ [?k ..< ?k + length ?ps] \<rparr>, reps)"
    using assms(3) cl by (intro close_calls_surface [OF cited]) simp
  moreover obtain k' where "run_fold (surface_step ?all 0)
      (?k + length ?ps, st\<lparr> fs_nodes := fs_nodes st @ [?k ..< ?k + length ?ps] \<rparr>, reps)
      (closing_boundaries turn (rs_open_step (scan_log evs)) ?time (?k + length ?ps))
      = Inr (k', st\<lparr> fs_nodes := fs_nodes st @ [?k ..< ?k + length ?ps] \<rparr>, reps)"
    using closing_boundaries_surface by blast
  ultimately have "run_fold (surface_step ?all 0) (surface_start 0)
      (evs @ close_calls turn ?time ?k ?ps @ closing_boundaries turn (rs_open_step (scan_log evs)) ?time (?k + length ?ps))
      = Inr (k', st\<lparr> fs_nodes := fs_nodes st @ [?k ..< ?k + length ?ps] \<rparr>, reps)"
    by (simp add: run_fold_append)
  with Some nodes show ?thesis by (simp add: fold_surface_def cl)
qed

theorem closers_extend_surface_witness:
  "fold_surface (sample_turn @ interrupted_turn_closers sample_turn) = Inr ([1, 3, 5] @ [6], [])"
proof -
  have "fold_surface sample_turn = Inr ([1, 3, 5], [])" by code_simp
  moreover have "int (length sample_turn) + int (length (interrupted_turn_closers sample_turn)) \<le> max_safe"
    by code_simp
  moreover have "\<not> rs_open_turn (scan_log sample_turn) = None" "length sample_turn = 6"
    "length (rs_pending (scan_log sample_turn)) = 1" by code_simp+
  ultimately show ?thesis using closers_extend_surface [OF _ sample_turn_trace] by simp
qed

text \<open>
  No dangling call reaches the provider. When a crash leaves a turn open, a tool call that an
  assistant message of the unfinished step requested has a result in the repaired log, and the
  repair adds exactly one result when the log had none, never more.
\<close>

theorem closers_answer_every_call:
  assumes "evs = xs @ e # ys" and "ev_data e = AssistantMessage t s m u"
    and "ToolCallBlock c n a \<in> set (message_content m)"
    and "\<forall>y \<in> set ys. \<not> clears_calls y" and "rs_open_turn (scan_log evs) \<noteq> None"
  shows "length (filter (is_result_for c) (interrupted_turn_closers evs)) \<le> 1
    \<and> ((\<forall>y \<in> set ys. \<not> is_result_for c y) \<longrightarrow>
         length (filter (is_result_for c) (interrupted_turn_closers evs)) = 1)"
proof -
  have "c \<in> fst ` set (rs_pending (scan_event (scan_log xs) e))"
    using assms(2,3) by (auto simp: scan_event_def register_blocks_keys)
  moreover have "scan_log evs = foldl scan_event (scan_event (scan_log xs) e) ys"
    using assms(1) by (simp add: scan_log_append)
  ultimately have "(\<forall>y \<in> set ys. \<not> is_result_for c y) \<longrightarrow> c \<in> fst ` set (rs_pending (scan_log evs))"
    using scan_keeps_call_list assms(4) by auto
  with closers_count [OF assms(5)] show ?thesis by simp
qed

theorem closers_answer_every_call_witness:
  "length (filter (is_result_for ''c2'') (interrupted_turn_closers sample_turn)) = 1"
proof -
  have split: "sample_turn = take 3 sample_turn @ (sample_turn ! 3) # drop 4 sample_turn" by code_simp
  have "ev_data (sample_turn ! 3) = AssistantMessage 1 1 (create_assistant_message ''a1''
         [ToolCallBlock ''c1'' ''read'' ''args'', ToolCallBlock ''c2'' ''read'' ''args''] ''p'' ''m'' None) None"
    by code_simp
  from closers_answer_every_call [OF split this, of "''c2''" "''read''" "''args''"]
  have "list_all (\<lambda>y. \<not> clears_calls y) (drop 4 sample_turn) \<Longrightarrow> rs_open_turn (scan_log sample_turn) \<noteq> None \<Longrightarrow>
     list_all (\<lambda>y. \<not> is_result_for ''c2'' y) (drop 4 sample_turn) \<Longrightarrow> ?thesis"
    by (simp add: create_assistant_message_def list_all_iff)
  moreover have "list_all (\<lambda>y. \<not> clears_calls y) (drop 4 sample_turn)"
    "list_all (\<lambda>y. \<not> is_result_for ''c2'' y) (drop 4 sample_turn)"
    "\<not> rs_open_turn (scan_log sample_turn) = None" by code_simp+
  ultimately show ?thesis by blast
qed

text \<open>
  Repair is idempotent. A repaired log needs no closers, so repairing what was already repaired
  and written back adds nothing.
\<close>

theorem closers_idempotent:
  "interrupted_turn_closers (evs @ interrupted_turn_closers evs) = []"
  by (rule closers_none [OF closers_close])

end
