(* ===== verification/Session_Store.thy ===== *)
theory Session_Store
  imports Trace
begin

text \<open>
  The live store of \<^verbatim>\<open>packages/core/session/src/index.ts\<close> (class \<^verbatim>\<open>SessionStore\<close>) and the publication
  owner of \<^verbatim>\<open>preparation.ts\<close>. Sessions and store entries are objects with an identity, so the state
  holds them in two heaps indexed by reference. Listeners run in the middle of \<^verbatim>\<open>announce\<close> and
  \<^verbatim>\<open>append\<close> and may call the store again: each of the two is split at the points where foreign code
  runs, and \<open>store_step\<close> lets any operation happen at those points. \<open>sto_edges\<close> is what observers
  were told.
\<close>

section \<open>State\<close>

record session_entry =
  en_id :: session_id
  en_session :: nat
  en_announced :: bool
  en_announcing :: bool
  en_appending :: bool
  en_detach_requested :: bool
  en_entered :: bool
  en_candidate :: "session_event option"

datatype lifecycle_edge =
    Created nat
  | Disposed nat
  | Published nat session_event

datatype fork_error_code =
    ForkNotFound
  | ForkNotLive
  | ForkAlreadyExists
  | ForkInvalidBoundary
  | ForkOpenTurn

datatype store_error =
    AlreadyExists session_id
  | AlreadyAttached session_id
  | NotLive session_id
  | AlreadyAnnounced session_id
  | CreationVetoed
  | ConstructionFailed session_error
  | ForkFailed fork_error_code

record session_store =
  sto_sessions :: "session list"
  sto_entries :: "session_entry list"
  sto_store :: "(session_id \<times> nat) list"
  sto_attachments :: "nat \<Rightarrow> nat option"
  sto_counter :: nat
  sto_edges :: "lifecycle_edge list"

definition empty_store :: session_store where
  "empty_store = \<lparr> sto_sessions = [], sto_entries = [], sto_store = [], sto_attachments = (\<lambda>_. None),
     sto_counter = 0, sto_edges = [] \<rparr>"

record create_meta =
  cm_created_at :: "int option"
  cm_cwd :: "string option"
  cm_parent :: "session_id option"
  cm_seed_length :: "nat option"
  cm_origin_subagent :: bool
  cm_delegation_depth :: "nat option"
  cm_agent_preset :: "string option"

datatype prepare_options =
    FromSeed "session_event list option" create_meta
  | FromPersistence "session_event list" session_header

definition no_meta :: create_meta where
  "no_meta = \<lparr> cm_created_at = None, cm_cwd = None, cm_parent = None, cm_seed_length = None,
     cm_origin_subagent = False, cm_delegation_depth = None, cm_agent_preset = None \<rparr>"

section \<open>Preparing and entering\<close>

text \<open>The minting loop counts up until the id is free; \<open>fuel\<close> bounds the ids it may find taken.\<close>

fun mint_id :: "nat \<Rightarrow> nat \<Rightarrow> session_id list \<Rightarrow> (session_id \<times> nat) option" where
  "mint_id fuel counter taken =
     (let c = Suc counter; i = ''session-'' @ show_nat c in
      if i \<notin> set taken then Some (i, c)
      else case fuel of 0 \<Rightarrow> None | Suc f \<Rightarrow> mint_id f c taken)"

declare mint_id.simps [simp del]

definition header_of_meta :: "int \<Rightarrow> session_id \<Rightarrow> create_meta \<Rightarrow> session_header" where
  "header_of_meta now i m =
     \<lparr> hdr_version = session_format_version, hdr_id = i,
       hdr_created_at = (case cm_created_at m of Some t \<Rightarrow> t | None \<Rightarrow> now),
       hdr_cwd = cm_cwd m, hdr_parent_session = cm_parent m, hdr_seed_length = cm_seed_length m,
       hdr_origin_subagent = cm_origin_subagent m, hdr_delegation_depth = cm_delegation_depth m,
       hdr_agent_preset = cm_agent_preset m \<rparr>"

definition construct ::
  "(string \<Rightarrow> bool) \<Rightarrow> int \<Rightarrow> session_id \<Rightarrow> prepare_options \<Rightarrow> session_error + session" where
  "construct isabs now i opts = (case opts of
       FromPersistence seed h \<Rightarrow> new_session isabs now ModeRestore i (Some seed) (Some h)
     | FromSeed seed m \<Rightarrow> new_session isabs now ModeSnapshot i seed (Some (header_of_meta now i m)))"

definition choose_id :: "session_id option \<Rightarrow> session_store \<Rightarrow> session_id \<times> nat" where
  "choose_id ido st = (case ido of
       Some i \<Rightarrow> (i, sto_counter st)
     | None \<Rightarrow> the (mint_id (length (sto_store st)) (sto_counter st) (map fst (sto_store st))))"

definition prepare ::
  "(string \<Rightarrow> bool) \<Rightarrow> int \<Rightarrow> session_id option \<Rightarrow> prepare_options \<Rightarrow> session_store
     \<Rightarrow> session_store \<times> (store_error + nat)" where
  "prepare isabs now ido opts st =
     (case choose_id ido st of (i, c) \<Rightarrow>
        if i \<in> set (map fst (sto_store st)) then (st\<lparr> sto_counter := c \<rparr>, Inl (AlreadyExists i))
        else (case construct isabs now i opts of
             Inl x \<Rightarrow> (st\<lparr> sto_counter := c \<rparr>, Inl (ConstructionFailed x))
           | Inr s \<Rightarrow> (st\<lparr> sto_counter := c, sto_sessions := sto_sessions st @ [s] \<rparr>,
                      Inr (length (sto_sessions st)))))"

definition ses_id :: "session \<Rightarrow> session_id" where
  "ses_id s = hdr_id (ses_header s)"

definition enter :: "nat \<Rightarrow> session_store \<Rightarrow> store_error + (session_store \<times> nat)" where
  "enter ref st =
     (let i = ses_id (sto_sessions st ! ref); r = length (sto_entries st) in
      if i \<in> set (map fst (sto_store st)) then Inl (AlreadyExists i)
      else if sto_attachments st ref \<noteq> None then Inl (AlreadyAttached i)
      else Inr (st\<lparr> sto_entries := sto_entries st @
                      [\<lparr> en_id = i, en_session = ref, en_announced = False, en_announcing = False,
                         en_appending = False, en_detach_requested = False, en_entered = True,
                         en_candidate = None \<rparr>],
                    sto_store := sto_store st @ [(i, r)],
                    sto_attachments := (sto_attachments st)(ref := Some r) \<rparr>, r))"

definition upd_entry :: "nat \<Rightarrow> (session_entry \<Rightarrow> session_entry) \<Rightarrow> session_store \<Rightarrow> session_store" where
  "upd_entry r f st = st\<lparr> sto_entries := (sto_entries st)[r := f (sto_entries st ! r)] \<rparr>"

definition detach_entered :: "nat \<Rightarrow> session_store \<Rightarrow> session_store" where
  "detach_entered r st =
     (let st = upd_entry r (\<lambda>en. en\<lparr> en_detach_requested := False \<rparr>) st; en = sto_entries st ! r in
      if map_of (sto_store st) (en_id en) \<noteq> Some r then st
      else st\<lparr> sto_store := filter (\<lambda>p. fst p \<noteq> en_id en) (sto_store st),
               sto_attachments := (sto_attachments st)(en_session en := None),
               sto_edges := sto_edges st @ (if en_announced en then [Disposed r] else []) \<rparr>)"

text \<open>The disposer that \<^verbatim>\<open>enter\<close> returns.\<close>

definition detach :: "nat \<Rightarrow> session_store \<Rightarrow> session_store" where
  "detach r st =
     (let en = sto_entries st ! r in
      if \<not> en_entered en then st
      else
        let st = upd_entry r (\<lambda>en. en\<lparr> en_entered := False \<rparr>) st in
        if en_announcing en \<or> en_appending en
        then upd_entry r (\<lambda>en. en\<lparr> en_detach_requested := True \<rparr>) st
        else detach_entered r st)"

definition live_entry_for :: "nat \<Rightarrow> session_store \<Rightarrow> store_error + nat" where
  "live_entry_for ref st =
     (let i = ses_id (sto_sessions st ! ref) in
      case sto_attachments st ref of
        None \<Rightarrow> Inl (NotLive i)
      | Some r \<Rightarrow> if map_of (sto_store st) (en_id (sto_entries st ! r)) \<noteq> Some r then Inl (NotLive i) else Inr r)"

section \<open>Announcing\<close>

definition announce_begin :: "nat \<Rightarrow> session_store \<Rightarrow> store_error + (session_store \<times> nat)" where
  "announce_begin ref st =
     bind_res (live_entry_for ref st) (\<lambda>r.
       let en = sto_entries st ! r in
       if en_announced en \<or> en_announcing en then Inl (AlreadyAnnounced (en_id en))
       else Inr ((upd_entry r (\<lambda>en. en\<lparr> en_announced := True, en_announcing := True \<rparr>) st)
                   \<lparr> sto_edges := sto_edges st @ [Created r] \<rparr>, r))"

definition announce_end :: "nat \<Rightarrow> session_store \<Rightarrow> session_store" where
  "announce_end r st =
     (let st = upd_entry r (\<lambda>en. en\<lparr> en_announcing := False \<rparr>) st; en = sto_entries st ! r in
      if en_detach_requested en \<and> \<not> en_appending en then detach_entered r st else st)"

text \<open>
  \<open>listeners\<close> is what the creation listeners of an entry do to the store, and whether one of them
  throws: then the effect disposes what it already yielded, the detach capability.
\<close>

definition create ::
  "(nat \<Rightarrow> session_store \<Rightarrow> session_store \<times> bool) \<Rightarrow> (string \<Rightarrow> bool) \<Rightarrow> int \<Rightarrow> session_id option
     \<Rightarrow> prepare_options \<Rightarrow> session_store \<Rightarrow> session_store \<times> (store_error + nat)" where
  "create listeners isabs now ido opts st =
     (case prepare isabs now ido opts st of
        (st1, Inl x) \<Rightarrow> (st1, Inl x)
      | (st1, Inr ref) \<Rightarrow>
          (case enter ref st1 of
             Inl x \<Rightarrow> (st1, Inl x)
           | Inr (st2, r) \<Rightarrow>
               (case announce_begin ref st2 of
                  Inl x \<Rightarrow> (detach r st2, Inl x)
                | Inr (st3, _) \<Rightarrow>
                    let (st4, threw) = listeners r st3; st5 = announce_end r st4 in
                    if threw then (detach r st5, Inl CreationVetoed) else (st5, Inr ref))))"

section \<open>Appending through the store\<close>

text \<open>
  \<open>append_open\<close> runs to the dispatch of the internal checks, \<open>append_push\<close> to the observers, and
  \<open>append_close\<close> is the \<^verbatim>\<open>finally\<close> block. A detached session has no entry and appends at once.
\<close>

definition upd_session :: "nat \<Rightarrow> session \<Rightarrow> session_store \<Rightarrow> session_store" where
  "upd_session ref s st = st\<lparr> sto_sessions := (sto_sessions st)[ref := s] \<rparr>"

definition append_open ::
  "int \<Rightarrow> nat \<Rightarrow> event_data \<Rightarrow> json option \<Rightarrow> json option \<Rightarrow> bool \<Rightarrow> session_store
     \<Rightarrow> session_store \<times> (session_error + session_event)" where
  "append_open now ref d op srcs ign st =
     (let s = sto_sessions st ! ref in
      case assert_supported_request_header d of
        Inl x \<Rightarrow> (st, Inl x)
      | Inr _ \<Rightarrow>
          if (case sto_attachments st ref of Some r \<Rightarrow> en_appending (sto_entries st ! r) | None \<Rightarrow> False)
          then (st, Inl AppendReentered)
          else
            let e = make_event (length (ses_log s)) now d op srcs ign in
            (case validate_next (ses_manager s) (ses_log s) e of
               (m, Some x) \<Rightarrow> (upd_session ref (s\<lparr> ses_manager := m \<rparr>) st, Inl (SurfaceRejected x))
             | (m, None) \<Rightarrow>
                 (case sto_attachments st ref of
                    None \<Rightarrow>
                      (upd_session ref (s\<lparr> ses_manager := m, ses_log := ses_log s @ [e] \<rparr>) st, Inr e)
                  | Some r \<Rightarrow>
                      (upd_entry r (\<lambda>en. en\<lparr> en_appending := True, en_candidate := Some e \<rparr>)
                         (upd_session ref (s\<lparr> ses_manager := m \<rparr>) st), Inr e))))"

definition append_push :: "nat \<Rightarrow> bool \<Rightarrow> session_store \<Rightarrow> session_store" where
  "append_push r vetoed st =
     (case en_candidate (sto_entries st ! r) of
        None \<Rightarrow> st
      | Some e \<Rightarrow>
          let ref = en_session (sto_entries st ! r); s = sto_sessions st ! ref;
              st' = upd_entry r (\<lambda>en. en\<lparr> en_candidate := None \<rparr>) st
          in if vetoed then st'
             else (upd_session ref (s\<lparr> ses_log := ses_log s @ [e] \<rparr>) st')
                    \<lparr> sto_edges := sto_edges st @ [Published r e] \<rparr>)"

definition append_close :: "nat \<Rightarrow> session_store \<Rightarrow> session_store" where
  "append_close r st =
     (let st = upd_entry r (\<lambda>en. en\<lparr> en_appending := False \<rparr>) st; en = sto_entries st ! r in
      if en_detach_requested en \<and> \<not> en_announcing en then detach_entered r st else st)"

section \<open>Reading, flushing and forking\<close>

definition get_session :: "session_store \<Rightarrow> session_id \<Rightarrow> nat option" where
  "get_session st i = map_option (\<lambda>r. en_session (sto_entries st ! r)) (map_of (sto_store st) i)"

definition list_sessions :: "session_store \<Rightarrow> nat list" where
  "list_sessions st = map (\<lambda>p. en_session (sto_entries st ! snd p)) (sto_store st)"

definition flush :: "nat \<Rightarrow> ('x + unit) list \<Rightarrow> session_store \<Rightarrow> (store_error + 'x) + bool" where
  "flush ref results st =
     (case live_entry_for ref st of
        Inl x \<Rightarrow> Inl (Inl x)
      | Inr _ \<Rightarrow> (case List.find (\<lambda>r. \<not> is_ok r) results of
          Some (Inl x) \<Rightarrow> Inl (Inr x)
        | _ \<Rightarrow> Inr (length results > 0)))"

fun last_turn_boundary :: "session_event list \<Rightarrow> event_data option" where
  "last_turn_boundary [] = None"
| "last_turn_boundary (e # es) =
     (case last_turn_boundary es of
        Some d \<Rightarrow> Some d
      | None \<Rightarrow> if ev_type e = ''turn/start'' \<or> ev_type e = ''turn/end'' then Some (ev_data e) else None)"

definition fork_seed :: "session \<Rightarrow> rat option \<Rightarrow> store_error + session_event list" where
  "fork_seed s requested =
     (let events = ses_log s in
      if requested = None \<and> events = [] then Inr []
      else
        let boundary = (case requested of Some b \<Rightarrow> b | None \<Rightarrow> of_nat (ev_seq (last events))) in
        if \<not> safe_num boundary \<or> boundary < 0 then Inl (ForkFailed ForkInvalidBoundary)
        else let b = nat \<lfloor>boundary\<rfloor> in
          if b \<ge> length events then Inl (ForkFailed ForkInvalidBoundary)
          else if ev_seq (events ! b) \<noteq> b then Inl (ForkFailed ForkInvalidBoundary)
          else case last_turn_boundary (take (b + 1) events) of
              Some (TurnStart _) \<Rightarrow> Inl (ForkFailed ForkOpenTurn)
            | _ \<Rightarrow> Inr (take (b + 1) events))"

datatype fork_source = ForkObject nat | ForkId session_id

definition resolve_fork_source :: "session_store \<Rightarrow> fork_source \<Rightarrow> store_error + nat" where
  "resolve_fork_source st src = (case src of
       ForkId i \<Rightarrow> (case get_session st i of None \<Rightarrow> Inl (ForkFailed ForkNotFound) | Some ref \<Rightarrow> Inr ref)
     | ForkObject ref \<Rightarrow>
         (case get_session st (ses_id (sto_sessions st ! ref)) of
            None \<Rightarrow> Inl (ForkFailed ForkNotFound)
          | Some live \<Rightarrow> if live \<noteq> ref then Inl (ForkFailed ForkNotLive) else Inr ref))"

definition fork ::
  "(nat \<Rightarrow> session_store \<Rightarrow> session_store \<times> bool) \<Rightarrow> (string \<Rightarrow> bool) \<Rightarrow> int \<Rightarrow> fork_source
     \<Rightarrow> rat option \<Rightarrow> session_id option \<Rightarrow> session_store \<Rightarrow> session_store \<times> (store_error + nat)" where
  "fork listeners isabs now src boundary child st =
     (if (case child of Some i \<Rightarrow> get_session st i \<noteq> None | None \<Rightarrow> False)
      then (st, Inl (ForkFailed ForkAlreadyExists))
      else case resolve_fork_source st src of
          Inl x \<Rightarrow> (st, Inl x)
        | Inr ref \<Rightarrow>
            let s = sto_sessions st ! ref in
            (case fork_seed s boundary of
               Inl x \<Rightarrow> (st, Inl x)
             | Inr seed \<Rightarrow>
                 create listeners isabs now child
                   (FromSeed (Some seed)
                      (no_meta\<lparr> cm_cwd := hdr_cwd (ses_header s), cm_parent := Some (ses_id s),
                                cm_seed_length := Some (length seed) \<rparr>)) st))"

section \<open>Publication ownership\<close>

record preparation =
  pre_committed :: bool
  pre_released :: bool
  pre_has_commit :: bool
  pre_has_release :: bool
  pre_calls :: "string list"

definition new_preparation :: "bool \<Rightarrow> bool \<Rightarrow> preparation" where
  "new_preparation has_commit has_release =
     \<lparr> pre_committed = False, pre_released = False, pre_has_commit = has_commit,
       pre_has_release = has_release, pre_calls = [] \<rparr>"

text \<open>\<open>fails\<close>: the provider's commit throws, which leaves the preparation uncommitted.\<close>

definition commit_publication :: "bool \<Rightarrow> preparation \<Rightarrow> preparation \<times> bool" where
  "commit_publication fails p =
     (if pre_committed p then (p, True)
      else if pre_released p then (p, False)
      else if \<not> pre_has_commit p then (p, True)
      else if fails then (p, False)
      else (p\<lparr> pre_committed := True, pre_calls := pre_calls p @ [''commit''] \<rparr>, True))"

definition dispose_preparation :: "preparation \<Rightarrow> preparation" where
  "dispose_preparation p =
     (if pre_released p \<or> pre_committed p then p
      else p\<lparr> pre_released := True,
              pre_calls := pre_calls p @ (if pre_has_release p then [''release''] else []) \<rparr>)"

end
