(* ===== verification/Store_Run.thy ===== *)
theory Store_Run
  imports Session_Store
begin

text \<open>
  The live store under interleaving. \<open>store_run\<close> reaches every state that any order of store calls
  and listener reentries can produce; the invariant says which entries are live, what observers were
  told about each, and that a detach requested in the middle of a publication is honoured when the
  publication unwinds.
\<close>

section \<open>Invariant\<close>

definition live :: "session_store \<Rightarrow> nat \<Rightarrow> bool" where
  "live st r \<longleftrightarrow> map_of (sto_store st) (en_id (sto_entries st ! r)) = Some r"

definition edges_of :: "session_store \<Rightarrow> nat \<Rightarrow> lifecycle_edge list" where
  "edges_of st r = filter (\<lambda>x. x = Created r \<or> x = Disposed r) (sto_edges st)"

definition entry_core :: "session_store \<Rightarrow> nat \<Rightarrow> bool" where
  "entry_core st r \<longleftrightarrow> (let en = sto_entries st ! r in
     en_session en < length (sto_sessions st) \<and> en_id en = ses_id (sto_sessions st ! en_session en)
     \<and> (live st r \<longleftrightarrow> sto_attachments st (en_session en) = Some r)
     \<and> edges_of st r = (if en_announced en then if live st r then [Created r] else [Created r, Disposed r] else []))"

definition store_core :: "session_store \<Rightarrow> bool" where
  "store_core st \<longleftrightarrow> distinct (map fst (sto_store st))
     \<and> (\<forall>i r. (i, r) \<in> set (sto_store st) \<longrightarrow> r < length (sto_entries st) \<and> en_id (sto_entries st ! r) = i)
     \<and> (\<forall>ref r. sto_attachments st ref = Some r \<longrightarrow> r < length (sto_entries st) \<and> en_session (sto_entries st ! r) = ref)
     \<and> (\<forall>r \<ge> length (sto_entries st). edges_of st r = [])
     \<and> (\<forall>s \<in> set (sto_sessions st). session_ok s)
     \<and> (\<forall>r < length (sto_entries st). entry_core st r)"

fun cand_ok :: "bool \<Rightarrow> session \<Rightarrow> session_event option \<Rightarrow> bool" where
  "cand_ok busy s None = True"
| "cand_ok busy s (Some e) = (busy \<and> validate_next (ses_manager s) (ses_log s) e = (ses_manager s, None))"

definition flags_ok :: "bool \<Rightarrow> session \<Rightarrow> session_entry \<Rightarrow> bool" where
  "flags_ok lv s en \<longleftrightarrow>
     (if lv
      then en_detach_requested en = (\<not> en_entered en) \<and> (en_announcing en \<longrightarrow> en_announced en)
        \<and> (en_detach_requested en \<longrightarrow> en_announcing en \<or> en_appending en)
      else \<not> en_announcing en \<and> \<not> en_appending en \<and> \<not> en_entered en \<and> \<not> en_detach_requested en)
     \<and> cand_ok (en_appending en) s (en_candidate en)"

definition entry_flags :: "session_store \<Rightarrow> nat \<Rightarrow> bool" where
  "entry_flags st r \<longleftrightarrow>
     flags_ok (live st r) (sto_sessions st ! en_session (sto_entries st ! r)) (sto_entries st ! r)"

definition store_inv :: "session_store \<Rightarrow> bool" where
  "store_inv st \<longleftrightarrow> store_core st \<and> (\<forall>r < length (sto_entries st). entry_flags st r)"

lemma store_inv_empty: "store_inv empty_store"
  by (simp add: store_inv_def store_core_def empty_store_def edges_of_def)

lemma store_invD:
  assumes "store_inv st"
  shows "store_core st" and "r < length (sto_entries st) \<Longrightarrow> entry_flags st r"
    and "r < length (sto_entries st) \<Longrightarrow> entry_core st r"
  using assms by (simp_all add: store_inv_def store_core_def)

section \<open>Entry updates\<close>

lemma upd_entry_simps [simp]:
  "sto_sessions (upd_entry r f st) = sto_sessions st"
  "sto_store (upd_entry r f st) = sto_store st"
  "sto_attachments (upd_entry r f st) = sto_attachments st"
  "sto_counter (upd_entry r f st) = sto_counter st"
  "sto_edges (upd_entry r f st) = sto_edges st"
  "length (sto_entries (upd_entry r f st)) = length (sto_entries st)"
  by (simp_all add: upd_entry_def)

lemma upd_entry_nth [simp]:
  "sto_entries (upd_entry r f st) ! q
     = (if q = r \<and> r < length (sto_entries st) then f (sto_entries st ! r) else sto_entries st ! q)"
  by (cases "r < length (sto_entries st)") (auto simp: upd_entry_def list_update_beyond)

lemma map_of_remove_key:
  "map_of (filter (\<lambda>p. fst p \<noteq> k) xs) i = (if i = k then None else map_of xs i)"
  by (induction xs) auto

lemma upd_entry_id:
  assumes "\<And>en. en_id (f en) = en_id en"
  shows "live (upd_entry r f st) q \<longleftrightarrow> live st q"
    and "en_id (sto_entries (upd_entry r f st) ! q) = en_id (sto_entries st ! q)"
  using assms by (simp_all add: live_def)

lemma edges_of_upd_entry [simp]: "edges_of (upd_entry r f st) q = edges_of st q"
  by (simp add: edges_of_def)

lemma store_core_upd_entry:
  assumes "store_core st"
    and "\<And>en. en_id (f en) = en_id en" "\<And>en. en_session (f en) = en_session en"
    and "\<And>en. en_announced (f en) = en_announced en"
  shows "store_core (upd_entry r f st)"
proof -
  have same: "en_id (sto_entries (upd_entry r f st) ! q) = en_id (sto_entries st ! q)
      \<and> en_session (sto_entries (upd_entry r f st) ! q) = en_session (sto_entries st ! q)
      \<and> en_announced (sto_entries (upd_entry r f st) ! q) = en_announced (sto_entries st ! q)" for q
    using assms(2-4) by simp
  have "entry_core (upd_entry r f st) q \<longleftrightarrow> entry_core st q" for q
    using same [of q] upd_entry_id(1) [of f r st q] assms(2) by (simp add: entry_core_def Let_def)
  with assms(1) same show ?thesis by (simp add: store_core_def)
qed

lemma entry_flags_other:
  assumes "\<And>en. en_id (f en) = en_id en" and "q \<noteq> r"
  shows "entry_flags (upd_entry r f st) q \<longleftrightarrow> entry_flags st q"
  using assms upd_entry_id(1) [of f r st q] by (simp add: entry_flags_def)

text \<open>An update of one entry keeps the invariant when the flags of that entry stay consistent.\<close>

lemma store_inv_upd_entry:
  assumes "store_core st" and "\<forall>q < length (sto_entries st). q \<noteq> r \<longrightarrow> entry_flags st q"
    and "\<And>en. en_id (f en) = en_id en" "\<And>en. en_session (f en) = en_session en"
    and "\<And>en. en_announced (f en) = en_announced en"
    and "r < length (sto_entries st) \<Longrightarrow> entry_flags (upd_entry r f st) r"
  shows "store_inv (upd_entry r f st)"
  unfolding store_inv_def
proof (intro conjI allI impI)
  show "store_core (upd_entry r f st)" by (rule store_core_upd_entry) (use assms(1,3-5) in simp_all)
  fix q
  assume "q < length (sto_entries (upd_entry r f st))"
  then show "entry_flags (upd_entry r f st) q"
    using assms(2,3,6) entry_flags_other [of f q r st] by (cases "q = r") auto
qed

section \<open>Removing an entry\<close>

lemma live_attached:
  assumes "store_core st" and "r < length (sto_entries st)"
  shows "live st r \<longleftrightarrow> sto_attachments st (en_session (sto_entries st ! r)) = Some r"
  using assms by (simp add: store_core_def entry_core_def Let_def)

lemma live_unique:
  assumes "live st r" and "live st q" and "en_id (sto_entries st ! q) = en_id (sto_entries st ! r)"
  shows "q = r"
  using assms by (simp add: live_def)

lemma detach_entered_inv:
  assumes core: "store_core st" and r: "r < length (sto_entries st)" and lv: "live st r"
    and others: "\<forall>q < length (sto_entries st). q \<noteq> r \<longrightarrow> entry_flags st q"
    and flags: "\<not> en_announcing (sto_entries st ! r)" "\<not> en_appending (sto_entries st ! r)"
      "\<not> en_entered (sto_entries st ! r)" "en_candidate (sto_entries st ! r) = None"
  shows "store_inv (detach_entered r st)"
proof -
  let ?f = "\<lambda>en. en\<lparr> en_detach_requested := False \<rparr>"
  let ?st = "upd_entry r ?f st"
  let ?en = "sto_entries st ! r"
  let ?new = "?st\<lparr> sto_store := filter (\<lambda>p. fst p \<noteq> en_id ?en) (sto_store st),
               sto_attachments := (sto_attachments st)(en_session ?en := None),
               sto_edges := sto_edges st @ (if en_announced ?en then [Disposed r] else []) \<rparr>"
  have new: "detach_entered r st = ?new"
    using r lv by (simp add: detach_entered_def Let_def live_def)
  have c: "store_core ?st" by (rule store_core_upd_entry [OF core]) simp_all
  have en_r: "sto_entries ?st ! r = ?f ?en" using r by simp
  have att: "sto_attachments st (en_session ?en) = Some r" using live_attached [OF core r] lv by simp
  have mp: "map_of (filter (\<lambda>p. fst p \<noteq> en_id ?en) (sto_store st)) i
      = (if i = en_id ?en then None else map_of (sto_store st) i)" for i
    by (rule map_of_remove_key)
  have id_same: "en_id (sto_entries ?st ! q) = en_id (sto_entries st ! q)" for q
    by (rule upd_entry_id(2)) simp
  have lv': "live ?new q \<longleftrightarrow> live st q \<and> q \<noteq> r" if "q < length (sto_entries st)" for q
  proof -
    have "live ?new q \<longleftrightarrow> en_id (sto_entries st ! q) \<noteq> en_id ?en \<and> live st q"
      using mp by (simp add: live_def id_same)
    then show ?thesis using lv live_unique [OF lv, of q] by auto
  qed
  have edges: "edges_of ?new q = edges_of st q @ (if q = r \<and> en_announced ?en then [Disposed r] else [])" for q
    by (simp add: edges_of_def)
  have sess: "en_session (sto_entries st ! q) \<noteq> en_session ?en"
    if "q < length (sto_entries st)" "q \<noteq> r" "live st q" for q
    using live_attached [OF core that(1)] that att by auto
  have same_session: "sto_attachments st ref = Some q \<Longrightarrow> en_session (sto_entries st ! q) = ref" for ref q
    using core by (simp add: store_core_def)
  have core_new: "entry_core ?new q" if q: "q < length (sto_entries st)" for q
  proof (cases "q = r")
    case True
    have "entry_core st r" using core r by (simp add: store_core_def)
    with True lv lv' [OF r] edges en_r show ?thesis by (auto simp: entry_core_def Let_def)
  next
    case False
    have "entry_core st q" using core q by (simp add: store_core_def)
    moreover have "((sto_attachments st)(en_session ?en := None)) (en_session (sto_entries st ! q)) = Some q
        \<longleftrightarrow> sto_attachments st (en_session (sto_entries st ! q)) = Some q"
      using att False by auto
    ultimately show ?thesis using False lv' [OF q] edges [of q]
      by (simp add: entry_core_def Let_def)
  qed
  have "store_core ?new"
    using core core_new edges r
    by (auto simp: store_core_def id_same upd_entry_def nth_list_update distinct_map_filter)
  moreover have "entry_flags ?new q" if q: "q < length (sto_entries st)" for q
  proof (cases "q = r")
    case True
    with en_r flags lv' [OF r] show ?thesis by (simp add: entry_flags_def flags_ok_def)
  next
    case False
    with others q have "entry_flags st q" by simp
    with False lv' [OF q] show ?thesis by (simp add: entry_flags_def)
  qed
  ultimately show ?thesis unfolding new by (simp add: store_inv_def)
qed

section \<open>Every operation keeps the invariant\<close>

lemma grow_inv:
  assumes inv: "store_inv st" and "\<forall>s \<in> set ss. session_ok s"
  shows "store_inv (st\<lparr> sto_counter := c, sto_sessions := sto_sessions st @ ss \<rparr>)" (is "store_inv ?st")
proof -
  have lv: "live ?st q \<longleftrightarrow> live st q" and edges: "edges_of ?st q = edges_of st q" for q
    by (simp_all add: live_def edges_of_def)
  have core: "entry_core ?st q" and fl: "entry_flags ?st q" if q: "q < length (sto_entries st)" for q
  proof -
    have e: "entry_core st q" by (rule store_invD(3) [OF inv q])
    then have b: "en_session (sto_entries st ! q) < length (sto_sessions st)" by (simp add: entry_core_def Let_def)
    with e show "entry_core ?st q" by (simp add: entry_core_def Let_def lv edges nth_append)
    from b store_invD(2) [OF inv q] show "entry_flags ?st q" by (simp add: entry_flags_def lv nth_append)
  qed
  have "store_core ?st"
    using store_invD(1) [OF inv] core edges assms(2) unfolding store_core_def
    by (simp add: ball_Un)
  with fl show ?thesis by (simp add: store_inv_def)
qed

lemma construct_ok: "construct isabs now i opts = Inr s \<Longrightarrow> session_ok s"
  by (auto simp: construct_def intro: new_session_ok split: prepare_options.splits)

lemma prepare_inv:
  assumes "store_inv st" and "prepare isabs now ido opts st = (st', r)"
  shows "store_inv st'"
proof -
  obtain i c where ic: "choose_id ido st = (i, c)" by fastforce
  have c0: "store_inv (st\<lparr> sto_counter := c \<rparr>)"
    using grow_inv [OF assms(1), of "[]" c] by simp
  have c1: "store_inv (st\<lparr> sto_counter := c, sto_sessions := sto_sessions st @ [s] \<rparr>)"
    if "construct isabs now i opts = Inr s" for s
    using grow_inv [OF assms(1), of "[s]" c] construct_ok [OF that] by simp
  show ?thesis
    using assms(2) c0 c1 by (auto simp: prepare_def ic split: if_splits sum.splits)
qed

lemma live_appended_entry:
  assumes "store_core st" and "i \<notin> set (map fst (sto_store st))"
  shows "map_of (sto_store st @ [(i, q)]) k = (if k = i then Some q else map_of (sto_store st) k)"
proof -
  have "map_of (sto_store st) i = None" using assms(2) by (simp add: map_of_eq_None_iff)
  then show ?thesis by (cases "map_of (sto_store st) k") (auto simp: map_add_def)
qed

lemma enter_inv:
  assumes inv: "store_inv st" and ref: "ref < length (sto_sessions st)" and "enter ref st = Inr (st', r)"
  shows "store_inv st'"
proof -
  let ?i = "ses_id (sto_sessions st ! ref)" and ?r = "length (sto_entries st)"
  note core = store_invD(1) [OF inv]
  from assms(3) have free: "?i \<notin> set (map fst (sto_store st))" and unatt: "sto_attachments st ref = None"
    and st': "st' = st\<lparr> sto_entries := sto_entries st @
                      [\<lparr> en_id = ?i, en_session = ref, en_announced = False, en_announcing = False,
                         en_appending = False, en_detach_requested = False, en_entered = True,
                         en_candidate = None \<rparr>],
                    sto_store := sto_store st @ [(?i, ?r)],
                    sto_attachments := (sto_attachments st)(ref := Some ?r) \<rparr>"
    by (auto simp: enter_def Let_def split: if_splits)
  have old: "live st' q \<longleftrightarrow> live st q" if "q < ?r" for q
  proof (cases "en_id (sto_entries st ! q) = ?i")
    case True
    have "map_of (sto_store st) ?i = None" using free by (simp add: map_of_eq_None_iff)
    with True that show ?thesis
      using live_appended_entry [OF core free, of ?r] by (simp add: live_def st' nth_append)
  next
    case False
    with that show ?thesis
      using live_appended_entry [OF core free, of ?r] by (simp add: live_def st' nth_append)
  qed
  have new: "live st' ?r"
    using live_appended_entry [OF core free, of ?r] by (simp add: live_def st')
  have edges: "edges_of st' q = edges_of st q" for q by (simp add: edges_of_def st')
  have bound: "sto_attachments st k = Some q \<Longrightarrow> q < ?r" for k q using core by (simp add: store_core_def)
  have "entry_core st' q" if "q < Suc ?r" for q
  proof (cases "q = ?r")
    case True
    with new edges core ref show ?thesis
      by (simp add: entry_core_def Let_def st' nth_append store_core_def)
  next
    case False
    with that have q: "q < ?r" by simp
    then have e: "entry_core st q" using core by (simp add: store_core_def)
    have "((sto_attachments st)(ref := Some ?r)) k = Some q \<longleftrightarrow> sto_attachments st k = Some q" for k
      using unatt q by auto
    then show ?thesis using e old [OF q] edges [of q] q
      by (simp add: entry_core_def Let_def st' nth_append)
  qed
  moreover have "entry_flags st' q" if "q < Suc ?r" for q
  proof (cases "q = ?r")
    case True
    with new show ?thesis by (simp add: entry_flags_def flags_ok_def st')
  next
    case False
    with that have q: "q < ?r" by simp
    with store_invD(2) [OF inv q] old [OF q] show ?thesis
      by (simp add: entry_flags_def st' nth_append)
  qed
  moreover have "distinct (map fst (sto_store st'))" "\<forall>s \<in> set (sto_sessions st'). session_ok s"
    using core free by (simp_all add: store_core_def st')
  moreover have "\<forall>q \<ge> length (sto_entries st'). edges_of st' q = []"
    using core edges by (simp add: store_core_def st')
  moreover have "\<forall>i q. (i, q) \<in> set (sto_store st') \<longrightarrow> q < length (sto_entries st') \<and> en_id (sto_entries st' ! q) = i"
    using core by (auto simp: store_core_def st' nth_append less_Suc_eq)
  moreover have "\<forall>k q. sto_attachments st' k = Some q \<longrightarrow> q < length (sto_entries st') \<and> en_session (sto_entries st' ! q) = k"
    using core bound by (auto simp: store_core_def st' nth_append less_Suc_eq)
  ultimately show ?thesis by (simp add: store_inv_def store_core_def st')
qed

lemma detach_inv:
  assumes inv: "store_inv st" and r: "r < length (sto_entries st)"
  shows "store_inv (detach r st)"
proof (cases "en_entered (sto_entries st ! r)")
  case False
  with inv show ?thesis by (simp add: detach_def)
next
  case True
  let ?en = "sto_entries st ! r" and ?st = "upd_entry r (\<lambda>en. en\<lparr> en_entered := False \<rparr>) st"
  have fl: "entry_flags st r" by (rule store_invD(2) [OF inv r])
  then have lv: "live st r" using True by (cases "live st r") (simp_all add: entry_flags_def flags_ok_def)
  have core: "store_core ?st" by (rule store_core_upd_entry [OF store_invD(1) [OF inv]]) simp_all
  have others: "\<forall>q < length (sto_entries ?st). q \<noteq> r \<longrightarrow> entry_flags ?st q"
    using store_invD(2) [OF inv] entry_flags_other [of "\<lambda>en. en\<lparr> en_entered := False \<rparr>"] by simp
  have lv': "live ?st r" using lv upd_entry_id(1) [of "\<lambda>en. en\<lparr> en_entered := False \<rparr>"] by simp
  show ?thesis
  proof (cases "en_announcing ?en \<or> en_appending ?en")
    case True': True
    have "store_inv (upd_entry r (\<lambda>en. en\<lparr> en_detach_requested := True \<rparr>) ?st)"
    proof (rule store_inv_upd_entry [OF core others])
      show "entry_flags (upd_entry r (\<lambda>en. en\<lparr> en_detach_requested := True \<rparr>) ?st) r"
        using fl lv lv' True' r upd_entry_id(1) [of "\<lambda>en. en\<lparr> en_detach_requested := True \<rparr>" r ?st r]
        unfolding entry_flags_def by (simp add: flags_ok_def)
    qed simp_all
    with True True' r show ?thesis by (simp add: detach_def Let_def)
  next
    case False
    have cand: "en_candidate ?en = None"
      using fl False by (cases "en_candidate ?en") (simp_all add: entry_flags_def flags_ok_def)
    have "store_inv (detach_entered r ?st)"
      by (rule detach_entered_inv [OF core _ lv' others]) (use r False cand in simp_all)
    with True False show ?thesis by (simp add: detach_def Let_def)
  qed
qed

lemma live_entry_forD:
  assumes "store_inv st" and "live_entry_for ref st = Inr r"
  shows "r < length (sto_entries st)" and "en_session (sto_entries st ! r) = ref" and "live st r"
proof -
  from assms(2) have att: "sto_attachments st ref = Some r" and lv: "live st r"
    by (auto simp: live_entry_for_def live_def Let_def split: option.splits if_splits)
  from att store_invD(1) [OF assms(1)]
  have "r < length (sto_entries st) \<and> en_session (sto_entries st ! r) = ref"
    unfolding store_core_def by blast
  with lv show "r < length (sto_entries st)" "en_session (sto_entries st ! r) = ref" "live st r" by simp_all
qed

lemma flags_ok_announce:
  "flags_ok True s en \<Longrightarrow> flags_ok True s (en\<lparr> en_announced := True, en_announcing := True \<rparr>)"
  by (cases "en_candidate en") (simp_all add: flags_ok_def)

lemma announce_begin_inv:
  assumes inv: "store_inv st" and "announce_begin ref st = Inr (st', r)"
  shows "store_inv st'"
proof -
  let ?f = "\<lambda>en. en\<lparr> en_announced := True, en_announcing := True \<rparr>"
  from assms(2) have le: "live_entry_for ref st = Inr r"
    and na: "\<not> en_announced (sto_entries st ! r)" "\<not> en_announcing (sto_entries st ! r)"
    and st': "st' = (upd_entry r ?f st)\<lparr> sto_edges := sto_edges st @ [Created r] \<rparr>"
    by (auto simp: announce_begin_def Let_def split: if_splits)
  note r = live_entry_forD [OF inv le]
  have lv: "live st' q \<longleftrightarrow> live st q" for q using upd_entry_id(1) [of ?f r st q] by (simp add: live_def st')
  have edges: "edges_of st' q = edges_of st q @ (if q = r then [Created r] else [])" for q
    by (simp add: edges_of_def st')
  have core: "entry_core st' q" if "q < length (sto_entries st)" for q
  proof (cases "q = r")
    case True
    with store_invD(3) [OF inv that] lv [of r] edges [of r] na r show ?thesis
      by (simp add: entry_core_def Let_def) (simp add: st')
  next
    case False
    with store_invD(3) [OF inv that] lv [of q] edges [of q] show ?thesis
      by (simp add: entry_core_def Let_def) (simp add: st')
  qed
  have "store_core st'"
  proof -
    have same: "en_id (sto_entries st' ! q) = en_id (sto_entries st ! q)"
      "en_session (sto_entries st' ! q) = en_session (sto_entries st ! q)" for q
      by (simp_all add: st')
    have fields: "sto_store st' = sto_store st" "sto_attachments st' = sto_attachments st"
      "sto_sessions st' = sto_sessions st" "length (sto_entries st') = length (sto_entries st)"
      by (simp_all add: st')
    have "edges_of st' q = []" if "length (sto_entries st) \<le> q" for q
      using that store_invD(1) [OF inv] edges [of q] r(1) by (simp add: store_core_def)
    with store_invD(1) [OF inv] core show ?thesis
      unfolding store_core_def fields same by blast
  qed
  moreover have "entry_flags st' q" if "q < length (sto_entries st)" for q
  proof -
    have en: "sto_entries st' ! q = (if q = r then ?f (sto_entries st ! r) else sto_entries st ! q)" for q
      using r(1) by (simp add: st')
    have ss: "sto_sessions st' = sto_sessions st" by (simp add: st')
    have fl: "entry_flags st q" by (rule store_invD(2) [OF inv that])
    show ?thesis
    proof (cases "q = r")
      case True
      with fl r(3) flags_ok_announce show ?thesis by (simp add: entry_flags_def en ss lv)
    next
      case False
      with fl show ?thesis by (simp add: entry_flags_def en ss lv)
    qed
  qed
  ultimately show ?thesis by (simp add: store_inv_def st')
qed

lemma flags_ok_finish:
  assumes "flags_ok lv s en" and "en_entered (f en) = en_entered en" "en_announced (f en) = en_announced en"
    "en_detach_requested (f en) = en_detach_requested en" "en_candidate (f en) = en_candidate en"
    "en_announcing (f en) \<longrightarrow> en_announcing en" "en_appending (f en) \<longrightarrow> en_appending en"
    "\<not> en_appending (f en) \<longrightarrow> en_candidate en = None"
    "\<not> (en_detach_requested en \<and> \<not> (en_announcing (f en) \<or> en_appending (f en)))"
  shows "flags_ok lv s (f en)"
proof (cases "en_candidate en")
  case None
  with assms show ?thesis unfolding flags_ok_def assms(2-5) by (cases lv) auto
next
  case (Some e)
  then have "en_appending (f en)" using assms(8) by (cases "en_appending (f en)") simp_all
  with Some assms show ?thesis unfolding flags_ok_def assms(2-5) by (cases lv) auto
qed

text \<open>The end of a publication: one flag is cleared and a requested detach is carried out.\<close>

lemma finish_inv:
  assumes inv: "store_inv st" and r: "r < length (sto_entries st)"
    and keep: "\<And>en. en_id (f en) = en_id en" "\<And>en. en_session (f en) = en_session en"
      "\<And>en. en_announced (f en) = en_announced en" "\<And>en. en_entered (f en) = en_entered en"
      "\<And>en. en_detach_requested (f en) = en_detach_requested en" "\<And>en. en_candidate (f en) = en_candidate en"
    and busy: "\<And>en. en_announcing (f en) \<longrightarrow> en_announcing en" "\<And>en. en_appending (f en) \<longrightarrow> en_appending en"
    and cand: "en_appending (f (sto_entries st ! r)) \<or> en_candidate (sto_entries st ! r) = None"
  shows "store_inv (let st1 = upd_entry r f st; en = sto_entries st1 ! r in
     if en_detach_requested en \<and> \<not> (en_announcing en \<or> en_appending en) then detach_entered r st1 else st1)"
proof -
  let ?en = "sto_entries st ! r" and ?st = "upd_entry r f st"
  have fl: "entry_flags st r" by (rule store_invD(2) [OF inv r])
  have core: "store_core ?st" by (rule store_core_upd_entry [OF store_invD(1) [OF inv]]) (use keep in simp_all)
  have others: "\<forall>q < length (sto_entries st). q \<noteq> r \<longrightarrow> entry_flags st q"
    using store_invD(2) [OF inv] by simp
  have others': "\<forall>q < length (sto_entries ?st). q \<noteq> r \<longrightarrow> entry_flags ?st q"
    using others entry_flags_other [of f] keep(1) by simp
  have lv: "live ?st r \<longleftrightarrow> live st r" using upd_entry_id(1) [of f] keep(1) by simp
  show ?thesis
  proof (cases "en_detach_requested ?en \<and> \<not> (en_announcing (f ?en) \<or> en_appending (f ?en))")
    case True
    have "live ?st r" and "\<not> en_entered ?en"
      using True fl lv by (cases "live st r"; simp add: entry_flags_def flags_ok_def)+
    moreover have "en_candidate ?en = None" using True cand by simp
    ultimately have "store_inv (detach_entered r ?st)"
      using True r by (intro detach_entered_inv [OF core _ _ others']) (simp_all add: keep)
    with True r show ?thesis by (simp add: Let_def keep)
  next
    case False
    have "flags_ok (live st r) (sto_sessions st ! en_session ?en) (f ?en)"
      using fl unfolding entry_flags_def
      by (rule flags_ok_finish) (use False cand busy in \<open>auto simp: keep\<close>)
    then have "entry_flags ?st r" using r lv by (simp add: entry_flags_def keep)
    then have "store_inv ?st"
      by (intro store_inv_upd_entry [OF store_invD(1) [OF inv] others]) (simp_all add: keep)
    with False r show ?thesis by (auto simp: Let_def keep)
  qed
qed

lemma announce_end_inv:
  assumes "store_inv st" and "r < length (sto_entries st)"
  shows "store_inv (announce_end r st)"
proof -
  have "en_appending (sto_entries st ! r) \<or> en_candidate (sto_entries st ! r) = None"
    using store_invD(2) [OF assms] unfolding entry_flags_def flags_ok_def
    by (cases "en_candidate (sto_entries st ! r)") simp_all
  then show ?thesis
    using finish_inv [OF assms, of "\<lambda>en. en\<lparr> en_announcing := False \<rparr>"] assms(2)
    by (simp add: announce_end_def Let_def)
qed

lemma append_close_inv:
  assumes "store_inv st" and "r < length (sto_entries st)" and "en_candidate (sto_entries st ! r) = None"
  shows "store_inv (append_close r st)"
  using finish_inv [OF assms(1,2), of "\<lambda>en. en\<lparr> en_appending := False \<rparr>"] assms(2,3)
  by (simp add: append_close_def Let_def)

section \<open>Appends through the store\<close>

lemma upd_session_simps [simp]:
  "sto_entries (upd_session ref s st) = sto_entries st"
  "sto_store (upd_session ref s st) = sto_store st"
  "sto_attachments (upd_session ref s st) = sto_attachments st"
  "sto_edges (upd_session ref s st) = sto_edges st"
  "length (sto_sessions (upd_session ref s st)) = length (sto_sessions st)"
  "live (upd_session ref s st) q = live st q"
  "edges_of (upd_session ref s st) q = edges_of st q"
  by (simp_all add: upd_session_def live_def edges_of_def)

lemma upd_session_nth:
  "ref < length (sto_sessions st) \<Longrightarrow>
     sto_sessions (upd_session ref s st) ! k = (if k = ref then s else sto_sessions st ! k)"
  by (simp add: upd_session_def nth_list_update)

lemma store_core_upd_session:
  assumes core: "store_core st" and ref: "ref < length (sto_sessions st)"
    and ok: "session_ok s" and same: "ses_id s = ses_id (sto_sessions st ! ref)"
  shows "store_core (upd_session ref s st)"
proof -
  have "entry_core (upd_session ref s st) q \<longleftrightarrow> entry_core st q" for q
    by (simp add: entry_core_def Let_def upd_session_nth [OF ref] same)
  moreover have "session_ok x" if "x \<in> set (sto_sessions (upd_session ref s st))" for x
  proof -
    have "x \<in> insert s (set (sto_sessions st))"
      using that set_update_subset_insert [of "sto_sessions st" ref s] by (auto simp: upd_session_def)
    with core ok show ?thesis by (auto simp: store_core_def)
  qed
  ultimately show ?thesis using core by (simp add: store_core_def)
qed

lemma flags_ok_session: "flags_ok lv s en \<Longrightarrow> en_candidate en = None \<Longrightarrow> flags_ok lv s' en"
  by (simp add: flags_ok_def)

lemma upd_session_inv:
  assumes inv: "store_inv st" and ref: "ref < length (sto_sessions st)"
    and ok: "session_ok s" and same: "ses_id s = ses_id (sto_sessions st ! ref)"
    and idle: "\<And>q. q < length (sto_entries st) \<Longrightarrow> en_session (sto_entries st ! q) = ref \<Longrightarrow>
                 en_candidate (sto_entries st ! q) = None"
  shows "store_inv (upd_session ref s st)"
proof -
  have "entry_flags (upd_session ref s st) q" if q: "q < length (sto_entries st)" for q
    using store_invD(2) [OF inv q] idle [OF q] flags_ok_session
    by (auto simp: entry_flags_def upd_session_nth [OF ref])
  with store_core_upd_session [OF store_invD(1) [OF inv] ref ok same] show ?thesis
    by (simp add: store_inv_def)
qed

lemma no_candidate:
  assumes inv: "store_inv st"
    and free: "case sto_attachments st ref of Some r \<Rightarrow> \<not> en_appending (sto_entries st ! r) | None \<Rightarrow> True"
    and q: "q < length (sto_entries st)" and s: "en_session (sto_entries st ! q) = ref"
  shows "en_candidate (sto_entries st ! q) = None"
proof -
  have fl: "flags_ok (live st q) (sto_sessions st ! ref) (sto_entries st ! q)"
    using store_invD(2) [OF inv q] s by (simp add: entry_flags_def)
  have "live st q \<longleftrightarrow> sto_attachments st ref = Some q" using live_attached [OF store_invD(1) [OF inv] q] s by simp
  with free fl have "\<not> en_appending (sto_entries st ! q)"
    by (cases "live st q") (simp_all add: flags_ok_def)
  with fl show ?thesis by (cases "en_candidate (sto_entries st ! q)") (simp_all add: flags_ok_def)
qed

lemma validate_next_again:
  assumes ok: "manager_ok m evs" and v: "validate_next m evs e = (m', None)"
  shows "validate_next m' evs e = (m', None)"
proof -
  obtain m1 y where sy: "sync_manager m evs = (m1, y)" by (cases "sync_manager m evs") auto
  from v sy obtain plan where y: "y = None"
    and plan: "plan_surface_event (sm_state m1) e (sm_base m1 + length evs) evs (sm_base m1) = Inr plan"
    and m': "m' = m1\<lparr> sm_pending := Some (e, sm_base m1 + length evs, plan) \<rparr>"
    by (auto simp: validate_next_def Let_def split: option.splits sum.splits)
  have "sm_next m1 = sm_base m1 + length evs"
    using sync_manager_ok(2,3) [OF ok sy] y by simp
  then have "sync_manager m' evs = (m', None)" by (simp add: sync_manager_def m')
  with plan show ?thesis by (simp add: validate_next_def m' Let_def)
qed

lemma ses_id_upd [simp]:
  "ses_id (s\<lparr> ses_manager := m \<rparr>) = ses_id s" "ses_id (s\<lparr> ses_log := l \<rparr>) = ses_id s"
  by (simp_all add: ses_id_def)

lemma append_open_cases:
  assumes "append_open now ref d op srcs ign st = (st', res)"
  obtains (refused) x where "res = Inl x" and "st' = st"
    | (invalid) m x where "res = Inl (SurfaceRejected x)"
      "case sto_attachments st ref of Some r \<Rightarrow> \<not> en_appending (sto_entries st ! r) | None \<Rightarrow> True"
      "validate_next (ses_manager (sto_sessions st ! ref)) (ses_log (sto_sessions st ! ref))
         (make_event (length (ses_log (sto_sessions st ! ref))) now d op srcs ign) = (m, Some x)"
      "st' = upd_session ref ((sto_sessions st ! ref)\<lparr> ses_manager := m \<rparr>) st"
    | (logged) m e where "res = Inr e" "sto_attachments st ref = None"
      "validate_next (ses_manager (sto_sessions st ! ref)) (ses_log (sto_sessions st ! ref)) e = (m, None)"
      "st' = upd_session ref ((sto_sessions st ! ref)\<lparr> ses_manager := m,
                ses_log := ses_log (sto_sessions st ! ref) @ [e] \<rparr>) st"
    | (opened) m e r where "res = Inr e" "sto_attachments st ref = Some r" "\<not> en_appending (sto_entries st ! r)"
      "validate_next (ses_manager (sto_sessions st ! ref)) (ses_log (sto_sessions st ! ref)) e = (m, None)"
      "st' = upd_entry r (\<lambda>en. en\<lparr> en_appending := True, en_candidate := Some e \<rparr>)
               (upd_session ref ((sto_sessions st ! ref)\<lparr> ses_manager := m \<rparr>) st)"
proof -
  let ?s = "sto_sessions st ! ref"
  let ?e = "make_event (length (ses_log ?s)) now d op srcs ign"
  let ?busy = "case sto_attachments st ref of Some r \<Rightarrow> en_appending (sto_entries st ! r) | None \<Rightarrow> False"
  obtain m x where v: "validate_next (ses_manager ?s) (ses_log ?s) ?e = (m, x)"
    by (cases "validate_next (ses_manager ?s) (ses_log ?s) ?e") auto
  show thesis
  proof (cases "assert_supported_request_header d = Inr () \<and> \<not> ?busy")
    case False
    with assms refused show thesis
      by (cases "assert_supported_request_header d") (auto simp: append_open_def Let_def)
  next
    case True
    note free = True
    show thesis
    proof (cases x)
      case (Some y)
      with assms free v have "res = Inl (SurfaceRejected y)"
        "st' = upd_session ref (?s\<lparr> ses_manager := m \<rparr>) st"
        by (simp_all add: append_open_def Let_def)
      with invalid free v Some show thesis by (auto split: option.splits)
    next
      case None
      show thesis
      proof (cases "sto_attachments st ref")
        case None': None
        with assms free v None have "res = Inr ?e"
          "st' = upd_session ref (?s\<lparr> ses_manager := m, ses_log := ses_log ?s @ [?e] \<rparr>) st"
          by (simp_all add: append_open_def Let_def)
        with logged None' v None show thesis by simp
      next
        case (Some r)
        with assms free v None have "res = Inr ?e"
          "st' = upd_entry r (\<lambda>en. en\<lparr> en_appending := True, en_candidate := Some ?e \<rparr>)
                   (upd_session ref (?s\<lparr> ses_manager := m \<rparr>) st)"
          by (simp_all add: append_open_def Let_def)
        with opened Some free v None show thesis by simp
      qed
    qed
  qed
qed

lemma append_open_inv:
  assumes inv: "store_inv st" and ref: "ref < length (sto_sessions st)"
    and "append_open now ref d op srcs ign st = (st', res)"
  shows "store_inv st'"
proof -
  let ?s = "sto_sessions st ! ref"
  note core = store_invD(1) [OF inv]
  have ok: "session_ok ?s" using core ref by (simp add: store_core_def)
  then have mo: "manager_ok (ses_manager ?s) (ses_log ?s)" "sm_base (ses_manager ?s) = 0"
    by (simp_all add: session_ok_def)
  have ok_m: "session_ok (?s\<lparr> ses_manager := m \<rparr>)"
    if "validate_next (ses_manager ?s) (ses_log ?s) e = (m, x)" for m e x
    using session_ok_manager [OF ok] validate_next_ok(1,2) [OF mo(1) that] mo(2) by simp
  from assms(3) show ?thesis
  proof (cases rule: append_open_cases)
    case (refused x)
    with inv show ?thesis by simp
  next
    case (invalid m x)
    show ?thesis unfolding invalid(4)
      by (rule upd_session_inv [OF inv ref ok_m [OF invalid(3)]]) (simp, rule no_candidate [OF inv invalid(2)])
  next
    case (logged m e)
    have free: "case sto_attachments st ref of Some r \<Rightarrow> \<not> en_appending (sto_entries st ! r) | None \<Rightarrow> True"
      using logged(2) by simp
    show ?thesis unfolding logged(4)
      by (rule upd_session_inv [OF inv ref session_ok_push [OF ok logged(3)]])
         (simp add: ses_id_def, rule no_candidate [OF inv free])
  next
    case (opened m e r)
    let ?s' = "?s\<lparr> ses_manager := m \<rparr>" and ?f = "\<lambda>en. en\<lparr> en_appending := True, en_candidate := Some e \<rparr>"
    have free: "case sto_attachments st ref of Some r \<Rightarrow> \<not> en_appending (sto_entries st ! r) | None \<Rightarrow> True"
      using opened(2,3) by simp
    have inv1: "store_inv (upd_session ref ?s' st)"
      by (rule upd_session_inv [OF inv ref ok_m [OF opened(4)]]) (simp, rule no_candidate [OF inv free])
    have r: "r < length (sto_entries st)" "en_session (sto_entries st ! r) = ref"
      using core opened(2) unfolding store_core_def by blast+
    have lv: "live st r" using live_attached [OF core r(1)] r(2) opened(2) by simp
    have fl: "flags_ok True ?s' (sto_entries st ! r)"
      using store_invD(2) [OF inv1, of r] r lv by (simp add: entry_flags_def upd_session_nth [OF ref])
    have v: "validate_next (ses_manager ?s') (ses_log ?s') e = (ses_manager ?s', None)"
      using validate_next_again [OF mo(1) opened(4)] by simp
    have "flags_ok True ?s' (?f (sto_entries st ! r))"
      using fl v by (simp add: flags_ok_def)
    then have "entry_flags (upd_entry r ?f (upd_session ref ?s' st)) r"
      using r lv upd_entry_id(1) [of ?f r "upd_session ref ?s' st" r]
      by (simp add: entry_flags_def upd_session_nth [OF ref])
    then show ?thesis unfolding opened(5)
      by (intro store_inv_upd_entry [OF store_invD(1) [OF inv1]]) (simp_all add: store_invD(2) [OF inv1])
  qed
qed

lemma append_push_inv:
  assumes inv: "store_inv st" and r: "r < length (sto_entries st)"
  shows "store_inv (append_push r vetoed st)"
proof (cases "en_candidate (sto_entries st ! r)")
  case None
  with inv show ?thesis by (simp add: append_push_def)
next
  case (Some e)
  let ?ref = "en_session (sto_entries st ! r)" and ?f = "\<lambda>en. en\<lparr> en_candidate := None \<rparr>"
  let ?s = "sto_sessions st ! ?ref" and ?st = "upd_entry r ?f st"
  note core = store_invD(1) [OF inv]
  have fl: "flags_ok (live st r) ?s (sto_entries st ! r)"
    using store_invD(2) [OF inv r] by (simp add: entry_flags_def)
  have lv: "live ?st q = live st q" for q by (rule upd_entry_id(1)) simp
  have "flags_ok (live st r) ?s (?f (sto_entries st ! r))" using fl by (simp add: flags_ok_def)
  then have "entry_flags ?st r" using r lv by (simp add: entry_flags_def)
  then have inv1: "store_inv ?st"
    by (intro store_inv_upd_entry [OF core]) (simp_all add: store_invD(2) [OF inv])
  have ref: "?ref < length (sto_sessions st)"
    using store_invD(3) [OF inv r] by (simp add: entry_core_def Let_def)
  have ok: "session_ok ?s" using core ref by (simp add: store_core_def)
  have v: "validate_next (ses_manager ?s) (ses_log ?s) e = (ses_manager ?s, None)"
    and busy: "en_appending (sto_entries st ! r)"
    using fl Some unfolding flags_ok_def by simp_all
  have "live st r" using fl busy by (cases "live st r") (simp_all add: flags_ok_def)
  then have att: "sto_attachments st ?ref = Some r" using live_attached [OF core r] by simp
  have okp: "session_ok (?s\<lparr> ses_log := ses_log ?s @ [e] \<rparr>)"
    using session_ok_push [OF ok v] by simp
  have idle: "en_candidate (sto_entries ?st ! q) = None"
    if q: "q < length (sto_entries ?st)" and sq: "en_session (sto_entries ?st ! q) = ?ref" for q
  proof (cases "q = r")
    case True
    with r show ?thesis by simp
  next
    case False
    have q': "q < length (sto_entries st)" "en_session (sto_entries st ! q) = ?ref" using q sq False by simp_all
    have "\<not> live st q" using live_attached [OF core q'(1)] q'(2) att False by simp
    then have "\<not> en_appending (sto_entries st ! q)"
      using store_invD(2) [OF inv q'(1)] by (simp add: entry_flags_def flags_ok_def)
    then show ?thesis
      using False store_invD(2) [OF inv q'(1)]
      by (cases "en_candidate (sto_entries st ! q)") (simp_all add: entry_flags_def flags_ok_def)
  qed
  have inv2: "store_inv (upd_session ?ref (?s\<lparr> ses_log := ses_log ?s @ [e] \<rparr>) ?st)"
    by (rule upd_session_inv [OF inv1]) (use ref okp idle in simp_all)
  have published: "store_inv (x\<lparr> sto_edges := sto_edges x @ [Published r e] \<rparr>)" if "store_inv x" for x
  proof -
    let ?x = "x\<lparr> sto_edges := sto_edges x @ [Published r e] \<rparr>"
    have l: "live ?x q = live x q" and ed: "edges_of ?x q = edges_of x q" for q
      by (simp_all add: live_def edges_of_def)
    have "entry_core ?x q = entry_core x q" "entry_flags ?x q = entry_flags x q" for q
      by (simp_all add: entry_core_def entry_flags_def l ed Let_def)
    with that ed show ?thesis by (simp add: store_inv_def store_core_def)
  qed
  show ?thesis
    using inv1 published [OF inv2] Some by (simp add: append_push_def Let_def)
qed

section \<open>Reachable stores\<close>

inductive store_run :: "session_store \<Rightarrow> bool" where
  start: "store_run empty_store"
| prepared: "store_run st \<Longrightarrow> store_run (fst (prepare isabs now ido opts st))"
| entered: "store_run st \<Longrightarrow> ref < length (sto_sessions st) \<Longrightarrow> enter ref st = Inr (st', r) \<Longrightarrow> store_run st'"
| detached: "store_run st \<Longrightarrow> r < length (sto_entries st) \<Longrightarrow> store_run (detach r st)"
| announcing: "store_run st \<Longrightarrow> announce_begin ref st = Inr (st', r) \<Longrightarrow> store_run st'"
| announced: "store_run st \<Longrightarrow> r < length (sto_entries st) \<Longrightarrow> en_announcing (sto_entries st ! r)
    \<Longrightarrow> store_run (announce_end r st)"
| opened: "store_run st \<Longrightarrow> ref < length (sto_sessions st)
    \<Longrightarrow> store_run (fst (append_open now ref d op srcs ign st))"
| pushed: "store_run st \<Longrightarrow> r < length (sto_entries st) \<Longrightarrow> store_run (append_push r vetoed st)"
| closed: "store_run st \<Longrightarrow> r < length (sto_entries st) \<Longrightarrow> en_appending (sto_entries st ! r)
    \<Longrightarrow> en_candidate (sto_entries st ! r) = None \<Longrightarrow> store_run (append_close r st)"

lemma store_run_inv: "store_run st \<Longrightarrow> store_inv st"
proof (induction rule: store_run.induct)
  case start
  then show ?case by (rule store_inv_empty)
next
  case (prepared st isabs now ido opts)
  then show ?case by (metis prepare_inv prod.collapse)
next
  case (opened st ref now d op srcs ign)
  then show ?case by (metis append_open_inv prod.collapse)
next
  case (entered st ref st' r)
  then show ?case by (blast intro: enter_inv)
next
  case (detached st r)
  then show ?case by (blast intro: detach_inv)
next
  case (announcing st ref st' r)
  then show ?case by (blast intro: announce_begin_inv)
next
  case (announced st r)
  then show ?case by (blast intro: announce_end_inv)
next
  case (pushed st r vetoed)
  then show ?case by (blast intro: append_push_inv)
next
  case (closed st r)
  then show ?case by (blast intro: append_close_inv)
qed

section \<open>Minting ids\<close>

definition read_digits :: "string \<Rightarrow> nat" where
  "read_digits cs = foldl (\<lambda>a c. 10 * a + (of_char c - 48)) 0 cs"

lemma read_show_nat: "read_digits (show_nat n) = n"
proof (induction n rule: show_nat.induct)
  case (1 n)
  show ?case
  proof (cases "n < 10")
    case True
    then show ?thesis by (subst show_nat.simps) (simp add: read_digits_def of_char_of)
  next
    case False
    have "read_digits (show_nat n) = 10 * read_digits (show_nat (n div 10)) + n mod 10"
      using False by (subst show_nat.simps) (simp add: read_digits_def of_char_of)
    with 1 [OF False] show ?thesis by simp
  qed
qed

lemma inj_show_nat: "show_nat m = show_nat n \<Longrightarrow> m = n"
  by (metis read_show_nat)

lemma mint_id_None:
  "mint_id fuel counter taken = None \<Longrightarrow>
     \<forall>c \<in> {Suc counter .. Suc counter + fuel}. ''session-'' @ show_nat c \<in> set taken"
proof (induction fuel arbitrary: counter)
  case 0
  then show ?case by (subst (asm) mint_id.simps) (auto simp: Let_def split: if_splits)
next
  case (Suc fuel)
  from Suc.prems have here: "''session-'' @ show_nat (Suc counter) \<in> set taken"
    and "mint_id fuel (Suc counter) taken = None"
    by (subst (asm) mint_id.simps, auto simp: Let_def split: if_splits)+
  from Suc.IH [OF this(2)] here show ?case
    by (auto simp: le_Suc_eq not_less_eq_eq)
qed

lemma mint_id_total: "mint_id (length taken) counter taken \<noteq> None"
proof
  assume "mint_id (length taken) counter taken = None"
  from mint_id_None [OF this]
  have "(\<lambda>c. ''session-'' @ show_nat c) ` {Suc counter .. Suc counter + length taken} \<subseteq> set taken"
    by auto
  then have "card ((\<lambda>c. ''session-'' @ show_nat c) ` {Suc counter .. Suc counter + length taken})
      \<le> card (set taken)"
    by (rule card_mono [rotated]) simp
  moreover have "inj_on (\<lambda>c. ''session-'' @ show_nat c) {Suc counter .. Suc counter + length taken}"
    by (auto simp: inj_on_def intro: inj_show_nat)
  ultimately show False using card_length [of taken] by (simp add: card_image)
qed

lemma mint_id_fresh:
  "mint_id fuel counter taken = Some (i, c) \<Longrightarrow> i \<notin> set taken \<and> counter < c \<and> i = ''session-'' @ show_nat c"
proof (induction fuel arbitrary: counter)
  case 0
  then show ?case by (subst (asm) mint_id.simps) (auto simp: Let_def split: if_splits)
next
  case (Suc fuel)
  show ?case
  proof (cases "''session-'' @ show_nat (Suc counter) \<in> set taken")
    case True
    with Suc.prems have "mint_id fuel (Suc counter) taken = Some (i, c)"
      by (subst (asm) mint_id.simps) (simp add: Let_def)
    from Suc.IH [OF this] show ?thesis by auto
  next
    case False
    with Suc.prems show ?thesis by (subst (asm) mint_id.simps) (auto simp: Let_def)
  qed
qed

section \<open>Fork boundaries\<close>

lemma last_turn_boundary_snoc:
  "last_turn_boundary (es @ [e])
     = (if ev_type e = ''turn/start'' \<or> ev_type e = ''turn/end'' then Some (ev_data e) else last_turn_boundary es)"
  by (induction es) (auto split: option.splits)

text \<open>A checked log has an open turn exactly when its last turn boundary is a start.\<close>

lemma open_turn_boundary:
  "\<forall>e \<in> set evs. typed_data (ev_data e) \<Longrightarrow> seed_trace evs = Inr tr \<Longrightarrow>
     (tc_open_turn tr \<noteq> None) = (\<exists>t. last_turn_boundary evs = Some (TurnStart t))"
proof (induction evs arbitrary: tr rule: rev_induct)
  case Nil
  then show ?case by (auto simp: seed_trace_def fresh_trace_def)
next
  case (snoc e evs)
  then obtain u where u: "seed_trace evs = Inr u" and e: "trace_step u e = Inr tr"
    by (auto simp: seed_trace_def run_fold_snoc)
  have ty: "typed_data (ev_data e)" "\<forall>e \<in> set evs. typed_data (ev_data e)" using snoc.prems(1) by simp_all
  from e obtain t where v: "validate_event u e = Inr t" and tr: "tr = apply_transition u t"
    by (rule trace_stepE)
  note IH = snoc.IH [OF ty(2) u]
  show ?case
    using v IH ty(1) unfolding tr last_turn_boundary_snoc
    by (cases "ev_data e")
       (auto simp: validate_event_def apply_transition_def unchanged_def require_open_step_def
          core_types_def Let_def split: if_splits)
qed

section \<open>Properties\<close>

definition store_one :: session_store where
  "store_one = fst (prepare (\<lambda>_. True) 5 None (FromSeed None no_meta) empty_store)"

definition store_entered :: session_store where
  "store_entered = (case enter 0 store_one of Inr (st, _) \<Rightarrow> st | Inl _ \<Rightarrow> store_one)"

definition store_announcing :: session_store where
  "store_announcing = (case announce_begin 0 store_entered of Inr (st, _) \<Rightarrow> st | Inl _ \<Rightarrow> store_entered)"

lemma store_announcing_run: "store_run (detach 0 store_announcing)"
proof -
  have "store_run store_one" unfolding store_one_def by (intro store_run.prepared store_run.start)
  moreover have "is_ok (enter 0 store_one)" "0 < length (sto_sessions store_one)" by code_simp+
  moreover from this(1) obtain r where "enter 0 store_one = Inr (store_entered, r)"
    by (auto simp: is_ok_iff store_entered_def)
  ultimately have "store_run store_entered" using store_run.entered by blast
  moreover have "is_ok (announce_begin 0 store_entered)" by code_simp
  then obtain r where "announce_begin 0 store_entered = Inr (store_announcing, r)"
    by (auto simp: is_ok_iff store_announcing_def)
  ultimately have "store_run store_announcing" using store_run.announcing by blast
  moreover have "0 < length (sto_entries store_announcing)" by code_simp
  ultimately show ?thesis by (rule store_run.detached)
qed

text \<open>
  C13: the store survives any interleaving of its operations with the listeners that reenter it. An
  id names at most one live session; observers are told of the creation of an entry at most once
  and of its disposal exactly when an announced entry is gone; an entry whose disposer was called is
  still live only while one of its publications is in progress; and every session, live or not,
  holds a log that replays.
\<close>

theorem store_lifecycle:
  assumes "store_run st"
  shows "distinct (map fst (sto_store st))
    \<and> (\<forall>r < length (sto_entries st). let en = sto_entries st ! r in
         edges_of st r = (if en_announced en then if live st r then [Created r] else [Created r, Disposed r] else [])
         \<and> (live st r \<and> \<not> en_entered en \<longrightarrow> en_announcing en \<or> en_appending en))
    \<and> (\<forall>s \<in> set (sto_sessions st). is_ok (fold_surface (ses_log s)))"
proof -
  note inv = store_run_inv [OF assms]
  have "edges_of st r = (if en_announced (sto_entries st ! r) then if live st r then [Created r] else [Created r, Disposed r] else [])
      \<and> (live st r \<and> \<not> en_entered (sto_entries st ! r) \<longrightarrow>
           en_announcing (sto_entries st ! r) \<or> en_appending (sto_entries st ! r))"
    if "r < length (sto_entries st)" for r
    using store_invD(2,3) [OF inv that]
    by (cases "live st r") (simp_all add: entry_core_def entry_flags_def flags_ok_def Let_def)
  moreover have "\<forall>s \<in> set (sto_sessions st). is_ok (fold_surface (ses_log s))"
    using store_invD(1) [OF inv] log_accepted_iff by (simp add: store_core_def session_ok_def)
  ultimately show ?thesis using store_invD(1) [OF inv] by (simp add: store_core_def Let_def)
qed

theorem store_lifecycle_witness:
  "edges_of (detach 0 store_announcing) 0 = [Created 0] \<and> live (detach 0 store_announcing) 0
   \<and> edges_of (announce_end 0 (detach 0 store_announcing)) 0 = [Created 0, Disposed 0]"
proof -
  have len: "length (sto_entries (detach 0 store_announcing)) = 1"
    and fl: "en_announced (sto_entries (detach 0 store_announcing) ! 0)"
      "en_announcing (sto_entries (detach 0 store_announcing) ! 0)"
    and lv: "live (detach 0 store_announcing) 0" by code_simp+
  have run: "store_run (announce_end 0 (detach 0 store_announcing))"
    using store_run.announced [OF store_announcing_run] len fl by simp
  have "length (sto_entries (announce_end 0 (detach 0 store_announcing))) = 1"
    "en_announced (sto_entries (announce_end 0 (detach 0 store_announcing)) ! 0)"
    "\<not> live (announce_end 0 (detach 0 store_announcing)) 0" by code_simp+
  with len fl(1) lv store_lifecycle [OF store_announcing_run] store_lifecycle [OF run]
  show ?thesis by (simp add: Let_def)
qed

text \<open>
  Minting an id terminates with a free id. Whatever ids the live store holds, the counting loop
  stops after at most one more try than there are ids, and the counter has moved on, so no minted
  id is minted again.
\<close>

theorem mint_id_terminates:
  "\<exists>i c. mint_id (length (sto_store st)) (sto_counter st) (map fst (sto_store st)) = Some (i, c)
     \<and> i \<notin> set (map fst (sto_store st)) \<and> sto_counter st < c \<and> i = ''session-'' @ show_nat c"
  using mint_id_total [of "map fst (sto_store st)" "sto_counter st"] mint_id_fresh by fastforce

text \<open>
  A fork takes a stable prefix. A fork that is accepted seeds the child with the events up to
  the requested boundary, or with the whole log, and never ends inside an open turn: the relational
  checks accept the seed and find no turn or step open at its end.
\<close>

theorem fork_seed_stable:
  assumes "fork_seed s requested = Inr seed" and "seed_trace (ses_log s) = Inr tr"
    and "\<forall>e \<in> set (ses_log s). typed_data (ev_data e)"
    and "map ev_seq (ses_log s) = [0 ..< length (ses_log s)]"
  shows "seed = (case requested of None \<Rightarrow> ses_log s | Some b \<Rightarrow> take (Suc (nat \<lfloor>b\<rfloor>)) (ses_log s))
    \<and> (\<forall>b. requested = Some b \<longrightarrow> 0 \<le> b \<and> nat \<lfloor>b\<rfloor> < length (ses_log s))
    \<and> (\<exists>u. seed_trace seed = Inr u \<and> tc_open_turn u = None \<and> tc_open_step u = None)"
proof -
  let ?l = "ses_log s"
  have shape: "seed = (case requested of None \<Rightarrow> ?l | Some b \<Rightarrow> take (Suc (nat \<lfloor>b\<rfloor>)) ?l)
      \<and> (\<forall>b. requested = Some b \<longrightarrow> 0 \<le> b \<and> nat \<lfloor>b\<rfloor> < length ?l)
      \<and> (seed = [] \<or> (\<forall>t. last_turn_boundary seed \<noteq> Some (TurnStart t)))"
  proof (cases requested)
    case (Some b)
    with assms(1) show ?thesis
      by (auto simp: fork_seed_def Let_def split: if_splits option.splits event_data.splits)
  next
    case None
    show ?thesis
    proof (cases "?l = []")
      case True
      with None assms(1) show ?thesis by (simp add: fork_seed_def)
    next
      case False
      then have "ev_seq (last ?l) = length ?l - 1"
        using assms(4) by (metis last_map last_upt length_greater_0_conv)
      with None False assms(1) show ?thesis
        by (auto simp: fork_seed_def Let_def split: if_splits option.splits event_data.splits)
    qed
  qed
  obtain ds where split: "?l = seed @ ds"
  proof (cases requested)
    case None
    with shape that [of "[]"] show thesis by simp
  next
    case (Some b)
    with shape that [of "drop (Suc (nat \<lfloor>b\<rfloor>)) ?l"] show thesis by simp
  qed
  with assms(2) obtain u where u: "seed_trace seed = Inr u"
    unfolding seed_trace_def by (metis run_fold_prefix)
  have "\<forall>e \<in> set seed. typed_data (ev_data e)" using assms(3) split by auto
  from open_turn_boundary [OF this u] shape have turn: "tc_open_turn u = None"
    using u by (auto simp: seed_trace_def fresh_trace_def)
  moreover have "trace_inv seed u" using trace.run_inv u by (simp add: seed_trace_def)
  ultimately have "tc_open_step u = None" by (auto simp: trace_inv_def turns_ok_def)
  with turn u shape show ?thesis by blast
qed

theorem fork_seed_stable_witness:
  "\<exists>u. seed_trace [make_event 0 10 EndSeed None None False] = Inr u \<and> tc_open_turn u = None"
proof -

  let ?t = "fresh_session sample_header [make_event 0 10 EndSeed None None False] (new_surface_manager 0)"
  have "fork_seed ?t (Some 0) = Inr [make_event 0 10 EndSeed None None False]"
    "is_ok (seed_trace (ses_log ?t))" by code_simp+
  then obtain tr where "fork_seed ?t (Some 0) = Inr [make_event 0 10 EndSeed None None False]"
    "seed_trace (ses_log ?t) = Inr tr" by (auto simp: is_ok_iff)
  from fork_seed_stable [OF this] show ?thesis by (auto simp: fresh_session_def make_event_def)
qed

datatype preparation_op = CommitOp bool | DisposeOp

fun run_preparation :: "preparation \<Rightarrow> preparation_op list \<Rightarrow> preparation" where
  "run_preparation p [] = p"
| "run_preparation p (CommitOp fails # ops) = run_preparation (fst (commit_publication fails p)) ops"
| "run_preparation p (DisposeOp # ops) = run_preparation (dispose_preparation p) ops"

text \<open>
  The provider state of a preparation is settled at most once and in one way. Whatever the
  order of commits, failing commits and disposals, the commit and the release callback run at most
  once in total.
\<close>

theorem preparation_settled_once:
  "pre_calls (run_preparation (new_preparation has_commit has_release) ops)
     \<in> {[], [''commit''], [''release'']}"
proof -
  have inv: "pre_calls (run_preparation p ops) \<in> {[], [''commit''], [''release'']}"
    if "pre_calls p = (if pre_committed p then [''commit'']
          else if pre_released p \<and> pre_has_release p then [''release''] else [])" for p
    using that
  proof (induction p ops rule: run_preparation.induct)
    case (1 p)
    then show ?case by simp
  next
    case (2 p fails ops)
    show ?case unfolding run_preparation.simps
      by (rule 2(1)) (use 2(2) in \<open>auto simp: commit_publication_def split: if_splits\<close>)
  next
    case (3 p ops)
    show ?case unfolding run_preparation.simps
      by (rule 3(1)) (use 3(2) in \<open>auto simp: dispose_preparation_def split: if_splits\<close>)
  qed
  show ?thesis by (rule inv) (simp add: new_preparation_def)
qed

end
