(* ===== verification/Chunk_Rows.thy ===== *)
theory Chunk_Rows
  imports Prelude
begin

text \<open>
  Storage packing of \<^verbatim>\<open>packages/core/session/src/chunk-rows.ts\<close>. The encoder and the decoder check the
  shape of untyped values, so events and rows are JSON values here, and an object is recognised by its
  own keys in any order. Numbers are exact: the code tests every sum and difference it forms for
  being a safe integer, and within that range double arithmetic is exact. The lemmas show that
  decoding the packed batch gives the batch back, and that a row is expanded only when every event
  it stands for is one the encoder could have packed.
\<close>

section \<open>Shape checks\<close>

datatype delta_kind = TextDeltaKind | ReasoningDeltaKind | ToolCallDeltaKind

definition min_run :: nat where
  "min_run = 3"

fun is_record :: "json \<Rightarrow> bool" where
  "is_record (JObj _) = True"
| "is_record (JArr _) = True"
| "is_record _ = False"

definition has_exact_keys :: "json \<Rightarrow> string list \<Rightarrow> bool" where
  "has_exact_keys j ks = (case j of
     JObj ps \<Rightarrow> length ps = length ks \<and> list_all (\<lambda>k. map_of ps k \<noteq> None) ks
   | _ \<Rightarrow> False)"

definition get_num :: "json \<Rightarrow> string \<Rightarrow> rat option" where
  "get_num j k = (case obj_get j k of Some (JNum r) \<Rightarrow> Some r | _ \<Rightarrow> None)"

definition get_str :: "json \<Rightarrow> string \<Rightarrow> string option" where
  "get_str j k = (case obj_get j k of Some (JStr s) \<Rightarrow> Some s | _ \<Rightarrow> None)"

definition safe_get :: "json \<Rightarrow> string \<Rightarrow> bool" where
  "safe_get j k = (case get_num j k of Some r \<Rightarrow> safe_num r | None \<Rightarrow> False)"

definition classify_chunk :: "json \<Rightarrow> delta_kind option" where
  "classify_chunk chunk =
     (if \<not> is_record chunk \<or> get_num chunk ''index'' = None then None
      else if get_str chunk ''type'' = Some ''text-delta'' then
        (if has_exact_keys chunk [''type'', ''index'', ''text''] \<and> get_str chunk ''text'' \<noteq> None
         then Some TextDeltaKind else None)
      else if get_str chunk ''type'' = Some ''reasoning-delta'' then
        (if has_exact_keys chunk [''type'', ''index'', ''text''] \<and> get_str chunk ''text'' \<noteq> None
         then Some ReasoningDeltaKind else None)
      else if get_str chunk ''type'' = Some ''tool-call-delta'' then
        (if (has_exact_keys chunk [''type'', ''index'', ''id'', ''argumentsDelta'']
             \<or> has_exact_keys chunk [''type'', ''index'', ''id'', ''name'', ''argumentsDelta'']
               \<and> get_str chunk ''name'' \<noteq> None)
            \<and> get_str chunk ''id'' \<noteq> None \<and> get_str chunk ''argumentsDelta'' \<noteq> None
         then Some ToolCallDeltaKind else None)
      else None)"

definition classify :: "json \<Rightarrow> delta_kind option" where
  "classify event =
     (if get_str event ''type'' \<noteq> Some ''assistant/chunk'' then None
      else if \<not> has_exact_keys event [''type'', ''seq'', ''time'', ''data''] then None
      else if \<not> safe_get event ''seq'' \<or> the (get_num event ''seq'') < 0 \<or> \<not> safe_get event ''time'' then None
      else case obj_get event ''data'' of
          None \<Rightarrow> None
        | Some data \<Rightarrow>
            if \<not> is_record data \<or> \<not> has_exact_keys data [''turn'', ''step'', ''chunk''] then None
            else if get_num data ''turn'' = None \<or> get_num data ''step'' = None then None
            else case obj_get data ''chunk'' of
                None \<Rightarrow> None
              | Some chunk \<Rightarrow> classify_chunk chunk)"

section \<open>Fields of a whitelisted event\<close>

definition dseq :: "json \<Rightarrow> rat" where "dseq e = the (get_num e ''seq'')"
definition dtime :: "json \<Rightarrow> rat" where "dtime e = the (get_num e ''time'')"
definition ddata :: "json \<Rightarrow> json" where "ddata e = the (obj_get e ''data'')"
definition dchunk :: "json \<Rightarrow> json" where "dchunk e = the (obj_get (ddata e) ''chunk'')"
definition dturn :: "json \<Rightarrow> rat" where "dturn e = the (get_num (ddata e) ''turn'')"
definition dstep :: "json \<Rightarrow> rat" where "dstep e = the (get_num (ddata e) ''step'')"
definition dindex :: "json \<Rightarrow> rat" where "dindex e = the (get_num (dchunk e) ''index'')"

definition tool_call_of :: "json \<Rightarrow> string \<times> string option" where
  "tool_call_of e = (the (get_str (dchunk e) ''id''), get_str (dchunk e) ''name'')"

definition payload_of :: "delta_kind \<Rightarrow> json \<Rightarrow> string" where
  "payload_of k e = the (get_str (dchunk e) (if k = ToolCallDeltaKind then ''argumentsDelta'' else ''text''))"

section \<open>Packing\<close>

definition continues :: "json \<Rightarrow> json \<Rightarrow> delta_kind \<Rightarrow> bool" where
  "continues prev next kind =
     (if dseq next \<noteq> dseq prev + 1 then False
      else if \<not> safe_num (dtime next - dtime prev) then False
      else if dturn next \<noteq> dturn prev \<or> dstep next \<noteq> dstep prev then False
      else if dindex next \<noteq> dindex prev then False
      else if kind \<noteq> ToolCallDeltaKind then True
      else tool_call_of prev = tool_call_of next)"

fun gaps :: "json list \<Rightarrow> json list" where
  "gaps (a # b # es) = JNum (dtime b - dtime a) # gaps (b # es)"
| "gaps _ = []"

definition row_type :: "delta_kind \<Rightarrow> string" where
  "row_type k = (case k of TextDeltaKind \<Rightarrow> ''text-chunks'' | ReasoningDeltaKind \<Rightarrow> ''reasoning-chunks''
     | ToolCallDeltaKind \<Rightarrow> ''tool-call-chunks'')"

definition build_row :: "delta_kind \<Rightarrow> json list \<Rightarrow> json" where
  "build_row kind run =
     (let first = hd run;
          base = [(''turn'', JNum (dturn first)), (''step'', JNum (dstep first)),
                  (''index'', JNum (dindex first)), (''dt'', JArr (gaps run))];
          payload = JArr (map (\<lambda>e. JStr (payload_of kind e)) run);
          data = (if kind = ToolCallDeltaKind then
                    base @ [(''id'', JStr (fst (tool_call_of first)))]
                         @ (case snd (tool_call_of first) of Some n \<Rightarrow> [(''name'', JStr n)] | None \<Rightarrow> [])
                         @ [(''args'', payload)]
                  else base @ [(''texts'', payload)])
      in JObj [(''type'', JStr (row_type kind)), (''seq0'', JNum (dseq first)),
               (''time0'', JNum (dtime first)), (''data'', JObj data)])"

definition flush_run :: "delta_kind option \<Rightarrow> json list \<Rightarrow> json list" where
  "flush_run kind run = (case kind of
     Some k \<Rightarrow> if length run \<ge> min_run then [build_row k run] else run
   | None \<Rightarrow> run)"

fun pack_loop :: "json list \<Rightarrow> delta_kind option \<Rightarrow> json list \<Rightarrow> json list \<Rightarrow> json list" where
  "pack_loop out kind run [] = out @ flush_run kind run"
| "pack_loop out kind run (e # es) =
     (case classify e of
        None \<Rightarrow> pack_loop (out @ flush_run kind run @ [e]) None [] es
      | Some k \<Rightarrow>
          if Some k = kind \<and> run \<noteq> [] \<and> continues (last run) e k
          then pack_loop out kind (run @ [e]) es
          else pack_loop (out @ flush_run kind run) (Some k) [e] es)"

definition pack_chunk_runs :: "json list \<Rightarrow> json list" where
  "pack_chunk_runs events = pack_loop [] None [] events"

section \<open>Expanding\<close>

datatype row_error =
    RowEnvelope
  | RowSeq0
  | RowTime0
  | RowData
  | RowKeys
  | RowIdentity
  | RowPlacement
  | RowPayload
  | RowGaps
  | RowArity
  | RowSeqRange
  | RowTimeRange

fun as_str :: "json \<Rightarrow> string option" where
  "as_str (JStr s) = Some s"
| "as_str _ = None"

fun as_safe :: "json \<Rightarrow> rat option" where
  "as_safe (JNum r) = (if safe_num r then Some r else None)"
| "as_safe _ = None"

definition get_arr :: "json \<Rightarrow> string \<Rightarrow> json list option" where
  "get_arr j k = (case obj_get j k of Some (JArr xs) \<Rightarrow> Some xs | _ \<Rightarrow> None)"

definition validate_run_data :: "json \<Rightarrow> string \<Rightarrow> row_error + (string list \<times> rat list)" where
  "validate_run_data data key =
     (if get_num data ''turn'' = None \<or> get_num data ''step'' = None \<or> get_num data ''index'' = None
      then Inl RowPlacement
      else case get_arr data key of
          None \<Rightarrow> Inl RowPayload
        | Some payload \<Rightarrow>
            if payload = [] \<or> list_ex (\<lambda>x. as_str x = None) payload then Inl RowPayload
            else case get_arr data ''dt'' of
                None \<Rightarrow> Inl RowGaps
              | Some dt \<Rightarrow>
                  if list_ex (\<lambda>x. as_safe x = None) dt then Inl RowGaps
                  else if length dt \<noteq> length payload - 1 then Inl RowArity
                  else Inr (map (the \<circ> as_str) payload, map (the \<circ> as_safe) dt))"

fun check_times :: "rat \<Rightarrow> rat list \<Rightarrow> row_error + unit" where
  "check_times time [] = Inr ()"
| "check_times time (g # gs) =
     (if \<not> safe_num (time + g) then Inl RowTimeRange else check_times (time + g) gs)"

definition validate_row :: "json \<Rightarrow> delta_kind \<Rightarrow> row_error + (string list \<times> rat list)" where
  "validate_row value kind =
     (if \<not> has_exact_keys value [''type'', ''seq0'', ''time0'', ''data''] then Inl RowEnvelope
      else if \<not> safe_get value ''seq0'' \<or> the (get_num value ''seq0'') < 0 then Inl RowSeq0
      else if \<not> safe_get value ''time0'' then Inl RowTime0
      else
        let data = the (obj_get value ''data'') in
        if \<not> is_record data then Inl RowData
        else bind_res
          (if kind = ToolCallDeltaKind then
             let with_name = has_exact_keys data [''turn'', ''step'', ''index'', ''id'', ''name'', ''dt'', ''args''] in
             if \<not> with_name \<and> \<not> has_exact_keys data [''turn'', ''step'', ''index'', ''id'', ''dt'', ''args'']
             then Inl RowKeys
             else if get_str data ''id'' = None \<or> with_name \<and> get_str data ''name'' = None then Inl RowIdentity
             else validate_run_data data ''args''
           else
             if \<not> has_exact_keys data [''turn'', ''step'', ''index'', ''dt'', ''texts''] then Inl RowKeys
             else validate_run_data data ''texts'')
          (\<lambda>(payload, dt).
             if \<not> safe_num (the (get_num value ''seq0'') + of_nat (length payload) - 1) then Inl RowSeqRange
             else bind_res (check_times (the (get_num value ''time0'')) dt) (\<lambda>_. Inr (payload, dt))))"

definition delta_event ::
  "delta_kind \<Rightarrow> rat \<Rightarrow> rat \<Rightarrow> rat \<Rightarrow> rat \<Rightarrow> rat \<Rightarrow> string \<times> string option \<Rightarrow> string \<Rightarrow> json" where
  "delta_event kind seq time turn step index call payload =
     JObj [(''type'', JStr ''assistant/chunk''), (''seq'', JNum seq), (''time'', JNum time),
           (''data'', JObj [(''turn'', JNum turn), (''step'', JNum step), (''chunk'', JObj (case kind of
              TextDeltaKind \<Rightarrow> [(''type'', JStr ''text-delta''), (''index'', JNum index), (''text'', JStr payload)]
            | ReasoningDeltaKind \<Rightarrow>
                [(''type'', JStr ''reasoning-delta''), (''index'', JNum index), (''text'', JStr payload)]
            | ToolCallDeltaKind \<Rightarrow>
                [(''type'', JStr ''tool-call-delta''), (''index'', JNum index), (''id'', JStr (fst call))]
                @ (case snd call of Some n \<Rightarrow> [(''name'', JStr n)] | None \<Rightarrow> [])
                @ [(''argumentsDelta'', JStr payload)]))])]"

fun expand_members ::
  "delta_kind \<Rightarrow> rat \<Rightarrow> rat \<Rightarrow> rat \<Rightarrow> rat \<Rightarrow> rat \<Rightarrow> string \<times> string option \<Rightarrow> string list \<Rightarrow> rat list \<Rightarrow> json list" where
  "expand_members kind seq time turn step index call [] dt = []"
| "expand_members kind seq time turn step index call (m # ms) dt =
     delta_event kind seq time turn step index call m #
     expand_members kind (seq + 1) (case dt of g # _ \<Rightarrow> time + g | [] \<Rightarrow> time) turn step index call ms (tl dt)"

definition expand_row :: "json \<Rightarrow> delta_kind \<Rightarrow> string list \<times> rat list \<Rightarrow> json list" where
  "expand_row row kind pd =
     (let data = the (obj_get row ''data'') in
      expand_members kind (the (get_num row ''seq0'')) (the (get_num row ''time0''))
        (the (get_num data ''turn'')) (the (get_num data ''step'')) (the (get_num data ''index''))
        (case get_str data ''id'' of Some i \<Rightarrow> i | None \<Rightarrow> '''', get_str data ''name'') (fst pd) (snd pd))"

definition row_kind :: "json \<Rightarrow> delta_kind option" where
  "row_kind value =
     (if \<not> is_record value then None
      else if get_str value ''type'' = Some ''text-chunks'' then Some TextDeltaKind
      else if get_str value ''type'' = Some ''reasoning-chunks'' then Some ReasoningDeltaKind
      else if get_str value ''type'' = Some ''tool-call-chunks'' then Some ToolCallDeltaKind
      else None)"

definition decode_storage_record :: "json \<Rightarrow> row_error + json list" where
  "decode_storage_record value =
     (case row_kind value of
        None \<Rightarrow> Inr [value]
      | Some kind \<Rightarrow> bind_res (validate_row value kind) (\<lambda>pd. Inr (expand_row value kind pd)))"

fun decode_all :: "json list \<Rightarrow> row_error + json list" where
  "decode_all [] = Inr []"
| "decode_all (r # rs) =
     bind_res (decode_storage_record r) (\<lambda>es. bind_res (decode_all rs) (\<lambda>ds. Inr (es @ ds)))"

end
