(* ===== verification/Chunk_Round_Trip.thy ===== *)
theory Chunk_Round_Trip
  imports Chunk_Rows
begin

text \<open>
  The round trip of the storage packing: what a whitelisted event is determined by, what a row built
  from a run expands to, and that decoding a packed batch restores it event by event.
\<close>

section \<open>Objects with an exact set of keys\<close>

lemma exact_keys_obj: "has_exact_keys j ks \<Longrightarrow> \<exists>ps. j = JObj ps"
  by (cases j) (auto simp: has_exact_keys_def)

lemma exact_keys_set:
  assumes "has_exact_keys (JObj ps) ks" and "json_wf (JObj ps)" and "distinct ks"
  shows "fst ` set ps = set ks"
proof -
  have sub: "set ks \<subseteq> fst ` set ps"
    using assms(1) by (auto simp: has_exact_keys_def list_all_iff) (metis map_of_SomeD image_eqI fst_conv)
  have "card (set ks) = length ks" using assms(3) by (rule distinct_card)
  moreover have "card (fst ` set ps) = length ps"
    using assms(2) distinct_card [of "map fst ps"] by simp
  ultimately have "card (set ks) = card (fst ` set ps)"
    using assms(1) by (simp add: has_exact_keys_def)
  with sub show ?thesis by (metis card_subset_eq finite_set finite_imageI)
qed

lemma exact_keys_deep_equal:
  assumes "has_exact_keys (JObj ps) (map fst qs)" and "json_wf (JObj ps)" and "distinct (map fst qs)"
    and "\<And>k w. (k, w) \<in> set qs \<Longrightarrow> \<exists>v. map_of ps k = Some v \<and> is_deep_equal_json v w"
  shows "is_deep_equal_json (JObj ps) (JObj qs)"
proof -
  have len: "length ps = length qs" using assms(1) by (simp add: has_exact_keys_def)
  have "\<exists>w. map_of qs (fst p) = Some w \<and> is_deep_equal_json (snd p) w" if p: "p \<in> set ps" for p
  proof -
    have "fst p \<in> fst ` set ps" using p by (rule imageI)
    then have "fst p \<in> set (map fst qs)" unfolding exact_keys_set [OF assms(1-3)] .
    then obtain w where w: "(fst p, w) \<in> set qs" by (auto simp: image_iff)
    then have "map_of qs (fst p) = Some w" using assms(3) by simp
    moreover have "map_of ps (fst p) = Some (snd p)" using assms(2) p by (cases p) simp
    ultimately show ?thesis using assms(4) [OF w] by auto
  qed
  then have "case map_of qs (fst p) of None \<Rightarrow> False | Some w \<Rightarrow> is_deep_equal_json (snd p) w"
    if "p \<in> set ps" for p using that by fastforce
  with len show ?thesis unfolding is_deep_equal_json.simps by blast
qed

lemma get_num_Some: "get_num j k = Some r \<longleftrightarrow> obj_get j k = Some (JNum r)"
  by (auto simp: get_num_def split: option.splits json.splits)

lemma get_str_Some: "get_str j k = Some s \<longleftrightarrow> obj_get j k = Some (JStr s)"
  by (auto simp: get_str_def split: option.splits json.splits)

lemma obj_get_wf: "json_wf j \<Longrightarrow> obj_get j k = Some v \<Longrightarrow> json_wf v"
proof (cases j)
  case (JObj ps)
  assume "json_wf j" and "obj_get j k = Some v"
  with JObj have "\<forall>p \<in> set ps. json_wf (snd p)" and "(k, v) \<in> set ps" by (auto dest: map_of_SomeD)
  then show ?thesis by force
qed (auto simp: obj_get_def)

section \<open>A whitelisted event is its fields\<close>

definition event_of :: "delta_kind \<Rightarrow> json \<Rightarrow> json" where
  "event_of k e = delta_event k (dseq e) (dtime e) (dturn e) (dstep e) (dindex e)
     (if k = ToolCallDeltaKind then tool_call_of e else ('''', None)) (payload_of k e)"

definition delta_shape :: "delta_kind \<Rightarrow> json \<Rightarrow> bool" where
  "delta_shape k e \<longleftrightarrow>
     obj_get e ''type'' = Some (JStr ''assistant/chunk'')
     \<and> has_exact_keys e [''type'', ''seq'', ''time'', ''data'']
     \<and> obj_get e ''seq'' = Some (JNum (dseq e)) \<and> safe_num (dseq e) \<and> 0 \<le> dseq e
     \<and> obj_get e ''time'' = Some (JNum (dtime e)) \<and> safe_num (dtime e)
     \<and> obj_get e ''data'' = Some (ddata e)
     \<and> has_exact_keys (ddata e) [''turn'', ''step'', ''chunk'']
     \<and> obj_get (ddata e) ''turn'' = Some (JNum (dturn e)) \<and> obj_get (ddata e) ''step'' = Some (JNum (dstep e))
     \<and> obj_get (ddata e) ''chunk'' = Some (dchunk e)
     \<and> obj_get (dchunk e) ''index'' = Some (JNum (dindex e))
     \<and> classify_chunk (dchunk e) = Some k"

lemma if_None_Some: "(if b then None else x) = Some y \<longleftrightarrow> \<not> b \<and> x = Some y"
  by simp

lemma safe_get_num: "safe_get j k \<longleftrightarrow> (\<exists>r. obj_get j k = Some (JNum r) \<and> safe_num r)"
  by (auto simp: safe_get_def get_num_def split: option.splits json.splits)

lemma classify_shape:
  assumes "classify e = Some k"
  shows "delta_shape k e"
proof -
  from assms have ty: "obj_get e ''type'' = Some (JStr ''assistant/chunk'')"
    and keys: "has_exact_keys e [''type'', ''seq'', ''time'', ''data'']"
    and sq: "safe_get e ''seq''" "\<not> the (get_num e ''seq'') < 0" "safe_get e ''time''"
    and rest: "(case obj_get e ''data'' of
          None \<Rightarrow> None
        | Some data \<Rightarrow>
            if \<not> is_record data \<or> \<not> has_exact_keys data [''turn'', ''step'', ''chunk''] then None
            else if get_num data ''turn'' = None \<or> get_num data ''step'' = None then None
            else case obj_get data ''chunk'' of
                None \<Rightarrow> None
              | Some chunk \<Rightarrow> classify_chunk chunk) = Some k"
    unfolding classify_def if_None_Some by (auto simp: get_str_Some)
  from rest obtain data where data: "obj_get e ''data'' = Some data"
    and dk: "has_exact_keys data [''turn'', ''step'', ''chunk'']"
    and dn: "get_num data ''turn'' \<noteq> None" "get_num data ''step'' \<noteq> None"
    and rest2: "(case obj_get data ''chunk'' of None \<Rightarrow> None | Some chunk \<Rightarrow> classify_chunk chunk) = Some k"
    by (cases "obj_get e ''data''") (simp_all add: if_None_Some)
  from rest2 obtain chunk where chunk: "obj_get data ''chunk'' = Some chunk" "classify_chunk chunk = Some k"
    by (cases "obj_get data ''chunk''") simp_all
  from chunk(2) have "get_num chunk ''index'' \<noteq> None" unfolding classify_chunk_def if_None_Some by simp
  then obtain i where i: "obj_get chunk ''index'' = Some (JNum i)" by (auto simp: get_num_Some)
  from dn obtain t s where ts: "obj_get data ''turn'' = Some (JNum t)" "obj_get data ''step'' = Some (JNum s)"
    by (auto simp: get_num_Some)
  from sq obtain q tm where qt: "obj_get e ''seq'' = Some (JNum q)" "safe_num q"
    "obj_get e ''time'' = Some (JNum tm)" "safe_num tm" by (auto simp: safe_get_num)
  with sq(2) have "0 \<le> q" by (simp add: get_num_def)
  with ty keys data dk chunk i ts qt show ?thesis
    by (simp add: delta_shape_def dseq_def dtime_def ddata_def dturn_def dstep_def dchunk_def
        dindex_def get_num_def)
qed

lemma classify_chunkE:
  assumes "classify_chunk c = Some k"
  obtains (plain) t where "k = TextDeltaKind" "obj_get c ''type'' = Some (JStr ''text-delta'')"
      "has_exact_keys c [''type'', ''index'', ''text'']" "obj_get c ''text'' = Some (JStr t)"
    | (reasoning) t where "k = ReasoningDeltaKind" "obj_get c ''type'' = Some (JStr ''reasoning-delta'')"
      "has_exact_keys c [''type'', ''index'', ''text'']" "obj_get c ''text'' = Some (JStr t)"
    | (call) i a where "k = ToolCallDeltaKind" "obj_get c ''type'' = Some (JStr ''tool-call-delta'')"
      "obj_get c ''id'' = Some (JStr i)" "obj_get c ''argumentsDelta'' = Some (JStr a)"
      "has_exact_keys c [''type'', ''index'', ''id'', ''argumentsDelta'']"
    | (named) i a n where "k = ToolCallDeltaKind" "obj_get c ''type'' = Some (JStr ''tool-call-delta'')"
      "obj_get c ''id'' = Some (JStr i)" "obj_get c ''argumentsDelta'' = Some (JStr a)"
      "obj_get c ''name'' = Some (JStr n)"
      "has_exact_keys c [''type'', ''index'', ''id'', ''name'', ''argumentsDelta'']"
proof -
  consider "get_str c ''type'' = Some ''text-delta''" | "get_str c ''type'' = Some ''reasoning-delta''"
    | "get_str c ''type'' = Some ''tool-call-delta''"
    using assms unfolding classify_chunk_def by (auto split: if_splits)
  then show thesis
  proof cases
    case 1
    with assms plain show thesis
      unfolding classify_chunk_def if_None_Some by (auto simp: get_str_Some split: if_splits)
  next
    case 2
    with assms reasoning show thesis
      unfolding classify_chunk_def if_None_Some by (auto simp: get_str_Some split: if_splits)
  next
    case 3
    with assms call named show thesis
      unfolding classify_chunk_def if_None_Some by (auto simp: get_str_Some split: if_splits)
  qed
qed

text \<open>The chunk of a whitelisted event equals the chunk the decoder writes, whatever its key order.\<close>

definition delta_chunk :: "delta_kind \<Rightarrow> rat \<Rightarrow> string \<times> string option \<Rightarrow> string \<Rightarrow> (string \<times> json) list" where
  "delta_chunk k i call p = (case k of
              TextDeltaKind \<Rightarrow> [(''type'', JStr ''text-delta''), (''index'', JNum i), (''text'', JStr p)]
            | ReasoningDeltaKind \<Rightarrow>
                [(''type'', JStr ''reasoning-delta''), (''index'', JNum i), (''text'', JStr p)]
            | ToolCallDeltaKind \<Rightarrow>
                [(''type'', JStr ''tool-call-delta''), (''index'', JNum i), (''id'', JStr (fst call))]
                @ (case snd call of Some n \<Rightarrow> [(''name'', JStr n)] | None \<Rightarrow> [])
                @ [(''argumentsDelta'', JStr p)])"

lemma exact_keys_absent:
  assumes "has_exact_keys j ks" and "json_wf j" and "distinct ks" and "k \<notin> set ks"
  shows "obj_get j k = None"
proof -
  obtain ps where j: "j = JObj ps" using assms(1) exact_keys_obj by blast
  with exact_keys_set [of ps ks] assms have "k \<notin> fst ` set ps" by simp
  then show ?thesis by (simp add: j map_of_eq_None_iff)
qed

lemma chunk_equal:
  assumes "classify_chunk c = Some k" and "json_wf c" and "obj_get c ''index'' = Some (JNum i)"
    and "call = (the (get_str c ''id''), get_str c ''name'')"
    and "p = the (get_str c (if k = ToolCallDeltaKind then ''argumentsDelta'' else ''text''))"
  shows "is_deep_equal_json c (JObj (delta_chunk k i call p))"
proof -
  have "\<exists>ps. c = JObj ps" using assms(1) exact_keys_obj by (cases rule: classify_chunkE) blast+
  then obtain ps where c: "c = JObj ps" by blast
  note deq = exact_keys_deep_equal [of ps, folded c]
  from assms(1) show ?thesis
  proof (cases rule: classify_chunkE)
    case (plain t)
    then have "p = t" using assms(5) by (simp add: get_str_def)
    with plain assms(2,3) c show ?thesis
      by (intro deq) (auto simp: delta_chunk_def)
  next
    case (reasoning t)
    then have "p = t" using assms(5) by (simp add: get_str_def)
    with reasoning assms(2,3) c show ?thesis
      by (intro deq) (auto simp: delta_chunk_def)
  next
    case (call j a)
    have "obj_get c ''name'' = None" by (rule exact_keys_absent [OF call(5) assms(2)]) simp_all
    then have "p = a" "call = (j, None)" using assms(4,5) call by (simp_all add: get_str_def)
    with call assms(2,3) c show ?thesis
      by (intro deq) (auto simp: delta_chunk_def)
  next
    case (named j a n)
    then have "p = a" "call = (j, Some n)" using assms(4,5) by (simp_all add: get_str_def)
    with named assms(2,3) c show ?thesis
      by (intro deq) (auto simp: delta_chunk_def)
  qed
qed

lemma delta_event_chunk:
  "delta_event k s t tu st i call p
     = JObj [(''type'', JStr ''assistant/chunk''), (''seq'', JNum s), (''time'', JNum t),
           (''data'', JObj [(''turn'', JNum tu), (''step'', JNum st), (''chunk'', JObj (delta_chunk k i call p))])]"
  by (simp add: delta_event_def delta_chunk_def)

lemma delta_chunk_call: "k \<noteq> ToolCallDeltaKind \<Longrightarrow> delta_chunk k i call p = delta_chunk k i call' p"
  by (cases k) (simp_all add: delta_chunk_def)

lemma event_of_equal:
  assumes "classify e = Some k" and "json_wf e"
  shows "is_deep_equal_json e (event_of k e)"
proof -
  note sh = classify_shape [OF assms(1), unfolded delta_shape_def]
  obtain ps where e: "e = JObj ps" using sh exact_keys_obj by blast
  obtain ds where d: "ddata e = JObj ds" using sh exact_keys_obj by blast
  have wf_d: "json_wf (ddata e)" using obj_get_wf [OF assms(2)] sh by blast
  have wf_c: "json_wf (dchunk e)" using obj_get_wf [OF wf_d] sh by blast
  let ?call = "if k = ToolCallDeltaKind then tool_call_of e else ('''', None)"
  let ?cq = "delta_chunk k (dindex e) ?call (payload_of k e)"
  have "is_deep_equal_json (dchunk e) (JObj (delta_chunk k (dindex e) (tool_call_of e) (payload_of k e)))"
    by (rule chunk_equal) (use sh wf_c in \<open>simp_all add: tool_call_of_def payload_of_def\<close>)
  then have chunk: "is_deep_equal_json (dchunk e) (JObj ?cq)"
    using delta_chunk_call [of k "dindex e" "tool_call_of e" "payload_of k e" "('''', None)"]
    by (cases "k = ToolCallDeltaKind") simp_all
  have data: "is_deep_equal_json (ddata e)
      (JObj [(''turn'', JNum (dturn e)), (''step'', JNum (dstep e)), (''chunk'', JObj ?cq)])"
    unfolding d by (rule exact_keys_deep_equal) (use sh wf_d chunk d in \<open>auto simp del: is_deep_equal_json.simps(6)\<close>)
  show ?thesis
    unfolding event_of_def delta_event_chunk unfolding e
    by (rule exact_keys_deep_equal) (use sh assms(2) data e in \<open>auto simp del: is_deep_equal_json.simps(6)\<close>)
qed

section \<open>A row built from a run\<close>

fun uniform :: "delta_kind \<Rightarrow> json list \<Rightarrow> bool" where
  "uniform k [] = True"
| "uniform k [e] = (classify e = Some k)"
| "uniform k (a # b # es) = (classify a = Some k \<and> continues a b k \<and> uniform k (b # es))"

lemma uniform_snoc:
  "uniform k run \<Longrightarrow> run \<noteq> [] \<Longrightarrow> classify e = Some k \<Longrightarrow> continues (last run) e k \<Longrightarrow> uniform k (run @ [e])"
  by (induction k run rule: uniform.induct) auto

lemma uniform_classify: "uniform k run \<Longrightarrow> e \<in> set run \<Longrightarrow> classify e = Some k"
  by (induction k run rule: uniform.induct) auto

lemma continuesD:
  assumes "continues a b k"
  shows "dseq b = dseq a + 1" and "safe_num (dtime b - dtime a)" and "dturn b = dturn a"
    and "dstep b = dstep a" and "dindex b = dindex a"
    and "k = ToolCallDeltaKind \<Longrightarrow> tool_call_of b = tool_call_of a"
  using assms by (auto simp: continues_def split: if_splits)

definition gap_values :: "json list \<Rightarrow> rat list" where
  "gap_values run = map (the \<circ> as_safe) (gaps run)"

lemma length_gaps: "length (gaps run) = length run - 1"
  by (induction run rule: gaps.induct) auto

lemma gap_values_simps [simp]: "gap_values [e] = []" "gap_values [] = []"
  by (simp_all add: gap_values_def)

lemma gap_values_Cons:
  "continues a b k \<Longrightarrow> gap_values (a # b # es) = (dtime b - dtime a) # gap_values (b # es)"
  using continuesD(2) [of a b k] by (simp add: gap_values_def)

lemma gaps_safe: "uniform k run \<Longrightarrow> g \<in> set (gaps run) \<Longrightarrow> as_safe g \<noteq> None"
  by (induction k run rule: uniform.induct) (auto dest: continuesD(2))

definition run_call :: "delta_kind \<Rightarrow> json \<Rightarrow> string \<times> string option" where
  "run_call k e = (if k = ToolCallDeltaKind then tool_call_of e else ('''', None))"

lemma expand_uniform:
  "uniform k (a # es) \<Longrightarrow>
     expand_members k (dseq a) (dtime a) (dturn a) (dstep a) (dindex a) (run_call k a)
       (map (payload_of k) (a # es)) (gap_values (a # es))
     = map (event_of k) (a # es)"
proof (induction es arbitrary: a)
  case Nil
  then show ?case by (simp add: event_of_def run_call_def)
next
  case (Cons b es)
  then have c: "continues a b k" and u: "uniform k (b # es)" by simp_all
  note d = continuesD [OF c]
  have call: "run_call k b = run_call k a" using d(6) by (simp add: run_call_def)
  show ?case
    using Cons.IH [OF u] gap_values_Cons [OF c, of es] d(1,3,4,5) call
    by (simp add: event_of_def run_call_def)
qed

lemma classify_safe: "classify e = Some k \<Longrightarrow> safe_num (dseq e) \<and> 0 \<le> dseq e \<and> safe_num (dtime e)"
  using classify_shape by (auto simp: delta_shape_def)

lemma uniform_times: "uniform k (a # es) \<Longrightarrow> check_times (dtime a) (gap_values (a # es)) = Inr ()"
proof (induction es arbitrary: a)
  case Nil
  then show ?case by simp
next
  case (Cons b es)
  then have c: "continues a b k" and u: "uniform k (b # es)" by simp_all
  have "safe_num (dtime b)" using classify_safe uniform_classify [OF u, of b] by simp
  with Cons.IH [OF u] gap_values_Cons [OF c, of es] show ?case by simp
qed

lemma uniform_last_seq: "uniform k (a # es) \<Longrightarrow> dseq (last (a # es)) = dseq a + of_nat (length es)"
proof (induction es arbitrary: a)
  case Nil
  then show ?case by simp
next
  case (Cons b es)
  then have c: "continues a b k" and u: "uniform k (b # es)" by simp_all
  from Cons.IH [OF u] continuesD(1) [OF c] show ?case by simp
qed

lemma payload_strings [simp]:
  "list_ex (\<lambda>x. as_str x = None) (map (\<lambda>e. JStr (f e)) xs) = False"
  "map (the \<circ> as_str) (map (\<lambda>e. JStr (f e)) xs) = map f xs"
  by (simp_all add: list_ex_iff)

lemma validate_built:
  assumes u: "uniform k (a # es)"
  shows "validate_row (build_row k (a # es)) k = Inr (map (payload_of k) (a # es), gap_values (a # es))"
proof -
  let ?run = "a # es" and ?gs = "gaps (a # es)"
  let ?data = "the (obj_get (build_row k ?run) ''data'')"
  let ?key = "if k = ToolCallDeltaKind then ''args'' else ''texts''"
  have cl: "classify a = Some k" using uniform_classify [OF u] by simp
  have gs: "\<not> list_ex (\<lambda>x. as_safe x = None) ?gs" using gaps_safe [OF u] by (auto simp: list_ex_iff)
  have len: "length ?gs = length ?run - 1" by (rule length_gaps)
  have "classify (last ?run) = Some k" using uniform_classify [OF u, of "last ?run"] by simp
  then have "safe_num (dseq (last ?run))" using classify_safe by blast
  then have seqs: "safe_num (dseq a + of_nat (length ?run) - 1)"
    using uniform_last_seq [OF u] by simp
  have keys: "get_arr ?data ?key = Some (map (\<lambda>e. JStr (payload_of k e)) ?run)" "get_arr ?data ''dt'' = Some ?gs"
    "get_num ?data ''turn'' = Some (dturn a)" "get_num ?data ''step'' = Some (dstep a)"
    "get_num ?data ''index'' = Some (dindex a)"
    by (cases "snd (tool_call_of a)";
        simp add: build_row_def Let_def get_arr_def get_num_def)+
  have vr: "validate_run_data ?data ?key = Inr (map (payload_of k) ?run, gap_values ?run)"
    unfolding validate_run_data_def keys using gs len by (simp add: gap_values_def del: list.map)
  have env: "has_exact_keys (build_row k ?run) [''type'', ''seq0'', ''time0'', ''data'']"
    "safe_get (build_row k ?run) ''seq0''" "the (get_num (build_row k ?run) ''seq0'') = dseq a"
    "safe_get (build_row k ?run) ''time0''" "the (get_num (build_row k ?run) ''time0'') = dtime a"
    "is_record ?data" "0 \<le> dseq a"
    using classify_safe [OF cl]
    by (simp_all add: build_row_def Let_def has_exact_keys_def safe_get_def get_num_def)
  have tool: "(has_exact_keys ?data [''turn'', ''step'', ''index'', ''id'', ''name'', ''dt'', ''args'']
        \<longleftrightarrow> snd (tool_call_of a) \<noteq> None)
      \<and> (has_exact_keys ?data [''turn'', ''step'', ''index'', ''id'', ''dt'', ''args'']
        \<longleftrightarrow> snd (tool_call_of a) = None)
      \<and> get_str ?data ''id'' = Some (fst (tool_call_of a)) \<and> get_str ?data ''name'' = snd (tool_call_of a)"
    if "k = ToolCallDeltaKind"
    using that by (cases "snd (tool_call_of a)") (simp_all add: build_row_def Let_def has_exact_keys_def get_str_def)
  have texts: "has_exact_keys ?data [''turn'', ''step'', ''index'', ''dt'', ''texts'']"
    if "k \<noteq> ToolCallDeltaKind"
    using that by (simp add: build_row_def Let_def has_exact_keys_def)
  show ?thesis
  proof (cases "k = ToolCallDeltaKind")
    case True
    with env tool vr seqs uniform_times [OF u] show ?thesis
      by (cases "snd (tool_call_of a)") (simp_all add: validate_row_def Let_def)
  next
    case False
    with env texts vr seqs uniform_times [OF u] show ?thesis
      by (simp add: validate_row_def Let_def)
  qed
qed

lemma decode_built:
  assumes u: "uniform k (a # es)"
  shows "decode_storage_record (build_row k (a # es)) = Inr (map (event_of k) (a # es))"
proof -
  let ?row = "build_row k (a # es)" and ?data = "the (obj_get (build_row k (a # es)) ''data'')"
  have kind: "row_kind ?row = Some k"
    by (cases k) (simp_all add: row_kind_def build_row_def Let_def row_type_def get_str_def)
  have f: "the (get_num ?row ''seq0'') = dseq a" "the (get_num ?row ''time0'') = dtime a"
    "the (get_num ?data ''turn'') = dturn a" "the (get_num ?data ''step'') = dstep a"
    "the (get_num ?data ''index'') = dindex a"
    by (cases "snd (tool_call_of a)"; simp add: build_row_def Let_def get_num_def)+
  have call: "(case get_str ?data ''id'' of Some i \<Rightarrow> i | None \<Rightarrow> '''', get_str ?data ''name'') = run_call k a"
    by (cases "k = ToolCallDeltaKind"; cases "snd (tool_call_of a)")
       (simp_all add: build_row_def Let_def get_str_def run_call_def prod_eq_iff)
  have "expand_row ?row k (map (payload_of k) (a # es), gap_values (a # es)) = map (event_of k) (a # es)"
    unfolding expand_row_def Let_def f call fst_conv snd_conv by (rule expand_uniform [OF u])
  then show ?thesis by (simp add: decode_storage_record_def kind validate_built [OF u])
qed

section \<open>The packing loop\<close>

lemma decode_all_append:
  "decode_all (xs @ ys) = bind_res (decode_all xs) (\<lambda>a. bind_res (decode_all ys) (\<lambda>b. Inr (a @ b)))"
proof (induction xs)
  case Nil
  then show ?case by (cases "decode_all ys") simp_all
next
  case (Cons x xs)
  then show ?case
    by (cases "decode_storage_record x"; cases "decode_all xs"; cases "decode_all ys") simp_all
qed

lemma decode_plain: "row_kind e = None \<Longrightarrow> decode_storage_record e = Inr [e]"
  by (simp add: decode_storage_record_def)

lemma decode_all_plain: "\<forall>e \<in> set es. row_kind e = None \<Longrightarrow> decode_all es = Inr es"
  by (induction es) (simp_all add: decode_plain)

lemma classify_not_row: "classify e = Some k \<Longrightarrow> row_kind e = None"
  using classify_shape by (simp add: delta_shape_def row_kind_def get_str_def)

lemma list_all2_refl_wf: "\<forall>e \<in> set es. json_wf e \<Longrightarrow> list_all2 is_deep_equal_json es es"
  by (simp add: list_all2_same is_deep_equal_json_refl)

definition run_state :: "delta_kind option \<Rightarrow> json list \<Rightarrow> bool" where
  "run_state kind run \<longleftrightarrow> (\<forall>e \<in> set run. json_wf e) \<and>
     (case kind of None \<Rightarrow> run = [] | Some k \<Rightarrow> run \<noteq> [] \<and> uniform k run)"

lemma flush_decode:
  assumes "run_state kind run"
  shows "\<exists>ds. decode_all (flush_run kind run) = Inr ds \<and> list_all2 is_deep_equal_json run ds"
proof (cases kind)
  case None
  with assms show ?thesis by (simp add: run_state_def flush_run_def)
next
  case (Some k)
  with assms have u: "uniform k run" and ne: "run \<noteq> []" and wf: "\<forall>e \<in> set run. json_wf e"
    by (simp_all add: run_state_def)
  show ?thesis
  proof (cases "min_run \<le> length run")
    case True
    obtain a es where run: "run = a # es" using ne by (cases run) auto
    have "decode_all (flush_run kind run) = Inr (map (event_of k) run)"
      using decode_built [OF u [unfolded run]] True by (simp add: Some flush_run_def run)
    moreover have "list_all2 is_deep_equal_json run (map (event_of k) run)"
      using event_of_equal [OF uniform_classify [OF u]] wf
      by (simp add: list_all2_conv_all_nth)
    ultimately show ?thesis by blast
  next
    case False
    have "\<forall>e \<in> set run. row_kind e = None" using uniform_classify [OF u] classify_not_row by blast
    with False Some wf show ?thesis by (simp add: flush_run_def decode_all_plain list_all2_refl_wf)
  qed
qed

lemma pack_loop_decode:
  "decode_all out = Inr od \<Longrightarrow> list_all2 is_deep_equal_json orig od \<Longrightarrow> run_state kind run \<Longrightarrow>
     \<forall>e \<in> set es. json_wf e \<and> row_kind e = None \<Longrightarrow>
     \<exists>ds. decode_all (pack_loop out kind run es) = Inr ds \<and> list_all2 is_deep_equal_json (orig @ run @ es) ds"
proof (induction out kind run es arbitrary: orig od rule: pack_loop.induct)
  case (1 out kind run)
  obtain ds where "decode_all (flush_run kind run) = Inr ds" "list_all2 is_deep_equal_json run ds"
    using flush_decode [OF 1(3)] by blast
  with 1(1,2) show ?case by (auto simp: decode_all_append intro: list_all2_appendI)
next
  case (2 out kind run e es)
  obtain ds where ds: "decode_all (flush_run kind run) = Inr ds" "list_all2 is_deep_equal_json run ds"
    using flush_decode [OF 2(6)] by blast
  have e: "json_wf e" "row_kind e = None" and es: "\<forall>x \<in> set es. json_wf x \<and> row_kind x = None"
    using 2(7) by simp_all
  show ?case
  proof (cases "classify e")
    case None
    have "decode_all (out @ flush_run kind run @ [e]) = Inr (od @ ds @ [e])"
      using 2(4) ds e by (simp add: decode_all_append decode_plain)
    moreover have "list_all2 is_deep_equal_json (orig @ run @ [e]) (od @ ds @ [e])"
      using 2(5) ds(2) is_deep_equal_json_refl [OF e(1)] by (intro list_all2_appendI) simp_all
    moreover have "run_state None []" by (simp add: run_state_def)
    ultimately show ?thesis using 2(1) [OF None _ _ _ es, of "od @ ds @ [e]" "orig @ run @ [e]"] None
      by simp
  next
    case (Some k)
    show ?thesis
    proof (cases "Some k = kind \<and> run \<noteq> [] \<and> continues (last run) e k")
      case True
      then have "run_state kind (run @ [e])"
        using 2(6) e Some uniform_snoc [of k run e] by (auto simp: run_state_def split: option.splits)
      from 2(2) [OF Some True 2(4,5) this es] show ?thesis using Some True by (cases kind) simp_all
    next
      case False
      have "decode_all (out @ flush_run kind run) = Inr (od @ ds)"
        using 2(4) ds by (simp add: decode_all_append)
      moreover have "list_all2 is_deep_equal_json (orig @ run) (od @ ds)"
        using 2(5) ds(2) by (rule list_all2_appendI)
      moreover have "run_state (Some k) [e]" using Some e by (simp add: run_state_def)
      ultimately have "\<exists>ds'. decode_all (pack_loop (out @ flush_run kind run) (Some k) [e] es) = Inr ds'
          \<and> list_all2 is_deep_equal_json ((orig @ run) @ [e] @ es) ds'"
        by (rule 2(3) [OF Some False _ _ _ es])
      moreover have "pack_loop out kind run (e # es) = pack_loop (out @ flush_run kind run) (Some k) [e] es"
        by (simp only: pack_loop.simps Some option.case False if_False)
      ultimately show ?thesis by simp
    qed
  qed
qed

section \<open>What a row may expand to\<close>

lemma classify_delta_event:
  assumes "safe_num s" "0 \<le> s" "safe_num t"
  shows "classify (delta_event k s t tu st i call p) = Some k"
  using assms
  by (cases k; cases "snd call")
     (simp_all add: classify_def delta_event_def get_str_def get_num_def has_exact_keys_def safe_get_def
       classify_chunk_def)

lemma delta_event_fields [simp]:
  "dseq (delta_event k s t tu st i call p) = s" "dtime (delta_event k s t tu st i call p) = t"
  "dturn (delta_event k s t tu st i call p) = tu" "dstep (delta_event k s t tu st i call p) = st"
  "dindex (delta_event k s t tu st i call p) = i"
  by (simp_all add: dseq_def dtime_def dturn_def dstep_def dindex_def ddata_def dchunk_def delta_event_def
        get_num_def split: delta_kind.split)

lemma delta_event_call [simp]: "tool_call_of (delta_event ToolCallDeltaKind s t tu st i call p) = call"
  by (cases call; cases "snd call")
     (simp_all add: tool_call_of_def ddata_def dchunk_def delta_event_def get_str_def)

lemma safe_num_nat_le:
  assumes "safe_num (s + of_nat n)" and "0 \<le> s" and "safe_num s" and "m \<le> n"
  shows "safe_num (s + of_nat m)"
proof -
  from assms(3) obtain i where s: "s = of_int i" unfolding safe_num_def by metis
  have i: "0 \<le> i" using assms(2) s by simp
  have "safe_int (i + int n)" using assms(1) s safe_num_of_int [of "i + int n"] by simp
  then have "safe_int (i + int m)" using i assms(4) by (simp add: safe_int_def max_safe_def)
  then show ?thesis using s safe_num_of_int [of "i + int m"] by simp
qed

lemma expand_members_uniform:
  "length dt = length ms - 1 \<Longrightarrow> safe_num s \<Longrightarrow> 0 \<le> s \<Longrightarrow> safe_num t \<Longrightarrow>
     safe_num (s + of_nat (length ms) - 1) \<Longrightarrow> check_times t dt = Inr () \<Longrightarrow> \<forall>g \<in> set dt. safe_num g \<Longrightarrow>
     uniform k (expand_members k s t tu st i call ms dt)"
proof (induction ms arbitrary: s t dt)
  case Nil
  then show ?case by simp
next
  case (Cons m ms)
  have here: "classify (delta_event k s t tu st i call m) = Some k"
    using Cons.prems by (intro classify_delta_event)
  show ?case
  proof (cases ms)
    case Nil
    with here show ?thesis by simp
  next
    case (Cons m' ms')
    with Cons.prems(1) obtain g gs where dt: "dt = g # gs" by (cases dt) auto
    have t': "safe_num (t + g)" "check_times (t + g) gs = Inr ()" using Cons.prems(6) dt by (auto split: if_splits)
    have "s + of_nat (length (m # ms)) - 1 = s + of_nat (length ms)" by simp
    then have total: "safe_num (s + of_nat (length ms))" using Cons.prems(5) by metis
    have s': "safe_num (s + 1)"
      using safe_num_nat_le [OF total Cons.prems(3,2), of 1] Cons by simp
    have "uniform k (expand_members k (s + 1) (t + g) tu st i call ms gs)"
    proof (rule Cons.IH)
      have "s + 1 + of_nat (length ms) - 1 = s + of_nat (length ms)" by simp
      with total show "safe_num (s + 1 + of_nat (length ms) - 1)" by metis
    qed (use Cons.prems dt t' s' Cons in auto)
    moreover have "continues (delta_event k s t tu st i call m) (delta_event k (s + 1) (t + g) tu st i call m') k"
      using Cons.prems(7) dt by (cases "k = ToolCallDeltaKind") (simp_all add: continues_def)
    ultimately show ?thesis using here Cons dt by simp
  qed
qed

lemma validate_rowD:
  assumes "validate_row v k = Inr (ms, dt)"
  shows "ms \<noteq> []" "length dt = length ms - 1" "safe_num (the (get_num v ''seq0''))"
    "0 \<le> the (get_num v ''seq0'')" "safe_num (the (get_num v ''time0''))"
    "safe_num (the (get_num v ''seq0'') + of_nat (length ms) - 1)"
    "check_times (the (get_num v ''time0'')) dt = Inr ()" "\<forall>g \<in> set dt. safe_num g"
proof -
  from assms have env: "safe_get v ''seq0''" "\<not> the (get_num v ''seq0'') < 0" "safe_get v ''time0''"
    and seqs: "safe_num (the (get_num v ''seq0'') + of_nat (length ms) - 1)"
    and times: "check_times (the (get_num v ''time0'')) dt = Inr ()"
    and run: "\<exists>key. validate_run_data (the (obj_get v ''data'')) key = Inr (ms, dt)"
    by (auto simp: validate_row_def Let_def split: if_splits)
  from run obtain key where "validate_run_data (the (obj_get v ''data'')) key = Inr (ms, dt)" ..
  then obtain payload gs where p: "payload \<noteq> []" "ms = map (the \<circ> as_str) payload"
    "dt = map (the \<circ> as_safe) gs" "length gs = length payload - 1" "\<not> list_ex (\<lambda>x. as_safe x = None) gs"
    by (auto simp: validate_run_data_def split: if_splits option.splits)
  have "safe_num (the (as_safe g))" if "g \<in> set gs" for g
    using p(5) that by (cases g) (auto simp: list_ex_iff split: if_splits)
  with p env seqs times show "ms \<noteq> []" "length dt = length ms - 1" "safe_num (the (get_num v ''seq0''))"
    "0 \<le> the (get_num v ''seq0'')" "safe_num (the (get_num v ''time0''))"
    "safe_num (the (get_num v ''seq0'') + of_nat (length ms) - 1)"
    "check_times (the (get_num v ''time0'')) dt = Inr ()" "\<forall>g \<in> set dt. safe_num g"
    by (auto simp: safe_get_num get_num_def)
qed

section \<open>Properties\<close>

definition sample_delta :: "rat \<Rightarrow> rat \<Rightarrow> string \<Rightarrow> json" where
  "sample_delta s t p = delta_event TextDeltaKind s t 1 1 0 ('''', None) p"

definition sample_batch :: "json list" where
  "sample_batch = [sample_delta 3 10 ''a'', sample_delta 4 12 ''b'', sample_delta 5 11 ''c'',
     JObj [(''type'', JStr ''turn/end''), (''seq'', JNum 6)]]"

text \<open>
  C14: packing loses nothing. Decoding the records of a packed batch succeeds and gives the events of
  the batch in order, each equal to the original as a JSON value.
\<close>

theorem pack_decode_round_trip:
  assumes "\<forall>e \<in> set events. json_wf e \<and> row_kind e = None"
  shows "\<exists>ds. decode_all (pack_chunk_runs events) = Inr ds \<and> list_all2 is_deep_equal_json events ds"
  using pack_loop_decode [of "[]" "[]" "[]" None "[]" events] assms
  by (simp add: pack_chunk_runs_def run_state_def)

theorem pack_decode_round_trip_witness:
  "length (pack_chunk_runs sample_batch) = 2
   \<and> (\<exists>ds. decode_all (pack_chunk_runs sample_batch) = Inr ds \<and> list_all2 is_deep_equal_json sample_batch ds)"
proof -
  have "list_all (\<lambda>e. json_wf e \<and> row_kind e = None) sample_batch" by code_simp
  then have "\<forall>e \<in> set sample_batch. json_wf e \<and> row_kind e = None" by (simp add: list_all_iff)
  note ok = pack_decode_round_trip [OF this]
  have "length (pack_chunk_runs sample_batch) = 2" by code_simp
  with ok show ?thesis by blast
qed

text \<open>
  A row never expands to anything the encoder could not have packed. When a row-tagged value is
  decoded, the events it yields are a non-empty run of whitelisted chunks of the kind of the row,
  consecutive in sequence, with safe timestamps and one placement and identity.
\<close>

theorem decoded_row_is_a_run:
  assumes "row_kind v = Some k" and "decode_storage_record v = Inr es"
  shows "es \<noteq> [] \<and> uniform k es \<and> (\<forall>e \<in> set es. classify e = Some k)"
proof -
  from assms obtain ms dt where val: "validate_row v k = Inr (ms, dt)" and es: "es = expand_row v k (ms, dt)"
    by (auto simp: decode_storage_record_def)
  note d = validate_rowD [OF val]
  have u: "uniform k es"
    unfolding es expand_row_def Let_def fst_conv snd_conv by (rule expand_members_uniform) (use d in auto)
  moreover have "es \<noteq> []" using d(1) by (cases ms) (simp_all add: es expand_row_def Let_def)
  ultimately show ?thesis using uniform_classify by blast
qed

theorem decoded_row_is_a_run_witness:
  "uniform TextDeltaKind [sample_delta 3 10 ''a'', sample_delta 4 12 ''b'', sample_delta 5 11 ''c'']"
proof -
  let ?row = "hd (pack_chunk_runs sample_batch)"
  have "row_kind ?row = Some TextDeltaKind"
    "decode_storage_record ?row = Inr [sample_delta 3 10 ''a'', sample_delta 4 12 ''b'', sample_delta 5 11 ''c'']"
    by code_simp+
  from decoded_row_is_a_run [OF this] show ?thesis by blast
qed

end
