(* ===== verification/Inbox.thy ===== *)
theory Inbox
  imports Session_Run
begin

text \<open>
  The durable pending-message lists of an agent, \<^verbatim>\<open>packages/core/agent/src/inbox.ts\<close>: the projection of
  the splice events of a session, the operations that mutate it, and the notifications they publish.
  Every mutation commits one event to the session log before the live lists change. Arguments that
  the code passes through \<^verbatim>\<open>Math.trunc\<close> are arbitrary JavaScript numbers; negative zero is not
  distinguished from zero. The lemmas show that a replay of the log always gives the live lists, that
  no message identity is pending twice, and what the mutations return.
\<close>

section \<open>State\<close>

datatype inbox_note =
    NoteInserted message
  | NoteDiscarded message
  | NoteClaimed message int

datatype inbox_error =
    InvalidSplice
  | AlreadyPending message_id
  | InvalidPersisted nat inbox_error
  | InboxAppendFailed session_error

record inbox_lists =
  ib_next_turn :: "message list"
  ib_next_step :: "message list"

record agent_inbox =
  ai_session :: session
  ai_lists :: inbox_lists
  ai_notes :: "inbox_note list"

definition list_of :: "inbox_lists \<Rightarrow> inbox_target \<Rightarrow> message list" where
  "list_of ib t = (case t of NextTurn \<Rightarrow> ib_next_turn ib | NextStep \<Rightarrow> ib_next_step ib)"

definition set_list :: "inbox_target \<Rightarrow> message list \<Rightarrow> inbox_lists \<Rightarrow> inbox_lists" where
  "set_list t ms ib = (case t of NextTurn \<Rightarrow> ib\<lparr> ib_next_turn := ms \<rparr> | NextStep \<Rightarrow> ib\<lparr> ib_next_step := ms \<rparr>)"

definition empty_inbox :: inbox_lists where
  "empty_inbox = \<lparr> ib_next_turn = [], ib_next_step = [] \<rparr>"

definition has_pending :: "inbox_lists \<Rightarrow> bool" where
  "has_pending ib = (length (ib_next_turn ib) > 0 \<or> length (ib_next_step ib) > 0)"

section \<open>Normalised splices\<close>

fun first_duplicate :: "string list \<Rightarrow> string list \<Rightarrow> string option" where
  "first_duplicate seen [] = None"
| "first_duplicate seen (i # is) = (if i \<in> set seen then Some i else first_duplicate (i # seen) is)"

definition removed_of :: "inbox_splice \<Rightarrow> int" where
  "removed_of spl = (case spl_removed_count spl of Some n \<Rightarrow> n | None \<Rightarrow> 0)"

definition validate_splice :: "inbox_lists \<Rightarrow> inbox_splice \<Rightarrow> inbox_error + unit" where
  "validate_splice ib spl =
     (let inbox = list_of ib (spl_target spl); n = removed_of spl in
      if \<not> safe_int (spl_start spl) \<or> spl_start spl < 0 \<or> spl_start spl > int (length inbox)
         \<or> \<not> safe_int n \<or> n < 0 \<or> spl_start spl + n > int (length inbox)
      then Inl InvalidSplice
      else
        let candidate = list_splice (nat (spl_start spl)) (nat n) (spl_inserted spl) inbox in
        (case first_duplicate [] (map message_id
                (case spl_target spl of
                   NextTurn \<Rightarrow> candidate @ ib_next_step ib
                 | NextStep \<Rightarrow> ib_next_turn ib @ candidate)) of
           Some i \<Rightarrow> Inl (AlreadyPending i)
         | None \<Rightarrow> Inr ()))"

definition splice_lists :: "inbox_lists \<Rightarrow> inbox_splice \<Rightarrow> inbox_lists \<times> message list" where
  "splice_lists ib spl =
     (let inbox = list_of ib (spl_target spl); s = nat (spl_start spl); n = nat (removed_of spl) in
      (set_list (spl_target spl) (list_splice s n (spl_inserted spl) inbox) ib, take n (drop s inbox)))"

definition apply_splice :: "inbox_lists \<Rightarrow> inbox_splice \<Rightarrow> inbox_error + (inbox_lists \<times> message list)" where
  "apply_splice ib spl = bind_res (validate_splice ib spl) (\<lambda>_. Inr (splice_lists ib spl))"

definition replay_step :: "inbox_lists \<Rightarrow> session_event \<Rightarrow> inbox_error + inbox_lists" where
  "replay_step ib e = (case ev_data e of
       InboxSpliced spl \<Rightarrow>
         (case apply_splice ib spl of
            Inl x \<Rightarrow> Inl (InvalidPersisted (ev_seq e) x)
          | Inr (ib', _) \<Rightarrow> Inr ib')
     | _ \<Rightarrow> Inr ib)"

definition seed_length :: "session \<Rightarrow> nat" where
  "seed_length s = (case hdr_seed_length (ses_header s) of Some n \<Rightarrow> n | None \<Rightarrow> 0)"

definition replay_inbox :: "session \<Rightarrow> inbox_error + inbox_lists" where
  "replay_inbox s = run_fold replay_step empty_inbox (drop (seed_length s) (ses_log s))"

definition new_inbox :: "session \<Rightarrow> inbox_error + agent_inbox" where
  "new_inbox s = bind_res (replay_inbox s) (\<lambda>ib. Inr \<lparr> ai_session = s, ai_lists = ib, ai_notes = [] \<rparr>)"

section \<open>Mutations\<close>

definition trunc :: "rat \<Rightarrow> int" where
  "trunc r = (if r < 0 then \<lceil>r\<rceil> else \<lfloor>r\<rfloor>)"

definition actual_start :: "js_number \<Rightarrow> nat \<Rightarrow> nat" where
  "actual_start start len = (case start of
       NaN \<Rightarrow> 0
     | PosInf \<Rightarrow> len
     | NegInf \<Rightarrow> 0
     | Fin r \<Rightarrow> let offset = trunc r in
         if offset < 0 then nat (max (int len + offset) 0) else nat (min offset (int len)))"

definition actual_delete_count :: "js_number \<Rightarrow> nat \<Rightarrow> nat" where
  "actual_delete_count cnt rest = (case cnt of
       NaN \<Rightarrow> 0
     | PosInf \<Rightarrow> rest
     | NegInf \<Rightarrow> 0
     | Fin r \<Rightarrow> nat (min (max (trunc r) 0) (int rest)))"

definition normalise ::
  "inbox_lists \<Rightarrow> inbox_target \<Rightarrow> js_number \<Rightarrow> js_number \<Rightarrow> message list \<Rightarrow> bool \<Rightarrow> inbox_splice" where
  "normalise ib target start cnt inserted discard =
     (let len = length (list_of ib target); s = actual_start start len;
          n = actual_delete_count cnt (len - s)
      in \<lparr> spl_target = target, spl_start = int s,
           spl_removed_count = (if n = 0 then None else Some (int n)),
           spl_inserted = inserted, spl_canceled = (discard \<and> n > 0) \<rparr>)"

text \<open>
  \<open>appending\<close>, \<open>veto\<close> and \<open>now\<close> are those of the session append (\<^verbatim>\<open>append_event\<close>): a mutation from
  inside a publication is refused there, and then nothing has changed.
\<close>

definition mutate ::
  "bool \<Rightarrow> (session_event \<Rightarrow> string option) \<Rightarrow> int \<Rightarrow> agent_inbox \<Rightarrow> inbox_target \<Rightarrow> js_number
     \<Rightarrow> js_number \<Rightarrow> message list \<Rightarrow> bool \<Rightarrow> agent_inbox \<times> (inbox_error + message list)" where
  "mutate appending veto now a target start cnt inserted discard =
     (let ib = ai_lists a; spl = normalise ib target start cnt inserted discard in
      if spl_removed_count spl = None \<and> length inserted = 0 then (a, Inr [])
      else case validate_splice ib spl of
          Inl x \<Rightarrow> (a, Inl x)
        | Inr _ \<Rightarrow>
            (case append_event appending veto now (ai_session a) (InboxSpliced spl) None None False of
               (s', Inl x) \<Rightarrow> (a\<lparr> ai_session := s' \<rparr>, Inl (InboxAppendFailed x))
             | (s', Inr e) \<Rightarrow>
                 let (ib', removed) = splice_lists ib spl in
                 (a\<lparr> ai_session := s', ai_lists := ib',
                     ai_notes := ai_notes a @ (if discard then map NoteDiscarded removed else [])
                                            @ map NoteInserted inserted \<rparr>,
                  Inr removed)))"

definition splice ::
  "bool \<Rightarrow> (session_event \<Rightarrow> string option) \<Rightarrow> int \<Rightarrow> agent_inbox \<Rightarrow> inbox_target \<Rightarrow> js_number
     \<Rightarrow> js_number \<Rightarrow> message list \<Rightarrow> agent_inbox \<times> (inbox_error + message list)" where
  "splice appending veto now a target start cnt inserted =
     mutate appending veto now a target start cnt inserted True"

definition num_len :: "'a list \<Rightarrow> js_number" where
  "num_len xs = Fin (of_nat (length xs))"

definition inbox_append ::
  "bool \<Rightarrow> (session_event \<Rightarrow> string option) \<Rightarrow> int \<Rightarrow> agent_inbox \<Rightarrow> inbox_target \<Rightarrow> message
     \<Rightarrow> agent_inbox \<times> (inbox_error + message list)" where
  "inbox_append appending veto now a target m =
     splice appending veto now a target (num_len (list_of (ai_lists a) target)) (Fin 0) [m]"

definition inbox_prepend ::
  "bool \<Rightarrow> (session_event \<Rightarrow> string option) \<Rightarrow> int \<Rightarrow> agent_inbox \<Rightarrow> inbox_target \<Rightarrow> message
     \<Rightarrow> agent_inbox \<times> (inbox_error + message list)" where
  "inbox_prepend appending veto now a target m = splice appending veto now a target (Fin 0) (Fin 0) [m]"

definition locate :: "inbox_lists \<Rightarrow> message_id \<Rightarrow> (inbox_target \<times> nat) option" where
  "locate ib i =
     (case index_of i (map message_id (ib_next_turn ib)) of
        Some k \<Rightarrow> Some (NextTurn, k)
      | None \<Rightarrow> (case index_of i (map message_id (ib_next_step ib)) of
          Some k \<Rightarrow> Some (NextStep, k)
        | None \<Rightarrow> None))"

definition replace_pending ::
  "bool \<Rightarrow> (session_event \<Rightarrow> string option) \<Rightarrow> int \<Rightarrow> agent_inbox \<Rightarrow> message_id \<Rightarrow> message
     \<Rightarrow> agent_inbox \<times> (inbox_error + bool)" where
  "replace_pending appending veto now a i m =
     (case locate (ai_lists a) i of
        None \<Rightarrow> (a, Inr False)
      | Some (t, k) \<Rightarrow>
          (case splice appending veto now a t (Fin (of_nat k)) (Fin 1) [m] of
             (a', Inl x) \<Rightarrow> (a', Inl x)
           | (a', Inr _) \<Rightarrow> (a', Inr True)))"

definition remove_pending ::
  "bool \<Rightarrow> (session_event \<Rightarrow> string option) \<Rightarrow> int \<Rightarrow> agent_inbox \<Rightarrow> message_id
     \<Rightarrow> agent_inbox \<times> (inbox_error + bool)" where
  "remove_pending appending veto now a i =
     (case locate (ai_lists a) i of
        None \<Rightarrow> (a, Inr False)
      | Some (t, k) \<Rightarrow>
          (case splice appending veto now a t (Fin (of_nat k)) (Fin 1) [] of
             (a', Inl x) \<Rightarrow> (a', Inl x)
           | (a', Inr _) \<Rightarrow> (a', Inr True)))"

definition clear_inbox ::
  "bool \<Rightarrow> (session_event \<Rightarrow> string option) \<Rightarrow> int \<Rightarrow> agent_inbox \<Rightarrow> agent_inbox \<times> (inbox_error + unit)" where
  "clear_inbox appending veto now a =
     (case splice appending veto now a NextStep (Fin 0) (num_len (ib_next_step (ai_lists a))) [] of
        (a1, Inl x) \<Rightarrow> (a1, Inl x)
      | (a1, Inr _) \<Rightarrow>
          (case splice appending veto now a1 NextTurn (Fin 0) (num_len (ib_next_turn (ai_lists a1))) [] of
             (a2, Inl x) \<Rightarrow> (a2, Inl x)
           | (a2, Inr _) \<Rightarrow> (a2, Inr ())))"

definition claim ::
  "bool \<Rightarrow> (session_event \<Rightarrow> string option) \<Rightarrow> int \<Rightarrow> agent_inbox \<Rightarrow> inbox_target \<Rightarrow> int
     \<Rightarrow> agent_inbox \<times> (inbox_error + message list)" where
  "claim appending veto now a target turn =
     (case mutate appending veto now a NextStep (Fin 0) (num_len (ib_next_step (ai_lists a))) [] False of
        (a1, Inl x) \<Rightarrow> (a1, Inl x)
      | (a1, Inr steps) \<Rightarrow>
          (case (if target = NextTurn then mutate appending veto now a1 NextTurn (Fin 0) (Fin 1) [] False
                 else (a1, Inr [])) of
             (a2, Inl x) \<Rightarrow> (a2, Inl x)
           | (a2, Inr turns) \<Rightarrow>
               let claimed = steps @ turns in
               (a2\<lparr> ai_notes := ai_notes a2 @ map (\<lambda>m. NoteClaimed m turn) claimed \<rparr>, Inr claimed)))"

section \<open>Validation and splicing\<close>

definition pending_ids :: "inbox_lists \<Rightarrow> message_id list" where
  "pending_ids ib = map message_id (ib_next_turn ib @ ib_next_step ib)"

lemma first_duplicate_None: "first_duplicate seen is = None \<longleftrightarrow> distinct is \<and> set is \<inter> set seen = {}"
  by (induction "is" arbitrary: seen) auto

lemma list_of_set_list [simp]:
  "list_of (set_list t ms ib) t = ms" "t \<noteq> t' \<Longrightarrow> list_of (set_list t ms ib) t' = list_of ib t'"
  by (cases t; cases t'; simp add: list_of_def set_list_def)+

lemma validate_splice_distinct:
  assumes "validate_splice ib spl = Inr ()"
  shows "distinct (pending_ids (fst (splice_lists ib spl)))"
  using assms
  by (cases "spl_target spl")
     (auto simp: validate_splice_def splice_lists_def pending_ids_def Let_def first_duplicate_None
       set_list_def list_of_def split: if_splits option.splits)

lemma actual_start_le: "actual_start start len \<le> len"
  by (auto simp: actual_start_def Let_def split: js_number.split)

lemma actual_delete_count_le: "actual_delete_count cnt rest \<le> rest"
  by (auto simp: actual_delete_count_def split: js_number.split)

lemma trunc_of_nat [simp]: "trunc (of_nat n) = int n" "trunc 0 = 0" "trunc 1 = 1"
  by (simp_all add: trunc_def)

lemma apply_after_validate:
  "validate_splice ib spl = Inr () \<Longrightarrow> apply_splice ib spl = Inr (splice_lists ib spl)"
  by (simp add: apply_splice_def)

text \<open>What one mutation does: refused before or by the append, a no-op, or one committed event.\<close>

lemma mutate_cases:
  assumes "mutate appending veto now a target start cnt inserted discard = (a', r)"
  obtains (noop) "a' = a" "r = Inr []"
      "spl_removed_count (normalise (ai_lists a) target start cnt inserted discard) = None" "inserted = []"
    | (invalid) x where "a' = a" "r = Inl x"
    | (refused) s' x where "a' = a\<lparr> ai_session := s' \<rparr>" "r = Inl (InboxAppendFailed x)"
        "append_event appending veto now (ai_session a)
           (InboxSpliced (normalise (ai_lists a) target start cnt inserted discard)) None None False = (s', Inl x)"
    | (spliced) s' e spl where "spl = normalise (ai_lists a) target start cnt inserted discard"
        "\<not> (spl_removed_count spl = None \<and> inserted = [])"
        "validate_splice (ai_lists a) spl = Inr ()"
        "append_event appending veto now (ai_session a) (InboxSpliced spl) None None False = (s', Inr e)"
        "r = Inr (snd (splice_lists (ai_lists a) spl))"
        "a' = a\<lparr> ai_session := s', ai_lists := fst (splice_lists (ai_lists a) spl),
                 ai_notes := ai_notes a
                   @ (if discard then map NoteDiscarded (snd (splice_lists (ai_lists a) spl)) else [])
                   @ map NoteInserted inserted \<rparr>"
proof -
  let ?spl = "normalise (ai_lists a) target start cnt inserted discard"
  show thesis
  proof (cases "spl_removed_count ?spl = None \<and> length inserted = 0")
    case True
    with assms noop show thesis by (auto simp: mutate_def Let_def)
  next
    case False
    note busy = False
    show thesis
    proof (cases "validate_splice (ai_lists a) ?spl")
      case (Inl x)
      with assms busy invalid show thesis by (auto simp: mutate_def Let_def)
    next
      case (Inr u)
      obtain s' q where ap: "append_event appending veto now (ai_session a) (InboxSpliced ?spl) None None False = (s', q)"
        by fastforce
      show thesis
      proof (cases q)
        case (Inl x)
        with assms busy Inr ap refused show thesis by (auto simp: mutate_def Let_def)
      next
        case Inr': (Inr e)
        obtain ib' removed where sp: "splice_lists (ai_lists a) ?spl = (ib', removed)" by fastforce
        from assms busy Inr ap Inr' sp have "r = Inr removed"
          "a' = a\<lparr> ai_session := s', ai_lists := ib',
                   ai_notes := ai_notes a @ (if discard then map NoteDiscarded removed else [])
                     @ map NoteInserted inserted \<rparr>"
          by (auto simp: mutate_def Let_def)
        then show thesis
          by (intro spliced [of ?spl s' e]; use busy Inr ap Inr' sp in \<open>cases discard; simp\<close>)
      qed
    qed
  qed
qed

section \<open>The live lists are the replay\<close>

definition inbox_ok :: "agent_inbox \<Rightarrow> bool" where
  "inbox_ok a \<longleftrightarrow> replay_inbox (ai_session a) = Inr (ai_lists a) \<and> distinct (pending_ids (ai_lists a))
     \<and> seed_length (ai_session a) \<le> length (ses_log (ai_session a))"

definition ids_distinct :: "session_event list \<Rightarrow> inbox_lists \<Rightarrow> bool" where
  "ids_distinct evs ib = distinct (pending_ids ib)"

lemma replay_step_distinct:
  "distinct (pending_ids ib) \<Longrightarrow> replay_step ib e = Inr ib' \<Longrightarrow> distinct (pending_ids ib')"
  using validate_splice_distinct
  by (auto simp: replay_step_def apply_splice_def bind_res_def
      split: event_data.splits sum.splits prod.splits) (metis fst_conv old.unit.exhaust)

interpretation replay: fold_invariant replay_step empty_inbox ids_distinct
proof unfold_locales
  show "ids_distinct [] empty_inbox" by (simp add: ids_distinct_def pending_ids_def empty_inbox_def)
  show "ids_distinct (es @ [e]) s'" if "ids_distinct es s" "replay_step s e = Inr s'" for es e s s'
    using replay_step_distinct that by (simp add: ids_distinct_def)
qed

lemma replay_inbox_distinct: "replay_inbox s = Inr ib \<Longrightarrow> distinct (pending_ids ib)"
  using replay.run_inv by (auto simp: replay_inbox_def ids_distinct_def)

lemma inbox_ok_same_log:
  "inbox_ok a \<Longrightarrow> inbox_ok (a\<lparr> ai_session := (ai_session a)\<lparr> ses_manager := m \<rparr> \<rparr>)"
  by (simp add: inbox_ok_def replay_inbox_def seed_length_def)

lemma replay_push:
  assumes "replay_inbox s = Inr ib" and "seed_length s \<le> length (ses_log s)"
  shows "replay_inbox (s\<lparr> ses_manager := m, ses_log := ses_log s @ [e] \<rparr>) = replay_step ib e"
  using assms by (simp add: replay_inbox_def seed_length_def run_fold_snoc)

lemma append_event_inbox:
  assumes ok: "inbox_ok a" and "append_event appending veto now (ai_session a) d op srcs ign = (s', r)"
  shows "case r of
      Inl _ \<Rightarrow> inbox_ok (a\<lparr> ai_session := s' \<rparr>)
    | Inr e \<Rightarrow> ev_data e = d \<and> replay_inbox s' = replay_step (ai_lists a) e
        \<and> seed_length s' \<le> length (ses_log s')"
  using assms(2)
proof (cases rule: append_event_cases)
  case (refused m x)
  with inbox_ok_same_log [OF ok] show ?thesis by simp
next
  case (logged m e)
  have "replay_inbox (ai_session a) = Inr (ai_lists a)"
    "seed_length (ai_session a) \<le> length (ses_log (ai_session a))"
    using ok by (simp_all add: inbox_ok_def)
  with logged replay_push show ?thesis by (simp add: make_event_def seed_length_def)
qed

lemma mutate_ok:
  assumes ok: "inbox_ok a" and m: "mutate appending veto now a target start cnt inserted discard = (a', r)"
  shows "inbox_ok a'"
  using m
proof (cases rule: mutate_cases)
  case noop
  with ok show ?thesis by simp
next
  case (invalid x)
  with ok show ?thesis by simp
next
  case (refused s' x)
  from append_event_inbox [OF ok refused(3)] refused(1) show ?thesis by simp
next
  case (spliced s' e spl)
  note ap = append_event_inbox [OF ok spliced(4)]
  have "replay_step (ai_lists a) e = Inr (fst (splice_lists (ai_lists a) spl))"
    using ap apply_after_validate [OF spliced(3)]
    by (simp add: replay_step_def split_beta)
  with ap spliced(3,6) validate_splice_distinct show ?thesis by (simp add: inbox_ok_def)
qed

lemmas splice_ok = mutate_ok [where discard = True, folded splice_def]

lemma inbox_append_ok: "inbox_ok a \<Longrightarrow> inbox_ok (fst (inbox_append appending veto now a t m))"
  using splice_ok by (metis inbox_append_def prod.collapse)

lemma inbox_prepend_ok: "inbox_ok a \<Longrightarrow> inbox_ok (fst (inbox_prepend appending veto now a t m))"
  using splice_ok by (metis inbox_prepend_def prod.collapse)

lemma replace_pending_ok: "inbox_ok a \<Longrightarrow> inbox_ok (fst (replace_pending appending veto now a i m))"
  using splice_ok by (auto simp: replace_pending_def split: option.split prod.split sum.split)

lemma remove_pending_ok: "inbox_ok a \<Longrightarrow> inbox_ok (fst (remove_pending appending veto now a i))"
  using splice_ok by (auto simp: remove_pending_def split: option.split prod.split sum.split)

lemma clear_inbox_ok: "inbox_ok a \<Longrightarrow> inbox_ok (fst (clear_inbox appending veto now a))"
  using splice_ok by (auto simp: clear_inbox_def split: prod.split sum.split) blast+

lemma inbox_ok_notes: "inbox_ok a \<Longrightarrow> inbox_ok (a\<lparr> ai_notes := ns \<rparr>)"
  by (simp add: inbox_ok_def)

lemma claim_ok:
  assumes ok: "inbox_ok a"
  shows "inbox_ok (fst (claim appending veto now a target turn))"
proof -
  obtain a1 r1 where m1: "mutate appending veto now a NextStep (Fin 0) (num_len (ib_next_step (ai_lists a))) [] False
      = (a1, r1)" by fastforce
  obtain a2 r2 where m2: "(if target = NextTurn then mutate appending veto now a1 NextTurn (Fin 0) (Fin 1) [] False
      else (a1, Inr [])) = (a2, r2)" by fastforce
  have ok1: "inbox_ok a1" by (rule mutate_ok [OF ok m1])
  then have "inbox_ok a2" using m2 mutate_ok by (cases "target = NextTurn") auto
  with ok1 m1 m2 show ?thesis
    by (cases r1; cases r2) (auto simp: claim_def inbox_ok_notes Let_def)
qed

inductive inbox_run :: "agent_inbox \<Rightarrow> bool" where
  opened: "new_inbox s = Inr a \<Longrightarrow> seed_length s \<le> length (ses_log s) \<Longrightarrow> inbox_run a"
| spliced: "inbox_run a \<Longrightarrow> inbox_run (fst (splice appending veto now a t start cnt ms))"
| appended: "inbox_run a \<Longrightarrow> inbox_run (fst (inbox_append appending veto now a t m))"
| prepended: "inbox_run a \<Longrightarrow> inbox_run (fst (inbox_prepend appending veto now a t m))"
| replaced: "inbox_run a \<Longrightarrow> inbox_run (fst (replace_pending appending veto now a i m))"
| removed: "inbox_run a \<Longrightarrow> inbox_run (fst (remove_pending appending veto now a i))"
| cleared: "inbox_run a \<Longrightarrow> inbox_run (fst (clear_inbox appending veto now a))"
| claimed: "inbox_run a \<Longrightarrow> inbox_run (fst (claim appending veto now a t turn))"
| logged: "inbox_run a \<Longrightarrow> (\<And>spl. d \<noteq> InboxSpliced spl) \<Longrightarrow>
    inbox_run (a\<lparr> ai_session := fst (append_event appending veto now (ai_session a) d op srcs ign) \<rparr>)"

lemma inbox_run_ok: "inbox_run a \<Longrightarrow> inbox_ok a"
proof (induction rule: inbox_run.induct)
  case (opened s a)
  then show ?case using replay_inbox_distinct by (auto simp: new_inbox_def inbox_ok_def)
next
  case (spliced a appending veto now t start cnt ms)
  then show ?case using splice_ok by (metis prod.collapse)
next
  case (logged a d appending veto now op srcs ign)
  obtain s' r where ap: "append_event appending veto now (ai_session a) d op srcs ign = (s', r)" by fastforce
  show ?case
  proof (cases r)
    case (Inl x)
    with append_event_inbox [OF logged.IH ap] ap show ?thesis by simp
  next
    case (Inr e)
    with append_event_inbox [OF logged.IH ap] have e: "ev_data e = d" "replay_inbox s' = replay_step (ai_lists a) e"
      "seed_length s' \<le> length (ses_log s')" by simp_all
    have "replay_step (ai_lists a) e = Inr (ai_lists a)"
      using logged.hyps(2) e(1) by (simp add: replay_step_def split: event_data.split)
    with e logged.IH ap show ?thesis by (simp add: inbox_ok_def)
  qed
qed (simp_all add: inbox_append_ok inbox_prepend_ok replace_pending_ok remove_pending_ok clear_inbox_ok claim_ok)

section \<open>Properties\<close>

lemma splice_lists_normalise:
  "splice_lists ib (normalise ib t start cnt ms discard)
     = (let len = length (list_of ib t); s = actual_start start len; n = actual_delete_count cnt (len - s)
        in (set_list t (list_splice s n ms (list_of ib t)) ib, take n (drop s (list_of ib t))))"
  by (simp add: splice_lists_def normalise_def removed_of_def Let_def)

definition sample_inbox :: agent_inbox where
  "sample_inbox = (let a0 = \<lparr> ai_session = fresh_session sample_header [] (new_surface_manager 0),
       ai_lists = empty_inbox, ai_notes = [] \<rparr>;
     a1 = fst (inbox_append False (\<lambda>_. None) 1 a0 NextTurn (sample_user ''m1''));
     a2 = fst (inbox_append False (\<lambda>_. None) 2 a1 NextTurn (sample_user ''m2''))
     in fst (inbox_append False (\<lambda>_. None) 3 a2 NextStep (sample_user ''m3'')))"

lemma sample_inbox_run: "inbox_run sample_inbox"
proof -
  let ?s = "fresh_session sample_header [] (new_surface_manager 0)"
  have "new_inbox ?s = Inr \<lparr> ai_session = ?s, ai_lists = empty_inbox, ai_notes = [] \<rparr>"
    by (simp add: new_inbox_def replay_inbox_def fresh_session_def)
  moreover have "seed_length ?s \<le> length (ses_log ?s)"
    by (simp add: seed_length_def fresh_session_def sample_header_def default_header_def)
  ultimately show ?thesis
    unfolding sample_inbox_def Let_def by (intro inbox_run.appended) (rule inbox_run.opened)
qed

text \<open>
  C15: the live lists are a projection of the log. After any sequence of inbox operations, refused
  ones included, and of other appends to the session, replaying the splice events of the log gives
  the two pending lists the agent holds, and no message identity is pending twice.
\<close>

theorem inbox_live_is_replay:
  assumes "inbox_run a"
  shows "replay_inbox (ai_session a) = Inr (ai_lists a)
    \<and> distinct (map message_id (ib_next_turn (ai_lists a) @ ib_next_step (ai_lists a)))"
  using inbox_run_ok [OF assms] by (simp add: inbox_ok_def pending_ids_def)

theorem inbox_live_is_replay_witness:
  "replay_inbox (ai_session sample_inbox) = Inr (ai_lists sample_inbox)
   \<and> length (ses_log (ai_session sample_inbox)) = 3"
proof -
  have "length (ses_log (ai_session sample_inbox)) = 3" by code_simp
  with inbox_live_is_replay [OF sample_inbox_run] show ?thesis by blast
qed

text \<open>
  A splice is atomic and means what a JavaScript splice means. When it is refused, the lists,
  the notifications and the log are as before; otherwise exactly the resolved range is replaced in
  the one list named, the removed messages are returned and published as discarded, the inserted
  ones as inserted, and the log has grown by at most one event.
\<close>

theorem splice_atomic:
  assumes "splice appending veto now a t start cnt ms = (a', r)"
  shows "case r of
      Inl _ \<Rightarrow> ai_lists a' = ai_lists a \<and> ai_notes a' = ai_notes a
        \<and> ses_log (ai_session a') = ses_log (ai_session a)
    | Inr removed \<Rightarrow>
        let xs = list_of (ai_lists a) t; s = actual_start start (length xs);
            n = actual_delete_count cnt (length xs - s) in
        removed = take n (drop s xs) \<and> list_of (ai_lists a') t = take s xs @ ms @ drop (s + n) xs
        \<and> (\<forall>t'. t' \<noteq> t \<longrightarrow> list_of (ai_lists a') t' = list_of (ai_lists a) t')
        \<and> ai_notes a' = ai_notes a @ map NoteDiscarded removed @ map NoteInserted ms
        \<and> length (ses_log (ai_session a')) = length (ses_log (ai_session a)) + (if n = 0 \<and> ms = [] then 0 else 1)"
  using assms unfolding splice_def
proof (cases rule: mutate_cases)
  case noop
  then show ?thesis by (simp add: normalise_def Let_def split: if_splits)
next
  case (invalid x)
  then show ?thesis by simp
next
  case (refused s' x)
  from refused(3) have "ses_log s' = ses_log (ai_session a)" by (cases rule: append_event_cases) simp_all
  with refused show ?thesis by simp
next
  case (spliced s' e spl)
  let ?xs = "list_of (ai_lists a) t"
  let ?s = "actual_start start (length ?xs)"
  let ?n = "actual_delete_count cnt (length ?xs - ?s)"
  have log: "ses_log s' = ses_log (ai_session a) @ [e]"
    using spliced(4) by (cases rule: append_event_cases) simp_all
  have sp: "splice_lists (ai_lists a) spl
      = (set_list t (list_splice ?s ?n ms ?xs) (ai_lists a), take ?n (drop ?s ?xs))"
    using splice_lists_normalise [of "ai_lists a" t start cnt ms True] spliced(1) by (simp add: Let_def)
  have busy: "\<not> (?n = 0 \<and> ms = [])"
    using spliced(1,2) by (auto simp: normalise_def Let_def split: if_splits)
  show ?thesis using spliced(5,6) sp log busy by (simp add: Let_def list_splice_def)
qed

theorem splice_atomic_witness:
  "map message_id (ib_next_turn (ai_lists (fst (splice False (\<lambda>_. None) 9 sample_inbox NextTurn (Fin (-1)) PosInf
     [sample_user ''m4''])))) = [''m1'', ''m4'']"
proof -
  obtain a' r where sp: "splice False (\<lambda>_. None) 9 sample_inbox NextTurn (Fin (-1)) PosInf [sample_user ''m4''] = (a', r)"
    by fastforce
  have "is_ok (snd (splice False (\<lambda>_. None) 9 sample_inbox NextTurn (Fin (-1)) PosInf [sample_user ''m4'']))"
    "list_of (ai_lists sample_inbox) NextTurn = [sample_user ''m1'', sample_user ''m2'']"
    "actual_start (Fin (-1)) (length (list_of (ai_lists sample_inbox) NextTurn)) = 1"
    "actual_delete_count PosInf (length (list_of (ai_lists sample_inbox) NextTurn) - 1) = 1" by code_simp+
  with splice_atomic [OF sp] sp
  have "list_of (ai_lists a') NextTurn = [sample_user ''m1'', sample_user ''m4'']"
    unfolding Let_def by (auto simp: is_ok_iff)
  with sp show ?thesis by (simp add: list_of_def sample_user_def create_user_message_def)
qed

text \<open>
  A claim takes the whole step input and, at a turn boundary, exactly one queued turn, in that
  order, and publishes each message as claimed and none as discarded.
\<close>

theorem claim_takes_batch:
  assumes "claim appending veto now a target turn = (a', Inr ms)"
  shows "ms = ib_next_step (ai_lists a) @ (if target = NextTurn then take 1 (ib_next_turn (ai_lists a)) else [])
    \<and> ib_next_step (ai_lists a') = []
    \<and> ib_next_turn (ai_lists a') = (if target = NextTurn then drop 1 (ib_next_turn (ai_lists a)) else ib_next_turn (ai_lists a))
    \<and> ai_notes a' = ai_notes a @ map (\<lambda>m. NoteClaimed m turn) ms"
proof -
  let ?len = "num_len (ib_next_step (ai_lists a))"
  obtain a1 r1 where m1: "mutate appending veto now a NextStep (Fin 0) ?len [] False = (a1, r1)" by fastforce
  obtain a2 r2 where m2: "(if target = NextTurn then mutate appending veto now a1 NextTurn (Fin 0) (Fin 1) [] False
      else (a1, Inr [])) = (a2, r2)" by fastforce
  from assms m1 m2 obtain steps turns where r: "r1 = Inr steps" "r2 = Inr turns" "ms = steps @ turns"
    "a' = a2\<lparr> ai_notes := ai_notes a2 @ map (\<lambda>m. NoteClaimed m turn) ms \<rparr>"
    by (auto simp: claim_def Let_def split: sum.splits prod.splits)
  have one: "steps = ib_next_step (ai_lists a) \<and> ib_next_step (ai_lists a1) = []
      \<and> ib_next_turn (ai_lists a1) = ib_next_turn (ai_lists a) \<and> ai_notes a1 = ai_notes a"
    using m1
  proof (cases rule: mutate_cases)
    case noop
    then have "ib_next_step (ai_lists a) = []"
      by (simp add: normalise_def Let_def list_of_def num_len_def actual_start_def actual_delete_count_def
          split: if_splits)
    with noop r show ?thesis by simp
  next
    case (spliced s' e spl)
    with r show ?thesis
      using splice_lists_normalise [of "ai_lists a" NextStep "Fin 0" ?len "[]" False]
      by (simp add: Let_def list_of_def num_len_def actual_start_def actual_delete_count_def set_list_def
          list_splice_def)
  qed (use r in simp_all)
  have two: "turns = (if target = NextTurn then take 1 (ib_next_turn (ai_lists a1)) else [])
      \<and> ib_next_step (ai_lists a2) = ib_next_step (ai_lists a1)
      \<and> ib_next_turn (ai_lists a2) = (if target = NextTurn then drop 1 (ib_next_turn (ai_lists a1)) else ib_next_turn (ai_lists a1))
      \<and> ai_notes a2 = ai_notes a1"
  proof (cases "target = NextTurn")
    case False
    with m2 r show ?thesis by simp
  next
    case True
    with m2 have "mutate appending veto now a1 NextTurn (Fin 0) (Fin 1) [] False = (a2, r2)" by simp
    then show ?thesis
    proof (cases rule: mutate_cases)
      case noop
      then have "ib_next_turn (ai_lists a1) = []"
        by (cases "ib_next_turn (ai_lists a1)")
           (simp_all add: normalise_def Let_def list_of_def actual_start_def actual_delete_count_def
             split: if_splits)
      with noop r True show ?thesis by simp
    next
      case (spliced s' e spl)
      with r True show ?thesis
        using splice_lists_normalise [of "ai_lists a1" NextTurn "Fin 0" "Fin 1" "[]" False]
        by (cases "ib_next_turn (ai_lists a1)")
           (simp_all add: Let_def list_of_def actual_start_def actual_delete_count_def set_list_def
             list_splice_def)
    qed (use r in simp_all)
  qed
  from one two r show ?thesis by simp
qed

theorem claim_takes_batch_witness:
  "ib_next_turn (ai_lists (fst (claim False (\<lambda>_. None) 9 sample_inbox NextTurn 1))) = [sample_user ''m2'']"
proof -
  have "is_ok (snd (claim False (\<lambda>_. None) 9 sample_inbox NextTurn 1))"
    "ib_next_turn (ai_lists sample_inbox) = [sample_user ''m1'', sample_user ''m2'']" by code_simp+
  then obtain a' ms where "claim False (\<lambda>_. None) 9 sample_inbox NextTurn 1 = (a', Inr ms)"
    by (cases "claim False (\<lambda>_. None) 9 sample_inbox NextTurn 1") (auto simp: is_ok_iff)
  with claim_takes_batch [OF this] \<open>ib_next_turn _ = _\<close> show ?thesis by simp
qed

end
