(* ===== verification/Consumed_Work.thy ===== *)
theory Consumed_Work
  imports Trace
begin

text \<open>
  The account of consumed work, \<^verbatim>\<open>packages/core/agent/src/consumed-work.ts\<close>: one pass over a log that
  finds the latest turn accounting for the work it took, and whether accepted input was cancelled
  unrun after it. The lemmas relate the single pass to a declarative reading of a log that passes the
  relational checks, where every turn number occurs once.
\<close>

section \<open>The fold\<close>

record consumed_work =
  cw_end :: "session_event option"
  cw_dropped_unrun :: bool

fun accounts_for_claim :: "turn_end_reason \<Rightarrow> bool" where
  "accounts_for_claim EndCompleted = False"
| "accounts_for_claim _ = True"

record work_fold =
  wf_stepped :: "int set"
  wf_claimed :: "int set"
  wf_open :: "int option"
  wf_end :: "session_event option"
  wf_dropped :: bool

definition start_work :: work_fold where
  "start_work = \<lparr> wf_stepped = {}, wf_claimed = {}, wf_open = None, wf_end = None, wf_dropped = False \<rparr>"

definition work_step :: "work_fold \<Rightarrow> session_event \<Rightarrow> work_fold" where
  "work_step st e = (case ev_data e of
       TurnStart t \<Rightarrow> st\<lparr> wf_open := Some t \<rparr>
     | StepStart t _ \<Rightarrow> st\<lparr> wf_stepped := insert t (wf_stepped st) \<rparr>
     | InboxSpliced spl \<Rightarrow>
         if spl_removed_count spl = None then st
         else if spl_canceled spl then
           st\<lparr> wf_dropped := (wf_dropped st \<or> length (spl_inserted spl) = 0) \<rparr>
         else (case wf_open st of Some t \<Rightarrow> st\<lparr> wf_claimed := insert t (wf_claimed st) \<rparr> | None \<Rightarrow> st)
     | TurnEnd t reason \<Rightarrow>
         let stepped = (t \<in> wf_stepped st);
             claimed = (t \<in> wf_claimed st);
             st1 = st\<lparr> wf_open := None, wf_stepped := wf_stepped st - {t} \<rparr>;
             st2 = (if stepped then st1 else st1\<lparr> wf_claimed := wf_claimed st1 - {t} \<rparr>)
         in if stepped \<or> claimed \<and> accounts_for_claim reason
            then st2\<lparr> wf_end := Some e, wf_dropped := False \<rparr> else st2
     | _ \<Rightarrow> st)"

definition fold_consumed_work :: "session_event list \<Rightarrow> consumed_work" where
  "fold_consumed_work evs =
     (let st = foldl work_step start_work evs in \<lparr> cw_end = wf_end st, cw_dropped_unrun = wf_dropped st \<rparr>)"

section \<open>A declarative reading\<close>

definition takes_input :: "session_event \<Rightarrow> bool" where
  "takes_input e = (case ev_data e of
     InboxSpliced spl \<Rightarrow> spl_removed_count spl \<noteq> None \<and> \<not> spl_canceled spl | _ \<Rightarrow> False)"

definition drops_input :: "session_event \<Rightarrow> bool" where
  "drops_input e = (case ev_data e of
     InboxSpliced spl \<Rightarrow> spl_removed_count spl \<noteq> None \<and> spl_canceled spl \<and> spl_inserted spl = [] | _ \<Rightarrow> False)"

definition enters_step :: "int \<Rightarrow> session_event \<Rightarrow> bool" where
  "enters_step t e = (case ev_data e of StepStart u _ \<Rightarrow> u = t | _ \<Rightarrow> False)"

text \<open>The turn a prefix of the log leaves open, read off its last turn boundary.\<close>

definition open_turn_of :: "session_event list \<Rightarrow> int option" where
  "open_turn_of evs = foldl (\<lambda>o' e. case ev_data e of TurnStart t \<Rightarrow> Some t | TurnEnd _ _ \<Rightarrow> None | _ \<Rightarrow> o') None evs"

definition claimed_in :: "int \<Rightarrow> session_event list \<Rightarrow> bool" where
  "claimed_in t evs \<longleftrightarrow> (\<exists>xs e ys. evs = xs @ e # ys \<and> takes_input e \<and> open_turn_of xs = Some t)"

text \<open>
  The turn that \<open>e\<close> ends accounts for work when it entered a step, or when it took input and did not
  end as completed; \<open>xs\<close> is the log before \<open>e\<close>.
\<close>

definition accounts :: "session_event list \<Rightarrow> session_event \<Rightarrow> bool" where
  "accounts xs e \<longleftrightarrow> (\<exists>t reason. ev_data e = TurnEnd t reason
     \<and> ((\<exists>x \<in> set xs. enters_step t x) \<or> claimed_in t xs \<and> accounts_for_claim reason))"

definition is_account :: "session_event list \<Rightarrow> consumed_work \<Rightarrow> bool" where
  "is_account evs w \<longleftrightarrow> (case cw_end w of
       None \<Rightarrow> (\<forall>xs e ys. evs = xs @ e # ys \<longrightarrow> \<not> accounts xs e)
         \<and> (cw_dropped_unrun w \<longleftrightarrow> (\<exists>e \<in> set evs. drops_input e))
     | Some e \<Rightarrow> \<exists>xs ys. evs = xs @ e # ys \<and> accounts xs e
         \<and> (\<forall>as a bs. ys = as @ a # bs \<longrightarrow> \<not> accounts (xs @ e # as) a)
         \<and> (cw_dropped_unrun w \<longleftrightarrow> (\<exists>y \<in> set ys. drops_input y)))"

section \<open>The pass computes it\<close>

definition ended :: "int \<Rightarrow> session_event list \<Rightarrow> bool" where
  "ended t evs \<longleftrightarrow> t \<in> set (turn_ends evs)"

definition work_inv :: "session_event list \<Rightarrow> work_fold \<Rightarrow> bool" where
  "work_inv evs st \<longleftrightarrow> wf_open st = open_turn_of evs
     \<and> (\<forall>t. \<not> ended t evs \<longrightarrow> (t \<in> wf_stepped st \<longleftrightarrow> (\<exists>x \<in> set evs. enters_step t x)))
     \<and> (\<forall>t. \<not> ended t evs \<longrightarrow> (t \<in> wf_claimed st \<longleftrightarrow> claimed_in t evs))
     \<and> is_account evs \<lparr> cw_end = wf_end st, cw_dropped_unrun = wf_dropped st \<rparr>"

lemma claimed_in_snoc:
  "claimed_in t (evs @ [e]) \<longleftrightarrow> claimed_in t evs \<or> takes_input e \<and> open_turn_of evs = Some t"
proof
  assume "claimed_in t (evs @ [e])"
  then obtain xs x ys where s: "evs @ [e] = xs @ x # ys" "takes_input x" "open_turn_of xs = Some t"
    by (auto simp: claimed_in_def)
  show "claimed_in t evs \<or> takes_input e \<and> open_turn_of evs = Some t"
  proof (cases ys rule: rev_cases)
    case Nil
    with s show ?thesis by simp
  next
    case (snoc zs z)
    with s(1) have "evs = xs @ x # zs" by simp
    with s(2,3) show ?thesis unfolding claimed_in_def by blast
  qed
next
  assume "claimed_in t evs \<or> takes_input e \<and> open_turn_of evs = Some t"
  then show "claimed_in t (evs @ [e])"
  proof
    assume "claimed_in t evs"
    then obtain xs x ys where "evs = xs @ x # ys" "takes_input x" "open_turn_of xs = Some t"
      by (auto simp: claimed_in_def)
    then have "evs @ [e] = xs @ x # (ys @ [e])" by simp
    with \<open>takes_input x\<close> \<open>open_turn_of xs = Some t\<close> show ?thesis unfolding claimed_in_def by blast
  next
    assume "takes_input e \<and> open_turn_of evs = Some t"
    then show ?thesis unfolding claimed_in_def by blast
  qed
qed

lemma open_turn_of_snoc:
  "open_turn_of (evs @ [e]) = (case ev_data e of TurnStart t \<Rightarrow> Some t | TurnEnd _ _ \<Rightarrow> None | _ \<Rightarrow> open_turn_of evs)"
  by (simp add: open_turn_of_def split: event_data.split)

lemma ended_snoc:
  "ended t (evs @ [e]) \<longleftrightarrow> ended t evs \<or> (\<exists>r. ev_data e = TurnEnd t r)"
  by (auto simp: ended_def turn_ends_def map_filter_snoc split: event_data.splits)

lemma snoc_split: "evs @ [e] = xs @ x # ys \<longleftrightarrow> (ys = [] \<and> evs = xs \<and> e = x) \<or> (\<exists>zs. ys = zs @ [e] \<and> evs = xs @ x # zs)"
  by (cases ys rule: rev_cases) auto

lemma is_account_keep:
  assumes a: "is_account evs w" and "\<not> accounts evs e"
    and d: "cw_dropped_unrun w' = (cw_dropped_unrun w \<or> drops_input e)" "cw_end w' = cw_end w"
  shows "is_account (evs @ [e]) w'"
proof (cases "cw_end w")
  case None
  then have "\<forall>xs x ys. evs @ [e] = xs @ x # ys \<longrightarrow> \<not> accounts xs x"
    using a assms(2) by (auto simp: is_account_def snoc_split)
  with None a d show ?thesis by (auto simp: is_account_def)
next
  case (Some x)
  with a obtain xs ys where s: "evs = xs @ x # ys" "accounts xs x"
    "\<forall>as z bs. ys = as @ z # bs \<longrightarrow> \<not> accounts (xs @ x # as) z"
    "cw_dropped_unrun w \<longleftrightarrow> (\<exists>y \<in> set ys. drops_input y)"
    by (auto simp: is_account_def)
  have "evs @ [e] = xs @ x # (ys @ [e])" using s(1) by simp
  moreover have "\<forall>as z bs. ys @ [e] = as @ z # bs \<longrightarrow> \<not> accounts (xs @ x # as) z"
    using s(1,3) assms(2) by (auto simp: snoc_split)
  moreover have "cw_dropped_unrun w' \<longleftrightarrow> (\<exists>y \<in> set (ys @ [e]). drops_input y)" using s(4) d by auto
  ultimately have "\<exists>xs ys. evs @ [e] = xs @ x # ys \<and> accounts xs x
      \<and> (\<forall>as z bs. ys = as @ z # bs \<longrightarrow> \<not> accounts (xs @ x # as) z)
      \<and> (cw_dropped_unrun w' \<longleftrightarrow> (\<exists>y \<in> set ys. drops_input y))"
    using s(2) by blast
  then show ?thesis using Some d(2) by (simp add: is_account_def)
qed

lemma is_account_new:
  assumes "accounts evs e"
  shows "is_account (evs @ [e]) \<lparr> cw_end = Some e, cw_dropped_unrun = False \<rparr>"
proof -
  have "evs @ [e] = evs @ e # []" by simp
  with assms show ?thesis unfolding is_account_def by fastforce
qed

lemma work_inv_step:
  assumes inv: "work_inv evs st" and fresh: "\<And>t r. ev_data e = TurnEnd t r \<Longrightarrow> \<not> ended t evs"
  shows "work_inv (evs @ [e]) (work_step st e)"
proof (cases "\<exists>t r. ev_data e = TurnEnd t r")
  case True
  then obtain t r where e: "ev_data e = TurnEnd t r" by blast
  have acc: "accounts evs e \<longleftrightarrow> t \<in> wf_stepped st \<or> t \<in> wf_claimed st \<and> accounts_for_claim r"
    using inv fresh [OF e] e by (simp add: accounts_def work_inv_def)
  have nd: "\<not> drops_input e" "\<not> takes_input e" "\<And>u. \<not> enters_step u e"
    using e by (simp_all add: drops_input_def takes_input_def enters_step_def)
  let ?w = "\<lparr> cw_end = wf_end st, cw_dropped_unrun = wf_dropped st \<rparr>"
  have acct: "is_account evs ?w" using inv by (simp add: work_inv_def)
  have "is_account (evs @ [e]) \<lparr> cw_end = wf_end (work_step st e), cw_dropped_unrun = wf_dropped (work_step st e) \<rparr>"
  proof (cases "accounts evs e")
    case True
    with acc e have "wf_end (work_step st e) = Some e" "\<not> wf_dropped (work_step st e)"
      by (auto simp: work_step_def Let_def)
    with is_account_new [OF True] show ?thesis by simp
  next
    case False
    with acc e have "wf_end (work_step st e) = wf_end st" "wf_dropped (work_step st e) = wf_dropped st"
      by (auto simp: work_step_def Let_def)
    with is_account_keep [OF acct False] nd(1) show ?thesis by simp
  qed
  moreover have "wf_open (work_step st e) = None"
    "wf_stepped (work_step st e) = wf_stepped st - {t}"
    "wf_claimed (work_step st e) - {t} = wf_claimed st - {t}"
    using e by (auto simp: work_step_def Let_def)
  ultimately show ?thesis
    using inv e nd by (auto simp: work_inv_def ended_snoc open_turn_of_snoc claimed_in_snoc)
next
  case False
  then have na: "\<not> accounts evs e" by (auto simp: accounts_def)
  let ?w = "\<lparr> cw_end = wf_end st, cw_dropped_unrun = wf_dropped st \<rparr>"
  have acct: "is_account evs ?w" using inv by (simp add: work_inv_def)
  have "wf_end (work_step st e) = wf_end st" "wf_dropped (work_step st e) = (wf_dropped st \<or> drops_input e)"
    using False by (cases "ev_data e"; auto simp: work_step_def drops_input_def split: option.split)+
  with is_account_keep [OF acct na] have
    a: "is_account (evs @ [e]) \<lparr> cw_end = wf_end (work_step st e), cw_dropped_unrun = wf_dropped (work_step st e) \<rparr>"
    by simp
  have o: "wf_open (work_step st e) = open_turn_of (evs @ [e])"
    using inv False by (cases "ev_data e") (auto simp: work_inv_def work_step_def open_turn_of_snoc split: option.split)
  have s: "t \<in> wf_stepped (work_step st e) \<longleftrightarrow> t \<in> wf_stepped st \<or> enters_step t e" for t
    using False by (cases "ev_data e") (auto simp: work_step_def enters_step_def split: option.split)
  have c: "t \<in> wf_claimed (work_step st e) \<longleftrightarrow> t \<in> wf_claimed st \<or> takes_input e \<and> open_turn_of evs = Some t" for t
    using inv False by (cases "ev_data e") (auto simp: work_inv_def work_step_def takes_input_def split: option.split)
  have en: "ended t (evs @ [e]) \<longleftrightarrow> ended t evs" for t using False by (auto simp: ended_snoc)
  show ?thesis
    using inv a o s c by (auto simp: work_inv_def en claimed_in_snoc)
qed

lemma work_inv_log: "seed_trace evs = Inr tr \<Longrightarrow> work_inv evs (foldl work_step start_work evs)"
proof (induction evs arbitrary: tr rule: rev_induct)
  case Nil
  then show ?case
    by (simp add: work_inv_def start_work_def open_turn_of_def is_account_def claimed_in_def)
next
  case (snoc e evs)
  then obtain u where u: "seed_trace evs = Inr u" and e: "trace_step u e = Inr tr"
    by (auto simp: seed_trace_def run_fold_snoc)
  have "turns_ok (evs @ [e]) tr" using trace.run_inv snoc.prems by (simp add: seed_trace_def trace_inv_def)
  then have "distinct (turn_ends (evs @ [e]))" by (simp add: turns_ok_def)
  then have "\<not> ended t evs" if "ev_data e = TurnEnd t r" for t r
    using that by (auto simp: ended_def turn_ends_def map_filter_snoc)
  with work_inv_step [OF snoc.IH [OF u]] show ?case by simp
qed

section \<open>Properties\<close>

text \<open>
  C16: the single pass is the declarative account. In a log that passes the relational checks, the
  turn returned is the last one that entered a step, or that took input and ended otherwise than
  completed, when there is one; and work counts as dropped unrun exactly when a cancellation that
  left nothing in its place came after that turn ended.
\<close>

theorem consumed_work_account:
  assumes "seed_trace evs = Inr tr"
  shows "is_account evs (fold_consumed_work evs)"
  using work_inv_log [OF assms] by (simp add: work_inv_def fold_consumed_work_def Let_def)

definition sample_work :: "session_event list" where
  "sample_work =
     [make_event 0 1 (TurnStart 1) None None False,
      make_event 1 1 (InboxSpliced \<lparr> spl_target = NextTurn, spl_start = 0, spl_removed_count = Some 1,
         spl_inserted = [], spl_canceled = False \<rparr>) None None False,
      make_event 2 1 (TurnEnd 1 EndBlocked) None None False,
      make_event 3 1 (InboxSpliced \<lparr> spl_target = NextTurn, spl_start = 0, spl_removed_count = Some 2,
         spl_inserted = [], spl_canceled = True \<rparr>) None None False]"

theorem consumed_work_account_witness:
  "is_account sample_work \<lparr> cw_end = Some (sample_work ! 2), cw_dropped_unrun = True \<rparr>"
proof -
  have "is_ok (seed_trace sample_work)"
    and w: "fold_consumed_work sample_work = \<lparr> cw_end = Some (sample_work ! 2), cw_dropped_unrun = True \<rparr>"
    by code_simp+
  then obtain tr where "seed_trace sample_work = Inr tr" by (auto simp: is_ok_iff)
  from consumed_work_account [OF this] w show ?thesis by simp
qed

end
