(* ===== verification/Assembler.thy ===== *)
theory Assembler
  imports Llm_Types
begin

text \<open>
  The chunk-to-message assembler of \<^verbatim>\<open>packages/llm/llm/src/assembler.ts\<close>. The \<^verbatim>\<open>partials\<close> map is a
  HOL map from block indices, \<^verbatim>\<open>order\<close> the list of indices in first-seen order; \<open>push_chunk\<close> is one
  \<^verbatim>\<open>push\<close>, \<open>assembled\<close> the shared keep-or-drop decision. The reference semantics \<open>block_of_stream\<close>
  reads the block of an index off the whole stream, without any intermediate state.
\<close>

section \<open>State and operations\<close>

record partial_block =
  pb_block_type :: string
  pb_text :: string
  pb_call_id :: "call_id option"
  pb_call_name :: "string option"
  pb_call_arguments :: string
  pb_block :: "content_block option"

record assembler =
  as_partials :: "int \<Rightarrow> partial_block option"
  as_order :: "int list"
  as_usage :: "token_usage option"
  as_finish :: "finish_reason option"
  as_replay :: "replay_envelope option"

datatype assembly_error =
    CannotAssemble string
  | NoPartial int

definition empty_partial :: "string \<Rightarrow> partial_block" where
  "empty_partial t = \<lparr> pb_block_type = t, pb_text = [], pb_call_id = None, pb_call_name = None,
     pb_call_arguments = [], pb_block = None \<rparr>"

definition new_assembler :: assembler where
  "new_assembler = \<lparr> as_partials = (\<lambda>_. None), as_order = [], as_usage = None, as_finish = None,
     as_replay = None \<rparr>"

text \<open>\<^verbatim>\<open>ensure\<close> registers an index that has no partial yet and leaves every other state alone.\<close>

definition ensure_partial :: "int \<Rightarrow> string \<Rightarrow> assembler \<Rightarrow> assembler" where
  "ensure_partial i t a = (case as_partials a i of
       Some _ \<Rightarrow> a
     | None \<Rightarrow> a\<lparr> as_partials := (as_partials a)(i \<mapsto> empty_partial t), as_order := as_order a @ [i] \<rparr>)"

text \<open>
  The assignments to the fields of a partial: \<^verbatim>\<open>if (partial.block) return\<close> guards every one of them.
\<close>

definition update_open :: "int \<Rightarrow> (partial_block \<Rightarrow> partial_block) \<Rightarrow> assembler \<Rightarrow> assembler" where
  "update_open i f a = (case as_partials a i of
       None \<Rightarrow> a
     | Some p \<Rightarrow> if pb_block p \<noteq> None then a else a\<lparr> as_partials := (as_partials a)(i \<mapsto> f p) \<rparr>)"

definition add_tool_delta ::
  "call_id \<Rightarrow> string option \<Rightarrow> string \<Rightarrow> partial_block \<Rightarrow> partial_block" where
  "add_tool_delta cid name args p =
     (let p1 = p\<lparr> pb_call_id := Some cid \<rparr>;
          p2 = (case name of
                  Some n \<Rightarrow> if n \<noteq> [] then p1\<lparr> pb_call_name := Some n \<rparr> else p1
                | None \<Rightarrow> p1)
      in p2\<lparr> pb_call_arguments := pb_call_arguments p2 @ args \<rparr>)"

fun push_chunk :: "assembler \<Rightarrow> stream_chunk \<Rightarrow> assembler" where
  "push_chunk a (BlockStart i t) =
     (if as_partials a i = None
      then a\<lparr> as_order := as_order a @ [i], as_partials := (as_partials a)(i \<mapsto> empty_partial t) \<rparr>
      else a)"
| "push_chunk a (TextDelta i t) =
     update_open i (\<lambda>p. p\<lparr> pb_text := pb_text p @ t \<rparr>) (ensure_partial i ''text'' a)"
| "push_chunk a (ReasoningDelta i t) =
     update_open i (\<lambda>p. p\<lparr> pb_text := pb_text p @ t \<rparr>) (ensure_partial i ''reasoning'' a)"
| "push_chunk a (ToolCallDelta i cid name args) =
     update_open i (add_tool_delta cid name args) (ensure_partial i ''tool-call'' a)"
| "push_chunk a (BlockEnd i b) =
     update_open i (\<lambda>p. p\<lparr> pb_block := Some b \<rparr>) (ensure_partial i (block_type b) a)"
| "push_chunk a (UsageChunk u) = a\<lparr> as_usage := Some u \<rparr>"
| "push_chunk a (FinishChunk r env) = a\<lparr> as_finish := Some r, as_replay := env \<rparr>"

definition push_all :: "stream_chunk list \<Rightarrow> assembler" where
  "push_all cs = foldl push_chunk new_assembler cs"

definition finish_of :: "assembler \<Rightarrow> finish_reason" where
  "finish_of a = (case as_finish a of Some r \<Rightarrow> r | None \<Rightarrow> FinStop)"

definition show_int :: "int \<Rightarrow> string" where
  "show_int i = (if i < 0 then ''-'' @ show_nat (nat (- i)) else show_nat (nat i))"

definition assemble_partial :: "partial_block \<Rightarrow> int \<Rightarrow> assembly_error + content_block" where
  "assemble_partial p i = (case pb_block p of
       Some b \<Rightarrow> Inr b
     | None \<Rightarrow>
         if pb_block_type p = ''text'' then Inr (TextBlock (pb_text p))
         else if pb_block_type p = ''reasoning'' then Inr (ReasoningBlock (pb_text p))
         else if pb_block_type p = ''tool-call'' then
           Inr (ToolCallBlock
             (case pb_call_id p of Some c \<Rightarrow> c | None \<Rightarrow> ''call-'' @ show_int i)
             (case pb_call_name p of Some n \<Rightarrow> n | None \<Rightarrow> [])
             (pb_call_arguments p))
         else Inl (CannotAssemble (pb_block_type p)))"

definition must_get :: "assembler \<Rightarrow> int \<Rightarrow> assembly_error + partial_block" where
  "must_get a i = (case as_partials a i of Some p \<Rightarrow> Inr p | None \<Rightarrow> Inl (NoPartial i))"

definition keep_positions :: "bool list \<Rightarrow> 'a list \<Rightarrow> 'a list" where
  "keep_positions ks xs = map snd (filter fst (zip ks xs))"

definition prune_envelope ::
  "bool list option \<Rightarrow> content_block list \<Rightarrow> content_block list \<Rightarrow> replay_envelope option
   \<Rightarrow> replay_envelope option" where
  "prune_envelope kept all blocks envelope = (case envelope of
       None \<Rightarrow> None
     | Some e \<Rightarrow> (case replay_blocks e of
         None \<Rightarrow> Some e
       | Some rs \<Rightarrow>
           if length rs \<noteq> length all then None
           else case kept of
               None \<Rightarrow> Some e
             | Some ks \<Rightarrow>
                 if length blocks = length all then Some e
                 else Some \<lparr> replay_response = replay_response e,
                             replay_blocks = Some (keep_positions ks rs) \<rparr>))"

definition assembled ::
  "assembler \<Rightarrow> assembly_error + content_block list \<times> replay_envelope option" where
  "assembled a =
     bind_res (map_res (\<lambda>i. bind_res (must_get a i) (\<lambda>p. assemble_partial p i)) (as_order a)) (\<lambda>all.
       let kept = (if finish_of a = FinMaxTokens
                   then Some (map (\<lambda>b. block_type b \<noteq> ''tool-call'') all) else None);
           blocks = (case kept of None \<Rightarrow> all | Some ks \<Rightarrow> keep_positions ks all)
       in Inr (blocks, prune_envelope kept all blocks (as_replay a)))"

definition assembled_blocks :: "assembler \<Rightarrow> assembly_error + content_block list" where
  "assembled_blocks a = bind_res (assembled a) (\<lambda>r. Inr (fst r))"

definition replay_state :: "assembler \<Rightarrow> assembly_error + replay_envelope option" where
  "replay_state a = bind_res (assembled a) (\<lambda>r. Inr (snd r))"

definition assembled_message ::
  "message_id \<Rightarrow> message_source \<Rightarrow> assembler \<Rightarrow> assembly_error + message" where
  "assembled_message uuid src a = bind_res (assembled_blocks a) (\<lambda>bs.
     Inr \<lparr> message_id = uuid, message_role = Assistant, message_content = bs, message_source = src \<rparr>)"

section \<open>The reference semantics\<close>

fun chunk_index :: "stream_chunk \<Rightarrow> int option" where
  "chunk_index (BlockStart i _) = Some i"
| "chunk_index (TextDelta i _) = Some i"
| "chunk_index (ReasoningDelta i _) = Some i"
| "chunk_index (ToolCallDelta i _ _ _) = Some i"
| "chunk_index (BlockEnd i _) = Some i"
| "chunk_index _ = None"

fun announced_type :: "stream_chunk \<Rightarrow> string" where
  "announced_type (BlockStart _ t) = t"
| "announced_type (TextDelta _ _) = ''text''"
| "announced_type (ReasoningDelta _ _) = ''reasoning''"
| "announced_type (ToolCallDelta _ _ _ _) = ''tool-call''"
| "announced_type (BlockEnd _ b) = block_type b"
| "announced_type _ = []"

fun closing_block :: "stream_chunk \<Rightarrow> content_block option" where
  "closing_block (BlockEnd _ b) = Some b"
| "closing_block _ = None"

fun delta_text :: "stream_chunk \<Rightarrow> string" where
  "delta_text (TextDelta _ t) = t"
| "delta_text (ReasoningDelta _ t) = t"
| "delta_text _ = []"

fun delta_arguments :: "stream_chunk \<Rightarrow> string" where
  "delta_arguments (ToolCallDelta _ _ _ s) = s"
| "delta_arguments _ = []"

fun delta_call_id :: "stream_chunk \<Rightarrow> call_id option" where
  "delta_call_id (ToolCallDelta _ c _ _) = Some c"
| "delta_call_id _ = None"

fun delta_name :: "stream_chunk \<Rightarrow> string option" where
  "delta_name (ToolCallDelta _ _ (Some n) _) = (if n = [] then None else Some n)"
| "delta_name _ = None"

definition chunks_of :: "int \<Rightarrow> stream_chunk list \<Rightarrow> stream_chunk list" where
  "chunks_of i cs = filter (\<lambda>c. chunk_index c = Some i) cs"

definition first_some :: "('a \<Rightarrow> 'b option) \<Rightarrow> 'a list \<Rightarrow> 'b option" where
  "first_some f xs = (case List.map_filter f xs of [] \<Rightarrow> None | y # _ \<Rightarrow> Some y)"

definition last_some :: "('a \<Rightarrow> 'b option) \<Rightarrow> 'a list \<Rightarrow> 'b option" where
  "last_some f xs = first_some f (rev xs)"

text \<open>The indices of a stream in the order in which it first names them.\<close>

definition first_seen :: "stream_chunk list \<Rightarrow> int list" where
  "first_seen cs = rev (remdups (rev (List.map_filter chunk_index cs)))"

text \<open>
  The block of an index: the first \<^verbatim>\<open>block-end\<close> decides; an index that is never closed has the type
  its first chunk announced and the concatenation of its deltas.
\<close>

definition block_of_stream :: "stream_chunk list \<Rightarrow> int \<Rightarrow> assembly_error + content_block" where
  "block_of_stream cs i =
     (let ks = chunks_of i cs; t = announced_type (hd ks)
      in case first_some closing_block ks of
           Some b \<Rightarrow> Inr b
         | None \<Rightarrow>
             if t = ''text'' then Inr (TextBlock (concat (map delta_text ks)))
             else if t = ''reasoning'' then Inr (ReasoningBlock (concat (map delta_text ks)))
             else if t = ''tool-call'' then
               Inr (ToolCallBlock
                 (case last_some delta_call_id ks of Some c \<Rightarrow> c | None \<Rightarrow> ''call-'' @ show_int i)
                 (case last_some delta_name ks of Some n \<Rightarrow> n | None \<Rightarrow> [])
                 (concat (map delta_arguments ks)))
             else Inl (CannotAssemble t))"

section \<open>One chunk seen by one partial\<close>

fun apply_delta :: "stream_chunk \<Rightarrow> partial_block \<Rightarrow> partial_block" where
  "apply_delta (TextDelta _ t) p = p\<lparr> pb_text := pb_text p @ t \<rparr>"
| "apply_delta (ReasoningDelta _ t) p = p\<lparr> pb_text := pb_text p @ t \<rparr>"
| "apply_delta (ToolCallDelta _ cid name args) p = add_tool_delta cid name args p"
| "apply_delta (BlockEnd _ b) p = p\<lparr> pb_block := Some b \<rparr>"
| "apply_delta _ p = p"

definition chunk_step :: "partial_block option \<Rightarrow> stream_chunk \<Rightarrow> partial_block" where
  "chunk_step po c =
     (let p = (case po of Some p \<Rightarrow> p | None \<Rightarrow> empty_partial (announced_type c))
      in if pb_block p \<noteq> None then p else apply_delta c p)"

lemma push_partials:
  "as_partials (push_chunk a c) j =
     (if chunk_index c = Some j then Some (chunk_step (as_partials a j) c) else as_partials a j)"
  by (cases c) (auto simp: chunk_step_def update_open_def ensure_partial_def empty_partial_def
      split: option.splits)

lemma push_order:
  "as_order (push_chunk a c) =
     (case chunk_index c of
        Some i \<Rightarrow> if as_partials a i = None then as_order a @ [i] else as_order a
      | None \<Rightarrow> as_order a)"
  by (cases c) (auto simp: update_open_def ensure_partial_def empty_partial_def split: option.splits)

lemma push_all_snoc: "push_all (cs @ [c]) = push_chunk (push_all cs) c"
  by (simp add: push_all_def)

lemma chunks_of_snoc:
  "chunks_of i (cs @ [c]) = chunks_of i cs @ (if chunk_index c = Some i then [c] else [])"
  by (simp add: chunks_of_def)





lemma first_some_snoc:
  "first_some f (xs @ [x]) = (case first_some f xs of None \<Rightarrow> f x | Some y \<Rightarrow> Some y)"
  by (auto simp: first_some_def map_filter_snoc split: list.splits option.splits)

lemma last_some_snoc:
  "last_some f (xs @ [x]) = (case f x of None \<Rightarrow> last_some f xs | Some y \<Rightarrow> Some y)"
  by (auto simp: last_some_def first_some_def split: list.splits option.splits)

lemma first_some_None: "first_some f xs = None \<longleftrightarrow> (\<forall>x \<in> set xs. f x = None)"
  by (induction xs) (auto simp: first_some_def split: list.splits option.splits)

lemma first_some_Nil [simp]: "first_some f [] = None" "last_some f [] = None"
  by (simp_all add: first_some_def last_some_def)

lemma first_seen_snoc:
  "first_seen (cs @ [c]) = (case chunk_index c of
     None \<Rightarrow> first_seen cs
   | Some i \<Rightarrow> if i \<in> set (first_seen cs) then first_seen cs else first_seen cs @ [i])"
  by (auto simp: first_seen_def map_filter_snoc split: option.splits)

lemma set_first_seen: "i \<in> set (first_seen cs) \<longleftrightarrow> chunks_of i cs \<noteq> []"
  by (auto simp: first_seen_def set_map_filter chunks_of_def filter_empty_conv)

lemma distinct_first_seen: "distinct (first_seen cs)"
  by (simp add: first_seen_def)

section \<open>The partial of an index is its part of the stream\<close>

definition agrees :: "stream_chunk list \<Rightarrow> partial_block \<Rightarrow> bool" where
  "agrees ks p \<longleftrightarrow>
     pb_block_type p = announced_type (hd ks) \<and> pb_block p = first_some closing_block ks \<and>
     (pb_block p = None \<longrightarrow>
        pb_text p = concat (map delta_text ks) \<and>
        pb_call_arguments p = concat (map delta_arguments ks) \<and>
        pb_call_id p = last_some delta_call_id ks \<and>
        pb_call_name p = last_some delta_name ks)"

lemma agrees_first:
  "chunk_index c = Some i \<Longrightarrow> agrees [c] (chunk_step None c)"
  by (cases c) (auto simp: agrees_def chunk_step_def empty_partial_def add_tool_delta_def Let_def
      first_some_snoc [where xs = "[]", simplified] last_some_snoc [where xs = "[]", simplified]
      split: option.splits)

lemma agrees_more:
  assumes "ks \<noteq> []" and "agrees ks p"
  shows "agrees (ks @ [c]) (chunk_step (Some p) c)"
  using assms
  by (cases c) (auto simp: agrees_def chunk_step_def add_tool_delta_def Let_def first_some_snoc
      last_some_snoc hd_append split: option.splits)

lemma partials_of_stream:
  "(case as_partials (push_all cs) i of
      None \<Rightarrow> chunks_of i cs = []
    | Some p \<Rightarrow> chunks_of i cs \<noteq> [] \<and> agrees (chunks_of i cs) p)"
proof (induction cs rule: rev_induct)
  case Nil
  show ?case by (simp add: push_all_def new_assembler_def chunks_of_def)
next
  case (snoc c cs)
  then show ?case
    using agrees_first [of c i] agrees_more [of "chunks_of i cs" _ c]
    by (auto simp: push_all_snoc push_partials chunks_of_snoc split: option.splits)
qed

lemma partial_None_iff: "as_partials (push_all cs) i = None \<longleftrightarrow> chunks_of i cs = []"
  using partials_of_stream [where cs = cs and i = i] by (auto split: option.splits)

lemma order_of_stream: "as_order (push_all cs) = first_seen cs"
proof (induction cs rule: rev_induct)
  case Nil
  show ?case by (simp add: push_all_def new_assembler_def first_seen_def)
next
  case (snoc c cs)
  then show ?case
    by (auto simp: push_all_snoc push_order first_seen_snoc partial_None_iff set_first_seen
        split: option.splits)
qed

lemma assemble_of_stream:
  assumes "i \<in> set (first_seen cs)"
  shows "bind_res (must_get (push_all cs) i) (\<lambda>p. assemble_partial p i) = block_of_stream cs i"
proof -
  from assms obtain p where p: "as_partials (push_all cs) i = Some p"
    using partial_None_iff [where cs = cs and i = i] by (auto simp: set_first_seen)
  with partials_of_stream [where cs = cs and i = i] have "agrees (chunks_of i cs) p" by simp
  with p show ?thesis
    by (auto simp: must_get_def assemble_partial_def block_of_stream_def agrees_def Let_def
        split: option.splits)
qed

lemma map_res_cong: "(\<And>x. x \<in> set xs \<Longrightarrow> f x = g x) \<Longrightarrow> map_res f xs = map_res g xs"
  by (induction xs) auto

lemma map_res_Inr: "map_res f xs = Inr ys \<longleftrightarrow> list_all2 (\<lambda>x y. f x = Inr y) xs ys"
  by (induction xs arbitrary: ys) (auto simp: list_all2_Cons1)

lemma map_res_of_stream:
  "map_res (\<lambda>i. bind_res (must_get (push_all cs) i) (\<lambda>p. assemble_partial p i)) (as_order (push_all cs))
   = map_res (block_of_stream cs) (first_seen cs)"
  unfolding order_of_stream by (rule map_res_cong) (rule assemble_of_stream)

lemma keep_positions_map: "keep_positions (map P xs) xs = filter P xs"
  by (induction xs) (auto simp: keep_positions_def)

lemma zip_keep_positions:
  "length xs = length ys \<Longrightarrow>
   zip (filter P xs) (keep_positions (map P xs) ys) = filter (\<lambda>q. P (fst q)) (zip xs ys)"
  by (induction xs ys rule: list_induct2) (auto simp: keep_positions_def)

lemma length_keep_positions:
  "length xs = length ys \<Longrightarrow> length (keep_positions (map P xs) ys) = length (filter P xs)"
  by (induction xs ys rule: list_induct2) (auto simp: keep_positions_def)

section \<open>The properties\<close>

fun finish_chunk :: "stream_chunk \<Rightarrow> (finish_reason \<times> replay_envelope option) option" where
  "finish_chunk (FinishChunk r env) = Some (r, env)"
| "finish_chunk _ = None"

definition stream_finish :: "stream_chunk list \<Rightarrow> finish_reason" where
  "stream_finish cs = (case last_some finish_chunk cs of Some (r, _) \<Rightarrow> r | None \<Rightarrow> FinStop)"

lemma update_ensure_simps [simp]:
  "as_finish (update_open i f a) = as_finish a" "as_replay (update_open i f a) = as_replay a"
  "as_finish (ensure_partial i t a) = as_finish a" "as_replay (ensure_partial i t a) = as_replay a"
  by (simp_all add: update_open_def ensure_partial_def split: option.splits)

lemma finish_of_stream: "finish_of (push_all cs) = stream_finish cs"
proof -
  have "(as_finish (push_all cs), as_replay (push_all cs)) =
        (case last_some finish_chunk cs of Some (r, env) \<Rightarrow> (Some r, env) | None \<Rightarrow> (None, None))"
  proof (induction cs rule: rev_induct)
    case Nil
    show ?case by (simp add: push_all_def new_assembler_def)
  next
    case (snoc c cs)
    then show ?case by (cases c) (auto simp: push_all_snoc last_some_snoc split: option.splits)
  qed
  then show ?thesis by (auto simp: finish_of_def stream_finish_def split: option.splits prod.splits)
qed

definition drop_truncated :: "finish_reason \<Rightarrow> content_block list \<Rightarrow> content_block list" where
  "drop_truncated r bs =
     (if r = FinMaxTokens then filter (\<lambda>b. block_type b \<noteq> ''tool-call'') bs else bs)"

lemma assembled_of_stream:
  "assembled (push_all cs) =
     bind_res (map_res (block_of_stream cs) (first_seen cs)) (\<lambda>all.
       Inr (drop_truncated (stream_finish cs) all,
            prune_envelope (if stream_finish cs = FinMaxTokens
                            then Some (map (\<lambda>b. block_type b \<noteq> ''tool-call'') all) else None)
              all (drop_truncated (stream_finish cs) all) (as_replay (push_all cs))))"
  by (cases "map_res (block_of_stream cs) (first_seen cs)")
    (simp_all add: assembled_def map_res_of_stream drop_truncated_def keep_positions_map Let_def
      finish_of_stream)

text \<open>
  C17: the assembled content is a function of the stream alone, whatever the interleaving of the
  indices: one block per index in first-seen order, closed by the first \<^verbatim>\<open>block-end\<close> of the index
  and otherwise the concatenation of its deltas under the type its first chunk announced; the
  assembly fails exactly when that reading fails, and a truncated response loses its tool calls.
\<close>

theorem assembler_reads_the_stream:
  "assembled_blocks (push_all cs) =
     bind_res (map_res (block_of_stream cs) (first_seen cs))
       (\<lambda>bs. Inr (drop_truncated (stream_finish cs) bs))"
  unfolding assembled_blocks_def assembled_of_stream
  by (cases "map_res (block_of_stream cs) (first_seen cs)") simp_all

text \<open>
  Replay metadata stays aligned with the content: when both the blocks and a per-block
  envelope come out of the assembly, the envelope is the one of the last finish chunk, its response
  half is untouched, and the pairs of block and entry are exactly the pairs of the untruncated
  assembly that survive the truncation; in particular the two lists have one length.
\<close>

theorem replay_entries_stay_aligned:
  assumes "assembled_blocks (push_all cs) = Inr bs"
    and "replay_state (push_all cs) = Inr (Some env')"
    and "replay_blocks env' = Some rs'"
  shows "\<exists>env rs all. as_replay (push_all cs) = Some env \<and> replay_blocks env = Some rs \<and>
      replay_response env' = replay_response env \<and>
      map_res (block_of_stream cs) (first_seen cs) = Inr all \<and> length rs = length all \<and>
      length bs = length rs' \<and>
      zip bs rs' = (if stream_finish cs = FinMaxTokens
                    then filter (\<lambda>q. block_type (fst q) \<noteq> ''tool-call'') (zip all rs)
                    else zip all rs)"
proof -
  from assms(1) obtain all where all: "map_res (block_of_stream cs) (first_seen cs) = Inr all"
    and bs: "bs = drop_truncated (stream_finish cs) all"
    unfolding assembled_blocks_def assembled_of_stream
    by (cases "map_res (block_of_stream cs) (first_seen cs)") simp_all
  let ?keep = "\<lambda>b. block_type b \<noteq> ''tool-call''"
  have same: "filter ?keep all = all" if "length (filter ?keep all) = length all"
    using that by (metis filter_True length_filter_less less_irrefl)
  from assms(2) all have env': "prune_envelope
      (if stream_finish cs = FinMaxTokens then Some (map ?keep all) else None) all bs
      (as_replay (push_all cs)) = Some env'"
    unfolding replay_state_def assembled_of_stream by (simp add: bs)
  then obtain env rs where er: "as_replay (push_all cs) = Some env" "replay_blocks env = Some rs"
    and len: "length rs = length all"
    using assms(3) by (auto simp: prune_envelope_def split: option.splits if_splits)
  show ?thesis
  proof (cases "stream_finish cs = FinMaxTokens \<and> length bs \<noteq> length all")
    case True
    with env' er len have "env' = \<lparr> replay_response = replay_response env,
        replay_blocks = Some (keep_positions (map ?keep all) rs) \<rparr>"
      by (simp add: prune_envelope_def)
    moreover from this assms(3) have "rs' = keep_positions (map ?keep all) rs" by simp
    ultimately show ?thesis using True er all len bs
      by (simp add: drop_truncated_def zip_keep_positions length_keep_positions)
  next
    case False
    with env' er len have "env' = env" by (auto simp: prune_envelope_def split: if_splits)
    with er assms(3) have "rs' = rs" by simp
    have "bs = all" using False bs same by (auto simp: drop_truncated_def)
    moreover have "stream_finish cs = FinMaxTokens \<Longrightarrow> filter ?keep all = all"
      using \<open>bs = all\<close> bs by (simp add: drop_truncated_def)
    moreover have "stream_finish cs = FinMaxTokens \<Longrightarrow>
        filter (\<lambda>q. ?keep (fst q)) (zip all rs) = zip all rs"
      using calculation(2) by (metis (no_types, lifting) filter_True filter_id_conv set_zip_leftD
          surjective_pairing)
    ultimately show ?thesis using er all len \<open>env' = env\<close> \<open>rs' = rs\<close> by simp
  qed
qed

definition truncated_stream :: "stream_chunk list" where
  "truncated_stream =
     [TextDelta 0 ''hi'', ToolCallDelta 1 ''c1'' (Some ''ls'') ''{'',
      FinishChunk FinMaxTokens (Some \<lparr> replay_response = JNull, replay_blocks = Some [JBool True, JNull] \<rparr>)]"

theorem replay_entries_stay_aligned_witness:
  "\<exists>env rs all. as_replay (push_all truncated_stream) = Some env \<and> replay_blocks env = Some rs \<and>
      replay_response \<lparr> replay_response = JNull, replay_blocks = Some [JBool True] \<rparr>
        = replay_response env \<and>
      map_res (block_of_stream truncated_stream) (first_seen truncated_stream) = Inr all \<and>
      length rs = length all \<and> length [TextBlock ''hi''] = length [JBool True] \<and>
      zip [TextBlock ''hi''] [JBool True] =
        (if stream_finish truncated_stream = FinMaxTokens
         then filter (\<lambda>q. block_type (fst q) \<noteq> ''tool-call'') (zip all rs) else zip all rs)"
  by (rule replay_entries_stay_aligned)
    (simp_all add: truncated_stream_def push_all_def new_assembler_def ensure_partial_def
      update_open_def empty_partial_def add_tool_delta_def assembled_blocks_def replay_state_def
      assembled_def must_get_def assemble_partial_def finish_of_def keep_positions_def
      prune_envelope_def)

text \<open>
  A closed index is frozen: once the stream has carried a \<^verbatim>\<open>block-end\<close> for an index, no later
  chunk of that index (a delta, a second start, a second close) changes any part of the state.
\<close>

theorem closed_index_is_frozen:
  assumes "BlockEnd i b \<in> set cs" and "chunk_index c = Some i"
  shows "push_chunk (push_all cs) c = push_all cs"
proof -
  have "first_some closing_block (chunks_of i cs) \<noteq> None"
    unfolding first_some_None chunks_of_def
    using assms(1) by (auto intro!: bexI [of _ "BlockEnd i b"])
  with partials_of_stream [where cs = cs and i = i] obtain p where
    p: "as_partials (push_all cs) i = Some p" and "pb_block p \<noteq> None"
    by (auto simp: agrees_def chunks_of_def split: option.splits)
  then show ?thesis using assms(2) by (cases c) (auto simp: ensure_partial_def update_open_def)
qed

theorem closed_index_is_frozen_witness:
  "push_chunk (push_all [BlockEnd 0 (TextBlock ''a'')]) (TextDelta 0 ''b'')
     = push_all [BlockEnd 0 (TextBlock ''a'')]"
  by (rule closed_index_is_frozen [where i = 0 and b = "TextBlock ''a''"]) simp_all

end
