(* ===== verification/Retry.thy ===== *)
theory Retry
  imports Session_Types "HOL-Library.Char_ord" "HOL-Library.List_Lexorder"
begin

text \<open>
  Request retries: the resolution of a provider's retry policy
  (\<^verbatim>\<open>packages/llm/llm/src/retry-policy.ts\<close>), the executor that schedules and starts a retry
  (\<^verbatim>\<open>packages/llm/llm-retry/src/index.ts\<close>), and the validation of its durable records
  (\<^verbatim>\<open>invariant.ts\<close>, \<^verbatim>\<open>history.ts\<close> there). Finite JavaScript numbers are rationals, so products are
  exact; \<^verbatim>\<open>2 ** 1024\<close> is infinite as in the code. What the environment answers during one
  recovery (abort signals, the delegated decision, the timer, the random sample, the fresh id) is
  the record \<open>recovery_env\<close>.
\<close>

section \<open>Policies\<close>

datatype config_number = Finite rat | NotFinite

datatype code_value = CodeStr string | NotString

record backoff_config =
  bc_keys :: "string list"
  bc_initial :: "config_number option"
  bc_max :: "config_number option"
  bc_jitter :: "config_number option"

record retry_policy_config =
  rp_keys :: "string list"
  rp_mode :: string
  rp_max_retries :: "config_number option"
  rp_codes :: "code_value list option"
  rp_backoff :: "backoff_config option"

record retry_backoff =
  initial_delay :: rat
  max_delay :: rat
  jitter_ratio :: rat

datatype retry_policy =
    NormalPolicy int "string list" retry_backoff
  | AlwaysPolicy retry_backoff

datatype policy_error =
    UnknownKey string string
  | BadInitialDelay string
  | BadMaxDelay string
  | InitialAboveMax string
  | BadJitter string
  | BadMaxRetries string
  | EmptyCodes string
  | BadCode string
  | DuplicateCodes string
  | BadMode string

definition default_max_retries :: int where
  "default_max_retries = 2"

definition default_initial_delay :: rat where
  "default_initial_delay = 500"

definition default_max_delay :: rat where
  "default_max_delay = 10000"

definition default_jitter :: rat where
  "default_jitter = 1 / 10"

definition default_codes :: "string list" where
  "default_codes = [''EMPTY_RESPONSE'', ''RATE_LIMIT'', ''SERVER'', ''TIMEOUT'', ''TRANSPORT'']"

definition max_timer_delay :: rat where
  "max_timer_delay = 2147483647"

definition normal_policy_keys :: "string list" where
  "normal_policy_keys = [''mode'', ''maxRetries'', ''retryableCodes'', ''backoff'']"

definition always_policy_keys :: "string list" where
  "always_policy_keys = [''mode'', ''backoff'']"

definition backoff_keys :: "string list" where
  "backoff_keys = [''initialDelayMs'', ''maxDelayMs'', ''jitterRatio'']"

fun validate_keys :: "string list \<Rightarrow> string list \<Rightarrow> string \<Rightarrow> policy_error + unit" where
  "validate_keys [] allowed path = Inr ()"
| "validate_keys (k # ks) allowed path =
     (if k \<in> set allowed then validate_keys ks allowed path else Inl (UnknownKey path k))"

definition finite_in :: "(rat \<Rightarrow> bool) \<Rightarrow> config_number \<Rightarrow> 'x \<Rightarrow> 'x + rat" where
  "finite_in P n e = (case n of Finite r \<Rightarrow> if P r then Inr r else Inl e | NotFinite \<Rightarrow> Inl e)"

definition or_default :: "config_number option \<Rightarrow> rat \<Rightarrow> config_number" where
  "or_default n d = (case n of Some v \<Rightarrow> v | None \<Rightarrow> Finite d)"

definition resolve_backoff :: "backoff_config option \<Rightarrow> string \<Rightarrow> policy_error + retry_backoff" where
  "resolve_backoff config path =
     bind_res (case config of Some c \<Rightarrow> validate_keys (bc_keys c) backoff_keys path | None \<Rightarrow> Inr ()) (\<lambda>_.
     let initial = or_default (case config of Some c \<Rightarrow> bc_initial c | None \<Rightarrow> None) default_initial_delay;
         mx = or_default (case config of Some c \<Rightarrow> bc_max c | None \<Rightarrow> None) default_max_delay;
         jitter = or_default (case config of Some c \<Rightarrow> bc_jitter c | None \<Rightarrow> None) default_jitter
     in bind_res (finite_in (\<lambda>r. 0 < r \<and> r \<le> max_timer_delay) initial (BadInitialDelay path)) (\<lambda>i.
        bind_res (finite_in (\<lambda>r. 0 < r \<and> r \<le> max_timer_delay) mx (BadMaxDelay path)) (\<lambda>m.
        bind_res (guard_res (i \<le> m) (InitialAboveMax path)) (\<lambda>_.
        bind_res (finite_in (\<lambda>r. 0 \<le> r \<and> r \<le> 1) jitter (BadJitter path)) (\<lambda>j.
        Inr \<lparr> initial_delay = i, max_delay = m, jitter_ratio = j \<rparr>)))))"

fun code_strings :: "code_value list \<Rightarrow> string list option" where
  "code_strings [] = Some []"
| "code_strings (CodeStr s # cs) = (if s = [] then None else map_option (Cons s) (code_strings cs))"
| "code_strings (NotString # cs) = None"

definition resolve_max_retries :: "config_number option \<Rightarrow> string \<Rightarrow> policy_error + int" where
  "resolve_max_retries n path =
     bind_res (finite_in (\<lambda>r. safe_num r \<and> 0 \<le> r) (or_default n (of_int default_max_retries))
       (BadMaxRetries path)) (\<lambda>r. Inr \<lfloor>r\<rfloor>)"

definition resolve_codes :: "code_value list option \<Rightarrow> string \<Rightarrow> policy_error + string list" where
  "resolve_codes config path =
     (let codes = (case config of Some cs \<Rightarrow> cs | None \<Rightarrow> map CodeStr default_codes)
      in bind_res (guard_res (codes \<noteq> []) (EmptyCodes path)) (\<lambda>_.
         case code_strings codes of
           None \<Rightarrow> Inl (BadCode path)
         | Some ss \<Rightarrow>
             if card (set ss) \<noteq> length ss then Inl (DuplicateCodes path) else Inr ss))"

definition resolve_retry_policy ::
  "retry_policy_config option \<Rightarrow> string \<Rightarrow> policy_error + retry_policy" where
  "resolve_retry_policy config path = (case config of
       None \<Rightarrow> bind_res (resolve_backoff None (path @ ''.backoff''))
                 (\<lambda>b. Inr (NormalPolicy default_max_retries default_codes b))
     | Some c \<Rightarrow>
         if rp_mode c = ''normal'' then
           bind_res (validate_keys (rp_keys c) normal_policy_keys path) (\<lambda>_.
           bind_res (resolve_max_retries (rp_max_retries c) path) (\<lambda>n.
           bind_res (resolve_codes (rp_codes c) path) (\<lambda>codes.
           bind_res (resolve_backoff (rp_backoff c) (path @ ''.backoff'')) (\<lambda>b.
           Inr (NormalPolicy n codes b)))))
         else if rp_mode c = ''always'' then
           bind_res (validate_keys (rp_keys c) always_policy_keys path) (\<lambda>_.
           bind_res (resolve_backoff (rp_backoff c) (path @ ''.backoff'')) (\<lambda>b.
           Inr (AlwaysPolicy b)))
         else Inl (BadMode path))"

fun policy_backoff :: "retry_policy \<Rightarrow> retry_backoff" where
  "policy_backoff (NormalPolicy _ _ b) = b"
| "policy_backoff (AlwaysPolicy b) = b"

section \<open>Durable retry records\<close>

datatype retry_mode = RetryNormal int | RetryAlways

record llm_retry =
  lr_id :: string
  lr_turn :: int
  lr_step :: int
  lr_provider :: string
  lr_mode :: retry_mode
  lr_policy_key :: string
  lr_retry :: int
  lr_delay :: rat
  lr_failure :: llm_failure

record retry_started =
  rs_id :: string
  rs_turn :: int
  rs_step :: int
  rs_retry :: int

text \<open>The event map of a session with the two members this package merges into it.\<close>

datatype retry_log_event =
    CoreEvent event_data
  | LlmRetry llm_retry
  | LlmRetryStarted retry_started

definition find_last :: "('a \<Rightarrow> bool) \<Rightarrow> 'a list \<Rightarrow> 'a option" where
  "find_last P xs = find P (rev xs)"

definition after_last :: "('a \<Rightarrow> bool) \<Rightarrow> 'a list \<Rightarrow> 'a list option" where
  "after_last P xs =
     (if find_last P xs = None then None else Some (rev (takeWhile (\<lambda>x. \<not> P x) (rev xs))))"

fun is_request_header :: "retry_log_event \<Rightarrow> bool" where
  "is_request_header (CoreEvent (RequestHeader _ _)) = True"
| "is_request_header _ = False"

fun ends_step :: "retry_log_event \<Rightarrow> bool" where
  "ends_step (CoreEvent (StepEnd _ _)) = True"
| "ends_step (CoreEvent (TurnEnd _ _)) = True"
| "ends_step _ = False"

definition provider_for_open_step :: "retry_log_event list \<Rightarrow> int \<Rightarrow> int \<Rightarrow> string option" where
  "provider_for_open_step events turn step =
     (case after_last (\<lambda>e. e = CoreEvent (StepStart turn step)) events of
        None \<Rightarrow> None
      | Some tail \<Rightarrow>
          if list_ex ends_step tail then None
          else case find_last is_request_header events of
              Some (CoreEvent (RequestHeader h _)) \<Rightarrow> Some (cfg_provider (eh_config h))
            | _ \<Rightarrow> None)"

fun turn_boundary :: "retry_log_event \<Rightarrow> bool" where
  "turn_boundary (CoreEvent (TurnStart _)) = True"
| "turn_boundary (CoreEvent (TurnEnd _ _)) = True"
| "turn_boundary _ = False"

fun step_boundary :: "retry_log_event \<Rightarrow> bool" where
  "step_boundary (CoreEvent (StepStart _ _)) = True"
| "step_boundary (CoreEvent (StepEnd _ _)) = True"
| "step_boundary _ = False"

definition in_chain :: "int \<Rightarrow> int \<Rightarrow> string \<Rightarrow> string \<Rightarrow> retry_log_event \<Rightarrow> bool" where
  "in_chain turn step provider key e = (case e of
       LlmRetry d \<Rightarrow> lr_turn d = turn \<and> lr_step d = step \<and> lr_provider d = provider \<and> lr_policy_key d = key
     | _ \<Rightarrow> False)"

definition prior_policy_retry ::
  "retry_log_event list \<Rightarrow> int \<Rightarrow> int \<Rightarrow> string \<Rightarrow> string \<Rightarrow> llm_retry option" where
  "prior_policy_retry h turn step provider key =
     (case find_last (in_chain turn step provider key) h of Some (LlmRetry d) \<Rightarrow> Some d | _ \<Rightarrow> None)"

fun names_id :: "string \<Rightarrow> retry_log_event \<Rightarrow> bool" where
  "names_id i (LlmRetry d) = (lr_id d = i)"
| "names_id i (LlmRetryStarted d) = (rs_id d = i)"
| "names_id i _ = False"

section \<open>Validation of the records\<close>

definition validate_failure :: "llm_failure \<Rightarrow> string + unit" where
  "validate_failure f =
     bind_res (guard_res (failure_message f \<noteq> []) ''message'') (\<lambda>_.
     bind_res (guard_res (failure_code f \<noteq> []) ''code'') (\<lambda>_.
     bind_res (guard_res (case failure_status f of Some s \<Rightarrow> 100 \<le> s \<and> s \<le> 599 | None \<Rightarrow> True) ''status'') (\<lambda>_.
     bind_res (guard_res (case failure_retry_after f of Some r \<Rightarrow> 0 < r | None \<Rightarrow> True) ''providerRetryAfterMs'') (\<lambda>_.
     guard_res (case failure_request_id f of Some r \<Rightarrow> r \<noteq> [] | None \<Rightarrow> True) ''requestId''))))"

definition validate_mode :: "llm_retry \<Rightarrow> bool" where
  "validate_mode d = (case lr_mode d of
       RetryNormal mx \<Rightarrow> safe_int mx \<and> 1 \<le> mx \<and> lr_retry d \<le> mx
     | RetryAlways \<Rightarrow> True)"

definition validate_open_step :: "retry_log_event list \<Rightarrow> llm_retry \<Rightarrow> string + unit" where
  "validate_open_step history d =
     bind_res (case find_last turn_boundary history of
         Some (CoreEvent (TurnStart t)) \<Rightarrow> guard_res (lr_turn d = t) ''open turn''
       | _ \<Rightarrow> Inl ''open turn'') (\<lambda>_.
     bind_res (case find_last step_boundary history of
         Some (CoreEvent (StepStart t s)) \<Rightarrow> guard_res (lr_step d = s \<and> lr_turn d = t) ''open step''
       | _ \<Rightarrow> Inl ''open step'') (\<lambda>_.
     guard_res (provider_for_open_step history (lr_turn d) (lr_step d) = Some (lr_provider d))
       ''provider''))"

definition validate_chain :: "retry_log_event list \<Rightarrow> llm_retry \<Rightarrow> string + unit" where
  "validate_chain history d =
     (let prior = prior_policy_retry history (lr_turn d) (lr_step d) (lr_provider d) (lr_policy_key d)
      in bind_res (guard_res
           (lr_retry d = (case prior of Some p \<Rightarrow> lr_retry p | None \<Rightarrow> 0) + 1) ''retry number'') (\<lambda>_.
         case prior of
           Some p \<Rightarrow> guard_res (lr_id p = lr_id d) ''retryId''
         | None \<Rightarrow> guard_res (\<not> list_ex (names_id (lr_id d)) history) ''retryId owned''))"

definition validate_retry :: "retry_log_event list \<Rightarrow> llm_retry \<Rightarrow> string + unit" where
  "validate_retry history d =
     bind_res (guard_res (lr_id d \<noteq> []) ''retryId'') (\<lambda>_.
     bind_res (validate_failure (lr_failure d)) (\<lambda>_.
     bind_res (guard_res (safe_int (lr_retry d) \<and> 1 \<le> lr_retry d) ''retry'') (\<lambda>_.
     bind_res (guard_res (lr_provider d \<noteq> []) ''provider'') (\<lambda>_.
     bind_res (guard_res (lr_policy_key d \<noteq> []) ''policyKey'') (\<lambda>_.
     bind_res (guard_res (validate_mode d) ''mode'') (\<lambda>_.
     bind_res (guard_res (0 \<le> lr_delay d \<and> lr_delay d \<le> max_timer_delay) ''delayMs'') (\<lambda>_.
     bind_res (validate_open_step history d) (\<lambda>_.
     validate_chain history d))))))))"

fun schedules :: "string \<Rightarrow> int \<Rightarrow> retry_log_event \<Rightarrow> bool" where
  "schedules i n (LlmRetry d) = (lr_id d = i \<and> lr_retry d = n)"
| "schedules i n _ = False"

fun starts :: "string \<Rightarrow> int \<Rightarrow> retry_log_event \<Rightarrow> bool" where
  "starts i n (LlmRetryStarted d) = (rs_id d = i \<and> rs_retry d = n)"
| "starts i n _ = False"

definition validate_started :: "retry_log_event list \<Rightarrow> retry_started \<Rightarrow> string + unit" where
  "validate_started history d =
     bind_res (guard_res (rs_id d \<noteq> []) ''retryId'') (\<lambda>_.
     case find_last (schedules (rs_id d) (rs_retry d)) history of
       Some (LlmRetry s) \<Rightarrow>
         bind_res (guard_res (lr_turn s = rs_turn d \<and> lr_step s = rs_step d) ''turn/step'') (\<lambda>_.
         guard_res (\<not> list_ex (starts (rs_id d) (rs_retry d)) history) ''repeats'')
     | _ \<Rightarrow> Inl ''no scheduled attempt'')"

fun validate_record :: "retry_log_event list \<Rightarrow> retry_log_event \<Rightarrow> string + unit" where
  "validate_record history (LlmRetry d) = validate_retry history d"
| "validate_record history (LlmRetryStarted d) = validate_started history d"
| "validate_record history (CoreEvent _) = Inr ()"

fun validate_session_from ::
  "retry_log_event list \<Rightarrow> retry_log_event list \<Rightarrow> string + unit" where
  "validate_session_from history [] = Inr ()"
| "validate_session_from history (e # es) =
     bind_res (validate_record history e) (\<lambda>_. validate_session_from (history @ [e]) es)"

definition validate_session :: "retry_log_event list \<Rightarrow> string + unit" where
  "validate_session events = validate_session_from [] events"

section \<open>The executor\<close>

datatype request_error_action = ActRetry | ActNone | ActThrow

datatype downstream_outcome = DownRetry | DownNone | DownError

record recovery_env =
  env_disposed :: bool
  env_aborted_entry :: bool
  env_downstream :: downstream_outcome
  env_downstream_events :: "retry_log_event list"
  env_aborted_after :: bool
  env_sample :: rat
  env_fresh_id :: string
  env_aborted_wait :: bool
  env_timer_fires :: bool
  env_wait_events :: "retry_log_event list"

record failed_request =
  fr_turn :: int
  fr_step :: int
  fr_provider :: string
  fr_failure :: llm_failure

definition local_delay :: "retry_backoff \<Rightarrow> int \<Rightarrow> rat \<Rightarrow> rat" where
  "local_delay b retry sample =
     (let ex = min (retry - 1) 1024;
          exponential = (if ex = 1024 then max_delay b
                         else min (initial_delay b * 2 ^ nat ex) (max_delay b));
          jitter = 1 - jitter_ratio b + 2 * jitter_ratio b * sample
      in min (exponential * jitter) (max_delay b))"

text \<open>
  \<^verbatim>\<open>JSON.stringify\<close> of the key's array is the parameter \<open>stringify\<close>; the codes are sorted by
  code units.
\<close>

definition retry_policy_key :: "(json \<Rightarrow> string) \<Rightarrow> retry_policy \<Rightarrow> string" where
  "retry_policy_key stringify p = (case p of
       AlwaysPolicy b \<Rightarrow> stringify (JArr [JStr ''always'', JNum (initial_delay b), JNum (max_delay b),
         JNum (jitter_ratio b)])
     | NormalPolicy n codes b \<Rightarrow> stringify (JArr [JStr ''normal'', JNum (of_int n),
         JArr (map JStr (sort codes)), JNum (initial_delay b), JNum (max_delay b),
         JNum (jitter_ratio b)]))"

definition delegate ::
  "recovery_env \<Rightarrow> retry_log_event list \<Rightarrow> request_error_action \<times> retry_log_event list" where
  "delegate env h =
     ((case env_downstream env of DownRetry \<Rightarrow> ActRetry | DownNone \<Rightarrow> ActNone | DownError \<Rightarrow> ActThrow),
      h @ env_downstream_events env)"

definition backoff_wait ::
  "recovery_env \<Rightarrow> failed_request \<Rightarrow> retry_policy \<Rightarrow> string \<Rightarrow> int \<Rightarrow> string \<Rightarrow> rat
   \<Rightarrow> retry_log_event list \<Rightarrow> request_error_action \<times> retry_log_event list" where
  "backoff_wait env fr policy key retry rid delay h =
     (if env_aborted_wait env then (ActNone, h)
      else
        let d = \<lparr> lr_id = rid, lr_turn = fr_turn fr, lr_step = fr_step fr,
                  lr_provider = fr_provider fr,
                  lr_mode = (case policy of NormalPolicy n _ _ \<Rightarrow> RetryNormal n | AlwaysPolicy _ \<Rightarrow> RetryAlways),
                  lr_policy_key = key, lr_retry = retry, lr_delay = delay, lr_failure = fr_failure fr \<rparr>;
            h1 = h @ [LlmRetry d] @ env_wait_events env
        in if \<not> env_timer_fires env then (ActNone, h1)
           else (ActRetry, h1 @ [LlmRetryStarted \<lparr> rs_id = rid, rs_turn = fr_turn fr,
                                                  rs_step = fr_step fr, rs_retry = retry \<rparr>]))"

text \<open>
  The part of \<^verbatim>\<open>recover\<close> that both modes share: continue the chain of the policy, or leave the
  failure to the next handler when the budget is spent or the provider asks for too long a wait.
\<close>

definition retry_delay :: "retry_policy \<Rightarrow> llm_failure \<Rightarrow> int \<Rightarrow> rat \<Rightarrow> rat option" where
  "retry_delay policy failure retry sample =
     (let b = policy_backoff policy
      in case failure_retry_after failure of
           Some after \<Rightarrow>
             if 0 < after then
               if max_delay b < after then
                 (case policy of
                    NormalPolicy _ _ _ \<Rightarrow> None
                  | AlwaysPolicy _ \<Rightarrow> Some (local_delay b retry sample))
               else Some after
             else Some (local_delay b retry sample)
         | None \<Rightarrow> Some (local_delay b retry sample))"

definition schedule_retry ::
  "(json \<Rightarrow> string) \<Rightarrow> retry_policy \<Rightarrow> failed_request \<Rightarrow> recovery_env \<Rightarrow> retry_log_event list
   \<Rightarrow> request_error_action \<times> retry_log_event list" where
  "schedule_retry stringify policy fr env h =
     (let key = retry_policy_key stringify policy;
          prior = prior_policy_retry h (fr_turn fr) (fr_step fr) (fr_provider fr) key;
          previous = (case prior of Some p \<Rightarrow> lr_retry p | None \<Rightarrow> 0)
      in if (case policy of NormalPolicy n _ _ \<Rightarrow> n \<le> previous | AlwaysPolicy _ \<Rightarrow> False)
         then delegate env h
         else
           let retry = previous + 1;
               rid = (case prior of Some p \<Rightarrow> lr_id p | None \<Rightarrow> env_fresh_id env)
           in case retry_delay policy (fr_failure fr) retry (env_sample env) of
                None \<Rightarrow> delegate env h
              | Some delay \<Rightarrow> backoff_wait env fr policy key retry rid delay h)"

definition recover ::
  "(json \<Rightarrow> string) \<Rightarrow> retry_policy option \<Rightarrow> failed_request \<Rightarrow> recovery_env \<Rightarrow> retry_log_event list
   \<Rightarrow> request_error_action \<times> retry_log_event list" where
  "recover stringify policy fr env h =
     (if env_disposed env then (ActNone, h)
      else case policy of
        None \<Rightarrow> delegate env h
      | Some (AlwaysPolicy b) \<Rightarrow>
          if env_aborted_entry env then (ActNone, h)
          else
            let h1 = h @ env_downstream_events env
            in if env_aborted_after env then (ActNone, h1)
               else if env_downstream env = DownRetry then (ActRetry, h1)
               else schedule_retry stringify (AlwaysPolicy b) fr env h1
      | Some (NormalPolicy n codes b) \<Rightarrow>
          if failure_code (fr_failure fr) \<notin> set codes then delegate env h
          else schedule_retry stringify (NormalPolicy n codes b) fr env h)"

section \<open>Resolved policies\<close>

definition backoff_ok :: "retry_backoff \<Rightarrow> bool" where
  "backoff_ok b \<longleftrightarrow> 0 < initial_delay b \<and> initial_delay b \<le> max_delay b \<and>
     max_delay b \<le> max_timer_delay \<and> 0 \<le> jitter_ratio b \<and> jitter_ratio b \<le> 1"

fun policy_ok :: "retry_policy \<Rightarrow> bool" where
  "policy_ok (NormalPolicy n codes b) \<longleftrightarrow>
     0 \<le> n \<and> safe_int n \<and> codes \<noteq> [] \<and> distinct codes \<and> [] \<notin> set codes \<and> backoff_ok b"
| "policy_ok (AlwaysPolicy b) \<longleftrightarrow> backoff_ok b"

lemma finite_in_Inr [simp]: "finite_in P n e = Inr r \<longleftrightarrow> n = Finite r \<and> P r"
  by (auto simp: finite_in_def split: config_number.splits)

lemma resolve_backoff_ok: "resolve_backoff config path = Inr b \<Longrightarrow> backoff_ok b"
  by (auto simp: resolve_backoff_def backoff_ok_def Let_def)

lemma code_strings_Some: "code_strings cs = Some ss \<Longrightarrow> cs = map CodeStr ss \<and> [] \<notin> set ss"
  by (induction cs arbitrary: ss rule: code_strings.induct) (auto split: if_splits)

lemma code_strings_map: "[] \<notin> set ss \<Longrightarrow> code_strings (map CodeStr ss) = Some ss"
  by (induction ss) auto

lemma resolve_codes_ok:
  "resolve_codes config path = Inr ss \<Longrightarrow> ss \<noteq> [] \<and> distinct ss \<and> [] \<notin> set ss"
  by (auto simp: resolve_codes_def Let_def card_distinct dest!: code_strings_Some
      split: option.splits if_splits)

lemma resolve_max_retries_ok:
  "resolve_max_retries n path = Inr m \<Longrightarrow> 0 \<le> m \<and> safe_int m"
  by (auto simp: resolve_max_retries_def safe_num_def)

text \<open>The values a configuration asks for, defaults filled in.\<close>

definition asked :: "config_number option \<Rightarrow> rat \<Rightarrow> rat \<Rightarrow> bool" where
  "asked n d r \<longleftrightarrow> or_default n d = Finite r"

definition asked_backoff :: "backoff_config option \<Rightarrow> retry_backoff \<Rightarrow> bool" where
  "asked_backoff config b = (case config of
       None \<Rightarrow> b = \<lparr> initial_delay = default_initial_delay, max_delay = default_max_delay,
                     jitter_ratio = default_jitter \<rparr>
     | Some c \<Rightarrow> set (bc_keys c) \<subseteq> set backoff_keys \<and>
         asked (bc_initial c) default_initial_delay (initial_delay b) \<and>
         asked (bc_max c) default_max_delay (max_delay b) \<and>
         asked (bc_jitter c) default_jitter (jitter_ratio b))"

definition asked_codes :: "code_value list option \<Rightarrow> string list \<Rightarrow> bool" where
  "asked_codes config codes =
     ((case config of Some cs \<Rightarrow> cs | None \<Rightarrow> map CodeStr default_codes) = map CodeStr codes)"

fun asks_for :: "retry_policy_config option \<Rightarrow> retry_policy \<Rightarrow> bool" where
  "asks_for None p \<longleftrightarrow> (\<exists>b. p = NormalPolicy default_max_retries default_codes b \<and> asked_backoff None b)"
| "asks_for (Some c) (NormalPolicy n codes b) \<longleftrightarrow>
     rp_mode c = ''normal'' \<and> set (rp_keys c) \<subseteq> set normal_policy_keys \<and>
     asked (rp_max_retries c) (of_int default_max_retries) (of_int n) \<and>
     asked_codes (rp_codes c) codes \<and> asked_backoff (rp_backoff c) b"
| "asks_for (Some c) (AlwaysPolicy b) \<longleftrightarrow>
     rp_mode c = ''always'' \<and> set (rp_keys c) \<subseteq> set always_policy_keys \<and> asked_backoff (rp_backoff c) b"

lemma validate_keys_Inr [simp]: "validate_keys ks allowed path = Inr u \<longleftrightarrow> set ks \<subseteq> set allowed"
  by (induction ks) auto

lemma resolve_backoff_iff:
  "resolve_backoff config path = Inr b \<longleftrightarrow> asked_backoff config b \<and> backoff_ok b"
  by (cases b) (auto simp: resolve_backoff_def asked_backoff_def backoff_ok_def Let_def asked_def
      or_default_def split: option.splits)

lemma resolve_codes_iff:
  "resolve_codes config path = Inr ss \<longleftrightarrow>
     asked_codes config ss \<and> ss \<noteq> [] \<and> distinct ss \<and> [] \<notin> set ss"
  by (auto simp: resolve_codes_def asked_codes_def Let_def code_strings_map card_distinct
      distinct_card dest: code_strings_Some split: option.splits if_splits)

lemma resolve_max_retries_iff:
  "resolve_max_retries n path = Inr m \<longleftrightarrow>
     asked n (of_int default_max_retries) (of_int m) \<and> 0 \<le> m \<and> safe_int m"
  by (auto simp: resolve_max_retries_def asked_def safe_num_def)

text \<open>
  The resolution of a retry policy accepts exactly the configurations that ask for a policy
  within the bounds, and returns the policy they ask for: a positive initial delay no longer than
  the maximum delay, which a timer can wait, a jitter ratio within zero and one, a safe
  non-negative budget, and non-empty codes without duplicates; a misspelt key is never ignored.
\<close>

theorem resolve_retry_policy_iff:
  "resolve_retry_policy config path = Inr p \<longleftrightarrow> asks_for config p \<and> policy_ok p"
proof (cases config)
  case None
  have "default_max_retries \<ge> 0 \<and> safe_int default_max_retries \<and> default_codes \<noteq> [] \<and>
        distinct default_codes \<and> [] \<notin> set default_codes"
    by (simp add: default_max_retries_def safe_int_def max_safe_def default_codes_def)
  with None show ?thesis by (auto simp: resolve_retry_policy_def resolve_backoff_iff)
next
  case (Some c)
  then show ?thesis
    by (cases p) (auto simp: resolve_retry_policy_def resolve_backoff_iff resolve_codes_iff
        resolve_max_retries_iff)
qed

section \<open>Chains of retries\<close>

definition chain_member :: "int \<Rightarrow> int \<Rightarrow> string \<Rightarrow> string \<Rightarrow> retry_log_event \<Rightarrow> llm_retry option" where
  "chain_member t s p k e = (case e of
       LlmRetry d \<Rightarrow> if in_chain t s p k e then Some d else None | _ \<Rightarrow> None)"

definition chain :: "int \<Rightarrow> int \<Rightarrow> string \<Rightarrow> string \<Rightarrow> retry_log_event list \<Rightarrow> llm_retry list" where
  "chain t s p k h = List.map_filter (chain_member t s p k) h"



lemma chain_append: "chain t s p k (h @ h') = chain t s p k h @ chain t s p k h'"
  by (simp add: chain_def map_filter_append)

lemma chain_single:
  "chain t s p k [e] = (case e of LlmRetry d \<Rightarrow> if in_chain t s p k e then [d] else [] | _ \<Rightarrow> [])"
  by (auto simp: chain_def chain_member_def split: retry_log_event.splits)

lemma find_last_Nil [simp]: "find_last P [] = None"
  by (simp add: find_last_def)

lemma find_last_snoc: "find_last P (xs @ [x]) = (if P x then Some x else find_last P xs)"
  by (simp add: find_last_def)

lemma find_last_skip: "(\<And>y. y \<in> set ys \<Longrightarrow> \<not> P y) \<Longrightarrow> find_last P (xs @ ys) = find_last P xs"
  by (induction ys rule: rev_induct) (auto simp: find_last_snoc simp flip: append_assoc)

lemma find_last_SomeD: "find_last P xs = Some x \<Longrightarrow> x \<in> set xs \<and> P x"
  by (induction xs rule: rev_induct) (auto simp: find_last_snoc split: if_splits)

lemma prior_is_last:
  "prior_policy_retry h t s p k = (if chain t s p k h = [] then None else Some (last (chain t s p k h)))"
proof (induction h rule: rev_induct)
  case Nil
  show ?case by (simp add: prior_policy_retry_def chain_def)
next
  case (snoc e h)
  then show ?case
    by (cases e) (auto simp: prior_policy_retry_def chain_append chain_single find_last_snoc in_chain_def)
qed

lemma in_set_chain:
  "d \<in> set (chain t s p k h) \<longleftrightarrow> LlmRetry d \<in> set h \<and> in_chain t s p k (LlmRetry d)"
proof -
  have "chain_member t s p k e = Some d \<longleftrightarrow> e = LlmRetry d \<and> in_chain t s p k (LlmRetry d)" for e
    by (cases e) (auto simp: chain_member_def)
  then show ?thesis by (auto simp: chain_def set_map_filter)
qed

fun is_retry_record :: "retry_log_event \<Rightarrow> bool" where
  "is_retry_record (CoreEvent _) = False"
| "is_retry_record _ = True"

lemma chain_foreign: "list_all (\<lambda>e. \<not> is_retry_record e) ds \<Longrightarrow> chain t s p k ds = []"
  by (induction ds) (auto simp: chain_def chain_member_def split: retry_log_event.splits)

section \<open>What a valid history satisfies\<close>

definition history_valid :: "retry_log_event list \<Rightarrow> bool" where
  "history_valid h \<longleftrightarrow> is_ok (validate_session h)"

lemma validate_session_from_snoc:
  "is_ok (validate_session_from h (es @ [e])) \<longleftrightarrow>
     is_ok (validate_session_from h es) \<and> is_ok (validate_record (h @ es) e)"
  by (induction es arbitrary: h) (auto simp: bind_res_def split: sum.splits)

lemma history_valid_Nil [simp]: "history_valid []"
  by (simp add: history_valid_def validate_session_def)

lemma history_valid_snoc:
  "history_valid (h @ [e]) \<longleftrightarrow> history_valid h \<and> is_ok (validate_record h e)"
  by (simp add: history_valid_def validate_session_def validate_session_from_snoc)

lemma history_valid_foreign:
  "list_all (\<lambda>e. \<not> is_retry_record e) ds \<Longrightarrow> history_valid h \<Longrightarrow> history_valid (h @ ds)"
proof (induction ds rule: rev_induct)
  case Nil
  then show ?case by simp
next
  case (snoc e ds)
  then show ?case by (cases e) (simp_all add: history_valid_snoc flip: append_assoc)
qed

lemma valid_record_in:
  assumes "history_valid h" and "LlmRetry d \<in> set h"
  shows "\<exists>h1. is_ok (validate_retry h1 d)"
  using assms
proof (induction h rule: rev_induct)
  case Nil
  then show ?case by simp
next
  case (snoc e h)
  then show ?case by (cases "e = LlmRetry d") (auto simp: history_valid_snoc)
qed

definition chains_ok :: "retry_log_event list \<Rightarrow> bool" where
  "chains_ok h \<longleftrightarrow> (\<forall>t s p k. let c = chain t s p k h in
     map lr_retry c = map int [1 ..< Suc (length c)] \<and> (\<forall>d \<in> set c. lr_id d = lr_id (hd c)))"

definition ids_ok :: "retry_log_event list \<Rightarrow> bool" where
  "ids_ok h \<longleftrightarrow> (\<forall>d d'. LlmRetry d \<in> set h \<and> LlmRetry d' \<in> set h \<and> lr_id d = lr_id d' \<longrightarrow>
     in_chain (lr_turn d) (lr_step d) (lr_provider d) (lr_policy_key d) (LlmRetry d'))"

definition started_ok :: "retry_log_event list \<Rightarrow> bool" where
  "started_ok h \<longleftrightarrow> (\<forall>r. LlmRetryStarted r \<in> set h \<longrightarrow>
     (\<exists>d. LlmRetry d \<in> set h \<and> lr_id d = rs_id r \<and> lr_retry d = rs_retry r))"

lemma validate_retry_parts:
  assumes "is_ok (validate_retry h d)"
  shows "validate_failure (lr_failure d) = Inr ()" and "1 \<le> lr_retry d" and "validate_mode d"
    and "0 \<le> lr_delay d" and "lr_delay d \<le> max_timer_delay"
    and "is_ok (validate_chain h d)" and "is_ok (validate_open_step h d)"
  using assms by (auto simp: validate_retry_def is_ok_iff)

lemma last_chain_retry:
  assumes "map lr_retry c = map int [1 ..< Suc (length c)]" and "c \<noteq> []"
  shows "lr_retry (last c) = int (length c)"
proof -
  have "lr_retry (last c) = map lr_retry c ! (length c - 1)"
    using assms(2) by (simp add: last_conv_nth)
  also have "\<dots> = int (length c)" unfolding assms(1) using assms(2) by (cases c) (simp_all del: upt_Suc)
  finally show ?thesis .
qed

lemma validate_chain_step:
  assumes "is_ok (validate_chain h d)" and "chains_ok h"
  defines "c \<equiv> chain (lr_turn d) (lr_step d) (lr_provider d) (lr_policy_key d) h"
  shows "lr_retry d = int (length c) + 1"
    and "c \<noteq> [] \<Longrightarrow> lr_id d = lr_id (hd c)"
    and "c = [] \<Longrightarrow> \<not> list_ex (names_id (lr_id d)) h"
proof -
  from assms(2) have nums: "map lr_retry c = map int [1 ..< Suc (length c)]"
    and ids: "\<forall>x \<in> set c. lr_id x = lr_id (hd c)"
    by (simp_all add: chains_ok_def c_def Let_def)
  have v: "is_ok (validate_chain h d)" by (rule assms(1))
  show "lr_retry d = int (length c) + 1"
    using v last_chain_retry [OF nums]
    by (cases "c = []") (simp_all add: validate_chain_def Let_def prior_is_last is_ok_iff flip: c_def)
  show "lr_id d = lr_id (hd c)" if "c \<noteq> []"
  proof -
    from v that have "lr_id (last c) = lr_id d"
      by (simp add: validate_chain_def Let_def prior_is_last is_ok_iff flip: c_def)
    with bspec [OF ids, of "last c"] that show ?thesis by simp
  qed
  show "\<not> list_ex (names_id (lr_id d)) h" if "c = []"
    using v that by (simp add: validate_chain_def Let_def prior_is_last is_ok_iff flip: c_def)
qed

lemma chains_ok_other:
  assumes "chains_ok h" and "\<forall>d. e \<noteq> LlmRetry d"
  shows "chains_ok (h @ [e])"
proof -
  have "chain t s p k (h @ [e]) = chain t s p k h" for t s p k
    using assms(2) by (simp add: chain_append chain_single split: retry_log_event.split)
  with assms(1) show ?thesis by (simp add: chains_ok_def)
qed

lemma chains_ok_more:
  assumes "chains_ok h" and "is_ok (validate_chain h d)"
  shows "chains_ok (h @ [LlmRetry d])"
proof -
  note step = validate_chain_step [OF assms(2,1)]
  have "let c = chain t s p k (h @ [LlmRetry d]) in
      map lr_retry c = map int [1 ..< Suc (length c)] \<and> (\<forall>x \<in> set c. lr_id x = lr_id (hd c))" for t s p k
  proof (cases "in_chain t s p k (LlmRetry d)")
    case True
    then have tspk: "t = lr_turn d" "s = lr_step d" "p = lr_provider d" "k = lr_policy_key d"
      by (auto simp: in_chain_def)
    then have new: "chain t s p k (h @ [LlmRetry d]) = chain t s p k h @ [d]"
      using True by (simp add: chain_append chain_single)
    from assms(1) have nums: "map lr_retry (chain t s p k h) = map int [1 ..< Suc (length (chain t s p k h))]"
      and ids: "\<And>x. x \<in> set (chain t s p k h) \<Longrightarrow> lr_id x = lr_id (hd (chain t s p k h))"
      unfolding chains_ok_def Let_def by blast+
    have "lr_retry d = int (length (chain t s p k h)) + 1" using step(1) tspk by simp
    with nums have "map lr_retry (chain t s p k h @ [d]) = map int [1 ..< Suc (length (chain t s p k h @ [d]))]"
      by simp
    moreover have "lr_id x = lr_id (hd (chain t s p k h @ [d]))"
      if "x \<in> set (chain t s p k h @ [d])" for x
    proof (cases "chain t s p k h = []")
      case True
      with that show ?thesis by simp
    next
      case False
      then have "hd (chain t s p k h @ [d]) = hd (chain t s p k h)" by simp
      moreover have "lr_id d = lr_id (hd (chain t s p k h))" using step(2) tspk False by simp
      ultimately show ?thesis using that ids by (metis Un_iff empty_iff insert_iff list.set(1,2) set_append)
    qed
    ultimately show ?thesis unfolding new Let_def by blast
  next
    case False
    then have "chain t s p k (h @ [LlmRetry d]) = chain t s p k h"
      by (simp add: chain_append chain_single)
    with assms(1) show ?thesis by (simp add: chains_ok_def)
  qed
  then show ?thesis by (simp add: chains_ok_def)
qed

lemma in_chain_trans:
  "in_chain t s p k (LlmRetry d) \<longleftrightarrow> t = lr_turn d \<and> s = lr_step d \<and> p = lr_provider d \<and> k = lr_policy_key d"
  by (auto simp: in_chain_def)

lemma valid_history_facts: "history_valid h \<Longrightarrow> chains_ok h \<and> ids_ok h \<and> started_ok h"
proof (induction h rule: rev_induct)
  case Nil
  show ?case by (simp add: chains_ok_def ids_ok_def started_ok_def chain_def)
next
  case (snoc e h)
  then have IH: "chains_ok h" "ids_ok h" "started_ok h" and ok: "is_ok (validate_record h e)"
    by (simp_all add: history_valid_snoc)
  show ?case
  proof (cases e)
    case (CoreEvent x)
    with IH chains_ok_other [OF IH(1), of e] show ?thesis by (simp add: ids_ok_def started_ok_def)
  next
    case (LlmRetryStarted r)
    with ok obtain d where "find_last (schedules (rs_id r) (rs_retry r)) h = Some (LlmRetry d)"
      by (auto simp: validate_started_def is_ok_iff split: option.splits retry_log_event.splits)
    from find_last_SomeD [OF this]
    have "\<exists>d. LlmRetry d \<in> set h \<and> lr_id d = rs_id r \<and> lr_retry d = rs_retry r" by auto
    with IH chains_ok_other [OF IH(1), of e] LlmRetryStarted show ?thesis
      by (auto simp: ids_ok_def started_ok_def)
  next
    case (LlmRetry d)
    let ?c = "chain (lr_turn d) (lr_step d) (lr_provider d) (lr_policy_key d) h"
    from ok LlmRetry have vc: "is_ok (validate_chain h d)" by (simp add: validate_retry_parts)
    note step = validate_chain_step [OF vc IH(1)]
    have "chains_ok (h @ [e])"
      using chains_ok_more [OF IH(1) vc] LlmRetry by simp
    moreover have "ids_ok (h @ [e])"
    proof -
      have "in_chain (lr_turn d) (lr_step d) (lr_provider d) (lr_policy_key d) (LlmRetry d')"
        if "LlmRetry d' \<in> set h" "lr_id d' = lr_id d" for d'
      proof (cases "?c = []")
        case True
        with step(3) that show ?thesis by (auto simp: list_ex_iff)
      next
        case False
        then have "hd ?c \<in> set ?c" by simp
        then have "LlmRetry (hd ?c) \<in> set h"
          and "in_chain (lr_turn d) (lr_step d) (lr_provider d) (lr_policy_key d) (LlmRetry (hd ?c))"
          unfolding in_set_chain by simp_all
        moreover have "lr_id (hd ?c) = lr_id d'" using step(2) False that by simp
        ultimately show ?thesis using IH(2) that(1)
          unfolding ids_ok_def in_chain_trans by metis
      qed
      then show ?thesis using IH(2) LlmRetry unfolding ids_ok_def in_chain_trans
        by (metis (no_types, lifting) Un_iff empty_iff insert_iff list.set(1,2)
            retry_log_event.inject(2) set_append)
    qed
    moreover have "started_ok (h @ [e])" using IH(3) LlmRetry by (auto simp: started_ok_def)
    ultimately show ?thesis by simp
  qed
qed

section \<open>The executor keeps the history valid\<close>

lemma local_delay_bounds:
  assumes "backoff_ok b" and "0 \<le> sample" and "sample \<le> 1"
  shows "0 \<le> local_delay b retry sample \<and> local_delay b retry sample \<le> max_delay b"
proof -
  have j: "0 \<le> jitter_ratio b" "jitter_ratio b \<le> 1" and i: "0 < initial_delay b"
    and m: "0 < max_delay b"
    using assms(1) by (auto simp: backoff_ok_def)
  have "0 \<le> 1 - jitter_ratio b + 2 * jitter_ratio b * sample" using j assms(2) by simp
  with i m show ?thesis
    by (auto simp: local_delay_def Let_def min_def mult_nonneg_nonneg)
qed

text \<open>
  The step whose request failed is the open one, and its route is the failed request's provider.
\<close>

definition at_open_step :: "failed_request \<Rightarrow> retry_log_event list \<Rightarrow> bool" where
  "at_open_step fr h \<longleftrightarrow>
     find_last turn_boundary h = Some (CoreEvent (TurnStart (fr_turn fr))) \<and>
     find_last step_boundary h = Some (CoreEvent (StepStart (fr_turn fr) (fr_step fr))) \<and>
     provider_for_open_step h (fr_turn fr) (fr_step fr) = Some (fr_provider fr)"

text \<open>
  What the executor relies on: the failure payload is one \<^verbatim>\<open>LlmError\<close> can carry, a fresh id is
  non-empty and new to the session, samples are within zero and one, retry records are written by
  the executor alone, and no chain is older than the safe integers.
\<close>

definition env_ok :: "recovery_env \<Rightarrow> retry_log_event list \<Rightarrow> bool" where
  "env_ok env h \<longleftrightarrow> env_fresh_id env \<noteq> [] \<and> \<not> list_ex (names_id (env_fresh_id env)) h \<and>
     0 \<le> env_sample env \<and> env_sample env \<le> 1 \<and>
     list_all (\<lambda>e. \<not> is_retry_record e) (env_downstream_events env) \<and>
     list_all (\<lambda>e. \<not> is_retry_record e) (env_wait_events env) \<and> int (length h) < max_safe"

definition failure_ok :: "failed_request \<Rightarrow> bool" where
  "failure_ok fr \<longleftrightarrow> is_ok (validate_failure (fr_failure fr)) \<and> fr_provider fr \<noteq> []"

lemma retry_delay_bounds:
  assumes "policy_ok policy" and "0 \<le> sample" and "sample \<le> 1"
    and "retry_delay policy failure retry sample = Some delay"
  shows "0 \<le> delay \<and> delay \<le> max_timer_delay"
proof -
  have b: "backoff_ok (policy_backoff policy)" using assms(1) by (cases policy) simp_all
  have m: "max_delay (policy_backoff policy) \<le> max_timer_delay" using b by (simp add: backoff_ok_def)
  from assms(4) local_delay_bounds [OF b assms(2,3), of retry] m show ?thesis
    by (auto simp: retry_delay_def Let_def split: option.splits if_splits retry_policy.splits)
qed

lemma chain_length_le: "length (chain t s p k h) \<le> length h"
  unfolding chain_def by (induction h) (auto split: option.splits)

lemma not_list_ex_foreign:
  "list_all (\<lambda>e. \<not> is_retry_record e) ds \<Longrightarrow> \<not> list_ex (names_id i) ds"
  by (induction ds) (auto elim!: is_retry_record.elims)

lemma scheduled_record_valid:
  assumes "history_valid h" and "at_open_step fr h" and "failure_ok fr" and "policy_ok policy"
    and "env_fresh_id env \<noteq> []" and "\<not> list_ex (names_id (env_fresh_id env)) h"
    and "int (length h) < max_safe" and "key \<noteq> []" and "0 \<le> delay" and "delay \<le> max_timer_delay"
  defines "c \<equiv> chain (fr_turn fr) (fr_step fr) (fr_provider fr) key h"
  assumes "\<And>n codes b. policy = NormalPolicy n codes b \<Longrightarrow> int (length c) < n"
    and "d = \<lparr> lr_id = (if c = [] then env_fresh_id env else lr_id (hd c)), lr_turn = fr_turn fr,
           lr_step = fr_step fr, lr_provider = fr_provider fr,
           lr_mode = (case policy of NormalPolicy n _ _ \<Rightarrow> RetryNormal n | AlwaysPolicy _ \<Rightarrow> RetryAlways),
           lr_policy_key = key, lr_retry = int (length c) + 1, lr_delay = delay,
           lr_failure = fr_failure fr \<rparr>"
  shows "is_ok (validate_retry h d)"
proof -
  have facts: "chains_ok h" using valid_history_facts [OF assms(1)] by simp
  then have nums: "map lr_retry c = map int [1 ..< Suc (length c)]"
    and ids: "\<And>x. x \<in> set c \<Longrightarrow> lr_id x = lr_id (hd c)"
    unfolding chains_ok_def Let_def c_def by blast+
  have id_nonempty: "lr_id x \<noteq> []" if "LlmRetry x \<in> set h" for x
  proof -
    from valid_record_in [OF assms(1) that] obtain h1 where "is_ok (validate_retry h1 x)" by blast
    then show ?thesis by (auto simp: validate_retry_def is_ok_iff)
  qed
  have hd_in: "c \<noteq> [] \<Longrightarrow> LlmRetry (hd c) \<in> set h"
    unfolding c_def using in_set_chain hd_in_set by metis
  have idne: "lr_id d \<noteq> []"
    using assms(5,13) id_nonempty hd_in by (cases "c = []") simp_all
  have len: "int (length c) < max_safe"
    using chain_length_le [of "fr_turn fr" "fr_step fr" "fr_provider fr" key h] assms(7) c_def by simp
  have mode: "validate_mode d"
    using assms(4,12,13) by (cases policy) (auto simp: validate_mode_def safe_int_def)
  have chain: "is_ok (validate_chain h d)"
  proof (cases "c = []")
    case True
    then show ?thesis using assms(6,13)
      by (simp add: validate_chain_def Let_def prior_is_last is_ok_iff flip: c_def)
  next
    case False
    then show ?thesis
      using ids [of "last c"] last_chain_retry [OF nums False] assms(13)
      by (simp add: validate_chain_def Let_def prior_is_last is_ok_iff flip: c_def)
  qed
  have step: "validate_open_step h d = Inr ()"
    using assms(2,13) by (simp add: validate_open_step_def at_open_step_def)
  have safe: "safe_int (lr_retry d) \<and> 1 \<le> lr_retry d"
    using len assms(13) by (simp add: safe_int_def max_safe_def)
  have fail: "validate_failure (lr_failure d) = Inr ()" and prov: "lr_provider d \<noteq> []"
    using assms(3,13) by (auto simp: failure_ok_def is_ok_iff)
  show ?thesis
    using idne fail prov safe mode step chain assms(8,9,10,13)
    by (simp add: validate_retry_def)
qed

lemma started_record_valid:
  assumes "history_valid (h @ [LlmRetry d])" and "list_all (\<lambda>e. \<not> is_retry_record e) ws"
  shows "is_ok (validate_started (h @ [LlmRetry d] @ ws)
    \<lparr> rs_id = lr_id d, rs_turn = lr_turn d, rs_step = lr_step d, rs_retry = lr_retry d \<rparr>)"
proof -
  have vh: "history_valid h" and vd: "is_ok (validate_retry h d)"
    using assms(1) by (simp_all add: history_valid_snoc)
  have facts: "chains_ok h" "started_ok h" and
    facts': "ids_ok (h @ [LlmRetry d])"
    using valid_history_facts [OF vh] valid_history_facts [OF assms(1)] by simp_all
  let ?c = "chain (lr_turn d) (lr_step d) (lr_provider d) (lr_policy_key d) h"
  have num: "lr_retry d = int (length ?c) + 1"
    using validate_chain_step(1) [OF _ facts(1)] vd validate_retry_parts(6) by blast
  have ws: "LlmRetry x \<notin> set ws" "LlmRetryStarted r \<notin> set ws" for x r
    using assms(2) by (auto simp: list_all_iff)
  have "find_last (schedules (lr_id d) (lr_retry d)) ((h @ [LlmRetry d]) @ ws) = Some (LlmRetry d)"
    using ws(1) by (subst find_last_skip) (auto simp: find_last_snoc elim!: schedules.elims)
  moreover have "\<not> list_ex (starts (lr_id d) (lr_retry d)) h"
  proof
    assume "list_ex (starts (lr_id d) (lr_retry d)) h"
    then obtain r where "LlmRetryStarted r \<in> set h" "rs_id r = lr_id d" "rs_retry r = lr_retry d"
      by (auto simp: list_ex_iff elim!: starts.elims)
    with facts(2) obtain x where x: "LlmRetry x \<in> set h" "lr_id x = lr_id d" "lr_retry x = lr_retry d"
      unfolding started_ok_def by metis
    with facts' have "in_chain (lr_turn d) (lr_step d) (lr_provider d) (lr_policy_key d) (LlmRetry x)"
      unfolding ids_ok_def in_chain_trans by (metis in_set_conv_decomp Un_iff set_append)
    with x(1) have "x \<in> set ?c" by (simp add: in_set_chain)
    then have "lr_retry x \<in> set (map lr_retry ?c)" by simp
    moreover have "map lr_retry ?c = map int [1 ..< Suc (length ?c)]"
      using facts(1) by (simp add: chains_ok_def Let_def del: upt_Suc)
    ultimately have "lr_retry x \<le> int (length ?c)" by (auto simp del: upt_Suc)
    with x(3) num show False by simp
  qed
  moreover have "\<not> list_ex (starts (lr_id d) (lr_retry d)) ws"
    using ws(2) by (auto simp: list_ex_iff elim!: starts.elims)
  moreover have "lr_id d \<noteq> []" using vd by (auto simp: validate_retry_def is_ok_iff)
  ultimately show ?thesis by (simp add: validate_started_def)
qed

definition scheduling_history ::
  "retry_policy option \<Rightarrow> recovery_env \<Rightarrow> retry_log_event list \<Rightarrow> retry_log_event list" where
  "scheduling_history policy env h =
     (case policy of Some (AlwaysPolicy _) \<Rightarrow> h @ env_downstream_events env | _ \<Rightarrow> h)"

lemma backoff_wait_valid:
  assumes "history_valid h" and "list_all (\<lambda>e. \<not> is_retry_record e) (env_wait_events env)"
    and "\<And>d. d = \<lparr> lr_id = rid, lr_turn = fr_turn fr, lr_step = fr_step fr, lr_provider = fr_provider fr,
        lr_mode = (case policy of NormalPolicy n _ _ \<Rightarrow> RetryNormal n | AlwaysPolicy _ \<Rightarrow> RetryAlways),
        lr_policy_key = key, lr_retry = retry, lr_delay = delay, lr_failure = fr_failure fr \<rparr> \<Longrightarrow>
      is_ok (validate_retry h d)"
  shows "history_valid (snd (backoff_wait env fr policy key retry rid delay h))"
proof -
  let ?d = "\<lparr> lr_id = rid, lr_turn = fr_turn fr, lr_step = fr_step fr, lr_provider = fr_provider fr,
      lr_mode = (case policy of NormalPolicy n _ _ \<Rightarrow> RetryNormal n | AlwaysPolicy _ \<Rightarrow> RetryAlways),
      lr_policy_key = key, lr_retry = retry, lr_delay = delay, lr_failure = fr_failure fr \<rparr>"
  have "is_ok (validate_retry h ?d)" by (rule assms(3)) simp
  then have v1: "history_valid (h @ [LlmRetry ?d])" using assms(1) by (simp add: history_valid_snoc)
  from history_valid_foreign [OF assms(2) v1]
  have v2: "history_valid (h @ [LlmRetry ?d] @ env_wait_events env)" by simp
  have v3: "history_valid ((h @ [LlmRetry ?d] @ env_wait_events env) @ [LlmRetryStarted
      \<lparr> rs_id = rid, rs_turn = fr_turn fr, rs_step = fr_step fr, rs_retry = retry \<rparr>])"
    unfolding history_valid_snoc using v2 started_record_valid [OF v1 assms(2)] by simp
  show ?thesis unfolding backoff_wait_def Let_def using assms(1) v2 v3
    by (simp split: if_split)
qed

lemma schedule_retry_valid:
  assumes "history_valid h" and "at_open_step fr h" and "failure_ok fr" and "policy_ok policy"
    and "env_ok env h" and "\<And>j. stringify j \<noteq> []"
  shows "history_valid (snd (schedule_retry stringify policy fr env h))"
proof -
  let ?key = "retry_policy_key stringify policy"
  let ?c = "chain (fr_turn fr) (fr_step fr) (fr_provider fr) ?key h"
  have key: "?key \<noteq> []" using assms(6) by (cases policy) (simp_all add: retry_policy_key_def)
  have foreign: "history_valid (snd (delegate env h))"
    using history_valid_foreign assms(1,5) by (simp add: delegate_def env_ok_def)
  have facts: "chains_ok h" using valid_history_facts [OF assms(1)] by simp
  have nums: "map lr_retry ?c = map int [1 ..< Suc (length ?c)]"
    and ids: "\<And>x. x \<in> set ?c \<Longrightarrow> lr_id x = lr_id (hd ?c)"
    using facts unfolding chains_ok_def Let_def by blast+
  have prev: "(case prior_policy_retry h (fr_turn fr) (fr_step fr) (fr_provider fr) ?key of
      Some p \<Rightarrow> lr_retry p | None \<Rightarrow> 0) = int (length ?c)"
    using last_chain_retry [OF nums] by (simp add: prior_is_last)
  have rid: "(case prior_policy_retry h (fr_turn fr) (fr_step fr) (fr_provider fr) ?key of
      Some p \<Rightarrow> lr_id p | None \<Rightarrow> env_fresh_id env) =
      (if ?c = [] then env_fresh_id env else lr_id (hd ?c))"
    using ids [of "last ?c"] by (simp add: prior_is_last)
  show ?thesis
  proof (cases "case policy of NormalPolicy n _ _ \<Rightarrow> n \<le> int (length ?c) | AlwaysPolicy _ \<Rightarrow> False")
    case True
    then show ?thesis using foreign unfolding schedule_retry_def Let_def prev by simp
  next
    case budget: False
    show ?thesis
    proof (cases "retry_delay policy (fr_failure fr) (int (length ?c) + 1) (env_sample env)")
      case None
      then show ?thesis using foreign budget unfolding schedule_retry_def Let_def prev by simp
    next
      case (Some delay)
      have "0 \<le> env_sample env" "env_sample env \<le> 1" using assms(5) by (simp_all add: env_ok_def)
      from retry_delay_bounds [OF assms(4) this Some]
      have delay: "0 \<le> delay" "delay \<le> max_timer_delay" by simp_all
      have "history_valid (snd (backoff_wait env fr policy ?key (int (length ?c) + 1)
          (if ?c = [] then env_fresh_id env else lr_id (hd ?c)) delay h))"
      proof (rule backoff_wait_valid [OF assms(1)])
        show "list_all (\<lambda>e. \<not> is_retry_record e) (env_wait_events env)"
          using assms(5) by (simp add: env_ok_def)
      next
        fix d
        assume "d = \<lparr> lr_id = (if ?c = [] then env_fresh_id env else lr_id (hd ?c)),
            lr_turn = fr_turn fr, lr_step = fr_step fr, lr_provider = fr_provider fr,
            lr_mode = (case policy of NormalPolicy n _ _ \<Rightarrow> RetryNormal n | AlwaysPolicy _ \<Rightarrow> RetryAlways),
            lr_policy_key = ?key, lr_retry = int (length ?c) + 1, lr_delay = delay,
            lr_failure = fr_failure fr \<rparr>"
        then show "is_ok (validate_retry h d)"
          using assms(5) budget
          by (intro scheduled_record_valid [OF assms(1-4), of env ?key delay d] key delay)
            (auto simp: env_ok_def)
      qed
      then show ?thesis using Some budget unfolding schedule_retry_def Let_def prev rid by simp
    qed
  qed
qed

text \<open>
  C18: whatever the environment answers, one recovery leaves a session whose retry records all pass
  the package's own validation: the numbers of a chain follow each other, its id is kept, the
  budget and the timer bound hold, the records name the open step and its provider, and a wait
  that completes is recorded once, against the attempt that was scheduled.
\<close>

theorem recovery_keeps_records_valid:
  assumes "history_valid h"
    and "at_open_step fr (scheduling_history policy env h)"
    and "env_ok env (scheduling_history policy env h)"
    and "failure_ok fr"
    and "case policy of Some p \<Rightarrow> policy_ok p | None \<Rightarrow> True"
    and "\<And>j. stringify j \<noteq> []"
  shows "history_valid (snd (recover stringify policy fr env h))"
proof -
  have ds: "history_valid (h @ env_downstream_events env)"
    using history_valid_foreign assms(1,3) by (simp add: env_ok_def)
  show ?thesis
  proof (cases policy)
    case None
    with ds assms(1) show ?thesis by (simp add: recover_def delegate_def)
  next
    case (Some p)
    show ?thesis
    proof (cases p)
      case (NormalPolicy n codes b)
      with Some schedule_retry_valid [OF assms(1) _ assms(4), of p env stringify] assms(1,2,3,5,6) ds
      show ?thesis by (simp add: recover_def delegate_def scheduling_history_def)
    next
      case (AlwaysPolicy b)
      with Some schedule_retry_valid [OF ds _ assms(4), of p env stringify] assms(1,2,3,5,6) ds
      show ?thesis by (simp add: recover_def Let_def scheduling_history_def)
    qed
  qed
qed

text \<open>
  The budget of a normal policy bounds the retries of one request: in a valid session the
  records of one chain (a step, a provider, a policy) are numbered from one without a gap, they
  share their id, and a chain whose records carry a budget is no longer than the budget.
\<close>

theorem retry_budget:
  assumes "history_valid h"
  shows "map lr_retry (chain turn step provider key h)
       = map int [1 ..< Suc (length (chain turn step provider key h))] \<and>
     (\<forall>d \<in> set (chain turn step provider key h). \<forall>d' \<in> set (chain turn step provider key h).
        lr_id d = lr_id d') \<and>
     (\<forall>n. chain turn step provider key h \<noteq> [] \<longrightarrow>
        lr_mode (last (chain turn step provider key h)) = RetryNormal n \<longrightarrow>
        int (length (chain turn step provider key h)) \<le> n)"
proof -
  let ?c = "chain turn step provider key h"
  have facts: "chains_ok h" using valid_history_facts [OF assms] by simp
  have nums: "map lr_retry ?c = map int [1 ..< Suc (length ?c)]"
    and ids: "\<And>x. x \<in> set ?c \<Longrightarrow> lr_id x = lr_id (hd ?c)"
    using facts unfolding chains_ok_def Let_def by blast+
  have "int (length ?c) \<le> n" if "?c \<noteq> []" "lr_mode (last ?c) = RetryNormal n" for n
  proof -
    from that(1) have "LlmRetry (last ?c) \<in> set h" using in_set_chain last_in_set by metis
    from valid_record_in [OF assms this] have "validate_mode (last ?c)"
      using validate_retry_parts(3) by blast
    with that last_chain_retry [OF nums that(1)] show ?thesis by (simp add: validate_mode_def)
  qed
  moreover have "lr_id d = lr_id d'" if "d \<in> set ?c" "d' \<in> set ?c" for d d'
    using ids that by metis
  ultimately show ?thesis using nums by blast
qed

section \<open>Witnesses\<close>

definition sample_config :: llm_call_config where
  "sample_config = \<lparr> cfg_provider = ''deepseek'', cfg_model = ''chat'', cfg_reasoning_effort = None,
     cfg_temperature = None, cfg_max_tokens = None, cfg_stop = None \<rparr>"

definition sample_history :: "retry_log_event list" where
  "sample_history = [CoreEvent (TurnStart 1), CoreEvent (StepStart 1 1),
     CoreEvent (RequestHeader \<lparr> eh_config = sample_config, eh_adapter_defaults = None,
       eh_system = None, eh_tools = None \<rparr> ''f'')]"

definition sample_failure :: llm_failure where
  "sample_failure = \<lparr> failure_message = ''busy'', failure_code = ''SERVER'', failure_status = Some 503,
     failure_retry_after = None, failure_request_id = None \<rparr>"

definition sample_request :: failed_request where
  "sample_request = \<lparr> fr_turn = 1, fr_step = 1, fr_provider = ''deepseek'', fr_failure = sample_failure \<rparr>"

definition sample_env :: recovery_env where
  "sample_env = \<lparr> env_disposed = False, env_aborted_entry = False, env_downstream = DownNone,
     env_downstream_events = [], env_aborted_after = False, env_sample = 1 / 2, env_fresh_id = ''r1'',
     env_aborted_wait = False, env_timer_fires = True, env_wait_events = [] \<rparr>"

definition sample_policy :: retry_policy where
  "sample_policy = NormalPolicy default_max_retries default_codes
     \<lparr> initial_delay = default_initial_delay, max_delay = default_max_delay, jitter_ratio = default_jitter \<rparr>"

fun sample_stringify :: "json \<Rightarrow> string" where
  "sample_stringify (JArr (JStr s # _)) = s @ ''!''"
| "sample_stringify _ = ''?''"

theorem recovery_keeps_records_valid_witness:
  "history_valid (snd (recover sample_stringify (Some sample_policy) sample_request sample_env
     sample_history))"
proof (rule recovery_keeps_records_valid)
  show "history_valid sample_history"
    by (simp add: history_valid_def validate_session_def sample_history_def)
  show "at_open_step sample_request (scheduling_history (Some sample_policy) sample_env sample_history)"
    by (simp add: at_open_step_def scheduling_history_def sample_policy_def sample_history_def
        sample_request_def find_last_def provider_for_open_step_def after_last_def sample_config_def)
  show "env_ok sample_env (scheduling_history (Some sample_policy) sample_env sample_history)"
    by (simp add: env_ok_def scheduling_history_def sample_policy_def sample_env_def
        sample_history_def max_safe_def)
  show "failure_ok sample_request"
    by (simp add: failure_ok_def sample_request_def validate_failure_def sample_failure_def)
  show "case Some sample_policy of Some p \<Rightarrow> policy_ok p | None \<Rightarrow> True"
    by (simp add: sample_policy_def default_max_retries_def default_codes_def backoff_ok_def
        default_initial_delay_def default_max_delay_def default_jitter_def max_timer_delay_def
        safe_int_def max_safe_def)
  show "sample_stringify j \<noteq> []" for j
    by (cases j rule: sample_stringify.cases) simp_all
qed

definition retried_history :: "retry_log_event list" where
  "retried_history = sample_history @ [LlmRetry \<lparr> lr_id = ''r1'', lr_turn = 1, lr_step = 1,
     lr_provider = ''deepseek'', lr_mode = RetryNormal 2, lr_policy_key = ''normal!'', lr_retry = 1,
     lr_delay = 500, lr_failure = sample_failure \<rparr>]"

lemma retried_history_valid: "history_valid retried_history"
  by (simp add: history_valid_def validate_session_def retried_history_def sample_history_def
      validate_retry_def validate_failure_def sample_failure_def validate_mode_def safe_int_def
      max_safe_def max_timer_delay_def validate_open_step_def find_last_def
      provider_for_open_step_def after_last_def sample_config_def validate_chain_def
      prior_policy_retry_def in_chain_def)

theorem retry_budget_witness:
  "chain 1 1 ''deepseek'' ''normal!'' retried_history \<noteq> [] \<and>
   int (length (chain 1 1 ''deepseek'' ''normal!'' retried_history)) \<le> 2"
proof -
  let ?c = "chain 1 1 ''deepseek'' ''normal!'' retried_history"
  have "?c \<noteq> []" "lr_mode (last ?c) = RetryNormal 2"
    by (simp_all add: chain_def chain_member_def in_chain_def retried_history_def sample_history_def)
  with retry_budget [OF retried_history_valid, of 1 1 "''deepseek''" "''normal!''"]
  show ?thesis by blast
qed

end
