(* ===== verification/Tool_Calls.thy ===== *)
theory Tool_Calls
  imports Inbox Trace
begin

text \<open>
  The tool-call scheduler of one assistant step, \<^verbatim>\<open>packages/core/agent-loop/src/tool-calls.ts\<close>. The
  asynchronous functions are cut at their awaits: \<open>run_pc\<close> names the await a run is suspended at, and
  \<open>resume\<close> is everything that runs synchronously until the next one. What the tool runtime answers
  (preparation, dispatch settlement, finalisation) is the \<open>answer\<close> of a resumption; what the
  synchronous code reads (the live execution mode of a call, the concurrency cap, the signal, the
  clock, fresh ids, dispatch checks) is the record \<open>sched_env\<close>. Settled dispatches fill their slot at
  any await, and other components may append to the session there.
\<close>

section \<open>Calls, results and the run\<close>

record tool_call =
  cl_call_id :: call_id
  cl_name :: string
  cl_arguments :: string

record exec_result =
  xr_content :: "content_block list"
  xr_is_error :: bool
  xr_error :: "(string \<times> string) option"
  xr_meta :: "json option"
  xr_contexts :: "message list"
  xr_concludes :: bool

datatype run_error =
    RuntimeFailed string
  | CallAppendFailed session_error
  | ContextRefused inbox_error
  | Uncommitted

datatype preparation =
    PrepDispatch
  | PrepPost exec_result
  | PrepFinal exec_result

datatype answer =
    Prepared "string + preparation"
  | Finalized "string + exec_result"
  | CommitReturned
  | RaceSettled nat
  | Drained

record sched_env =
  se_mode :: "tool_call \<Rightarrow> string + bool"
  se_max :: nat
  se_aborted :: bool
  se_veto :: "session_event \<Rightarrow> string option"
  se_now :: int
  se_uuid :: "nat \<Rightarrow> message_id"
  se_finish :: "tool_call \<Rightarrow> exec_result \<Rightarrow> string + exec_result"

datatype run_pc =
    AwaitPrepare
  | AwaitFinalize
  | AwaitCommit
  | AwaitRace
  | AwaitDrain
  | RunDone bool
  | RunThrown run_error
  | RunSpinning

record call_group =
  g_calls :: "tool_call list"
  g_parallel :: bool
  g_max :: nat
  g_slots :: "(exec_result \<times> bool) option list"
  g_seqs :: "nat list"
  g_next :: nat
  g_committed :: nat
  g_started :: nat
  g_aborted :: bool
  g_concluded :: bool
  g_in_flight :: "nat list"
  g_settled :: "nat list"
  g_failure :: "run_error option"

record tool_run =
  tu_planned :: "tool_call list"
  tu_turn :: int
  tu_step :: int
  tu_next :: nat
  tu_concluded :: bool
  tu_group :: call_group
  tu_pc :: run_pc
  tu_inbox :: agent_inbox

definition tool_aborted_before_dispatch :: string where
  "tool_aborted_before_dispatch = ''ABORTED_BEFORE_DISPATCH''"

definition skipped_result :: exec_result where
  "skipped_result =
     \<lparr> xr_content = [TextBlock ''Error: tool call aborted before dispatch''], xr_is_error = True,
       xr_error = Some (''AbortError'', tool_aborted_before_dispatch), xr_meta = None,
       xr_contexts = [], xr_concludes = False \<rparr>"

section \<open>Session appends\<close>

definition append_tool_call ::
  "sched_env \<Rightarrow> int \<Rightarrow> int \<Rightarrow> tool_call \<Rightarrow> agent_inbox \<Rightarrow> agent_inbox \<times> (run_error + nat)" where
  "append_tool_call env turn step c w =
     (case append_event False (se_veto env) (se_now env) (ai_session w)
             (ToolCall turn step (cl_call_id c) (cl_name c) (cl_arguments c)) None None False of
        (s', Inl x) \<Rightarrow> (w\<lparr> ai_session := s' \<rparr>, Inl (CallAppendFailed x))
      | (s', Inr e) \<Rightarrow> (w\<lparr> ai_session := s' \<rparr>, Inr (ev_seq e)))"

definition result_data :: "message_id \<Rightarrow> int \<Rightarrow> int \<Rightarrow> tool_call \<Rightarrow> exec_result \<Rightarrow> tool_result_data" where
  "result_data uuid turn step c r =
     \<lparr> tr_turn = turn, tr_step = step,
       tr_message = create_tool_result_message uuid (cl_call_id c) (xr_content r) (xr_is_error r),
       tr_error = xr_error r, tr_meta = xr_meta r \<rparr>"

definition append_tool_result ::
  "sched_env \<Rightarrow> int \<Rightarrow> int \<Rightarrow> tool_call \<Rightarrow> exec_result \<Rightarrow> nat \<Rightarrow> agent_inbox
     \<Rightarrow> agent_inbox \<times> (run_error + unit)" where
  "append_tool_result env turn step c r call_seq w =
     (case append_event False (se_veto env) (se_now env) (ai_session w)
             (ToolResult (result_data (se_uuid env (length (ses_log (ai_session w)))) turn step c r))
             (Some op_append) (Some (seqs_json [call_seq])) False of
        (s', Inl x) \<Rightarrow> (w\<lparr> ai_session := s' \<rparr>, Inl (CallAppendFailed x))
      | (s', Inr e) \<Rightarrow> (w\<lparr> ai_session := s' \<rparr>, Inr ()))"

definition append_skipped ::
  "sched_env \<Rightarrow> int \<Rightarrow> int \<Rightarrow> tool_call \<Rightarrow> agent_inbox \<Rightarrow> agent_inbox \<times> (run_error + unit)" where
  "append_skipped env turn step c w =
     (case append_tool_call env turn step c w of
        (w1, Inl x) \<Rightarrow> (w1, Inl x)
      | (w1, Inr seq) \<Rightarrow> append_tool_result env turn step c skipped_result seq w1)"

fun append_all_skipped ::
  "sched_env \<Rightarrow> int \<Rightarrow> int \<Rightarrow> tool_call list \<Rightarrow> agent_inbox \<Rightarrow> agent_inbox \<times> (run_error + unit)" where
  "append_all_skipped env turn step [] w = (w, Inr ())"
| "append_all_skipped env turn step (c # cs) w =
     (case append_skipped env turn step c w of
        (w1, Inl x) \<Rightarrow> (w1, Inl x)
      | (w1, Inr _) \<Rightarrow> append_all_skipped env turn step cs w1)"

text \<open>\<^verbatim>\<open>acceptContext\<close>, the callback the step passes in: the context joins the next-step list.\<close>

fun accept_contexts ::
  "sched_env \<Rightarrow> message list \<Rightarrow> agent_inbox \<Rightarrow> agent_inbox \<times> (run_error + unit)" where
  "accept_contexts env [] w = (w, Inr ())"
| "accept_contexts env (m # ms) w =
     (case inbox_append False (se_veto env) (se_now env) w NextStep m of
        (w1, Inl x) \<Rightarrow> (w1, Inl (ContextRefused x))
      | (w1, Inr _) \<Rightarrow> accept_contexts env ms w1)"

section \<open>One group\<close>

definition set_group :: "(call_group \<Rightarrow> call_group) \<Rightarrow> tool_run \<Rightarrow> tool_run" where
  "set_group f st = st\<lparr> tu_group := f (tu_group st) \<rparr>"

text \<open>The catch clause: the first failure is kept and the dispatched calls are drained.\<close>

definition catch_failure :: "run_error \<Rightarrow> tool_run \<Rightarrow> tool_run" where
  "catch_failure x st =
     (set_group (\<lambda>g. case g_failure g of None \<Rightarrow> g\<lparr> g_failure := Some x \<rparr> | Some _ \<Rightarrow> g) st)
       \<lparr> tu_pc := AwaitDrain \<rparr>"

definition unless_failed :: "(tool_run \<Rightarrow> tool_run) \<Rightarrow> tool_run \<Rightarrow> tool_run" where
  "unless_failed k st = (case g_failure (tu_group st) of Some x \<Rightarrow> catch_failure x st | None \<Rightarrow> k st)"

definition new_group :: "sched_env \<Rightarrow> tool_call list \<Rightarrow> bool \<Rightarrow> call_group" where
  "new_group env cs par =
     \<lparr> g_calls = cs, g_parallel = par, g_max = se_max env,
       g_slots = replicate (length cs) None, g_seqs = replicate (length cs) 0,
       g_next = 0, g_committed = 0, g_started = 0, g_aborted = se_aborted env, g_concluded = False,
       g_in_flight = [], g_settled = [], g_failure = None \<rparr>"

definition start_call :: "sched_env \<Rightarrow> tool_run \<Rightarrow> tool_run" where
  "start_call env st =
     (let g = tu_group st; i = g_next g in
      case append_tool_call env (tu_turn st) (tu_step st) (g_calls g ! i) (tu_inbox st) of
        (w, Inl x) \<Rightarrow> catch_failure x (st\<lparr> tu_inbox := w \<rparr>)
      | (w, Inr seq) \<Rightarrow>
          st\<lparr> tu_inbox := w, tu_group := g\<lparr> g_seqs := (g_seqs g)[i := seq], g_started := g_started g + 1 \<rparr>,
              tu_pc := AwaitPrepare \<rparr>)"

text \<open>An aborted group: its unstarted calls and every later planned call get synthetic results.\<close>

definition finish_aborted :: "sched_env \<Rightarrow> tool_run \<Rightarrow> tool_run" where
  "finish_aborted env st =
     (let g = tu_group st in
      case append_all_skipped env (tu_turn st) (tu_step st) (drop (g_started g) (g_calls g)) (tu_inbox st) of
        (w, Inl x) \<Rightarrow> st\<lparr> tu_inbox := w, tu_pc := RunThrown x \<rparr>
      | (w, Inr _) \<Rightarrow>
          let next = tu_next st + length (g_calls g); concluded = (tu_concluded st \<or> g_concluded g) in
          (case append_all_skipped env (tu_turn st) (tu_step st) (drop next (tu_planned st)) w of
             (w', Inl x) \<Rightarrow> st\<lparr> tu_inbox := w', tu_next := next, tu_concluded := concluded, tu_pc := RunThrown x \<rparr>
           | (w', Inr _) \<Rightarrow>
               st\<lparr> tu_inbox := w', tu_next := next, tu_concluded := concluded, tu_pc := RunDone concluded \<rparr>))"

text \<open>
  The loop of \<^verbatim>\<open>executeToolCalls\<close>: classify the first remaining call and open its group. A cap of
  zero would start nothing and consume nothing for ever (\<open>RunSpinning\<close>); the configuration refuses it.
\<close>

definition open_group :: "sched_env \<Rightarrow> tool_run \<Rightarrow> tool_run" where
  "open_group env st =
     (if tu_next st \<ge> length (tu_planned st) then st\<lparr> tu_pc := RunDone (tu_concluded st) \<rparr>
      else case se_mode env (tu_planned st ! tu_next st) of
          Inl x \<Rightarrow> st\<lparr> tu_pc := RunThrown (RuntimeFailed x) \<rparr>
        | Inr par \<Rightarrow>
            let g = new_group env (if par then drop (tu_next st) (tu_planned st)
                                   else [tu_planned st ! tu_next st]) par;
                st' = st\<lparr> tu_group := g \<rparr>
            in if g_aborted g then finish_aborted env st'
               else if g_max g = 0 then st'\<lparr> tu_pc := RunSpinning \<rparr>
               else start_call env st')"

definition finish_group :: "sched_env \<Rightarrow> tool_run \<Rightarrow> tool_run" where
  "finish_group env st =
     (let g = tu_group st in
      if g_aborted g then finish_aborted env st
      else if g_committed g \<noteq> g_started g then st\<lparr> tu_pc := RunThrown Uncommitted \<rparr>
      else open_group env (st\<lparr> tu_next := tu_next st + g_started g,
                               tu_concluded := (tu_concluded st \<or> g_concluded g) \<rparr>))"

definition race_or_end :: "sched_env \<Rightarrow> tool_run \<Rightarrow> tool_run" where
  "race_or_end env st =
     (if g_in_flight (tu_group st) \<noteq> [] then st\<lparr> tu_pc := AwaitRace \<rparr> else finish_group env st)"

definition fill_pool :: "sched_env \<Rightarrow> tool_run \<Rightarrow> tool_run" where
  "fill_pool env st =
     (let g = tu_group st in
      if \<not> g_aborted g \<and> g_next g < length (g_calls g) \<and> length (g_in_flight g) < g_max g then
        if g_next g > 0 \<and> g_parallel g then
          (case se_mode env (g_calls g ! g_next g) of
             Inl x \<Rightarrow> catch_failure (RuntimeFailed x) st
           | Inr par \<Rightarrow> if par then start_call env st else race_or_end env st)
        else start_call env st
      else race_or_end env st)"

text \<open>\<^verbatim>\<open>commitReady\<close>: \<open>commit_one\<close> is the body of its loop after the result is final.\<close>

definition commit_one :: "sched_env \<Rightarrow> exec_result \<Rightarrow> tool_run \<Rightarrow> tool_run \<times> (run_error + unit)" where
  "commit_one env r st =
     (let g = tu_group st; k = g_committed g in
      case append_tool_result env (tu_turn st) (tu_step st) (g_calls g ! k) r (g_seqs g ! k) (tu_inbox st) of
        (w, Inl x) \<Rightarrow> (st\<lparr> tu_inbox := w \<rparr>, Inl x)
      | (w, Inr _) \<Rightarrow>
          (case accept_contexts env (xr_contexts r) w of
             (w', Inl x) \<Rightarrow> (st\<lparr> tu_inbox := w' \<rparr>, Inl x)
           | (w', Inr _) \<Rightarrow>
               (st\<lparr> tu_inbox := w',
                    tu_group := g\<lparr> g_concluded := (g_concluded g \<or> xr_concludes r), g_committed := k + 1 \<rparr> \<rparr>,
                Inr ())))"

fun commit_loop :: "sched_env \<Rightarrow> (exec_result \<times> bool) option list \<Rightarrow> tool_run \<Rightarrow> tool_run" where
  "commit_loop env (Some (r, post) # slots) st =
     (if post then st\<lparr> tu_pc := AwaitFinalize \<rparr>
      else case se_finish env (g_calls (tu_group st) ! g_committed (tu_group st)) r of
          Inl x \<Rightarrow> catch_failure (RuntimeFailed x) st
        | Inr r' \<Rightarrow>
            (case commit_one env r' st of
               (st', Inl x) \<Rightarrow> catch_failure x st'
             | (st', Inr _) \<Rightarrow> commit_loop env slots st'))"
| "commit_loop env _ st = st\<lparr> tu_pc := AwaitCommit \<rparr>"

definition commit_ready :: "sched_env \<Rightarrow> tool_run \<Rightarrow> tool_run" where
  "commit_ready env st = commit_loop env (drop (g_committed (tu_group st)) (g_slots (tu_group st))) st"

section \<open>Resumption\<close>

definition store_prepared :: "preparation \<Rightarrow> call_group \<Rightarrow> call_group" where
  "store_prepared p g =
     (let i = g_next g in
      case p of
        PrepDispatch \<Rightarrow> g\<lparr> g_in_flight := g_in_flight g @ [i] \<rparr>
      | PrepPost r \<Rightarrow> g\<lparr> g_slots := (g_slots g)[i := Some (r, True)] \<rparr>
      | PrepFinal r \<Rightarrow> g\<lparr> g_slots := (g_slots g)[i := Some (r, False)] \<rparr>)"

fun resume :: "sched_env \<Rightarrow> answer \<Rightarrow> tool_run \<Rightarrow> tool_run option" where
  "resume env (Prepared p) st =
     (if tu_pc st \<noteq> AwaitPrepare then None
      else Some (case p of
          Inl x \<Rightarrow> catch_failure (RuntimeFailed x) st
        | Inr q \<Rightarrow> unless_failed (\<lambda>st.
            commit_ready env (set_group (\<lambda>g. (store_prepared q g)\<lparr> g_next := g_next g + 1 \<rparr>) st)) st))"
| "resume env (Finalized r) st =
     (if tu_pc st \<noteq> AwaitFinalize then None
      else Some (case r of
          Inl x \<Rightarrow> catch_failure (RuntimeFailed x) st
        | Inr r' \<Rightarrow>
            (case commit_one env r' st of
               (st', Inl x) \<Rightarrow> catch_failure x st'
             | (st', Inr _) \<Rightarrow> commit_ready env st')))"
| "resume env CommitReturned st =
     (if tu_pc st \<noteq> AwaitCommit then None
      else Some (unless_failed (\<lambda>st.
        fill_pool env (set_group (\<lambda>g. g\<lparr> g_aborted := (g_aborted g \<or> se_aborted env) \<rparr>) st)) st))"
| "resume env (RaceSettled i) st =
     (if tu_pc st \<noteq> AwaitRace \<or> i \<notin> set (g_in_flight (tu_group st)) \<or> i \<notin> set (g_settled (tu_group st))
      then None
      else Some (unless_failed (commit_ready env)
        (set_group (\<lambda>g. g\<lparr> g_in_flight := remove1 i (g_in_flight g) \<rparr>) st)))"
| "resume env Drained st =
     (if tu_pc st \<noteq> AwaitDrain \<or> \<not> set (g_in_flight (tu_group st)) \<subseteq> set (g_settled (tu_group st)) then None
      else Some (case g_failure (tu_group st) of
          Some x \<Rightarrow> st\<lparr> tu_pc := RunThrown x \<rparr> | None \<Rightarrow> st))"

text \<open>The settlement callbacks of a dispatch: they run once, at whatever await the run is suspended at.\<close>

definition settle :: "nat \<Rightarrow> string + (exec_result \<times> bool) \<Rightarrow> tool_run \<Rightarrow> tool_run option" where
  "settle i outcome st =
     (let g = tu_group st in
      if i \<notin> set (g_in_flight g) \<or> i \<in> set (g_settled g) then None
      else Some (set_group (\<lambda>g. case outcome of
          Inr slot \<Rightarrow> g\<lparr> g_slots := (g_slots g)[i := Some slot], g_settled := g_settled g @ [i] \<rparr>
        | Inl x \<Rightarrow> g\<lparr> g_failure := (case g_failure g of Some y \<Rightarrow> Some y | None \<Rightarrow> Some (RuntimeFailed x)),
                     g_settled := g_settled g @ [i] \<rparr>) st))"

definition start_run ::
  "sched_env \<Rightarrow> int \<Rightarrow> int \<Rightarrow> tool_call list \<Rightarrow> agent_inbox \<Rightarrow> tool_run" where
  "start_run env turn step calls w = open_group env
     \<lparr> tu_planned = calls, tu_turn = turn, tu_step = step, tu_next = 0, tu_concluded = False,
       tu_group = new_group env [] False, tu_pc = RunDone False, tu_inbox = w \<rparr>"

end
