(* ===== verification/Tool_Order.thy ===== *)
theory Tool_Order
  imports Tool_Calls
begin

text \<open>
  What a run of the tool-call scheduler leaves in the session, whatever the tool runtime answers and
  whatever other components append at its awaits: the calls in model order, the results in model
  order, each citing its call, never more dispatches in flight than the cap, and on completion one
  result for every planned call.
\<close>

section \<open>The tool records of a log\<close>

definition event_call :: "session_event \<Rightarrow> (nat \<times> int \<times> int \<times> tool_call) option" where
  "event_call e = (case ev_data e of
     ToolCall t s c n a \<Rightarrow> Some (ev_seq e, t, s, \<lparr> cl_call_id = c, cl_name = n, cl_arguments = a \<rparr>)
   | _ \<Rightarrow> None)"

definition event_result :: "session_event \<Rightarrow> (int \<times> int \<times> call_id \<times> json option \<times> json option) option" where
  "event_result e = (case ev_data e of
     ToolResult d \<Rightarrow> Some (tr_turn d, tr_step d, trm_call_id (tr_message d), ev_surface_op e, ev_sources e)
   | _ \<Rightarrow> None)"

definition calls_in :: "session_event list \<Rightarrow> (nat \<times> int \<times> int \<times> tool_call) list" where
  "calls_in evs = List.map_filter event_call evs"

definition results_in :: "session_event list \<Rightarrow> (int \<times> int \<times> call_id \<times> json option \<times> json option) list" where
  "results_in evs = List.map_filter event_result evs"

text \<open>The result record a call record is answered by.\<close>

definition answer_of :: "nat \<times> int \<times> int \<times> tool_call \<Rightarrow> int \<times> int \<times> call_id \<times> json option \<times> json option" where
  "answer_of c = (case c of (seq, t, s, k) \<Rightarrow> (t, s, cl_call_id k, Some op_append, Some (seqs_json [seq])))"

definition foreign :: "session_event \<Rightarrow> bool" where
  "foreign e = (event_call e = None \<and> event_result e = None)"

abbreviation inbox_log :: "agent_inbox \<Rightarrow> session_event list" where
  "inbox_log w \<equiv> ses_log (ai_session w)"

abbreviation run_log :: "tool_run \<Rightarrow> session_event list" where
  "run_log st \<equiv> inbox_log (tu_inbox st)"

lemma calls_in_append [simp]: "calls_in (xs @ ys) = calls_in xs @ calls_in ys"
  by (simp add: calls_in_def map_filter_append)

lemma results_in_append [simp]: "results_in (xs @ ys) = results_in xs @ results_in ys"
  by (simp add: results_in_def map_filter_append)

lemma foreign_in:
  "list_all foreign ds \<Longrightarrow> calls_in ds = []" "list_all foreign ds \<Longrightarrow> results_in ds = []"
  by (induction ds) (auto simp: calls_in_def results_in_def foreign_def)

section \<open>The appends\<close>

lemma append_event_log:
  assumes "append_event b veto now s d op srcs ign = (s', r)"
  shows "case r of Inl _ \<Rightarrow> ses_log s' = ses_log s
     | Inr e \<Rightarrow> ses_log s' = ses_log s @ [e] \<and> e = make_event (length (ses_log s)) now d op srcs ign"
  using assms by (auto simp: append_event_def Let_def split: sum.splits prod.splits option.splits if_splits)

lemma append_tool_call_log:
  assumes "append_tool_call env t s c w = (w', r)"
  shows "case r of Inl x \<Rightarrow> inbox_log w' = inbox_log w \<and> x \<noteq> Uncommitted
     | Inr seq \<Rightarrow> \<exists>e. inbox_log w' = inbox_log w @ [e] \<and> calls_in [e] = [(seq, t, s, c)] \<and> results_in [e] = []"
  using assms append_event_log [where s = "ai_session w" and veto = "se_veto env"]
  by (fastforce simp: append_tool_call_def calls_in_def results_in_def event_call_def event_result_def
      make_event_def split: prod.splits sum.splits)

lemma append_tool_result_log:
  assumes "append_tool_result env t s c r seq w = (w', q)"
  shows "case q of Inl x \<Rightarrow> inbox_log w' = inbox_log w \<and> x \<noteq> Uncommitted
     | Inr _ \<Rightarrow> \<exists>e. inbox_log w' = inbox_log w @ [e] \<and> calls_in [e] = [] \<and>
         results_in [e] = [answer_of (seq, t, s, c)]"
  using assms append_event_log [where s = "ai_session w" and veto = "se_veto env"]
  by (fastforce simp: append_tool_result_def calls_in_def results_in_def event_call_def event_result_def
      make_event_def result_data_def create_tool_result_message_def answer_of_def
      split: prod.splits sum.splits)

lemma inbox_append_log:
  assumes "inbox_append b veto now w t m = (w', r)"
  shows "\<exists>ds. inbox_log w' = inbox_log w @ ds \<and> list_all foreign ds"
  using assms unfolding inbox_append_def splice_def
proof (cases rule: mutate_cases)
  case (refused s' x)
  with append_event_log [OF refused(3)] show ?thesis by simp
next
  case (spliced s' e spl)
  with append_event_log [OF spliced(4)] show ?thesis
    by (auto simp: foreign_def event_call_def event_result_def make_event_def)
qed auto

lemma accept_contexts_log:
  "accept_contexts env ms w = (w', r) \<Longrightarrow>
     (\<exists>ds. inbox_log w' = inbox_log w @ ds \<and> list_all foreign ds) \<and> r \<noteq> Inl Uncommitted"
proof (induction ms arbitrary: w)
  case Nil
  then show ?case by auto
next
  case (Cons m ms)
  obtain w1 q where a: "inbox_append False (se_veto env) (se_now env) w NextStep m = (w1, q)" by fastforce
  from inbox_append_log [OF a] obtain ds where ds: "inbox_log w1 = inbox_log w @ ds" "list_all foreign ds"
    by blast
  show ?case
  proof (cases q)
    case (Inl x)
    with Cons.prems a ds show ?thesis by auto
  next
    case (Inr u)
    with Cons.prems a have "accept_contexts env ms w1 = (w', r)" by simp
    from Cons.IH [OF this] ds show ?thesis by auto
  qed
qed

section \<open>The invariant\<close>

text \<open>The tool records a run has appended so far: \<open>n\<close> is the length of the log at its start.\<close>

definition records :: "nat \<Rightarrow> int \<Rightarrow> int \<Rightarrow> tool_call list \<Rightarrow> session_event list \<Rightarrow> bool" where
  "records n turn step planned l \<longleftrightarrow>
     (let cs = calls_in (drop n l); rs = results_in (drop n l) in
      n \<le> length l \<and>
      map snd cs = map (\<lambda>c. (turn, step, c)) (take (length cs) planned) \<and>
      length cs \<le> length planned \<and>
      length rs \<le> length cs \<and> rs = map answer_of (take (length rs) cs))"

abbreviation records_ok :: "nat \<Rightarrow> tool_run \<Rightarrow> bool" where
  "records_ok n st \<equiv> records n (tu_turn st) (tu_step st) (tu_planned st) (run_log st)"

lemma records_foreign:
  assumes "records n t s pl l" and "list_all foreign ds"
  shows "records n t s pl (l @ ds)"
    and "calls_in (drop n (l @ ds)) = calls_in (drop n l)"
    and "results_in (drop n (l @ ds)) = results_in (drop n l)"
  using assms by (simp_all add: records_def foreign_in Let_def)

lemma records_call:
  assumes "records n t s pl l" and "calls_in [e] = [(seq, t, s, pl ! length (calls_in (drop n l)))]"
    and "results_in [e] = []" and "length (calls_in (drop n l)) < length pl"
  shows "records n t s pl (l @ [e])"
    and "calls_in (drop n (l @ [e])) = calls_in (drop n l) @ [(seq, t, s, pl ! length (calls_in (drop n l)))]"
    and "results_in (drop n (l @ [e])) = results_in (drop n l)"
  using assms by (auto simp: records_def Let_def take_Suc_conv_app_nth)

lemma records_result:
  assumes "records n t s pl l" and "calls_in [e] = []"
    and "length (results_in (drop n l)) < length (calls_in (drop n l))"
    and "results_in [e] = [answer_of (calls_in (drop n l) ! length (results_in (drop n l)))]"
  shows "records n t s pl (l @ [e])"
    and "calls_in (drop n (l @ [e])) = calls_in (drop n l)"
    and "length (results_in (drop n (l @ [e]))) = length (results_in (drop n l)) + 1"
proof -
  show "calls_in (drop n (l @ [e])) = calls_in (drop n l)"
    and "length (results_in (drop n (l @ [e]))) = length (results_in (drop n l)) + 1"
    using assms by (auto simp: records_def Let_def)
  have "results_in (drop n l) @ [answer_of (calls_in (drop n l) ! length (results_in (drop n l)))]
      = map answer_of (take (length (results_in (drop n l)) + 1) (calls_in (drop n l)))"
    using assms(1,3) by (simp add: records_def Let_def take_Suc_conv_app_nth flip: Suc_eq_plus1)
  with assms show "records n t s pl (l @ [e])" by (simp add: records_def Let_def)
qed

definition group_calls :: "bool \<Rightarrow> nat \<Rightarrow> tool_call list \<Rightarrow> tool_call list" where
  "group_calls par k planned = (if par then drop k planned else [planned ! k])"

definition group_ok ::
  "nat \<Rightarrow> tool_call list \<Rightarrow> (nat \<times> int \<times> int \<times> tool_call) list \<Rightarrow> nat \<Rightarrow> call_group \<Rightarrow> bool" where
  "group_ok k planned cs nrs g \<longleftrightarrow>
     k < length planned \<and> g_calls g = group_calls (g_parallel g) k planned \<and>
     length (g_slots g) = length (g_calls g) \<and> length (g_seqs g) = length (g_calls g) \<and>
     g_started g \<le> length (g_calls g) \<and> length cs = k + g_started g \<and>
     (\<forall>i < g_started g. g_seqs g ! i = fst (cs ! (k + i))) \<and>
     nrs = k + g_committed g \<and> g_committed g \<le> g_next g \<and> g_next g \<le> g_started g \<and>
     (\<forall>i < length (g_calls g). g_slots g ! i \<noteq> None \<longrightarrow> i < g_next g) \<and>
     distinct (g_in_flight g) \<and> set (g_in_flight g) \<subseteq> {..< g_next g} \<and>
     set (g_settled g) \<subseteq> {..< g_next g} \<and>
     (\<forall>i < g_next g. i \<in> set (g_in_flight g) \<or> g_slots g ! i \<noteq> None) \<and>
     (\<forall>i \<in> set (g_in_flight g) \<inter> set (g_settled g). g_slots g ! i \<noteq> None \<or> g_failure g \<noteq> None) \<and>
     length (g_in_flight g) \<le> g_max g \<and> g_failure g \<noteq> Some Uncommitted"

lemma group_ok_flags [simp]:
  "group_ok k planned cs nrs (g\<lparr> g_aborted := a \<rparr>) = group_ok k planned cs nrs g"
  "group_ok k planned cs nrs (g\<lparr> g_concluded := b \<rparr>) = group_ok k planned cs nrs g"
  by (simp_all add: group_ok_def)

definition coherent :: "nat \<Rightarrow> tool_run \<Rightarrow> bool" where
  "coherent n st \<longleftrightarrow> records_ok n st \<and>
     group_ok (tu_next st) (tu_planned st) (calls_in (drop n (run_log st)))
       (length (results_in (drop n (run_log st)))) (tu_group st)"

definition run_inv :: "nat \<Rightarrow> tool_run \<Rightarrow> bool" where
  "run_inv n st \<longleftrightarrow> (let g = tu_group st in
     case tu_pc st of
       AwaitPrepare \<Rightarrow> coherent n st \<and> g_started g = g_next g + 1 \<and> length (g_in_flight g) < g_max g
     | AwaitFinalize \<Rightarrow> coherent n st \<and> g_started g = g_next g \<and> g_committed g < g_next g
     | AwaitCommit \<Rightarrow> coherent n st \<and> g_started g = g_next g \<and>
         (g_committed g < g_next g \<longrightarrow> g_committed g \<in> set (g_in_flight g))
     | AwaitRace \<Rightarrow> coherent n st \<and> g_started g = g_next g \<and> g_in_flight g \<noteq> [] \<and>
         (g_committed g < g_next g \<longrightarrow> g_committed g \<in> set (g_in_flight g))
     | AwaitDrain \<Rightarrow> records_ok n st \<and> g_failure g \<noteq> None \<and> g_failure g \<noteq> Some Uncommitted \<and>
         length (g_in_flight g) \<le> g_max g
     | RunDone _ \<Rightarrow> records_ok n st \<and>
         length (results_in (drop n (run_log st))) = length (tu_planned st)
     | RunThrown x \<Rightarrow> records_ok n st \<and> x \<noteq> Uncommitted
     | RunSpinning \<Rightarrow> False)"

section \<open>Each synchronous segment keeps the invariant\<close>

lemma coherent_pc [simp]: "coherent n (st\<lparr> tu_pc := p \<rparr>) = coherent n st"
  by (simp add: coherent_def)

lemma call_at:
  assumes "records n t s pl l" and "i < length (calls_in (drop n l))"
  shows "calls_in (drop n l) ! i = (fst (calls_in (drop n l) ! i), t, s, pl ! i)"
proof -
  let ?cs = "calls_in (drop n l)"
  have le: "length ?cs \<le> length pl" and
    eq: "map snd ?cs = map (\<lambda>c. (t, s, c)) (take (length ?cs) pl)"
    using assms(1) unfolding records_def Let_def by blast+
  have "snd (?cs ! i) = map snd ?cs ! i" using assms(2) by simp
  also have "\<dots> = (t, s, pl ! i)" unfolding eq using assms(2) le by simp
  finally show ?thesis by (cases "?cs ! i") simp
qed

lemma skipped_records:
  assumes "append_all_skipped env t s cs w = (w', r)"
    and "records n t s pl (inbox_log w)"
    and "length (results_in (drop n (inbox_log w))) = length (calls_in (drop n (inbox_log w)))"
    and "\<exists>rest. drop (length (calls_in (drop n (inbox_log w)))) pl = cs @ rest"
  shows "records n t s pl (inbox_log w') \<and> r \<noteq> Inl Uncommitted \<and>
     (is_ok r \<longrightarrow> length (calls_in (drop n (inbox_log w'))) = length (calls_in (drop n (inbox_log w))) + length cs
        \<and> length (results_in (drop n (inbox_log w'))) = length (calls_in (drop n (inbox_log w'))))"
  using assms
proof (induction cs arbitrary: w)
  case Nil
  then show ?case by auto
next
  case (Cons c cs)
  let ?l = "inbox_log w" and ?k = "length (calls_in (drop n (inbox_log w)))"
  from Cons.prems(4) obtain rest where d: "drop ?k pl = c # cs @ rest" by auto
  then have k: "?k < length pl" and c: "pl ! ?k = c"
    by (metis drop_eq_Nil linorder_not_le list.distinct(1))
      (metis d drop_eq_Nil hd_drop_conv_nth linorder_not_le list.distinct(1) list.sel(1))
  have dk: "drop (?k + 1) pl = cs @ rest" using d by (metis Suc_eq_plus1 drop_Suc list.sel(3) tl_drop)
  obtain w1 q1 where a1: "append_tool_call env t s c w = (w1, q1)" by fastforce
  show ?case
  proof (cases q1)
    case (Inl x)
    with a1 append_tool_call_log [OF a1] Cons.prems show ?thesis
      by (auto simp: append_skipped_def)
  next
    case (Inr seq)
    from append_tool_call_log [OF a1] Inr obtain e1 where
      e1: "inbox_log w1 = ?l @ [e1]" "calls_in [e1] = [(seq, t, s, pl ! ?k)]" "results_in [e1] = []"
      using c by auto
    note r1 = records_call [OF Cons.prems(2) e1(2,3) k]
    obtain w2 q2 where a2: "append_tool_result env t s c skipped_result seq w1 = (w2, q2)" by fastforce
    show ?thesis
    proof (cases q2)
      case (Inl x)
      with a1 Inr a2 append_tool_result_log [OF a2] r1 e1 Cons.prems(1) show ?thesis
        by (auto simp: append_skipped_def)
    next
      case Inr2: (Inr u)
      from append_tool_result_log [OF a2] Inr2 obtain e2 where
        e2: "inbox_log w2 = inbox_log w1 @ [e2]" "calls_in [e2] = []"
          "results_in [e2] = [answer_of (seq, t, s, c)]" by auto
      have at: "results_in [e2] = [answer_of (calls_in (drop n (inbox_log w1)) ! length (results_in (drop n (inbox_log w1))))]"
        using e2(3) r1(2,3) e1(1) Cons.prems(3) c by simp
      have lt: "length (results_in (drop n (inbox_log w1))) < length (calls_in (drop n (inbox_log w1)))"
        using r1(2,3) e1(1) Cons.prems(3) by simp
      have rec1: "records n t s pl (inbox_log w1)" using r1(1) e1(1) by simp
      note r2 = records_result [OF rec1 e2(2) lt at]
      have k2: "length (calls_in (drop n (inbox_log w2))) = ?k + 1"
        using r2(2) e2(1) r1(2) e1(1) by simp
      have "append_all_skipped env t s cs w2 = (w', r)"
        using Cons.prems(1) a1 Inr a2 Inr2 by (simp add: append_skipped_def)
      from Cons.IH [OF this] r2 e2(1) k2 dk r1(3) e1(1) Cons.prems(3)
      show ?thesis by auto
    qed
  qed
qed

lemma coherentD:
  assumes "coherent n st"
  shows "records_ok n st" "tu_next st < length (tu_planned st)"
    "g_calls (tu_group st) = group_calls (g_parallel (tu_group st)) (tu_next st) (tu_planned st)"
    "length (g_slots (tu_group st)) = length (g_calls (tu_group st))"
    "length (g_seqs (tu_group st)) = length (g_calls (tu_group st))"
    "g_started (tu_group st) \<le> length (g_calls (tu_group st))"
    "length (calls_in (drop n (run_log st))) = tu_next st + g_started (tu_group st)"
    "length (results_in (drop n (run_log st))) = tu_next st + g_committed (tu_group st)"
    "g_committed (tu_group st) \<le> g_next (tu_group st)" "g_next (tu_group st) \<le> g_started (tu_group st)"
    "\<And>i. i < g_started (tu_group st) \<Longrightarrow>
       g_seqs (tu_group st) ! i = fst (calls_in (drop n (run_log st)) ! (tu_next st + i))"
    "\<And>i. i < g_next (tu_group st) \<Longrightarrow> i \<in> set (g_in_flight (tu_group st)) \<or> g_slots (tu_group st) ! i \<noteq> None"
    "\<And>i. i < length (g_calls (tu_group st)) \<Longrightarrow> g_slots (tu_group st) ! i \<noteq> None \<Longrightarrow> i < g_next (tu_group st)"
    "set (g_in_flight (tu_group st)) \<subseteq> {..< g_next (tu_group st)}"
    "length (g_in_flight (tu_group st)) \<le> g_max (tu_group st)"
    "g_failure (tu_group st) \<noteq> Some Uncommitted"
  using assms unfolding coherent_def group_ok_def by blast+

lemma group_call_at:
  assumes "coherent n st" and "i < length (g_calls (tu_group st))"
  shows "g_calls (tu_group st) ! i = tu_planned st ! (tu_next st + i)"
  using coherentD(2,3) [OF assms(1)] assms(2) by (auto simp: group_calls_def split: if_splits)

lemma group_len:
  assumes "coherent n st"
  shows "tu_next st + length (g_calls (tu_group st)) \<le> length (tu_planned st)"
  using coherentD(2,3) [OF assms] by (auto simp: group_calls_def split: if_splits)

lemma catch_failure_inv:
  assumes "records_ok n st" and "g_failure (tu_group st) \<noteq> Some Uncommitted" and "x \<noteq> Uncommitted"
    and "length (g_in_flight (tu_group st)) \<le> g_max (tu_group st)"
  shows "run_inv n (catch_failure x st)"
  using assms by (auto simp: run_inv_def catch_failure_def set_group_def Let_def split: option.splits)

lemma finish_aborted_inv:
  assumes "records_ok n st"
    and "length (results_in (drop n (run_log st))) = length (calls_in (drop n (run_log st)))"
    and "length (calls_in (drop n (run_log st))) = tu_next st + g_started (tu_group st)"
    and "g_started (tu_group st) \<le> length (g_calls (tu_group st))"
    and "\<exists>rest. drop (tu_next st) (tu_planned st) = g_calls (tu_group st) @ rest"
  shows "run_inv n (finish_aborted env st)"
proof -
  let ?g = "tu_group st"
  obtain rest where rest: "drop (tu_next st) (tu_planned st) = g_calls ?g @ rest" using assms(5) by blast
  obtain w1 q1 where a1: "append_all_skipped env (tu_turn st) (tu_step st)
      (drop (g_started ?g) (g_calls ?g)) (tu_inbox st) = (w1, q1)" by fastforce
  have "drop (tu_next st + g_started ?g) (tu_planned st) = drop (g_started ?g) (g_calls ?g @ rest)"
    using rest by (metis drop_drop add.commute)
  then have d1: "drop (length (calls_in (drop n (run_log st)))) (tu_planned st)
      = drop (g_started ?g) (g_calls ?g) @ rest"
    using assms(3,4) by simp
  have s1: "records n (tu_turn st) (tu_step st) (tu_planned st) (inbox_log w1) \<and> q1 \<noteq> Inl Uncommitted \<and>
     (is_ok q1 \<longrightarrow> length (calls_in (drop n (inbox_log w1))) = length (calls_in (drop n (run_log st)))
         + length (drop (g_started ?g) (g_calls ?g))
        \<and> length (results_in (drop n (inbox_log w1))) = length (calls_in (drop n (inbox_log w1))))"
    by (rule skipped_records [OF a1 assms(1,2)]) (use d1 in blast)
  show ?thesis
  proof (cases q1)
    case (Inl x)
    with a1 s1 show ?thesis by (auto simp: finish_aborted_def run_inv_def Let_def)
  next
    case (Inr u)
    let ?next = "tu_next st + length (g_calls ?g)"
    obtain w2 q2 where a2: "append_all_skipped env (tu_turn st) (tu_step st)
        (drop ?next (tu_planned st)) w1 = (w2, q2)" by fastforce
    have c1: "length (calls_in (drop n (inbox_log w1))) = ?next"
      using s1 Inr assms(3,4) by simp
    have le: "?next \<le> length (tu_planned st)"
      using arg_cong [OF rest, of length] assms(3)
      by (cases "tu_next st \<le> length (tu_planned st)") (use assms(1) in \<open>auto simp: records_def Let_def\<close>)
    have s2: "records n (tu_turn st) (tu_step st) (tu_planned st) (inbox_log w2) \<and> q2 \<noteq> Inl Uncommitted \<and>
       (is_ok q2 \<longrightarrow> length (calls_in (drop n (inbox_log w2))) = length (calls_in (drop n (inbox_log w1)))
           + length (drop ?next (tu_planned st))
          \<and> length (results_in (drop n (inbox_log w2))) = length (calls_in (drop n (inbox_log w2))))"
      by (rule skipped_records [OF a2]) (use s1 Inr c1 in auto)
    have fin: "finish_aborted env st = (case q2 of
        Inl x \<Rightarrow> st\<lparr> tu_inbox := w2, tu_next := ?next, tu_concluded := (tu_concluded st \<or> g_concluded ?g),
                     tu_pc := RunThrown x \<rparr>
      | Inr _ \<Rightarrow> st\<lparr> tu_inbox := w2, tu_next := ?next, tu_concluded := (tu_concluded st \<or> g_concluded ?g),
                     tu_pc := RunDone (tu_concluded st \<or> g_concluded ?g) \<rparr>)"
      using a1 Inr a2 by (simp add: finish_aborted_def Let_def)
    show ?thesis using s2 c1 le unfolding fin by (cases q2) (auto simp: run_inv_def)
  qed
qed

lemma start_call_inv:
  assumes "coherent n st" and "g_started (tu_group st) = g_next (tu_group st)"
    and "g_next (tu_group st) < length (g_calls (tu_group st))"
    and "length (g_in_flight (tu_group st)) < g_max (tu_group st)"
  shows "run_inv n (start_call env st)"
proof -
  let ?g = "tu_group st" and ?i = "g_next (tu_group st)"
  note c = coherentD [OF assms(1)]
  obtain w q where a: "append_tool_call env (tu_turn st) (tu_step st) (g_calls ?g ! ?i) (tu_inbox st) = (w, q)"
    by fastforce
  show ?thesis
  proof (cases q)
    case (Inl x)
    with append_tool_call_log [OF a] have "inbox_log w = run_log st" "x \<noteq> Uncommitted" by auto
    with a Inl c(1,16) assms(4) show ?thesis
      by (auto simp: start_call_def Let_def intro!: catch_failure_inv)
  next
    case (Inr seq)
    let ?k = "length (calls_in (drop n (run_log st)))"
    have call: "g_calls ?g ! ?i = tu_planned st ! ?k"
      using group_call_at [OF assms(1,3)] c(7) assms(2) by simp
    have k: "?k < length (tu_planned st)"
      using group_len [OF assms(1)] c(7) assms(2,3) by simp
    from append_tool_call_log [OF a] Inr call obtain e where
      e: "inbox_log w = run_log st @ [e]"
        "calls_in [e] = [(seq, tu_turn st, tu_step st, tu_planned st ! ?k)]" "results_in [e] = []" by auto
    note r = records_call [OF c(1) e(2,3) k]
    let ?st = "st\<lparr> tu_inbox := w, tu_group := ?g\<lparr> g_seqs := (g_seqs ?g)[?i := seq],
        g_started := g_started ?g + 1 \<rparr>, tu_pc := AwaitPrepare \<rparr>"
    have seqs: "(g_seqs ?g)[?i := seq] ! j = fst ((calls_in (drop n (run_log st))
        @ [(seq, tu_turn st, tu_step st, tu_planned st ! ?k)]) ! (tu_next st + j))"
      if "j < g_started ?g + 1" for j
      using that c(5,6,7) c(11) [of j] assms(2,3) by (auto simp: nth_list_update nth_append)
    have "coherent n ?st"
      using assms(1,2,3) r e(1) seqs unfolding coherent_def group_ok_def by auto
    then have "run_inv n ?st" using assms(2,4) by (simp add: run_inv_def)
    moreover have "start_call env st = ?st" using a Inr by (simp add: start_call_def Let_def)
    ultimately show ?thesis by simp
  qed
qed

lemma open_group_inv:
  assumes "records_ok n st" and "0 < se_max env" and "tu_next st \<le> length (tu_planned st)"
    and "length (calls_in (drop n (run_log st))) = tu_next st"
    and "length (results_in (drop n (run_log st))) = tu_next st"
  shows "run_inv n (open_group env st)"
proof (cases "tu_next st \<ge> length (tu_planned st)")
  case True
  with assms show ?thesis by (simp add: open_group_def run_inv_def)
next
  case False
  show ?thesis
  proof (cases "se_mode env (tu_planned st ! tu_next st)")
    case (Inl x)
    with False assms show ?thesis by (simp add: open_group_def run_inv_def)
  next
    case (Inr par)
    let ?cs = "if par then drop (tu_next st) (tu_planned st) else [tu_planned st ! tu_next st]"
    let ?st = "st\<lparr> tu_group := new_group env ?cs par \<rparr>"
    have ne: "0 < length ?cs" using False by simp
    have rest: "\<exists>rest. drop (tu_next st) (tu_planned st) = ?cs @ rest"
      using False Cons_nth_drop_Suc [of "tu_next st" "tu_planned st", symmetric] by auto
    consider (ab) "se_aborted env" | (start) "\<not> se_aborted env" "se_max env > 0" using assms(2) by auto
    then show ?thesis
    proof cases
      case ab
      have "run_inv n (finish_aborted env ?st)"
        by (rule finish_aborted_inv) (use assms rest in \<open>simp_all add: new_group_def\<close>)
      with ab False Inr show ?thesis by (simp add: open_group_def new_group_def Let_def)
    next
      case start
      have "coherent n ?st"
        using assms False start unfolding coherent_def group_ok_def new_group_def group_calls_def by auto
      then have "run_inv n (start_call env ?st)"
        by (rule start_call_inv) (use ne start in \<open>simp_all add: new_group_def\<close>)
      with start False Inr show ?thesis by (simp add: open_group_def new_group_def Let_def)
    qed
  qed
qed

definition settled_shape :: "nat \<Rightarrow> tool_run \<Rightarrow> bool" where
  "settled_shape n st \<longleftrightarrow> coherent n st \<and> g_started (tu_group st) = g_next (tu_group st) \<and>
     (g_committed (tu_group st) < g_next (tu_group st) \<longrightarrow>
        g_committed (tu_group st) \<in> set (g_in_flight (tu_group st)))"

lemma race_or_end_inv:
  assumes "settled_shape n st" and "0 < se_max env"
  shows "run_inv n (race_or_end env st)"
proof (cases "g_in_flight (tu_group st) = []")
  case False
  with assms show ?thesis by (simp add: race_or_end_def run_inv_def settled_shape_def)
next
  case True
  from assms(1) have co: "coherent n st" by (simp add: settled_shape_def)
  note c = coherentD [OF co]
  have eq: "g_committed (tu_group st) = g_next (tu_group st)" "g_started (tu_group st) = g_next (tu_group st)"
    using assms True c(9) by (auto simp: settled_shape_def)
  have rest: "\<exists>rest. drop (tu_next st) (tu_planned st) = g_calls (tu_group st) @ rest"
    using c(2,3) Cons_nth_drop_Suc [of "tu_next st" "tu_planned st", symmetric]
    by (auto simp: group_calls_def)
  have "run_inv n (finish_group env st)"
  proof (cases "g_aborted (tu_group st)")
    case ab: True
    have "run_inv n (finish_aborted env st)"
      by (rule finish_aborted_inv) (use c eq rest in simp_all)
    with ab show ?thesis by (simp add: finish_group_def)
  next
    case False
    have le: "tu_next st + g_started (tu_group st) \<le> length (tu_planned st)"
      using group_len [OF co] c(6) by simp
    have "run_inv n (open_group env (st\<lparr> tu_next := tu_next st + g_started (tu_group st),
        tu_concluded := (tu_concluded st \<or> g_concluded (tu_group st)) \<rparr>))"
      by (rule open_group_inv) (use c eq le assms(2) in simp_all)
    with False eq show ?thesis by (simp add: finish_group_def Let_def)
  qed
  with True show ?thesis by (simp add: race_or_end_def)
qed

lemma fill_pool_inv:
  assumes "settled_shape n st" and "0 < se_max env"
  shows "run_inv n (fill_pool env st)"
proof -
  from assms(1) have co: "coherent n st" and sn: "g_started (tu_group st) = g_next (tu_group st)"
    by (simp_all add: settled_shape_def)
  note c = coherentD [OF co]
  have catch: "run_inv n (catch_failure (RuntimeFailed x) st)" for x
    by (rule catch_failure_inv) (use c in simp_all)
  show ?thesis
    using race_or_end_inv [OF assms] start_call_inv [OF co sn] catch
    by (auto simp: fill_pool_def Let_def split: sum.split)
qed

lemma commit_one_inv:
  assumes "coherent n st" and "g_started (tu_group st) = g_next (tu_group st)"
    and "g_committed (tu_group st) < g_next (tu_group st)"
    and "commit_one env r st = (st', q)"
  shows "(case q of
      Inl x \<Rightarrow> records_ok n st' \<and> tu_group st' = tu_group st \<and> x \<noteq> Uncommitted
    | Inr _ \<Rightarrow> coherent n st' \<and> g_started (tu_group st') = g_next (tu_group st') \<and>
        tu_group st' = (tu_group st)\<lparr> g_concluded := (g_concluded (tu_group st) \<or> xr_concludes r),
          g_committed := g_committed (tu_group st) + 1 \<rparr>)"
proof -
  let ?g = "tu_group st" and ?k = "g_committed (tu_group st)" and ?l = "run_log st"
  note c = coherentD [OF assms(1)]
  obtain w1 q1 where a1: "append_tool_result env (tu_turn st) (tu_step st) (g_calls ?g ! ?k) r
      (g_seqs ?g ! ?k) (tu_inbox st) = (w1, q1)" by fastforce
  show ?thesis
  proof (cases q1)
    case (Inl x)
    with a1 append_tool_result_log [OF a1] assms(4) c(1) show ?thesis
      by (auto simp: commit_one_def Let_def)
  next
    case (Inr u)
    have klt: "?k < length (g_calls ?g)" using assms(2,3) c(6) by simp
    have at: "calls_in (drop n ?l) ! (tu_next st + ?k) = (g_seqs ?g ! ?k, tu_turn st, tu_step st, g_calls ?g ! ?k)"
      using call_at [OF c(1), of "tu_next st + ?k"] c(7) c(11) [of ?k] group_call_at [OF assms(1) klt] assms(2,3)
      by simp
    from append_tool_result_log [OF a1] Inr obtain e where e: "inbox_log w1 = ?l @ [e]" "calls_in [e] = []"
      "results_in [e] = [answer_of (calls_in (drop n ?l) ! length (results_in (drop n ?l)))]"
      using at c(8) by auto
    have lt: "length (results_in (drop n ?l)) < length (calls_in (drop n ?l))"
      using c(7,8) assms(2,3) by simp
    note r1 = records_result [OF c(1) e(2) lt e(3)]
    obtain w2 q2 where a2: "accept_contexts env (xr_contexts r) w1 = (w2, q2)" by fastforce
    from accept_contexts_log [OF a2] obtain ds where ds: "inbox_log w2 = inbox_log w1 @ ds"
      "list_all foreign ds" and q2: "q2 \<noteq> Inl Uncommitted" by blast
    note r2 = records_foreign [OF r1(1) ds(2)]
    show ?thesis
    proof (cases q2)
      case Inl2: (Inl x)
      with a1 Inr a2 assms(4) r2(1) ds(1) e(1) q2 show ?thesis by (auto simp: commit_one_def Let_def)
    next
      case Inr2: (Inr v)
      have st': "st' = st\<lparr> tu_inbox := w2, tu_group := ?g\<lparr> g_concluded := (g_concluded ?g \<or> xr_concludes r),
          g_committed := ?k + 1 \<rparr> \<rparr>" and q: "q = Inr ()"
        using a1 Inr a2 Inr2 assms(4) by (auto simp: commit_one_def Let_def)
      have "coherent n st'"
        using assms(1,2,3) r2 r1 ds(1) e(1) unfolding st' coherent_def group_ok_def by auto
      with st' q assms(2) show ?thesis by simp
    qed
  qed
qed



lemma commit_loop_inv:
  assumes "coherent n st" and "g_started (tu_group st) = g_next (tu_group st)"
    and "slots = drop (g_committed (tu_group st)) (g_slots (tu_group st))"
  shows "run_inv n (commit_loop env slots st)"
  using assms
proof (induction slots arbitrary: st)
  case Nil
  note c = coherentD [OF Nil.prems(1)]
  from Nil.prems(3) have "length (g_calls (tu_group st)) \<le> g_committed (tu_group st)" using c(4) by simp
  with c(6) Nil.prems show ?case by (simp add: run_inv_def)
next
  case (Cons sl slots)
  let ?g = "tu_group st" and ?k = "g_committed (tu_group st)"
  note c = coherentD [OF Cons.prems(1)]
  have k: "?k < length (g_slots ?g)" using Cons.prems(3) by (metis drop_all linorder_not_le list.distinct(1))
  have sl: "g_slots ?g ! ?k = sl" and rest: "slots = drop (?k + 1) (g_slots ?g)"
    using Cons.prems(3) Cons_nth_drop_Suc [OF k] by (metis list.inject Suc_eq_plus1)+
  show ?case
  proof (cases sl)
    case None
    then have "?k < g_next ?g \<longrightarrow> ?k \<in> set (g_in_flight ?g)" using c(12) [of ?k] sl by auto
    with None Cons.prems(1,2) show ?thesis by (simp add: run_inv_def)
  next
    case (Some rp)
    obtain r post where rp: "rp = (r, post)" by fastforce
    have kn: "?k < g_next ?g" using c(13) [of ?k] c(4) k sl Some by simp
    show ?thesis
    proof (cases post)
      case True
      with Some rp kn Cons.prems(1,2) show ?thesis by (simp add: run_inv_def)
    next
      case False
      show ?thesis
      proof (cases "se_finish env (g_calls ?g ! ?k) r")
        case (Inl x)
        with Some rp False c(1,15,16) show ?thesis by (auto intro!: catch_failure_inv)
      next
        case (Inr r')
        obtain st' q where co: "commit_one env r' st = (st', q)" by fastforce
        note one = commit_one_inv [OF Cons.prems(1,2) kn co]
        show ?thesis
        proof (cases q)
          case Inl2: (Inl x)
          with Some rp False Inr co one c(15,16) show ?thesis by (auto intro!: catch_failure_inv)
        next
          case Inr2: (Inr u)
          with one have "coherent n st'" and "g_started (tu_group st') = g_next (tu_group st')"
            and "slots = drop (g_committed (tu_group st')) (g_slots (tu_group st'))"
            using rest Cons.prems(2) by auto
          from Cons.IH [OF this] Some rp False Inr co Inr2 show ?thesis by simp
        qed
      qed
    qed
  qed
qed

lemma commit_ready_inv:
  "coherent n st \<Longrightarrow> g_started (tu_group st) = g_next (tu_group st) \<Longrightarrow> run_inv n (commit_ready env st)"
  unfolding commit_ready_def by (rule commit_loop_inv) simp_all

section \<open>Resumptions, settlements and foreign appends\<close>

lemma store_prepared_coherent:
  assumes "coherent n st" and "g_started (tu_group st) = g_next (tu_group st) + 1"
    and "length (g_in_flight (tu_group st)) < g_max (tu_group st)"
  shows "coherent n (set_group (\<lambda>g. (store_prepared p g)\<lparr> g_next := g_next g + 1 \<rparr>) st)"
proof -
  let ?g = "tu_group st" and ?i = "g_next (tu_group st)"
  note c = coherentD [OF assms(1)]
  have i: "?i < length (g_calls ?g)" using c(6) assms(2) by simp
  have fresh: "?i \<notin> set (g_in_flight ?g)" "?i \<notin> set (g_settled ?g)"
    using assms(1) unfolding coherent_def group_ok_def by auto
  have none: "g_slots ?g ! ?i = None" using c(13) [OF i] by blast
  show ?thesis
    using assms i fresh none unfolding coherent_def group_ok_def set_group_def store_prepared_def
    by (cases p) (auto simp: nth_list_update less_Suc_eq)
qed

lemma unless_failed_inv:
  assumes "records_ok n st" and "g_failure (tu_group st) \<noteq> Some Uncommitted"
    and "length (g_in_flight (tu_group st)) \<le> g_max (tu_group st)"
    and "g_failure (tu_group st) = None \<Longrightarrow> run_inv n (k st)"
  shows "run_inv n (unless_failed k st)"
  using assms catch_failure_inv [OF assms(1,2) _ assms(3)]
  by (auto simp: unless_failed_def split: option.splits)

lemma run_inv_records: "run_inv n st \<Longrightarrow> records_ok n st"
  by (auto simp: run_inv_def Let_def coherent_def split: run_pc.splits)

lemma resume_inv:
  assumes "run_inv n st" and "resume env a st = Some st'" and "0 < se_max env"
  shows "run_inv n st'"
proof (cases a)
  case (Prepared p)
  with assms have pc: "tu_pc st = AwaitPrepare" and co: "coherent n st"
    and s: "g_started (tu_group st) = g_next (tu_group st) + 1"
    and f: "length (g_in_flight (tu_group st)) < g_max (tu_group st)"
    by (auto simp: run_inv_def Let_def split: if_splits)
  note c = coherentD [OF co]
  show ?thesis
  proof (cases p)
    case (Inl x)
    with assms(2) Prepared pc c(1,15,16) show ?thesis by (auto intro!: catch_failure_inv)
  next
    case (Inr q)
    let ?k = "\<lambda>st. commit_ready env (set_group (\<lambda>g. (store_prepared q g)\<lparr> g_next := g_next g + 1 \<rparr>) st)"
    have "run_inv n (?k st)"
      by (rule commit_ready_inv [OF store_prepared_coherent [OF co s f]])
        (use s in \<open>cases q; simp add: set_group_def store_prepared_def\<close>)
    then have "run_inv n (unless_failed ?k st)" using c(1,15,16) by (intro unless_failed_inv)
    with assms(2) Prepared Inr pc show ?thesis by simp
  qed
next
  case (Finalized r)
  with assms have pc: "tu_pc st = AwaitFinalize" and co: "coherent n st"
    and s: "g_started (tu_group st) = g_next (tu_group st)"
    and k: "g_committed (tu_group st) < g_next (tu_group st)"
    by (auto simp: run_inv_def Let_def split: if_splits)
  note c = coherentD [OF co]
  show ?thesis
  proof (cases r)
    case (Inl x)
    with assms(2) Finalized pc c(1,15,16) show ?thesis by (auto intro!: catch_failure_inv)
  next
    case (Inr r')
    obtain st1 q where co1: "commit_one env r' st = (st1, q)" by fastforce
    note one = commit_one_inv [OF co s k co1]
    show ?thesis
    proof (cases q)
      case Inl2: (Inl x)
      with assms(2) Finalized Inr pc co1 one c(15,16) show ?thesis by (auto intro!: catch_failure_inv)
    next
      case Inr2: (Inr u)
      with one s have "run_inv n (commit_ready env st1)" by (intro commit_ready_inv) auto
      with assms(2) Finalized Inr pc co1 Inr2 show ?thesis by simp
    qed
  qed
next
  case CommitReturned
  with assms have pc: "tu_pc st = AwaitCommit" and sh: "settled_shape n st"
    by (auto simp: run_inv_def settled_shape_def Let_def split: if_splits)
  from sh have co: "coherent n st" by (simp add: settled_shape_def)
  note c = coherentD [OF co]
  have "settled_shape n (set_group (\<lambda>g. g\<lparr> g_aborted := (g_aborted g \<or> se_aborted env) \<rparr>) st)"
    using sh by (simp add: settled_shape_def coherent_def set_group_def)
  then have "run_inv n (unless_failed (\<lambda>st. fill_pool env
      (set_group (\<lambda>g. g\<lparr> g_aborted := (g_aborted g \<or> se_aborted env) \<rparr>) st)) st)"
    using c(1,15,16) assms(3) by (intro unless_failed_inv fill_pool_inv)
  with assms(2) CommitReturned pc show ?thesis by simp
next
  case (RaceSettled i)
  with assms have pc: "tu_pc st = AwaitRace" and sh: "settled_shape n st"
    and i: "i \<in> set (g_in_flight (tu_group st))" "i \<in> set (g_settled (tu_group st))"
    by (auto simp: run_inv_def settled_shape_def Let_def split: if_splits)
  from sh have co: "coherent n st" by (simp add: settled_shape_def)
  note c = coherentD [OF co]
  let ?st = "set_group (\<lambda>g. g\<lparr> g_in_flight := remove1 i (g_in_flight g) \<rparr>) st"
  have len: "length (remove1 i (g_in_flight (tu_group st))) \<le> g_max (tu_group st)"
    using c(15) by (auto simp: length_remove1)
  have "run_inv n (commit_ready env ?st)" if "g_failure (tu_group st) = None"
  proof (rule commit_ready_inv)
    show "coherent n ?st"
      using co i that len unfolding coherent_def group_ok_def set_group_def
      by (auto dest: notin_set_remove1 set_remove1_subset [THEN subsetD])
    show "g_started (tu_group ?st) = g_next (tu_group ?st)"
      using sh by (simp add: settled_shape_def set_group_def)
  qed
  then have "run_inv n (unless_failed (commit_ready env) ?st)"
    using c(1,16) len by (intro unless_failed_inv) (simp_all add: set_group_def)
  with assms(2) RaceSettled pc i show ?thesis by simp
next
  case Drained
  with assms show ?thesis
    by (auto simp: run_inv_def Let_def split: if_splits option.splits)
qed

lemma settle_coherent:
  assumes "coherent n st" and "settle i out st = Some st'"
  shows "coherent n st' \<and> tu_pc st' = tu_pc st \<and> run_log st' = run_log st \<and>
     g_started (tu_group st') = g_started (tu_group st) \<and> g_next (tu_group st') = g_next (tu_group st) \<and>
     g_committed (tu_group st') = g_committed (tu_group st) \<and>
     g_in_flight (tu_group st') = g_in_flight (tu_group st) \<and> g_max (tu_group st') = g_max (tu_group st)"
proof -
  let ?g = "tu_group st"
  note c = coherentD [OF assms(1)]
  from assms(2) have i: "i \<in> set (g_in_flight ?g)" by (auto simp: settle_def Let_def split: if_splits)
  with c(14) have "i < g_next ?g" by auto
  then have len: "i < length (g_calls ?g)" using c(6,10) by simp
  obtain g' where st': "st' = st\<lparr> tu_group := g' \<rparr>" and
    g': "g' = (case out of
          Inr slot \<Rightarrow> ?g\<lparr> g_slots := (g_slots ?g)[i := Some slot], g_settled := g_settled ?g @ [i] \<rparr>
        | Inl x \<Rightarrow> ?g\<lparr> g_failure := (case g_failure ?g of Some y \<Rightarrow> Some y | None \<Rightarrow> Some (RuntimeFailed x)),
                     g_settled := g_settled ?g @ [i] \<rparr>)"
    using assms(2) by (simp add: settle_def Let_def set_group_def split: if_splits)
  have fill: "(g_slots ?g)[i := Some slot] ! j \<noteq> None" if "g_slots ?g ! j \<noteq> None" for slot j
    using that len c(4) by (cases "j = i") simp_all
  have "coherent n st'"
  proof (cases out)
    case (Inl x)
    then show ?thesis
      using assms(1) \<open>i < g_next ?g\<close> unfolding coherent_def group_ok_def st' g'
      by (auto split: option.split)
  next
    case (Inr slot)
    have gs: "g_slots g' = (g_slots ?g)[i := Some slot]" using Inr g' by simp
    have "g_slots g' ! j \<noteq> None \<longrightarrow> j < g_next ?g" if "j < length (g_calls ?g)" for j
      using c(13) [OF that] \<open>i < g_next ?g\<close> Inr g' by (cases "j = i") simp_all
    moreover have "j \<in> set (g_in_flight ?g) \<or> g_slots g' ! j \<noteq> None" if "j < g_next ?g" for j
      using c(12) [OF that] fill unfolding gs by blast
    moreover have "\<forall>j \<in> set (g_in_flight g') \<inter> set (g_settled g'). g_slots g' ! j \<noteq> None \<or> g_failure g' \<noteq> None"
    proof
      fix j
      assume j: "j \<in> set (g_in_flight g') \<inter> set (g_settled g')"
      have same: "g_in_flight g' = g_in_flight ?g" "g_failure g' = g_failure ?g"
        "set (g_settled g') = insert i (set (g_settled ?g))" using Inr g' by simp_all
      have "g_slots ?g ! j \<noteq> None \<or> g_failure ?g \<noteq> None" if "j \<noteq> i"
        using assms(1) j that unfolding coherent_def group_ok_def same by blast
      moreover have "g_slots g' ! i \<noteq> None" unfolding gs using len c(4) by simp
      ultimately show "g_slots g' ! j \<noteq> None \<or> g_failure g' \<noteq> None"
        using fill unfolding gs same by (cases "j = i") blast+
    qed
    ultimately show ?thesis
      using assms(1) \<open>i < g_next ?g\<close> Inr unfolding coherent_def group_ok_def st'
      by (auto simp: g')
  qed
  then show ?thesis unfolding st' g' by (cases out) simp_all
qed

lemma settle_inv:
  assumes "run_inv n st" and "settle i out st = Some st'"
  shows "run_inv n st'"
proof (cases "\<exists>x. tu_pc st = AwaitDrain \<or> tu_pc st = RunDone x \<or> tu_pc st = RunSpinning")
  case True
  with assms show ?thesis
    by (cases out) (auto simp: run_inv_def settle_def set_group_def Let_def split: if_splits option.splits)
next
  case False
  show ?thesis
  proof (cases "\<exists>x. tu_pc st = RunThrown x")
    case True
    with assms show ?thesis
      by (cases out) (auto simp: run_inv_def settle_def set_group_def Let_def split: if_splits option.splits)
  next
    case active: False
    from False active assms(1) have "coherent n st"
      by (cases "tu_pc st") (auto simp: run_inv_def Let_def)
    from settle_coherent [OF this assms(2)] assms(1) False active show ?thesis
      by (cases "tu_pc st") (auto simp: run_inv_def Let_def)
  qed
qed

text \<open>What other components do at an await: they append events that are not tool records.\<close>

definition other_append :: "tool_run \<Rightarrow> agent_inbox \<Rightarrow> bool" where
  "other_append st w \<longleftrightarrow> (\<exists>ds. inbox_log w = run_log st @ ds \<and> list_all foreign ds)"

lemma other_append_inv:
  assumes "run_inv n st" and "other_append st w"
  shows "run_inv n (st\<lparr> tu_inbox := w \<rparr>)"
proof -
  from assms(2) obtain ds where ds: "inbox_log w = run_log st @ ds" "list_all foreign ds"
    by (auto simp: other_append_def)
  note r = records_foreign [OF run_inv_records [OF assms(1)] ds(2)]
  have "coherent n st \<Longrightarrow> coherent n (st\<lparr> tu_inbox := w \<rparr>)"
    using r ds(1) by (simp add: coherent_def)
  with r ds(1) assms(1) show ?thesis
    by (cases "tu_pc st") (auto simp: run_inv_def Let_def)
qed

text \<open>
  The runs: \<open>k\<close> counts the resumptions and settlements. The cap a resumption reads is positive, as
  the configuration requires.
\<close>

inductive tool_run_steps :: "tool_run \<Rightarrow> nat \<Rightarrow> tool_run \<Rightarrow> bool" where
  run_start: "tool_run_steps st 0 st"
| run_resume: "tool_run_steps st k st1 \<Longrightarrow> 0 < se_max env \<Longrightarrow> resume env a st1 = Some st2
    \<Longrightarrow> tool_run_steps st (Suc k) st2"
| run_settle: "tool_run_steps st k st1 \<Longrightarrow> settle i out st1 = Some st2 \<Longrightarrow> tool_run_steps st (Suc k) st2"
| run_other: "tool_run_steps st k st1 \<Longrightarrow> other_append st1 w \<Longrightarrow> tool_run_steps st k (st1\<lparr> tu_inbox := w \<rparr>)"

lemma run_steps_inv: "tool_run_steps st k st' \<Longrightarrow> run_inv n st \<Longrightarrow> run_inv n st'"
  by (induction rule: tool_run_steps.induct) (auto intro: resume_inv settle_inv other_append_inv)

lemma start_run_inv:
  "0 < se_max env \<Longrightarrow> run_inv (length (inbox_log w)) (start_run env turn step calls w)"
  unfolding start_run_def
  by (rule open_group_inv) (simp_all add: records_def calls_in_def results_in_def)

section \<open>What a run never changes\<close>

definition run_key :: "tool_run \<Rightarrow> tool_call list \<times> int \<times> int" where
  "run_key st = (tu_planned st, tu_turn st, tu_step st)"

lemma run_key_simps [simp]:
  "run_key (st\<lparr> tu_inbox := w \<rparr>) = run_key st" "run_key (st\<lparr> tu_pc := p \<rparr>) = run_key st"
  "run_key (st\<lparr> tu_group := g \<rparr>) = run_key st" "run_key (st\<lparr> tu_next := j \<rparr>) = run_key st"
  "run_key (st\<lparr> tu_concluded := b \<rparr>) = run_key st"
  "run_key (set_group f st) = run_key st" "run_key (catch_failure x st) = run_key st"
  by (simp_all add: run_key_def set_group_def catch_failure_def)

lemma start_call_key [simp]: "run_key (start_call env st) = run_key st"
  by (simp add: start_call_def Let_def split: prod.split sum.split)

lemma finish_aborted_key [simp]: "run_key (finish_aborted env st) = run_key st"
  by (simp add: finish_aborted_def Let_def split: prod.split sum.split)

lemma open_group_key [simp]: "run_key (open_group env st) = run_key st"
  by (simp add: open_group_def Let_def split: sum.split)

lemma race_or_end_key [simp]: "run_key (race_or_end env st) = run_key st"
  by (simp add: race_or_end_def finish_group_def Let_def)

lemma fill_pool_key [simp]: "run_key (fill_pool env st) = run_key st"
  by (simp add: fill_pool_def Let_def split: sum.split)

lemma commit_one_key: "commit_one env r st = (st', q) \<Longrightarrow> run_key st' = run_key st"
  by (auto simp: commit_one_def Let_def split: prod.splits sum.splits)

lemma commit_loop_key [simp]: "run_key (commit_loop env slots st) = run_key st"
  by (induction env slots st rule: commit_loop.induct)
    (auto dest: commit_one_key split: prod.split sum.split)

lemma commit_ready_key [simp]: "run_key (commit_ready env st) = run_key st"
  by (simp add: commit_ready_def)

lemma unless_failed_key [simp]: "(\<And>st. run_key (k st) = run_key st) \<Longrightarrow> run_key (unless_failed k st) = run_key st"
  by (simp add: unless_failed_def split: option.split)

lemma resume_key: "resume env a st = Some st' \<Longrightarrow> run_key st' = run_key st"
  by (cases a) (auto dest: commit_one_key split: if_splits sum.splits prod.splits option.splits)

lemma settle_key: "settle i out st = Some st' \<Longrightarrow> run_key st' = run_key st"
  by (auto simp: settle_def Let_def split: if_splits)

lemma run_steps_key: "tool_run_steps st k st' \<Longrightarrow> run_key st' = run_key st"
  by (induction rule: tool_run_steps.induct) (auto dest: resume_key settle_key)

lemma start_run_key: "run_key (start_run env turn step calls w) = (calls, turn, step)"
  by (simp add: start_run_def) (simp add: run_key_def)

section \<open>Every run ends\<close>

definition unsettled :: "call_group \<Rightarrow> nat list" where
  "unsettled g = filter (\<lambda>i. i \<notin> set (g_settled g)) (g_in_flight g)"

fun pc_weight :: "run_pc \<Rightarrow> nat" where
  "pc_weight AwaitPrepare = 7"
| "pc_weight AwaitFinalize = 3"
| "pc_weight AwaitCommit = 3"
| "pc_weight AwaitRace = 2"
| "pc_weight AwaitDrain = 1"
| "pc_weight _ = 0"

fun run_ended :: "run_pc \<Rightarrow> bool" where
  "run_ended (RunDone _) = True"
| "run_ended (RunThrown _) = True"
| "run_ended _ = False"

text \<open>What is left to do: calls to start, results to commit, dispatches to settle and to collect.\<close>

definition work_left :: "tool_run \<Rightarrow> nat" where
  "work_left st = (let g = tu_group st; n = length (tu_planned st) in
     5 * (n - (tu_next st + g_started g)) + (n - (tu_next st + g_committed g))
     + 2 * length (g_in_flight g) + length (unsettled g) + pc_weight (tu_pc st))"

lemma settle_work:
  assumes "settle i out st = Some st'"
  shows "work_left st' < work_left st"
proof -
  let ?g = "tu_group st"
  from assms have i: "i \<in> set (g_in_flight ?g)" "i \<notin> set (g_settled ?g)"
    and st': "tu_next st' = tu_next st" "tu_planned st' = tu_planned st" "tu_pc st' = tu_pc st"
      "g_started (tu_group st') = g_started ?g" "g_committed (tu_group st') = g_committed ?g"
      "g_in_flight (tu_group st') = g_in_flight ?g" "g_settled (tu_group st') = g_settled ?g @ [i]"
    by (auto simp: settle_def Let_def set_group_def split: if_splits sum.splits)
  have "unsettled (tu_group st') = filter (\<lambda>j. j \<noteq> i) (unsettled ?g)"
    by (simp add: unsettled_def st' conj_commute)
  moreover have "i \<in> set (unsettled ?g)" using i by (simp add: unsettled_def)
  ultimately have "length (unsettled (tu_group st')) < length (unsettled ?g)"
    by (simp add: length_filter_less)
  then show ?thesis by (simp add: work_left_def Let_def st')
qed

definition base_work :: "tool_run \<Rightarrow> nat" where
  "base_work st = (let g = tu_group st; n = length (tu_planned st) in
     5 * (n - (tu_next st + g_started g)) + (n - (tu_next st + g_committed g))
     + 2 * length (g_in_flight g) + length (unsettled g))"

lemma work_left_base: "work_left st = base_work st + pc_weight (tu_pc st)"
  by (simp add: work_left_def base_work_def Let_def)

lemma base_work_simps [simp]:
  "base_work (st\<lparr> tu_inbox := w \<rparr>) = base_work st" "base_work (st\<lparr> tu_pc := p \<rparr>) = base_work st"
  "base_work (st\<lparr> tu_concluded := b \<rparr>) = base_work st"
  by (simp_all add: base_work_def)

lemma work_left_pc [simp]: "work_left (st\<lparr> tu_pc := p \<rparr>) = base_work st + pc_weight p"
  by (simp add: work_left_base)

lemma catch_failure_work: "work_left (catch_failure x st) = base_work st + 1"
  by (simp add: work_left_base catch_failure_def set_group_def base_work_def unsettled_def Let_def
      split: option.split)

lemma start_call_work:
  assumes "tu_next st + g_started (tu_group st) < length (tu_planned st)"
  shows "work_left (start_call env st) \<le> base_work st + 2"
proof -
  obtain w q where a: "append_tool_call env (tu_turn st) (tu_step st)
      (g_calls (tu_group st) ! g_next (tu_group st)) (tu_inbox st) = (w, q)" by fastforce
  show ?thesis
  proof (cases q)
    case (Inl x)
    with a show ?thesis by (simp add: start_call_def Let_def catch_failure_work)
  next
    case (Inr seq)
    with a assms show ?thesis
      by (simp add: start_call_def work_left_base base_work_def unsettled_def Let_def)
  qed
qed

lemma finish_aborted_work: "work_left (finish_aborted env st) \<le> base_work st"
proof -
  have "base_work (st\<lparr> tu_next := tu_next st + j, tu_inbox := w, tu_concluded := b, tu_pc := p \<rparr>)
      \<le> base_work st" for j w b p
    by (simp add: base_work_def Let_def)
  then show ?thesis
    by (auto simp: finish_aborted_def Let_def work_left_base base_work_def unsettled_def
        split: prod.split sum.split intro!: add_mono mult_le_mono diff_le_mono2)
qed

lemma new_group_sel [simp]:
  "g_aborted (new_group env cs par) = se_aborted env" "g_max (new_group env cs par) = se_max env"
  "g_started (new_group env cs par) = 0" "g_committed (new_group env cs par) = 0"
  "g_in_flight (new_group env cs par) = []"
  by (simp_all add: new_group_def)

lemma open_group_work:
  assumes "0 < se_max env"
  shows "work_left (open_group env st)
     \<le> max (base_work st) (6 * (length (tu_planned st) - tu_next st) + 2)"
proof -
  have nb: "base_work (st\<lparr> tu_group := new_group env cs par \<rparr>)
      = 6 * (length (tu_planned st) - tu_next st)" for cs par
    by (simp add: base_work_def unsettled_def Let_def)
  show ?thesis
  proof (cases "tu_next st \<ge> length (tu_planned st)")
    case True
    then show ?thesis by (simp add: open_group_def work_left_base)
  next
    case False
    show ?thesis
    proof (cases "se_mode env (tu_planned st ! tu_next st)")
      case (Inl x)
      with False show ?thesis by (simp add: open_group_def work_left_base)
    next
      case (Inr par)
      define cs where "cs = (if par then drop (tu_next st) (tu_planned st)
          else [tu_planned st ! tu_next st])"
      let ?st = "st\<lparr> tu_group := new_group env cs par \<rparr>"
      have ab: "work_left (finish_aborted env ?st) \<le> 6 * (length (tu_planned st) - tu_next st)"
        using finish_aborted_work [of env ?st] unfolding nb .
      have go: "work_left (start_call env ?st) \<le> 6 * (length (tu_planned st) - tu_next st) + 2"
        using start_call_work [of ?st env] False unfolding nb by simp
      have "open_group env st = (if se_aborted env then finish_aborted env ?st else start_call env ?st)"
        using False Inr assms unfolding cs_def by (simp add: open_group_def Let_def)
      with ab go show ?thesis by (auto simp: le_max_iff_disj)
    qed
  qed
qed

lemma finish_group_work:
  assumes "0 < se_max env" and "g_in_flight (tu_group st) = []"
  shows "work_left (finish_group env st) \<le> base_work st + 2"
proof -
  let ?g = "tu_group st"
  let ?st = "st\<lparr> tu_next := tu_next st + g_started ?g, tu_concluded := (tu_concluded st \<or> g_concluded ?g) \<rparr>"
  have "work_left (open_group env ?st) \<le> base_work st + 2" if eq: "g_committed ?g = g_started ?g"
  proof -
    have "base_work ?st \<le> base_work st" by (simp add: base_work_def Let_def)
    moreover have "6 * (length (tu_planned ?st) - tu_next ?st) = base_work st"
      using eq assms(2) by (simp add: base_work_def unsettled_def Let_def)
    ultimately show ?thesis using open_group_work [OF assms(1), of ?st] by simp
  qed
  with finish_aborted_work [of env st] show ?thesis
    by (auto simp: finish_group_def Let_def work_left_base)
qed

lemma race_or_end_work: "0 < se_max env \<Longrightarrow> work_left (race_or_end env st) \<le> base_work st + 2"
  using finish_group_work [of env st] by (auto simp: race_or_end_def work_left_base)

lemma fill_pool_work:
  assumes "0 < se_max env" and "settled_shape n st"
  shows "work_left (fill_pool env st) \<le> base_work st + 2"
proof -
  from assms(2) have co: "coherent n st" and sn: "g_started (tu_group st) = g_next (tu_group st)"
    by (simp_all add: settled_shape_def)
  have "work_left (start_call env st) \<le> base_work st + 2"
    if "g_next (tu_group st) < length (g_calls (tu_group st))"
    using group_len [OF co] that sn by (intro start_call_work) simp
  with race_or_end_work [OF assms(1), of st] show ?thesis
    by (auto simp: fill_pool_def Let_def catch_failure_work split: sum.split)
qed

lemma commit_one_work:
  assumes "commit_one env r st = (st', q)"
  shows "base_work st' \<le> base_work st"
    and "is_ok q \<Longrightarrow> tu_next st + g_committed (tu_group st) < length (tu_planned st) \<Longrightarrow>
      base_work st' + 1 \<le> base_work st"
  using assms by (auto simp: commit_one_def Let_def base_work_def unsettled_def split: prod.splits sum.splits)

lemma commit_loop_work: "work_left (commit_loop env slots st) \<le> base_work st + 3"
proof (induction env slots st rule: commit_loop.induct)
  case (1 env r post slots st)
  show ?case
  proof (cases "post \<or> \<not> is_ok (se_finish env (g_calls (tu_group st) ! g_committed (tu_group st)) r)")
    case True
    then show ?thesis by (auto simp: catch_failure_work is_ok_iff split: sum.split)
  next
    case False
    then obtain r' where f: "\<not> post" "se_finish env (g_calls (tu_group st) ! g_committed (tu_group st)) r = Inr r'"
      by (auto simp: is_ok_iff)
    obtain st' q where c: "commit_one env r' st = (st', q)" by fastforce
    note w = commit_one_work(1) [OF c]
    show ?thesis
    proof (cases q)
      case (Inl x)
      with f c w show ?thesis by (simp add: catch_failure_work)
    next
      case (Inr u)
      with "1.IH" [OF f c [symmetric] Inr] f c w show ?thesis by simp
    qed
  qed
qed simp_all

lemma commit_ready_work: "work_left (commit_ready env st) \<le> base_work st + 3"
  by (simp add: commit_ready_def commit_loop_work)

lemma resume_work:
  assumes "run_inv n st" and "0 < se_max env" and "resume env a st = Some st'"
  shows "work_left st' < work_left st"
proof (cases a)
  case (Prepared p)
  with assms have pc: "tu_pc st = AwaitPrepare" and co: "coherent n st"
    by (auto simp: run_inv_def Let_def split: if_splits)
  have fresh: "g_next (tu_group st) \<notin> set (g_settled (tu_group st))"
    using co unfolding coherent_def group_ok_def by auto
  have "base_work (set_group (\<lambda>g. (store_prepared q g)\<lparr> g_next := g_next g + 1 \<rparr>) st) \<le> base_work st + 3" for q
    using fresh by (cases q) (simp_all add: base_work_def set_group_def store_prepared_def unsettled_def Let_def)
  note stored = this
  have "work_left (commit_ready env (set_group (\<lambda>g. (store_prepared q g)\<lparr> g_next := g_next g + 1 \<rparr>) st))
       \<le> 6 + base_work st" for q
    using stored [of q] commit_ready_work [of env "set_group (\<lambda>g. (store_prepared q g)\<lparr> g_next := g_next g + 1 \<rparr>) st"]
    by linarith
  then show ?thesis using assms(3) Prepared pc
    by (auto simp: work_left_base [of st] unless_failed_def catch_failure_work less_eq_Suc_le
        split: sum.splits option.splits)
next
  case (Finalized r)
  with assms have pc: "tu_pc st = AwaitFinalize" and co: "coherent n st"
    and k: "g_committed (tu_group st) < g_next (tu_group st)"
    by (auto simp: run_inv_def Let_def split: if_splits)
  note c = coherentD [OF co]
  have lt: "tu_next st + g_committed (tu_group st) < length (tu_planned st)"
    using group_len [OF co] c(6,10) k by simp
  show ?thesis
  proof (cases r)
    case (Inl x)
    with assms(3) Finalized pc show ?thesis by (auto simp: work_left_base [of st] catch_failure_work)
  next
    case (Inr r')
    obtain st1 q where co1: "commit_one env r' st = (st1, q)" by fastforce
    note w = commit_one_work [OF co1]
    show ?thesis
    proof (cases q)
      case Inl2: (Inl x)
      with assms(3) Finalized Inr pc co1 w(1) show ?thesis
        by (auto simp: work_left_base [of st] catch_failure_work)
    next
      case Inr2: (Inr u)
      with w(2) lt have "base_work st1 + 1 \<le> base_work st" by simp
      with commit_ready_work [of env st1] assms(3) Finalized Inr Inr2 pc co1 show ?thesis
        by (auto simp: work_left_base [of st])
    qed
  qed
next
  case CommitReturned
  with assms have pc: "tu_pc st = AwaitCommit" and sh: "settled_shape n st"
    by (auto simp: run_inv_def settled_shape_def Let_def split: if_splits)
  let ?st = "set_group (\<lambda>g. g\<lparr> g_aborted := (g_aborted g \<or> se_aborted env) \<rparr>) st"
  have "settled_shape n ?st" using sh by (simp add: settled_shape_def coherent_def set_group_def)
  from fill_pool_work [OF assms(2) this] have "work_left (fill_pool env ?st) \<le> base_work st + 2"
    by (simp add: base_work_def set_group_def unsettled_def Let_def)
  with assms(3) CommitReturned pc show ?thesis
    by (auto simp: work_left_base [of st] unless_failed_def catch_failure_work split: option.splits)
next
  case (RaceSettled i)
  with assms have pc: "tu_pc st = AwaitRace" and i: "i \<in> set (g_in_flight (tu_group st))"
    by (auto split: if_splits)
  let ?st = "set_group (\<lambda>g. g\<lparr> g_in_flight := remove1 i (g_in_flight g) \<rparr>) st"
  have "length (filter P (remove1 i xs)) \<le> length (filter P xs)" for P :: "nat \<Rightarrow> bool" and xs
    by (induction xs) auto
  then have u: "length (unsettled (tu_group ?st)) \<le> length (unsettled (tu_group st))"
    by (simp add: unsettled_def set_group_def)
  have l: "length (remove1 i (g_in_flight (tu_group st))) + 1 = length (g_in_flight (tu_group st))"
    using i length_pos_if_in_set [OF i] by (simp add: length_remove1)
  have b: "base_work ?st + 2 \<le> base_work st"
    using u l by (simp add: base_work_def set_group_def Let_def)
  have "work_left (commit_ready env ?st) \<le> base_work ?st + 3" by (rule commit_ready_work)
  with b assms(3) RaceSettled pc show ?thesis
    by (auto simp: work_left_base [of st] unless_failed_def catch_failure_work split: option.splits if_splits)
next
  case Drained
  with assms show ?thesis
    by (auto simp: run_inv_def Let_def work_left_base split: if_splits option.splits)
qed

section \<open>Properties\<close>

definition call_data :: "nat \<times> int \<times> int \<times> tool_call \<Rightarrow> tool_call" where
  "call_data c = snd (snd (snd c))"

lemma started_inv:
  assumes "tool_run_steps (start_run env turn step calls w) k st" and "0 < se_max env"
  shows "run_inv (length (inbox_log w)) st" and "tu_planned st = calls" and "tu_turn st = turn"
    and "tu_step st = step"
  using run_steps_inv [OF assms(1) start_run_inv [OF assms(2)]] run_steps_key [OF assms(1)]
  by (simp_all add: start_run_key) (simp_all add: run_key_def)

text \<open>
  C7: whatever the tool runtime answers, in whatever order its dispatches settle, and whatever other
  components append meanwhile: the call records of a run are the planned calls in model order, the
  result records answer them in that order, each citing the record of its own call, and when the run
  returns every planned call has its one result. A run that throws leaves a prefix of both.
\<close>

theorem tool_results_in_model_order:
  assumes "tool_run_steps (start_run env turn step calls w) k st" and "0 < se_max env"
  defines "cs \<equiv> calls_in (drop (length (inbox_log w)) (run_log st))"
    and "rs \<equiv> results_in (drop (length (inbox_log w)) (run_log st))"
  shows "map snd cs = map (\<lambda>c. (turn, step, c)) (take (length cs) calls) \<and>
     rs = map answer_of (take (length rs) cs) \<and> length rs \<le> length cs \<and> length cs \<le> length calls \<and>
     (\<forall>b. tu_pc st = RunDone b \<longrightarrow> map call_data cs = calls \<and> rs = map answer_of cs)"
proof -
  note inv = started_inv [OF assms(1,2)]
  from run_inv_records [OF inv(1)] have r:
    "map snd cs = map (\<lambda>c. (turn, step, c)) (take (length cs) calls)" "length cs \<le> length calls"
    "length rs \<le> length cs" "rs = map answer_of (take (length rs) cs)"
    unfolding records_def Let_def inv(2-4) cs_def rs_def by blast+
  have "map call_data cs = map (\<lambda>q. snd (snd q)) (map snd cs)" by (simp add: call_data_def)
  also have "\<dots> = take (length cs) calls" by (subst r(1)) (simp add: comp_def)
  finally have data: "map call_data cs = take (length cs) calls" .
  have "map call_data cs = calls \<and> rs = map answer_of cs" if "tu_pc st = RunDone b" for b
  proof -
    have "length rs = length calls" using inv(1,2) that by (simp add: run_inv_def rs_def)
    with r(2,3) have "length cs = length calls" "length rs = length cs" by simp_all
    with r(4) data show ?thesis by simp
  qed
  with r show ?thesis by blast
qed

text \<open>
  No run has more dispatches in flight than the cap read when its group opened, a call classified
  as exclusive runs in a group of its own, so that nothing is in flight beside it, and the guard
  against uncommitted settled calls at the end of a group never fires.
\<close>

theorem tool_pool_bounded:
  assumes "tool_run_steps (start_run env turn step calls w) k st" and "0 < se_max env"
  shows "tu_pc st \<noteq> RunThrown Uncommitted \<and>
     (tu_pc st \<in> {AwaitPrepare, AwaitFinalize, AwaitCommit, AwaitRace, AwaitDrain} \<longrightarrow>
        length (g_in_flight (tu_group st)) \<le> g_max (tu_group st)) \<and>
     (tu_pc st \<in> {AwaitPrepare, AwaitFinalize, AwaitCommit, AwaitRace} \<and> \<not> g_parallel (tu_group st) \<longrightarrow>
        length (g_calls (tu_group st)) = 1 \<and> length (g_in_flight (tu_group st)) \<le> 1 \<and>
        (tu_pc st = AwaitPrepare \<longrightarrow> g_in_flight (tu_group st) = []))"
proof -
  note inv = started_inv(1) [OF assms]
  have active: "length (g_in_flight (tu_group st)) \<le> g_next (tu_group st)"
    if "coherent (length (inbox_log w)) st"
  proof -
    have "distinct (g_in_flight (tu_group st))" "set (g_in_flight (tu_group st)) \<subseteq> {..< g_next (tu_group st)}"
      using that unfolding coherent_def group_ok_def by blast+
    then show ?thesis
      using card_mono [of "{..< g_next (tu_group st)}" "set (g_in_flight (tu_group st))"]
      by (simp add: distinct_card)
  qed
  have one: "length (g_calls (tu_group st)) = 1"
    if "coherent (length (inbox_log w)) st" "\<not> g_parallel (tu_group st)"
    using coherentD(3) [OF that(1)] that(2) by (simp add: group_calls_def)
  show ?thesis
    using inv active one coherentD(6,10,15)
    by (cases "tu_pc st") (fastforce simp: run_inv_def Let_def)+
qed

text \<open>
  C19: a run of the scheduler ends: it takes at most six resumptions and settlements per planned call
  and seven more, and until it has returned or thrown either the tool runtime still owes the
  settlement of a dispatched call or the run can be resumed.
\<close>

theorem tool_run_ends:
  assumes "tool_run_steps (start_run env turn step calls w) k st" and "0 < se_max env"
  shows "k \<le> 6 * length calls + 7 \<and>
     (run_ended (tu_pc st) \<or> unsettled (tu_group st) \<noteq> [] \<or> (\<exists>a st'. resume env a st = Some st'))"
proof -
  let ?st0 = "start_run env turn step calls w" and ?n = "length (inbox_log w)"
  have mono: "work_left st1 + k1 \<le> work_left st0" if "tool_run_steps st0 k1 st1" "run_inv ?n st0" for st0 k1 st1
    using that
  proof (induction rule: tool_run_steps.induct)
    case (run_start st)
    then show ?case by simp
  next
    case (run_resume st k st1 env a st2)
    then have "run_inv ?n st1" using run_steps_inv by blast
    from resume_work [OF this run_resume.hyps(2,3)] run_resume.IH [OF run_resume.prems] show ?case by simp
  next
    case (run_settle st k st1 i out st2)
    from settle_work [OF run_settle.hyps(2)] run_settle.IH [OF run_settle.prems] show ?case by simp
  next
    case (run_other st k st1 w)
    then show ?case by (simp add: work_left_def)
  qed
  have w0: "work_left ?st0 \<le> 6 * length calls + 7"
    using open_group_work [OF assms(2)] unfolding start_run_def
    by (rule order_trans) (simp add: base_work_def new_group_def unsettled_def)
  from mono [OF assms(1) start_run_inv [OF assms(2)]] w0 have bound: "k \<le> 6 * length calls + 7" by simp
  note inv = started_inv(1) [OF assms]
  have "\<exists>a st'. resume env a st = Some st'"
    if e: "\<not> run_ended (tu_pc st)" and u: "unsettled (tu_group st) = []"
  proof (cases "tu_pc st")
    case AwaitPrepare
    then show ?thesis by (intro exI [of _ "Prepared (Inl [])"]) simp
  next
    case AwaitFinalize
    then show ?thesis by (intro exI [of _ "Finalized (Inl [])"]) simp
  next
    case AwaitCommit
    then show ?thesis by (intro exI [of _ CommitReturned]) simp
  next
    case AwaitRace
    have "g_in_flight (tu_group st) \<noteq> []" using inv AwaitRace by (simp add: run_inv_def Let_def)
    then have "hd (g_in_flight (tu_group st)) \<in> set (g_in_flight (tu_group st))" by simp
    moreover from this u have "hd (g_in_flight (tu_group st)) \<in> set (g_settled (tu_group st))"
      by (auto simp: unsettled_def filter_empty_conv)
    ultimately show ?thesis using AwaitRace
      by (intro exI [of _ "RaceSettled (hd (g_in_flight (tu_group st)))"]) simp
  next
    case AwaitDrain
    with u show ?thesis
      by (intro exI [of _ Drained]) (auto simp: unsettled_def filter_empty_conv split: option.split)
  qed (use e inv in \<open>simp_all add: run_inv_def\<close>)
  with bound show ?thesis by blast
qed

section \<open>Witnesses\<close>

definition sample_env :: sched_env where
  "sample_env = \<lparr> se_mode = (\<lambda>c. Inr (cl_name c = ''read'')), se_max = 2, se_aborted = False,
     se_veto = (\<lambda>_. None), se_now = 7, se_uuid = (\<lambda>n. ''m'' @ show_nat n), se_finish = (\<lambda>_ r. Inr r) \<rparr>"

definition sample_calls :: "tool_call list" where
  "sample_calls = [\<lparr> cl_call_id = ''c1'', cl_name = ''read'', cl_arguments = ''a'' \<rparr>,
     \<lparr> cl_call_id = ''c2'', cl_name = ''read'', cl_arguments = ''b'' \<rparr>]"

definition sample_inbox :: agent_inbox where
  "sample_inbox = \<lparr> ai_session = fresh_session sample_header [] (new_surface_manager 0),
     ai_lists = empty_inbox, ai_notes = [] \<rparr>"

definition sample_start :: tool_run where
  "sample_start = start_run sample_env 1 1 sample_calls sample_inbox"

definition sample_next :: tool_run where
  "sample_next = the (resume sample_env (Prepared (Inr PrepDispatch)) sample_start)"

lemma sample_steps: "tool_run_steps sample_start 1 sample_next"
proof -
  have "resume sample_env (Prepared (Inr PrepDispatch)) sample_start = Some sample_next"
    by code_simp
  from run_resume [OF run_start _ this] show ?thesis by (simp add: sample_env_def)
qed

text \<open>The scheduler's theorems at a run of two parallel calls that has dispatched the first.\<close>

theorem tool_results_in_model_order_witness:
  "map call_data (calls_in (run_log sample_next)) = take 1 sample_calls \<and>
   length (results_in (run_log sample_next)) \<le> 1"
proof -
  have run: "tool_run_steps (start_run sample_env 1 1 sample_calls sample_inbox) 1 sample_next"
    using sample_steps by (simp add: sample_start_def)
  have l0: "inbox_log sample_inbox = []" by (simp add: sample_inbox_def fresh_session_def)
  have cap: "0 < se_max sample_env" by (simp add: sample_env_def)
  have one: "length (calls_in (run_log sample_next)) = 1" by code_simp
  from tool_results_in_model_order [OF run cap] have
    m: "map snd (calls_in (run_log sample_next)) = map (\<lambda>c. (1, 1, c)) (take 1 sample_calls)" and
    "length (results_in (run_log sample_next)) \<le> 1"
    by (simp_all add: l0 one)
  moreover have "map call_data (calls_in (run_log sample_next))
      = map (\<lambda>q. snd (snd q)) (map snd (calls_in (run_log sample_next)))" by (simp add: call_data_def)
  ultimately show ?thesis by (simp add: m sample_calls_def del: map_map)
qed

theorem tool_pool_bounded_witness:
  "tu_pc sample_next \<noteq> RunThrown Uncommitted \<and> length (g_in_flight (tu_group sample_next)) \<le> 2"
proof -
  have run: "tool_run_steps (start_run sample_env 1 1 sample_calls sample_inbox) 1 sample_next"
    using sample_steps by (simp add: sample_start_def)
  have "tu_pc sample_next = AwaitCommit" "g_max (tu_group sample_next) = 2" by code_simp+
  with tool_pool_bounded [OF run] show ?thesis by (simp add: sample_env_def)
qed

theorem tool_run_ends_witness:
  "(1 :: nat) \<le> 6 * length sample_calls + 7 \<and>
   (run_ended (tu_pc sample_next) \<or> 0 < length (unsettled (tu_group sample_next)) \<or>
     (\<exists>a st'. resume sample_env a sample_next = Some st'))"
proof -
  have run: "tool_run_steps (start_run sample_env 1 1 sample_calls sample_inbox) 1 sample_next"
    using sample_steps by (simp add: sample_start_def)
  have "0 < se_max sample_env" by (simp add: sample_env_def)
  from tool_run_ends [OF run this] show ?thesis by simp
qed

end
