(* ===== verification/Runtime_Context.thy ===== *)
theory Runtime_Context
  imports Session_Run
begin

text \<open>
  The projection of the dynamic runtime context into the history,
  \<^verbatim>\<open>packages/core/agent-loop/src/runtime-context.ts\<close>. \<open>retained\<close> is the projection's private field:
  \<open>NeverRetained\<close> is \<^verbatim>\<open>undefined\<close> and \<open>NoneRetained\<close> is \<^verbatim>\<open>null\<close>. The constructor restores it from the
  log, the listener follows every later event, \<open>project\<close> proposes a message when the rendered
  context differs.
\<close>

datatype retained =
    NeverRetained
  | NoneRetained
  | Retained nat "string option"

definition context_source :: string where
  "context_source = ''@deepseek-ai/dsh-system-prompt''"

definition cleared_text :: string where
  "cleared_text = ''Current runtime context: none. Earlier runtime-context snapshots no longer apply.''"

definition is_owned :: "message \<Rightarrow> bool" where
  "is_owned m = (case message_source m of SrcPlugin p _ _ \<Rightarrow> p = context_source | _ \<Rightarrow> False)"

definition text_of :: "message \<Rightarrow> string option" where
  "text_of m = (case message_content m of [TextBlock t] \<Rightarrow> Some t | _ \<Rightarrow> None)"

text \<open>The restoring loop runs over the log backwards; \<open>nodes\<close> is the current surface.\<close>

fun restore_from :: "nat list \<Rightarrow> session_event list \<Rightarrow> retained \<Rightarrow> retained" where
  "restore_from nodes [] r = r"
| "restore_from nodes (e # es) r = (case ev_data e of
       UserMessage m \<Rightarrow>
         if \<not> is_owned m then restore_from nodes es r
         else if ev_seq e \<in> set nodes then Retained (ev_seq e) (text_of m)
         else restore_from nodes es NoneRetained
     | _ \<Rightarrow> restore_from nodes es r)"

definition restore_projection :: "nat list \<Rightarrow> session_event list \<Rightarrow> retained" where
  "restore_projection nodes evs = restore_from nodes (rev evs) NeverRetained"

definition cites :: "session_event \<Rightarrow> nat \<Rightarrow> bool" where
  "cites e n = (case ev_sources e of Some (JArr xs) \<Rightarrow> num_of n \<in> set xs | _ \<Rightarrow> False)"

definition drop_replaced :: "retained \<Rightarrow> session_event \<Rightarrow> retained" where
  "drop_replaced r e = (case r of
       Retained n _ \<Rightarrow> if is_replacement_surface_event e \<and> cites e n then NoneRetained else r
     | _ \<Rightarrow> r)"

definition follow_event :: "retained \<Rightarrow> session_event \<Rightarrow> retained" where
  "follow_event r e = (case ev_data e of
       UserMessage m \<Rightarrow> if is_owned m then Retained (ev_seq e) (text_of m) else drop_replaced r e
     | _ \<Rightarrow> drop_replaced r e)"

definition retained_text :: "retained \<Rightarrow> string option" where
  "retained_text r = (case r of Retained _ t \<Rightarrow> t | _ \<Rightarrow> None)"

definition snapshot_source :: "(string \<times> string) list \<Rightarrow> message_source" where
  "snapshot_source sections =
     (if length sections = 0 then SrcPlugin context_source NoForm []
      else SrcPlugin context_source (Snapshot sections) [])"

definition project ::
  "message_id \<Rightarrow> retained \<Rightarrow> string \<Rightarrow> (string \<times> string) list \<Rightarrow> message option" where
  "project uuid r current sections =
     (if r = NeverRetained \<and> length current = 0 then None
      else
        let snapshot = (if length current = 0 then cleared_text else current) in
        if retained_text r = Some snapshot then None
        else Some (create_user_message uuid [TextBlock snapshot] (snapshot_source sections)))"

section \<open>A committed snapshot settles\<close>

lemma projected_owned:
  "project uuid r current sections = Some m \<Longrightarrow>
     is_owned m \<and> text_of m = Some (if length current = 0 then cleared_text else current)"
  by (auto simp: project_def Let_def is_owned_def text_of_def create_user_message_def snapshot_source_def
      split: if_splits)

text \<open>
  A context message is proposed only for a change. Once the projection has seen the snapshot it
  proposed, or any events that neither carry another snapshot nor replace this one, it proposes
  nothing for the same rendered context.
\<close>

theorem projection_settles:
  assumes "project uuid r current sections = Some m"
    and "ev_data e = UserMessage m"
    and "\<forall>d \<in> set evs. (\<forall>m'. ev_data d = UserMessage m' \<longrightarrow> \<not> is_owned m')
      \<and> \<not> (is_replacement_surface_event d \<and> cites d (ev_seq e))"
  shows "project uuid' (foldl follow_event r (e # evs)) current sections' = None"
proof -
  let ?t = "if length current = 0 then cleared_text else current"
  note own = projected_owned [OF assms(1)]
  have "foldl follow_event (Retained (ev_seq e) (Some ?t)) evs = Retained (ev_seq e) (Some ?t)"
    using assms(3)
    by (induction evs) (auto simp: follow_event_def drop_replaced_def split: event_data.splits)
  then have "foldl follow_event r (e # evs) = Retained (ev_seq e) (Some ?t)"
    using own assms(2) by (simp add: follow_event_def)
  then show ?thesis by (simp add: project_def retained_text_def Let_def)
qed

definition sample_snapshot :: message where
  "sample_snapshot = create_user_message ''m1'' [TextBlock ''cwd /a''] (snapshot_source [(''cwd'', ''/a'')])"

theorem projection_settles_witness:
  "project ''m2'' (foldl follow_event NeverRetained
       [make_event 4 9 (UserMessage sample_snapshot) (Some op_append) None False,
        make_event 5 9 (TurnStart 2) None None False]) ''cwd /a'' [] = None"
proof -
  have "project ''m1'' NeverRetained ''cwd /a'' [(''cwd'', ''/a'')] = Some sample_snapshot"
    by (simp add: project_def retained_text_def sample_snapshot_def)
  moreover have "\<not> is_replacement_surface_event (make_event 5 9 (TurnStart 2) None None False)"
    by (simp add: make_event_def is_replacement_surface_event_def is_surface_event_def
        is_surface_eligible_type_def surface_event_types_def)
  ultimately show ?thesis
    using projection_settles [of "''m1''" NeverRetained "''cwd /a''" "[(''cwd'', ''/a'')]" sample_snapshot
        "make_event 4 9 (UserMessage sample_snapshot) (Some op_append) None False"
        "[make_event 5 9 (TurnStart 2) None None False]" "''m2''" "[]"]
    by (simp add: make_event_def)
qed

end
