(* ===== verification/Scope.thy ===== *)
theory Scope
  imports Prelude "HOL-Library.AList"
begin

text \<open>
  The scoped registries of \<^verbatim>\<open>packages/core/scope\<close>: the parent links of scope keys (\<^verbatim>\<open>index.ts\<close>) and the
  insertion-ordered layers of registrations they select (\<^verbatim>\<open>store.ts\<close>). A scope key is compared by
  identity, so it is a number; a table is an association list in insertion order. The walks along
  the parent links are loops that end only on acyclic links: \<open>scope_chain_of\<close> and \<open>walk_hits\<close> are
  \<open>None\<close> where the loop would not end. The lemmas show that the links the operations can make are
  acyclic, that the nearest scope wins a name, and that a disposed registration leaves no trace.
\<close>

section \<open>Parent links\<close>

type_synonym scope_key = nat
type_synonym scope_parents = "scope_key \<Rightarrow> scope_key option"

datatype scope_error =
    LinkWouldCycle
  | AlreadyBound
  | DuplicateEntry string
  | EntryRefused string

partial_function (option) walk_hits :: "scope_parents \<Rightarrow> scope_key \<Rightarrow> scope_key option \<Rightarrow> bool option" where
  "walk_hits ps key cur = (case cur of
       None \<Rightarrow> Some False
     | Some k \<Rightarrow> if k = key then Some True else walk_hits ps key (ps k))"

partial_function (option) scope_chain_of :: "scope_parents \<Rightarrow> scope_key option \<Rightarrow> scope_key list option" where
  "scope_chain_of ps cur = (case cur of
       None \<Rightarrow> Some []
     | Some k \<Rightarrow> Option.bind (scope_chain_of ps (ps k)) (\<lambda>ks. Some (k # ks)))"

text \<open>\<open>None\<close>: the cycle check itself does not return.\<close>

definition link_scope_parent ::
  "scope_parents \<Rightarrow> scope_key \<Rightarrow> scope_key \<Rightarrow> (scope_error + scope_parents) option" where
  "link_scope_parent ps key parent = (case walk_hits ps key (Some parent) of
       None \<Rightarrow> None
     | Some True \<Rightarrow> Some (Inl LinkWouldCycle)
     | Some False \<Rightarrow> Some (Inr (ps(key \<mapsto> parent))))"

definition bind_scope_parent ::
  "scope_parents \<Rightarrow> scope_key \<Rightarrow> scope_key \<Rightarrow> (scope_error + scope_parents) option" where
  "bind_scope_parent ps key parent =
     (if ps key \<noteq> None then Some (Inl AlreadyBound) else link_scope_parent ps key parent)"

definition rebind :: "scope_parents \<Rightarrow> scope_key \<Rightarrow> scope_key \<Rightarrow> (scope_error + scope_parents) option" where
  "rebind ps key parent = link_scope_parent ps key parent"

definition scope_parent_of :: "scope_parents \<Rightarrow> scope_key \<Rightarrow> scope_key option" where
  "scope_parent_of ps key = ps key"

text \<open>
  The filter of a carrier built by \<^verbatim>\<open>scopeTarget\<close>: \<open>base\<close> is the verdict of the subject's own filter,
  \<open>tag\<close> the scope tag of the listening context, \<open>key\<close> the scope the event is routed to.
\<close>

definition scope_target_admits ::
  "scope_parents \<Rightarrow> bool \<Rightarrow> scope_key option \<Rightarrow> scope_key option \<Rightarrow> bool option" where
  "scope_target_admits ps base key tag =
     (if \<not> base then Some False
      else case tag of None \<Rightarrow> Some True | Some t \<Rightarrow> walk_hits ps t key)"

section \<open>Entry tables\<close>

type_synonym 'v named_entries = "(string \<times> 'v) list"

definition insert_entry :: "string \<Rightarrow> 'v \<Rightarrow> 'v named_entries \<Rightarrow> scope_error + 'v named_entries" where
  "insert_entry name v es = (if name \<in> fst ` set es then Inl (DuplicateEntry name) else Inr (es @ [(name, v)]))"

definition undo_entry :: "string \<Rightarrow> 'v named_entries \<Rightarrow> 'v named_entries" where
  "undo_entry name es = AList.delete name es"

text \<open>An anonymous table: the number is the symbol minted for the registration.\<close>

type_synonym 'v anonymous_entries = "(nat \<times> 'v) list"

definition append_entry :: "nat \<Rightarrow> 'v \<Rightarrow> 'v anonymous_entries \<Rightarrow> 'v anonymous_entries" where
  "append_entry key v es = es @ [(key, v)]"

definition undo_anonymous :: "nat \<Rightarrow> 'v anonymous_entries \<Rightarrow> 'v anonymous_entries" where
  "undo_anonymous key es = AList.delete key es"

section \<open>Layers\<close>

record 'l scoped_layers =
  sl_global :: 'l
  sl_scoped :: "scope_key \<Rightarrow> 'l option"

definition new_layers :: "'l \<Rightarrow> 'l scoped_layers" where
  "new_layers l = \<lparr> sl_global = l, sl_scoped = (\<lambda>_. None) \<rparr>"

definition peek_layer :: "'l scoped_layers \<Rightarrow> scope_key option \<Rightarrow> 'l option" where
  "peek_layer ls scope = (case scope of None \<Rightarrow> None | Some k \<Rightarrow> sl_scoped ls k)"

definition chain_layers :: "scope_parents \<Rightarrow> 'l scoped_layers \<Rightarrow> scope_key option \<Rightarrow> 'l list option" where
  "chain_layers ps ls scope =
     map_option (\<lambda>ks. List.map_filter (sl_scoped ls) (rev ks)) (scope_chain_of ps scope)"

fun set_all :: "'v named_entries \<Rightarrow> 'v named_entries \<Rightarrow> 'v named_entries" where
  "set_all merged [] = merged"
| "set_all merged ((name, v) # es) = set_all (AList.update name v merged) es"

definition merge_layers ::
  "scope_parents \<Rightarrow> 'l scoped_layers \<Rightarrow> scope_key option \<Rightarrow> ('l \<Rightarrow> 'v named_entries)
     \<Rightarrow> 'v named_entries option" where
  "merge_layers ps ls scope pick =
     map_option (foldl (\<lambda>merged l. set_all merged (pick l)) (pick (sl_global ls))) (chain_layers ps ls scope)"

text \<open>
  \<^verbatim>\<open>effect\<close>: a registration runs its action on the global layer or on the exact scope's, created on
  demand, and reclaims a layer it created when the action throws. Its disposer undoes the action on
  that layer and reclaims it when it is empty.
\<close>

definition layers_effect ::
  "'l \<Rightarrow> ('l \<Rightarrow> bool) \<Rightarrow> scope_key option \<Rightarrow> ('l \<Rightarrow> scope_error + 'l) \<Rightarrow> 'l scoped_layers
     \<Rightarrow> 'l scoped_layers \<times> (scope_error + unit)" where
  "layers_effect create is_empty scope action ls = (case scope of
       None \<Rightarrow> (case action (sl_global ls) of
           Inl x \<Rightarrow> (ls, Inl x)
         | Inr l \<Rightarrow> (ls\<lparr> sl_global := l \<rparr>, Inr ()))
     | Some k \<Rightarrow>
         let layer = (case sl_scoped ls k of None \<Rightarrow> create | Some l \<Rightarrow> l);
             ls' = ls\<lparr> sl_scoped := (sl_scoped ls)(k \<mapsto> layer) \<rparr>
         in (case action layer of
               Inl x \<Rightarrow> ((if sl_scoped ls k = None \<and> is_empty layer
                          then ls'\<lparr> sl_scoped := (sl_scoped ls')(k := None) \<rparr> else ls'), Inl x)
             | Inr l \<Rightarrow> (ls'\<lparr> sl_scoped := (sl_scoped ls')(k \<mapsto> l) \<rparr>, Inr ())))"

definition layers_dispose ::
  "('l \<Rightarrow> bool) \<Rightarrow> scope_key option \<Rightarrow> ('l \<Rightarrow> 'l) \<Rightarrow> 'l scoped_layers \<Rightarrow> 'l scoped_layers" where
  "layers_dispose is_empty scope undo ls = (case scope of
       None \<Rightarrow> ls\<lparr> sl_global := undo (sl_global ls) \<rparr>
     | Some k \<Rightarrow> (case sl_scoped ls k of
           None \<Rightarrow> ls
         | Some l \<Rightarrow>
             let l' = undo l in
             ls\<lparr> sl_scoped := (if is_empty l' then (sl_scoped ls)(k := None) else (sl_scoped ls)(k \<mapsto> l')) \<rparr>))"

section \<open>Reachable links are acyclic\<close>

inductive scope_links :: "scope_parents \<Rightarrow> bool" where
  no_links: "scope_links (\<lambda>_. None)"
| bound: "scope_links ps \<Longrightarrow> bind_scope_parent ps key parent = Some (Inr ps') \<Longrightarrow> scope_links ps'"
| rebound: "scope_links ps \<Longrightarrow> rebind ps key parent = Some (Inr ps') \<Longrightarrow> scope_links ps'"

definition parent_rel :: "scope_parents \<Rightarrow> (scope_key \<times> scope_key) set" where
  "parent_rel ps = {(p, k). ps k = Some p}"

definition links_ok :: "scope_parents \<Rightarrow> bool" where
  "links_ok ps \<longleftrightarrow> finite (dom ps) \<and> acyclic (parent_rel ps)"

lemma finite_parent_rel: "finite (dom ps) \<Longrightarrow> finite (parent_rel ps)"
proof -
  assume "finite (dom ps)"
  moreover have "parent_rel ps = (\<lambda>k. (the (ps k), k)) ` dom ps"
    by (force simp: parent_rel_def)
  ultimately show ?thesis by simp
qed

lemma links_ok_wf: "links_ok ps \<Longrightarrow> wf (parent_rel ps)"
  by (simp add: links_ok_def finite_parent_rel finite_acyclic_wf)

text \<open>On well-founded links every walk ends.\<close>

lemma walk_hits_total:
  assumes "wf (parent_rel ps)"
  shows "walk_hits ps key (Some k) = Some ((key, k) \<in> (parent_rel ps)\<^sup>*)"
  using assms
proof (induction k)
  case (less k)
  show ?case
  proof (cases "k = key")
    case True
    then show ?thesis by (subst walk_hits.simps) simp
  next
    case False
    show ?thesis
    proof (cases "ps k")
      case None
      then have "(key, k) \<notin> (parent_rel ps)\<^sup>*"
        using False by (auto simp: parent_rel_def elim: rtranclE)
      with False None show ?thesis by (subst walk_hits.simps) (simp add: walk_hits.simps)
    next
      case (Some p)
      then have e: "(p, k) \<in> parent_rel ps" by (simp add: parent_rel_def)
      have "(key, k) \<in> (parent_rel ps)\<^sup>* \<longleftrightarrow> (key, p) \<in> (parent_rel ps)\<^sup>*"
      proof
        assume "(key, k) \<in> (parent_rel ps)\<^sup>*"
        then show "(key, p) \<in> (parent_rel ps)\<^sup>*"
          using False Some by (auto simp: parent_rel_def elim: rtranclE)
      next
        assume "(key, p) \<in> (parent_rel ps)\<^sup>*"
        then show "(key, k) \<in> (parent_rel ps)\<^sup>*" using e by (rule rtrancl_into_rtrancl)
      qed
      with less [OF e] False Some show ?thesis by (subst walk_hits.simps) simp
    qed
  qed
qed

lemma scope_chain_total:
  assumes "wf (parent_rel ps)"
  shows "\<exists>ks. scope_chain_of ps (Some k) = Some (k # ks)
    \<and> (\<forall>j. j \<in> set (k # ks) \<longleftrightarrow> (j, k) \<in> (parent_rel ps)\<^sup>*)"
  using assms
proof (induction k)
  case (less k)
  show ?case
  proof (cases "ps k")
    case None
    then have "(j, k) \<in> (parent_rel ps)\<^sup>* \<longleftrightarrow> j = k" for j
      by (auto simp: parent_rel_def elim: rtranclE)
    with None show ?thesis
      by (subst scope_chain_of.simps) (simp add: scope_chain_of.simps)
  next
    case (Some p)
    then have e: "(p, k) \<in> parent_rel ps" by (simp add: parent_rel_def)
    from less [OF e] obtain ks where ks: "scope_chain_of ps (Some p) = Some (p # ks)"
      "\<forall>j. j \<in> set (p # ks) \<longleftrightarrow> (j, p) \<in> (parent_rel ps)\<^sup>*" by blast
    have "(j, k) \<in> (parent_rel ps)\<^sup>* \<longleftrightarrow> j = k \<or> (j, p) \<in> (parent_rel ps)\<^sup>*" for j
    proof
      assume "(j, k) \<in> (parent_rel ps)\<^sup>*"
      then show "j = k \<or> (j, p) \<in> (parent_rel ps)\<^sup>*"
        using Some by (auto simp: parent_rel_def elim: rtranclE)
    qed (use e in \<open>auto intro: rtrancl_into_rtrancl\<close>)
    with ks Some show ?thesis by (subst scope_chain_of.simps) simp
  qed
qed

lemma scope_chain_distinct:
  assumes "wf (parent_rel ps)" and "scope_chain_of ps (Some k) = Some ks"
  shows "distinct ks"
  using assms
proof (induction k arbitrary: ks)
  case (less k)
  show ?case
  proof (cases "ps k")
    case None
    with less(2) show ?thesis by (auto simp: scope_chain_of.simps)
  next
    case (Some p)
    then have e: "(p, k) \<in> parent_rel ps" by (simp add: parent_rel_def)
    from scope_chain_total [OF assms(1), of p] obtain ks' where ks': "scope_chain_of ps (Some p) = Some ks'"
      "\<forall>j. j \<in> set ks' \<longleftrightarrow> (j, p) \<in> (parent_rel ps)\<^sup>*" by blast
    from less(2) ks'(1) Some have "ks = k # ks'" by (simp add: scope_chain_of.simps [of ps "Some k"])
    moreover have "(k, p) \<notin> (parent_rel ps)\<^sup>*"
      using wf_acyclic [OF assms(1)] e by (meson acyclic_def rtrancl_into_trancl1)
    ultimately show ?thesis using less(1) [OF e ks'(1)] ks'(2) by auto
  qed
qed

lemma link_scope_parent_ok:
  assumes "links_ok ps" and "link_scope_parent ps key parent = Some (Inr ps')"
  shows "links_ok ps'"
proof -
  have miss: "(key, parent) \<notin> (parent_rel ps)\<^sup>*" and ps': "ps' = ps(key \<mapsto> parent)"
    using assms(2) walk_hits_total [OF links_ok_wf [OF assms(1)], of key parent]
    by (auto simp: link_scope_parent_def split: if_splits bool.splits)
  let ?r = "parent_rel ps - {(p, k). k = key}"
  have sub: "parent_rel ps' \<subseteq> insert (parent, key) ?r"
    by (auto simp: ps' parent_rel_def split: if_splits)
  have "acyclic ?r" using assms(1) by (auto simp: links_ok_def intro: acyclic_subset)
  moreover have "(key, parent) \<notin> ?r\<^sup>*"
    using miss rtrancl_mono [of ?r "parent_rel ps"] by blast
  ultimately have "acyclic (insert (parent, key) ?r)" by (simp add: acyclic_insert)
  then have "acyclic (parent_rel ps')" using sub by (rule acyclic_subset)
  with assms(1) show ?thesis by (simp add: links_ok_def ps')
qed

lemma scope_links_ok: "scope_links ps \<Longrightarrow> links_ok ps"
proof (induction rule: scope_links.induct)
  case no_links
  then show ?case by (simp add: links_ok_def parent_rel_def acyclic_def)
next
  case (bound ps key parent ps')
  then show ?case by (auto simp: bind_scope_parent_def split: if_splits intro: link_scope_parent_ok)
next
  case (rebound ps key parent ps')
  then show ?case by (auto simp: rebind_def intro: link_scope_parent_ok)
qed


section \<open>What a view of the layers holds\<close>

definition nearest :: "('l \<Rightarrow> 'v named_entries) \<Rightarrow> 'l scoped_layers \<Rightarrow> scope_key list \<Rightarrow> string \<Rightarrow> 'v option" where
  "nearest pick ls ks name =
     (case List.map_filter (\<lambda>k. Option.bind (sl_scoped ls k) (\<lambda>l. map_of (pick l) name)) ks of
        [] \<Rightarrow> map_of (pick (sl_global ls)) name
      | v # _ \<Rightarrow> Some v)"

lemma set_all_map_of:
  "distinct (map fst es) \<Longrightarrow> map_of (set_all merged es) = map_of merged ++ map_of es"
proof (induction merged es rule: set_all.induct)
  case (2 merged name v es)
  then have "map_of (set_all (AList.update name v merged) es) = map_of (AList.update name v merged) ++ map_of es"
    by simp
  moreover have "(map_of merged)(name \<mapsto> v) ++ map_of es = map_of merged ++ (map_of es)(name \<mapsto> v)"
    using 2(2) by (intro ext) (simp add: map_add_def, simp add: map_of_eq_None_iff [symmetric] split: option.split)
  ultimately show ?case by (auto simp: update_conv' fun_eq_iff map_add_def split: option.split)
qed simp

lemma set_all_distinct: "distinct (map fst merged) \<Longrightarrow> distinct (map fst (set_all merged es))"
  by (induction merged es rule: set_all.induct) (auto intro: distinct_update)

text \<open>A table keeps distinct names, and its undo removes one entry and nothing else.\<close>

lemma insert_entry_distinct:
  "insert_entry name v es = Inr es' \<Longrightarrow> distinct (map fst es) \<Longrightarrow> distinct (map fst es')"
  by (auto simp: insert_entry_def split: if_splits)

lemma delete_absent: "k \<notin> fst ` set al \<Longrightarrow> AList.delete k al = al"
  by (force simp: AList.delete_eq intro!: filter_True)

lemma undo_insert_entry: "insert_entry name v es = Inr es' \<Longrightarrow> undo_entry name es' = es"
  by (force simp: insert_entry_def undo_entry_def AList.delete_eq split: if_splits intro!: filter_True)

lemma undo_append_entry: "key \<notin> fst ` set es \<Longrightarrow> undo_anonymous key (append_entry key v es) = es"
  by (force simp: append_entry_def undo_anonymous_def AList.delete_eq intro!: filter_True)

definition layers_ok :: "('l \<Rightarrow> 'v named_entries) \<Rightarrow> 'l scoped_layers \<Rightarrow> bool" where
  "layers_ok pick ls \<longleftrightarrow> distinct (map fst (pick (sl_global ls)))
     \<and> (\<forall>k l. sl_scoped ls k = Some l \<longrightarrow> distinct (map fst (pick l)))"

lemma foldl_set_all:
  assumes "\<forall>l \<in> set layers. distinct (map fst (pick l))"
  shows "map_of (foldl (\<lambda>merged l. set_all merged (pick l)) base layers)
    = foldl (\<lambda>m l. m ++ map_of (pick l)) (map_of base) layers"
  using assms by (induction layers arbitrary: base) (simp_all add: set_all_map_of)

lemma foldl_distinct:
  "distinct (map fst base) \<Longrightarrow> distinct (map fst (foldl (\<lambda>merged l. set_all merged (pick l)) base layers))"
  by (induction layers arbitrary: base) (simp_all add: set_all_distinct)

lemma foldl_map_add_nearest:
  "foldl (\<lambda>m l. m ++ map_of (pick l)) g (List.map_filter f (rev ks)) name
    = (case List.map_filter (\<lambda>k. Option.bind (f k) (\<lambda>l. map_of (pick l) name)) ks of [] \<Rightarrow> g name | v # _ \<Rightarrow> Some v)"
proof (induction ks)
  case Nil
  then show ?case by simp
next
  case (Cons k ks)
  then show ?case
    by (cases "f k") (auto simp: map_filter_append map_add_def split: option.splits)
qed

lemma sl_scoped_set:
  "layers_ok pick ls \<Longrightarrow> l \<in> set (List.map_filter (sl_scoped ls) ks) \<Longrightarrow> distinct (map fst (pick l))"
  by (auto simp: layers_ok_def set_map_filter)

section \<open>Properties\<close>

text \<open>
  The parent links of scopes never form a cycle, whatever is bound and rebound, so every walk
  along them ends: the cycle check and the routing test answer, and the chain of a scope is finite,
  starts at the scope and never repeats a key. A link that would close a cycle is exactly one
  the check refuses.
\<close>

theorem scope_walks_end:
  assumes "scope_links ps"
  shows "(\<exists>ks. scope_chain_of ps (Some k) = Some (k # ks) \<and> distinct (k # ks)
      \<and> (\<forall>t. scope_target_admits ps True (Some k) (Some t) = Some (t \<in> set (k # ks)))
      \<and> (\<forall>j. link_scope_parent ps j k
          = Some (if j \<in> set (k # ks) then Inl LinkWouldCycle else Inr (ps(j \<mapsto> k)))))"
proof -
  have wf: "wf (parent_rel ps)" by (rule links_ok_wf [OF scope_links_ok [OF assms]])
  from scope_chain_total [OF wf, of k] obtain ks where
    ks: "scope_chain_of ps (Some k) = Some (k # ks)"
    and mem: "\<And>j. j \<in> set (k # ks) \<longleftrightarrow> (j, k) \<in> (parent_rel ps)\<^sup>*" by blast
  have walk: "walk_hits ps j (Some k) = Some (j \<in> set (k # ks))" for j
    using walk_hits_total [OF wf, of j k] mem by simp
  have "distinct (k # ks)" by (rule scope_chain_distinct [OF wf ks])
  with ks walk show ?thesis
    by (auto simp: scope_target_admits_def link_scope_parent_def)
qed

definition sample_links :: scope_parents where
  "sample_links = [1 \<mapsto> 0, 2 \<mapsto> 1]"

lemma sample_links_run: "scope_links sample_links"
proof -
  have "bind_scope_parent (\<lambda>_. None) 1 0 = Some (Inr [1 \<mapsto> 0])"
    "bind_scope_parent [1 \<mapsto> 0] 2 1 = Some (Inr sample_links)"
    by (simp_all add: bind_scope_parent_def link_scope_parent_def walk_hits.simps sample_links_def)
  then show ?thesis using no_links bound by blast
qed

theorem scope_walks_end_witness:
  "scope_chain_of sample_links (Some 2) = Some [2, 1, 0] \<and> link_scope_parent sample_links 0 2 = Some (Inl LinkWouldCycle)"
proof -
  have "scope_chain_of sample_links (Some 2) = Some [2, 1, 0]"
    by (simp add: scope_chain_of.simps sample_links_def)
  with scope_walks_end [OF sample_links_run, of 2] show ?thesis by auto
qed

text \<open>
  A view of the layers gives every name to the nearest scope that registers it, else to the
  global table, and lists each name once.
\<close>

theorem nearest_scope_wins:
  assumes "scope_links ps" and "layers_ok pick ls"
  shows "\<exists>ks merged. scope_chain_of ps scope = Some ks \<and> merge_layers ps ls scope pick = Some merged
    \<and> map_of merged name = nearest pick ls ks name \<and> distinct (map fst merged)"
proof -
  obtain ks where ks: "scope_chain_of ps scope = Some ks"
    using scope_chain_total [OF links_ok_wf [OF scope_links_ok [OF assms(1)]]]
    by (cases scope) (auto simp: scope_chain_of.simps [of ps None])
  let ?layers = "List.map_filter (sl_scoped ls) (rev ks)"
  let ?merged = "foldl (\<lambda>merged l. set_all merged (pick l)) (pick (sl_global ls)) ?layers"
  have m: "merge_layers ps ls scope pick = Some ?merged"
    by (simp add: merge_layers_def chain_layers_def ks)
  have "map_of ?merged name = nearest pick ls ks name"
    using foldl_set_all [of ?layers pick] sl_scoped_set [OF assms(2)]
    by (simp add: foldl_map_add_nearest nearest_def)
  moreover have "distinct (map fst ?merged)"
    using assms(2) by (intro foldl_distinct) (simp add: layers_ok_def)
  ultimately show ?thesis using ks m by blast
qed

definition sample_layers :: "string named_entries scoped_layers" where
  "sample_layers = \<lparr> sl_global = [(''a'', ''g''), (''b'', ''g'')],
     sl_scoped = [0 \<mapsto> [(''b'', ''far''), (''c'', ''far'')], 2 \<mapsto> [(''c'', ''near'')]] \<rparr>"

theorem nearest_scope_wins_witness:
  "map_of (the (merge_layers sample_links sample_layers (Some 2) id)) ''c'' = Some ''near''
   \<and> map_of (the (merge_layers sample_links sample_layers (Some 2) id)) ''b'' = Some ''far''"
proof -
  have ok: "layers_ok id sample_layers"
    by (simp add: layers_ok_def sample_layers_def)
  have ch: "scope_chain_of sample_links (Some 2) = Some [2, 1, 0]"
    by (simp add: scope_chain_of.simps sample_links_def)
  have n: "nearest id sample_layers [2, 1, 0] ''c'' = Some ''near''"
    "nearest id sample_layers [2, 1, 0] ''b'' = Some ''far''"
    by (simp_all add: nearest_def sample_layers_def)
  show ?thesis
    using nearest_scope_wins [OF sample_links_run ok, of "Some 2" "''c''"]
      nearest_scope_wins [OF sample_links_run ok, of "Some 2" "''b''"] ch n by auto
qed

end
