(* ===== verification/System_Prompt.thy ===== *)
theory System_Prompt
  imports Scope Llm_Types "HOL-Library.Multiset" "HOL-Library.List_Lexorder" "HOL-Library.Char_ord"
begin

text \<open>
  The system prompt registry, \<^verbatim>\<open>packages/core/system-prompt/src/index.ts\<close>: the layers of registered
  sections, contexts, tool providers and variables, their assembly for one request, the canonical
  tool order, and the strict interpolation of \<^verbatim>\<open>{{variable}}\<close> references. A provider is a function of
  the assembly context that returns its value or throws; static text is the constant provider. The
  assembly waterfall belongs to the plugins and is an argument. The lemmas show what interpolation
  yields on a template and that the tool order only permutes the tools.
\<close>

section \<open>Registrations and assemblies\<close>

datatype prompt_kind = InSection | InContext

datatype prompt_error =
    Malformed prompt_kind string string
  | UnknownVariable prompt_kind string string
  | UndefinedVariable prompt_kind string string
  | ReservedToolName
  | UnregisteredTools "string list"
  | OrderRepeats string
  | OrderLacksRest
  | NonFiniteOrder string
  | BadVariableName string
  | CompleteSections "string list"
  | ProviderThrew string
  | RegistrationRefused scope_error
  | ScopeWalkDiverged

record tool_schema =
  ts_name :: string
  ts_description :: string
  ts_parameters :: json

record 'c prompt_section =
  ps_name :: string
  ps_order :: js_number
  ps_text :: "'c \<Rightarrow> string + string"
  ps_complete :: bool

record 'c prompt_context =
  pc_name :: string
  pc_order :: js_number
  pc_text :: "'c \<Rightarrow> string + string"

record assembled_text =
  at_name :: string
  at_text :: string

record tool_provider_result =
  tp_schemas :: "tool_schema list"
  tp_known_names :: "string list option"

record prompt_assembly =
  pa_sections :: "assembled_text list"
  pa_contexts :: "assembled_text list"
  pa_tools :: "tool_schema list"
  pa_variables :: "(string \<times> string option) list"

record 'c prompt_layer =
  pl_sections :: "'c prompt_section named_entries"
  pl_contexts :: "'c prompt_context named_entries"
  pl_suppressors :: "unit anonymous_entries"
  pl_tool_providers :: "('c \<Rightarrow> string + tool_provider_result) anonymous_entries"
  pl_variables :: "('c \<Rightarrow> string + string option) named_entries"

definition new_prompt_layer :: "'c prompt_layer" where
  "new_prompt_layer = \<lparr> pl_sections = [], pl_contexts = [], pl_suppressors = [], pl_tool_providers = [],
     pl_variables = [] \<rparr>"

definition prompt_layer_is_empty :: "'c prompt_layer \<Rightarrow> bool" where
  "prompt_layer_is_empty l \<longleftrightarrow> pl_sections l = [] \<and> pl_contexts l = [] \<and> pl_suppressors l = []
     \<and> pl_tool_providers l = [] \<and> pl_variables l = []"

section \<open>Tool order\<close>

definition tool_order_rest :: string where
  "tool_order_rest = ''<unlisted-tools>''"

fun first_repeat :: "string list \<Rightarrow> string list \<Rightarrow> string option" where
  "first_repeat seen [] = None"
| "first_repeat seen (n # ns) = (if n \<in> set seen then Some n else first_repeat (n # seen) ns)"

definition validate_tool_order :: "string list option \<Rightarrow> prompt_error + string list option" where
  "validate_tool_order ord = (case ord of
       None \<Rightarrow> Inr None
     | Some ns \<Rightarrow> (case first_repeat [] ns of
           Some n \<Rightarrow> Inl (OrderRepeats n)
         | None \<Rightarrow> if tool_order_rest \<notin> set ns then Inl OrderLacksRest else Inr (Some ns)))"

text \<open>\<^verbatim>\<open>tools.sort(compareToolNames)\<close>: a stable sort by name, code unit by code unit.\<close>

definition sort_tools :: "tool_schema list \<Rightarrow> tool_schema list" where
  "sort_tools tools = sort_key ts_name tools"

definition order_tools ::
  "tool_schema list \<Rightarrow> string list option \<Rightarrow> string list \<Rightarrow> prompt_error + tool_schema list" where
  "order_tools tools ord known =
     (if list_ex (\<lambda>t. ts_name t = tool_order_rest) tools then Inl ReservedToolName
      else case ord of
          None \<Rightarrow> Inr (sort_tools tools)
        | Some ns \<Rightarrow>
            let unknown = filter (\<lambda>n. n \<noteq> tool_order_rest \<and> n \<notin> set known) ns in
            if length unknown > 0 then Inl (UnregisteredTools unknown)
            else
              let rest = sort_tools (filter (\<lambda>t. ts_name t \<notin> set ns) tools) in
              Inr (concat (map (\<lambda>n. if n = tool_order_rest then rest
                                    else filter (\<lambda>t. ts_name t = n) tools) ns)))"

section \<open>Interpolation\<close>

definition lower :: "char \<Rightarrow> bool" where
  "lower c \<longleftrightarrow> c \<in> set ''abcdefghijklmnopqrstuvwxyz''"

definition name_char :: "char \<Rightarrow> bool" where
  "name_char c \<longleftrightarrow> lower c \<or> c \<in> set ''0123456789_''"

definition variable_name :: "string \<Rightarrow> bool" where
  "variable_name n = (case n of [] \<Rightarrow> False | c # cs \<Rightarrow> lower c \<and> list_all name_char cs)"

text \<open>\<open>split_open\<close> is \<^verbatim>\<open>indexOf('{{')\<close>: what precedes the first opening and what follows it.\<close>

fun split_open :: "string \<Rightarrow> (string \<times> string) option" where
  "split_open (a # b # s) =
     (if a = CHR ''{'' \<and> b = CHR ''{'' then Some ([], s)
      else map_option (\<lambda>(pre, rest). (a # pre, rest)) (split_open (b # s)))"
| "split_open _ = None"

fun has_close :: "string \<Rightarrow> bool" where
  "has_close (a # b # s) = (a = CHR ''}'' \<and> b = CHR ''}'' \<or> has_close (b # s))"
| "has_close _ = False"

text \<open>The group after an opening: the braceless characters up to a closing that follows at once.\<close>

definition group_at :: "string \<Rightarrow> (string \<times> string) option" where
  "group_at s =
     (let name = takeWhile (\<lambda>c. c \<noteq> CHR ''{'' \<and> c \<noteq> CHR ''}'') s; rest = drop (length name) s in
      case rest of
        a # b # rest' \<Rightarrow> if a = CHR ''}'' \<and> b = CHR ''}'' then Some (name, rest') else None
      | _ \<Rightarrow> None)"

lemma split_open_shorter: "split_open s = Some (pre, rest) \<Longrightarrow> length rest < length s"
  by (induction s arbitrary: pre rest rule: split_open.induct) (auto split: if_splits)

lemma group_at_shorter: "group_at s = Some (name, rest) \<Longrightarrow> length rest \<le> length s"
  by (auto simp: group_at_def Let_def split: list.splits if_splits dest!: arg_cong [of _ _ length])

function interpolate_from ::
  "prompt_kind \<Rightarrow> string \<Rightarrow> (string \<times> string option) list \<Rightarrow> string \<Rightarrow> prompt_error + string" where
  "interpolate_from kind owner vars s = (case split_open s of
       None \<Rightarrow> Inr s
     | Some (pre, rest) \<Rightarrow> (case group_at rest of
         None \<Rightarrow>
           if has_close rest then Inl (Malformed kind owner (take 16 (''{{'' @ rest)))
           else bind_res (interpolate_from kind owner vars rest) (\<lambda>r. Inr (pre @ ''{{'' @ r))
       | Some (name, rest') \<Rightarrow>
           if \<not> variable_name name then Inl (Malformed kind owner (''{{'' @ name @ ''}}''))
           else (case map_of vars name of
               None \<Rightarrow> Inl (UnknownVariable kind owner name)
             | Some None \<Rightarrow> Inl (UndefinedVariable kind owner name)
             | Some (Some v) \<Rightarrow> bind_res (interpolate_from kind owner vars rest') (\<lambda>r. Inr (pre @ v @ r)))))"
  by pat_completeness auto
termination
  by (relation "measure (\<lambda>(_, _, _, s). length s)")
     (auto dest: split_open_shorter group_at_shorter intro: le_less_trans)

declare interpolate_from.simps [simp del]

definition interpolate ::
  "prompt_kind \<Rightarrow> (string \<times> string option) list \<Rightarrow> assembled_text \<Rightarrow> prompt_error + string" where
  "interpolate kind vars input = interpolate_from kind (at_name input) vars (at_text input)"

fun join_blank :: "string list \<Rightarrow> string" where
  "join_blank [] = []"
| "join_blank [s] = s"
| "join_blank (s # t # ss) = s @ [char_of (10::nat), char_of (10::nat)] @ join_blank (t # ss)"

definition render_prompt :: "prompt_assembly \<Rightarrow> prompt_error + string" where
  "render_prompt a =
     bind_res (map_res (interpolate InSection (pa_variables a)) (pa_sections a)) (\<lambda>ts.
       Inr (join_blank (filter (\<lambda>t. length t > 0) ts)))"

definition render_context_sections :: "prompt_assembly \<Rightarrow> prompt_error + (string \<times> string) list" where
  "render_context_sections a =
     bind_res (map_res (\<lambda>c. bind_res (interpolate InContext (pa_variables a) c)
                                  (\<lambda>t. Inr (at_name c, t))) (pa_contexts a)) (\<lambda>cs.
       Inr (filter (\<lambda>(_, t). length t > 0) cs))"

definition snapshot_preamble :: string where
  "snapshot_preamble =
     ''Current runtime context. This snapshot supersedes earlier runtime-context snapshots.''"

definition join_context_sections :: "(string \<times> string) list \<Rightarrow> string" where
  "join_context_sections sections =
     (let body = join_blank (map snd sections) in
      if length body = 0 then [] else snapshot_preamble @ [char_of (10::nat), char_of (10::nat)] @ body)"

definition render_context_snapshot :: "prompt_assembly \<Rightarrow> prompt_error + string" where
  "render_context_snapshot a = bind_res (render_context_sections a) (\<lambda>cs. Inr (join_context_sections cs))"


section \<open>The registry\<close>

record 'c system_prompt =
  sp_layers :: "'c prompt_layer scoped_layers"
  sp_tool_order :: "string list option"
  sp_minted :: nat

definition finite_order :: "js_number \<Rightarrow> bool" where
  "finite_order n = (case n of Fin _ \<Rightarrow> True | _ \<Rightarrow> False)"

definition register ::
  "scope_key option \<Rightarrow> ('c prompt_layer \<Rightarrow> scope_error + 'c prompt_layer) \<Rightarrow> 'c system_prompt
     \<Rightarrow> 'c system_prompt \<times> (prompt_error + unit)" where
  "register scope action sp =
     (case layers_effect new_prompt_layer prompt_layer_is_empty scope action (sp_layers sp) of
        (ls, Inl x) \<Rightarrow> (sp\<lparr> sp_layers := ls \<rparr>, Inl (RegistrationRefused x))
      | (ls, Inr _) \<Rightarrow> (sp\<lparr> sp_layers := ls, sp_minted := sp_minted sp + 1 \<rparr>, Inr ()))"

definition register_section ::
  "scope_key option \<Rightarrow> 'c prompt_section \<Rightarrow> 'c system_prompt \<Rightarrow> 'c system_prompt \<times> (prompt_error + unit)" where
  "register_section scope sec sp =
     (if \<not> finite_order (ps_order sec) then (sp, Inl (NonFiniteOrder (ps_name sec)))
      else register scope (\<lambda>l. bind_res (insert_entry (ps_name sec) sec (pl_sections l))
                                 (\<lambda>es. Inr (l\<lparr> pl_sections := es \<rparr>))) sp)"

definition register_context ::
  "scope_key option \<Rightarrow> 'c prompt_context \<Rightarrow> 'c system_prompt \<Rightarrow> 'c system_prompt \<times> (prompt_error + unit)" where
  "register_context scope con sp =
     (if \<not> finite_order (pc_order con) then (sp, Inl (NonFiniteOrder (pc_name con)))
      else register scope (\<lambda>l. bind_res (insert_entry (pc_name con) con (pl_contexts l))
                                 (\<lambda>es. Inr (l\<lparr> pl_contexts := es \<rparr>))) sp)"

definition suppress_runtime_context ::
  "scope_key option \<Rightarrow> 'c system_prompt \<Rightarrow> 'c system_prompt \<times> (prompt_error + unit)" where
  "suppress_runtime_context scope sp =
     register scope (\<lambda>l. Inr (l\<lparr> pl_suppressors := append_entry (sp_minted sp) () (pl_suppressors l) \<rparr>)) sp"

definition register_tools ::
  "scope_key option \<Rightarrow> ('c \<Rightarrow> string + tool_provider_result) \<Rightarrow> 'c system_prompt
     \<Rightarrow> 'c system_prompt \<times> (prompt_error + unit)" where
  "register_tools scope provider sp =
     register scope (\<lambda>l. Inr (l\<lparr> pl_tool_providers :=
       append_entry (sp_minted sp) provider (pl_tool_providers l) \<rparr>)) sp"

definition register_variable ::
  "scope_key option \<Rightarrow> string \<Rightarrow> ('c \<Rightarrow> string + string option) \<Rightarrow> 'c system_prompt
     \<Rightarrow> 'c system_prompt \<times> (prompt_error + unit)" where
  "register_variable scope name provider sp =
     (if \<not> variable_name name then (sp, Inl (BadVariableName name))
      else register scope (\<lambda>l. bind_res (insert_entry name provider (pl_variables l))
                                 (\<lambda>es. Inr (l\<lparr> pl_variables := es \<rparr>))) sp)"

text \<open>The configuration of the service; the identity text is a constant of the source.\<close>

record prompt_config =
  pcf_identity :: "bool option"
  pcf_runtime_context :: "bool option"
  pcf_persona :: "string option"
  pcf_tool_order :: "string list option"

definition identity_text :: string where
  "identity_text = ''You are kosma, an AI agent powered by DeepSeek Harness.''"

definition persona_section :: string where
  "persona_section = ''deployment:persona''"

definition static_section :: "string \<Rightarrow> rat \<Rightarrow> string \<Rightarrow> 'c prompt_section" where
  "static_section name ord t =
     \<lparr> ps_name = name, ps_order = Fin ord, ps_text = (\<lambda>_. Inr t), ps_complete = False \<rparr>"

definition new_system_prompt :: "prompt_config \<Rightarrow> prompt_error + 'c system_prompt" where
  "new_system_prompt cfg =
     bind_res (validate_tool_order (pcf_tool_order cfg)) (\<lambda>ord.
       let sp0 = \<lparr> sp_layers = new_layers new_prompt_layer, sp_tool_order = ord, sp_minted = 0 \<rparr>;
           r1 = (if pcf_identity cfg \<noteq> Some False
                 then register_section None (static_section ''harness:identity'' (-100) identity_text) sp0
                 else (sp0, Inr ()))
       in bind_res (snd r1) (\<lambda>_.
            let r2 = register_section None (static_section persona_section 0
                       (case pcf_persona cfg of None \<Rightarrow> [] | Some t \<Rightarrow> t)) (fst r1)
            in bind_res (snd r2) (\<lambda>_.
                 let r3 = (if pcf_runtime_context cfg = Some False then suppress_runtime_context None (fst r2)
                           else (fst r2, Inr ()))
                 in bind_res (snd r3) (\<lambda>_. Inr (fst r3)))))"

section \<open>Assembly\<close>

fun eval_variables ::
  "'c \<Rightarrow> (string \<times> string option) list \<Rightarrow> ('c \<Rightarrow> string + string option) named_entries
     \<Rightarrow> prompt_error + (string \<times> string option) list" where
  "eval_variables ctx vars [] = Inr vars"
| "eval_variables ctx vars ((name, provider) # ps) = (case provider ctx of
       Inl x \<Rightarrow> Inl (ProviderThrew x)
     | Inr v \<Rightarrow> eval_variables ctx (AList.update name v vars) ps)"

definition accepted_names :: "tool_provider_result \<Rightarrow> string list" where
  "accepted_names r = (case tp_known_names r of Some ns \<Rightarrow> ns | None \<Rightarrow> map ts_name (tp_schemas r))"

fun collect_tools ::
  "'c \<Rightarrow> tool_schema list \<Rightarrow> string list \<Rightarrow> ('c \<Rightarrow> string + tool_provider_result) list
     \<Rightarrow> prompt_error + (tool_schema list \<times> string list)" where
  "collect_tools ctx collected known [] = Inr (collected, known)"
| "collect_tools ctx collected known (p # ps) = (case p ctx of
       Inl x \<Rightarrow> Inl (ProviderThrew x)
     | Inr r \<Rightarrow> collect_tools ctx (collected @ tp_schemas r) (known @ accepted_names r) ps)"

definition order_value :: "js_number \<Rightarrow> rat" where
  "order_value n = (case n of Fin r \<Rightarrow> r | _ \<Rightarrow> 0)"

definition thrown :: "string + 'a \<Rightarrow> prompt_error + 'a" where
  "thrown r = (case r of Inl x \<Rightarrow> Inl (ProviderThrew x) | Inr a \<Rightarrow> Inr a)"

definition eval_section :: "'c \<Rightarrow> 'c prompt_section \<Rightarrow> prompt_error + assembled_text" where
  "eval_section ctx s = bind_res (thrown (ps_text s ctx)) (\<lambda>t. Inr \<lparr> at_name = ps_name s, at_text = t \<rparr>)"

definition eval_context :: "'c \<Rightarrow> 'c prompt_context \<Rightarrow> prompt_error + assembled_text" where
  "eval_context ctx c = bind_res (thrown (pc_text c ctx)) (\<lambda>t. Inr \<lparr> at_name = pc_name c, at_text = t \<rparr>)"

definition merge_view ::
  "scope_parents \<Rightarrow> 'c prompt_layer scoped_layers \<Rightarrow> scope_key option
     \<Rightarrow> ('c prompt_layer \<Rightarrow> 'v named_entries) \<Rightarrow> prompt_error + 'v list" where
  "merge_view ps ls scope pick = (case merge_layers ps ls scope pick of
       None \<Rightarrow> Inl ScopeWalkDiverged | Some es \<Rightarrow> Inr (map snd es))"

text \<open>The complete section among the assembled ones: at most one by the check before.\<close>

definition complete_of :: "('c prompt_section \<times> assembled_text) list \<Rightarrow> assembled_text option" where
  "complete_of zs = (case filter (\<lambda>(s, _). ps_complete s) zs of [] \<Rightarrow> None | zs' \<Rightarrow> Some (snd (last zs')))"

definition assemble ::
  "scope_parents \<Rightarrow> (prompt_assembly \<Rightarrow> string + prompt_assembly) \<Rightarrow> scope_key option \<Rightarrow> 'c
     \<Rightarrow> 'c system_prompt \<Rightarrow> prompt_error + prompt_assembly" where
  "assemble ps waterfall scope ctx sp =
     (let ls = sp_layers sp; global = sl_global ls in
      case chain_layers ps ls scope of None \<Rightarrow> Inl ScopeWalkDiverged | Some scoped \<Rightarrow>
      let suppressed = (pl_suppressors global \<noteq> [] \<or> list_ex (\<lambda>l. pl_suppressors l \<noteq> []) scoped) in
      bind_res (eval_variables ctx [] (concat (map pl_variables (global # scoped)))) (\<lambda>vars.
      bind_res (merge_view ps ls scope pl_sections) (\<lambda>secs.
      bind_res (merge_view ps ls scope pl_contexts) (\<lambda>cons.
      bind_res (collect_tools ctx [] [] (map snd (concat (map pl_tool_providers (global # scoped))))) (\<lambda>(tools, known).
      let defs = sort_key (\<lambda>s. order_value (ps_order s)) secs;
          complete = filter ps_complete defs in
      if length complete > 1 then Inl (CompleteSections (map ps_name complete))
      else
      bind_res (map_res (eval_section ctx) defs) (\<lambda>texts.
      bind_res (if suppressed then Inr []
                else map_res (eval_context ctx) (sort_key (\<lambda>c. order_value (pc_order c)) cons)) (\<lambda>contexts.
      bind_res (order_tools tools (sp_tool_order sp) known) (\<lambda>ordered.
      bind_res (thrown (waterfall \<lparr> pa_sections = texts, pa_contexts = contexts, pa_tools = ordered,
                                   pa_variables = vars \<rparr>)) (\<lambda>out.
      let whole = complete_of (zip defs texts) in
      if whole = None \<and> \<not> suppressed then Inr out
      else Inr (out\<lparr> pa_sections := (case whole of None \<Rightarrow> pa_sections out | Some s \<Rightarrow> [s]),
                     pa_contexts := (if suppressed then [] else pa_contexts out) \<rparr>))))))))))"

section \<open>Templates\<close>

datatype piece = Lit string | Ref string

fun piece_text :: "piece \<Rightarrow> string" where
  "piece_text (Lit s) = s"
| "piece_text (Ref n) = ''{{'' @ n @ ''}}''"

fun piece_value :: "(string \<times> string option) list \<Rightarrow> piece \<Rightarrow> string" where
  "piece_value vars (Lit s) = s"
| "piece_value vars (Ref n) = (case map_of vars n of Some (Some v) \<Rightarrow> v | _ \<Rightarrow> [])"

text \<open>A literal piece holds no opening and does not end in a brace that would start one.\<close>

fun piece_ok :: "(string \<times> string option) list \<Rightarrow> piece \<Rightarrow> bool" where
  "piece_ok vars (Lit s) = (split_open (s @ ''{'') = None)"
| "piece_ok vars (Ref n) = (variable_name n \<and> (case map_of vars n of Some (Some _) \<Rightarrow> True | _ \<Rightarrow> False))"

lemma split_open_Cons:
  "split_open (a # s) = (if a = CHR ''{'' \<and> s \<noteq> [] \<and> hd s = CHR ''{'' then Some ([], tl s)
     else map_option (\<lambda>(pre, rest). (a # pre, rest)) (split_open s))"
  by (cases s) auto

lemma split_open_guarded:
  "split_open (a @ ''{'') = None \<Longrightarrow> split_open (a @ ''{{'' @ rest) = Some (a, rest)"
  by (induction a) (auto simp: split_open_Cons hd_append split: if_splits)

lemma split_open_closed: "split_open (a @ ''{'') = None \<Longrightarrow> split_open a = None"
  by (induction a) (auto simp: split_open_Cons hd_append split: if_splits)

lemma split_open_join:
  "split_open (a @ ''{'') = None \<Longrightarrow> split_open (b @ ''{'') = None \<Longrightarrow> split_open ((a @ b) @ ''{'') = None"
  by (induction a) (auto simp: split_open_Cons hd_append split: if_splits)

lemma variable_name_braceless: "variable_name n \<Longrightarrow> c \<in> set n \<Longrightarrow> c \<noteq> CHR ''{'' \<and> c \<noteq> CHR ''}''"
proof -
  have no: "\<not> lower (CHR ''{'')" "\<not> lower (CHR ''}'')" "\<not> name_char (CHR ''{'')" "\<not> name_char (CHR ''}'')"
    by (simp_all add: lower_def name_char_def)
  assume "variable_name n" and "c \<in> set n"
  then have "lower c \<or> name_char c"
    by (cases n) (auto simp: variable_name_def list_all_iff)
  with no show ?thesis by metis
qed

lemma group_at_name: "variable_name n \<Longrightarrow> group_at (n @ ''}}'' @ rest) = Some (n, rest)"
proof -
  assume n: "variable_name n"
  then have "takeWhile (\<lambda>c. c \<noteq> CHR ''{'' \<and> c \<noteq> CHR ''}'') (n @ ''}}'' @ rest) = n"
    using variable_name_braceless [OF n] by (subst takeWhile_append2) auto
  then show ?thesis by (simp add: group_at_def Let_def)
qed

lemma interpolate_pieces:
  "split_open (pre @ ''{'') = None \<Longrightarrow> list_all (piece_ok vars) ps \<Longrightarrow>
     interpolate_from kind owner vars (pre @ concat (map piece_text ps))
       = Inr (pre @ concat (map (piece_value vars) ps))"
proof (induction ps arbitrary: pre)
  case Nil
  then show ?case by (simp add: interpolate_from.simps split_open_closed)
next
  case (Cons p ps)
  show ?case
  proof (cases p)
    case (Lit s)
    with Cons.prems split_open_join [of pre s] have "split_open ((pre @ s) @ ''{'') = None" by simp
    from Cons.IH [OF this] Cons.prems Lit show ?thesis by simp
  next
    case (Ref n)
    with Cons.prems obtain v where n: "variable_name n" "map_of vars n = Some (Some v)"
      by (auto split: option.splits)
    have "split_open (pre @ ''{{'' @ n @ ''}}'' @ concat (map piece_text ps))
        = Some (pre, n @ ''}}'' @ concat (map piece_text ps))"
      by (rule split_open_guarded [OF Cons.prems(1)])
    moreover have "interpolate_from kind owner vars ([] @ concat (map piece_text ps))
        = Inr ([] @ concat (map (piece_value vars) ps))"
      using Cons.prems by (intro Cons.IH) simp_all
    ultimately show ?thesis
      using Ref n group_at_name [OF n(1)] by (subst interpolate_from.simps) simp
  qed
qed

section \<open>The tool order permutes\<close>

lemma first_repeat_None: "first_repeat seen ns = None \<longleftrightarrow> distinct ns \<and> set ns \<inter> set seen = {}"
  by (induction ns arbitrary: seen) auto

text \<open>The part of the listed tools: one block per name, the unlisted ones at the marker.\<close>

lemma mset_blocks:
  assumes "distinct ns"
  shows "mset (concat (map (\<lambda>n. if n = r then rest else filter (\<lambda>t. ts_name t = n) tools) ns))
    = (if r \<in> set ns then mset rest else {#}) + {# t \<in># mset tools. ts_name t \<in> set ns - {r} #}"
  using assms
proof (induction ns)
  case Nil
  then show ?case by simp
next
  case (Cons n ns)
  have "{# t \<in># mset tools. ts_name t \<in> set (n # ns) - {r} #}
      = (if n = r then {#} else {# t \<in># mset tools. ts_name t = n #}) + {# t \<in># mset tools. ts_name t \<in> set ns - {r} #}"
    using Cons.prems by (induction tools) auto
  with Cons show ?case by (auto simp: mset_filter)
qed

lemma sort_tools_mset [simp]: "mset (sort_tools tools) = mset tools"
  by (simp add: sort_tools_def)

section \<open>Properties\<close>

text \<open>
  Ordering the tools loses, adds and duplicates none: with a validated configuration the tools
  of a request are a permutation of the collected ones, sorted by name when no order is configured.
\<close>

theorem order_tools_permutes:
  assumes "validate_tool_order cfg = Inr ord" and "order_tools tools ord known = Inr ts"
  shows "mset ts = mset tools \<and> (case cfg of None \<Rightarrow> sorted (map ts_name ts) | Some ns \<Rightarrow>
    filter (\<lambda>t. ts_name t \<notin> set ns) ts = sort_tools (filter (\<lambda>t. ts_name t \<notin> set ns) tools))"
proof (cases cfg)
  case None
  with assms show ?thesis
    by (auto simp: validate_tool_order_def order_tools_def sort_tools_def split: if_splits)
next
  case (Some ns)
  let ?r = tool_order_rest
  let ?rest = "sort_tools (filter (\<lambda>t. ts_name t \<notin> set ns) tools)"
  from assms Some have d: "distinct ns" "?r \<in> set ns" and noresv: "\<forall>t \<in> set tools. ts_name t \<noteq> ?r"
    and ts: "ts = concat (map (\<lambda>n. if n = ?r then ?rest else filter (\<lambda>t. ts_name t = n) tools) ns)"
    by (auto simp: validate_tool_order_def order_tools_def first_repeat_None list_ex_iff Let_def
        split: option.splits if_splits)
  have "mset ts = {# t \<in># mset tools. ts_name t \<notin> set ns #} + {# t \<in># mset tools. ts_name t \<in> set ns - {?r} #}"
    using mset_blocks [OF d(1), of ?r ?rest tools] d(2) by (simp add: ts mset_filter)
  also have "\<dots> = mset tools"
    using noresv by (induction tools) auto
  finally have m: "mset ts = mset tools" .
  have unlisted: "filter (\<lambda>t. ts_name t \<notin> set ns) (concat (map (\<lambda>n. if n = ?r then ?rest
      else filter (\<lambda>t. ts_name t = n) tools) ms)) = (if ?r \<in> set ms then ?rest else [])"
    if "distinct ms" "set ms \<subseteq> set ns" for ms
    using that
  proof (induction ms)
    case (Cons n ms)
    have "filter (\<lambda>t. ts_name t \<notin> set ns) ?rest = ?rest"
      by (rule filter_True) (auto simp: sort_tools_def)
    moreover have "filter (\<lambda>t. ts_name t \<notin> set ns) (filter (\<lambda>t. ts_name t = n) tools) = []"
      using Cons.prems by (auto simp: filter_empty_conv)
    ultimately show ?case using Cons by auto
  qed simp
  from m unlisted [OF d(1) subset_refl] d(2) Some show ?thesis by (simp add: ts)
qed

definition named_tool :: "string \<Rightarrow> tool_schema" where
  "named_tool n = \<lparr> ts_name = n, ts_description = [], ts_parameters = JObj [] \<rparr>"

theorem order_tools_permutes_witness:
  "order_tools (map named_tool [''b'', ''c'', ''a'']) (Some [''c'', tool_order_rest]) [''a'', ''b'', ''c'']
     = Inr (map named_tool [''c'', ''a'', ''b''])
   \<and> mset (map named_tool [''c'', ''a'', ''b'']) = mset (map named_tool [''b'', ''c'', ''a''])"
proof -
  have v: "validate_tool_order (Some [''c'', tool_order_rest]) = Inr (Some [''c'', tool_order_rest])"
    by (simp add: validate_tool_order_def tool_order_rest_def)
  have o: "order_tools (map named_tool [''b'', ''c'', ''a'']) (Some [''c'', tool_order_rest]) [''a'', ''b'', ''c'']
      = Inr (map named_tool [''c'', ''a'', ''b''])" by code_simp
  from order_tools_permutes [OF v o] o show ?thesis by blast
qed

text \<open>
  Interpolation replaces exactly the references: a text made of literal pieces and of
  references to defined variables renders to the literals and the variables' values in order, and
  a value that itself looks like a reference is not scanned again.
\<close>

theorem interpolate_template:
  assumes "list_all (piece_ok vars) ps"
  shows "interpolate kind vars \<lparr> at_name = owner, at_text = concat (map piece_text ps) \<rparr>
    = Inr (concat (map (piece_value vars) ps))"
  using interpolate_pieces [of "[]" vars ps kind owner] assms by (simp add: interpolate_def)

theorem interpolate_template_witness:
  "interpolate InSection [(''who'', Some ''{{who}}'')]
     \<lparr> at_name = ''s'', at_text = ''Hi {{who}}, {x}'' \<rparr> = Inr ''Hi {{who}}, {x}''"
  using interpolate_template [of "[(''who'', Some ''{{who}}'')]" "[Lit ''Hi '', Ref ''who'', Lit '', {x}'']" InSection "''s''"]
  by (simp add: variable_name_def lower_def name_char_def)

end
