(* ===== verification/Agent_Loop.thy ===== *)
theory Agent_Loop
  imports Tool_Calls Runtime_Context System_Prompt Assembler
begin

text \<open>
  The agent driver, \<^verbatim>\<open>packages/core/agent-loop/src/agent.ts\<close>: turns and steps over the inbox of one
  session. The asynchronous functions are cut at the awaits where other code can run: \<open>loop_pc\<close> names
  the await the driver is suspended at and carries what its frames hold, \<open>agent_step\<close> is everything
  that runs synchronously until the next one, and the answer of the awaited service is the input. A
  \<^verbatim>\<open>finally\<close> is a call at every exit of its block. The proofs are in the theory \<^verbatim>\<open>Agent_Frame\<close>.
\<close>

section \<open>State\<close>

record agent_options =
  ao_provider :: "string option"
  ao_model :: "string option"
  ao_max_tokens :: "int option"

text \<open>The abort controller of an activity is the cause it was aborted with; the first cause wins.\<close>

datatype agent_phase =
    Idle int
  | Maintenance "cancel_cause option" int bool
  | Running "cancel_cause option" int int bool

datatype agent_error =
    AgAborted cancel_cause
  | AgSession session_error
  | AgInbox inbox_error
  | AgSurface surface_error
  | AgPrompt prompt_error
  | AgAssembly assembly_error
  | AgTools run_error
  | AgLlm llm_failure
  | AgNoModel
  | AgNoHeader
  | AgBusy
  | AgOther string

datatype agent_note =
    NoteStatus bool
  | NoteError int int agent_error

record prepared_call =
  pr_config :: llm_call_config
  pr_adapter_defaults :: "adapter_defaults option"
  pr_context_window :: "int option"

record llm_request =
  rq_config :: llm_call_config
  rq_messages :: "message list"
  rq_system :: "string option"
  rq_tools :: "json list option"
  rq_session :: session_id

datatype pre_step_decision =
    StepDefault
  | StepReject
  | StepEnter "message list"

text \<open>The locals of \<^verbatim>\<open>turn\<close> and \<^verbatim>\<open>step\<close> that live across an await inside the step.\<close>

record step_frame =
  fr_ends :: "turn_end_reason option"
  fr_system :: string
  fr_tools :: "json list"

datatype loop_pc =
    NoDriver
  | AssembleWait "turn_end_reason option" "message list"
  | PreStepWait "turn_end_reason option" prompt_assembly "message list"
  | RequestWait step_frame "message list" llm_call_config
  | PrepareWait step_frame "message list" llm_call_config
  | StreamWait step_frame llm_request assembler "nat list"
  | RecoverWait step_frame llm_failure
  | ToolsWait step_frame tool_run
  | StoppingWait turn_end_reason
  | AwaitTurn bool

record agent =
  ag_options :: agent_options
  ag_inbox :: agent_inbox
  ag_phase :: agent_phase
  ag_header_logged :: bool
  ag_restored :: retained
  ag_followed :: nat
  ag_pc :: loop_pc
  ag_notes :: "agent_note list"

record agent_env =
  ae_sched :: sched_env
  ae_error_text :: "agent_error \<Rightarrow> string"

datatype agent_input =
    Assembled "agent_error + prompt_assembly"
  | PreStepDecided "agent_error + pre_step_decision"
  | RequestProposed "agent_error + llm_call_config option"
  | CallPrepared "agent_error + prepared_call"
  | StreamChunk stream_chunk
  | StreamEnded "agent_error + unit"
  | Recovered "agent_error + bool"
  | ToolAnswered answer
  | ToolSettled nat "string + (exec_result \<times> bool)"
  | StoppingDone "agent_error + unit"
  | TurnReturned

section \<open>Phases and shared helpers\<close>

abbreviation ag_session :: "agent \<Rightarrow> session" where
  "ag_session st \<equiv> ai_session (ag_inbox st)"

abbreviation ag_log :: "agent \<Rightarrow> session_event list" where
  "ag_log st \<equiv> ses_log (ag_session st)"

fun phase_abort :: "agent_phase \<Rightarrow> cancel_cause option" where
  "phase_abort (Idle _) = None"
| "phase_abort (Maintenance a _ _) = a"
| "phase_abort (Running a _ _ _) = a"

fun phase_turn :: "agent_phase \<Rightarrow> int" where
  "phase_turn (Idle n) = n"
| "phase_turn (Maintenance _ n _) = n"
| "phase_turn (Running _ n _ _) = n"

fun phase_step :: "agent_phase \<Rightarrow> int" where
  "phase_step (Running _ _ k _) = k"
| "phase_step _ = 0"

fun phase_wake :: "agent_phase \<Rightarrow> bool" where
  "phase_wake (Idle _) = False"
| "phase_wake (Maintenance _ _ w) = w"
| "phase_wake (Running _ _ _ w) = w"

fun set_abort :: "cancel_cause \<Rightarrow> agent_phase \<Rightarrow> agent_phase" where
  "set_abort c (Idle n) = Idle n"
| "set_abort c (Maintenance a n w) = Maintenance (case a of None \<Rightarrow> Some c | Some _ \<Rightarrow> a) n w"
| "set_abort c (Running a n k w) = Running (case a of None \<Rightarrow> Some c | Some _ \<Rightarrow> a) n k w"

fun set_wake :: "bool \<Rightarrow> agent_phase \<Rightarrow> agent_phase" where
  "set_wake w (Idle n) = Idle n"
| "set_wake w (Maintenance a n _) = Maintenance a n w"
| "set_wake w (Running a n k _) = Running a n k w"

fun set_turn :: "int \<Rightarrow> agent_phase \<Rightarrow> agent_phase" where
  "set_turn n (Running a _ k w) = Running a n k w"
| "set_turn n p = p"

fun set_step :: "int \<Rightarrow> agent_phase \<Rightarrow> agent_phase" where
  "set_step k (Running a n _ w) = Running a n k w"
| "set_step k p = p"

fun is_running :: "agent_phase \<Rightarrow> bool" where
  "is_running (Running _ _ _ _) = True"
| "is_running _ = False"

definition set_phase :: "agent_phase \<Rightarrow> agent \<Rightarrow> agent" where
  "set_phase p st = st\<lparr> ag_phase := p,
     ag_notes := ag_notes st @ (if is_running p \<noteq> is_running (ag_phase st) then [NoteStatus (is_running p)] else []) \<rparr>"

definition ag_abort :: "agent \<Rightarrow> cancel_cause option" where
  "ag_abort st = phase_abort (ag_phase st)"

definition tool_env :: "agent_env \<Rightarrow> agent \<Rightarrow> sched_env" where
  "tool_env env st = (ae_sched env)\<lparr> se_aborted := (ag_abort st \<noteq> None) \<rparr>"

definition ag_append ::
  "agent_env \<Rightarrow> event_data \<Rightarrow> json option \<Rightarrow> json option \<Rightarrow> agent \<Rightarrow> agent \<times> (agent_error + nat)" where
  "ag_append env d op srcs st =
     (case append_event False (se_veto (ae_sched env)) (se_now (ae_sched env)) (ag_session st) d op srcs False of
        (s', r) \<Rightarrow> (st\<lparr> ag_inbox := (ag_inbox st)\<lparr> ai_session := s' \<rparr> \<rparr>,
                    (case r of Inl x \<Rightarrow> Inl (AgSession x) | Inr e \<Rightarrow> Inr (ev_seq e))))"

definition fresh_uuid :: "agent_env \<Rightarrow> agent \<Rightarrow> message_id" where
  "fresh_uuid env st = se_uuid (ae_sched env) (length (ag_log st))"

text \<open>\<^verbatim>\<open>throwError\<close> publishes the failure; the driver contains it.\<close>

definition note_error :: "agent_error \<Rightarrow> agent \<Rightarrow> agent" where
  "note_error x st =
     st\<lparr> ag_notes := ag_notes st @ [NoteError (phase_turn (ag_phase st)) (phase_step (ag_phase st)) x] \<rparr>"

definition goto :: "loop_pc \<Rightarrow> agent \<Rightarrow> agent" where
  "goto pc st = st\<lparr> ag_pc := pc \<rparr>"

text \<open>
  The \<^verbatim>\<open>LlmError\<close> constructor keeps the facts of a failure and throws a plain error on malformed
  ones; every other failure flattens to its text.
\<close>

definition llm_error :: "llm_failure \<Rightarrow> agent_error" where
  "llm_error f =
     (if failure_message f = [] then AgOther ''LlmError message must be a non-empty string''
      else if failure_code f = [] then AgOther ''LlmError code must be a non-empty string''
      else if (case failure_status f of Some n \<Rightarrow> n < 100 \<or> n > 599 | None \<Rightarrow> False)
        then AgOther ''LlmError status must be an integer from 100 through 599''
      else if (case failure_retry_after f of Some r \<Rightarrow> r \<le> 0 | None \<Rightarrow> False)
        then AgOther ''LlmError providerRetryAfterMs must be a positive finite number''
      else if failure_request_id f = Some [] then AgOther ''LlmError requestId must be a non-empty string''
      else AgLlm f)"

definition error_failure :: "agent_env \<Rightarrow> agent_error \<Rightarrow> llm_failure" where
  "error_failure env x = (case x of
       AgLlm f \<Rightarrow> f
     | _ \<Rightarrow> \<lparr> failure_message = ae_error_text env x, failure_code = ''UNKNOWN'', failure_status = None,
              failure_retry_after = None, failure_request_id = None \<rparr>)"

section \<open>Ending a turn\<close>

text \<open>
  The outer \<^verbatim>\<open>finally\<close>: \<open>False\<close> when the append of the turn end itself failed. \<open>AwaitTurn\<close> is the
  \<^verbatim>\<open>await\<close> of \<^verbatim>\<open>kick\<close> on the promise of the turn: a thrown turn and a false one both end the loop.
\<close>

definition close_turn :: "agent_env \<Rightarrow> turn_end_reason \<Rightarrow> agent \<Rightarrow> agent \<times> bool" where
  "close_turn env reason st =
     (case ag_append env (TurnEnd (phase_turn (ag_phase st)) reason) None None st of
        (st', Inl x) \<Rightarrow> (note_error x st', False)
      | (st', Inr _) \<Rightarrow> (st', True))"

definition turn_return :: "agent_env \<Rightarrow> turn_end_reason \<Rightarrow> agent \<Rightarrow> agent" where
  "turn_return env reason st = goto (AwaitTurn False) (fst (close_turn env reason st))"

definition turn_throw :: "agent_env \<Rightarrow> agent_error \<Rightarrow> agent \<Rightarrow> agent" where
  "turn_throw env x st = (case ag_abort st of
       Some c \<Rightarrow> turn_return env (EndAborted c) st
     | None \<Rightarrow> turn_return env (EndError (error_failure env x)) (note_error x st))"

definition turn_break :: "agent_env \<Rightarrow> turn_end_reason \<Rightarrow> agent \<Rightarrow> agent" where
  "turn_break env reason st = (case close_turn env reason st of
       (st', False) \<Rightarrow> goto (AwaitTurn False) st'
     | (st', True) \<Rightarrow>
         if \<not> has_pending (ai_lists (ag_inbox st')) then goto (AwaitTurn False) st'
         else goto (AwaitTurn True) (st'\<lparr> ag_phase := Running None (phase_turn (ag_phase st')) 0 False \<rparr>))"

section \<open>The step boundary\<close>

definition loop_top :: "agent_env \<Rightarrow> inbox_target \<Rightarrow> turn_end_reason option \<Rightarrow> agent \<Rightarrow> agent" where
  "loop_top env target ends st = (case ag_abort st of
       Some c \<Rightarrow> turn_throw env (AgAborted c) st
     | None \<Rightarrow>
         (case claim False (se_veto (ae_sched env)) (se_now (ae_sched env)) (ag_inbox st) target
                 (phase_turn (ag_phase st)) of
            (ib, Inl x) \<Rightarrow> turn_throw env (AgInbox x) (st\<lparr> ag_inbox := ib \<rparr>)
          | (ib, Inr claimed) \<Rightarrow> goto (AssembleWait ends claimed) (st\<lparr> ag_inbox := ib \<rparr>)))"

definition begin_turn :: "agent_env \<Rightarrow> agent \<Rightarrow> agent" where
  "begin_turn env st = (case ag_abort st of
       Some c \<Rightarrow> goto (AwaitTurn False) st
     | None \<Rightarrow>
         let turn = phase_turn (ag_phase st) + 1 in
         (case ag_append env (TurnStart turn) None None st of
            (st', Inl x) \<Rightarrow> goto (AwaitTurn False) (note_error x st')
          | (st', Inr _) \<Rightarrow> loop_top env NextTurn None (st'\<lparr> ag_phase := set_turn turn (ag_phase st') \<rparr>)))"

text \<open>The inner \<^verbatim>\<open>finally\<close> closes the step before the error goes on; its own failure replaces it.\<close>

definition step_throw :: "agent_env \<Rightarrow> agent_error \<Rightarrow> agent \<Rightarrow> agent" where
  "step_throw env x st =
     (case ag_append env (StepEnd (phase_turn (ag_phase st)) (phase_step (ag_phase st))) None None st of
        (st', Inl y) \<Rightarrow> turn_throw env y st'
      | (st', Inr _) \<Rightarrow> turn_throw env x st')"

definition keep_max_tokens :: "turn_end_reason option \<Rightarrow> turn_end_reason option \<Rightarrow> turn_end_reason option" where
  "keep_max_tokens ends step_end = (if ends = None \<or> ends \<noteq> Some EndMaxTokens then step_end else ends)"

definition step_return :: "agent_env \<Rightarrow> step_frame \<Rightarrow> turn_end_reason option \<Rightarrow> agent \<Rightarrow> agent" where
  "step_return env fr step_end st =
     (let ends = keep_max_tokens (fr_ends fr) step_end in
      case ag_append env (StepEnd (phase_turn (ag_phase st)) (phase_step (ag_phase st))) None None st of
        (st', Inl y) \<Rightarrow> turn_throw env y st'
      | (st', Inr _) \<Rightarrow>
          (case ag_abort st' of
             Some c \<Rightarrow> turn_throw env (AgAborted c) st'
           | None \<Rightarrow> (case ends of
                 Some r \<Rightarrow> if length (ib_next_step (ai_lists (ag_inbox st'))) = 0 then goto (StoppingWait r) st'
                           else loop_top env NextStep ends st'
               | None \<Rightarrow> loop_top env NextStep ends st')))"

section \<open>One request\<close>

definition request_proposal :: "epoch_header \<Rightarrow> llm_call_config" where
  "request_proposal h = (case eh_adapter_defaults h of
       None \<Rightarrow> eh_config h
     | Some d \<Rightarrow>
         let p1 = (if def_reasoning_effort d then (eh_config h)\<lparr> cfg_reasoning_effort := None \<rparr> else eh_config h)
         in if def_max_tokens d then p1\<lparr> cfg_max_tokens := None \<rparr> else p1)"

definition option_text :: "string option \<Rightarrow> string" where
  "option_text t = (case t of Some s \<Rightarrow> s | None \<Rightarrow> [])"

definition owned_effort :: "agent_options \<Rightarrow> epoch_header option \<Rightarrow> string option" where
  "owned_effort opts persisted = (case persisted of
       None \<Rightarrow> None
     | Some h \<Rightarrow>
         if cfg_provider (eh_config h) = option_text (ao_provider opts)
            \<and> cfg_model (eh_config h) = option_text (ao_model opts) \<and> \<not> default_effort h
         then cfg_reasoning_effort (eh_config h) else None)"

definition seed_config :: "bool \<Rightarrow> agent_options \<Rightarrow> epoch_header option \<Rightarrow> llm_call_config option" where
  "seed_config logged opts persisted =
     (if logged then map_option request_proposal persisted
      else Some \<lparr> cfg_provider = option_text (ao_provider opts), cfg_model = option_text (ao_model opts),
                  cfg_reasoning_effort = owned_effort opts persisted, cfg_temperature = None,
                  cfg_max_tokens = ao_max_tokens opts, cfg_stop = None \<rparr>)"

definition with_session :: "session \<Rightarrow> agent \<Rightarrow> agent" where
  "with_session s st = st\<lparr> ag_inbox := (ag_inbox st)\<lparr> ai_session := s \<rparr> \<rparr>"

definition request_begin :: "agent_env \<Rightarrow> step_frame \<Rightarrow> agent \<Rightarrow> agent" where
  "request_begin env fr st =
     (case derive_messages (ag_session st) of
        (s1, Inl x) \<Rightarrow> step_throw env (AgSurface x) (with_session s1 st)
      | (s1, Inr boundary) \<Rightarrow>
          let (s2, persisted) = request_header s1; st2 = with_session s2 st in
          (case seed_config (ag_header_logged st2) (ag_options st2) persisted of
             None \<Rightarrow> step_throw env AgNoHeader st2
           | Some seed \<Rightarrow> goto (RequestWait fr boundary seed) st2))"

definition tool_json :: "tool_schema \<Rightarrow> json" where
  "tool_json t = JObj [(''name'', JStr (ts_name t)), (''description'', JStr (ts_description t)),
     (''parameters'', ts_parameters t)]"

definition step_begin :: "agent_env \<Rightarrow> turn_end_reason option \<Rightarrow> prompt_assembly \<Rightarrow> agent \<Rightarrow> agent" where
  "step_begin env ends assembly st = (case ag_abort st of
       Some c \<Rightarrow> step_throw env (AgAborted c) st
     | None \<Rightarrow> (case render_prompt assembly of
         Inl x \<Rightarrow> step_throw env (AgPrompt x) st
       | Inr system \<Rightarrow>
           request_begin env \<lparr> fr_ends = ends, fr_system = system, fr_tools = map tool_json (pa_tools assembly) \<rparr> st))"

fun append_messages :: "agent_env \<Rightarrow> message list \<Rightarrow> agent \<Rightarrow> agent \<times> (agent_error + unit)" where
  "append_messages env [] st = (st, Inr ())"
| "append_messages env (m # ms) st =
     (case ag_append env (UserMessage m) (Some op_append) None st of
        (st', Inl x) \<Rightarrow> (st', Inl x)
      | (st', Inr _) \<Rightarrow> append_messages env ms st')"

definition enter_step ::
  "agent_env \<Rightarrow> turn_end_reason option \<Rightarrow> prompt_assembly \<Rightarrow> message list \<Rightarrow> agent \<Rightarrow> agent" where
  "enter_step env ends assembly msgs st =
     (let step = phase_step (ag_phase st) + 1 in
      case ag_append env (StepStart (phase_turn (ag_phase st)) step) None None st of
        (st1, Inl x) \<Rightarrow> turn_throw env x st1
      | (st1, Inr _) \<Rightarrow>
          (case append_messages env msgs (st1\<lparr> ag_phase := set_step step (ag_phase st1) \<rparr>) of
             (st2, Inl x) \<Rightarrow> step_throw env x st2
           | (st2, Inr _) \<Rightarrow> step_begin env ends assembly st2))"

definition decide_step ::
  "agent_env \<Rightarrow> turn_end_reason option \<Rightarrow> prompt_assembly \<Rightarrow> message list \<Rightarrow> agent \<Rightarrow> agent" where
  "decide_step env ends assembly msgs st =
     (case (ends, msgs) of
        (Some r, []) \<Rightarrow> turn_break env r st
      | _ \<Rightarrow>
          if phase_step (ag_phase st) = 0 \<and> length msgs = 0 then turn_return env EndCompleted st
          else (case ag_abort st of
              Some c \<Rightarrow> turn_throw env (AgAborted c) st
            | None \<Rightarrow> enter_step env ends assembly msgs st))"

definition write_header :: "agent_env \<Rightarrow> epoch_header \<Rightarrow> agent \<Rightarrow> agent \<times> (agent_error + unit)" where
  "write_header env h st =
     (let (s1, baseline) = request_header (ag_session st); st1 = with_session s1 st in
      if \<not> ag_header_logged st1 then
        (case ag_append env (RequestHeader h (if baseline = None then ''initial'' else ''resume'')) None None st1 of
           (st2, Inl x) \<Rightarrow> (st2, Inl x)
         | (st2, Inr _) \<Rightarrow> (st2\<lparr> ag_header_logged := True \<rparr>, Inr ()))
      else if (case baseline of None \<Rightarrow> True | Some b \<Rightarrow> \<not> header_equals b h) then
        (case ag_append env (RequestHeader h ''change'') None None st1 of
           (st2, Inl x) \<Rightarrow> (st2, Inl x)
         | (st2, Inr _) \<Rightarrow> (st2, Inr ()))
      else (st1, Inr ()))"

definition write_context :: "agent_env \<Rightarrow> request_context \<Rightarrow> agent \<Rightarrow> agent \<times> (agent_error + unit)" where
  "write_context env c st =
     (let (s1, previous) = request_context (ag_session st); st1 = with_session s1 st in
      if map_option rc_provider previous \<noteq> Some (rc_provider c)
         \<or> map_option rc_model previous \<noteq> Some (rc_model c)
         \<or> Option.bind previous rc_context_window \<noteq> rc_context_window c
      then (case ag_append env (RequestContext c) None None st1 of
              (st2, Inl x) \<Rightarrow> (st2, Inl x)
            | (st2, Inr _) \<Rightarrow> (st2, Inr ()))
      else (st1, Inr ()))"

definition composed_header ::
  "step_frame \<Rightarrow> llm_call_config \<Rightarrow> prepared_call option \<Rightarrow> epoch_header" where
  "composed_header fr cfg prepared = canonical_header
     \<lparr> eh_config = cfg,
       eh_adapter_defaults = Option.bind prepared pr_adapter_defaults,
       eh_system = (if fr_system fr \<noteq> [] then Some (fr_system fr) else None),
       eh_tools = (if length (fr_tools fr) > 0 then Some (fr_tools fr) else None) \<rparr>"

definition compose_request ::
  "agent_env \<Rightarrow> step_frame \<Rightarrow> message list \<Rightarrow> llm_call_config \<Rightarrow> prepared_call option \<Rightarrow> agent \<Rightarrow> agent" where
  "compose_request env fr boundary cfg prepared st =
     (case ag_abort st of
        Some c \<Rightarrow> step_throw env (AgAborted c) st
      | None \<Rightarrow>
        let h = composed_header fr cfg prepared in
        (case write_header env h st of
           (st1, Inl x) \<Rightarrow> step_throw env x st1
         | (st1, Inr _) \<Rightarrow>
             (case write_context env
                     \<lparr> rc_provider = cfg_provider cfg, rc_model = cfg_model cfg,
                       rc_context_window = Option.bind prepared pr_context_window \<rparr> st1 of
                (st2, Inl x) \<Rightarrow> step_throw env x st2
              | (st2, Inr _) \<Rightarrow>
                  (case ag_abort st2 of
                     Some c \<Rightarrow> step_throw env (AgAborted c) st2
                   | None \<Rightarrow> goto (StreamWait fr
                       \<lparr> rq_config = eh_config h, rq_messages = boundary, rq_system = eh_system h,
                         rq_tools = eh_tools h, rq_session = hdr_id (ses_header (ag_session st2)) \<rparr>
                       new_assembler []) st2))))"

definition config_proposed ::
  "agent_env \<Rightarrow> step_frame \<Rightarrow> message list \<Rightarrow> llm_call_config \<Rightarrow> agent \<Rightarrow> agent" where
  "config_proposed env fr boundary cfg st =
     (if cfg_provider cfg = [] \<or> cfg_model cfg = [] then step_throw env AgNoModel st
      else goto (PrepareWait fr boundary cfg) st)"

definition call_prepared ::
  "agent_env \<Rightarrow> step_frame \<Rightarrow> message list \<Rightarrow> llm_call_config \<Rightarrow> agent_error + prepared_call \<Rightarrow> agent \<Rightarrow> agent" where
  "call_prepared env fr boundary cfg r st = (case r of
       Inr p \<Rightarrow> compose_request env fr boundary (pr_config p) (Some p) st
     | Inl (AgLlm f) \<Rightarrow>
         if failure_code f = ''NO_ADAPTER'' then compose_request env fr boundary cfg None st
         else step_throw env (AgLlm f) st
     | Inl x \<Rightarrow> step_throw env x st)"

section \<open>The answer of the model\<close>

definition replay_json :: "replay_envelope \<Rightarrow> json" where
  "replay_json e = JObj ((''response'', replay_response e)
     # (case replay_blocks e of None \<Rightarrow> [] | Some bs \<Rightarrow> [(''blocks'', JArr bs)]))"

definition planned_calls :: "content_block list \<Rightarrow> tool_call list" where
  "planned_calls bs = List.map_filter (\<lambda>b. case b of
       ToolCallBlock i n a \<Rightarrow> Some \<lparr> cl_call_id = i, cl_name = n, cl_arguments = a \<rparr> | _ \<Rightarrow> None) bs"

text \<open>After every synchronous stretch of the scheduler: its inbox is the agent's.\<close>

definition tools_continue :: "agent_env \<Rightarrow> step_frame \<Rightarrow> tool_run \<Rightarrow> agent \<Rightarrow> agent" where
  "tools_continue env fr run st =
     (let st' = st\<lparr> ag_inbox := tu_inbox run \<rparr> in
      case tu_pc run of
        RunDone concluded \<Rightarrow> step_return env fr (if concluded then Some EndCompleted else None) st'
      | RunThrown x \<Rightarrow> step_throw env (AgTools x) st'
      | _ \<Rightarrow> goto (ToolsWait fr run) st')"

definition finish_message ::
  "agent_env \<Rightarrow> step_frame \<Rightarrow> llm_request \<Rightarrow> assembler \<Rightarrow> nat list \<Rightarrow> agent \<Rightarrow> agent" where
  "finish_message env fr rq a seqs st =
     (case assembled_blocks a of
        Inl x \<Rightarrow> step_throw env (AgAssembly x) st
      | Inr blocks \<Rightarrow> (case replay_state a of
          Inl x \<Rightarrow> step_throw env (AgAssembly x) st
        | Inr envelope \<Rightarrow>
            let m = create_assistant_message (fresh_uuid env st) blocks (cfg_provider (rq_config rq))
                      (cfg_model (rq_config rq)) (map_option replay_json envelope);
                turn = phase_turn (ag_phase st); step = phase_step (ag_phase st)
            in (case ag_append env (AssistantMessage turn step m (as_usage a)) (Some op_append)
                       (Some (seqs_json seqs)) st of
                  (st1, Inl x) \<Rightarrow> step_throw env x st1
                | (st1, Inr _) \<Rightarrow>
                    if finish_of a = FinMaxTokens then step_return env fr (Some EndMaxTokens) st1
                    else
                      let calls = planned_calls blocks in
                      if length calls = 0 then step_return env fr (Some EndCompleted) st1
                      else tools_continue env fr (start_run (tool_env env st1) turn step calls (ag_inbox st1)) st1)))"

definition stream_ended ::
  "agent_env \<Rightarrow> step_frame \<Rightarrow> llm_request \<Rightarrow> assembler \<Rightarrow> nat list \<Rightarrow> agent \<Rightarrow> agent" where
  "stream_ended env fr rq a seqs st = (case finish_of a of
       FinError f \<Rightarrow> goto (RecoverWait fr f) st
     | FinAborted f \<Rightarrow> goto (RecoverWait fr f) st
     | _ \<Rightarrow> finish_message env fr rq a seqs st)"

definition stream_chunk_arrived ::
  "agent_env \<Rightarrow> step_frame \<Rightarrow> llm_request \<Rightarrow> assembler \<Rightarrow> nat list \<Rightarrow> stream_chunk \<Rightarrow> agent \<Rightarrow> agent" where
  "stream_chunk_arrived env fr rq a seqs c st =
     (case ag_append env (AssistantChunk (phase_turn (ag_phase st)) (phase_step (ag_phase st)) c) None None st of
        (st', Inl x) \<Rightarrow> step_throw env x st'
      | (st', Inr n) \<Rightarrow> goto (StreamWait fr rq (push_chunk a c) (seqs @ [n])) st')"

section \<open>Waking and ending the driver\<close>

definition wake_driver :: "agent_env \<Rightarrow> bool \<Rightarrow> agent \<Rightarrow> agent" where
  "wake_driver env after_abort st = (case ag_phase st of
       Idle n \<Rightarrow> begin_turn env (set_phase (Running None n 0 False) st)
     | p \<Rightarrow>
         if phase_abort p \<noteq> Some CauseDisposed \<and> (\<not> is_running p \<or> after_abort)
         then st\<lparr> ag_phase := set_wake True p \<rparr> else st)"

definition end_activity :: "agent_env \<Rightarrow> agent \<Rightarrow> agent" where
  "end_activity env st =
     (let p = ag_phase st; st' = set_phase (Idle (phase_turn p)) (goto NoDriver st) in
      if phase_wake p \<and> has_pending (ai_lists (ag_inbox st')) then wake_driver env False st' else st')"

section \<open>Resumption\<close>

definition retained_now :: "agent \<Rightarrow> retained" where
  "retained_now st = foldl follow_event (ag_restored st) (drop (ag_followed st) (ag_log st))"

definition pre_step_messages ::
  "agent_env \<Rightarrow> agent \<Rightarrow> message list \<Rightarrow> (string \<times> string) list \<Rightarrow> message list" where
  "pre_step_messages env st claimed sections =
     (case project (fresh_uuid env st) (retained_now st) (join_context_sections sections) sections of
        None \<Rightarrow> claimed | Some m \<Rightarrow> claimed @ [m])"

text \<open>
  What an await throws: the rejection, or else the cancellation found by \<^verbatim>\<open>signal.throwIfAborted\<close>
  right after it.
\<close>

definition checked :: "agent \<Rightarrow> agent_error + 'a \<Rightarrow> agent_error + 'a" where
  "checked st r = (case r of Inl x \<Rightarrow> Inl x | Inr a \<Rightarrow>
     (case ag_abort st of Some c \<Rightarrow> Inl (AgAborted c) | None \<Rightarrow> Inr a))"

fun agent_step :: "agent_env \<Rightarrow> agent_input \<Rightarrow> agent \<Rightarrow> agent option" where
  "agent_step env (Assembled r) st = (case ag_pc st of
       AssembleWait ends claimed \<Rightarrow> Some (case checked st r of
           Inl x \<Rightarrow> turn_throw env x st
         | Inr assembly \<Rightarrow> (case render_context_sections assembly of
             Inl x \<Rightarrow> turn_throw env (AgPrompt x) st
           | Inr sections \<Rightarrow> goto (PreStepWait ends assembly (pre_step_messages env st claimed sections)) st))
     | _ \<Rightarrow> None)"
| "agent_step env (PreStepDecided r) st = (case ag_pc st of
       PreStepWait ends assembly proposed \<Rightarrow> Some (case checked st r of
           Inl x \<Rightarrow> turn_throw env x st
         | Inr StepReject \<Rightarrow> turn_return env EndBlocked st
         | Inr StepDefault \<Rightarrow> decide_step env ends assembly proposed st
         | Inr (StepEnter msgs) \<Rightarrow> decide_step env ends assembly msgs st)
     | _ \<Rightarrow> None)"
| "agent_step env (RequestProposed r) st = (case ag_pc st of
       RequestWait fr boundary seed \<Rightarrow> Some (case checked st r of
           Inl x \<Rightarrow> step_throw env x st
         | Inr proposal \<Rightarrow> config_proposed env fr boundary (case proposal of None \<Rightarrow> seed | Some c \<Rightarrow> c) st)
     | _ \<Rightarrow> None)"
| "agent_step env (CallPrepared r) st = (case ag_pc st of
       PrepareWait fr boundary cfg \<Rightarrow> Some (call_prepared env fr boundary cfg r st)
     | _ \<Rightarrow> None)"
| "agent_step env (StreamChunk c) st = (case ag_pc st of
       StreamWait fr rq a seqs \<Rightarrow> Some (case ag_abort st of
           Some cause \<Rightarrow> step_throw env (AgAborted cause) st
         | None \<Rightarrow> stream_chunk_arrived env fr rq a seqs c st)
     | _ \<Rightarrow> None)"
| "agent_step env (StreamEnded r) st = (case ag_pc st of
       StreamWait fr rq a seqs \<Rightarrow> Some (case checked st r of
           Inl x \<Rightarrow> step_throw env x st
         | Inr _ \<Rightarrow> stream_ended env fr rq a seqs st)
     | _ \<Rightarrow> None)"
| "agent_step env (Recovered r) st = (case ag_pc st of
       RecoverWait fr f \<Rightarrow> Some (case checked st r of
           Inl x \<Rightarrow> step_throw env x st
         | Inr retry \<Rightarrow> if retry then request_begin env fr st else step_throw env (llm_error f) st)
     | _ \<Rightarrow> None)"
| "agent_step env (ToolAnswered a) st = (case ag_pc st of
       ToolsWait fr run \<Rightarrow>
         map_option (\<lambda>run'. tools_continue env fr run' st)
           (resume (tool_env env st) a (run\<lparr> tu_inbox := ag_inbox st \<rparr>))
     | _ \<Rightarrow> None)"
| "agent_step env (ToolSettled i outcome) st = (case ag_pc st of
       ToolsWait fr run \<Rightarrow> map_option (\<lambda>run'. goto (ToolsWait fr run') st) (settle i outcome run)
     | _ \<Rightarrow> None)"
| "agent_step env (StoppingDone r) st = (case ag_pc st of
       StoppingWait ends \<Rightarrow> Some (case checked st r of
           Inl x \<Rightarrow> turn_throw env x st
         | Inr _ \<Rightarrow> if length (ib_next_step (ai_lists (ag_inbox st))) = 0 then turn_break env ends st
                    else loop_top env NextStep (Some ends) st)
     | _ \<Rightarrow> None)"
| "agent_step env TurnReturned st = (case ag_pc st of
       AwaitTurn True \<Rightarrow> Some (begin_turn env st)
     | AwaitTurn False \<Rightarrow> Some (end_activity env st)
     | _ \<Rightarrow> None)"

section \<open>Commands\<close>

text \<open>
  \<open>appending\<close> is true for a call from inside a publication of the session; the inbox refuses such a
  call before anything changes.
\<close>

definition send ::
  "agent_env \<Rightarrow> bool \<Rightarrow> message \<Rightarrow> inbox_target \<Rightarrow> bool \<Rightarrow> agent \<Rightarrow> agent \<times> (agent_error + unit)" where
  "send env appending m target wakeup st =
     (let after_abort = (wakeup \<and> (case ag_phase st of Idle _ \<Rightarrow> False | p \<Rightarrow> phase_abort p \<noteq> None));
          resolved = (if after_abort then NextTurn else target)
      in case splice appending (se_veto (ae_sched env)) (se_now (ae_sched env)) (ag_inbox st) resolved
                PosInf (Fin 0) [m] of
           (ib, Inl x) \<Rightarrow> (st\<lparr> ag_inbox := ib \<rparr>, Inl (AgInbox x))
         | (ib, Inr _) \<Rightarrow>
             ((if wakeup then wake_driver env after_abort (st\<lparr> ag_inbox := ib \<rparr>) else st\<lparr> ag_inbox := ib \<rparr>), Inr ()))"

definition followup :: "agent_env \<Rightarrow> bool \<Rightarrow> message \<Rightarrow> agent \<Rightarrow> agent \<times> (agent_error + unit)" where
  "followup env appending m st = send env appending m NextTurn True st"

definition steer :: "agent_env \<Rightarrow> bool \<Rightarrow> message \<Rightarrow> agent \<Rightarrow> agent \<times> (agent_error + unit)" where
  "steer env appending m st = send env appending m NextStep True st"

definition inject :: "agent_env \<Rightarrow> bool \<Rightarrow> message \<Rightarrow> agent \<Rightarrow> agent \<times> (agent_error + unit)" where
  "inject env appending m st = send env appending m NextStep False st"

definition cancel ::
  "agent_env \<Rightarrow> bool \<Rightarrow> cancel_cause \<Rightarrow> bool \<Rightarrow> agent \<Rightarrow> agent \<times> (agent_error + unit)" where
  "cancel env appending cause keep_inbox st =
     (let r = (if keep_inbox then (st, Inr ())
               else (case clear_inbox appending (se_veto (ae_sched env)) (se_now (ae_sched env)) (ag_inbox st) of
                   (ib, Inl x) \<Rightarrow> (st\<lparr> ag_inbox := ib \<rparr>, Inl (AgInbox x))
                 | (ib, Inr _) \<Rightarrow> (st\<lparr> ag_inbox := ib, ag_phase := set_wake False (ag_phase st) \<rparr>, Inr ())))
      in case r of
           (st', Inl x) \<Rightarrow> (st', Inl x)
         | (st', Inr _) \<Rightarrow> (st'\<lparr> ag_phase := set_abort cause (ag_phase st') \<rparr>, Inr ()))"

definition run_maintenance :: "agent \<Rightarrow> agent \<times> (agent_error + unit)" where
  "run_maintenance st = (case ag_phase st of
       Idle n \<Rightarrow> (set_phase (Maintenance None n False) st, Inr ())
     | _ \<Rightarrow> (st, Inl AgBusy))"

definition finish_maintenance :: "agent_env \<Rightarrow> agent \<Rightarrow> agent option" where
  "finish_maintenance env st = (case ag_phase st of
       Maintenance _ _ _ \<Rightarrow> Some (end_activity env st)
     | _ \<Rightarrow> None)"

definition last_turn :: "session_event list \<Rightarrow> int" where
  "last_turn evs = (case List.map_filter (\<lambda>e. case ev_data e of TurnStart n \<Rightarrow> Some n | _ \<Rightarrow> None) (rev evs) of
       [] \<Rightarrow> 0 | n # _ \<Rightarrow> n)"

definition new_agent :: "agent_options \<Rightarrow> session \<Rightarrow> agent_error + agent" where
  "new_agent opts s =
     (case new_inbox s of
        Inl x \<Rightarrow> Inl (AgInbox x)
      | Inr ib \<Rightarrow>
          (case surface_nodes (ses_manager s) (ses_log s) of
             (m, Inl x) \<Rightarrow> Inl (AgSurface x)
           | (m, Inr nodes) \<Rightarrow> Inr
               \<lparr> ag_options = opts, ag_inbox = ib\<lparr> ai_session := s\<lparr> ses_manager := m \<rparr> \<rparr>,
                 ag_phase = Idle (last_turn (ses_log s)), ag_header_logged = False,
                 ag_restored = restore_projection nodes (ses_log s), ag_followed = length (ses_log s),
                 ag_pc = NoDriver, ag_notes = [] \<rparr>))"

text \<open>The configuration boundary of the scheduler cap and of the output-token cap.\<close>

definition resolve_max_parallel :: "js_number option \<Rightarrow> string + nat" where
  "resolve_max_parallel v = (case v of
       None \<Rightarrow> Inr 10
     | Some (Fin r) \<Rightarrow> if of_int \<lfloor>r\<rfloor> \<noteq> r \<or> r < 1
         then Inl ''maxParallelToolCalls must be a positive integer'' else Inr (nat \<lfloor>r\<rfloor>)
     | Some _ \<Rightarrow> Inl ''maxParallelToolCalls must be a positive integer'')"

definition assert_agent_options :: "js_number option \<Rightarrow> string + unit" where
  "assert_agent_options max_tokens = (case max_tokens of
       None \<Rightarrow> Inr ()
     | Some (Fin r) \<Rightarrow> if \<not> safe_num r \<or> r \<le> 0
         then Inl ''agent maxTokens must be a positive safe integer'' else Inr ()
     | Some _ \<Rightarrow> Inl ''agent maxTokens must be a positive safe integer'')"

end
