(* ===== verification/Agent_Frame.thy ===== *)
theory Agent_Frame
  imports Agent_Loop Tool_Order
begin

text \<open>
  What the driver writes: the turn and step frames of its log. \<open>frame_after\<close> reads the open turn and
  step off a log and rejects a boundary or an in-step record that does not fit; \<open>agent_ok\<close> relates
  the await the driver is suspended at to that frame, and the request it streams to the log.
  \<open>agent_run\<close> is the relation of the agents that construction, the resumptions, the commands and the
  appends of other components can reach.
\<close>

section \<open>Frames\<close>

datatype frame =
    Between int
  | InTurn int int
  | InStep int int

definition step_only :: "int \<Rightarrow> int \<Rightarrow> frame \<Rightarrow> frame option" where
  "step_only t s fr = (if fr = InStep t s then Some fr else None)"

definition frame_data :: "event_data \<Rightarrow> json option \<Rightarrow> frame \<Rightarrow> frame option" where
  "frame_data d op fr = (case d of
       TurnStart t \<Rightarrow> (case fr of Between n \<Rightarrow> if t = n + 1 then Some (InTurn t 0) else None | _ \<Rightarrow> None)
     | TurnEnd t _ \<Rightarrow> (case fr of InTurn n k \<Rightarrow> if t = n then Some (Between n) else None | _ \<Rightarrow> None)
     | StepStart t s \<Rightarrow> (case fr of InTurn n k \<Rightarrow> if t = n \<and> s = k + 1 then Some (InStep n s) else None | _ \<Rightarrow> None)
     | StepEnd t s \<Rightarrow> if fr = InStep t s then Some (InTurn t s) else None
     | AssistantChunk t s _ \<Rightarrow> step_only t s fr
     | AssistantMessage t s _ _ \<Rightarrow> step_only t s fr
     | ToolCall t s _ _ _ \<Rightarrow> step_only t s fr
     | ToolResult r \<Rightarrow> if op = Some op_append then step_only (tr_turn r) (tr_step r) fr else Some fr
     | RequestHeader _ _ \<Rightarrow> (case fr of InStep _ _ \<Rightarrow> Some fr | _ \<Rightarrow> None)
     | RequestContext _ \<Rightarrow> (case fr of InStep _ _ \<Rightarrow> Some fr | _ \<Rightarrow> None)
     | _ \<Rightarrow> Some fr)"

definition frame_next :: "frame \<Rightarrow> session_event \<Rightarrow> frame option" where
  "frame_next fr e = frame_data (ev_data e) (ev_surface_op e) fr"

fun frame_after :: "frame \<Rightarrow> session_event list \<Rightarrow> frame option" where
  "frame_after fr [] = Some fr"
| "frame_after fr (e # es) = Option.bind (frame_next fr e) (\<lambda>fr'. frame_after fr' es)"

text \<open>The records only the driver writes: the others leave every frame and every header alone.\<close>

definition neutral :: "event_data \<Rightarrow> json option \<Rightarrow> bool" where
  "neutral d op = (case d of
       TurnStart _ \<Rightarrow> False | TurnEnd _ _ \<Rightarrow> False | StepStart _ _ \<Rightarrow> False | StepEnd _ _ \<Rightarrow> False
     | AssistantChunk _ _ _ \<Rightarrow> False | AssistantMessage _ _ _ _ \<Rightarrow> False | ToolCall _ _ _ _ _ \<Rightarrow> False
     | ToolResult _ \<Rightarrow> op \<noteq> Some op_append | RequestHeader _ _ \<Rightarrow> False | RequestContext _ \<Rightarrow> False
     | _ \<Rightarrow> True)"

definition closers_pass :: "agent_env \<Rightarrow> bool" where
  "closers_pass env \<longleftrightarrow> (\<forall>e. (\<exists>t r. ev_data e = TurnEnd t r) \<or> (\<exists>t s. ev_data e = StepEnd t s)
     \<longrightarrow> se_veto (ae_sched env) e = None)"

lemma frame_after_append:
  "frame_after fr (es @ ds) = Option.bind (frame_after fr es) (\<lambda>fr'. frame_after fr' ds)"
  by (induction es arbitrary: fr) (auto simp: bind_assoc)

lemma neutral_keeps: "neutral d op \<Longrightarrow> frame_data d op fr = Some fr"
  by (cases d) (simp_all add: neutral_def frame_data_def)

lemma neutral_no_header: "neutral d op \<Longrightarrow> d \<noteq> RequestHeader h q"
  by (auto simp: neutral_def)

section \<open>Growth of the session\<close>

text \<open>The session stays well formed and its log grows by records that keep the frame \<open>fr\<close>.\<close>

definition keeping :: "frame \<Rightarrow> session_event \<Rightarrow> bool" where
  "keeping fr e \<longleftrightarrow> frame_next fr e = Some fr \<and> (\<forall>h r. ev_data e \<noteq> RequestHeader h r)"

definition keeps :: "frame \<Rightarrow> session \<Rightarrow> session \<Rightarrow> bool" where
  "keeps fr s s' \<longleftrightarrow> (session_ok s \<longrightarrow> session_ok s') \<and> ses_header s' = ses_header s
     \<and> (\<exists>xs. ses_log s' = ses_log s @ xs \<and> list_all (keeping fr) xs)"

lemma keeps_refl [simp]: "keeps fr s s"
  by (simp add: keeps_def)

lemma keeps_trans: "keeps fr s s' \<Longrightarrow> keeps fr s' s'' \<Longrightarrow> keeps fr s s''"
  by (auto simp: keeps_def)

lemma append_event_grows:
  assumes "append_event b veto now s d op srcs ign = (s', r)"
  shows "(session_ok s \<longrightarrow> session_ok s') \<and> ses_header s' = ses_header s
    \<and> (case r of Inl _ \<Rightarrow> ses_log s' = ses_log s
       | Inr e \<Rightarrow> ses_log s' = ses_log s @ [e] \<and> e = make_event (length (ses_log s)) now d op srcs ign)"
  using assms append_event_ok [OF _ assms]
  by (cases rule: append_event_cases) (auto)

lemma append_event_keeps:
  assumes "append_event b veto now s d op srcs ign = (s', r)" and "frame_data d op fr = Some fr"
    and "\<And>h q. d \<noteq> RequestHeader h q"
  shows "keeps fr s s'"
proof (cases r)
  case (Inl x)
  with append_event_grows [OF assms(1)] show ?thesis by (simp add: keeps_def)
next
  case (Inr e)
  with append_event_grows [OF assms(1)] assms(2,3) show ?thesis
    by (auto simp: keeps_def keeping_def frame_next_def make_event_def)
qed

lemma mutate_keeps:
  "mutate b veto now a t start cnt ms disc = (a', r) \<Longrightarrow> keeps fr (ai_session a) (ai_session a')"
proof (erule mutate_cases, goal_cases)
  case (3 s' x)
  from append_event_keeps [OF 3(3)] 3(1) show ?case by (simp add: frame_data_def)
next
  case (4 s' e spl)
  from append_event_keeps [OF 4(4)] 4(6) show ?case by (simp add: frame_data_def)
qed simp_all

lemma splice_keeps:
  "splice b veto now a t start cnt ms = (a', r) \<Longrightarrow> keeps fr (ai_session a) (ai_session a')"
  unfolding splice_def by (rule mutate_keeps)

lemma inbox_append_keeps:
  "inbox_append b veto now a t m = (a', r) \<Longrightarrow> keeps fr (ai_session a) (ai_session a')"
  unfolding inbox_append_def by (rule splice_keeps)

lemma clear_inbox_keeps:
  "clear_inbox b veto now a = (a', r) \<Longrightarrow> keeps fr (ai_session a) (ai_session a')"
  by (auto simp: clear_inbox_def split: prod.splits sum.splits dest!: splice_keeps [where fr = fr]
      intro: keeps_trans)

lemma claim_keeps:
  assumes "claim b veto now a target turn = (a', r)"
  shows "keeps fr (ai_session a) (ai_session a')"
proof -
  obtain a1 r1 where m1: "mutate b veto now a NextStep (Fin 0) (num_len (ib_next_step (ai_lists a))) [] False
      = (a1, r1)" by fastforce
  obtain a2 r2 where m2: "(if target = NextTurn then mutate b veto now a1 NextTurn (Fin 0) (Fin 1) [] False
      else (a1, Inr [])) = (a2, r2)" by fastforce
  have k1: "keeps fr (ai_session a) (ai_session a1)" by (rule mutate_keeps [OF m1])
  have "keeps fr (ai_session a1) (ai_session a2)"
    using m2 mutate_keeps by (cases "target = NextTurn") auto
  with k1 m1 m2 assms show ?thesis
    by (cases r1; cases r2) (auto simp: claim_def Let_def intro: keeps_trans)
qed

section \<open>The tool scheduler stays inside the step\<close>

abbreviation run_session :: "tool_run \<Rightarrow> session" where
  "run_session st \<equiv> ai_session (tu_inbox st)"

lemma append_tool_call_keeps:
  "append_tool_call env t s c w = (w', r) \<Longrightarrow> keeps (InStep t s) (ai_session w) (ai_session w')"
  by (auto simp: append_tool_call_def frame_data_def step_only_def split: prod.splits sum.splits
      dest!: append_event_keeps [where fr = "InStep t s"])

lemma append_tool_result_keeps:
  "append_tool_result env t s c r n w = (w', q) \<Longrightarrow> keeps (InStep t s) (ai_session w) (ai_session w')"
  by (auto simp: append_tool_result_def frame_data_def step_only_def result_data_def split: prod.splits sum.splits
      dest!: append_event_keeps [where fr = "InStep t s"])

lemma append_skipped_keeps:
  "append_skipped env t s c w = (w', q) \<Longrightarrow> keeps (InStep t s) (ai_session w) (ai_session w')"
  by (auto simp: append_skipped_def split: prod.splits sum.splits
      dest!: append_tool_call_keeps append_tool_result_keeps intro: keeps_trans)

lemma append_all_skipped_keeps:
  "append_all_skipped env t s cs w = (w', q) \<Longrightarrow> keeps (InStep t s) (ai_session w) (ai_session w')"
proof (induction cs arbitrary: w)
  case (Cons c cs)
  obtain w1 r where a: "append_skipped env t s c w = (w1, r)" by fastforce
  from append_skipped_keeps [OF a] Cons a show ?case
    by (cases r) (auto intro: keeps_trans)
qed simp

lemma accept_contexts_keeps:
  "accept_contexts env ms w = (w', q) \<Longrightarrow> keeps fr (ai_session w) (ai_session w')"
proof (induction ms arbitrary: w)
  case (Cons m ms)
  obtain w1 r where a: "inbox_append False (se_veto env) (se_now env) w NextStep m = (w1, r)" by fastforce
  from inbox_append_keeps [OF a] Cons a show ?case
    by (cases r) (auto intro: keeps_trans)
qed simp

definition stays :: "tool_run \<Rightarrow> tool_run \<Rightarrow> bool" where
  "stays st st' \<longleftrightarrow> keeps (InStep (tu_turn st) (tu_step st)) (run_session st) (run_session st')
     \<and> tu_turn st' = tu_turn st \<and> tu_step st' = tu_step st"

lemma stays_refl [simp]: "stays st st"
  by (simp add: stays_def)

lemma stays_trans: "stays st st' \<Longrightarrow> stays st' st'' \<Longrightarrow> stays st st''"
  unfolding stays_def by (auto intro: keeps_trans)

text \<open>Only the inbox and the position of a run matter here.\<close>

lemma stays_same:
  "tu_inbox st' = tu_inbox st \<Longrightarrow> tu_turn st' = tu_turn st \<Longrightarrow> tu_step st' = tu_step st \<Longrightarrow> stays st st'"
  by (simp add: stays_def)

lemma stays_set_group [simp]: "stays st (set_group f st)"
  by (rule stays_same) (simp_all add: set_group_def)

lemma stays_catch_failure [simp]: "stays st (catch_failure x st)"
  by (rule stays_same) (simp_all add: catch_failure_def set_group_def)

lemma stays_pc [simp]: "stays st (st\<lparr> tu_pc := p \<rparr>)"
  by (rule stays_same) simp_all

lemma start_call_stays: "stays st (start_call env st)"
  by (auto simp: start_call_def Let_def stays_def catch_failure_def set_group_def split: prod.splits sum.splits
      dest!: append_tool_call_keeps)

lemma finish_aborted_stays: "stays st (finish_aborted env st)"
  by (auto simp: finish_aborted_def Let_def stays_def split: prod.splits sum.splits
      dest!: append_all_skipped_keeps intro: keeps_trans)

lemma open_group_stays: "stays st (open_group env st)"
proof -
  have g: "stays st (st\<lparr> tu_group := g \<rparr>)" for g by (rule stays_same) simp_all
  show ?thesis
    using stays_trans [OF g start_call_stays] stays_trans [OF g finish_aborted_stays] stays_trans [OF g stays_pc]
    by (auto simp: open_group_def Let_def split: sum.split)
qed

lemma finish_group_stays: "stays st (finish_group env st)"
proof -
  have g: "stays st (st\<lparr> tu_next := a, tu_concluded := b \<rparr>)" for a b by (rule stays_same) simp_all
  show ?thesis
    using finish_aborted_stays stays_trans [OF g open_group_stays]
    by (auto simp: finish_group_def Let_def)
qed

lemma fill_pool_stays: "stays st (fill_pool env st)"
  using finish_group_stays start_call_stays
  by (auto simp: fill_pool_def race_or_end_def Let_def split: sum.split)

lemma commit_one_stays: "commit_one env r st = (st', q) \<Longrightarrow> stays st st'"
  by (auto simp: commit_one_def Let_def stays_def split: prod.splits sum.splits
      dest!: append_tool_result_keeps accept_contexts_keeps [where fr = "InStep (tu_turn st) (tu_step st)"]
      intro: keeps_trans)

lemma commit_loop_stays: "stays st (commit_loop env slots st)"
proof (induction env slots st rule: commit_loop.induct)
  case (1 env r post slots st)
  have caught: "stays st (catch_failure x st')" if "commit_one env r' st = (st', q)" for x r' st' q
    by (rule stays_trans [OF commit_one_stays [OF that] stays_catch_failure])
  show ?case
  proof (cases "post \<or> (\<exists>x. se_finish env (g_calls (tu_group st) ! g_committed (tu_group st)) r = Inl x)")
    case True
    then show ?thesis by auto
  next
    case False
    then obtain r' where f: "\<not> post" "se_finish env (g_calls (tu_group st) ! g_committed (tu_group st)) r = Inr r'"
      by (metis sum.exhaust)
    obtain st' q where c: "commit_one env r' st = (st', q)" by fastforce
    show ?thesis
    proof (cases q)
      case (Inl x)
      with f c caught [OF c] show ?thesis by simp
    next
      case (Inr u)
      with 1 [OF f c [symmetric]] have "stays st' (commit_loop env slots st')" by simp
      with commit_one_stays [OF c] Inr f c show ?thesis by (auto intro: stays_trans)
    qed
  qed
qed simp_all

lemma commit_ready_stays: "stays st (commit_ready env st)"
  by (simp add: commit_ready_def commit_loop_stays)

lemma unless_failed_stays: "(\<And>st. stays st (k st)) \<Longrightarrow> stays st (unless_failed k st)"
  by (simp add: unless_failed_def split: option.split)

lemma resume_stays:
  assumes "resume env a st = Some st'"
  shows "stays st st'"
proof -
  have ready: "stays st (commit_ready env (set_group f st))" for f st
    by (rule stays_trans [OF stays_set_group commit_ready_stays])
  have pool: "stays st (fill_pool env (set_group f st))" for f st
    by (rule stays_trans [OF stays_set_group fill_pool_stays])
  have failed: "stays st (unless_failed (commit_ready env) (set_group f st))" for f
    by (rule stays_trans [OF stays_set_group unless_failed_stays [OF commit_ready_stays]])
  have one: "stays st (commit_ready env s1)" "stays st (catch_failure x s1)"
    if "commit_one env r st = (s1, q)" for r s1 q x
    using commit_one_stays [OF that] commit_ready_stays stays_catch_failure stays_trans by blast+
  show ?thesis
    using assms ready pool failed one
    by (cases a) (auto split: if_splits sum.splits prod.splits option.splits intro!: unless_failed_stays)
qed

lemma settle_stays: "settle i out st = Some st' \<Longrightarrow> stays st st'"
  by (auto simp: settle_def Let_def split: if_splits)

lemma start_run_stays:
  "start_run env t s cs w = run \<Longrightarrow>
     keeps (InStep t s) (ai_session w) (run_session run) \<and> tu_turn run = t \<and> tu_step run = s"
  using open_group_stays [of "\<lparr> tu_planned = cs, tu_turn = t, tu_step = s, tu_next = 0, tu_concluded = False,
       tu_group = new_group env [] False, tu_pc = RunDone False, tu_inbox = w \<rparr>" env]
  by (auto simp: start_run_def stays_def)

section \<open>What the driver keeps\<close>

definition at_frame :: "frame \<Rightarrow> agent \<Rightarrow> bool" where
  "at_frame fr st \<longleftrightarrow> session_ok (ag_session st) \<and> frame_after (Between 0) (ag_log st) = Some fr"

definition open_turn :: "agent \<Rightarrow> bool" where
  "open_turn st \<longleftrightarrow> is_running (ag_phase st)
     \<and> at_frame (InTurn (phase_turn (ag_phase st)) (phase_step (ag_phase st))) st"

definition open_step :: "agent \<Rightarrow> bool" where
  "open_step st \<longleftrightarrow> is_running (ag_phase st)
     \<and> at_frame (InStep (phase_turn (ag_phase st)) (phase_step (ag_phase st))) st"

definition between_turns :: "agent \<Rightarrow> bool" where
  "between_turns st \<longleftrightarrow> is_running (ag_phase st) \<and> at_frame (Between (phase_turn (ag_phase st))) st"

text \<open>The history a replay of a log derives.\<close>

definition replayed :: "session_event list \<Rightarrow> message list" where
  "replayed l = (case fold_surface l of Inl _ \<Rightarrow> [] | Inr (nodes, _) \<Rightarrow> messages_of l nodes)"

definition boundary_ok :: "session_event list \<Rightarrow> message list \<Rightarrow> bool" where
  "boundary_ok l ms \<longleftrightarrow> (\<exists>n \<le> length l. ms = replayed (take n l))"

definition header_matches :: "session_event list \<Rightarrow> llm_request \<Rightarrow> bool" where
  "header_matches l rq \<longleftrightarrow> (\<exists>h. fold_request_header l None = Some h
     \<and> rq_config rq = eh_config h \<and> rq_system rq = eh_system h \<and> rq_tools rq = eh_tools h)"

definition pc_ok :: "loop_pc \<Rightarrow> agent \<Rightarrow> bool" where
  "pc_ok pc st \<longleftrightarrow> (case pc of
       NoDriver \<Rightarrow> \<not> is_running (ag_phase st) \<and> at_frame (Between (phase_turn (ag_phase st))) st
     | AssembleWait _ _ \<Rightarrow> open_turn st
     | PreStepWait _ _ _ \<Rightarrow> open_turn st
     | StoppingWait _ \<Rightarrow> open_turn st
     | AwaitTurn again \<Rightarrow> between_turns st \<and> (again \<longrightarrow> phase_step (ag_phase st) = 0)
     | RequestWait _ ms _ \<Rightarrow> open_step st \<and> boundary_ok (ag_log st) ms
     | PrepareWait _ ms _ \<Rightarrow> open_step st \<and> boundary_ok (ag_log st) ms
     | StreamWait _ rq _ _ \<Rightarrow> open_step st \<and> boundary_ok (ag_log st) (rq_messages rq) \<and> header_matches (ag_log st) rq
     | RecoverWait _ _ \<Rightarrow> open_step st
     | ToolsWait _ run \<Rightarrow> open_step st \<and> tu_turn run = phase_turn (ag_phase st) \<and> tu_step run = phase_step (ag_phase st))"

definition agent_ok :: "agent \<Rightarrow> bool" where
  "agent_ok st \<longleftrightarrow> pc_ok (ag_pc st) st"

named_theorems agent_simps "record selections through the driver's helpers"

lemma goto_simps [simp, agent_simps]:
  "ag_inbox (goto pc st) = ag_inbox st" "ag_phase (goto pc st) = ag_phase st" "ag_pc (goto pc st) = pc"
  "ag_inbox (note_error x st) = ag_inbox st" "ag_phase (note_error x st) = ag_phase st"
  "ag_inbox (set_phase p st) = ag_inbox st" "ag_phase (set_phase p st) = p" "ag_pc (set_phase p st) = ag_pc st"
  "ag_phase (with_session s st) = ag_phase st" "ag_session (with_session s st) = s"
  by (simp_all add: goto_def note_error_def set_phase_def with_session_def)

lemma at_frame_cong: "ag_inbox st' = ag_inbox st \<Longrightarrow> at_frame fr st' = at_frame fr st"
  by (simp add: at_frame_def)

lemma frame_cong:
  "ag_inbox st' = ag_inbox st \<Longrightarrow> ag_phase st' = ag_phase st \<Longrightarrow> open_turn st' = open_turn st"
  "ag_inbox st' = ag_inbox st \<Longrightarrow> ag_phase st' = ag_phase st \<Longrightarrow> open_step st' = open_step st"
  "ag_inbox st' = ag_inbox st \<Longrightarrow> ag_phase st' = ag_phase st \<Longrightarrow> between_turns st' = between_turns st"
  by (simp_all add: open_turn_def open_step_def between_turns_def at_frame_def)

lemma pc_ok_cong:
  "ag_inbox st' = ag_inbox st \<Longrightarrow> ag_phase st' = ag_phase st \<Longrightarrow> pc_ok pc st' = pc_ok pc st"
  using frame_cong [of st' st] at_frame_cong [of st' st] by (simp add: pc_ok_def split: loop_pc.split)

lemma open_goto [simp]:
  "open_turn (goto pc st) = open_turn st" "open_step (goto pc st) = open_step st"
  "between_turns (goto pc st) = between_turns st"
  using frame_cong [of "goto pc st" st] by simp_all

lemma agent_ok_goto [simp]: "agent_ok (goto pc st) = pc_ok pc st"
  using pc_ok_cong [of "goto pc st" st pc] by (simp add: agent_ok_def)

lemma pc_ok_note [simp]: "pc_ok pc (note_error x st) = pc_ok pc st"
  by (rule pc_ok_cong) simp_all

lemma open_note [simp]:
  "open_turn (note_error x st) = open_turn st" "open_step (note_error x st) = open_step st"
  "between_turns (note_error x st) = between_turns st"
  using frame_cong [of "note_error x st" st] by simp_all

lemma frame_after_keeping: "list_all (keeping fr) xs \<Longrightarrow> frame_after fr xs = Some fr"
  by (induction xs) (simp_all add: keeping_def)

lemma fold_request_header_keeping: "list_all (keeping fr) xs \<Longrightarrow> fold_request_header xs h = h"
  by (induction xs arbitrary: h)
    (auto simp: keeping_def fold_request_header_def header_step_def split: event_data.splits)

lemma boundary_ok_longer: "boundary_ok l ms \<Longrightarrow> boundary_ok (l @ xs) ms"
  unfolding boundary_ok_def by (metis (no_types) append_eq_conv_conj le_add1 length_append min_def order_trans take_append take_take)

text \<open>The session moved on, the frame and the header did not.\<close>

lemma keeps_session:
  assumes "keeps fr (ag_session st) (ag_session st')" and "at_frame fr st"
  shows "at_frame fr st' \<and> (boundary_ok (ag_log st) ms \<longrightarrow> boundary_ok (ag_log st') ms)
    \<and> (header_matches (ag_log st) rq \<longrightarrow> header_matches (ag_log st') rq)"
proof -
  from assms(1) obtain xs where xs: "ag_log st' = ag_log st @ xs" "list_all (keeping fr) xs"
    and ok: "session_ok (ag_session st) \<longrightarrow> session_ok (ag_session st')"
    by (auto simp: keeps_def)
  have "fold_request_header (ag_log st') None = fold_request_header (ag_log st) None"
    using xs by (simp add: fold_request_header_append fold_request_header_keeping)
  then show ?thesis
    using ok xs assms(2) boundary_ok_longer [of "ag_log st"]
    by (auto simp: at_frame_def frame_after_append frame_after_keeping header_matches_def)
qed

lemma append_plain_accepted:
  assumes ok: "session_ok s" and d: "\<not> is_surface_eligible_type (data_type d)"
  shows "log_accepted (ses_log s @ [make_event (length (ses_log s)) now d None None False])"
proof -
  have m: "manager_ok (ses_manager s) (ses_log s)" "sm_base (ses_manager s) = 0" "log_accepted (ses_log s)"
    using ok by (simp_all add: session_ok_def)
  from m obtain m' reps where sy: "sync_manager (ses_manager s) (ses_log s) = (m', None)" and b: "sm_base m' = 0"
    by (rule sync_manager_accepted)
  have "snd (validate_next (ses_manager s) (ses_log s) (make_event (length (ses_log s)) now d None None False)) = None"
    using sy b d
    by (simp add: validate_next_def plan_surface_event_def surface_op_of_def make_event_def Let_def)
  then show ?thesis using validate_next_accepts [OF m(1,2)] by (metis prod.collapse)
qed

text \<open>One append of the driver, and the appends that cannot be refused.\<close>

lemma ag_append_at:
  assumes "ag_append env d op srcs st = (st', r)" and "at_frame fr st"
  shows "ag_phase st' = ag_phase st \<and> ag_pc st' = ag_pc st
    \<and> (case r of Inl _ \<Rightarrow> at_frame fr st' | Inr _ \<Rightarrow> \<forall>fr'. frame_data d op fr = Some fr' \<longrightarrow> at_frame fr' st')"
  using assms
  by (auto simp: ag_append_def at_frame_def frame_after_append frame_next_def make_event_def
      split: prod.splits sum.splits dest!: append_event_grows)

lemma ag_append_keeps:
  assumes "ag_append env d op srcs st = (st', r)" and "frame_data d op fr = Some fr"
    and "\<And>h q. d \<noteq> RequestHeader h q"
  shows "keeps fr (ag_session st) (ag_session st') \<and> ag_phase st' = ag_phase st \<and> ag_pc st' = ag_pc st"
  using assms append_event_keeps [OF _ assms(2)]
  by (auto simp: ag_append_def split: prod.splits)

lemma ag_append_closer:
  assumes "closers_pass env" and "at_frame fr st"
    and "(\<exists>t q. d = TurnEnd t q) \<or> (\<exists>t k. d = StepEnd t k)"
    and "ag_append env d None None st = (st', r)"
  shows "\<exists>n. r = Inr n"
proof -
  let ?s = "ag_session st"
  let ?e = "make_event (length (ses_log ?s)) (se_now (ae_sched env)) d None None False"
  have ok: "session_ok ?s" using assms(2) by (simp add: at_frame_def)
  have "se_veto (ae_sched env) ?e = None"
    using assms(1,3) by (auto simp: closers_pass_def make_event_def)
  moreover have "log_accepted (ses_log ?s @ [?e])"
    using assms(3) by (intro append_plain_accepted [OF ok])
      (auto simp: is_surface_eligible_type_def surface_event_types_def)
  moreover have "assert_supported_request_header d = Inr ()"
    using assms(3) by (auto simp: assert_supported_request_header_def)
  ultimately have "is_ok (snd (append_event False (se_veto (ae_sched env)) (se_now (ae_sched env)) ?s d None None False))"
    using append_event_result [OF ok] by simp
  with assms(4) show ?thesis by (auto simp: ag_append_def is_ok_iff split: prod.splits)
qed

section \<open>Every exit closes what it leaves\<close>

lemma close_turn_ok:
  assumes "closers_pass env" and "open_turn st" and "close_turn env reason st = (st', ok)"
  shows "ok \<and> between_turns st' \<and> ag_phase st' = ag_phase st"
proof -
  obtain s1 r where a: "ag_append env (TurnEnd (phase_turn (ag_phase st)) reason) None None st = (s1, r)" by fastforce
  from assms(2) have o: "is_running (ag_phase st)" "at_frame (InTurn (phase_turn (ag_phase st)) (phase_step (ag_phase st))) st"
    by (simp_all add: open_turn_def)
  from ag_append_closer [OF assms(1) o(2) _ a] obtain n where "r = Inr n" by blast
  with ag_append_at [OF a o(2)] a assms(3) o(1) show ?thesis
    by (auto simp: close_turn_def frame_data_def between_turns_def)
qed

lemma turn_return_ok: "closers_pass env \<Longrightarrow> open_turn st \<Longrightarrow> agent_ok (turn_return env reason st)"
  using close_turn_ok by (cases "close_turn env reason st") (auto simp: turn_return_def pc_ok_def)

lemma turn_throw_ok: "closers_pass env \<Longrightarrow> open_turn st \<Longrightarrow> agent_ok (turn_throw env x st)"
  by (simp add: turn_throw_def turn_return_ok split: option.split)

lemma turn_break_ok:
  assumes "closers_pass env" and "open_turn st"
  shows "agent_ok (turn_break env reason st)"
proof -
  obtain st' ok where c: "close_turn env reason st = (st', ok)" by fastforce
  from close_turn_ok [OF assms c] have b: "ok" "between_turns st'" by simp_all
  then have "between_turns (st'\<lparr> ag_phase := Running None (phase_turn (ag_phase st')) 0 False \<rparr>)"
    by (simp add: between_turns_def at_frame_def)
  with b c show ?thesis by (simp add: turn_break_def pc_ok_def)
qed

lemma loop_top_ok:
  assumes "closers_pass env" and "open_turn st"
  shows "agent_ok (loop_top env target ends st)"
proof (cases "ag_abort st")
  case None
  obtain ib r where c: "claim False (se_veto (ae_sched env)) (se_now (ae_sched env)) (ag_inbox st) target
      (phase_turn (ag_phase st)) = (ib, r)" by fastforce
  let ?st = "st\<lparr> ag_inbox := ib \<rparr>"
  have "open_turn ?st"
    using claim_keeps [OF c] keeps_session [of _ st ?st] assms(2) by (auto simp: open_turn_def)
  with None c assms(1) show ?thesis
    by (cases r) (simp_all add: loop_top_def turn_throw_ok pc_ok_def)
next
  case (Some c)
  with assms show ?thesis by (simp add: loop_top_def turn_throw_ok)
qed

lemma step_end_ok:
  assumes "closers_pass env" and "open_step st"
    and "ag_append env (StepEnd (phase_turn (ag_phase st)) (phase_step (ag_phase st))) None None st = (st', r)"
  shows "(\<exists>n. r = Inr n) \<and> open_turn st' \<and> ag_phase st' = ag_phase st"
proof -
  from assms(2) have o: "is_running (ag_phase st)" "at_frame (InStep (phase_turn (ag_phase st)) (phase_step (ag_phase st))) st"
    by (simp_all add: open_step_def)
  from ag_append_closer [OF assms(1) o(2) _ assms(3)] obtain n where "r = Inr n" by blast
  with ag_append_at [OF assms(3) o(2)] o(1) show ?thesis
    by (auto simp: frame_data_def open_turn_def)
qed

lemma step_throw_ok:
  assumes "closers_pass env" and "open_step st"
  shows "agent_ok (step_throw env x st)"
proof -
  obtain st' r where a: "ag_append env (StepEnd (phase_turn (ag_phase st)) (phase_step (ag_phase st))) None None st
      = (st', r)" by fastforce
  from step_end_ok [OF assms a] turn_throw_ok [OF assms(1)] a show ?thesis by (auto simp: step_throw_def)
qed

lemma step_return_ok:
  assumes "closers_pass env" and "open_step st"
  shows "agent_ok (step_return env fr step_end st)"
proof -
  obtain st' r where a: "ag_append env (StepEnd (phase_turn (ag_phase st)) (phase_step (ag_phase st))) None None st
      = (st', r)" by fastforce
  from step_end_ok [OF assms a] obtain n where s: "r = Inr n" "open_turn st'" by blast
  with a turn_throw_ok [OF assms(1) s(2)] loop_top_ok [OF assms(1) s(2)] show ?thesis
    by (auto simp: step_return_def Let_def pc_ok_def split: option.split)
qed

section \<open>One request\<close>

lemma request_header_log: "ses_log (fst (request_header s)) = ses_log s" "ses_header (fst (request_header s)) = ses_header s"
  by (simp_all add: request_header_def Let_def)

lemma request_context_log: "ses_log (fst (request_context s)) = ses_log s" "ses_header (fst (request_context s)) = ses_header s"
  by (simp_all add: request_context_def Let_def)

lemma request_header_value:
  "session_ok s \<Longrightarrow> snd (request_header s) = fold_request_header (ses_log s) None"
  by (auto simp: session_ok_def request_header_def header_view.catch_up Let_def)

text \<open>Reading a cache moves neither the log nor the frame.\<close>

lemma open_step_same_log:
  assumes "open_step st" and "session_ok s" and "ses_log s = ag_log st"
  shows "open_step (with_session s st)"
  using assms by (simp add: open_step_def at_frame_def)

lemma request_begin_ok:
  assumes "closers_pass env" and "open_step st"
  shows "agent_ok (request_begin env fr st)"
proof -
  have ok: "session_ok (ag_session st)" using assms(2) by (simp add: open_step_def at_frame_def)
  from ok obtain st1 reps where
      f: "run_fold (surface_step (ag_log st) 0) (surface_start 0) (ag_log st) = Inr (length (ag_log st), st1, reps)"
    and v: "snd (derive_messages (ag_session st)) = Inr (messages_of (ag_log st) (fs_nodes st1))"
    and s: "session_ok (fst (derive_messages (ag_session st)))"
      "ses_log (fst (derive_messages (ag_session st))) = ag_log st"
    by (rule derive_messages_step)
  let ?ms = "messages_of (ag_log st) (fs_nodes st1)"
  obtain s1 where d: "derive_messages (ag_session st) = (s1, Inr ?ms)"
    using v by (cases "derive_messages (ag_session st)") simp
  have s1: "session_ok s1" "ses_log s1 = ag_log st" using s d by simp_all
  obtain s2 h where h: "request_header s1 = (s2, h)" by fastforce
  have s2: "session_ok s2" "ses_log s2 = ag_log st"
    using request_header_ok [OF s1(1)] request_header_log(1) [of s1] s1(2) h by simp_all
  note st2 = open_step_same_log [OF assms(2) s2]
  have "boundary_ok (ag_log (with_session s2 st)) ?ms"
    using f s2(2) by (auto simp: boundary_ok_def replayed_def fold_surface_def intro!: exI [of _ "length (ag_log st)"])
  with st2 d h step_throw_ok [OF assms(1) st2] show ?thesis
    by (auto simp: request_begin_def Let_def pc_ok_def split: option.split)
qed

lemma write_header_ok:
  assumes "open_step st" and "write_header env (canonical_header h) st = (st', r)"
  shows "open_step st' \<and> ag_phase st' = ag_phase st \<and> (boundary_ok (ag_log st) ms \<longrightarrow> boundary_ok (ag_log st') ms)
    \<and> (r = Inr () \<longrightarrow> fold_request_header (ag_log st') None = Some (canonical_header h))"
proof -
  let ?h = "canonical_header h"
  obtain s1 b where q: "request_header (ag_session st) = (s1, b)" by fastforce
  have ok: "session_ok (ag_session st)" using assms(1) by (simp add: open_step_def at_frame_def)
  have b: "b = fold_request_header (ag_log st) None" using request_header_value [OF ok] q by simp
  have s1: "session_ok s1" "ses_log s1 = ag_log st"
    using request_header_ok [OF ok] request_header_log(1) [of "ag_session st"] q by simp_all
  let ?st1 = "with_session s1 st"
  have st1: "open_step ?st1" by (rule open_step_same_log [OF assms(1) s1])
  have written: "open_step st2 \<and> ag_phase st2 = ag_phase st \<and> (boundary_ok (ag_log st) ms \<longrightarrow> boundary_ok (ag_log st2) ms)
      \<and> (\<forall>n. r2 = Inr n \<longrightarrow> fold_request_header (ag_log st2) None = Some ?h)"
    if a: "ag_append env (RequestHeader ?h why) None None ?st1 = (st2, r2)" for why st2 r2
  proof -
    from st1 have o: "is_running (ag_phase st)" "at_frame (InStep (phase_turn (ag_phase st)) (phase_step (ag_phase st))) ?st1"
      by (simp_all add: open_step_def)
    from ag_append_at [OF a o(2)] have "open_step st2 \<and> ag_phase st2 = ag_phase st"
      using o(1) by (auto simp: frame_data_def open_step_def split: sum.splits)
    moreover from a s1(2) have "ag_log st2 = ag_log st \<and> (\<exists>x. r2 = Inl x)
        \<or> (\<exists>e. ag_log st2 = ag_log st @ [e] \<and> ev_data e = RequestHeader ?h why)"
      by (auto simp: ag_append_def make_event_def split: prod.splits sum.splits dest!: append_event_grows)
    ultimately show ?thesis
      using boundary_ok_longer [of "ag_log st"]
      by (auto simp: fold_request_header_append fold_request_header_def header_step_def)
  qed
  show ?thesis
  proof (cases "\<not> ag_header_logged ?st1 \<or> (case b of None \<Rightarrow> True | Some b \<Rightarrow> \<not> header_equals b ?h)")
    case True
    define why where "why = (if \<not> ag_header_logged ?st1 then if b = None then ''initial'' else ''resume'' else ''change'')"
    obtain st2 r2 where a: "ag_append env (RequestHeader ?h why) None None ?st1 = (st2, r2)" by fastforce
    have "ag_inbox st' = ag_inbox st2 \<and> ag_phase st' = ag_phase st2 \<and> (r = Inr () \<longrightarrow> (\<exists>n. r2 = Inr n))"
      using assms(2) q a True
      by (cases r2) (auto simp: write_header_def Let_def why_def split: if_splits)
    with written [OF a] frame_cong(2) [of st' st2] show ?thesis by auto
  next
    case False
    then obtain b' where b': "b = Some b'" "header_equals b' ?h" by (auto split: option.splits)
    then have "canonical_header b' = b'"
      using b fold_request_header_canonical [of "ag_log st" None b'] by simp
    then have "b' = ?h" using b'(2) header_equals_canonical [of b' h] by simp
    moreover from False q assms(2) b' have "st' = ?st1" "r = Inr ()" by (simp_all add: write_header_def)
    ultimately show ?thesis using st1 s1(2) b b'(1) by simp
  qed
qed

lemma write_context_ok:
  assumes "open_step st" and "write_context env c st = (st', r)"
  shows "open_step st' \<and> ag_phase st' = ag_phase st \<and> (boundary_ok (ag_log st) ms \<longrightarrow> boundary_ok (ag_log st') ms)
    \<and> (header_matches (ag_log st) rq \<longrightarrow> header_matches (ag_log st') rq)"
proof -
  let ?fr = "InStep (phase_turn (ag_phase st)) (phase_step (ag_phase st))"
  obtain s1 p where q: "request_context (ag_session st) = (s1, p)" by fastforce
  have ok: "session_ok (ag_session st)" using assms(1) by (simp add: open_step_def at_frame_def)
  have s1: "session_ok s1" "ses_log s1 = ag_log st"
    using request_context_ok [OF ok] request_context_log(1) [of "ag_session st"] q by simp_all
  let ?st1 = "with_session s1 st"
  have st1: "open_step ?st1" by (rule open_step_same_log [OF assms(1) s1])
  then have o: "at_frame ?fr ?st1" "is_running (ag_phase st)" by (simp_all add: open_step_def)
  obtain st2 r2 where a: "ag_append env (RequestContext c) None None ?st1 = (st2, r2)" by fastforce
  have k: "keeps ?fr s1 (ag_session st2) \<and> ag_phase st2 = ag_phase st"
    using ag_append_keeps [OF a, of ?fr] by (simp add: frame_data_def)
  have "st' = ?st1 \<or> st' = st2"
    using assms(2) q a by (auto simp: write_context_def Let_def split: if_splits sum.splits)
  then show ?thesis
  proof
    assume "st' = ?st1"
    with st1 s1(2) show ?thesis by simp
  next
    assume "st' = st2"
    with k keeps_session [of ?fr ?st1 st2 ms rq] o s1(2) show ?thesis by (simp add: open_step_def)
  qed
qed

lemma compose_request_ok:
  assumes "closers_pass env" and "open_step st" and "boundary_ok (ag_log st) boundary"
  shows "agent_ok (compose_request env fr boundary cfg prepared st)"
proof (cases "ag_abort st")
  case (Some c)
  with assms step_throw_ok show ?thesis by (simp add: compose_request_def)
next
  case None
  let ?h = "composed_header fr cfg prepared"
  obtain st1 r1 where h: "write_header env ?h st = (st1, r1)" by fastforce
  from write_header_ok [OF assms(2) h [unfolded composed_header_def], of boundary] assms(3)
  have st1: "open_step st1" "boundary_ok (ag_log st1) boundary"
    and f: "r1 = Inr () \<longrightarrow> fold_request_header (ag_log st1) None = Some ?h"
    by (simp_all add: composed_header_def)
  show ?thesis
  proof (cases r1)
    case (Inl x)
    with None h step_throw_ok [OF assms(1) st1(1)] show ?thesis by (simp add: compose_request_def)
  next
    case (Inr u)
    let ?c = "\<lparr> rc_provider = cfg_provider cfg, rc_model = cfg_model cfg,
                rc_context_window = Option.bind prepared pr_context_window \<rparr>"
    obtain st2 r2 where c: "write_context env ?c st1 = (st2, r2)" by fastforce
    let ?rq = "\<lparr> rq_config = eh_config ?h, rq_messages = boundary, rq_system = eh_system ?h,
                 rq_tools = eh_tools ?h, rq_session = hdr_id (ses_header (ag_session st2)) \<rparr>"
    from write_context_ok [OF st1(1) c, of boundary ?rq] st1(2) f Inr
    have "open_step st2" "boundary_ok (ag_log st2) boundary" "header_matches (ag_log st2) ?rq"
      by (simp_all add: header_matches_def)
    with None h c Inr step_throw_ok [OF assms(1)] show ?thesis
      by (auto simp: compose_request_def pc_ok_def Let_def split: sum.split option.split)
  qed
qed

section \<open>Entering a step\<close>

lemma step_begin_ok:
  assumes "closers_pass env" and "open_step st"
  shows "agent_ok (step_begin env ends assembly st)"
  using step_throw_ok [OF assms] request_begin_ok [OF assms]
  by (simp add: step_begin_def split: option.split sum.split)

text \<open>An append inside the step that keeps its frame.\<close>

lemma step_append:
  assumes "ag_append env d op srcs st = (st', r)" and "open_step st"
    and "frame_data d op (InStep (phase_turn (ag_phase st)) (phase_step (ag_phase st)))
      = Some (InStep (phase_turn (ag_phase st)) (phase_step (ag_phase st)))"
    and "\<And>h q. d \<noteq> RequestHeader h q"
  shows "open_step st' \<and> ag_phase st' = ag_phase st \<and> (boundary_ok (ag_log st) ms \<longrightarrow> boundary_ok (ag_log st') ms)
    \<and> (header_matches (ag_log st) rq \<longrightarrow> header_matches (ag_log st') rq)"
proof -
  from ag_append_keeps [OF assms(1,3,4)] assms(2)
  have k: "keeps (InStep (phase_turn (ag_phase st)) (phase_step (ag_phase st))) (ag_session st) (ag_session st')"
    "ag_phase st' = ag_phase st" by simp_all
  with keeps_session [OF k(1), of ms rq] assms(2) show ?thesis by (simp add: open_step_def)
qed

lemma append_messages_ok:
  "append_messages env ms st = (st', r) \<Longrightarrow> open_step st \<Longrightarrow> open_step st'"
proof (induction ms arbitrary: st)
  case (Cons m ms)
  obtain st1 q where a: "ag_append env (UserMessage m) (Some op_append) None st = (st1, q)" by fastforce
  have "open_step st1" using step_append [OF a Cons.prems(2)] by (simp add: frame_data_def)
  with Cons a show ?case by (cases q) auto
qed simp

lemma set_step_simps [simp]:
  "is_running p \<Longrightarrow> is_running (set_step k p)" "is_running p \<Longrightarrow> phase_turn (set_step k p) = phase_turn p"
  "is_running p \<Longrightarrow> phase_step (set_step k p) = k"
  "is_running p \<Longrightarrow> is_running (set_turn n p)" "is_running p \<Longrightarrow> phase_turn (set_turn n p) = n"
  "is_running p \<Longrightarrow> phase_step (set_turn n p) = phase_step p"
  "is_running (set_abort c p) = is_running p" "phase_turn (set_abort c p) = phase_turn p"
  "phase_step (set_abort c p) = phase_step p"
  "is_running (set_wake w p) = is_running p" "phase_turn (set_wake w p) = phase_turn p"
  "phase_step (set_wake w p) = phase_step p"
  by (cases p; simp)+

lemma enter_step_ok:
  assumes "closers_pass env" and "open_turn st"
  shows "agent_ok (enter_step env ends assembly msgs st)"
proof -
  let ?k = "phase_step (ag_phase st) + 1"
  from assms(2) have o: "is_running (ag_phase st)" "at_frame (InTurn (phase_turn (ag_phase st)) (phase_step (ag_phase st))) st"
    by (simp_all add: open_turn_def)
  obtain st1 r where a: "ag_append env (StepStart (phase_turn (ag_phase st)) ?k) None None st = (st1, r)" by fastforce
  show ?thesis
  proof (cases r)
    case (Inl x)
    with ag_append_at [OF a o(2)] o(1) have "open_turn st1" by (simp add: open_turn_def)
    with a Inl turn_throw_ok [OF assms(1)] show ?thesis by (simp add: enter_step_def)
  next
    case (Inr n)
    let ?st = "st1\<lparr> ag_phase := set_step ?k (ag_phase st1) \<rparr>"
    have "open_step ?st"
      using ag_append_at [OF a o(2)] Inr o(1) at_frame_cong [of ?st st1]
      by (simp add: open_step_def frame_data_def)
    moreover obtain st2 q where m: "append_messages env msgs ?st = (st2, q)" by fastforce
    ultimately have "open_step st2" using append_messages_ok by blast
    with a Inr m step_throw_ok [OF assms(1)] step_begin_ok [OF assms(1)] show ?thesis
      by (cases q) (simp_all add: enter_step_def)
  qed
qed

lemma decide_step_ok:
  assumes "closers_pass env" and "open_turn st"
  shows "agent_ok (decide_step env ends assembly msgs st)"
  using turn_break_ok [OF assms] turn_return_ok [OF assms] turn_throw_ok [OF assms] enter_step_ok [OF assms]
  by (auto simp: decide_step_def split: option.split list.split)

section \<open>The answer of the model\<close>

lemma tools_continue_ok:
  assumes "closers_pass env" and "open_step st"
    and "keeps (InStep (phase_turn (ag_phase st)) (phase_step (ag_phase st))) (ag_session st) (run_session run)"
    and "tu_turn run = phase_turn (ag_phase st)" and "tu_step run = phase_step (ag_phase st)"
  shows "agent_ok (tools_continue env fr run st)"
proof -
  let ?st = "st\<lparr> ag_inbox := tu_inbox run \<rparr>"
  have "open_step ?st"
    using keeps_session [of _ st ?st] assms(2,3) by (auto simp: open_step_def)
  with assms(1,4,5) step_return_ok step_throw_ok show ?thesis
    by (simp add: tools_continue_def Let_def pc_ok_def split: run_pc.split)
qed

lemma finish_message_ok:
  assumes "closers_pass env" and "open_step st"
  shows "agent_ok (finish_message env fr rq a seqs st)"
proof -
  let ?turn = "phase_turn (ag_phase st)" and ?step = "phase_step (ag_phase st)"
  have go: "agent_ok (case ag_append env (AssistantMessage ?turn ?step m u) (Some op_append) srcs st of
        (st1, Inl x) \<Rightarrow> step_throw env x st1
      | (st1, Inr _) \<Rightarrow>
          if finish_of a = FinMaxTokens then step_return env fr (Some EndMaxTokens) st1
          else let calls = planned_calls bs in
            if length calls = 0 then step_return env fr (Some EndCompleted) st1
            else tools_continue env fr (start_run (tool_env env st1) ?turn ?step calls (ag_inbox st1)) st1)"
    for m u srcs bs
  proof -
    obtain st1 r where ap: "ag_append env (AssistantMessage ?turn ?step m u) (Some op_append) srcs st = (st1, r)"
      by fastforce
    have st1: "open_step st1" "ag_phase st1 = ag_phase st"
      using step_append [OF ap assms(2)] by (simp_all add: frame_data_def step_only_def)
    have "agent_ok (tools_continue env fr (start_run (tool_env env st1) ?turn ?step cs (ag_inbox st1)) st1)" for cs
      using start_run_stays [of "tool_env env st1" ?turn ?step cs "ag_inbox st1"] st1
      by (intro tools_continue_ok [OF assms(1) st1(1)]) simp_all
    with ap step_throw_ok [OF assms(1) st1(1)] step_return_ok [OF assms(1) st1(1)] show ?thesis
      by (simp add: Let_def split: sum.split)
  qed
  show ?thesis
    using step_throw_ok [OF assms] go
    by (simp add: finish_message_def Let_def split: sum.split)
qed

lemma stream_ended_ok:
  assumes "closers_pass env" and "open_step st"
  shows "agent_ok (stream_ended env fr rq a seqs st)"
  using finish_message_ok [OF assms] assms(2) by (simp add: stream_ended_def pc_ok_def split: finish_reason.split)

lemma stream_chunk_ok:
  assumes "closers_pass env" and "open_step st"
    and "boundary_ok (ag_log st) (rq_messages rq)" and "header_matches (ag_log st) rq"
  shows "agent_ok (stream_chunk_arrived env fr rq a seqs c st)"
proof -
  obtain st' r where ap: "ag_append env (AssistantChunk (phase_turn (ag_phase st)) (phase_step (ag_phase st)) c)
      None None st = (st', r)" by fastforce
  from step_append [OF ap assms(2), of "rq_messages rq" rq] assms(3,4)
  have "open_step st'" "boundary_ok (ag_log st') (rq_messages rq)" "header_matches (ag_log st') rq"
    by (simp_all add: frame_data_def step_only_def)
  with ap step_throw_ok [OF assms(1)] show ?thesis
    by (simp add: stream_chunk_arrived_def pc_ok_def split: sum.split)
qed

section \<open>Turns begin and activities end\<close>

lemma begin_turn_ok:
  assumes "closers_pass env" and "between_turns st" and "phase_step (ag_phase st) = 0"
  shows "agent_ok (begin_turn env st)"
proof (cases "ag_abort st")
  case (Some c)
  with assms(2) show ?thesis by (simp add: begin_turn_def pc_ok_def)
next
  case None
  let ?t = "phase_turn (ag_phase st) + 1"
  from assms(2) have o: "is_running (ag_phase st)" "at_frame (Between (phase_turn (ag_phase st))) st"
    by (simp_all add: between_turns_def)
  obtain st' r where a: "ag_append env (TurnStart ?t) None None st = (st', r)" by fastforce
  show ?thesis
  proof (cases r)
    case (Inl x)
    with ag_append_at [OF a o(2)] o(1) have "between_turns st'" by (simp add: between_turns_def)
    with None a Inl show ?thesis by (simp add: begin_turn_def Let_def pc_ok_def)
  next
    case (Inr n)
    let ?st = "st'\<lparr> ag_phase := set_turn ?t (ag_phase st') \<rparr>"
    have "open_turn ?st"
      using ag_append_at [OF a o(2)] Inr o(1) assms(3) at_frame_cong [of ?st st']
      by (simp add: open_turn_def frame_data_def)
    with None a Inr loop_top_ok [OF assms(1)] show ?thesis by (simp add: begin_turn_def Let_def)
  qed
qed

lemma pc_ok_phase:
  assumes "is_running p = is_running (ag_phase st)" and "phase_turn p = phase_turn (ag_phase st)"
    and "phase_step p = phase_step (ag_phase st)"
  shows "pc_ok pc (st\<lparr> ag_phase := p \<rparr>) = pc_ok pc st"
  using assms
  by (simp add: pc_ok_def open_turn_def open_step_def between_turns_def at_frame_def split: loop_pc.split)

lemma agent_ok_phase:
  assumes "agent_ok st" and "is_running p = is_running (ag_phase st)" and "phase_turn p = phase_turn (ag_phase st)"
    and "phase_step p = phase_step (ag_phase st)"
  shows "agent_ok (st\<lparr> ag_phase := p \<rparr>)"
  using assms pc_ok_phase [OF assms(2-4), of "ag_pc st"] by (simp add: agent_ok_def)

lemma agent_ok_session: "agent_ok st \<Longrightarrow> session_ok (ag_session st)"
  by (simp add: agent_ok_def pc_ok_def open_turn_def open_step_def between_turns_def at_frame_def split: loop_pc.splits)

lemma agent_ok_idle: "agent_ok st \<Longrightarrow> \<not> is_running (ag_phase st) \<Longrightarrow> ag_pc st = NoDriver"
  by (simp add: agent_ok_def pc_ok_def open_turn_def open_step_def between_turns_def split: loop_pc.splits)

text \<open>Records of other components move no frame, at whatever await the driver is suspended.\<close>

lemma agent_ok_grow:
  assumes ok: "agent_ok st" and k: "\<And>fr. keeps fr (ag_session st) (ai_session ib)"
  shows "agent_ok (st\<lparr> ag_inbox := ib \<rparr>)"
proof -
  let ?st = "st\<lparr> ag_inbox := ib \<rparr>"
  have at: "at_frame fr st \<Longrightarrow> at_frame fr ?st" for fr
    using keeps_session [of fr st ?st] k by simp
  have o: "open_turn st \<Longrightarrow> open_turn ?st" "open_step st \<Longrightarrow> open_step ?st"
    "between_turns st \<Longrightarrow> between_turns ?st"
    using at by (simp_all add: open_turn_def open_step_def between_turns_def)
  have b: "open_step st \<Longrightarrow> boundary_ok (ag_log st) ms \<Longrightarrow> boundary_ok (ag_log ?st) ms"
    "open_step st \<Longrightarrow> header_matches (ag_log st) rq \<Longrightarrow> header_matches (ag_log ?st) rq" for ms rq
    using keeps_session [of _ st ?st ms rq] k unfolding open_step_def by auto
  have "pc_ok (ag_pc st) ?st"
    using ok at o b unfolding agent_ok_def pc_ok_def by (simp split: loop_pc.splits)
  then show ?thesis by (simp add: agent_ok_def)
qed

lemma wake_driver_ok:
  assumes "closers_pass env" and "agent_ok st"
  shows "agent_ok (wake_driver env after_abort st)"
proof (cases "ag_phase st")
  case (Idle n)
  let ?st = "set_phase (Running None n 0 False) st"
  have "ag_pc st = NoDriver" using agent_ok_idle [OF assms(2)] Idle by simp
  with assms(2) Idle have "between_turns ?st"
    using at_frame_cong [of ?st st] by (simp add: agent_ok_def pc_ok_def between_turns_def)
  from begin_turn_ok [OF assms(1) this] Idle show ?thesis by (simp add: wake_driver_def)
next
  case (Maintenance a n w)
  with assms(2) agent_ok_phase [OF assms(2), of "Maintenance a n True"] show ?thesis
    by (simp add: wake_driver_def)
next
  case (Running a n k w)
  with assms(2) agent_ok_phase [OF assms(2), of "Running a n k True"] show ?thesis
    by (simp add: wake_driver_def)
qed

lemma end_activity_ok:
  assumes "closers_pass env" and "at_frame (Between (phase_turn (ag_phase st))) st"
  shows "agent_ok (end_activity env st)"
proof -
  let ?st = "set_phase (Idle (phase_turn (ag_phase st))) (goto NoDriver st)"
  have "agent_ok ?st" using assms(2) at_frame_cong [of ?st st] by (simp add: agent_ok_def pc_ok_def)
  with wake_driver_ok [OF assms(1) this] show ?thesis by (simp add: end_activity_def Let_def)
qed

lemma agent_step_ok:
  assumes env: "closers_pass env" and ok: "agent_ok st" and step: "agent_step env i st = Some st'"
  shows "agent_ok st'"
proof (cases i)
  case (Assembled r)
  with step obtain ends claimed where pc: "ag_pc st = AssembleWait ends claimed"
    by (auto split: loop_pc.splits)
  with ok have o: "open_turn st" by (simp add: agent_ok_def pc_ok_def)
  with step Assembled pc turn_throw_ok [OF env o] show ?thesis
    by (auto simp: pc_ok_def split: sum.splits)
next
  case (PreStepDecided r)
  with step obtain ends a ms where pc: "ag_pc st = PreStepWait ends a ms"
    by (auto split: loop_pc.splits)
  with ok have o: "open_turn st" by (simp add: agent_ok_def pc_ok_def)
  with step PreStepDecided pc turn_throw_ok [OF env o] turn_return_ok [OF env o] decide_step_ok [OF env o]
  show ?thesis by (auto split: sum.splits pre_step_decision.splits)
next
  case (RequestProposed r)
  with step obtain fr ms seed where pc: "ag_pc st = RequestWait fr ms seed"
    by (auto split: loop_pc.splits)
  with ok have o: "open_step st" "boundary_ok (ag_log st) ms" by (simp_all add: agent_ok_def pc_ok_def)
  with step RequestProposed pc step_throw_ok [OF env o(1)] show ?thesis
    by (auto simp: pc_ok_def config_proposed_def split: sum.splits if_splits)
next
  case (CallPrepared r)
  with step obtain fr ms cfg where pc: "ag_pc st = PrepareWait fr ms cfg"
    by (auto split: loop_pc.splits)
  with ok have o: "open_step st" "boundary_ok (ag_log st) ms" by (simp_all add: agent_ok_def pc_ok_def)
  with step CallPrepared pc step_throw_ok [OF env o(1)] compose_request_ok [OF env o] show ?thesis
    by (auto simp: call_prepared_def split: sum.splits agent_error.splits if_splits)
next
  case (StreamChunk c)
  with step obtain fr rq a seqs where pc: "ag_pc st = StreamWait fr rq a seqs"
    by (auto split: loop_pc.splits)
  with ok have o: "open_step st" "boundary_ok (ag_log st) (rq_messages rq)" "header_matches (ag_log st) rq"
    by (simp_all add: agent_ok_def pc_ok_def)
  with step StreamChunk pc step_throw_ok [OF env o(1)] stream_chunk_ok [OF env o] show ?thesis
    by (auto split: option.splits)
next
  case (StreamEnded r)
  with step obtain fr rq a seqs where pc: "ag_pc st = StreamWait fr rq a seqs"
    by (auto split: loop_pc.splits)
  with ok have o: "open_step st" by (simp add: agent_ok_def pc_ok_def)
  with step StreamEnded pc step_throw_ok [OF env o] stream_ended_ok [OF env o] show ?thesis
    by (auto split: sum.splits)
next
  case (Recovered r)
  with step obtain fr f where pc: "ag_pc st = RecoverWait fr f"
    by (auto split: loop_pc.splits)
  with ok have o: "open_step st" by (simp add: agent_ok_def pc_ok_def)
  with step Recovered pc step_throw_ok [OF env o] request_begin_ok [OF env o] show ?thesis
    by (auto split: sum.splits if_splits)
next
  case (ToolAnswered a)
  with step obtain fr run run' where pc: "ag_pc st = ToolsWait fr run"
    and r: "resume (tool_env env st) a (run\<lparr> tu_inbox := ag_inbox st \<rparr>) = Some run'"
    and st': "st' = tools_continue env fr run' st"
    by (auto split: loop_pc.splits)
  with ok have o: "open_step st" "tu_turn run = phase_turn (ag_phase st)" "tu_step run = phase_step (ag_phase st)"
    by (simp_all add: agent_ok_def pc_ok_def)
  with resume_stays [OF r] tools_continue_ok [OF env o(1)] st' show ?thesis by (simp add: stays_def)
next
  case (ToolSettled n out)
  with step obtain fr run run' where pc: "ag_pc st = ToolsWait fr run" and r: "settle n out run = Some run'"
    and st': "st' = goto (ToolsWait fr run') st"
    by (auto split: loop_pc.splits)
  with ok settle_stays [OF r] show ?thesis by (simp add: agent_ok_def pc_ok_def stays_def)
next
  case (StoppingDone r)
  with step obtain ends where pc: "ag_pc st = StoppingWait ends"
    by (auto split: loop_pc.splits)
  with ok have o: "open_turn st" by (simp add: agent_ok_def pc_ok_def)
  with step StoppingDone pc turn_throw_ok [OF env o] turn_break_ok [OF env o] loop_top_ok [OF env o] show ?thesis
    by (auto split: sum.splits if_splits)
next
  case TurnReturned
  with step obtain again where pc: "ag_pc st = AwaitTurn again"
    and st': "st' = (if again then begin_turn env st else end_activity env st)"
    by (auto split: loop_pc.splits bool.splits)
  with ok have o: "between_turns st" "again \<Longrightarrow> phase_step (ag_phase st) = 0"
    by (simp_all add: agent_ok_def pc_ok_def)
  with st' begin_turn_ok [OF env o(1)] end_activity_ok [OF env] show ?thesis by (auto simp: between_turns_def)
qed

section \<open>Commands\<close>

lemma send_ok:
  assumes env: "closers_pass env" and ok: "agent_ok st"
  shows "agent_ok (fst (send env appending m target wakeup st))"
proof -
  define after where "after = (wakeup \<and> (case ag_phase st of Idle _ \<Rightarrow> False | p \<Rightarrow> phase_abort p \<noteq> None))"
  obtain ib r where s: "splice appending (se_veto (ae_sched env)) (se_now (ae_sched env)) (ag_inbox st)
      (if after then NextTurn else target) PosInf (Fin 0) [m] = (ib, r)" by fastforce
  have "agent_ok (st\<lparr> ag_inbox := ib \<rparr>)" by (rule agent_ok_grow [OF ok splice_keeps [OF s]])
  with s wake_driver_ok [OF env this] show ?thesis
    by (simp add: send_def Let_def after_def split: sum.split)
qed

lemma cancel_ok:
  assumes ok: "agent_ok st"
  shows "agent_ok (fst (cancel env appending cause keep st))"
proof (cases keep)
  case True
  with agent_ok_phase [OF ok] show ?thesis by (simp add: cancel_def)
next
  case False
  obtain ib r where c: "clear_inbox appending (se_veto (ae_sched env)) (se_now (ae_sched env)) (ag_inbox st) = (ib, r)"
    by fastforce
  have g: "agent_ok (st\<lparr> ag_inbox := ib \<rparr>)" by (rule agent_ok_grow [OF ok clear_inbox_keeps [OF c]])
  from agent_ok_phase [OF g, of "set_abort cause (set_wake False (ag_phase st))"] g c False show ?thesis
    by (cases r) (simp_all add: cancel_def)
qed

lemma run_maintenance_ok:
  assumes "agent_ok st"
  shows "agent_ok (fst (run_maintenance st))"
proof (cases "ag_phase st")
  case (Idle n)
  let ?st = "set_phase (Maintenance None n False) st"
  have "ag_pc st = NoDriver" using agent_ok_idle [OF assms] Idle by simp
  with assms Idle have "agent_ok ?st"
    using at_frame_cong [of ?st st] by (simp add: agent_ok_def pc_ok_def)
  with Idle show ?thesis by (simp add: run_maintenance_def)
qed (use assms in \<open>simp_all add: run_maintenance_def\<close>)

lemma finish_maintenance_ok:
  assumes env: "closers_pass env" and ok: "agent_ok st" and f: "finish_maintenance env st = Some st'"
  shows "agent_ok st'"
proof -
  from f obtain a n w where p: "ag_phase st = Maintenance a n w" and st': "st' = end_activity env st"
    by (auto simp: finish_maintenance_def split: agent_phase.splits)
  have "ag_pc st = NoDriver" using agent_ok_idle [OF ok] p by simp
  with ok st' end_activity_ok [OF env] show ?thesis by (simp add: agent_ok_def pc_ok_def)
qed

lemma other_append_ok:
  assumes ok: "agent_ok st" and "neutral d op"
    and a: "append_event b veto now (ag_session st) d op srcs ign = (s', r)"
  shows "agent_ok (with_session s' st)"
proof -
  have "keeps fr (ag_session st) s'" for fr
    using append_event_keeps [OF a neutral_keeps [OF assms(2)] neutral_no_header [OF assms(2)]] .
  from agent_ok_grow [OF ok, of "(ag_inbox st)\<lparr> ai_session := s' \<rparr>"] this show ?thesis
    by (simp add: with_session_def)
qed

fun frame_turn :: "frame \<Rightarrow> int" where
  "frame_turn (Between n) = n"
| "frame_turn (InTurn n _) = n"
| "frame_turn (InStep n _) = n"

lemma frame_last_turn: "frame_after (Between 0) evs = Some fr \<Longrightarrow> last_turn evs = frame_turn fr"
proof (induction evs arbitrary: fr rule: rev_induct)
  case Nil
  then show ?case by (auto simp: last_turn_def)
next
  case (snoc e evs)
  from snoc.prems obtain f0 where f0: "frame_after (Between 0) evs = Some f0" "frame_next f0 e = Some fr"
    by (auto simp: frame_after_append bind_eq_Some_conv)
  show ?case
  proof (cases "\<exists>t. ev_data e = TurnStart t")
    case True
    with f0(2) show ?thesis
      by (auto simp: last_turn_def frame_next_def frame_data_def split: frame.splits if_splits)
  next
    case False
    then have "last_turn (evs @ [e]) = last_turn evs"
      by (auto simp: last_turn_def split: event_data.split)
    moreover have "frame_turn fr = frame_turn f0"
      using f0(2) False
      by (cases "ev_data e") (auto simp: frame_next_def frame_data_def step_only_def split: frame.splits if_splits)
    ultimately show ?thesis using snoc.IH [OF f0(1)] by simp
  qed
qed

lemma new_agent_ok:
  assumes "new_agent opts s = Inr st" and ok: "session_ok s"
    and f: "frame_after (Between 0) (ses_log s) = Some (Between n)"
  shows "agent_ok st"
proof -
  obtain ib where ib: "new_inbox s = Inr ib"
    using assms(1) by (auto simp: new_agent_def split: sum.splits)
  obtain m r where sn: "surface_nodes (ses_manager s) (ses_log s) = (m, r)" by fastforce
  have m: "m = fst (sync_manager (ses_manager s) (ses_log s))"
    using surface_nodes_fst [of "ses_manager s" "ses_log s"] sn by simp
  have mo: "manager_ok (ses_manager s) (ses_log s)" "sm_base (ses_manager s) = 0"
    using ok by (simp_all add: session_ok_def)
  have "session_ok (s\<lparr> ses_manager := m \<rparr>)"
    using sync_manager_ok [OF mo(1)] mo(2) m by (intro session_ok_manager [OF ok]) (metis prod.collapse)+
  with assms(1) ib sn f frame_last_turn [OF f] show ?thesis
    by (auto simp: new_agent_def agent_ok_def pc_ok_def at_frame_def split: sum.splits)
qed

section \<open>Reachable agents\<close>

inductive agent_run :: "agent \<Rightarrow> bool" where
  started: "session_run s \<Longrightarrow> frame_after (Between 0) (ses_log s) = Some (Between n) \<Longrightarrow>
    new_agent opts s = Inr st \<Longrightarrow> agent_run st"
| stepped: "agent_run st \<Longrightarrow> closers_pass env \<Longrightarrow> agent_step env i st = Some st' \<Longrightarrow> agent_run st'"
| sent: "agent_run st \<Longrightarrow> closers_pass env \<Longrightarrow> agent_run (fst (send env appending m target wakeup st))"
| cancelled: "agent_run st \<Longrightarrow> agent_run (fst (cancel env appending cause keep st))"
| maintained: "agent_run st \<Longrightarrow> agent_run (fst (run_maintenance st))"
| maintenance_over: "agent_run st \<Longrightarrow> closers_pass env \<Longrightarrow> finish_maintenance env st = Some st' \<Longrightarrow> agent_run st'"
| other_append: "agent_run st \<Longrightarrow> neutral d op \<Longrightarrow>
    append_event b veto now (ag_session st) d op srcs ign = (s', r) \<Longrightarrow> agent_run (with_session s' st)"

lemma agent_run_ok: "agent_run st \<Longrightarrow> agent_ok st"
proof (induction rule: agent_run.induct)
  case (started s n opts st)
  then show ?case using new_agent_ok session_run_ok by blast
qed (auto intro: agent_step_ok send_ok cancel_ok run_maintenance_ok finish_maintenance_ok other_append_ok)

section \<open>Properties\<close>

definition expected_frame :: "agent \<Rightarrow> frame" where
  "expected_frame st = (let t = phase_turn (ag_phase st); k = phase_step (ag_phase st) in
     case ag_pc st of
       NoDriver \<Rightarrow> Between t
     | AwaitTurn _ \<Rightarrow> Between t
     | AssembleWait _ _ \<Rightarrow> InTurn t k
     | PreStepWait _ _ _ \<Rightarrow> InTurn t k
     | StoppingWait _ \<Rightarrow> InTurn t k
     | _ \<Rightarrow> InStep t k)"

text \<open>
  C1: the driver's log is always framed, and by the turn and step it is in. Whatever the awaited
  services answer, throw or refuse, and whatever is sent, cancelled or appended meanwhile, turns and
  steps are numbered consecutively, every chunk, message, call, result, header and context record
  lies in the open step, and no turn is left open once the driver has stopped; only a refused
  closing record could break this.
\<close>

theorem driver_frames_log:
  assumes "agent_run st"
  shows "frame_after (Between 0) (ag_log st) = Some (expected_frame st)
    \<and> (ag_pc st = NoDriver \<longleftrightarrow> \<not> is_running (ag_phase st))"
  using agent_run_ok [OF assms]
  by (auto simp: agent_ok_def pc_ok_def expected_frame_def open_turn_def open_step_def between_turns_def at_frame_def
      split: loop_pc.splits)

text \<open>
  C2: every model request is derived from the session log: while the driver streams an answer, the
  configuration, prompt and tools it sent are the request header a replay of the log gives, and the
  messages are the history a replay of some prefix of the log derives.
\<close>

theorem request_derived_from_log:
  assumes "agent_run st" and "ag_pc st = StreamWait fr rq a seqs"
  shows "(\<exists>h. fold_request_header (ag_log st) None = Some h
      \<and> rq_config rq = eh_config h \<and> rq_system rq = eh_system h \<and> rq_tools rq = eh_tools h)
    \<and> (\<exists>n \<le> length (ag_log st). rq_messages rq = replayed (take n (ag_log st)))"
  using agent_run_ok [OF assms(1)] assms(2)
  by (simp add: agent_ok_def pc_ok_def header_matches_def boundary_ok_def)

text \<open>The records an operation appended.\<close>

definition appended :: "agent \<Rightarrow> agent \<Rightarrow> event_data list" where
  "appended st st' = map ev_data (drop (length (ag_log st)) (ag_log st'))"

lemma ag_append_closer_log:
  assumes "closers_pass env" and "at_frame fr st"
    and "(\<exists>t q. d = TurnEnd t q) \<or> (\<exists>t k. d = StepEnd t k)"
    and a: "ag_append env d None None st = (st', r)"
  shows "\<exists>n e. r = Inr n \<and> ag_log st' = ag_log st @ [e] \<and> ev_data e = d \<and> ag_phase st' = ag_phase st"
  using ag_append_closer [OF assms] a
  by (auto simp: ag_append_def make_event_def split: prod.splits sum.splits dest!: append_event_grows)

lemma turn_throw_aborted:
  assumes "closers_pass env" and "open_turn st" and "ag_abort st = Some c"
  shows "\<exists>e. ag_log (turn_throw env x st) = ag_log st @ [e]
    \<and> ev_data e = TurnEnd (phase_turn (ag_phase st)) (EndAborted c) \<and> ag_pc (turn_throw env x st) = AwaitTurn False"
proof -
  obtain st' r where a: "ag_append env (TurnEnd (phase_turn (ag_phase st)) (EndAborted c)) None None st = (st', r)"
    by fastforce
  have o: "at_frame (InTurn (phase_turn (ag_phase st)) (phase_step (ag_phase st))) st"
    using assms(2) by (simp add: open_turn_def)
  from ag_append_closer_log [OF assms(1) o _ a] a assms(3) show ?thesis
    by (auto simp: turn_throw_def turn_return_def close_turn_def)
qed

lemma step_throw_aborted:
  assumes "closers_pass env" and "open_step st" and "ag_abort st = Some c"
  shows "\<exists>d e. ag_log (step_throw env x st) = ag_log st @ [d, e]
    \<and> ev_data d = StepEnd (phase_turn (ag_phase st)) (phase_step (ag_phase st))
    \<and> ev_data e = TurnEnd (phase_turn (ag_phase st)) (EndAborted c) \<and> ag_pc (step_throw env x st) = AwaitTurn False"
proof -
  obtain st' r where a: "ag_append env (StepEnd (phase_turn (ag_phase st)) (phase_step (ag_phase st))) None None st
      = (st', r)" by fastforce
  have o: "at_frame (InStep (phase_turn (ag_phase st)) (phase_step (ag_phase st))) st"
    using assms(2) by (simp add: open_step_def)
  from ag_append_closer_log [OF assms(1) o _ a] obtain n d where d: "r = Inr n" "ag_log st' = ag_log st @ [d]"
    "ev_data d = StepEnd (phase_turn (ag_phase st)) (phase_step (ag_phase st))" "ag_phase st' = ag_phase st" by auto
  have "open_turn st'" "ag_abort st' = Some c"
    using step_end_ok [OF assms(1,2) a] assms(3) d(4) by (simp_all add: ag_abort_def)
  from turn_throw_aborted [OF assms(1) this, of x] obtain e where e:
    "ag_log (turn_throw env x st') = ag_log st' @ [e]"
    "ev_data e = TurnEnd (phase_turn (ag_phase st')) (EndAborted c)"
    "ag_pc (turn_throw env x st') = AwaitTurn False" by blast
  have "step_throw env x st = turn_throw env x st'" using a d(1) by (simp add: step_throw_def)
  with d e show ?thesis by simp
qed

definition in_step :: "loop_pc \<Rightarrow> bool" where
  "in_step pc = (case pc of RequestWait _ _ _ \<Rightarrow> True | PrepareWait _ _ _ \<Rightarrow> True | StreamWait _ _ _ _ \<Rightarrow> True
     | RecoverWait _ _ \<Rightarrow> True | ToolsWait _ _ \<Rightarrow> True | _ \<Rightarrow> False)"

definition in_turn :: "loop_pc \<Rightarrow> bool" where
  "in_turn pc = (case pc of AssembleWait _ _ \<Rightarrow> True | PreStepWait _ _ _ \<Rightarrow> True | StoppingWait _ \<Rightarrow> True | _ \<Rightarrow> in_step pc)"

text \<open>
  C3: a cancelled turn stops at the next await. Outside a running tool batch, whatever the awaited
  service answers after the cancellation, the driver writes nothing more than the end of the open
  step and the end of the turn with the cause of the first cancellation, and the turn is over.
\<close>

theorem cancellation_stops_turn:
  assumes "agent_run st" and "closers_pass env" and "ag_abort st = Some c"
    and "in_turn (ag_pc st)" and "\<And>fr run. ag_pc st \<noteq> ToolsWait fr run"
    and "agent_step env i st = Some st'"
  shows "appended st st' = (if in_step (ag_pc st) then [StepEnd (phase_turn (ag_phase st)) (phase_step (ag_phase st))] else [])
      @ [TurnEnd (phase_turn (ag_phase st)) (EndAborted c)]
    \<and> ag_pc st' = AwaitTurn False"
proof -
  note ok = agent_run_ok [OF assms(1)]
  show ?thesis
  proof (cases "in_step (ag_pc st)")
    case True
    have o: "open_step st" using True ok by (auto simp: agent_ok_def pc_ok_def in_step_def split: loop_pc.splits)
    obtain x where x: "st' = step_throw env x st"
      using True assms(3,5,6)
      by (cases i) (auto simp: in_step_def checked_def compose_request_def call_prepared_def
          split: loop_pc.splits sum.splits agent_error.splits if_splits)
    from step_throw_aborted [OF assms(2) o assms(3), of x] obtain d e where
      "ag_log st' = ag_log st @ [d, e]"
      "ev_data d = StepEnd (phase_turn (ag_phase st)) (phase_step (ag_phase st))"
      "ev_data e = TurnEnd (phase_turn (ag_phase st)) (EndAborted c)" "ag_pc st' = AwaitTurn False"
      unfolding x by blast
    with True show ?thesis by (simp add: appended_def)
  next
    case False
    have o: "open_turn st" using False assms(4) ok
      by (auto simp: agent_ok_def pc_ok_def in_step_def in_turn_def split: loop_pc.splits)
    obtain x where x: "st' = turn_throw env x st"
      using False assms(3,4,6)
      by (cases i) (auto simp: in_step_def in_turn_def checked_def split: loop_pc.splits sum.splits)
    from turn_throw_aborted [OF assms(2) o assms(3), of x] obtain e where
      "ag_log st' = ag_log st @ [e]" "ev_data e = TurnEnd (phase_turn (ag_phase st)) (EndAborted c)"
      "ag_pc st' = AwaitTurn False"
      unfolding x by blast
    with False show ?thesis by (simp add: appended_def)
  qed
qed

section \<open>A sample run\<close>

fun run_inputs :: "agent_env \<Rightarrow> agent_input list \<Rightarrow> agent \<Rightarrow> agent option" where
  "run_inputs env [] st = Some st"
| "run_inputs env (i # is) st = Option.bind (agent_step env i st) (run_inputs env is)"

lemma run_inputs_run: "run_inputs env is st = Some st' \<Longrightarrow> agent_run st \<Longrightarrow> closers_pass env \<Longrightarrow> agent_run st'"
  by (induction "is" arbitrary: st) (auto simp: bind_eq_Some_conv intro: stepped)

definition sample_agent_env :: agent_env where
  "sample_agent_env = \<lparr> ae_sched = \<lparr> se_mode = (\<lambda>_. Inr False), se_max = 1, se_aborted = False, se_veto = (\<lambda>_. None),
     se_now = 7, se_uuid = (\<lambda>n. CHR ''u'' # show_nat n), se_finish = (\<lambda>_ r. Inr r) \<rparr>, ae_error_text = (\<lambda>_. ''failed'') \<rparr>"

definition sample_options :: agent_options where
  "sample_options = \<lparr> ao_provider = Some ''p'', ao_model = Some ''m'', ao_max_tokens = None \<rparr>"

definition blank_session :: session where
  "blank_session = fresh_session sample_header [] (new_surface_manager 0)"

definition sample_agent :: agent where
  "sample_agent = (case new_agent sample_options blank_session of Inr st \<Rightarrow> st)"

definition sample_prepared :: prepared_call where
  "sample_prepared = \<lparr> pr_config = \<lparr> cfg_provider = ''p'', cfg_model = ''m'', cfg_reasoning_effort = None,
     cfg_temperature = None, cfg_max_tokens = Some 64, cfg_stop = None \<rparr>,
     pr_adapter_defaults = Some \<lparr> def_reasoning_effort = False, def_max_tokens = True \<rparr>, pr_context_window = Some 1000 \<rparr>"

definition sample_inputs :: "agent_input list" where
  "sample_inputs =
     [Assembled (Inr \<lparr> pa_sections = [\<lparr> at_name = ''s'', at_text = ''Be {{how}}'' \<rparr>], pa_contexts = [], pa_tools = [],
        pa_variables = [(''how'', Some ''brief'')] \<rparr>),
      PreStepDecided (Inr StepDefault), RequestProposed (Inr None), CallPrepared (Inr sample_prepared)]"

definition sample_streaming :: agent where
  "sample_streaming = the (run_inputs sample_agent_env sample_inputs
     (fst (followup sample_agent_env False (sample_user ''m1'') sample_agent)))"

lemma sample_env_passes: "closers_pass sample_agent_env"
  by (simp add: closers_pass_def sample_agent_env_def)

lemma blank_session_run: "session_run blank_session"
proof -
  have "new_session (\<lambda>_. True) 20 ModeSnapshot ''s1'' None (Some sample_header) = Inr blank_session"
    by code_simp
  then show ?thesis by (rule session_run.created)
qed

lemma sample_agent_run: "agent_run sample_agent"
proof (rule agent_run.started [OF blank_session_run])
  show "frame_after (Between 0) (ses_log blank_session) = Some (Between 0)" by code_simp
  have "is_ok (new_agent sample_options blank_session)" by code_simp
  then show "new_agent sample_options blank_session = Inr sample_agent"
    by (auto simp: sample_agent_def is_ok_iff)
qed

lemma sample_streaming_run: "agent_run sample_streaming"
proof -
  have "run_inputs sample_agent_env sample_inputs (fst (followup sample_agent_env False (sample_user ''m1'') sample_agent)) \<noteq> None"
    by code_simp
  then show ?thesis
    unfolding sample_streaming_def followup_def
    by (intro run_inputs_run [OF _ sent [OF sample_agent_run sample_env_passes] sample_env_passes]) auto
qed

definition streamed_request :: "agent \<Rightarrow> llm_request option" where
  "streamed_request st = (case ag_pc st of StreamWait _ rq _ _ \<Rightarrow> Some rq | _ \<Rightarrow> None)"

lemma streamed_requestE:
  assumes "streamed_request st = Some rq"
  obtains fr a seqs where "ag_pc st = StreamWait fr rq a seqs"
  using assms by (auto simp: streamed_request_def split: loop_pc.splits)

theorem driver_frames_log_witness:
  "frame_after (Between 0) (ag_log sample_streaming) = Some (InStep 1 1)"
proof -
  have "expected_frame sample_streaming = InStep 1 1" by code_simp
  with driver_frames_log [OF sample_streaming_run] show ?thesis by simp
qed

theorem request_derived_from_log_witness:
  "\<exists>rq h. streamed_request sample_streaming = Some rq \<and> rq_system rq = Some ''Be brief''
     \<and> fold_request_header (ag_log sample_streaming) None = Some h \<and> rq_config rq = eh_config h"
proof -
  have "map_option rq_system (streamed_request sample_streaming) = Some (Some ''Be brief'')" by code_simp
  then obtain rq where rq: "streamed_request sample_streaming = Some rq" "rq_system rq = Some ''Be brief''" by auto
  from rq(1) obtain fr a seqs where "ag_pc sample_streaming = StreamWait fr rq a seqs" by (rule streamed_requestE)
  from request_derived_from_log [OF sample_streaming_run this] rq show ?thesis by auto
qed

definition sample_cancelled :: agent where
  "sample_cancelled = fst (cancel sample_agent_env False CauseUser False sample_streaming)"

theorem cancellation_stops_turn_witness:
  "appended sample_cancelled (the (agent_step sample_agent_env (StreamEnded (Inr ())) sample_cancelled))
     = [StepEnd 1 1, TurnEnd 1 (EndAborted CauseUser)]"
proof -
  let ?st = "sample_cancelled" and ?i = "StreamEnded (Inr ())"
  have run: "agent_run ?st" unfolding sample_cancelled_def by (rule cancelled [OF sample_streaming_run])
  have a: "ag_abort ?st = Some CauseUser" "in_turn (ag_pc ?st)" "in_step (ag_pc ?st)"
    "streamed_request ?st \<noteq> None" "phase_turn (ag_phase ?st) = 1" "phase_step (ag_phase ?st) = 1"
    by code_simp+
  have "agent_step sample_agent_env ?i ?st \<noteq> None" by code_simp
  then have s: "agent_step sample_agent_env ?i ?st = Some (the (agent_step sample_agent_env ?i ?st))" by simp
  have n: "ag_pc ?st \<noteq> ToolsWait fr run" for fr run
    using a(4) by (auto simp: streamed_request_def)
  from cancellation_stops_turn [OF run sample_env_passes a(1,2) n s] a show ?thesis by simp
qed

end
