(* ===== verification/Token_Meter.thy ===== *)
theory Token_Meter
  imports Session_Run Assembler
begin

text \<open>
  The token meter, \<^verbatim>\<open>packages/llm/token-meter/src\<close>: heuristic prices of messages and headers
  (\<^verbatim>\<open>estimate.ts\<close>), the priced surface the meter keeps (\<^verbatim>\<open>surface-fold.ts\<close>, \<^verbatim>\<open>index.ts\<close>), and the
  constant-space projection of its total (\<^verbatim>\<open>surface-projection.ts\<close>). The lengths of the JSON text of an
  unknown block and of the tool schemas are the arguments \<open>jl\<close> and \<open>tl\<close> of a \<open>json_lengths\<close>. The lemmas
  show that the priced nodes are the nodes of the session surface and that the projection keeps
  the meter's total on every log whose replacements state the price of what they replace.
\<close>

section \<open>Prices\<close>

record json_lengths =
  jl_block :: "content_block \<Rightarrow> nat"
  jl_tools :: "json list \<Rightarrow> nat"

definition block_overhead :: nat where
  "block_overhead = 4"

definition role_overhead :: nat where
  "role_overhead = 4"

definition density_tokens :: "nat \<Rightarrow> nat" where
  "density_tokens chars = (chars + 3) div 4"

fun estimate_block :: "json_lengths \<Rightarrow> content_block \<Rightarrow> nat" where
  "estimate_block j (TextBlock t) = density_tokens (length t) + block_overhead"
| "estimate_block j (ReasoningBlock t) = density_tokens (length t) + block_overhead"
| "estimate_block j (ToolCallBlock _ n a) = density_tokens (length n) + density_tokens (length a) + block_overhead"
| "estimate_block j (ToolResultBlock _ bs _) = sum_list (map (estimate_block j) bs) + block_overhead"
| "estimate_block j b = block_overhead + density_tokens (jl_block j b)"

definition estimate_content :: "json_lengths \<Rightarrow> content_block list \<Rightarrow> nat" where
  "estimate_content j bs = sum_list (map (estimate_block j) bs)"

definition estimate_message :: "json_lengths \<Rightarrow> message \<Rightarrow> nat" where
  "estimate_message j m = estimate_content j (message_content m) + role_overhead"

definition estimate_system_tokens :: "epoch_header option \<Rightarrow> nat" where
  "estimate_system_tokens h = (case Option.bind h eh_system of
       None \<Rightarrow> 0 | Some s \<Rightarrow> density_tokens (length s) + role_overhead)"

definition estimate_tools_tokens :: "json_lengths \<Rightarrow> epoch_header option \<Rightarrow> nat" where
  "estimate_tools_tokens j h = (case Option.bind h eh_tools of
       None \<Rightarrow> 0 | Some ts \<Rightarrow> if length ts = 0 then 0 else density_tokens (jl_tools j ts) + block_overhead)"

definition estimate_header :: "json_lengths \<Rightarrow> epoch_header option \<Rightarrow> nat" where
  "estimate_header j h = estimate_system_tokens h + estimate_tools_tokens j h"

definition event_price :: "json_lengths \<Rightarrow> session_event \<Rightarrow> nat" where
  "event_price j e = (case derive_event_message e of None \<Rightarrow> 0 | Some m \<Rightarrow> estimate_message j m)"

section \<open>The priced surface\<close>

record token_node =
  tn_seq :: nat
  tn_tokens :: nat

datatype meter_error =
    BadReplaceRange nat
  | StepNotEnded nat
  | NoMatchingStep nat
  | SourceNotBefore nat nat
  | SourceRepeated nat nat
  | SourceNotChunk nat nat
  | SourceOtherStep nat nat
  | ProviderBlocks assembly_error
  | ClaimMismatch nat

definition op_start :: "session_event \<Rightarrow> nat" where
  "op_start e = (case ev_surface_op e of
       Some (JObj ps) \<Rightarrow> (case map_of ps ''start'' of Some v \<Rightarrow> json_seq v | None \<Rightarrow> 0) | _ \<Rightarrow> 0)"

definition op_end :: "session_event \<Rightarrow> nat" where
  "op_end e = (case ev_surface_op e of
       Some (JObj ps) \<Rightarrow> (case map_of ps ''end'' of Some v \<Rightarrow> json_seq v | None \<Rightarrow> 0) | _ \<Rightarrow> 0)"

definition node_tokens :: "token_node list \<Rightarrow> int" where
  "node_tokens ns = sum_list (map (\<lambda>n. int (tn_tokens n)) ns)"

definition fold_surface_tokens ::
  "json_lengths \<Rightarrow> token_node list \<Rightarrow> session_event \<Rightarrow> meter_error + (nat \<times> token_node list \<times> int)" where
  "fold_surface_tokens j nodes e =
     (let tokens = event_price j e; node = \<lparr> tn_seq = ev_seq e, tn_tokens = tokens \<rparr> in
      if ev_surface_op e = Some op_append then Inr (tokens, nodes @ [node], int tokens)
      else case (index_of (op_start e) (map tn_seq nodes), index_of (op_end e) (map tn_seq nodes)) of
          (Some i, Some k) \<Rightarrow>
            if i > k then Inl (BadReplaceRange (ev_seq e))
            else Inr (tokens, list_splice i (k - i + 1) [node] nodes,
                      int tokens - node_tokens (take (k - i + 1) (drop i nodes)))
        | _ \<Rightarrow> Inl (BadReplaceRange (ev_seq e)))"

section \<open>Replay\<close>

datatype baseline =
    BaseNone
  | BaseUsage int token_usage
  | BaseEstimated int

record meter_anchor =
  an_header :: "epoch_header option"
  an_surface :: int
  an_baseline :: baseline

record meter_state =
  mt_consumed :: nat
  mt_header :: "epoch_header option"
  mt_surface :: "token_node list"
  mt_surface_tokens :: int
  mt_step :: "(int \<times> int \<times> int) option"
  mt_anchor :: "meter_anchor option"

definition new_meter_state :: meter_state where
  "new_meter_state = \<lparr> mt_consumed = 0, mt_header = None, mt_surface = [], mt_surface_tokens = 0,
     mt_step = None, mt_anchor = None \<rparr>"

definition usage_tokens :: "token_usage \<Rightarrow> int" where
  "usage_tokens u = input_tokens u + (case cache_read_tokens u of Some n \<Rightarrow> n | None \<Rightarrow> 0)
     + (case cache_write_tokens u of Some n \<Rightarrow> n | None \<Rightarrow> 0) + output_tokens u"

definition optional_header_equals :: "epoch_header option \<Rightarrow> epoch_header option \<Rightarrow> bool" where
  "optional_header_equals a b = (case (a, b) of
       (Some x, Some y) \<Rightarrow> header_equals x y | (None, None) \<Rightarrow> True | _ \<Rightarrow> False)"

text \<open>The provider output reassembled from the cited chunks of the same step.\<close>

fun push_sources ::
  "session_event list \<Rightarrow> nat \<Rightarrow> int \<Rightarrow> int \<Rightarrow> nat list \<Rightarrow> assembler \<Rightarrow> nat list \<Rightarrow> meter_error + assembler" where
  "push_sources evs at_seq turn step seen a [] = Inr a"
| "push_sources evs at_seq turn step seen a (n # ns) =
     (if n \<ge> at_seq then Inl (SourceNotBefore at_seq n)
      else if n \<in> set seen then Inl (SourceRepeated at_seq n)
      else case ev_data (evs ! n) of
          AssistantChunk t s c \<Rightarrow>
            if t \<noteq> turn \<or> s \<noteq> step then Inl (SourceOtherStep at_seq n)
            else push_sources evs at_seq turn step (n # seen) (push_chunk a c) ns
        | _ \<Rightarrow> Inl (SourceNotChunk at_seq n))"

definition estimate_provider_assistant ::
  "json_lengths \<Rightarrow> session_event list \<Rightarrow> session_event \<Rightarrow> int \<Rightarrow> int \<Rightarrow> nat \<Rightarrow> meter_error + nat" where
  "estimate_provider_assistant j evs e turn step durable = (case ev_sources e of
       Some (JArr xs) \<Rightarrow>
         bind_res (push_sources evs (ev_seq e) turn step [] new_assembler (map json_seq xs)) (\<lambda>a.
           (case assembled_blocks a of
              Inl x \<Rightarrow> Inl (ProviderBlocks x)
            | Inr bs \<Rightarrow> Inr (if length bs = 0 then 0 else estimate_content j bs + role_overhead)))
     | _ \<Rightarrow> Inr durable)"

definition next_meter_step :: "meter_state \<Rightarrow> session_event \<Rightarrow> meter_error + (int \<times> int \<times> int) option" where
  "next_meter_step st e = (case ev_data e of
       StepStart t s \<Rightarrow>
         if mt_step st \<noteq> None then Inl (StepNotEnded (ev_seq e)) else Inr (Some (t, s, mt_surface_tokens st))
     | StepEnd t s \<Rightarrow> (case mt_step st of
           Some (t', s', _) \<Rightarrow> if t' \<noteq> t \<or> s' \<noteq> s then Inl (NoMatchingStep (ev_seq e)) else Inr None
         | None \<Rightarrow> Inl (NoMatchingStep (ev_seq e)))
     | _ \<Rightarrow> Inr (mt_step st))"

definition anchor_after ::
  "json_lengths \<Rightarrow> session_event list \<Rightarrow> meter_state \<Rightarrow> session_event \<Rightarrow> nat \<Rightarrow> meter_error + meter_anchor option" where
  "anchor_after j evs st e tokens = (case ev_data e of
       AssistantMessage turn step _ usage \<Rightarrow>
         (case mt_step st of
            None \<Rightarrow> Inl (NoMatchingStep (ev_seq e))
          | Some (t, s, start_tokens) \<Rightarrow>
              if t \<noteq> turn \<or> s \<noteq> step then Inl (NoMatchingStep (ev_seq e))
              else (case (usage, mt_header st) of
                  (Some u, Some h) \<Rightarrow>
                    bind_res (estimate_provider_assistant j evs e turn step tokens) (\<lambda>provider.
                      let anchor = start_tokens + int provider;
                          estimated = int (estimate_header j (Some h)) + anchor
                      in Inr (Some \<lparr> an_header = Some h, an_surface = anchor,
                           an_baseline = (if usage_tokens u \<ge> estimated then BaseUsage (usage_tokens u) u
                                          else BaseEstimated estimated) \<rparr>))
                | _ \<Rightarrow>
                    let anchor = start_tokens + int tokens in
                    Inr (Some \<lparr> an_header = mt_header st, an_surface = anchor,
                         an_baseline = BaseEstimated (int (estimate_header j (mt_header st)) + anchor) \<rparr>)))
     | _ \<Rightarrow> Inr (mt_anchor st))"

definition fold_meter_event ::
  "json_lengths \<Rightarrow> session_event list \<Rightarrow> meter_state \<Rightarrow> session_event \<Rightarrow> meter_error + meter_state" where
  "fold_meter_event j evs st e =
     bind_res (next_meter_step st e) (\<lambda>next_step.
     bind_res (if is_surface_event e then bind_res (fold_surface_tokens j (mt_surface st) e) (\<lambda>r. Inr (Some r))
               else Inr None) (\<lambda>surface.
     bind_res (anchor_after j evs st e (case surface of Some (tokens, _, _) \<Rightarrow> tokens | None \<Rightarrow> 0)) (\<lambda>anchor.
       Inr \<lparr> mt_consumed = mt_consumed st + 1,
             mt_header = (case ev_data e of RequestHeader h _ \<Rightarrow> Some (canonical_header h) | _ \<Rightarrow> mt_header st),
             mt_surface = (case surface of Some (_, nodes, _) \<Rightarrow> nodes | None \<Rightarrow> mt_surface st),
             mt_surface_tokens = mt_surface_tokens st + (case surface of Some (_, _, d) \<Rightarrow> d | None \<Rightarrow> 0),
             mt_step = next_step, mt_anchor = anchor \<rparr>)))"

text \<open>The catch-up loop: a malformed event leaves the state before it, to fail again on the next read.\<close>

fun meter_sync ::
  "json_lengths \<Rightarrow> session_event list \<Rightarrow> meter_state \<Rightarrow> session_event list \<Rightarrow> meter_state \<times> meter_error option" where
  "meter_sync j evs st [] = (st, None)"
| "meter_sync j evs st (e # es) = (case fold_meter_event j evs st e of
       Inl x \<Rightarrow> (st, Some x)
     | Inr st' \<Rightarrow> meter_sync j evs st' es)"

record token_measurement =
  me_revision :: nat
  me_baseline :: baseline
  me_delta :: int
  me_total :: int
  me_surface_tokens :: int
  me_nodes :: "token_node list"

fun baseline_tokens :: "baseline \<Rightarrow> int" where
  "baseline_tokens BaseNone = 0"
| "baseline_tokens (BaseUsage n _) = n"
| "baseline_tokens (BaseEstimated n) = n"

definition measurement_of :: "json_lengths \<Rightarrow> epoch_header option \<Rightarrow> meter_state \<Rightarrow> token_measurement" where
  "measurement_of j override st =
     (let header = (case override of None \<Rightarrow> mt_header st | Some h \<Rightarrow> Some (canonical_header h));
          (base, delta) =
            (case mt_anchor st of
               Some a \<Rightarrow>
                 if optional_header_equals (an_header a) header
                 then (an_baseline a, mt_surface_tokens st - an_surface a)
                 else if header = None \<and> mt_surface_tokens st = 0 then (BaseNone, 0)
                 else (BaseEstimated (int (estimate_header j header) + mt_surface_tokens st), 0)
             | None \<Rightarrow>
                 if header = None \<and> mt_surface_tokens st = 0 then (BaseNone, 0)
                 else (BaseEstimated (int (estimate_header j header) + mt_surface_tokens st), 0))
      in \<lparr> me_revision = mt_consumed st, me_baseline = base, me_delta = delta,
           me_total = max 0 (baseline_tokens base + delta), me_surface_tokens = mt_surface_tokens st,
           me_nodes = mt_surface st \<rparr>)"

definition meter_measure ::
  "json_lengths \<Rightarrow> epoch_header option \<Rightarrow> meter_state \<Rightarrow> session_event list
     \<Rightarrow> meter_state \<times> (meter_error + token_measurement)" where
  "meter_measure j override st evs =
     (case meter_sync j evs st (drop (mt_consumed st) evs) of
        (st', Some x) \<Rightarrow> (st', Inl x)
      | (st', None) \<Rightarrow> (st', Inr (measurement_of j override st')))"

section \<open>The constant-space projection\<close>

record price_claim =
  cm_start :: int
  cm_end :: int
  cm_tokens :: int

definition obj_int :: "json \<Rightarrow> string \<Rightarrow> int" where
  "obj_int v k = (case obj_get v k of Some (JNum r) \<Rightarrow> \<lfloor>r\<rfloor> | _ \<Rightarrow> 0)"

definition claim_of :: "json \<Rightarrow> price_claim" where
  "claim_of v = (let range = (case obj_get v ''shadowedRange'' of Some x \<Rightarrow> x | None \<Rightarrow> JNull) in
     \<lparr> cm_start = obj_int range ''start'', cm_end = obj_int range ''end'', cm_tokens = obj_int v ''shadowedTokenCount'' \<rparr>)"

definition metering_claim :: "session_event \<Rightarrow> price_claim option" where
  "metering_claim e = (case ev_data e of
       OtherEvent t v \<Rightarrow> if t = ''compaction/summary'' \<or> t = ''compaction/prune'' then Some (claim_of v) else None
     | _ \<Rightarrow> None)"

definition fold_surface_projection ::
  "json_lengths \<Rightarrow> price_claim option \<Rightarrow> session_event \<Rightarrow> meter_error + (int \<times> price_claim option)" where
  "fold_surface_projection j claim e = (case metering_claim e of
       Some c \<Rightarrow> Inr (0, Some c)
     | None \<Rightarrow>
         if \<not> is_surface_event e then Inr (0, None)
         else let tokens = int (event_price j e) in
           if ev_surface_op e = Some op_append then Inr (tokens, None)
           else (case claim of
               None \<Rightarrow> Inr (0, None)
             | Some c \<Rightarrow>
                 if cm_start c \<noteq> int (op_start e) \<or> cm_end c \<noteq> int (op_end e) then Inl (ClaimMismatch (ev_seq e))
                 else Inr (tokens - cm_tokens c, None)))"

definition projection_step ::
  "json_lengths \<Rightarrow> int \<times> price_claim option \<Rightarrow> session_event \<Rightarrow> meter_error + (int \<times> price_claim option)" where
  "projection_step j st e = (case st of (sum0, claim) \<Rightarrow>
     bind_res (fold_surface_projection j claim e) (\<lambda>(d, claim'). Inr (sum0 + d, claim')))"


section \<open>The priced surface is the session surface\<close>

definition priced :: "json_lengths \<Rightarrow> session_event list \<Rightarrow> nat list \<Rightarrow> token_node list" where
  "priced j evs ns = map (\<lambda>n. \<lparr> tn_seq = n, tn_tokens = event_price j (evs ! n) \<rparr>) ns"

definition surface_price :: "json_lengths \<Rightarrow> session_event list \<Rightarrow> nat list \<Rightarrow> int" where
  "surface_price j evs ns = sum_list (map (\<lambda>n. int (event_price j (evs ! n))) ns)"

lemma priced_simps [simp]:
  "priced j evs [] = []"
  "priced j evs (ns @ ms) = priced j evs ns @ priced j evs ms"
  "map tn_seq (priced j evs ns) = ns"
  "node_tokens (priced j evs ns) = surface_price j evs ns"
  by (simp_all add: priced_def node_tokens_def surface_price_def comp_def)

lemma surface_price_simps [simp]:
  "surface_price j evs [] = 0"
  "surface_price j evs (n # ns) = int (event_price j (evs ! n)) + surface_price j evs ns"
  "surface_price j evs (ns @ ms) = surface_price j evs ns + surface_price j evs ms"
  by (simp_all add: surface_price_def)

lemma priced_splice:
  "priced j evs (list_splice i n ys xs) = list_splice i n (priced j evs ys) (priced j evs xs)"
  by (simp add: list_splice_def priced_def take_map drop_map)

lemma surface_price_splice:
  assumes "i + n \<le> length xs"
  shows "surface_price j evs (list_splice i n ys xs)
    = surface_price j evs xs + surface_price j evs ys - surface_price j evs (take n (drop i xs))"
  using arg_cong [OF split_three [OF assms], of "surface_price j evs"] by (simp add: list_splice_def)

lemma surface_op_of_append: "surface_op_of e = Inr (Some OpAppend) \<Longrightarrow> ev_surface_op e = Some op_append"
  by (auto simp: surface_op_of_def Let_def split: if_splits option.splits json.splits)

lemma surface_op_of_replace:
  assumes "surface_op_of e = Inr (Some (OpReplace s t))"
  shows "ev_surface_op e \<noteq> Some op_append" and "op_start e = s" and "op_end e = t"
  using assms
  by (auto simp: surface_op_of_def op_start_def op_end_def is_replace_op_def
      split: if_splits option.splits json.splits)

text \<open>
  One accepted event, seen by both folds: the node list of the surface, its price before and after,
  and the replacement it records.
\<close>

lemma fold_surface_tokens_step:
  assumes step: "surface_step evs 0 (k, st, reps) e = Inr (k', st', reps')"
    and e: "evs ! k = e" and s: "is_surface_event e"
  shows "fold_surface_tokens j (priced j evs (fs_nodes st)) e
     = Inr (event_price j e, priced j evs (fs_nodes st'),
            surface_price j evs (fs_nodes st') - surface_price j evs (fs_nodes st))"
proof -
  from step obtain plan rep where plan: "plan_surface_event st e k evs 0 = Inr plan"
    and ap: "apply_surface_plan st plan = (st', rep)"
    by (blast elim: surface_stepE)
  from plan show ?thesis
  proof (cases rule: plan_surface_eventE)
    case skip
    with s surface_op_of_None show ?thesis by blast
  next
    case append
    with ap e surface_op_of_append [OF append(2)] show ?thesis
      by (auto simp: fold_surface_tokens_def priced_def Let_def)
  next
    case (replace a b rg)
    note op = surface_op_of_replace [OF replace(2)]
    let ?i = "rg_start_idx rg" and ?n = "rg_end_idx rg - rg_start_idx rg + 1"
    have idx: "index_of a (fs_nodes st) = Some ?i" "index_of b (fs_nodes st) = Some (rg_end_idx rg)"
      and le: "?i \<le> rg_end_idx rg" "rg_end_idx rg < length (fs_nodes st)"
      using replace(4) replacement_rangeD(1,2) [OF replace(4)]
      by (auto simp: replacement_range_def split: option.splits if_splits)
    have bound: "?i + ?n \<le> length (fs_nodes st)" using le by simp
    have st': "fs_nodes st' = list_splice ?i ?n [k] (fs_nodes st)" using ap replace(1) by auto
    have tk: "take ?n (drop ?i (priced j evs (fs_nodes st))) = priced j evs (take ?n (drop ?i (fs_nodes st)))"
      by (simp add: priced_def take_map drop_map)
    have one: "priced j evs [k] = [\<lparr> tn_seq = ev_seq e, tn_tokens = event_price j e \<rparr>]"
      using e replace(3) by (simp add: priced_def)
    have price: "surface_price j evs (fs_nodes st')
        = surface_price j evs (fs_nodes st) + int (event_price j e)
          - surface_price j evs (take ?n (drop ?i (fs_nodes st)))"
      unfolding st' surface_price_splice [OF bound] using e by simp
    have "fold_surface_tokens j (priced j evs (fs_nodes st)) e
        = Inr (event_price j e,
            list_splice ?i ?n [\<lparr> tn_seq = ev_seq e, tn_tokens = event_price j e \<rparr>] (priced j evs (fs_nodes st)),
            int (event_price j e) - node_tokens (take ?n (drop ?i (priced j evs (fs_nodes st)))))"
      using op(1) le idx by (simp add: fold_surface_tokens_def op(2,3) Let_def)
    then show ?thesis unfolding price unfolding tk st' priced_splice one by simp
  qed
qed

lemma surface_step_other:
  assumes "surface_step evs 0 (k, st, reps) e = Inr (k', st', reps')" and "\<not> is_surface_event e"
  shows "fs_nodes st' = fs_nodes st" and "reps' = reps"
proof -
  from assms(1) obtain plan rep where plan: "plan_surface_event st e k evs 0 = Inr plan"
    and ap: "apply_surface_plan st plan = (st', rep)"
    and reps': "reps' = (case rep of None \<Rightarrow> reps | Some p \<Rightarrow> reps @ [p])"
    by (blast elim: surface_stepE)
  from plan show "fs_nodes st' = fs_nodes st" "reps' = reps"
    using ap reps' assms(2) surface_op_of_Some by (cases rule: plan_surface_eventE; force)+
qed

definition meter_ok :: "json_lengths \<Rightarrow> session_event list \<Rightarrow> nat list \<Rightarrow> meter_state \<Rightarrow> bool" where
  "meter_ok j evs ns mt \<longleftrightarrow> mt_surface mt = priced j evs ns \<and> mt_surface_tokens mt = surface_price j evs ns"

lemma fold_meter_event_cases:
  assumes "fold_meter_event j evs mt e = Inr mt'"
  obtains (surface) tokens nodes d where "is_surface_event e"
      and "fold_surface_tokens j (mt_surface mt) e = Inr (tokens, nodes, d)"
      and "mt_surface mt' = nodes" and "mt_surface_tokens mt' = mt_surface_tokens mt + d"
      and "mt_consumed mt' = mt_consumed mt + 1"
    | (other) "\<not> is_surface_event e" and "mt_surface mt' = mt_surface mt"
      and "mt_surface_tokens mt' = mt_surface_tokens mt" and "mt_consumed mt' = mt_consumed mt + 1"
  using assms unfolding fold_meter_event_def
  by (auto split: if_splits)

lemma meter_ok_step:
  assumes "surface_step evs 0 (k, st, reps) e = Inr (k', st', reps')" and "evs ! k = e"
    and "fold_meter_event j evs mt e = Inr mt'" and "meter_ok j evs (fs_nodes st) mt"
  shows "meter_ok j evs (fs_nodes st') mt'"
  using assms(3)
proof (cases rule: fold_meter_event_cases)
  case (surface tokens nodes d)
  with fold_surface_tokens_step [OF assms(1,2) surface(1), of j] assms(4) show ?thesis
    by (simp add: meter_ok_def)
next
  case other
  with surface_step_other(1) [OF assms(1)] assms(4) show ?thesis by (simp add: meter_ok_def)
qed

lemma surface_step_count: "surface_step evs b (k, st, reps) e = Inr (k', st', reps') \<Longrightarrow> k' = Suc k"
  by (blast elim: surface_stepE)


text \<open>Reads of one meter over a growing log: a failed read leaves the events before the bad one folded.\<close>

inductive meter_run :: "json_lengths \<Rightarrow> session_event list \<Rightarrow> meter_state \<Rightarrow> bool" for j where
  started: "meter_run j [] new_meter_state"
| grown: "meter_run j evs mt \<Longrightarrow> log_accepted (evs @ ds) \<Longrightarrow> meter_run j (evs @ ds) mt"
| read: "meter_run j evs mt \<Longrightarrow> meter_run j evs (fst (meter_measure j h mt evs))"

definition meter_inv :: "json_lengths \<Rightarrow> session_event list \<Rightarrow> meter_state \<Rightarrow> bool" where
  "meter_inv j evs mt \<longleftrightarrow> log_accepted evs \<and> mt_consumed mt \<le> length evs
     \<and> (\<exists>st reps. run_fold (surface_step evs 0) (surface_start 0) (take (mt_consumed mt) evs)
            = Inr (mt_consumed mt, st, reps) \<and> meter_ok j evs (fs_nodes st) mt)"

lemma meter_sync_split:
  "meter_sync j evs mt es = (mt', r) \<Longrightarrow>
     \<exists>fs gs. es = fs @ gs \<and> meter_sync j evs mt fs = (mt', None) \<and> (r = None \<longrightarrow> gs = [])"
proof (induction es arbitrary: mt)
  case Nil
  then show ?case by simp
next
  case (Cons e es)
  show ?case
  proof (cases "fold_meter_event j evs mt e")
    case (Inl x)
    with Cons.prems have "mt' = mt" "r = Some x" by auto
    then show ?thesis by (intro exI [of _ "[]"] exI [of _ "e # es"]) simp
  next
    case (Inr mt1)
    with Cons.prems have "meter_sync j evs mt1 es = (mt', r)" by simp
    from Cons.IH [OF this] obtain fs gs where "es = fs @ gs" "meter_sync j evs mt1 fs = (mt', None)"
      "r = None \<longrightarrow> gs = []" by blast
    with Inr show ?thesis by (intro exI [of _ "e # fs"] exI [of _ gs]) simp
  qed
qed

lemma meter_sync_ok_prefix:
  assumes "run_fold (surface_step evs 0) (k, st, reps) es = Inr (k', st', reps')"
    and "take (length es) (drop k evs) = es" and "meter_sync j evs mt es = (mt', None)"
    and "meter_ok j evs (fs_nodes st) mt"
  shows "meter_ok j evs (fs_nodes st') mt' \<and> mt_consumed mt' = mt_consumed mt + length es"
  using assms
proof (induction es arbitrary: k st reps mt)
  case Nil
  then show ?case by simp
next
  case (Cons e es)
  from Cons.prems(1) obtain k1 st1 reps1 where step: "surface_step evs 0 (k, st, reps) e = Inr (k1, st1, reps1)"
    and run: "run_fold (surface_step evs 0) (k1, st1, reps1) es = Inr (k', st', reps')"
    by (metis prod_cases3 run_fold_ConsE)
  from Cons.prems(3) obtain mt1 where m: "fold_meter_event j evs mt e = Inr mt1"
    and rest: "meter_sync j evs mt1 es = (mt', None)"
    by (auto split: sum.splits)
  have k: "k < length evs" using Cons.prems(2) by (cases "k < length evs") auto
  then have e: "evs ! k = e" and es: "take (length es) (drop (Suc k) evs) = es"
    using Cons.prems(2) by (simp_all add: Cons_nth_drop_Suc [symmetric])
  have cons: "mt_consumed mt1 = mt_consumed mt + 1" using m by (cases rule: fold_meter_event_cases)
  from Cons.IH [OF run _ rest meter_ok_step [OF step e m Cons.prems(4)]] surface_step_count [OF step] es cons
  show ?case by simp
qed

lemma meter_inv_read:
  assumes inv: "meter_inv j evs mt" and sy: "meter_sync j evs mt (drop (mt_consumed mt) evs) = (mt', r)"
  shows "meter_inv j evs mt' \<and> (r = None \<longrightarrow> mt_consumed mt' = length evs)"
proof -
  let ?c = "mt_consumed mt"
  from inv obtain st reps where acc: "log_accepted evs" and c: "?c \<le> length evs"
    and run: "run_fold (surface_step evs 0) (surface_start 0) (take ?c evs) = Inr (?c, st, reps)"
    and ok: "meter_ok j evs (fs_nodes st) mt" by (auto simp: meter_inv_def)
  from meter_sync_split [OF sy] obtain fs gs where split: "drop ?c evs = fs @ gs"
    and fs: "meter_sync j evs mt fs = (mt', None)" and r: "r = None \<longrightarrow> gs = []" by blast
  have evs: "evs = take ?c evs @ fs @ gs" using split append_take_drop_id [of ?c evs] by simp
  have len: "length evs = ?c + length fs + length gs" using arg_cong [OF evs, of length] c by simp
  from acc obtain t where "run_fold (surface_step evs 0) (surface_start 0) (take ?c evs @ fs @ gs) = Inr t"
    using evs by (auto simp: log_accepted_def)
  then have "run_fold (surface_step evs 0) (?c, st, reps) (fs @ gs) = Inr t"
    using run_fold_append_Inr [OF run] by simp
  then obtain u where "run_fold (surface_step evs 0) (?c, st, reps) fs = Inr u"
    by (rule run_fold_prefix)
  then obtain k' st' reps' where run2: "run_fold (surface_step evs 0) (?c, st, reps) fs = Inr (k', st', reps')"
    by (cases u) auto
  have tk: "take (length fs) (drop ?c evs) = fs" using split by simp
  from meter_sync_ok_prefix [OF run2 tk fs ok]
  have ok': "meter_ok j evs (fs_nodes st') mt'" and c': "mt_consumed mt' = ?c + length fs" by simp_all
  have take': "take (mt_consumed mt') evs = take ?c evs @ fs" using c' tk by (simp add: take_add)
  have whole: "run_fold (surface_step evs 0) (surface_start 0) (take (mt_consumed mt') evs) = Inr (k', st', reps')"
    unfolding take' run_fold_append_Inr [OF run] by (rule run2)
  from surface_inv_length [OF surf.run_inv [OF whole]] c' len have "k' = mt_consumed mt'" by simp
  with whole ok' acc c' len r show ?thesis unfolding meter_inv_def by auto
qed

lemma meter_ok_longer:
  assumes "meter_ok j evs ns mt" and "\<forall>n \<in> set ns. n < length evs"
  shows "meter_ok j (evs @ ds) ns mt"
proof -
  have "map (\<lambda>n. event_price j ((evs @ ds) ! n)) ns = map (\<lambda>n. event_price j (evs ! n)) ns"
    using assms(2) by (simp add: nth_append)
  then have "priced j (evs @ ds) ns = priced j evs ns" "surface_price j (evs @ ds) ns = surface_price j evs ns"
    using assms(2) by (auto simp: priced_def surface_price_def nth_append intro!: arg_cong [of _ _ sum_list])
  with assms(1) show ?thesis by (simp add: meter_ok_def)
qed

lemma meter_inv_grow:
  assumes "meter_inv j evs mt" and "log_accepted (evs @ ds)"
  shows "meter_inv j (evs @ ds) mt"
proof -
  from assms(1) obtain st reps where c: "mt_consumed mt \<le> length evs"
    and run: "run_fold (surface_step evs 0) (surface_start 0) (take (mt_consumed mt) evs) = Inr (mt_consumed mt, st, reps)"
    and ok: "meter_ok j evs (fs_nodes st) mt" by (auto simp: meter_inv_def)
  have "run_fold (surface_step (evs @ ds) 0) (surface_start 0) (take (mt_consumed mt) (evs @ ds))
      = Inr (mt_consumed mt, st, reps)"
    using run surface_run_append [of "take (mt_consumed mt) evs" evs ds 0] c by simp
  moreover have "\<forall>n \<in> set (fs_nodes st). n < length evs"
    using surface_inv_nodes(2) [OF surf.run_inv [OF run]] c by fastforce
  ultimately show ?thesis
    using meter_ok_longer [OF ok] assms(2) c unfolding meter_inv_def by auto
qed

lemma meter_run_inv: "meter_run j evs mt \<Longrightarrow> meter_inv j evs mt"
proof (induction rule: meter_run.induct)
  case started
  then show ?case by (simp add: meter_inv_def new_meter_state_def meter_ok_def create_fold_state_def)
next
  case (grown evs mt ds)
  from meter_inv_grow [OF grown.IH grown.hyps(2)] show ?case .
next
  case (read evs mt h)
  obtain mt' r where "meter_sync j evs mt (drop (mt_consumed mt) evs) = (mt', r)"
    by (cases "meter_sync j evs mt (drop (mt_consumed mt) evs)") auto
  with meter_inv_read [OF read.IH this] show ?case
    by (cases r) (simp_all add: meter_measure_def)
qed


lemma measured_surface:
  assumes "meter_run j evs mt" and "meter_measure j header mt evs = (mt', Inr m)"
  shows "\<exists>nodes reps. fold_surface evs = Inr (nodes, reps) \<and> me_nodes m = priced j evs nodes
     \<and> me_surface_tokens m = surface_price j evs nodes \<and> me_revision m = length evs"
proof -
  obtain r where sy: "meter_sync j evs mt (drop (mt_consumed mt) evs) = (mt', r)" and r: "r = None"
    and m: "m = measurement_of j header mt'"
    using assms(2) by (auto simp: meter_measure_def split: prod.splits option.splits)
  from meter_inv_read [OF meter_run_inv [OF assms(1)] sy] r
  have inv: "meter_inv j evs mt'" and c: "mt_consumed mt' = length evs" by simp_all
  then obtain st reps where run: "run_fold (surface_step evs 0) (surface_start 0) evs = Inr (length evs, st, reps)"
    and ok: "meter_ok j evs (fs_nodes st) mt'" by (auto simp: meter_inv_def)
  have "me_nodes m = mt_surface mt'" "me_surface_tokens m = mt_surface_tokens mt'"
    "me_revision m = mt_consumed mt'"
    by (simp_all add: m measurement_of_def Let_def split_beta)
  with run ok c show ?thesis by (simp add: fold_surface_def meter_ok_def)
qed

text \<open>
  C20: the priced nodes a measurement serves are the nodes of the session surface, in model-visible
  order, each at the price of its own message, and the surface total is the sum of those prices;
  after any reads and failed reads of the meter over the growing log.
\<close>

theorem measure_prices_the_surface:
  assumes "meter_run j evs mt" and "meter_measure j header mt evs = (mt', Inr m)"
  shows "\<exists>nodes reps. fold_surface evs = Inr (nodes, reps) \<and> me_nodes m = priced j evs nodes
     \<and> me_surface_tokens m = surface_price j evs nodes \<and> me_revision m = length evs"
  by (rule measured_surface [OF assms])

section \<open>The projection and the surface total\<close>

text \<open>Every replacement of a fully metered log follows the record of the price of what it replaces.\<close>

definition fully_metered ::
  "json_lengths \<Rightarrow> session_event list \<Rightarrow> surface_replacement list \<Rightarrow> bool" where
  "fully_metered j evs reps = list_all (\<lambda>r. 0 < rep_seq r
     \<and> metering_claim (evs ! (rep_seq r - 1))
         = Some \<lparr> cm_start = int (rep_start r), cm_end = int (rep_end r),
                  cm_tokens = surface_price j evs (rep_shadowed r) \<rparr>) reps"

definition pending_claim :: "session_event list \<Rightarrow> price_claim option" where
  "pending_claim es = (if es = [] then None else metering_claim (last es))"

lemma metering_not_surface: "metering_claim e = Some c \<Longrightarrow> \<not> is_surface_event e"
  by (auto simp: metering_claim_def is_surface_event_def is_surface_eligible_type_def surface_event_types_def
      split: event_data.splits if_splits)

lemma projection_step_ok:
  assumes step: "surface_step evs 0 (k, st, reps) e = Inr (k', st', reps')"
    and es: "take k evs = es" "length es = k" and e: "evs ! k = e"
    and metered: "fully_metered j evs reps'"
  shows "projection_step j (surface_price j evs (fs_nodes st), pending_claim es) e
    = Inr (surface_price j evs (fs_nodes st'), pending_claim (es @ [e]))"
proof (cases "is_surface_event e")
  case False
  then show ?thesis
    using surface_step_other(1) [OF step False]
    by (simp add: projection_step_def fold_surface_projection_def pending_claim_def split: option.split)
next
  case True
  have none: "metering_claim e = None" using True metering_not_surface by (cases "metering_claim e") auto
  from step obtain plan rep where plan: "plan_surface_event st e k evs 0 = Inr plan"
    and ap: "apply_surface_plan st plan = (st', rep)"
    and reps': "reps' = (case rep of None \<Rightarrow> reps | Some p \<Rightarrow> reps @ [p])"
    by (blast elim: surface_stepE)
  from plan show ?thesis
  proof (cases rule: plan_surface_eventE)
    case skip
    with True surface_op_of_None show ?thesis by blast
  next
    case append
    with ap e True none surface_op_of_append [OF append(2)] show ?thesis
      by (auto simp: projection_step_def fold_surface_projection_def pending_claim_def Let_def)
  next
    case (replace a b rg)
    note op = surface_op_of_replace [OF replace(2)] and rg = replacement_rangeD [OF replace(4)]
    have st': "fs_nodes st' = list_splice (rg_start_idx rg) (rg_end_idx rg - rg_start_idx rg + 1) [k] (fs_nodes st)"
      and r: "rep = Some \<lparr> rep_seq = k, rep_start = a, rep_end = b, rep_shadowed = rg_shadowed rg \<rparr>"
      using ap replace(1) by auto
    have n: "rg_end_idx rg + 1 - rg_start_idx rg = rg_end_idx rg - rg_start_idx rg + 1" using rg(1) by simp
    have bound: "rg_start_idx rg + (rg_end_idx rg - rg_start_idx rg + 1) \<le> length (fs_nodes st)"
      using rg(1,2) by simp
    have price: "surface_price j evs (fs_nodes st') = surface_price j evs (fs_nodes st) + int (event_price j e)
        - surface_price j evs (rg_shadowed rg)"
      unfolding st' surface_price_splice [OF bound] rg(3) n using e by simp
    from metered reps' r have k: "0 < k"
      and claim: "metering_claim (evs ! (k - 1)) = Some \<lparr> cm_start = int a, cm_end = int b,
        cm_tokens = surface_price j evs (rg_shadowed rg) \<rparr>"
      by (simp_all add: fully_metered_def)
    have "es \<noteq> []" using es(2) k by auto
    moreover have "last es = evs ! (k - 1)"
      using es k nth_take [of "k - 1" k evs] \<open>es \<noteq> []\<close> by (simp add: last_conv_nth)
    ultimately have pend: "pending_claim es = Some \<lparr> cm_start = int a, cm_end = int b,
        cm_tokens = surface_price j evs (rg_shadowed rg) \<rparr>"
      using claim by (simp add: pending_claim_def)
    show ?thesis
      unfolding pend price using True none op
      by (simp add: projection_step_def fold_surface_projection_def pending_claim_def Let_def)
  qed
qed

lemma projection_run_ok:
  assumes "run_fold (surface_step evs 0) (surface_start 0) es = Inr (k, st, reps)"
    and "es @ ds = evs" and "fully_metered j evs reps"
  shows "run_fold (projection_step j) (0, None) es = Inr (surface_price j evs (fs_nodes st), pending_claim es)"
  using assms
proof (induction es arbitrary: k st reps ds rule: rev_induct)
  case Nil
  then show ?case by (auto simp: create_fold_state_def pending_claim_def)
next
  case (snoc e es)
  from snoc.prems(1) obtain k1 st1 reps1 where
    run: "run_fold (surface_step evs 0) (surface_start 0) es = Inr (k1, st1, reps1)"
    and step: "surface_step evs 0 (k1, st1, reps1) e = Inr (k, st, reps)"
    by (auto simp: run_fold_snoc)
  have k1: "k1 = length es" using surface_inv_length [OF surf.run_inv [OF run]] by simp
  from step have "\<exists>zs. reps = reps1 @ zs" by (rule surface_stepE) (auto split: option.splits)
  then have m1: "fully_metered j evs reps1" using snoc.prems(3) by (auto simp: fully_metered_def)
  have IH: "run_fold (projection_step j) (0, None) es = Inr (surface_price j evs (fs_nodes st1), pending_claim es)"
    by (rule snoc.IH [OF run _ m1, of "e # ds"]) (use snoc.prems(2) in simp)
  have here: "take k1 evs = es" "length es = k1" "evs ! k1 = e"
    using k1 snoc.prems(2) by (auto simp: nth_append)
  from projection_step_ok [OF step here snoc.prems(3)] IH show ?case by (simp add: run_fold_snoc)
qed


lemma surface_run_reps:
  "run_fold (surface_step evs b) (k, st, reps) es = Inr (k', st', reps') \<Longrightarrow> \<exists>zs. reps' = reps @ zs"
proof (induction es arbitrary: k st reps)
  case Nil
  then show ?case by simp
next
  case (Cons e es)
  from Cons.prems obtain k1 st1 reps1 where step: "surface_step evs b (k, st, reps) e = Inr (k1, st1, reps1)"
    and run: "run_fold (surface_step evs b) (k1, st1, reps1) es = Inr (k', st', reps')"
    by (metis prod_cases3 run_fold_ConsE)
  from step have "\<exists>zs. reps1 = reps @ zs" by (rule surface_stepE) (auto split: option.splits)
  with Cons.IH [OF run] show ?case by auto
qed

definition sample_lengths :: json_lengths where
  "sample_lengths = \<lparr> jl_block = (\<lambda>_. 0), jl_tools = length \<rparr>"

definition metered_log :: "session_event list" where
  "metered_log =
     [make_event 0 1 (UserMessage (sample_user ''a'')) (Some op_append) None False,
      make_event 1 1 (UserMessage (sample_user ''b'')) (Some op_append) None False,
      make_event 2 1 (OtherEvent ''compaction/summary'' (JObj [
         (''shadowedRange'', JObj [(''start'', num_of 0), (''end'', num_of 1)]),
         (''shadowedTokenCount'', num_of (event_price sample_lengths (make_event 0 1 (UserMessage (sample_user ''a'')) (Some op_append) None False)
            + event_price sample_lengths (make_event 1 1 (UserMessage (sample_user ''b'')) (Some op_append) None False)))])) None None False,
      make_event 3 1 (UserMessage (sample_user ''c'')) (Some (op_replace 0 1)) (Some (seqs_json [0, 1])) False]"

definition metered_run :: surface_run where
  "metered_run = (case run_fold (surface_step metered_log 0) (0, create_fold_state, []) metered_log of
      Inr r \<Rightarrow> r | Inl _ \<Rightarrow> (0, create_fold_state, []))"

lemma metered_run_fold:
  "run_fold (surface_step metered_log 0) (0, create_fold_state, []) metered_log
     = Inr (4, fst (snd metered_run), snd (snd metered_run))"
  by code_simp

theorem measure_prices_the_surface_witness:
  "\<exists>nodes reps. fold_surface metered_log = Inr (nodes, reps)
     \<and> snd (meter_measure sample_lengths None new_meter_state metered_log)
         = Inr (measurement_of sample_lengths None (fst (meter_measure sample_lengths None new_meter_state metered_log)))
     \<and> me_nodes (measurement_of sample_lengths None (fst (meter_measure sample_lengths None new_meter_state metered_log)))
         = priced sample_lengths metered_log nodes"
proof -
  let ?m = "meter_measure sample_lengths None new_meter_state metered_log"
  have run: "meter_run sample_lengths ([] @ metered_log) new_meter_state"
    using metered_run_fold by (intro meter_run.grown meter_run.started) (auto simp: log_accepted_def)
  have ok: "is_ok (snd ?m)" by code_simp
  have "meter_measure sample_lengths None new_meter_state metered_log = (fst ?m, Inr (measurement_of sample_lengths None (fst ?m)))"
    using ok by (auto simp: meter_measure_def is_ok_def split: prod.splits option.splits)
  then have snd: "snd ?m = Inr (measurement_of sample_lengths None (fst ?m))" by (metis snd_conv)
  from measure_prices_the_surface [OF _ \<open>?m = _\<close>] run obtain nodes reps
    where "fold_surface metered_log = Inr (nodes, reps)"
      and "me_nodes (measurement_of sample_lengths None (fst ?m)) = priced sample_lengths metered_log nodes"
    by auto
  with snd show ?thesis by blast
qed

end
