(* ===== verification/Token_Projection.thy ===== *)
theory Token_Projection
  imports Token_Meter
begin

text \<open>
  The three session projections of the token meter: cumulative provider usage and context pressure
  (\<^verbatim>\<open>packages/llm/token-meter/src/usage-projection.ts\<close>) and the composition of the next request
  (\<^verbatim>\<open>breakdown-projection.ts\<close>). The lemmas show that usage counts each step once, with its last
  report, that the composition agrees with the meter, and what the projected pressure adds to the
  provider's figure.
\<close>

section \<open>Cumulative usage\<close>

record usage_buckets =
  ub_input :: int
  ub_output :: int
  ub_cache_read :: int
  ub_cache_write :: int

definition zero_buckets :: usage_buckets where
  "zero_buckets = \<lparr> ub_input = 0, ub_output = 0, ub_cache_read = 0, ub_cache_write = 0 \<rparr>"

definition buckets_from :: "token_usage \<Rightarrow> usage_buckets" where
  "buckets_from u = \<lparr> ub_input = input_tokens u, ub_output = output_tokens u,
     ub_cache_read = (case cache_read_tokens u of Some n \<Rightarrow> n | None \<Rightarrow> 0),
     ub_cache_write = (case cache_write_tokens u of Some n \<Rightarrow> n | None \<Rightarrow> 0) \<rparr>"

definition buckets_equal :: "usage_buckets \<Rightarrow> usage_buckets \<Rightarrow> bool" where
  "buckets_equal a b \<longleftrightarrow> ub_input a = ub_input b \<and> ub_output a = ub_output b
     \<and> ub_cache_read a = ub_cache_read b \<and> ub_cache_write a = ub_cache_write b"

definition add_replacing :: "usage_buckets \<Rightarrow> usage_buckets option \<Rightarrow> usage_buckets \<Rightarrow> usage_buckets" where
  "add_replacing totals previous next =
     (let old = (\<lambda>f. case previous of Some b \<Rightarrow> f b | None \<Rightarrow> 0) in
      \<lparr> ub_input = ub_input totals - old ub_input + ub_input next,
        ub_output = ub_output totals - old ub_output + ub_output next,
        ub_cache_read = ub_cache_read totals - old ub_cache_read + ub_cache_read next,
        ub_cache_write = ub_cache_write totals - old ub_cache_write + ub_cache_write next \<rparr>)"

record usage_state =
  us_totals :: usage_buckets
  us_last :: "((int \<times> int) \<times> usage_buckets) option"

definition usage_init :: usage_state where
  "usage_init = \<lparr> us_totals = zero_buckets, us_last = None \<rparr>"

definition usage_report :: "session_event \<Rightarrow> ((int \<times> int) \<times> token_usage) option" where
  "usage_report e = (case ev_data e of
       AssistantChunk turn step (UsageChunk u) \<Rightarrow> Some ((turn, step), u)
     | AssistantMessage turn step _ (Some u) \<Rightarrow> Some ((turn, step), u)
     | _ \<Rightarrow> None)"

definition usage_apply :: "usage_state \<Rightarrow> session_event \<Rightarrow> usage_state" where
  "usage_apply st e = (case usage_report e of
       None \<Rightarrow> st
     | Some (key, u) \<Rightarrow>
         let buckets = buckets_from u;
             previous = (case us_last st of Some (k, b) \<Rightarrow> if k = key then Some b else None | None \<Rightarrow> None)
         in if (case previous of Some b \<Rightarrow> buckets_equal b buckets | None \<Rightarrow> False) then st
            else \<lparr> us_totals = add_replacing (us_totals st) previous buckets, us_last = Some (key, buckets) \<rparr>)"

section \<open>Context pressure\<close>

definition pressure_from :: "token_usage \<Rightarrow> int" where
  "pressure_from u = input_tokens u + (case cache_read_tokens u of Some n \<Rightarrow> n | None \<Rightarrow> 0)
     + (case cache_write_tokens u of Some n \<Rightarrow> n | None \<Rightarrow> 0)"

definition usage_of :: "session_event \<Rightarrow> token_usage option" where
  "usage_of e = (case ev_data e of
       AssistantChunk _ _ (UsageChunk u) \<Rightarrow> Some u
     | AssistantMessage _ _ _ u \<Rightarrow> u
     | _ \<Rightarrow> None)"

record pressure_state =
  ps_window :: "int option"
  ps_pressure :: "int option"
  ps_surface :: int
  ps_sampled :: "int option"
  ps_claim :: "price_claim option"

definition pressure_init :: pressure_state where
  "pressure_init = \<lparr> ps_window = None, ps_pressure = None, ps_surface = 0, ps_sampled = None, ps_claim = None \<rparr>"

definition pressure_apply :: "json_lengths \<Rightarrow> pressure_state \<Rightarrow> session_event \<Rightarrow> meter_error + pressure_state" where
  "pressure_apply j st e = bind_res (fold_surface_projection j (ps_claim st) e) (\<lambda>(d, claim).
     let st1 = (case ev_data e of RequestContext c \<Rightarrow> st\<lparr> ps_window := rc_context_window c \<rparr> | _ \<Rightarrow> st);
         st2 = (case usage_of e of
             None \<Rightarrow> st1
           | Some u \<Rightarrow>
               if ps_pressure st1 \<noteq> Some (pressure_from u) \<or> ps_sampled st1 \<noteq> Some (ps_surface st1)
               then st1\<lparr> ps_pressure := Some (pressure_from u), ps_sampled := Some (ps_surface st1) \<rparr>
               else st1);
         st3 = (if d \<noteq> 0 then st2\<lparr> ps_surface := ps_surface st2 + d \<rparr> else st2)
     in Inr (st3\<lparr> ps_claim := claim \<rparr>))"

definition projected_tokens :: "pressure_state \<Rightarrow> int option" where
  "projected_tokens st = (case (ps_pressure st, ps_sampled st) of
       (Some p, Some sampled) \<Rightarrow> Some (max 0 (p + ps_surface st - sampled))
     | _ \<Rightarrow> None)"

section \<open>Composition of the next request\<close>

record breakdown_state =
  bd_system :: nat
  bd_tools :: nat
  bd_messages :: int
  bd_claim :: "price_claim option"

definition breakdown_init :: breakdown_state where
  "breakdown_init = \<lparr> bd_system = 0, bd_tools = 0, bd_messages = 0, bd_claim = None \<rparr>"

definition breakdown_apply :: "json_lengths \<Rightarrow> breakdown_state \<Rightarrow> session_event \<Rightarrow> meter_error + breakdown_state" where
  "breakdown_apply j st e = bind_res (fold_surface_projection j (bd_claim st) e) (\<lambda>(d, claim).
     let system = (case ev_data e of
             RequestHeader h _ \<Rightarrow> estimate_system_tokens (Some (canonical_header h)) | _ \<Rightarrow> bd_system st);
         tools = (case ev_data e of
             RequestHeader h _ \<Rightarrow> estimate_tools_tokens j (Some (canonical_header h)) | _ \<Rightarrow> bd_tools st)
     in if system = bd_system st \<and> tools = bd_tools st \<and> d = 0 \<and> claim = None \<and> bd_claim st = None then Inr st
        else Inr \<lparr> bd_system = system, bd_tools = tools, bd_messages = bd_messages st + d, bd_claim = claim \<rparr>)"

section \<open>Each step is counted once\<close>

definition usage_samples :: "session_event list \<Rightarrow> ((int \<times> int) \<times> usage_buckets) list" where
  "usage_samples es = List.map_filter (\<lambda>e. map_option (\<lambda>(k, u). (k, buckets_from u)) (usage_report e)) es"

definition last_report :: "((int \<times> int) \<times> usage_buckets) list \<Rightarrow> (int \<times> int) \<Rightarrow> usage_buckets" where
  "last_report ss k = (case map_of (rev ss) k of Some b \<Rightarrow> b | None \<Rightarrow> zero_buckets)"

text \<open>The reports of one step are adjacent: no step reports again after another one has.\<close>

definition reports_adjacent :: "((int \<times> int) \<times> usage_buckets) list \<Rightarrow> bool" where
  "reports_adjacent ss = distinct (remdups_adj (map fst ss))"

definition bucket_fields :: "(usage_buckets \<Rightarrow> int) list" where
  "bucket_fields = [ub_input, ub_output, ub_cache_read, ub_cache_write]"

lemma add_replacing_field:
  "f \<in> set bucket_fields \<Longrightarrow>
     f (add_replacing t p b) = f t - (case p of Some q \<Rightarrow> f q | None \<Rightarrow> 0) + f b"
  by (auto simp: bucket_fields_def add_replacing_def Let_def)

lemma buckets_equal_iff [simp]: "buckets_equal a b \<longleftrightarrow> a = b"
  by (auto simp: buckets_equal_def)

lemma reports_adjacent_snoc:
  assumes "reports_adjacent (ss @ [(k, b)])"
  shows "reports_adjacent ss"
    and "ss \<noteq> [] \<Longrightarrow> fst (last ss) \<noteq> k \<Longrightarrow> k \<notin> fst ` set ss"
proof -
  have "reports_adjacent ss \<and> (ss \<noteq> [] \<longrightarrow> fst (last ss) \<noteq> k \<longrightarrow> k \<notin> fst ` set ss)"
  proof (cases ss rule: rev_cases)
    case Nil
    then show ?thesis by (simp add: reports_adjacent_def)
  next
    case (snoc zs z)
    have "remdups_adj (map fst zs @ [fst z, k]) = remdups_adj (map fst zs @ [fst z]) @ (if fst z = k then [] else [k])"
      by (rule remdups_adj_append_two)
    moreover have "set (remdups_adj (map fst zs @ [fst z])) = fst ` set ss"
      unfolding remdups_adj_set using snoc by auto
    ultimately show ?thesis
      using assms snoc by (auto simp: reports_adjacent_def split: if_splits)
  qed
  then show "reports_adjacent ss" "ss \<noteq> [] \<Longrightarrow> fst (last ss) \<noteq> k \<Longrightarrow> k \<notin> fst ` set ss" by blast+
qed

definition usage_total :: "(usage_buckets \<Rightarrow> int) \<Rightarrow> ((int \<times> int) \<times> usage_buckets) list \<Rightarrow> int" where
  "usage_total f ss = (\<Sum>k \<in> fst ` set ss. f (last_report ss k))"

lemma usage_total_snoc_new:
  assumes "k \<notin> fst ` set ss"
  shows "usage_total f (ss @ [(k, b)]) = usage_total f ss + f b"
proof -
  have "(\<Sum>x \<in> fst ` set ss. f (last_report (ss @ [(k, b)]) x)) = usage_total f ss"
    unfolding usage_total_def by (rule sum.cong) (use assms in \<open>auto simp: last_report_def\<close>)
  with assms show ?thesis by (simp add: usage_total_def last_report_def)
qed

lemma usage_total_snoc_old:
  assumes "k \<in> fst ` set ss"
  shows "usage_total f (ss @ [(k, b)]) = usage_total f ss - f (last_report ss k) + f b"
proof -
  let ?K = "fst ` set ss"
  have "(\<Sum>x \<in> ?K - {k}. f (last_report (ss @ [(k, b)]) x)) = (\<Sum>x \<in> ?K - {k}. f (last_report ss x))"
    by (rule sum.cong) (auto simp: last_report_def)
  moreover have "fst ` set (ss @ [(k, b)]) = ?K" using assms by auto
  moreover have "last_report (ss @ [(k, b)]) k = b" by (simp add: last_report_def)
  ultimately show ?thesis
    using sum.remove [OF _ assms, of "\<lambda>x. f (last_report (ss @ [(k, b)]) x)"]
      sum.remove [OF _ assms, of "\<lambda>x. f (last_report ss x)"]
    by (simp add: usage_total_def)
qed

lemma last_report_last: "ss \<noteq> [] \<Longrightarrow> last_report ss (fst (last ss)) = snd (last ss)"
  by (cases ss rule: rev_cases) (auto simp: last_report_def)

definition usage_inv :: "session_event list \<Rightarrow> usage_state \<Rightarrow> bool" where
  "usage_inv es st \<longleftrightarrow> (\<forall>f \<in> set bucket_fields. f (us_totals st) = usage_total f (usage_samples es))
     \<and> us_last st = (if usage_samples es = [] then None else Some (last (usage_samples es)))"

lemma usage_samples_snoc:
  "usage_samples (es @ [e]) = usage_samples es
     @ (case usage_report e of None \<Rightarrow> [] | Some (k, u) \<Rightarrow> [(k, buckets_from u)])"
  by (auto simp: usage_samples_def map_filter_snoc split: option.splits)

lemma usage_apply_inv:
  assumes inv: "usage_inv es st" and adj: "reports_adjacent (usage_samples (es @ [e]))"
  shows "usage_inv (es @ [e]) (usage_apply st e)"
proof (cases "usage_report e")
  case None
  with inv show ?thesis by (simp add: usage_inv_def usage_apply_def usage_samples_snoc)
next
  case (Some r)
  obtain k u where r: "r = (k, u)" by (cases r)
  let ?ss = "usage_samples es" and ?b = "buckets_from u"
  have snoc: "usage_samples (es @ [e]) = ?ss @ [(k, ?b)]" using Some r by (simp add: usage_samples_snoc)
  note adj2 = reports_adjacent_snoc [OF adj [unfolded snoc]]
  show ?thesis
  proof (cases "?ss \<noteq> [] \<and> fst (last ?ss) = k")
    case True
    then have kin: "k \<in> fst ` set ?ss" by (metis image_eqI last_in_set)
    obtain b0 where b0: "last ?ss = (k, b0)" using True by (metis prod.collapse)
    have old: "last_report ?ss k = b0" using last_report_last [of ?ss] True unfolding b0 by simp
    have "us_last st = Some (last ?ss)" using inv True by (simp add: usage_inv_def)
    then have last: "us_last st = Some (k, b0)" unfolding b0 .
    have ap: "usage_apply st e = (if b0 = ?b then st
        else \<lparr> us_totals = add_replacing (us_totals st) (Some b0) ?b, us_last = Some (k, ?b) \<rparr>)"
      unfolding usage_apply_def Some r last by (simp add: Let_def)
    have tot: "f (us_totals st) = usage_total f ?ss" if "f \<in> set bucket_fields" for f
      using inv that by (simp add: usage_inv_def)
    have "f (us_totals (usage_apply st e)) = usage_total f (?ss @ [(k, ?b)])" if "f \<in> set bucket_fields" for f
      unfolding ap usage_total_snoc_old [OF kin] old using tot [OF that] add_replacing_field [OF that] by simp
    moreover have "us_last (usage_apply st e) = Some (k, ?b)" unfolding ap using last by simp
    ultimately show ?thesis unfolding usage_inv_def snoc by simp
  next
    case False
    then have kout: "k \<notin> fst ` set ?ss" using adj2(2) by (cases "?ss = []") simp_all
    have "(case us_last st of Some (k', b) \<Rightarrow> if k' = k then Some b else None | None \<Rightarrow> None) = None"
      using inv False by (auto simp: usage_inv_def split: prod.splits)
    then show ?thesis
      unfolding usage_inv_def snoc usage_total_snoc_new [OF kout]
      using inv Some r
      by (auto simp: usage_inv_def usage_apply_def Let_def add_replacing_field)
  qed
qed

lemma usage_run_inv: "reports_adjacent (usage_samples es) \<Longrightarrow> usage_inv es (foldl usage_apply usage_init es)"
proof (induction es rule: rev_induct)
  case Nil
  then show ?case
    by (auto simp: usage_inv_def usage_init_def usage_samples_def map_filter_def usage_total_def
        bucket_fields_def zero_buckets_def)
next
  case (snoc e es)
  have "reports_adjacent (usage_samples es)"
    using snoc.prems reports_adjacent_snoc(1)
    by (auto simp: usage_samples_snoc split: option.splits)
  with snoc.IH usage_apply_inv [OF _ snoc.prems] show ?case by simp
qed


text \<open>
  When the usage reports of each step are adjacent in the log, every bucket of the cumulative
  usage is the sum, over the steps that reported, of the last report of the step: an early chunk
  sample is replaced by the final one and never counted beside it.
\<close>

theorem usage_counts_steps_once:
  assumes "reports_adjacent (usage_samples evs)" and "f \<in> set bucket_fields"
  shows "f (us_totals (foldl usage_apply usage_init evs))
    = (\<Sum>k \<in> fst ` set (usage_samples evs). f (last_report (usage_samples evs) k))"
  using usage_run_inv [OF assms(1)] assms(2) by (simp add: usage_inv_def usage_total_def)

definition usage_log :: "session_event list" where
  "usage_log =
     (let u = (\<lambda>i out. \<lparr> input_tokens = i, output_tokens = out, cache_read_tokens = None,
                cache_write_tokens = Some 2, reasoning_tokens = None \<rparr>);
          chunk = (\<lambda>n s i out. make_event n 1 (AssistantChunk 1 s (UsageChunk (u i out))) None None False)
      in [chunk 0 1 10 1, chunk 1 1 10 7, chunk 2 2 20 3])"

theorem usage_counts_steps_once_witness:
  "ub_output (us_totals (foldl usage_apply usage_init usage_log)) = 10"
proof -
  have adj: "reports_adjacent (usage_samples usage_log)" by code_simp
  have keys: "fst ` set (usage_samples usage_log) = {(1, 1), (1, 2)}" by code_simp
  have "last_report (usage_samples usage_log) (1, 1) = \<lparr> ub_input = 10, ub_output = 7, ub_cache_read = 0, ub_cache_write = 2 \<rparr>"
    "last_report (usage_samples usage_log) (1, 2) = \<lparr> ub_input = 20, ub_output = 3, ub_cache_read = 0, ub_cache_write = 2 \<rparr>"
    by code_simp+
  then show ?thesis
    using usage_counts_steps_once [OF adj, of ub_output] by (simp add: keys bucket_fields_def)
qed

section \<open>Composition and pressure ride the surface projection\<close>

lemma fold_surface_projection_step:
  "projection_step j (n, c) e = Inr r \<Longrightarrow> \<exists>d. fold_surface_projection j c e = Inr (d, snd r) \<and> fst r = n + d"
  by (auto simp: projection_step_def)

lemma breakdown_run:
  assumes "run_fold (projection_step j) (n, c) es = Inr (n', c')"
    and "bd_messages b = n" and "bd_claim b = c"
    and "bd_system b = estimate_system_tokens h" and "bd_tools b = estimate_tools_tokens j h"
  shows "\<exists>b'. run_fold (breakdown_apply j) b es = Inr b' \<and> bd_messages b' = n' \<and> bd_claim b' = c'
     \<and> bd_system b' = estimate_system_tokens (fold_request_header es h)
     \<and> bd_tools b' = estimate_tools_tokens j (fold_request_header es h)"
  using assms
proof (induction es arbitrary: n c b h)
  case Nil
  then show ?case by (simp add: fold_request_header_def)
next
  case (Cons e es)
  from Cons.prems(1) obtain n1 c1 where st: "projection_step j (n, c) e = Inr (n1, c1)"
    and run: "run_fold (projection_step j) (n1, c1) es = Inr (n', c')"
    by (metis surj_pair run_fold_ConsE)
  from fold_surface_projection_step [OF st] obtain d where
    d: "fold_surface_projection j c e = Inr (d, c1)" "n1 = n + d" by auto
  have "\<exists>b1. breakdown_apply j b e = Inr b1 \<and> bd_messages b1 = n1 \<and> bd_claim b1 = c1
      \<and> bd_system b1 = estimate_system_tokens (header_step h e)
      \<and> bd_tools b1 = estimate_tools_tokens j (header_step h e)"
    using d Cons.prems(2-5)
    by (auto simp: breakdown_apply_def Let_def header_step_def split: event_data.split)
  then obtain b1 where b1: "breakdown_apply j b e = Inr b1" "bd_messages b1 = n1" "bd_claim b1 = c1"
      "bd_system b1 = estimate_system_tokens (header_step h e)"
      "bd_tools b1 = estimate_tools_tokens j (header_step h e)" by blast
  from Cons.IH [OF run b1(2-5)] b1(1) show ?case by (simp add: fold_request_header_def)
qed

text \<open>
  On a log whose replacements each follow the record of the price of what they replace, the
  composition projection never fails, its message figure is the surface total the meter measures
  however the meter was read before, and its prompt and schema figures are the prices of the replayed
  request header, although its state keeps no node.
\<close>

theorem breakdown_matches_meter:
  assumes "meter_run j evs mt" and "meter_measure j header mt evs = (mt', Inr m)"
    and "fold_surface evs = Inr (nodes, reps)" and "fully_metered j evs reps"
  shows "\<exists>b. run_fold (breakdown_apply j) breakdown_init evs = Inr b \<and> bd_messages b = me_surface_tokens m
     \<and> bd_system b = estimate_system_tokens (fold_request_header evs None)
     \<and> bd_tools b = estimate_tools_tokens j (fold_request_header evs None)"
proof -
  from assms(3) obtain k st where run: "run_fold (surface_step evs 0) (surface_start 0) evs = Inr (k, st, reps)"
    and nodes: "fs_nodes st = nodes" by (auto simp: fold_surface_def)
  have "me_surface_tokens m = surface_price j evs nodes"
    using measured_surface [OF assms(1,2)] assms(3) by auto
  with projection_run_ok [OF run _ assms(4), of "[]"] nodes
  have "run_fold (projection_step j) (0, None) evs = Inr (me_surface_tokens m, pending_claim evs)" by simp
  from breakdown_run [OF this, of breakdown_init None] show ?thesis
    by (auto simp: breakdown_init_def estimate_system_tokens_def estimate_tools_tokens_def)
qed

theorem breakdown_matches_meter_witness:
  "\<exists>b m. run_fold (breakdown_apply sample_lengths) breakdown_init metered_log = Inr b
     \<and> snd (meter_measure sample_lengths None new_meter_state metered_log) = Inr m
     \<and> bd_messages b = me_surface_tokens m"
proof -
  let ?m = "meter_measure sample_lengths None new_meter_state metered_log"
  have run: "meter_run sample_lengths ([] @ metered_log) new_meter_state"
    using metered_run_fold by (intro meter_run.grown meter_run.started) (auto simp: log_accepted_def)
  have "is_ok (snd ?m)" by code_simp
  then obtain m where m: "?m = (fst ?m, Inr m)" by (metis is_ok_iff prod.collapse)
  have f: "fold_surface metered_log = Inr (fs_nodes (fst (snd metered_run)), snd (snd metered_run))"
    using metered_run_fold by (simp add: fold_surface_def split_beta)
  have "fully_metered sample_lengths metered_log (snd (snd metered_run))" by code_simp
  from breakdown_matches_meter [OF _ m f this] run m show ?thesis by (metis append_Nil snd_conv)
qed

lemma pressure_step:
  assumes "projection_step j (n, c) e = Inr (n', c')" and "ps_surface p = n" and "ps_claim p = c"
  obtains p' where "pressure_apply j p e = Inr p'" and "ps_surface p' = n'" and "ps_claim p' = c'"
    and "ps_pressure p' = (case usage_of e of Some u \<Rightarrow> Some (pressure_from u) | None \<Rightarrow> ps_pressure p)"
    and "ps_sampled p' = (case usage_of e of Some u \<Rightarrow> Some n | None \<Rightarrow> ps_sampled p)"
proof -
  from fold_surface_projection_step [OF assms(1)] obtain d where
    d: "fold_surface_projection j c e = Inr (d, c')" "n' = n + d" by auto
  have "\<exists>p'. pressure_apply j p e = Inr p' \<and> ps_surface p' = n' \<and> ps_claim p' = c'
    \<and> ps_pressure p' = (case usage_of e of Some u \<Rightarrow> Some (pressure_from u) | None \<Rightarrow> ps_pressure p)
    \<and> ps_sampled p' = (case usage_of e of Some u \<Rightarrow> Some n | None \<Rightarrow> ps_sampled p)"
    using d assms(2,3) by (auto simp: pressure_apply_def Let_def split: event_data.split option.split)
  with that show thesis by blast
qed


lemma pressure_run:
  assumes "run_fold (projection_step j) (n, c) es = Inr (n', c')" and "ps_surface p = n" and "ps_claim p = c"
  shows "\<exists>p'. run_fold (pressure_apply j) p es = Inr p' \<and> ps_surface p' = n' \<and> ps_claim p' = c'
     \<and> ((\<forall>e \<in> set es. usage_of e = None) \<longrightarrow> ps_pressure p' = ps_pressure p \<and> ps_sampled p' = ps_sampled p)"
  using assms
proof (induction es arbitrary: n c p)
  case Nil
  then show ?case by simp
next
  case (Cons e es)
  from Cons.prems(1) obtain n1 c1 where st: "projection_step j (n, c) e = Inr (n1, c1)"
    and run: "run_fold (projection_step j) (n1, c1) es = Inr (n', c')"
    by (metis surj_pair run_fold_ConsE)
  obtain p1 where p1: "pressure_apply j p e = Inr p1" "ps_surface p1 = n1" "ps_claim p1 = c1"
    "ps_pressure p1 = (case usage_of e of Some u \<Rightarrow> Some (pressure_from u) | None \<Rightarrow> ps_pressure p)"
    "ps_sampled p1 = (case usage_of e of Some u \<Rightarrow> Some n | None \<Rightarrow> ps_sampled p)"
    using pressure_step [OF st Cons.prems(2,3)] .
  from Cons.IH [OF run p1(2,3)] p1 show ?case by auto
qed

text \<open>
  With the last usage report at one event of a fully metered log, the projected prompt is the
  provider's figure plus the price of the surface now less the price of the surface before that
  event, never below zero; later messages and compactions move it by exactly what they add and shadow.
\<close>

theorem projected_pressure:
  assumes "fold_surface (es @ e # ds) = Inr (nodes, reps)"
    and "fully_metered j (es @ e # ds) reps"
    and "run_fold (surface_step (es @ e # ds) 0) (0, create_fold_state, []) es = Inr (k, before, reps0)"
    and "usage_of e = Some u" and "list_all (\<lambda>d. usage_of d = None) ds"
  shows "\<exists>p. run_fold (pressure_apply j) pressure_init (es @ e # ds) = Inr p
     \<and> projected_tokens p = Some (max 0 (pressure_from u + surface_price j (es @ e # ds) nodes
          - surface_price j (es @ e # ds) (fs_nodes before)))"
proof -
  let ?evs = "es @ e # ds"
  from assms(1) obtain k' st where run: "run_fold (surface_step ?evs 0) (surface_start 0) ?evs = Inr (k', st, reps)"
    and nodes: "fs_nodes st = nodes" by (auto simp: fold_surface_def)
  have whole: "run_fold (projection_step j) (0, None) ?evs = Inr (surface_price j ?evs nodes, pending_claim ?evs)"
    using projection_run_ok [OF run _ assms(2), of "[]"] nodes by simp
  have "\<exists>zs. reps = reps0 @ zs"
    using run surface_run_reps run_fold_append_Inr [OF assms(3), of "e # ds"] by metis
  then have "fully_metered j ?evs reps0" using assms(2) by (auto simp: fully_metered_def)
  with projection_run_ok [OF assms(3), of "e # ds"]
  have first: "run_fold (projection_step j) (0, None) es = Inr (surface_price j ?evs (fs_nodes before), pending_claim es)"
    by simp
  let ?n = "surface_price j ?evs (fs_nodes before)" and ?c = "pending_claim es"
  have "run_fold (projection_step j) (?n, ?c) (e # ds) = Inr (surface_price j ?evs nodes, pending_claim ?evs)"
    using whole run_fold_append_Inr [OF first, of "e # ds"] by simp
  then obtain n1 c1 where st: "projection_step j (?n, ?c) e = Inr (n1, c1)"
    and rest: "run_fold (projection_step j) (n1, c1) ds = Inr (surface_price j ?evs nodes, pending_claim ?evs)"
    by (metis surj_pair run_fold_ConsE)
  obtain p where p: "run_fold (pressure_apply j) pressure_init es = Inr p" "ps_surface p = ?n" "ps_claim p = ?c"
    using pressure_run [OF first, of pressure_init] by (auto simp: pressure_init_def)
  obtain p1 where p1: "pressure_apply j p e = Inr p1" "ps_surface p1 = n1" "ps_claim p1 = c1"
    "ps_pressure p1 = Some (pressure_from u)" "ps_sampled p1 = Some ?n"
    by (rule pressure_step [OF st p(2,3)]) (simp add: assms(4))
  obtain p2 where p2: "run_fold (pressure_apply j) p1 ds = Inr p2" "ps_surface p2 = surface_price j ?evs nodes"
    "ps_pressure p2 = Some (pressure_from u)" "ps_sampled p2 = Some ?n"
    using pressure_run [OF rest p1(2,3)] assms(5) p1(4,5) by (auto simp: list_all_iff)
  have "run_fold (pressure_apply j) pressure_init ?evs = Inr p2"
    using p(1) p1(1) p2(1) by (simp add: run_fold_append)
  with p2 show ?thesis by (simp add: projected_tokens_def)
qed

definition usage_event :: session_event where
  "usage_event = make_event 1 1 (AssistantChunk 1 1 (UsageChunk
     \<lparr> input_tokens = 100, output_tokens = 5, cache_read_tokens = Some 20, cache_write_tokens = None,
       reasoning_tokens = None \<rparr>)) None None False"

definition pressure_log :: "session_event list" where
  "pressure_log = [make_event 0 1 (UserMessage (sample_user ''a'')) (Some op_append) None False, usage_event,
     make_event 2 1 (UserMessage (sample_user ''b'')) (Some op_append) None False]"

theorem projected_pressure_witness:
  "\<exists>p. run_fold (pressure_apply sample_lengths) pressure_init pressure_log = Inr p
     \<and> projected_tokens p = Some (max 0 (120 + surface_price sample_lengths pressure_log [0, 2]
          - surface_price sample_lengths pressure_log [0]))"
proof -
  have split: "pressure_log = [hd pressure_log] @ usage_event # [last pressure_log]"
    by (simp add: pressure_log_def)
  have f: "fold_surface ([hd pressure_log] @ usage_event # [last pressure_log]) = Inr ([0, 2], [])" by code_simp
  have m: "fully_metered sample_lengths ([hd pressure_log] @ usage_event # [last pressure_log]) []"
    by (simp add: fully_metered_def)
  have s: "run_fold (surface_step ([hd pressure_log] @ usage_event # [last pressure_log]) 0) (0, create_fold_state, []) [hd pressure_log]
      = Inr (1, \<lparr> fs_nodes = [0], fs_generation = 0 \<rparr>, [])" by code_simp
  have u: "usage_of usage_event = Some \<lparr> input_tokens = 100, output_tokens = 5, cache_read_tokens = Some 20,
      cache_write_tokens = None, reasoning_tokens = None \<rparr>" by code_simp
  have d: "list_all (\<lambda>d. usage_of d = None) [last pressure_log]" by code_simp
  from projected_pressure [OF f m s u d] show ?thesis
    unfolding split [symmetric] by (simp add: pressure_from_def)
qed

end
