(* ===== verification/Log_Append.thy ===== *)
theory Log_Append
  imports Session_Run
begin

text \<open>
  What one accepted append does to the surface of a session: a record off the surface leaves the nodes,
  an appended message adds its position, a replacement puts its position in the place of the range it
  cites. The services that rewrite history by a few appends rest on these lemmas.
\<close>

section \<open>The folded log\<close>

definition folded :: "session_event list \<Rightarrow> fold_state \<Rightarrow> surface_replacement list \<Rightarrow> bool" where
  "folded evs st reps \<longleftrightarrow> run_fold (surface_step evs 0) (surface_start 0) evs = Inr (length evs, st, reps)"

lemma folded_fold_surface: "folded evs st reps \<Longrightarrow> fold_surface evs = Inr (fs_nodes st, reps)"
  by (simp add: folded_def fold_surface_def)

lemma fold_surface_folded:
  assumes "fold_surface evs = Inr (nodes, reps)"
  obtains st where "folded evs st reps" and "fs_nodes st = nodes"
proof -
  from assms obtain k st where run: "run_fold (surface_step evs 0) (surface_start 0) evs = Inr (k, st, reps)"
    and n: "fs_nodes st = nodes" by (auto simp: fold_surface_def)
  moreover have "k = length evs" using surface_inv_length [OF surf.run_inv [OF run]] by simp
  ultimately show thesis using that by (simp add: folded_def)
qed

lemma session_ok_folded:
  assumes "session_ok s"
  obtains st reps where "folded (ses_log s) st reps"
proof -
  from assms obtain r where "run_fold (surface_step (ses_log s) 0) (surface_start 0) (ses_log s) = Inr r"
    by (auto simp: session_ok_def log_accepted_def)
  then obtain nodes reps where "fold_surface (ses_log s) = Inr (nodes, reps)"
    by (cases r) (auto simp: fold_surface_def)
  then obtain st where "folded (ses_log s) st reps" by (rule fold_surface_folded)
  with that show thesis .
qed

lemma folded_unique: "folded evs st reps \<Longrightarrow> folded evs st' reps' \<Longrightarrow> st' = st \<and> reps' = reps"
  by (simp add: folded_def)

lemma folded_accepted: "folded evs st reps \<Longrightarrow> log_accepted evs"
  by (auto simp: folded_def log_accepted_def)

lemma folded_nodes:
  assumes "folded evs st reps" and "n \<in> set (fs_nodes st)"
  shows "n < length evs" and "ev_seq (evs ! n) = n" and "is_surface_event (evs ! n)"
  using surface_inv_nodes [OF surf.run_inv [OF assms(1) [unfolded folded_def]] assms(2)] by simp_all

lemma folded_distinct: "folded evs st reps \<Longrightarrow> distinct (fs_nodes st)"
  using surface_inv_distinct [OF surf.run_inv] by (fastforce simp: folded_def)

lemma surface_reps_bound:
  "run_fold (surface_step evs b) (surface_start b) es = Inr (k, st, reps) \<Longrightarrow> r \<in> set reps \<Longrightarrow>
     b \<le> rep_seq r \<and> rep_seq r < k \<and> (\<forall>n \<in> set (rep_shadowed r). n < k)"
proof (induction es arbitrary: k st reps rule: rev_induct)
  case Nil
  then show ?case by auto
next
  case (snoc e es)
  from snoc.prems(1) obtain k1 st1 reps1 where
    run: "run_fold (surface_step evs b) (surface_start b) es = Inr (k1, st1, reps1)"
    and step: "surface_step evs b (k1, st1, reps1) e = Inr (k, st, reps)"
    by (auto simp: run_fold_snoc)
  from step obtain plan rep where plan: "plan_surface_event st1 e k1 evs b = Inr plan"
    and ap: "apply_surface_plan st1 plan = (st, rep)" and k: "k = Suc k1"
    and reps: "reps = (case rep of None \<Rightarrow> reps1 | Some p \<Rightarrow> reps1 @ [p])"
    by (blast elim: surface_stepE)
  have old: "r \<in> set reps1 \<Longrightarrow> ?case" using snoc.IH [OF run] k by force
  note inv = surf.run_inv [OF run]
  have bound: "n < k1" if "n \<in> set (fs_nodes st1)" for n
    using surface_inv_nodes(2) [OF inv that] surface_inv_length [OF inv] by simp
  have base: "b \<le> k1" using inv by (simp add: surface_inv_def)
  from plan show ?case
  proof (cases rule: plan_surface_eventE)
    case (replace s t rg)
    have "reps = reps1 @ [\<lparr> rep_seq = k1, rep_start = s, rep_end = t, rep_shadowed = rg_shadowed rg \<rparr>]"
      using ap replace(1) reps by auto
    then consider "r \<in> set reps1" | "rep_seq r = k1" "rep_shadowed r = rg_shadowed rg"
      using snoc.prems(2) by auto
    then show ?thesis
    proof cases
      case 2
      with base k bound subsetD [OF shadowed_subset [OF replace(4)]] show ?thesis by (auto intro: less_SucI)
    qed (rule old)
  qed (use ap k reps snoc.prems(2) old in auto)
qed

lemma folded_reps:
  assumes "folded evs st reps" and "r \<in> set reps"
  shows "rep_seq r < length evs" and "\<forall>n \<in> set (rep_shadowed r). n < length evs"
  using surface_reps_bound [OF assms(1) [unfolded folded_def] assms(2)] by simp_all

section \<open>One more event\<close>

lemma folded_step:
  assumes f: "folded evs st reps" and p: "plan_surface_event st e (length evs) evs 0 = Inr plan"
    and a: "apply_surface_plan st plan = (st', rep)"
  shows "folded (evs @ [e]) st' (case rep of None \<Rightarrow> reps | Some r \<Rightarrow> reps @ [r])"
  using f p a unfolding folded_def fold_surface_snoc
  by (simp add: surface_step_def apply_surface_event_def)

lemma folded_plain:
  assumes "folded evs st reps" and "\<not> is_surface_eligible_type (data_type d)"
  shows "folded (evs @ [make_event (length evs) now d None None ign]) st reps"
proof -
  have "plan_surface_event st (make_event (length evs) now d None None ign) (length evs) evs 0 = Inr None"
    using assms(2) by (simp add: plan_surface_event_def surface_op_of_def make_event_def)
  from folded_step [OF assms(1) this, of st None] show ?thesis by simp
qed

lemma folded_message:
  assumes "folded evs st reps" and "is_surface_eligible_type (data_type d)"
  shows "folded (evs @ [make_event (length evs) now d (Some op_append) None ign])
    (st\<lparr> fs_nodes := fs_nodes st @ [length evs] \<rparr>) reps"
proof -
  have "plan_surface_event st (make_event (length evs) now d (Some op_append) None ign) (length evs) evs 0
      = Inr (Some (PlanAppend (length evs)))"
    using assms(2)
    by (simp add: plan_surface_event_def surface_op_of_def make_event_def assert_provenance_def)
  from folded_step [OF assms(1) this, of "st\<lparr> fs_nodes := fs_nodes st @ [length evs] \<rparr>" None] show ?thesis by simp
qed

lemma collect_sources_num:
  "distinct srcs \<Longrightarrow> \<forall>n \<in> set srcs. n < seq \<and> safe_int (int n) \<Longrightarrow> set acc \<inter> set srcs = {} \<Longrightarrow>
     \<exists>out. collect_sources t seq acc None (map num_of srcs) = Inr (out, None)
       \<and> length out = length acc + length srcs \<and> set out = set acc \<union> set srcs"
proof (induction srcs arbitrary: acc)
  case Nil
  then show ?case by simp
next
  case (Cons n srcs)
  have n: "is_event_seq (num_of n)" "json_seq (num_of n) = n"
    using Cons.prems(2) by (simp_all add: num_of_def)
  have "set (List.insert n acc) \<inter> set srcs = {}" using Cons.prems(1,3) by auto
  with Cons.IH [of "List.insert n acc"] Cons.prems n show ?case
    by (auto simp: Let_def in_set_insert not_le)
qed

lemma assert_provenance_ok:
  assumes "distinct srcs" and "\<forall>n \<in> set srcs. n < ev_seq e \<and> safe_int (int n)" and "set shadowed \<subseteq> set srcs"
    and "ev_sources e = Some (seqs_json srcs)" and "srcs \<noteq> []"
  shows "assert_provenance e shadowed = Inr ()"
proof -
  from collect_sources_num [OF assms(1,2), of "[]"] obtain out where
    out: "collect_sources (ev_type e) (ev_seq e) [] None (map num_of srcs) = Inr (out, None)"
      "length out = length srcs" "set out = set srcs" by auto
  have "filter (\<lambda>s. s \<notin> set out) shadowed = []" using assms(3) out(3) by (auto simp: filter_empty_conv)
  with out assms(4,5) show ?thesis by (simp add: assert_provenance_def seqs_json_def)
qed

lemma surface_op_of_op_replace:
  assumes "is_surface_eligible_type (data_type d)" and "safe_int (int a)" and "safe_int (int b)"
  shows "surface_op_of (make_event seq now d (Some (op_replace a b)) srcs ign) = Inr (Some (OpReplace a b))"
  using assms
  by (simp add: surface_op_of_def make_event_def op_replace_def op_append_def is_replace_op_def num_of_def)

lemma folded_replace:
  assumes f: "folded evs st reps" and d: "is_surface_eligible_type (data_type d)"
    and idx: "index_of a (fs_nodes st) = Some i" "index_of b (fs_nodes st) = Some k" "i \<le> k"
    and srcs: "distinct srcs" "\<forall>n \<in> set srcs. n < length evs" "set (take (k - i + 1) (drop i (fs_nodes st))) \<subseteq> set srcs"
      "srcs \<noteq> []"
    and small: "int (length evs) \<le> max_safe"
    and rewrite: "assert_tool_result_rewrite (make_event (length evs) now d (Some (op_replace a b)) (Some (seqs_json srcs)) ign)
        (take (k - i + 1) (drop i (fs_nodes st))) evs 0 = Inr ()"
  shows "folded (evs @ [make_event (length evs) now d (Some (op_replace a b)) (Some (seqs_json srcs)) ign])
     (st\<lparr> fs_nodes := list_splice i (k - i + 1) [length evs] (fs_nodes st), fs_generation := fs_generation st + 1 \<rparr>)
     (reps @ [\<lparr> rep_seq = length evs, rep_start = a, rep_end = b,
        rep_shadowed = take (k - i + 1) (drop i (fs_nodes st)) \<rparr>])"
proof -
  let ?e = "make_event (length evs) now d (Some (op_replace a b)) (Some (seqs_json srcs)) ign"
  let ?rg = "\<lparr> rg_start_idx = i, rg_end_idx = k, rg_shadowed = take (k - i + 1) (drop i (fs_nodes st)) \<rparr>"
  have safe: "safe_int (int n)" if "n < length evs" for n
    using that small by (simp add: safe_int_def max_safe_def)
  have mem: "a \<in> set (fs_nodes st)" "b \<in> set (fs_nodes st)"
    using idx index_of_None option.distinct(1) by metis+
  have seq: "ev_seq ?e = length evs" "ev_sources ?e = Some (seqs_json srcs)" by (simp_all add: make_event_def)
  have op: "surface_op_of ?e = Inr (Some (OpReplace a b))"
    using surface_op_of_op_replace [OF d] safe folded_nodes(1) [OF f] mem by blast
  have rg: "replacement_range st a b = Inr ?rg"
    using idx by (simp add: replacement_range_def Suc_diff_le)
  have prov: "assert_provenance ?e (rg_shadowed ?rg) = Inr ()"
    by (rule assert_provenance_ok [OF srcs(1) _ _ seq(2) srcs(4)]) (use srcs safe seq in auto)
  have plan: "plan_surface_event st ?e (length evs) evs 0 = Inr (Some (PlanReplace (length evs) a b ?rg))"
    unfolding plan_surface_event_def seq op bind_res_simps option.case surface_op.case rg prov
    using rewrite by simp
  from folded_step [OF f plan] show ?thesis by simp
qed

section \<open>One append of a session\<close>

lemma append_event_extends:
  obtains ds where "ses_log (fst (append_event appending veto now s d op srcs ign)) = ses_log s @ ds"
proof -
  obtain s' r where a: "append_event appending veto now s d op srcs ign = (s', r)"
    by (cases "append_event appending veto now s d op srcs ign") auto
  then show thesis
  proof (cases rule: append_event_cases)
    case (refused m x)
    with a that [of "[]"] show thesis by simp
  next
    case (logged m e)
    with a that [of "[e]"] show thesis by simp
  qed
qed

lemma append_event_lands:
  assumes ok: "session_ok s" and supp: "assert_supported_request_header d = Inr ()"
    and veto: "veto (make_event (length (ses_log s)) now d op srcs ign) = None"
    and f: "folded (ses_log s @ [make_event (length (ses_log s)) now d op srcs ign]) st reps"
  obtains s' where "append_event False veto now s d op srcs ign
      = (s', Inr (make_event (length (ses_log s)) now d op srcs ign))"
    and "session_ok s'" and "ses_log s' = ses_log s @ [make_event (length (ses_log s)) now d op srcs ign]"
proof -
  obtain s' r where a: "append_event False veto now s d op srcs ign = (s', r)"
    by (cases "append_event False veto now s d op srcs ign") auto
  have "is_ok r"
    using append_event_result [OF ok, of False veto now d op srcs ign] supp veto folded_accepted [OF f] a by simp
  with a show thesis
  proof (cases rule: append_event_cases)
    case (refused m x)
    with \<open>is_ok r\<close> show thesis by simp
  next
    case (logged m e)
    with a append_event_ok [OF ok a] that show thesis by simp
  qed
qed


text \<open>An event the surface accepts is logged unless the veto refuses it, and a refusal leaves the log alone.\<close>

lemma append_event_or_vetoed:
  assumes ok: "session_ok s" and supp: "assert_supported_request_header d = Inr ()"
    and e: "e = make_event (length (ses_log s)) now d op srcs ign"
    and f: "folded (ses_log s @ [e]) st reps"
  obtains (lands) s' where "append_event False veto now s d op srcs ign = (s', Inr e)"
      and "session_ok s'" and "ses_log s' = ses_log s @ [e]"
  | (vetoed) s' why where "append_event False veto now s d op srcs ign = (s', Inl (AppendVetoed why))"
      and "veto e = Some why" and "session_ok s'" and "ses_log s' = ses_log s"
proof (cases "veto e")
  case None
  obtain s' where "append_event False veto now s d op srcs ign = (s', Inr e)" "session_ok s'" "ses_log s' = ses_log s @ [e]"
    by (rule append_event_lands [where veto = veto, OF ok supp None [unfolded e] f [unfolded e]]) (simp add: e)
  then show thesis by (rule lands)
next
  case (Some why)
  obtain s1 where "append_event False (\<lambda>_. None) now s d op srcs ign = (s1, Inr e)"
    by (rule append_event_lands [where veto = "\<lambda>_. None", OF ok supp refl f [unfolded e]]) (simp add: e)
  then obtain m where "validate_next (ses_manager s) (ses_log s) e = (m, None)"
    using supp e by (auto simp: append_event_def Let_def split: prod.splits option.splits)
  then have a: "append_event False veto now s d op srcs ign = (s\<lparr> ses_manager := m \<rparr>, Inl (AppendVetoed why))"
    using supp Some e by (simp add: append_event_def)
  from vetoed [OF a Some append_event_ok [OF ok a]] show thesis by simp
qed

end
