(* ===== verification/Tool_Pairing.thy ===== *)
theory Tool_Pairing
  imports Log_Append
begin

text \<open>
  Tool-pairing balance of a session surface (\<^verbatim>\<open>packages/compaction/compaction/src/tool-pairing.ts\<close>):
  which cuts of the surface no unanswered tool call crosses, answered from a cache that is extended
  by the nodes not yet seen and rebuilt after a replacement. The lemmas show that every answer is the
  one a count over the whole surface gives.
\<close>

section \<open>Definitions\<close>

record balance_cache =
  bc_generation :: nat
  bc_cuts :: "bool list"
  bc_index :: "nat \<rightharpoonup> nat"
  bc_open :: int

datatype pairing_error =
    NoSurfaceEvent nat
  | NoMatchingCall nat
  | SeqNotOnSurface nat
  | SurfaceUnreadable surface_error

definition event_delta :: "session_event \<Rightarrow> int" where
  "event_delta e = (case ev_data e of
       AssistantMessage _ _ m _ \<Rightarrow> int (length (filter is_tool_call (message_content m)))
     | ToolResult _ \<Rightarrow> -1
     | _ \<Rightarrow> 0)"

definition event_for_seq :: "session_event list \<Rightarrow> nat \<Rightarrow> pairing_error + session_event" where
  "event_for_seq evs n = (if n < length evs \<and> ev_seq (evs ! n) = n then Inr (evs ! n) else Inl (NoSurfaceEvent n))"

fun pending_cuts :: "session_event list \<Rightarrow> int \<Rightarrow> nat list \<Rightarrow> pairing_error + (int \<times> bool list)" where
  "pending_cuts evs calls [] = Inr (calls, [])"
| "pending_cuts evs calls (n # ns) = bind_res (event_for_seq evs n) (\<lambda>e.
     let calls' = calls + event_delta e in
     if calls' < 0 then Inl (NoMatchingCall n)
     else bind_res (pending_cuts evs calls' ns) (\<lambda>(final, cuts). Inr (final, (calls' = 0) # cuts)))"

definition extend_cache :: "session_event list \<Rightarrow> balance_cache \<Rightarrow> nat list \<Rightarrow> pairing_error + balance_cache" where
  "extend_cache evs c seqs =
     (let processed = length (bc_cuts c) - 1; tail = drop processed seqs in
      bind_res (pending_cuts evs (bc_open c) tail) (\<lambda>(final, cuts).
        Inr (c\<lparr> bc_index := foldl (\<lambda>m (i, n). m(n \<mapsto> i)) (bc_index c) (enumerate processed tail),
                bc_cuts := bc_cuts c @ cuts, bc_open := final \<rparr>)))"

definition empty_balance :: "nat \<Rightarrow> balance_cache" where
  "empty_balance generation =
     \<lparr> bc_generation = generation, bc_cuts = [True], bc_index = Map.empty, bc_open = 0 \<rparr>"

text \<open>Both surface getters catch the manager up first; the second finds nothing new.\<close>

definition session_surface :: "session \<Rightarrow> session \<times> (surface_error + (nat list \<times> nat))" where
  "session_surface s = (case sync_manager (ses_manager s) (ses_log s) of
       (m, Some x) \<Rightarrow> (s\<lparr> ses_manager := m \<rparr>, Inl x)
     | (m, None) \<Rightarrow> (s\<lparr> ses_manager := m \<rparr>, Inr (fs_nodes (sm_state m), fs_generation (sm_state m))))"

definition refresh_balance ::
  "session_event list \<Rightarrow> nat list \<Rightarrow> nat \<Rightarrow> balance_cache option \<Rightarrow> pairing_error + balance_cache" where
  "refresh_balance evs seqs generation cached =
     (let rebuild = extend_cache evs (empty_balance generation) seqs in
      case cached of
        None \<Rightarrow> rebuild
      | Some c \<Rightarrow>
          if bc_generation c \<noteq> generation \<or> length (bc_cuts c) - 1 > length seqs then rebuild
          else if length (bc_cuts c) - 1 < length seqs then extend_cache evs c seqs
          else Inr c)"

definition balance_cache_of ::
  "session \<Rightarrow> balance_cache option \<Rightarrow> session \<times> balance_cache option \<times> (pairing_error + balance_cache)" where
  "balance_cache_of s cached = (case session_surface s of
       (s', Inl x) \<Rightarrow> (s', cached, Inl (SurfaceUnreadable x))
     | (s', Inr (seqs, generation)) \<Rightarrow>
         (case refresh_balance (ses_log s') seqs generation cached of
            Inl x \<Rightarrow> (s', cached, Inl x)
          | Inr c \<Rightarrow> (s', Some c, Inr c)))"

definition cut_balance :: "balance_cache \<Rightarrow> nat \<Rightarrow> nat \<Rightarrow> pairing_error + bool" where
  "cut_balance c seq offset = (case bc_index c seq of
       None \<Rightarrow> Inl (SeqNotOnSurface seq)
     | Some i \<Rightarrow> if i + offset < length (bc_cuts c) then Inr (bc_cuts c ! (i + offset))
                else Inl (SeqNotOnSurface seq))"

definition balanced_at ::
  "nat \<Rightarrow> session \<Rightarrow> balance_cache option \<Rightarrow> nat \<Rightarrow> session \<times> balance_cache option \<times> (pairing_error + bool)" where
  "balanced_at offset s cached seq = (case balance_cache_of s cached of
       (s', c', Inl x) \<Rightarrow> (s', c', Inl x)
     | (s', c', Inr c) \<Rightarrow> (s', c', cut_balance c seq offset))"

definition tool_pairing_balanced_before ::
  "session \<Rightarrow> balance_cache option \<Rightarrow> nat \<Rightarrow> session \<times> balance_cache option \<times> (pairing_error + bool)" where
  "tool_pairing_balanced_before = balanced_at 0"

definition tool_pairing_balanced_after ::
  "session \<Rightarrow> balance_cache option \<Rightarrow> nat \<Rightarrow> session \<times> balance_cache option \<times> (pairing_error + bool)" where
  "tool_pairing_balanced_after = balanced_at 1"

section \<open>The count over a surface\<close>

definition open_calls :: "session_event list \<Rightarrow> nat list \<Rightarrow> int" where
  "open_calls evs ns = sum_list (map (\<lambda>n. event_delta (evs ! n)) ns)"

lemma open_calls_simps [simp]:
  "open_calls evs [] = 0"
  "open_calls evs (n # ns) = event_delta (evs ! n) + open_calls evs ns"
  "open_calls evs (ns @ ms) = open_calls evs ns + open_calls evs ms"
  by (simp_all add: open_calls_def)

definition first_unpaired :: "session_event list \<Rightarrow> nat list \<Rightarrow> nat option" where
  "first_unpaired evs ns = find (\<lambda>i. open_calls evs (take (Suc i) ns) < 0) [0 ..< length ns]"

definition balance_spec :: "session_event list \<Rightarrow> nat list \<Rightarrow> nat \<Rightarrow> nat \<Rightarrow> pairing_error + bool" where
  "balance_spec evs ns offset seq = (case first_unpaired evs ns of
       Some i \<Rightarrow> Inl (NoMatchingCall (ns ! i))
     | None \<Rightarrow> (case index_of seq ns of
         None \<Rightarrow> Inl (SeqNotOnSurface seq)
       | Some i \<Rightarrow> Inr (open_calls evs (take (i + offset) ns) = 0)))"

definition surface_seqs_ok :: "session_event list \<Rightarrow> nat list \<Rightarrow> bool" where
  "surface_seqs_ok evs ns \<longleftrightarrow> distinct ns \<and> (\<forall>n \<in> set ns. n < length evs \<and> ev_seq (evs ! n) = n)"

lemma surface_seqs_ok_ConsD:
  "surface_seqs_ok evs (n # ns) \<Longrightarrow> event_for_seq evs n = Inr (evs ! n) \<and> surface_seqs_ok evs ns"
  by (simp add: surface_seqs_ok_def event_for_seq_def)

lemma find_upt_Suc:
  "find P [0 ..< Suc n] = (if P 0 then Some 0 else map_option Suc (find (\<lambda>i. P (Suc i)) [0 ..< n]))"
proof -
  have "find P (map Suc xs) = map_option Suc (find (\<lambda>i. P (Suc i)) xs)" for xs
    by (induction xs) auto
  moreover have "[0 ..< Suc n] = 0 # map Suc [0 ..< n]"
    by (simp add: map_Suc_upt upt_conv_Cons del: upt_Suc)
  ultimately show ?thesis by simp
qed

lemma pending_cuts_spec:
  assumes "surface_seqs_ok evs ns"
  shows "pending_cuts evs calls ns =
    (case find (\<lambda>i. calls + open_calls evs (take (Suc i) ns) < 0) [0 ..< length ns] of
       Some i \<Rightarrow> Inl (NoMatchingCall (ns ! i))
     | None \<Rightarrow> Inr (calls + open_calls evs ns,
         map (\<lambda>i. calls + open_calls evs (take (Suc i) ns) = 0) [0 ..< length ns]))"
  using assms
proof (induction ns arbitrary: calls)
  case Nil
  then show ?case by simp
next
  case (Cons n ns)
  note d = surface_seqs_ok_ConsD [OF Cons.prems]
  let ?calls = "calls + event_delta (evs ! n)"
  have shift: "map (\<lambda>i. calls + open_calls evs (take (Suc i) (n # ns)) = 0) [0 ..< Suc (length ns)]
      = (?calls = 0) # map (\<lambda>i. ?calls + open_calls evs (take (Suc i) ns) = 0) [0 ..< length ns]"
    by (simp add: upt_conv_Cons map_Suc_upt [symmetric] add.assoc del: upt_Suc)
  have found: "find (\<lambda>i. calls + open_calls evs (take (Suc i) (n # ns)) < 0) [0 ..< Suc (length ns)]
      = (if ?calls < 0 then Some 0
         else map_option Suc (find (\<lambda>i. ?calls + open_calls evs (take (Suc i) ns) < 0) [0 ..< length ns]))"
    unfolding find_upt_Suc by (simp add: add.assoc)
  show ?case
    using d Cons.IH [of ?calls] unfolding length_Cons shift found
    by (auto simp: Let_def add.assoc split: option.splits)
qed

lemma pending_cuts_append:
  "pending_cuts evs calls (ns @ ms) = bind_res (pending_cuts evs calls ns) (\<lambda>(c1, cuts1).
     bind_res (pending_cuts evs c1 ms) (\<lambda>(c2, cuts2). Inr (c2, cuts1 @ cuts2)))"
proof (induction ns arbitrary: calls)
  case Nil
  then show ?case by (auto simp: bind_res_def split: sum.splits)
next
  case (Cons n ns)
  then show ?case by (auto simp: Let_def bind_res_def split: sum.splits)
qed

lemma pending_cuts_length: "pending_cuts evs calls ns = Inr (c, cuts) \<Longrightarrow> length cuts = length ns"
  by (induction ns arbitrary: calls c cuts) (auto simp: Let_def split: if_splits)

section \<open>What the cache holds\<close>

definition balance_of :: "session_event list \<Rightarrow> nat list \<Rightarrow> balance_cache \<Rightarrow> bool" where
  "balance_of evs ns c \<longleftrightarrow> (\<exists>cuts. pending_cuts evs 0 ns = Inr (bc_open c, cuts) \<and> bc_cuts c = True # cuts)
     \<and> bc_index c = (\<lambda>q. index_of q ns)"

lemma index_of_append:
  "index_of q (ns @ ms) = (case index_of q ns of Some i \<Rightarrow> Some i
     | None \<Rightarrow> map_option (\<lambda>i. length ns + i) (index_of q ms))"
proof (induction ns)
  case Nil
  then show ?case by (cases "index_of q ms") (simp_all del: index_of_None)
next
  case (Cons n ns)
  then show ?case
    by (cases "index_of q ns"; cases "index_of q ms") (simp_all del: index_of_None)
qed

lemma index_extend:
  assumes "distinct (ns @ ms)"
  shows "foldl (\<lambda>m (i, n). m(n \<mapsto> i)) (\<lambda>q. index_of q ns) (enumerate (length ns) ms)
    = (\<lambda>q. index_of q (ns @ ms))"
  using assms
proof (induction ms arbitrary: ns)
  case Nil
  then show ?case by simp
next
  case (Cons m ms)
  have "(\<lambda>q. index_of q ns)(m \<mapsto> length ns) = (\<lambda>q. index_of q (ns @ [m]))"
    using Cons.prems by (intro ext) (auto simp: index_of_append split: option.split dest: index_of_Some)
  then have "foldl (\<lambda>m (i, n). m(n \<mapsto> i)) (\<lambda>q. index_of q ns) (enumerate (length ns) (m # ms))
      = foldl (\<lambda>m (i, n). m(n \<mapsto> i)) (\<lambda>q. index_of q (ns @ [m])) (enumerate (length (ns @ [m])) ms)"
    by (simp only: enumerate_simps foldl.simps prod.case length_append_singleton)
  also have "\<dots> = (\<lambda>q. index_of q ((ns @ [m]) @ ms))"
    by (rule Cons.IH) (use Cons.prems in simp)
  finally show ?case by (simp only: append_assoc append.simps)
qed

lemma extend_cache_balance:
  assumes "balance_of evs ns c" and "distinct (ns @ ms)"
  shows "case extend_cache evs c (ns @ ms) of
       Inr c' \<Rightarrow> balance_of evs (ns @ ms) c' \<and> bc_generation c' = bc_generation c
     | Inl x \<Rightarrow> pending_cuts evs 0 (ns @ ms) = Inl x"
proof -
  from assms(1) obtain cuts where cuts: "pending_cuts evs 0 ns = Inr (bc_open c, cuts)" "bc_cuts c = True # cuts"
    and idx: "bc_index c = (\<lambda>q. index_of q ns)" by (auto simp: balance_of_def)
  have len: "length (bc_cuts c) - 1 = length ns" using cuts pending_cuts_length by simp
  show ?thesis
  proof (cases "pending_cuts evs (bc_open c) ms")
    case (Inl x)
    with cuts len show ?thesis by (simp add: extend_cache_def Let_def pending_cuts_append)
  next
    case (Inr r)
    with cuts len idx index_extend [OF assms(2)] show ?thesis
      by (cases r) (simp add: extend_cache_def Let_def pending_cuts_append balance_of_def)
  qed
qed

lemma empty_balance_of [simp]: "balance_of evs [] (empty_balance g)" "bc_generation (empty_balance g) = g"
  by (simp_all add: balance_of_def empty_balance_def)

lemma refresh_balance_ok:
  assumes "distinct seqs"
    and "\<And>c. cached = Some c \<Longrightarrow> bc_generation c = generation \<Longrightarrow>
           \<exists>ns zs. seqs = ns @ zs \<and> balance_of evs ns c"
  shows "case refresh_balance evs seqs generation cached of
       Inr c' \<Rightarrow> balance_of evs seqs c' \<and> bc_generation c' = generation
     | Inl x \<Rightarrow> pending_cuts evs 0 seqs = Inl x"
proof -
  have rebuild: "case extend_cache evs (empty_balance generation) seqs of
       Inr c' \<Rightarrow> balance_of evs seqs c' \<and> bc_generation c' = generation
     | Inl x \<Rightarrow> pending_cuts evs 0 seqs = Inl x"
    using extend_cache_balance [of evs "[]" "empty_balance generation" seqs] assms(1)
    unfolding append_Nil empty_balance_of(2) by simp
  show ?thesis
  proof (cases "\<exists>c. cached = Some c \<and> bc_generation c = generation")
    case True
    then obtain c where c: "cached = Some c" "bc_generation c = generation" by blast
    from assms(2) [OF this] obtain ns zs where s: "seqs = ns @ zs" and b: "balance_of evs ns c" by blast
    have len: "length (bc_cuts c) - 1 = length ns"
      using b pending_cuts_length by (auto simp: balance_of_def)
    have d: "distinct (ns @ zs)" using assms(1) s by simp
    from extend_cache_balance [OF b d] b c s len show ?thesis
      by (auto simp: refresh_balance_def Let_def)
  next
    case False
    with rebuild show ?thesis by (auto simp: refresh_balance_def Let_def split: option.split)
  qed
qed

lemma cut_balance_spec:
  assumes "surface_seqs_ok evs ns" and b: "balance_of evs ns c" and "offset \<le> 1"
  shows "cut_balance c seq offset = balance_spec evs ns offset seq"
proof -
  from b obtain cuts where p: "pending_cuts evs 0 ns = Inr (bc_open c, cuts)"
    and c: "bc_cuts c = True # cuts" and idx: "bc_index c = (\<lambda>q. index_of q ns)"
    by (auto simp: balance_of_def)
  from p have none: "first_unpaired evs ns = None"
    and cuts: "cuts = map (\<lambda>i. open_calls evs (take (Suc i) ns) = 0) [0 ..< length ns]"
    unfolding pending_cuts_spec [OF assms(1)] first_unpaired_def by (auto split: option.splits)
  have nth: "bc_cuts c ! i = (open_calls evs (take i ns) = 0)" if "i \<le> length ns" for i
    using that by (cases i) (simp_all add: c cuts)
  have len: "length (bc_cuts c) = Suc (length ns)" by (simp add: c cuts)
  show ?thesis
    using assms(3) index_of_less [of seq ns]
    by (auto simp: cut_balance_def balance_spec_def none idx len nth split: option.split
        dest!: index_of_Some)
qed

lemma pending_cuts_unpaired:
  assumes "surface_seqs_ok evs ns" and "pending_cuts evs 0 ns = Inl x"
  shows "balance_spec evs ns offset seq = Inl x"
  using assms(2) unfolding pending_cuts_spec [OF assms(1)] balance_spec_def first_unpaired_def
  by (auto split: option.splits)

section \<open>Sessions with a balance cache\<close>

definition cache_ok :: "session \<Rightarrow> balance_cache option \<Rightarrow> bool" where
  "cache_ok s cached \<longleftrightarrow> (case cached of None \<Rightarrow> True | Some c \<Rightarrow>
     (\<exists>n k st reps. n \<le> length (ses_log s)
       \<and> run_fold (surface_step (ses_log s) 0) (surface_start 0) (take n (ses_log s)) = Inr (k, st, reps)
       \<and> bc_generation c = fs_generation st \<and> balance_of (ses_log s) (fs_nodes st) c))"

lemma cache_okI:
  "n \<le> length (ses_log s)
   \<Longrightarrow> run_fold (surface_step (ses_log s) 0) (surface_start 0) (take n (ses_log s)) = Inr (k, st, reps)
   \<Longrightarrow> bc_generation c = fs_generation st \<Longrightarrow> balance_of (ses_log s) (fs_nodes st) c \<Longrightarrow> cache_ok s (Some c)"
  unfolding cache_ok_def option.case(2) by blast

lemma fold_nodes_ok:
  assumes "run_fold (surface_step evs 0) (surface_start 0) (take n evs) = Inr (k, st, reps)" and "n \<le> length evs"
  shows "surface_seqs_ok evs (fs_nodes st)"
proof -
  note inv = surf.run_inv [OF assms(1)]
  have "m < length evs \<and> ev_seq (evs ! m) = m" if "m \<in> set (fs_nodes st)" for m
    using surface_inv_nodes(2,4) [OF inv that] assms(2) by simp
  with surface_inv_distinct [OF inv] show ?thesis by (simp add: surface_seqs_ok_def)
qed

lemma pending_cuts_longer:
  "\<forall>n \<in> set ns. n < length evs \<Longrightarrow> pending_cuts (evs @ ds) calls ns = pending_cuts evs calls ns"
  by (induction ns arbitrary: calls) (auto simp: event_for_seq_def nth_append Let_def intro!: bind_res_cong)

lemma cache_ok_longer:
  assumes "cache_ok s cached" and "ses_log s' = ses_log s @ ds"
  shows "cache_ok s' cached"
proof (cases cached)
  case None
  then show ?thesis by (simp add: cache_ok_def)
next
  case (Some c)
  with assms(1) obtain n k st reps where n: "n \<le> length (ses_log s)"
    and run: "run_fold (surface_step (ses_log s) 0) (surface_start 0) (take n (ses_log s)) = Inr (k, st, reps)"
    and c: "bc_generation c = fs_generation st" "balance_of (ses_log s) (fs_nodes st) c"
    by (auto simp: cache_ok_def)
  have "\<forall>i \<in> set (fs_nodes st). i < length (ses_log s)"
    using fold_nodes_ok [OF run n] by (simp add: surface_seqs_ok_def)
  from pending_cuts_longer [OF this] c(2) have b: "balance_of (ses_log s') (fs_nodes st) c"
    by (simp add: balance_of_def assms(2))
  have "run_fold (surface_step (ses_log s') 0) (surface_start 0) (take n (ses_log s')) = Inr (k, st, reps)"
    using run n surface_run_append [of "take n (ses_log s)" "ses_log s" ds 0] by (simp add: assms(2))
  from cache_okI [OF _ this c(1) b] n Some show ?thesis by (simp add: assms(2))
qed

lemma balanced_at_step:
  assumes ok: "session_ok s" and cache: "cache_ok s cached" and off: "offset \<le> 1"
    and r: "balanced_at offset s cached seq = (s', c', r)"
  shows "\<exists>nodes reps. fold_surface (ses_log s) = Inr (nodes, reps) \<and> r = balance_spec (ses_log s) nodes offset seq
     \<and> session_ok s' \<and> ses_log s' = ses_log s \<and> cache_ok s' c'"
proof -
  let ?l = "ses_log s"
  from ok have "manager_ok (ses_manager s) ?l" "sm_base (ses_manager s) = 0" "log_accepted ?l"
    by (simp_all add: session_ok_def)
  then obtain m reps where sy: "sync_manager (ses_manager s) ?l = (m, None)"
    and m: "manager_ok m ?l" "sm_base m = 0"
    and run: "run_fold (surface_step ?l 0) (surface_start 0) ?l = Inr (length ?l, sm_state m, reps)"
    by (rule sync_manager_accepted)
  let ?nodes = "fs_nodes (sm_state m)" and ?gen = "fs_generation (sm_state m)" and ?s = "s\<lparr> ses_manager := m \<rparr>"
  have surf: "session_surface s = (?s, Inr (?nodes, ?gen))" by (simp add: session_surface_def sy)
  have seqs: "surface_seqs_ok ?l ?nodes" using fold_nodes_ok [of ?l "length ?l"] run by simp
  have prefix: "\<exists>ns zs. ?nodes = ns @ zs \<and> balance_of ?l ns c" if c: "cached = Some c" "bc_generation c = ?gen" for c
  proof -
    from cache c obtain n k st reps0 where n: "n \<le> length ?l"
      and run0: "run_fold (surface_step ?l 0) (surface_start 0) (take n ?l) = Inr (k, st, reps0)"
      and g: "fs_generation st = ?gen" and b: "balance_of ?l (fs_nodes st) c"
      by (auto simp: cache_ok_def)
    have "run_fold (surface_step ?l 0) (k, st, reps0) (drop n ?l) = Inr (length ?l, sm_state m, reps)"
      using run run_fold_append_Inr [OF run0, of "drop n ?l"] by simp
    from surface_run_generation [OF this] g b show ?thesis by auto
  qed
  have dist: "distinct ?nodes" using seqs by (simp add: surface_seqs_ok_def)
  note ref = refresh_balance_ok [where cached = cached and generation = ?gen, OF dist prefix]
  have fold: "fold_surface ?l = Inr (?nodes, reps)" using run by (simp add: fold_surface_def)
  have ok': "session_ok ?s" by (rule session_ok_manager [OF ok m])
  show ?thesis
  proof (cases "refresh_balance ?l ?nodes ?gen cached")
    case (Inl x)
    with ref have "pending_cuts ?l 0 ?nodes = Inl x" by simp
    from pending_cuts_unpaired [OF seqs this] Inl r surf cache_ok_longer [OF cache, of ?s "[]"] ok' fold
    show ?thesis by (auto simp: balanced_at_def balance_cache_of_def)
  next
    case (Inr c)
    with ref have b: "balance_of ?l ?nodes c" and g: "bc_generation c = ?gen" by simp_all
    have "cache_ok ?s (Some c)"
      by (rule cache_okI [of "length ?l" _ _ "sm_state m"]) (use b g run in simp_all)
    with cut_balance_spec [OF seqs b off] Inr r surf ok' fold show ?thesis
      by (auto simp: balanced_at_def balance_cache_of_def)
  qed
qed


inductive pairing_run :: "session \<Rightarrow> balance_cache option \<Rightarrow> bool" where
  opened: "session_run s \<Longrightarrow> pairing_run s None"
| appended: "pairing_run s c \<Longrightarrow> pairing_run (fst (append_event appending veto now s d op srcs ign)) c"
| asked: "pairing_run s c \<Longrightarrow> offset \<le> 1 \<Longrightarrow>
    pairing_run (fst (balanced_at offset s c seq)) (fst (snd (balanced_at offset s c seq)))"
| reread: "pairing_run s c \<Longrightarrow> session_run s' \<Longrightarrow> ses_log s' = ses_log s \<Longrightarrow> pairing_run s' c"

lemma pairing_run_ok: "pairing_run s c \<Longrightarrow> session_ok s \<and> cache_ok s c"
proof (induction rule: pairing_run.induct)
  case (opened s)
  then show ?case using session_run_ok by (simp add: cache_ok_def)
next
  case (appended s c appending veto now d op srcs ign)
  obtain ds where ds: "ses_log (fst (append_event appending veto now s d op srcs ign)) = ses_log s @ ds"
    by (rule append_event_extends)
  have "session_ok (fst (append_event appending veto now s d op srcs ign))"
    using append_event_ok appended.IH by (metis prod.collapse)
  with cache_ok_longer [OF _ ds] appended.IH show ?case by blast
next
  case (asked s c offset seq)
  then have "session_ok s" "cache_ok s c" "offset \<le> 1" by simp_all
  moreover obtain s' c' r where "balanced_at offset s c seq = (s', c', r)"
    by (cases "balanced_at offset s c seq") auto
  ultimately show ?case using balanced_at_step by fastforce
next
  case (reread s c s')
  then show ?case using session_run_ok cache_ok_longer [of s c s' "[]"] by simp
qed

text \<open>
  C21: after any appends and any earlier questions, whether the cut before or after a surface node is
  balanced is answered from the cache as a count over the whole current surface answers it: balanced
  when the calls of the assistant messages before the cut are as many as the results before it; an
  error for the first result without a call, and for a sequence number that is not on the surface.
\<close>

theorem pairing_cache_refines_count:
  assumes "pairing_run s c"
  shows "\<exists>nodes reps. fold_surface (ses_log s) = Inr (nodes, reps)
     \<and> snd (snd (tool_pairing_balanced_before s c seq)) = balance_spec (ses_log s) nodes 0 seq
     \<and> snd (snd (tool_pairing_balanced_after s c seq)) = balance_spec (ses_log s) nodes 1 seq"
proof -
  obtain s0 c0 r0 where b: "balanced_at 0 s c seq = (s0, c0, r0)" by (cases "balanced_at 0 s c seq") auto
  obtain s1 c1 r1 where a: "balanced_at 1 s c seq = (s1, c1, r1)" by (cases "balanced_at 1 s c seq") auto
  from pairing_run_ok [OF assms] balanced_at_step [OF _ _ _ b] balanced_at_step [OF _ _ _ a]
  show ?thesis
    by (auto simp: tool_pairing_balanced_before_def tool_pairing_balanced_after_def a b simp del: One_nat_def)
qed

theorem pairing_cache_refines_count_witness:
  "\<exists>nodes reps. fold_surface (ses_log sample_session) = Inr (nodes, reps)
     \<and> snd (snd (tool_pairing_balanced_before sample_session None 0)) = balance_spec (ses_log sample_session) nodes 0 0"
  using pairing_cache_refines_count [OF pairing_run.opened [OF sample_session_run], of 0] by blast

end
