(* ===== verification/Result_Pruner.thy ===== *)
theory Result_Pruner
  imports Token_Meter Tool_Pairing
begin

text \<open>
  Model-free pruning of tool results, \<^verbatim>\<open>packages/compaction/compaction-tool-result-pruner/src\<close>: the
  budgets (\<^verbatim>\<open>config.ts\<close>), the text that keeps head and tail around a marker, and the pass that
  rewrites every over-budget result of the current surface, each rewrite behind the record of its price
  (\<^verbatim>\<open>index.ts\<close>). A string is the list of its code points. The lemmas show what the pruned text is,
  that the internal checks never fail, and that a pass leaves every result within budget on a surface
  whose replacements are all metered.
\<close>

section \<open>Budgets\<close>

definition prune_marker :: string where
  "prune_marker = [CHR 0x0A, CHR 0x0A] @ ''[... tool result middle pruned ...]'' @ [CHR 0x0A, CHR 0x0A]"

record prune_config =
  pc_threshold :: nat
  pc_head :: nat
  pc_tail :: nat

definition prune_defaults :: prune_config where
  "prune_defaults = \<lparr> pc_threshold = 8192, pc_head = 4096, pc_tail = 1024 \<rparr>"

datatype prune_error =
    UnknownPruneKey string
  | NotPositiveInteger string
  | NotNonNegativeInteger string
  | BudgetTooSmall nat nat
  | SpanNotLocated
  | ReplacementNotSmaller
  | PruneSurface surface_error
  | PruneAppend session_error

definition prune_keys :: "string list" where
  "prune_keys = [''thresholdChars'', ''headChars'', ''tailChars'']"

definition prune_field :: "(string \<times> json) list \<Rightarrow> string \<Rightarrow> nat \<Rightarrow> json" where
  "prune_field raw k d = (case map_of raw k of None \<Rightarrow> num_of d | Some JNull \<Rightarrow> num_of d | Some v \<Rightarrow> v)"

fun integer_at_least :: "int \<Rightarrow> json \<Rightarrow> bool" where
  "integer_at_least b (JNum r) = (of_int \<lfloor>r\<rfloor> = r \<and> b \<le> \<lfloor>r\<rfloor>)"
| "integer_at_least b _ = False"

definition resolve_prune_config :: "(string \<times> json) list \<Rightarrow> prune_error + prune_config" where
  "resolve_prune_config raw =
     (case find (\<lambda>k. k \<notin> set prune_keys) (map fst raw) of
        Some k \<Rightarrow> Inl (UnknownPruneKey k)
      | None \<Rightarrow>
          let threshold = prune_field raw ''thresholdChars'' (pc_threshold prune_defaults);
              head = prune_field raw ''headChars'' (pc_head prune_defaults);
              tail = prune_field raw ''tailChars'' (pc_tail prune_defaults)
          in if \<not> integer_at_least 1 threshold then Inl (NotPositiveInteger ''thresholdChars'')
             else if \<not> integer_at_least 0 head then Inl (NotNonNegativeInteger ''headChars'')
             else if \<not> integer_at_least 0 tail then Inl (NotNonNegativeInteger ''tailChars'')
             else let emitted = json_seq head + length prune_marker + json_seq tail in
               if emitted > json_seq threshold then Inl (BudgetTooSmall emitted (json_seq threshold))
               else Inr \<lparr> pc_threshold = json_seq threshold, pc_head = json_seq head, pc_tail = json_seq tail \<rparr>)"

section \<open>The pruned text\<close>

fun measure_content :: "content_block list \<Rightarrow> nat" where
  "measure_content [] = 0"
| "measure_content (TextBlock t # bs) = length t + measure_content bs"
| "measure_content (_ # bs) = measure_content bs"

text \<open>The loop over the blocks: \<open>consumed\<close> code points so far, and whether the marker is placed.\<close>

fun prune_blocks ::
  "int \<Rightarrow> int \<Rightarrow> int \<Rightarrow> bool \<Rightarrow> content_block list \<Rightarrow> content_block list \<times> bool" where
  "prune_blocks removed_start removed_end consumed marked [] = ([], marked)"
| "prune_blocks removed_start removed_end consumed marked (TextBlock points # bs) =
     (let block_start = consumed;
          block_end = block_start + int (length points);
          head_end = min (int (length points)) (max 0 (removed_start - block_start));
          tail_start = min (int (length points)) (max 0 (removed_end - block_start));
          intersects = block_start < removed_end \<and> block_end > removed_start;
          marker = (if intersects \<and> \<not> marked then prune_marker else []);
          t = take (nat head_end) points @ marker @ drop (nat tail_start) points;
          (rest, marked') = prune_blocks removed_start removed_end block_end (marked \<or> marker \<noteq> []) bs
      in ((if t \<noteq> [] then [TextBlock t] else []) @ rest, marked'))"
| "prune_blocks removed_start removed_end consumed marked (b # bs) =
     (let (rest, marked') = prune_blocks removed_start removed_end consumed marked bs in (b # rest, marked'))"

definition prune_content :: "prune_config \<Rightarrow> content_block list \<Rightarrow> prune_error + content_block list option" where
  "prune_content cfg blocks =
     (let total = measure_content blocks in
      if total \<le> pc_threshold cfg then Inr None
      else let (pruned, marked) =
                 prune_blocks (int (pc_head cfg)) (int total - int (pc_tail cfg)) 0 False blocks
        in if \<not> marked then Inl SpanNotLocated
           else let after = measure_content pruned in
             if after > pc_threshold cfg \<or> after \<ge> total then Inl ReplacementNotSmaller
             else Inr (Some pruned))"

section \<open>The pass over a session\<close>

record pruned_entry =
  pe_original :: nat
  pe_replacement :: nat
  pe_call :: call_id
  pe_before :: nat
  pe_after :: nat

definition result_data_of :: "session_event \<Rightarrow> tool_result_data option" where
  "result_data_of e = (case ev_data e of ToolResult d \<Rightarrow> Some d | _ \<Rightarrow> None)"

definition prune_candidates :: "session_event list \<Rightarrow> nat list \<Rightarrow> (nat \<times> tool_result_data) list" where
  "prune_candidates evs seqs = List.map_filter
     (\<lambda>n. if n < length evs then map_option (Pair n) (result_data_of (evs ! n)) else None) seqs"

definition prune_record :: "nat \<Rightarrow> nat \<Rightarrow> event_data" where
  "prune_record seq price = OtherEvent ''compaction/prune'' (JObj [
     (''shadowedRange'', JObj [(''start'', num_of seq), (''end'', num_of seq)]),
     (''shadowedSeqs'', seqs_json [seq]), (''shadowedTokenCount'', num_of price)])"

definition with_content :: "tool_result_data \<Rightarrow> content_block list \<Rightarrow> tool_result_data" where
  "with_content d content = d\<lparr> tr_message := (tr_message d)\<lparr> trm_content := content \<rparr> \<rparr>"

fun prune_loop ::
  "json_lengths \<Rightarrow> (session_event \<Rightarrow> string option) \<Rightarrow> (nat \<Rightarrow> int) \<Rightarrow> prune_config \<Rightarrow> session
     \<Rightarrow> (nat \<times> tool_result_data) list \<Rightarrow> session \<times> (prune_error + pruned_entry list)" where
  "prune_loop j veto clock cfg s [] = (s, Inr [])"
| "prune_loop j veto clock cfg s ((seq, d) # rest) =
     (let old = trm_content (tr_message d) in
      case prune_content cfg old of
        Inl x \<Rightarrow> (s, Inl x)
      | Inr None \<Rightarrow> prune_loop j veto clock cfg s rest
      | Inr (Some content) \<Rightarrow>
          (case append_event False veto (clock (length (ses_log s))) s
                  (prune_record seq (estimate_message j (message_of_tool_result (tr_message d)))) None None False of
             (s1, Inl x) \<Rightarrow> (s1, Inl (PruneAppend x))
           | (s1, Inr _) \<Rightarrow>
               (case append_event False veto (clock (length (ses_log s1))) s1 (ToolResult (with_content d content))
                       (Some (op_replace seq seq)) (Some (seqs_json [seq])) False of
                  (s2, Inl x) \<Rightarrow> (s2, Inl (PruneAppend x))
                | (s2, Inr e) \<Rightarrow>
                    (case prune_loop j veto clock cfg s2 rest of
                       (s3, Inl x) \<Rightarrow> (s3, Inl x)
                     | (s3, Inr entries) \<Rightarrow>
                         (s3, Inr (\<lparr> pe_original = seq, pe_replacement = ev_seq e,
                            pe_call = trm_call_id (tr_message d), pe_before = measure_content old,
                            pe_after = measure_content content \<rparr> # entries))))))"

definition prune_session ::
  "json_lengths \<Rightarrow> (session_event \<Rightarrow> string option) \<Rightarrow> (nat \<Rightarrow> int) \<Rightarrow> prune_config \<Rightarrow> session
     \<Rightarrow> session \<times> (prune_error + (pruned_entry list \<times> int))" where
  "prune_session j veto clock cfg s = (case session_surface s of
       (s1, Inl x) \<Rightarrow> (s1, Inl (PruneSurface x))
     | (s1, Inr (seqs, _)) \<Rightarrow>
         (case prune_loop j veto clock cfg s1 (prune_candidates (ses_log s1) seqs) of
            (s2, Inl x) \<Rightarrow> (s2, Inl x)
          | (s2, Inr entries) \<Rightarrow>
              (s2, Inr (entries, sum_list (map (\<lambda>p. int (pe_before p) - int (pe_after p)) entries)))))"

section \<open>Head, marker and tail\<close>

fun joined_text :: "content_block list \<Rightarrow> string" where
  "joined_text [] = []"
| "joined_text (TextBlock t # bs) = t @ joined_text bs"
| "joined_text (_ # bs) = joined_text bs"

fun rich_blocks :: "content_block list \<Rightarrow> content_block list" where
  "rich_blocks [] = []"
| "rich_blocks (TextBlock t # bs) = rich_blocks bs"
| "rich_blocks (b # bs) = b # rich_blocks bs"

lemma measure_text: "measure_content bs = length (joined_text bs)"
  by (induction bs rule: measure_content.induct) simp_all

lemma prune_marker_nonempty [simp]: "prune_marker \<noteq> []"
  by (simp add: prune_marker_def)


definition marker_if :: "bool \<Rightarrow> string" where
  "marker_if b = (if b then prune_marker else [])"

text \<open>
  The loop at offset \<open>c\<close>: the marker is placed exactly when the head is behind, and the blocks to come
  contribute what is left of the head, the marker if they are the first to reach the removed span, and
  what lies beyond the span.
\<close>

lemma prune_blocks_exact:
  assumes "hs < re" and "prune_blocks (int hs) (int re) (int c) (hs < c) bs = (out, m)"
  shows "m = (hs < c + length (joined_text bs)) \<and> rich_blocks out = rich_blocks bs
     \<and> joined_text out = take (hs - c) (joined_text bs) @ marker_if (c \<le> hs \<and> hs < c + length (joined_text bs))
          @ drop (re - c) (joined_text bs)"
  using assms(2)
proof (induction bs arbitrary: c out m)
  case Nil
  then show ?case by (auto simp: marker_if_def)
next
  case (Cons b bs)
  show ?case
  proof (cases "\<exists>t. b = TextBlock t")
    case True
    then obtain t where b: "b = TextBlock t" by blast
    let ?n = "length t" and ?mk = "marker_if (c \<le> hs \<and> hs < c + length t)"
    have head: "nat (min (int ?n) (max 0 (int hs - int c))) = min ?n (hs - c)"
      and tail: "nat (min (int ?n) (max 0 (int re - int c))) = min ?n (re - c)" by linarith+
    have placing: "(if (int c < int re \<and> int c + int ?n > int hs) \<and> \<not> hs < c then prune_marker else []) = ?mk"
      using assms(1) by (auto simp: marker_if_def)
    have placed: "(hs < c \<or> ?mk \<noteq> []) = (hs < c + ?n)" by (auto simp: marker_if_def)
    let ?t = "take (min ?n (hs - c)) t @ ?mk @ drop (min ?n (re - c)) t"
    obtain rest m1 where rest: "prune_blocks (int hs) (int re) (int (c + ?n)) (hs < c + ?n) bs = (rest, m1)"
      by (cases "prune_blocks (int hs) (int re) (int (c + ?n)) (hs < c + ?n) bs") auto
    have out: "out = (if ?t \<noteq> [] then [TextBlock ?t] else []) @ rest" and m1: "m = m1"
      using Cons.prems unfolding b prune_blocks.simps Let_def head tail placing placed
      using rest by (simp_all del: append_is_Nil_conv)
    note IH = Cons.IH [OF rest]
    have body: "joined_text out = ?t @ joined_text rest" and rich: "rich_blocks out = rich_blocks rest"
      unfolding out by auto
    have "?t @ joined_text rest = take (hs - c) (t @ joined_text bs)
        @ marker_if (c \<le> hs \<and> hs < c + length (t @ joined_text bs)) @ drop (re - c) (t @ joined_text bs)"
      using IH assms(1) by (auto simp: marker_if_def min_def)
    with IH rich body m1 b show ?thesis by (simp add: add.assoc)
  next
    case False
    obtain rest m1 where rest: "prune_blocks (int hs) (int re) (int c) (hs < c) bs = (rest, m1)"
      by (cases "prune_blocks (int hs) (int re) (int c) (hs < c) bs") auto
    have "prune_blocks (int hs) (int re) (int c) (hs < c) (b # bs) = (b # rest, m1)"
      using rest False by (cases b) simp_all
    then have "out = b # rest" "m = m1" using Cons.prems by simp_all
    moreover have "joined_text (b # ds) = joined_text ds" "rich_blocks (b # ds) = b # rich_blocks ds" for ds
      using False by (cases b; simp)+
    ultimately show ?thesis using Cons.IH [OF rest] by simp
  qed
qed

definition prune_config_ok :: "prune_config \<Rightarrow> bool" where
  "prune_config_ok cfg \<longleftrightarrow> pc_head cfg + length prune_marker + pc_tail cfg \<le> pc_threshold cfg"

lemma resolve_prune_config_ok: "resolve_prune_config raw = Inr cfg \<Longrightarrow> prune_config_ok cfg"
  by (auto simp: resolve_prune_config_def Let_def prune_config_ok_def split: option.splits if_splits)

lemma prune_content_cases:
  assumes ok: "prune_config_ok cfg"
  obtains (small) "measure_content bs \<le> pc_threshold cfg" and "prune_content cfg bs = Inr None"
    | (pruned) out where "pc_threshold cfg < measure_content bs" and "prune_content cfg bs = Inr (Some out)"
      and "joined_text out = take (pc_head cfg) (joined_text bs) @ prune_marker
             @ drop (length (joined_text bs) - pc_tail cfg) (joined_text bs)"
      and "rich_blocks out = rich_blocks bs" and "measure_content out \<le> pc_threshold cfg"
proof (cases "measure_content bs \<le> pc_threshold cfg")
  case True
  with small show thesis by (simp add: prune_content_def)
next
  case False
  let ?n = "length (joined_text bs)" and ?h = "pc_head cfg" and ?t = "pc_tail cfg"
  have big: "pc_threshold cfg < ?n" using False by (simp add: measure_text)
  have mk: "0 < length prune_marker" by simp
  have less: "?h < ?n - ?t" using ok big mk unfolding prune_config_ok_def by linarith
  have re: "int ?n - int ?t = int (?n - ?t)" using less by simp
  obtain out m where out: "prune_blocks (int ?h) (int (?n - ?t)) (int 0) (?h < 0) bs = (out, m)"
    by (cases "prune_blocks (int ?h) (int (?n - ?t)) (int 0) (?h < 0) bs") auto
  from prune_blocks_exact [OF less out] less
  have m: "m" and rich: "rich_blocks out = rich_blocks bs"
    and body: "joined_text out = take ?h (joined_text bs) @ prune_marker @ drop (?n - ?t) (joined_text bs)"
    by (auto simp: marker_if_def)
  have len: "measure_content out \<le> pc_threshold cfg"
    using ok less unfolding measure_text body prune_config_ok_def by simp
  have "prune_blocks (int ?h) (int (measure_content bs) - int ?t) 0 False bs = (out, True)"
    using out m unfolding measure_text re by simp
  with len big have "prune_content cfg bs = Inr (Some out)"
    unfolding prune_content_def Let_def by (simp add: measure_text)
  with big body rich len pruned show thesis by (simp add: measure_text)
qed

text \<open>
  With accepted budgets, a result within the threshold is left alone, and any other becomes its head,
  the marker and its tail, its other blocks kept in order; the text is then within the threshold, and
  none of the internal checks ever fails.
\<close>

theorem prune_content_head_tail:
  assumes "resolve_prune_config raw = Inr cfg"
  shows "if measure_content bs \<le> pc_threshold cfg then prune_content cfg bs = Inr None
     else \<exists>out. prune_content cfg bs = Inr (Some out) \<and> rich_blocks out = rich_blocks bs
       \<and> joined_text out = take (pc_head cfg) (joined_text bs) @ prune_marker
           @ drop (length (joined_text bs) - pc_tail cfg) (joined_text bs)
       \<and> measure_content out \<le> pc_threshold cfg"
  using prune_content_cases [OF resolve_prune_config_ok [OF assms], of bs] by (metis linorder_not_less)

definition small_budget :: prune_config where
  "small_budget = \<lparr> pc_threshold = 44, pc_head = 2, pc_tail = 3 \<rparr>"

definition long_result :: "content_block list" where
  "long_result = [TextBlock (replicate 30 CHR ''a''), ImageBlock JNull, TextBlock (replicate 30 CHR ''b'')]"

theorem prune_content_head_tail_witness:
  "\<exists>out. prune_content small_budget long_result = Inr (Some out)
     \<and> joined_text out = ''aa'' @ prune_marker @ ''bbb'' \<and> rich_blocks out = [ImageBlock JNull]"
proof -
  have cfg: "resolve_prune_config [(''thresholdChars'', num_of 44), (''headChars'', num_of 2), (''tailChars'', num_of 3)]
      = Inr small_budget" by code_simp
  have "\<not> measure_content long_result \<le> pc_threshold small_budget" by code_simp
  moreover have "take (pc_head small_budget) (joined_text long_result) = ''aa''"
    "drop (length (joined_text long_result) - pc_tail small_budget) (joined_text long_result) = ''bbb''"
    "rich_blocks long_result = [ImageBlock JNull]" by code_simp+
  ultimately show ?thesis using prune_content_head_tail [OF cfg, of long_result] by auto
qed


section \<open>A pass leaves every result within budget\<close>

lemma fully_metered_longer:
  assumes "folded evs st reps" and "fully_metered j evs reps"
  shows "fully_metered j (evs @ ds) reps"
proof -
  have "surface_price j (evs @ ds) (rep_shadowed r) = surface_price j evs (rep_shadowed r)" if "r \<in> set reps" for r
    using folded_reps(2) [OF assms(1) that] unfolding surface_price_def
    by (intro arg_cong [of _ _ sum_list] map_cong refl) (simp add: nth_append)
  then show ?thesis
    using assms(2) folded_reps(1) [OF assms(1)] unfolding fully_metered_def list_all_iff
    by (force simp: nth_append)
qed

lemma metering_claim_prune:
  "metering_claim (make_event k now (prune_record seq price) None None ign)
     = Some \<lparr> cm_start = int seq, cm_end = int seq, cm_tokens = int price \<rparr>"
  by (simp add: metering_claim_def make_event_def prune_record_def claim_of_def obj_int_def num_of_def)

definition meta_wf :: "tool_result_data \<Rightarrow> bool" where
  "meta_wf d = (case tr_meta d of None \<Rightarrow> True | Some v \<Rightarrow> json_wf v)"

lemma rest_equal_with_content: "meta_wf d \<Longrightarrow> tool_result_rest_equal d (with_content d content)"
  by (auto simp: tool_result_rest_equal_def with_content_def opt_deep_equal_def meta_wf_def
      is_deep_equal_json_refl split: option.splits)

lemma splice_one:
  assumes "distinct xs" and "index_of x xs = Some i"
  shows "list_splice i 1 [y] xs = map (\<lambda>n. if n = x then y else n) xs"
proof -
  from index_of_Some [OF assms(2)] have i: "i < length xs" and x: "xs ! i = x" by simp_all
  have "list_splice i 1 [y] xs = xs[i := y]"
    using i by (simp add: list_splice_def upd_conv_take_nth_drop)
  also have "\<dots> = map (\<lambda>n. if n = x then y else n) xs"
    using i x assms(1) by (intro nth_equalityI) (auto simp: nth_list_update nth_eq_iff_index_eq)
  finally show ?thesis .
qed

text \<open>One over-budget result: both records land, or the veto refuses the first or the second of them.\<close>

lemma prune_step:
  assumes ok: "session_ok s" and f: "folded (ses_log s) st reps" and seq: "seq \<in> set (fs_nodes st)"
    and d: "ev_data (ses_log s ! seq) = ToolResult d" "meta_wf d"
    and small: "int (length (ses_log s)) + 1 \<le> max_safe"
  obtains (unpriced) s1 e why where
      "append_event False veto (clock (length (ses_log s))) s (prune_record seq price) None None False
         = (s1, Inl (AppendVetoed why))"
      and "veto e = Some why" and "session_ok s1" and "ses_log s1 = ses_log s"
  | (unreplaced) s1 s2 e1 e why where
      "append_event False veto (clock (length (ses_log s))) s (prune_record seq price) None None False = (s1, Inr e1)"
      and "append_event False veto (clock (length (ses_log s1))) s1 (ToolResult (with_content d content))
             (Some (op_replace seq seq)) (Some (seqs_json [seq])) False = (s2, Inl (AppendVetoed why))"
      and "veto e = Some why" and "session_ok s2" and "ses_log s2 = ses_log s @ [e1]" and "folded (ses_log s2) st reps"
  | (landed) s1 s2 e1 e2 st2 where
      "append_event False veto (clock (length (ses_log s))) s (prune_record seq price) None None False = (s1, Inr e1)"
      and "append_event False veto (clock (length (ses_log s1))) s1 (ToolResult (with_content d content))
             (Some (op_replace seq seq)) (Some (seqs_json [seq])) False = (s2, Inr e2)"
      and "session_ok s2" and "ses_log s1 = ses_log s @ [e1]" and "ses_log s2 = ses_log s @ [e1, e2]"
      and "ev_seq e2 = length (ses_log s) + 1" and "ev_data e2 = ToolResult (with_content d content)"
      and "metering_claim e1 = Some \<lparr> cm_start = int seq, cm_end = int seq, cm_tokens = int price \<rparr>"
      and "folded (ses_log s2) st2 (reps @ [\<lparr> rep_seq = length (ses_log s) + 1, rep_start = seq, rep_end = seq,
             rep_shadowed = [seq] \<rparr>])"
      and "fs_nodes st2 = map (\<lambda>n. if n = seq then length (ses_log s) + 1 else n) (fs_nodes st)"
proof -
  let ?l = "ses_log s" and ?d = "prune_record seq price" and ?r = "ToolResult (with_content d content)"
  let ?e1 = "make_event (length ?l) (clock (length ?l)) ?d None None False"
  let ?e2 = "make_event (length (?l @ [?e1])) (clock (length (?l @ [?e1]))) ?r (Some (op_replace seq seq)) (Some (seqs_json [seq])) False"
  have f1: "folded (?l @ [?e1]) st reps"
    by (rule folded_plain [OF f]) (simp add: prune_record_def is_surface_eligible_type_def surface_event_types_def)
  obtain i where i: "index_of seq (fs_nodes st) = Some i"
    using seq by (cases "index_of seq (fs_nodes st)") simp_all
  have shadowed: "take (i - i + 1) (drop i (fs_nodes st)) = [seq]"
    using index_of_Some [OF i] by (simp add: take_Suc hd_drop_conv_nth)
  have lt: "seq < length ?l" by (rule folded_nodes(1) [OF f seq])
  have "event_at (?l @ [?e1]) 0 seq = Some (?l ! seq)" using lt by (simp add: event_at_def nth_append)
  then have rw: "assert_tool_result_rewrite ?e2 (take (i - i + 1) (drop i (fs_nodes st))) (?l @ [?e1]) 0 = Inr ()"
    unfolding shadowed using d rest_equal_with_content [OF d(2)]
    by (simp add: assert_tool_result_rewrite_def make_event_def)
  let ?st2 = "st\<lparr> fs_nodes := list_splice i (i - i + 1) [length (?l @ [?e1])] (fs_nodes st),
      fs_generation := fs_generation st + 1 \<rparr>"
  have f2: "folded ((?l @ [?e1]) @ [?e2]) ?st2 (reps @ [\<lparr> rep_seq = length (?l @ [?e1]), rep_start = seq, rep_end = seq,
      rep_shadowed = take (i - i + 1) (drop i (fs_nodes st)) \<rparr>])"
    by (rule folded_replace [OF f1 _ i i order_refl _ _ _ _ _ rw])
      (use lt small shadowed in \<open>simp_all add: is_surface_eligible_type_def surface_event_types_def\<close>)
  have n2: "fs_nodes ?st2 = map (\<lambda>n. if n = seq then length ?l + 1 else n) (fs_nodes st)"
    using splice_one [OF folded_distinct [OF f] i, of "length ?l + 1"] by simp
  have supp: "assert_supported_request_header ?d = Inr ()" "assert_supported_request_header ?r = Inr ()"
    by (simp_all add: assert_supported_request_header_def prune_record_def)
  show thesis
  proof (cases rule: append_event_or_vetoed [OF ok supp(1) refl f1, of veto, case_names priced refused])
    case (refused s1 why)
    then show thesis by (rule unpriced)
  next
    case (priced s1)
    show thesis
    proof (cases rule: append_event_or_vetoed [OF priced(2) supp(2) refl f2 [folded priced(3)], of veto, case_names replaced refused])
      case (refused s2 why)
      from unreplaced [OF priced(1) refused(1,2,3)] refused(4) priced(3) f1 show thesis by simp
    next
      case (replaced s2)
      show thesis
        by (rule landed [OF priced(1) replaced(1,2) priced(3) _ _ _ metering_claim_prune _ n2])
          (use replaced(3) priced(3) f2 shadowed in \<open>simp_all add: make_event_def\<close>)
    qed
  qed
qed


lemma result_data_of_Some [simp]: "result_data_of e = Some d \<longleftrightarrow> ev_data e = ToolResult d"
  by (simp add: result_data_of_def split: event_data.split)

definition over_budget :: "prune_config \<Rightarrow> session_event list \<Rightarrow> nat \<Rightarrow> bool" where
  "over_budget cfg evs n = (case result_data_of (evs ! n) of
       Some d \<Rightarrow> pc_threshold cfg < measure_content (trm_content (tr_message d)) | None \<Rightarrow> False)"

definition surface_metas_wf :: "session_event list \<Rightarrow> nat list \<Rightarrow> bool" where
  "surface_metas_wf evs nodes =
     list_all (\<lambda>n. case result_data_of (evs ! n) of Some d \<Rightarrow> meta_wf d | None \<Rightarrow> True) nodes"

lemma over_budgetE:
  assumes "over_budget cfg evs n"
  obtains d where "ev_data (evs ! n) = ToolResult d" and "pc_threshold cfg < measure_content (trm_content (tr_message d))"
  using assms by (auto simp: over_budget_def split: option.splits)

lemma over_budget_result:
  "ev_data (evs ! n) = ToolResult d \<Longrightarrow>
     over_budget cfg evs n \<longleftrightarrow> pc_threshold cfg < measure_content (trm_content (tr_message d))"
  by (simp add: over_budget_def result_data_of_def)

lemma over_budget_longer: "n < length evs \<Longrightarrow> over_budget cfg (evs @ ds) n = over_budget cfg evs n"
  by (simp add: over_budget_def nth_append)

text \<open>What is left to do in the pass: the candidates are surface nodes, and every result over budget is among them.\<close>

definition prune_pending :: "prune_config \<Rightarrow> session_event list \<Rightarrow> nat list \<Rightarrow> (nat \<times> tool_result_data) list \<Rightarrow> bool" where
  "prune_pending cfg evs nodes rest \<longleftrightarrow> distinct (map fst rest)
     \<and> (\<forall>(n, d) \<in> set rest. n \<in> set nodes \<and> ev_data (evs ! n) = ToolResult d \<and> meta_wf d)
     \<and> (\<forall>n \<in> set nodes. over_budget cfg evs n \<longrightarrow> n \<in> fst ` set rest)"

lemma prune_pending_skip:
  assumes "prune_pending cfg evs nodes ((n, d) # rest)"
    and "measure_content (trm_content (tr_message d)) \<le> pc_threshold cfg"
  shows "prune_pending cfg evs nodes rest"
  using assms over_budget_result [of evs n d cfg] by (auto simp: prune_pending_def)

lemma prune_pending_step:
  assumes p: "prune_pending cfg evs nodes ((n, d) # rest)" and nodes: "\<forall>i \<in> set nodes. i < length evs"
    and new: "evs' = evs @ [e1, e2]" "ev_data e2 = ToolResult (with_content d content)"
    and fits: "measure_content content \<le> pc_threshold cfg"
  shows "prune_pending cfg evs' (map (\<lambda>i. if i = n then length evs + 1 else i) nodes) rest"
proof -
  have old: "evs' ! i = evs ! i" if "i < length evs" for i using that new(1) by (simp add: nth_append)
  have "evs' ! (length evs + 1) = e2" using new(1) by (simp add: nth_append)
  then have fit: "\<not> over_budget cfg evs' (length evs + 1)"
    using new(2) fits by (simp add: over_budget_result with_content_def)
  have same: "over_budget cfg evs' i = over_budget cfg evs i" if "i < length evs" for i
    using old [OF that] by (simp add: over_budget_def)
  let ?nodes = "map (\<lambda>i. if i = n then length evs + 1 else i) nodes"
  have rest: "i \<in> set ?nodes \<and> ev_data (evs' ! i) = ToolResult d' \<and> meta_wf d'" if "(i, d') \<in> set rest" for i d'
  proof -
    have i: "i \<in> set nodes" "ev_data (evs ! i) = ToolResult d'" "meta_wf d'" "i \<noteq> n"
      using p that by (force simp: prune_pending_def)+
    with nodes old show ?thesis by auto
  qed
  have todo: "i \<in> fst ` set rest" if "i \<in> set ?nodes" "over_budget cfg evs' i" for i
  proof -
    have "i \<in> set nodes" "i \<noteq> n" using that fit by (auto split: if_splits)
    with that(2) same nodes p show ?thesis by (auto simp: prune_pending_def)
  qed
  show ?thesis using p rest todo by (auto simp: prune_pending_def)
qed

text \<open>
  What a pass does to a node of the surface: it stays, or it was over budget and its place is taken by a
  later copy of the result whose content is the pruned content, and which is within budget.
\<close>

definition pruned_in_place :: "prune_config \<Rightarrow> session_event list \<Rightarrow> session_event list \<Rightarrow> nat \<Rightarrow> nat \<Rightarrow> bool" where
  "pruned_in_place cfg evs evs' n n' \<longleftrightarrow> (\<exists>d content. ev_data (evs ! n) = ToolResult d \<and> over_budget cfg evs n
     \<and> prune_content cfg (trm_content (tr_message d)) = Inr (Some content) \<and> length evs \<le> n'
     \<and> ev_data (evs' ! n') = ToolResult (with_content d content) \<and> \<not> over_budget cfg evs' n')"

definition kept_or_pruned :: "prune_config \<Rightarrow> session_event list \<Rightarrow> session_event list \<Rightarrow> nat \<Rightarrow> nat \<Rightarrow> bool" where
  "kept_or_pruned cfg evs evs' n n' \<longleftrightarrow> n' = n \<or> pruned_in_place cfg evs evs' n n'"

text \<open>The one reason a pass is refused: the veto of the session.\<close>

definition refused_by :: "(session_event \<Rightarrow> string option) \<Rightarrow> prune_error \<Rightarrow> bool" where
  "refused_by veto x \<longleftrightarrow> (\<exists>e why. veto e = Some why \<and> x = PruneAppend (AppendVetoed why))"

lemma kept_all: "list_all2 (kept_or_pruned cfg evs evs') ns ns"
  by (simp add: list_all2_same kept_or_pruned_def)

lemma kept_or_pruned_step:
  assumes n: "ev_data (evs ! n) = ToolResult d" "over_budget cfg evs n"
      "prune_content cfg (trm_content (tr_message d)) = Inr (Some content)" "measure_content content \<le> pc_threshold cfg"
    and new: "evs2 = evs @ [e1, e2]" "ev_data e2 = ToolResult (with_content d content)" "prefix evs2 evs'"
    and m: "m < length evs" and rest: "kept_or_pruned cfg evs2 evs' (if m = n then length evs + 1 else m) m'"
  shows "kept_or_pruned cfg evs evs' m m'"
proof (cases "m = n")
  case True
  obtain zs where zs: "evs' = evs2 @ zs" using new(3) by (auto simp: prefix_def)
  have at: "evs2 ! (length evs + 1) = e2" "evs' ! (length evs + 1) = e2" using new(1) zs by (simp_all add: nth_append)
  have fits: "\<not> over_budget cfg xs (length evs + 1)" if "xs ! (length evs + 1) = e2" for xs
    using that new(2) n(4) by (simp add: over_budget_result with_content_def)
  have "m' = length evs + 1"
    using rest True fits [OF at(1)] by (auto simp: kept_or_pruned_def pruned_in_place_def)
  then show ?thesis using True n at(2) new(2) fits [OF at(2)]
    by (auto simp: kept_or_pruned_def pruned_in_place_def)
next
  case False
  have "evs2 ! m = evs ! m" using m new(1) by (simp add: nth_append)
  then show ?thesis using rest False m new(1) over_budget_longer [of m evs cfg "[e1, e2]"]
    by (fastforce simp: kept_or_pruned_def pruned_in_place_def)
qed

lemma prune_loop_pass:
  assumes "prune_config_ok cfg" and "session_ok s" and "folded (ses_log s) st reps"
    and "prune_pending cfg (ses_log s) (fs_nodes st) rest"
    and "int (length (ses_log s)) + 2 * int (length rest) \<le> max_safe" and "fully_metered j (ses_log s) reps"
  shows "\<exists>s' q st' reps'. prune_loop j veto clock cfg s rest = (s', q) \<and> prefix (ses_log s) (ses_log s')
     \<and> folded (ses_log s') st' reps' \<and> fully_metered j (ses_log s') reps'
     \<and> list_all2 (kept_or_pruned cfg (ses_log s) (ses_log s')) (fs_nodes st) (fs_nodes st')
     \<and> (case q of Inr _ \<Rightarrow> prune_pending cfg (ses_log s') (fs_nodes st') [] | Inl x \<Rightarrow> refused_by veto x)"
  using assms(2-)
proof (induction rest arbitrary: s st reps)
  case Nil
  then show ?case by simp (blast intro: kept_all)
next
  case (Cons c rest)
  obtain n d where c: "c = (n, d)" by (cases c)
  note ok = Cons.prems(1) and f = Cons.prems(2) and pend = Cons.prems(3) [unfolded c] and metered = Cons.prems(5)
  let ?old = "trm_content (tr_message d)" and ?l = "ses_log s"
  show ?case
  proof (cases rule: prune_content_cases [OF assms(1), of ?old, case_names small pruned])
    case small
    with Cons.IH [OF ok f prune_pending_skip [OF pend small(1)]] Cons.prems(4) metered c
    show ?thesis by simp
  next
    case (pruned content)
    have n: "n \<in> set (fs_nodes st)" "ev_data (?l ! n) = ToolResult d" "meta_wf d"
      using pend by (auto simp: prune_pending_def)
    have over: "over_budget cfg ?l n" using n(2) pruned(1) by (simp add: over_budget_result)
    let ?price = "estimate_message j (message_of_tool_result (tr_message d))"
    have room: "int (length ?l) + 1 \<le> max_safe" using Cons.prems(4) by simp
    have stopped: ?thesis if "prune_loop j veto clock cfg s (c # rest) = (s', Inl x)" "refused_by veto x"
        "prefix ?l (ses_log s')" "folded (ses_log s') st reps" "fully_metered j (ses_log s') reps" for s' x
      using that kept_all by (intro exI [of _ s'] exI [of _ "Inl x"] exI [of _ st] exI [of _ reps]) simp
    show ?thesis
    proof (cases rule: prune_step [OF ok f n room, where veto = veto and clock = clock and price = ?price and content = content,
        case_names unpriced unreplaced landed])
      case (unpriced s1 e why)
      then have "prune_loop j veto clock cfg s (c # rest) = (s1, Inl (PruneAppend (AppendVetoed why)))"
        using pruned(2) c by (simp add: Let_def)
      moreover have "refused_by veto (PruneAppend (AppendVetoed why))" using unpriced(2) by (auto simp: refused_by_def)
      ultimately show ?thesis by (rule stopped) (use unpriced(4) f metered in simp_all)
    next
      case (unreplaced s1 s2 e1 e why)
      then have "prune_loop j veto clock cfg s (c # rest) = (s2, Inl (PruneAppend (AppendVetoed why)))"
        using pruned(2) c by (simp add: Let_def)
      moreover have "refused_by veto (PruneAppend (AppendVetoed why))" using unreplaced(3) by (auto simp: refused_by_def)
      ultimately show ?thesis
        by (rule stopped) (use unreplaced(5,6) fully_metered_longer [OF f metered] in simp_all)
    next
      case (landed s1 s2 e1 e2 st2)
      have "\<forall>i \<in> set (fs_nodes st). i < length ?l" using folded_nodes(1) [OF f] by blast
      note below = this
      from prune_pending_step [OF pend below landed(5,7) pruned(5)]
      have pend2: "prune_pending cfg (ses_log s2) (fs_nodes st2) rest" by (simp add: landed(10))
      have price: "event_price j (?l ! n) = ?price"
        using n(2) by (simp add: event_price_def derive_event_message_def)
      have lt: "n < length ?l" by (rule folded_nodes(1) [OF f n(1)])
      have "fully_metered j (ses_log s2) (reps @ [\<lparr> rep_seq = length ?l + 1, rep_start = n, rep_end = n, rep_shadowed = [n] \<rparr>])"
        using fully_metered_longer [OF f metered, of "[e1, e2]"] landed(8,5) price lt
        by (simp add: fully_metered_def nth_append surface_price_def)
      from Cons.IH [OF landed(3,9) pend2 _ this] Cons.prems(4) landed(5) obtain s' q st' reps' where
        r: "prune_loop j veto clock cfg s2 rest = (s', q)" "prefix (ses_log s2) (ses_log s')"
          "folded (ses_log s') st' reps'" "fully_metered j (ses_log s') reps'"
          "list_all2 (kept_or_pruned cfg (ses_log s2) (ses_log s')) (fs_nodes st2) (fs_nodes st')"
          "case q of Inr _ \<Rightarrow> prune_pending cfg (ses_log s') (fs_nodes st') [] | Inl x \<Rightarrow> refused_by veto x" by auto
      have grown: "prefix ?l (ses_log s')" using r(2) landed(5) by (auto simp: prefix_def)
      have "list_all2 (kept_or_pruned cfg ?l (ses_log s')) (fs_nodes st) (fs_nodes st')"
        using r(5) below kept_or_pruned_step [OF n(2) over pruned(2,5) landed(5,7) r(2)]
        unfolding landed(10) list_all2_map1 by (auto simp: list_all2_conv_all_nth)
      moreover have "\<exists>q'. prune_loop j veto clock cfg s (c # rest) = (s', q')
          \<and> (case q' of Inr _ \<Rightarrow> prune_pending cfg (ses_log s') (fs_nodes st') [] | Inl x \<Rightarrow> refused_by veto x)"
        using r(1,6) landed(1,2) pruned(2) c by (cases q) (simp_all add: Let_def)
      ultimately show ?thesis using r(3,4) grown by blast
    qed
  qed
qed

lemma prune_candidates_pending:
  assumes "folded evs st reps"
    and "surface_metas_wf evs (fs_nodes st)"
  shows "prune_pending cfg evs (fs_nodes st) (prune_candidates evs (fs_nodes st))"
proof -
  have keys: "map fst (prune_candidates evs ns) = filter (\<lambda>n. n < length evs \<and> result_data_of (evs ! n) \<noteq> None) ns" for ns
    by (induction ns) (auto simp: prune_candidates_def simp del: result_data_of_Some split: option.splits)
  have mem: "(n, d) \<in> set (prune_candidates evs ns) \<longleftrightarrow> n \<in> set ns \<and> n < length evs \<and> ev_data (evs ! n) = ToolResult d" for n d ns
    by (auto simp: prune_candidates_def set_map_filter split: if_splits)
  have dist: "distinct (map fst (prune_candidates evs (fs_nodes st)))"
    unfolding keys using folded_distinct [OF assms(1)] by simp
  have todo: "n \<in> fst ` set (prune_candidates evs (fs_nodes st))"
    if n: "n \<in> set (fs_nodes st)" and b: "over_budget cfg evs n" for n
  proof -
    obtain d where "ev_data (evs ! n) = ToolResult d" using b by (rule over_budgetE)
    then have "(n, d) \<in> set (prune_candidates evs (fs_nodes st))"
      using mem n folded_nodes(1) [OF assms(1) n] by simp
    then show ?thesis by force
  qed
  have metas: "meta_wf d" if "n \<in> set (fs_nodes st)" "ev_data (evs ! n) = ToolResult d" for n d
    using assms(2) that by (auto simp: surface_metas_wf_def list_all_iff result_data_of_def)
  show ?thesis using dist todo mem metas by (auto simp: prune_pending_def)
qed

lemma session_surface_ok:
  assumes "session_ok s" and f: "folded (ses_log s) st reps"
  obtains s' where "session_surface s = (s', Inr (fs_nodes st, fs_generation st))"
    and "session_ok s'" and "ses_log s' = ses_log s"
proof -
  from assms(1) have "manager_ok (ses_manager s) (ses_log s)" "sm_base (ses_manager s) = 0" "log_accepted (ses_log s)"
    by (simp_all add: session_ok_def)
  then obtain m reps' where sy: "sync_manager (ses_manager s) (ses_log s) = (m, None)"
    and m: "manager_ok m (ses_log s)" "sm_base m = 0"
    and run: "run_fold (surface_step (ses_log s) 0) (surface_start 0) (ses_log s) = Inr (length (ses_log s), sm_state m, reps')"
    by (rule sync_manager_accepted)
  have "sm_state m = st" using f run by (simp add: folded_def)
  with sy m session_ok_manager [OF assms(1) m] that show thesis by (simp add: session_surface_def)
qed

text \<open>
  C22: on a reachable session with accepted budgets, whose replacements so far are all metered, a pass only
  appends. Whatever the veto refuses and wherever the pass stops, every node of the surface stays where it
  is or, when it was over budget, is replaced in place by a copy of its result with the pruned content,
  which is within budget, and every replacement of the log is still metered. A pass that returns leaves no
  result over budget; a pass that throws was refused by the veto, so without one it always returns.
\<close>

theorem prune_session_lands:
  assumes "session_run s" and "resolve_prune_config raw = Inr cfg" and "fold_surface (ses_log s) = Inr (nodes, reps)"
    and "surface_metas_wf (ses_log s) nodes"
    and "int (length (ses_log s)) + 2 * int (length nodes) \<le> max_safe" and "fully_metered j (ses_log s) reps"
  shows "\<exists>s' q nodes' reps'. prune_session j veto clock cfg s = (s', q)
     \<and> prefix (ses_log s) (ses_log s') \<and> fold_surface (ses_log s') = Inr (nodes', reps')
     \<and> list_all2 (kept_or_pruned cfg (ses_log s) (ses_log s')) nodes nodes' \<and> fully_metered j (ses_log s') reps'
     \<and> (case q of Inr _ \<Rightarrow> list_all (\<lambda>n. \<not> over_budget cfg (ses_log s') n) nodes' | Inl x \<Rightarrow> refused_by veto x)"
proof -
  from assms(3) obtain st where f: "folded (ses_log s) st reps" and nodes: "fs_nodes st = nodes"
    by (rule fold_surface_folded)
  obtain s1 where s1: "session_surface s = (s1, Inr (fs_nodes st, fs_generation st))"
    and ok1: "session_ok s1" and l1: "ses_log s1 = ses_log s"
    by (rule session_surface_ok [OF session_run_ok [OF assms(1)] f])
  let ?rest = "prune_candidates (ses_log s) (fs_nodes st)"
  have "length (prune_candidates (ses_log s) ns) \<le> length ns" for ns
    by (induction ns) (auto simp: prune_candidates_def split: option.splits)
  then have small: "int (length (ses_log s)) + 2 * int (length ?rest) \<le> max_safe"
    using assms(5) nodes by (smt (verit) of_nat_mono)
  have pend: "prune_pending cfg (ses_log s) (fs_nodes st) ?rest"
    using prune_candidates_pending [OF f] assms(4) nodes by simp
  from prune_loop_pass [OF resolve_prune_config_ok [OF assms(2)] ok1, unfolded l1, OF f pend small assms(6)]
  obtain s' q st' reps' where
    r: "prune_loop j veto clock cfg s1 ?rest = (s', q)" "prefix (ses_log s) (ses_log s')" "folded (ses_log s') st' reps'"
      "fully_metered j (ses_log s') reps'" "list_all2 (kept_or_pruned cfg (ses_log s) (ses_log s')) (fs_nodes st) (fs_nodes st')"
      "case q of Inr _ \<Rightarrow> prune_pending cfg (ses_log s') (fs_nodes st') [] | Inl x \<Rightarrow> refused_by veto x"
    by blast
  have "\<exists>q'. prune_session j veto clock cfg s = (s', q')
      \<and> (case q' of Inr _ \<Rightarrow> list_all (\<lambda>n. \<not> over_budget cfg (ses_log s') n) (fs_nodes st') | Inl x \<Rightarrow> refused_by veto x)"
    using r(1,6) s1 l1 by (cases q) (auto simp: prune_session_def prune_pending_def list_all_iff)
  with r(2,4,5) nodes folded_fold_surface [OF r(3)] show ?thesis by blast
qed


definition prune_log :: "session_event list" where
  "prune_log =
     (let call = create_assistant_message ''a1'' [ToolCallBlock ''c1'' ''read'' ''x''] ''p'' ''m'' None;
          answer = \<lparr> trm_id = ''t1'', trm_call_id = ''c1'', trm_block_call_id = ''c1'',
                     trm_content = long_result, trm_is_error = None \<rparr>
      in [make_event 0 1 (UserMessage (sample_user ''u1'')) (Some op_append) None False,
          make_event 1 1 (AssistantMessage 1 1 call None) (Some op_append) None False,
          make_event 2 1 (ToolResult \<lparr> tr_turn = 1, tr_step = 1, tr_message = answer, tr_error = None,
             tr_meta = Some (JObj [(''k'', JNull)]) \<rparr>) (Some op_append) None False])"

definition prune_sample :: session where
  "prune_sample = (case new_session (\<lambda>_. True) 20 ModeSnapshot ''s1'' (Some prune_log) (Some sample_header) of
      Inr s \<Rightarrow> s | Inl _ \<Rightarrow> sample_session)"

lemma prune_sample_run: "session_run prune_sample"
proof -
  have "is_ok (new_session (\<lambda>_. True) 20 ModeSnapshot ''s1'' (Some prune_log) (Some sample_header))" by code_simp
  then show ?thesis by (auto simp: prune_sample_def is_ok_iff intro: session_run.created)
qed

text \<open>A session that refuses every rewritten result: the pass stops behind its first price record.\<close>

definition refuse_rewrites :: "session_event \<Rightarrow> string option" where
  "refuse_rewrites e = (case ev_data e of ToolResult d \<Rightarrow> Some ''no open turn'' | _ \<Rightarrow> None)"

lemma refused_pass: "\<not> is_ok (snd (prune_session sample_lengths refuse_rewrites int small_budget prune_sample))"
  by code_simp

theorem prune_session_lands_witness:
  "(\<exists>s' r nodes' reps'. prune_session sample_lengths (\<lambda>_. None) int small_budget prune_sample = (s', Inr r)
     \<and> fold_surface (ses_log s') = Inr (nodes', reps') \<and> length nodes' = 3
     \<and> list_all (\<lambda>n. \<not> over_budget small_budget (ses_log s') n) nodes' \<and> fully_metered sample_lengths (ses_log s') reps')
   \<and> (\<exists>s' x. prune_session sample_lengths refuse_rewrites int small_budget prune_sample = (s', Inl x)
     \<and> refused_by refuse_rewrites x)"
proof -
  have cfg: "resolve_prune_config [(''thresholdChars'', num_of 44), (''headChars'', num_of 2), (''tailChars'', num_of 3)]
      = Inr small_budget" by code_simp
  have f: "fold_surface (ses_log prune_sample) = Inr ([0, 1, 2], [])" by code_simp
  have m: "surface_metas_wf (ses_log prune_sample) [0, 1, 2]" by code_simp
  have l: "int (length (ses_log prune_sample)) + 2 * int (length [0::nat, 1, 2]) \<le> max_safe" by code_simp
  have fm: "fully_metered sample_lengths (ses_log prune_sample) []" by (simp add: fully_metered_def)
  note pass = prune_session_lands [OF prune_sample_run cfg f m l fm, where clock = int]
  have never: "\<not> refused_by (\<lambda>_. None) x" for x by (simp add: refused_by_def)
  from pass [of "\<lambda>_. None"] obtain s' q nodes' reps' where "prune_session sample_lengths (\<lambda>_. None) int small_budget prune_sample = (s', q)"
    "fold_surface (ses_log s') = Inr (nodes', reps')" "list_all2 (kept_or_pruned small_budget (ses_log prune_sample) (ses_log s')) [0, 1, 2] nodes'"
    "fully_metered sample_lengths (ses_log s') reps'"
    "case q of Inr _ \<Rightarrow> list_all (\<lambda>n. \<not> over_budget small_budget (ses_log s') n) nodes' | Inl x \<Rightarrow> refused_by (\<lambda>_. None) x"
    by blast
  moreover from this(3) have "length nodes' = 3" by (auto dest: list_all2_lengthD)
  moreover obtain r where "q = Inr r" using calculation(5) never by (cases q) auto
  moreover from pass [of refuse_rewrites] obtain s2 q2 where
    "prune_session sample_lengths refuse_rewrites int small_budget prune_sample = (s2, q2)"
    "case q2 of Inr _ \<Rightarrow> True | Inl x \<Rightarrow> refused_by refuse_rewrites x" by (force split: sum.splits)
  moreover obtain x where "q2 = Inl x" using refused_pass calculation(8) by (cases q2) auto
  ultimately show ?thesis by auto
qed

end
