(* ===== verification/Compaction.thy ===== *)
theory Compaction
  imports Token_Meter Tool_Pairing
begin

text \<open>
  The compaction transaction of \<^verbatim>\<open>packages/compaction/compaction-basic/src/region.ts\<close>, the selection of
  the range it replaces, the checkpoint it writes (\<^verbatim>\<open>summarizer.ts\<close>, \<^verbatim>\<open>checkpoint.ts\<close>) and the outcome of
  the summarizer's stream. The transaction awaits the summarizer once: \<open>compaction_open\<close> and
  \<open>prepare_compaction\<close> run before, \<open>compaction_resume\<close> after, on whatever the log has become; the checkpoint of
  durability is one more await, whose result \<open>settle_compaction\<close> takes. The cache of tool pairing and
  the state of the token meter travel with the session.
\<close>

section \<open>State and errors\<close>

record compactor =
  cp_session :: session
  cp_cache :: "balance_cache option"
  cp_meter :: meter_state

datatype compaction_error =
    MeterMismatch
  | StartNotInSurface nat
  | EndNotInSurface nat
  | StartPastEnd nat nat
  | StartNotBalanced nat
  | EndNotBalanced nat
  | PairingBroken pairing_error
  | SurfaceBroken surface_error
  | MeterBroken meter_error
  | CompactionActive
  | TurnIsOpen
  | NoTurnOpen
  | SurfaceChanged string
  | SummaryNotSmaller nat nat
  | SummarizerFailed string
  | AbortedCompaction
  | CompactionAppend session_error

datatype manual_code = Busy | Cancelled | Changed | Summary | Commit | Persistence

datatype compaction_failure = Raised compaction_error | Manual manual_code

record surface_selection =
  sel_start :: nat
  sel_end :: nat
  sel_start_idx :: nat
  sel_end_idx :: nat
  sel_shadowed :: "nat list"

record summarization_input =
  in_system :: "string option"
  in_tools :: "json list option"
  in_messages :: "message list"

record prepared_compaction =
  pr_selection :: surface_selection
  pr_measurement :: token_measurement
  pr_nodes :: "token_node list"
  pr_token_count :: int
  pr_input :: summarization_input

record summary_result =
  sr_summary :: "content_block list"
  sr_provider :: string
  sr_model :: string
  sr_max_tokens :: "int option"
  sr_usage :: "token_usage option"
  sr_raw_output :: "content_block list option"
  sr_llm_call :: bool

record transaction_options =
  to_current_turn :: bool
  to_whole_surface :: bool
  to_command :: "string option"
  to_flush :: bool

record entry_state =
  en_open_turn :: "int option"
  en_unmatched :: "session_event option"
  en_end_seed :: "nat option"

text \<open>
  What the transaction takes from its surroundings: the lengths of serialized values, the checks that
  may veto an append, the clock, the text of an error, and the JSON of blocks and usage in a record.
\<close>

record compaction_env =
  ce_lengths :: json_lengths
  ce_veto :: "session_event \<Rightarrow> string option"
  ce_clock :: "nat \<Rightarrow> int"
  ce_chain :: "compaction_error \<Rightarrow> string"
  ce_blocks :: "content_block list \<Rightarrow> json"
  ce_usage :: "token_usage \<Rightarrow> json"

definition set_session :: "session \<Rightarrow> compactor \<Rightarrow> compactor" where
  "set_session s st = st\<lparr> cp_session := s \<rparr>"

abbreviation cp_log :: "compactor \<Rightarrow> session_event list" where
  "cp_log st \<equiv> ses_log (cp_session st)"

definition cp_surface :: "compactor \<Rightarrow> compactor \<times> (compaction_error + nat list)" where
  "cp_surface st = (case session_surface (cp_session st) of
       (s, Inl x) \<Rightarrow> (set_session s st, Inl (SurfaceBroken x))
     | (s, Inr (nodes, _)) \<Rightarrow> (set_session s st, Inr nodes))"

definition cp_balanced :: "nat \<Rightarrow> compactor \<Rightarrow> nat \<Rightarrow> compactor \<times> (compaction_error + bool)" where
  "cp_balanced offset st seq =
     (case (if offset = 0 then tool_pairing_balanced_before else tool_pairing_balanced_after)
             (cp_session st) (cp_cache st) seq of
        (s, c, Inl x) \<Rightarrow> (st\<lparr> cp_session := s, cp_cache := c \<rparr>, Inl (PairingBroken x))
      | (s, c, Inr b) \<Rightarrow> (st\<lparr> cp_session := s, cp_cache := c \<rparr>, Inr b))"

definition cp_measure :: "json_lengths \<Rightarrow> compactor \<Rightarrow> compactor \<times> (compaction_error + token_measurement)" where
  "cp_measure j st = (case meter_measure j None (cp_meter st) (cp_log st) of
       (mt, Inl x) \<Rightarrow> (st\<lparr> cp_meter := mt \<rparr>, Inl (MeterBroken x))
     | (mt, Inr m) \<Rightarrow> (st\<lparr> cp_meter := mt \<rparr>, Inr m))"

definition cp_append ::
  "compaction_env \<Rightarrow> event_data \<Rightarrow> json option \<Rightarrow> json option \<Rightarrow> compactor
     \<Rightarrow> compactor \<times> (compaction_error + session_event)" where
  "cp_append env d op srcs st =
     (case append_event False (ce_veto env) (ce_clock env (length (cp_log st))) (cp_session st) d op srcs False of
        (s, Inl x) \<Rightarrow> (set_session s st, Inl (CompactionAppend x))
      | (s, Inr e) \<Rightarrow> (set_session s st, Inr e))"

section \<open>Selecting the range\<close>

text \<open>The first loop prices the tail, from the last node down; the second moves the cut to a balanced one.\<close>

fun keep_from :: "token_node list \<Rightarrow> nat \<Rightarrow> nat \<Rightarrow> nat \<Rightarrow> nat" where
  "keep_from ns retain accumulated 0 = 0"
| "keep_from ns retain accumulated (Suc i) =
     (let accumulated' = accumulated + tn_tokens (ns ! i) in
      if accumulated' \<ge> retain then i else keep_from ns retain accumulated' i)"

fun balanced_cut :: "nat list \<Rightarrow> nat \<Rightarrow> compactor \<Rightarrow> compactor \<times> (compaction_error + nat)" where
  "balanced_cut nodes 0 st = (st, Inr 0)"
| "balanced_cut nodes (Suc i) st = (case cp_balanced 0 st (nodes ! Suc i) of
       (st', Inl x) \<Rightarrow> (st', Inl x)
     | (st', Inr b) \<Rightarrow> if b then (st', Inr (Suc i)) else balanced_cut nodes i st')"

definition select_compactable_range ::
  "compactor \<Rightarrow> token_measurement \<Rightarrow> nat \<Rightarrow> compactor \<times> (compaction_error + (nat \<times> nat) option)" where
  "select_compactable_range st m retain =
     (let priced = me_nodes m in
      if length priced = 0 then (st, Inr None)
      else case cp_surface st of
          (st1, Inl x) \<Rightarrow> (st1, Inl x)
        | (st1, Inr nodes) \<Rightarrow>
            if length nodes \<noteq> length priced \<or> nodes \<noteq> map tn_seq priced then (st1, Inl MeterMismatch)
            else let k = keep_from priced retain 0 (length priced) in
              if k = 0 then (st1, Inr None)
              else (case balanced_cut nodes k st1 of
                  (st2, Inl x) \<Rightarrow> (st2, Inl x)
                | (st2, Inr i) \<Rightarrow>
                    if i = 0 then (st2, Inr None) else (st2, Inr (Some (nodes ! 0, nodes ! (i - 1))))))"

section \<open>Validation\<close>

definition validate_surface_region ::
  "compactor \<Rightarrow> nat \<Rightarrow> nat \<Rightarrow> compactor \<times> (compaction_error + surface_selection)" where
  "validate_surface_region st a b = (case cp_surface st of
       (st1, Inl x) \<Rightarrow> (st1, Inl x)
     | (st1, Inr nodes) \<Rightarrow>
         (case index_of a nodes of
            None \<Rightarrow> (st1, Inl (StartNotInSurface a))
          | Some i \<Rightarrow> (case index_of b nodes of
              None \<Rightarrow> (st1, Inl (EndNotInSurface b))
            | Some k \<Rightarrow>
                if i > k then (st1, Inl (StartPastEnd a b))
                else (case cp_balanced 0 st1 (nodes ! i) of
                    (st2, Inl x) \<Rightarrow> (st2, Inl x)
                  | (st2, Inr clear) \<Rightarrow>
                      if \<not> clear then (st2, Inl (StartNotBalanced a))
                      else (case cp_balanced 1 st2 (nodes ! k) of
                          (st3, Inl x) \<Rightarrow> (st3, Inl x)
                        | (st3, Inr settled) \<Rightarrow>
                            if \<not> settled then (st3, Inl (EndNotBalanced b))
                            else (st3, Inr \<lparr> sel_start = a, sel_end = b, sel_start_idx = i, sel_end_idx = k,
                                   sel_shadowed = take (k + 1 - i) (drop i nodes) \<rparr>))))))"

text \<open>The scan from the newest event back: each of the three facts is settled by the first event that tells it.\<close>

fun inspect_entry :: "bool \<Rightarrow> bool \<Rightarrow> entry_state \<Rightarrow> session_event list \<Rightarrow> entry_state" where
  "inspect_entry turn_known entry_known en [] = en"
| "inspect_entry turn_known entry_known en (e # es) =
     (let en1 = (if en_end_seed en = None \<and> ev_data e = EndSeed then en\<lparr> en_end_seed := Some (ev_seq e) \<rparr> else en);
          (en2, entry_known') =
            (if entry_known then (en1, True)
             else case ev_data e of
                 CompactionStart _ \<Rightarrow> (en1\<lparr> en_unmatched := Some e \<rparr>, True)
               | CompactionEnd _ _ \<Rightarrow> (en1, True)
               | _ \<Rightarrow> (en1, False));
          (en3, turn_known') =
            (if turn_known then (en2, True)
             else case ev_data e of
                 TurnStart t \<Rightarrow> (en2\<lparr> en_open_turn := Some t \<rparr>, True)
               | TurnEnd _ _ \<Rightarrow> (en2, True)
               | _ \<Rightarrow> (en2, False))
      in if turn_known' \<and> entry_known' \<and> en_end_seed en3 \<noteq> None then en3
         else inspect_entry turn_known' entry_known' en3 es)"

definition inspect_compaction_entry_state :: "session_event list \<Rightarrow> entry_state" where
  "inspect_compaction_entry_state evs =
     inspect_entry False False \<lparr> en_open_turn = None, en_unmatched = None, en_end_seed = None \<rparr> (rev evs)"

definition assert_compaction_inactive :: "entry_state \<Rightarrow> compaction_failure + unit" where
  "assert_compaction_inactive en = (case en_unmatched en of
       None \<Rightarrow> Inr ()
     | Some e \<Rightarrow> (case en_end_seed en of
         Some k \<Rightarrow> if k > ev_seq e then Inr () else Inl (Manual Busy)
       | None \<Rightarrow> Inl (Manual Busy)))"

definition assert_no_active_compaction :: "session \<Rightarrow> compaction_failure + unit" where
  "assert_no_active_compaction s = assert_compaction_inactive (inspect_compaction_entry_state (ses_log s))"

section \<open>Up to the summarizer\<close>

definition compaction_owner :: "transaction_options \<Rightarrow> entry_state \<Rightarrow> compaction_failure + int option" where
  "compaction_owner opts en =
     (if \<not> to_current_turn opts then
        (if en_open_turn en \<noteq> None then Inl (Manual Busy) else Inr None)
      else case en_open_turn en of None \<Rightarrow> Inl (Raised NoTurnOpen) | Some t \<Rightarrow> Inr (Some t))"

definition compaction_open ::
  "compaction_env \<Rightarrow> transaction_options \<Rightarrow> bool \<Rightarrow> string \<Rightarrow> nat \<Rightarrow> nat \<Rightarrow> compactor
     \<Rightarrow> compactor \<times> (compaction_failure + (session_event \<times> compaction_lifecycle \<times> surface_selection))" where
  "compaction_open env opts aborted uuid a b st =
     (if \<not> to_current_turn opts \<and> aborted then (st, Inl (Raised AbortedCompaction))
      else case validate_surface_region st a b of
          (st1, Inl x) \<Rightarrow> (st1, Inl (Raised x))
        | (st1, Inr sel) \<Rightarrow>
            let en = inspect_compaction_entry_state (cp_log st1) in
            (case bind_res (assert_compaction_inactive en) (\<lambda>_. compaction_owner opts en) of
               Inl x \<Rightarrow> (st1, Inl x)
             | Inr turn \<Rightarrow>
                 let life = \<lparr> cl_id = uuid, cl_source_command = to_command opts, cl_turn = turn \<rparr> in
                 (case cp_append env (CompactionStart life) None None st1 of
                    (st2, Inl x) \<Rightarrow> (st2, Inl (Raised x))
                  | (st2, Inr e) \<Rightarrow> (st2, Inr (e, life, sel)))))"

definition build_summarization_input :: "session \<Rightarrow> nat list \<Rightarrow> session \<times> summarization_input" where
  "build_summarization_input s shadowed = (case request_header s of (s', h) \<Rightarrow>
     (s', \<lparr> in_system = Option.bind h eh_system, in_tools = Option.bind h eh_tools,
            in_messages = messages_of (ses_log s) shadowed \<rparr>))"

definition prepare_compaction ::
  "compaction_env \<Rightarrow> surface_selection \<Rightarrow> compactor \<Rightarrow> compactor \<times> (compaction_error + prepared_compaction)" where
  "prepare_compaction env sel st = (case cp_measure (ce_lengths env) st of
       (st1, Inl x) \<Rightarrow> (st1, Inl x)
     | (st1, Inr m) \<Rightarrow>
         let selected = take (sel_end_idx sel + 1 - sel_start_idx sel) (drop (sel_start_idx sel) (me_nodes m)) in
         if length selected \<noteq> length (sel_shadowed sel) \<or> map tn_seq selected \<noteq> sel_shadowed sel
         then (st1, Inl (SurfaceChanged ''before summarization''))
         else (case build_summarization_input (cp_session st1) (sel_shadowed sel) of (s, input) \<Rightarrow>
           (set_session s st1, Inr \<lparr> pr_selection = sel, pr_measurement = m, pr_nodes = selected,
              pr_token_count = node_tokens selected, pr_input = input \<rparr>)))"


section \<open>The summary\<close>

definition summary_open_tag :: string where
  "summary_open_tag = ''<compacted-summary>''"

definition summary_close_tag :: string where
  "summary_close_tag = ''</compacted-summary>''"

definition checkpoint_preamble :: string where
  "checkpoint_preamble = ''This is an automatically generated checkpoint condensing an earlier span of the conversation to free up context. Treat the captured context as established background and build on it without restating it. Continue the task directly from the messages that follow, without acknowledging this checkpoint.''"

definition frame_summary :: "content_block list \<Rightarrow> content_block list" where
  "frame_summary bs =
     [TextBlock (checkpoint_preamble @ [CHR 0x0A, CHR 0x0A] @ summary_open_tag)] @ bs @ [TextBlock summary_close_tag]"

definition compact_marker :: string where
  "compact_marker = ''compact''"

definition compact_checkpoint_source :: "string \<Rightarrow> string option \<Rightarrow> message_source" where
  "compact_checkpoint_source i command = SrcPlugin compact_marker NoForm
     ((''compactionId'', JStr i) # (case command of None \<Rightarrow> [] | Some c \<Rightarrow> [(''sourceCommandId'', JStr c)]))"

definition is_compact_checkpoint_source :: "message_source \<Rightarrow> bool" where
  "is_compact_checkpoint_source src = (case src of SrcPlugin p _ _ \<Rightarrow> p = compact_marker | _ \<Rightarrow> False)"

fun block_has_image :: "content_block \<Rightarrow> bool" where
  "block_has_image (ImageBlock _) = True"
| "block_has_image (ToolResultBlock _ bs _) = list_ex block_has_image bs"
| "block_has_image _ = False"

definition content_has_image :: "content_block list \<Rightarrow> bool" where
  "content_has_image bs = list_ex block_has_image bs"

text \<open>The route of the summary: the configured pair, else the last routed request, else the pair of the agent's options.\<close>

definition summary_target ::
  "string \<times> string \<Rightarrow> (string \<times> string) option \<Rightarrow> string option \<times> string option \<Rightarrow> (string \<times> string) option" where
  "summary_target configured latest agent =
     (if fst configured \<noteq> [] then Some configured
      else case latest of
          Some t \<Rightarrow> Some t
        | None \<Rightarrow> (case agent of
            (Some p, Some m) \<Rightarrow> if p \<noteq> [] \<and> m \<noteq> [] then Some (p, m) else None
          | _ \<Rightarrow> None))"

datatype summary_failure =
    ProviderFailure llm_failure
  | Truncated
  | ImageOutput
  | NotAssembled assembly_error
  | NoSummaryText

definition finish_error :: "finish_reason \<Rightarrow> summary_failure option" where
  "finish_error r = (case r of
       FinError f \<Rightarrow> Some (ProviderFailure f)
     | FinAborted f \<Rightarrow> Some (ProviderFailure f)
     | FinMaxTokens \<Rightarrow> Some Truncated
     | _ \<Rightarrow> None)"

definition is_text_block :: "content_block \<Rightarrow> bool" where
  "is_text_block b = (case b of TextBlock _ \<Rightarrow> True | _ \<Rightarrow> False)"

definition summary_text :: "content_block list \<Rightarrow> summary_failure + content_block list" where
  "summary_text bs = (if content_has_image bs then Inl ImageOutput else Inr (filter is_text_block bs))"

definition summary_of_stream ::
  "string \<Rightarrow> string \<Rightarrow> int \<Rightarrow> stream_chunk list \<Rightarrow> summary_failure + summary_result" where
  "summary_of_stream provider model max_tokens chunks =
     (let a = push_all chunks in
      case finish_error (finish_of a) of
        Some x \<Rightarrow> Inl x
      | None \<Rightarrow> (case assembled_blocks a of
          Inl x \<Rightarrow> Inl (NotAssembled x)
        | Inr raw \<Rightarrow> bind_res (summary_text raw) (\<lambda>summary.
            if \<not> list_ex (\<lambda>b. case b of TextBlock t \<Rightarrow> list_ex (\<lambda>c. \<not> js_space c) t | _ \<Rightarrow> False) summary
            then Inl NoSummaryText
            else Inr \<lparr> sr_summary = summary, sr_provider = provider, sr_model = model,
                       sr_max_tokens = Some max_tokens, sr_usage = as_usage a, sr_raw_output = Some raw,
                       sr_llm_call = True \<rparr>)))"

section \<open>After the summarizer\<close>

definition checkpoint_message :: "string \<Rightarrow> compaction_lifecycle \<Rightarrow> content_block list \<Rightarrow> message" where
  "checkpoint_message uuid life bs =
     create_user_message uuid (frame_summary bs) (compact_checkpoint_source (cl_id life) (cl_source_command life))"

definition summarized_compaction ::
  "compaction_env \<Rightarrow> string \<Rightarrow> compaction_lifecycle \<Rightarrow> prepared_compaction \<Rightarrow> string + summary_result
     \<Rightarrow> compaction_error + (summary_result \<times> message)" where
  "summarized_compaction env uuid life prep answer = (case answer of
       Inl x \<Rightarrow> Inl (SummarizerFailed x)
     | Inr r \<Rightarrow>
         let m = checkpoint_message uuid life (sr_summary r);
             framed = estimate_message (ce_lengths env) m
         in if int framed \<ge> pr_token_count prep then Inl (SummaryNotSmaller framed (nat (pr_token_count prep)))
            else Inr (r, m))"

definition assert_whole_surface_unchanged ::
  "compaction_env \<Rightarrow> prepared_compaction \<Rightarrow> compactor \<Rightarrow> compactor \<times> (compaction_error + unit)" where
  "assert_whole_surface_unchanged env prep st = (case cp_measure (ce_lengths env) st of
       (st1, Inl x) \<Rightarrow> (st1, Inl x)
     | (st1, Inr m) \<Rightarrow>
         if me_nodes m \<noteq> me_nodes (pr_measurement prep) then (st1, Inl (SurfaceChanged ''during summarization''))
         else (st1, Inr ()))"

definition assert_selected_span_stable ::
  "compaction_env \<Rightarrow> prepared_compaction \<Rightarrow> compactor \<Rightarrow> compactor \<times> (compaction_error + unit)" where
  "assert_selected_span_stable env prep st =
     (let sel = pr_selection prep in
      case validate_surface_region st (sel_start sel) (sel_end sel) of
        (st1, Inl x) \<Rightarrow> (st1, Inl (SurfaceChanged ''no longer a valid replacement target''))
      | (st1, Inr now) \<Rightarrow>
          if sel_shadowed now \<noteq> sel_shadowed sel then (st1, Inl (SurfaceChanged ''the selected span changed''))
          else (case cp_measure (ce_lengths env) st1 of
              (st2, Inl x) \<Rightarrow> (st2, Inl x)
            | (st2, Inr m) \<Rightarrow>
                if take (sel_end_idx now + 1 - sel_start_idx now) (drop (sel_start_idx now) (me_nodes m)) \<noteq> pr_nodes prep
                then (st2, Inl (SurfaceChanged ''the selected span was rewritten''))
                else (st2, Inr ())))"

definition assert_stable ::
  "compaction_env \<Rightarrow> transaction_options \<Rightarrow> prepared_compaction \<Rightarrow> compactor \<Rightarrow> compactor \<times> (compaction_error + unit)" where
  "assert_stable env opts =
     (if to_whole_surface opts then assert_whole_surface_unchanged env else assert_selected_span_stable env)"

definition opt_member :: "string \<Rightarrow> json option \<Rightarrow> (string \<times> json) list" where
  "opt_member k v = (case v of None \<Rightarrow> [] | Some j \<Rightarrow> [(k, j)])"

definition summary_record ::
  "compaction_env \<Rightarrow> compaction_lifecycle \<Rightarrow> prepared_compaction \<Rightarrow> summary_result \<Rightarrow> event_data" where
  "summary_record env life prep r =
     (let sel = pr_selection prep in
      OtherEvent ''compaction/summary'' (JObj (
        [(''compactionId'', JStr (cl_id life))] @ opt_member ''sourceCommandId'' (map_option JStr (cl_source_command life))
        @ [(''summary'', ce_blocks env (sr_summary r))] @ opt_member ''rawOutput'' (map_option (ce_blocks env) (sr_raw_output r))
        @ (if sr_llm_call r then [(''llmStreamCall'', JBool True)] else [])
        @ [(''shadowedRange'', JObj [(''start'', num_of (sel_start sel)), (''end'', num_of (sel_end sel))]),
           (''shadowedSeqs'', seqs_json (sel_shadowed sel)), (''shadowedTokenCount'', JNum (of_int (pr_token_count prep))),
           (''provider'', JStr (sr_provider r)), (''model'', JStr (sr_model r))]
        @ opt_member ''maxTokens'' (map_option (\<lambda>n. JNum (of_int n)) (sr_max_tokens r))
        @ opt_member ''usage'' (map_option (ce_usage env) (sr_usage r)))))"

record compaction_result =
  cr_id :: string
  cr_start_seq :: nat
  cr_summary_seq :: nat
  cr_end_seq :: nat
  cr_shadowed :: "nat list"
  cr_tokens :: int

definition commit_compaction_body ::
  "compaction_env \<Rightarrow> session_event \<Rightarrow> compaction_lifecycle \<Rightarrow> prepared_compaction \<Rightarrow> summary_result \<times> message
     \<Rightarrow> compactor \<Rightarrow> compactor \<times> (compaction_error + nat)" where
  "commit_compaction_body env start_event life prep summarized st =
     (let sel = pr_selection prep in
      case cp_append env (summary_record env life prep (fst summarized)) None None st of
        (st1, Inl x) \<Rightarrow> (st1, Inl x)
      | (st1, Inr e) \<Rightarrow>
          (case cp_append env (UserMessage (snd summarized)) (Some (op_replace (sel_start sel) (sel_end sel)))
                  (Some (seqs_json ([ev_seq start_event, ev_seq e] @ sel_shadowed sel))) st1 of
             (st2, Inl x) \<Rightarrow> (st2, Inl x)
           | (st2, Inr _) \<Rightarrow> (st2, Inr (ev_seq e))))"

text \<open>
  One resumption: the outcome is a result, or the failure with the stage it counts as; \<open>closed\<close> tells
  whether the end record was appended. A failure of the end record itself is not followed by another attempt.
\<close>

datatype commit_stage = SummaryStage | CommitStage

record compaction_outcome =
  oc_closed :: bool
  oc_result :: "(compaction_error \<times> commit_stage) + compaction_result"

definition close_failed ::
  "compaction_env \<Rightarrow> compaction_lifecycle \<Rightarrow> compaction_error \<times> commit_stage \<Rightarrow> compactor \<Rightarrow> compactor \<times> compaction_outcome" where
  "close_failed env life failure st =
     (case cp_append env (CompactionEnd life (Some (ce_chain env (fst failure)))) None None st of
        (st1, Inl x) \<Rightarrow> (st1, \<lparr> oc_closed = False, oc_result = Inl (x, CommitStage) \<rparr>)
      | (st1, Inr _) \<Rightarrow> (st1, \<lparr> oc_closed = True, oc_result = Inl failure \<rparr>))"

definition close_committed ::
  "compaction_env \<Rightarrow> session_event \<Rightarrow> compaction_lifecycle \<Rightarrow> prepared_compaction \<Rightarrow> nat \<Rightarrow> compactor
     \<Rightarrow> compactor \<times> compaction_outcome" where
  "close_committed env start_event life prep summary_seq st =
     (case cp_append env (CompactionEnd life None) None None st of
        (st1, Inl x) \<Rightarrow> (st1, \<lparr> oc_closed = False, oc_result = Inl (x, CommitStage) \<rparr>)
      | (st1, Inr e) \<Rightarrow> (st1, \<lparr> oc_closed = True, oc_result = Inr
            \<lparr> cr_id = cl_id life, cr_start_seq = ev_seq start_event, cr_summary_seq = summary_seq,
              cr_end_seq = ev_seq e, cr_shadowed = sel_shadowed (pr_selection prep), cr_tokens = pr_token_count prep \<rparr> \<rparr>))"

definition compaction_resume ::
  "compaction_env \<Rightarrow> transaction_options \<Rightarrow> bool \<Rightarrow> string \<Rightarrow> session_event \<Rightarrow> compaction_lifecycle
     \<Rightarrow> prepared_compaction \<Rightarrow> string + summary_result \<Rightarrow> compactor \<Rightarrow> compactor \<times> compaction_outcome" where
  "compaction_resume env opts aborted uuid start_event life prep answer st =
     (case summarized_compaction env uuid life prep answer of
        Inl x \<Rightarrow> close_failed env life (x, SummaryStage) st
      | Inr summarized \<Rightarrow>
          if \<not> to_current_turn opts \<and> aborted then close_failed env life (AbortedCompaction, SummaryStage) st
          else (case assert_stable env opts prep st of
              (st1, Inl x) \<Rightarrow> close_failed env life (x, SummaryStage) st1
            | (st1, Inr _) \<Rightarrow>
                (case commit_compaction_body env start_event life prep summarized st1 of
                   (st2, Inl x) \<Rightarrow> close_failed env life (x, CommitStage) st2
                 | (st2, Inr summary_seq) \<Rightarrow> close_committed env start_event life prep summary_seq st2)))"

text \<open>From the start record to the summarizer, and the failure path of the preparation.\<close>

definition compaction_begin ::
  "compaction_env \<Rightarrow> transaction_options \<Rightarrow> bool \<Rightarrow> string \<Rightarrow> nat \<Rightarrow> nat \<Rightarrow> compactor
     \<Rightarrow> compactor \<times> (compaction_failure
          + (compaction_outcome + session_event \<times> compaction_lifecycle \<times> prepared_compaction))" where
  "compaction_begin env opts aborted uuid a b st = (case compaction_open env opts aborted uuid a b st of
       (st1, Inl x) \<Rightarrow> (st1, Inl x)
     | (st1, Inr (e, life, sel)) \<Rightarrow>
         (case prepare_compaction env sel st1 of
            (st2, Inl x) \<Rightarrow> (case close_failed env life (x, SummaryStage) st2 of (st3, oc) \<Rightarrow> (st3, Inr (Inl oc)))
          | (st2, Inr prep) \<Rightarrow> (st2, Inr (Inr (e, life, prep)))))"

definition throw_manual_failure :: "compaction_error \<times> commit_stage \<Rightarrow> compaction_failure" where
  "throw_manual_failure failure = (case failure of
       (_, CommitStage) \<Rightarrow> Manual Commit
     | (SurfaceChanged _, SummaryStage) \<Rightarrow> Manual Changed
     | (_, SummaryStage) \<Rightarrow> Manual Summary)"

text \<open>\<open>flush_failed\<close> is the answer of the durability checkpoint, asked only when the bracket was closed.\<close>

definition settle_compaction ::
  "transaction_options \<Rightarrow> bool \<Rightarrow> bool \<Rightarrow> compaction_outcome \<Rightarrow> compaction_failure + compaction_result" where
  "settle_compaction opts aborted flush_failed oc =
     (if \<not> to_current_turn opts \<and> aborted then Inl (Raised AbortedCompaction)
      else case oc_result oc of
          Inl failure \<Rightarrow> Inl (if \<not> to_current_turn opts then throw_manual_failure failure else Raised (fst failure))
        | Inr r \<Rightarrow> if oc_closed oc \<and> to_flush opts \<and> flush_failed then Inl (Manual Persistence) else Inr r)"

end
