(* ===== verification/Compaction_Run.thy ===== *)
theory Compaction_Run
  imports Compaction Log_Append
begin

text \<open>
  What the compaction transaction guarantees: the selected range has balanced edges and leaves the
  priced tail it must keep; a committed transaction replaces the selected span by one checkpoint of lower
  price and keeps every tool call paired; every started transaction ends its bracket once; and the
  start record excludes another transaction until the bracket ends.
\<close>

section \<open>The services keep their invariants\<close>

definition compactor_ok :: "json_lengths \<Rightarrow> compactor \<Rightarrow> bool" where
  "compactor_ok j st \<longleftrightarrow> session_ok (cp_session st) \<and> cache_ok (cp_session st) (cp_cache st)
     \<and> meter_inv j (cp_log st) (cp_meter st)"

lemma compactor_ok_log:
  assumes "compactor_ok j st" and "session_ok s" and "ses_log s = cp_log st @ ds"
  shows "compactor_ok j (set_session s st)"
proof -
  have "log_accepted (ses_log s)" using assms(2) by (simp add: session_ok_def)
  then have "meter_inv j (ses_log s) (cp_meter st)"
    using assms(1,3) meter_inv_grow by (simp add: compactor_ok_def)
  moreover have "cache_ok s (cp_cache st)"
    using cache_ok_longer [OF _ assms(3)] assms(1) by (simp add: compactor_ok_def)
  ultimately show ?thesis using assms(2) by (simp add: compactor_ok_def set_session_def)
qed

lemma set_session_log [simp]: "cp_log (set_session s st) = ses_log s" "cp_session (set_session s st) = s"
  by (simp_all add: set_session_def)

text \<open>A read leaves a good state with the same log.\<close>

definition reads :: "json_lengths \<Rightarrow> compactor \<Rightarrow> compactor \<Rightarrow> bool" where
  "reads j st st' \<longleftrightarrow> compactor_ok j st' \<and> cp_log st' = cp_log st"

lemma cp_surface_ok:
  assumes "compactor_ok j st" and "folded (cp_log st) fs reps"
  obtains st' where "cp_surface st = (st', Inr (fs_nodes fs))" and "reads j st st'"
proof -
  obtain s' where "session_surface (cp_session st) = (s', Inr (fs_nodes fs, fs_generation fs))"
    and s': "session_ok s'" "ses_log s' = cp_log st"
  proof -
    from assms(1) have ok: "session_ok (cp_session st)" by (simp add: compactor_ok_def)
    from ok have "manager_ok (ses_manager (cp_session st)) (cp_log st)" "sm_base (ses_manager (cp_session st)) = 0"
      "log_accepted (cp_log st)" by (simp_all add: session_ok_def)
    then obtain m reps' where sy: "sync_manager (ses_manager (cp_session st)) (cp_log st) = (m, None)"
      and m: "manager_ok m (cp_log st)" "sm_base m = 0"
      and run: "run_fold (surface_step (cp_log st) 0) (surface_start 0) (cp_log st) = Inr (length (cp_log st), sm_state m, reps')"
      by (rule sync_manager_accepted)
    have "sm_state m = fs" using assms(2) run by (simp add: folded_def)
    with sy session_ok_manager [OF ok m] that show thesis by (simp add: session_surface_def)
  qed
  then show thesis
    using that compactor_ok_log [OF assms(1) s'(1), of "[]"] s'(2) by (simp add: cp_surface_def reads_def)
qed

definition spec_result :: "pairing_error + bool \<Rightarrow> compaction_error + bool" where
  "spec_result r = (case r of Inl x \<Rightarrow> Inl (PairingBroken x) | Inr b \<Rightarrow> Inr b)"

lemma cp_balanced_ok:
  assumes ok: "compactor_ok j st" and f: "folded (cp_log st) fs reps" and off: "offset \<le> 1"
  obtains st' where "cp_balanced offset st seq = (st', spec_result (balance_spec (cp_log st) (fs_nodes fs) offset seq))"
    and "reads j st st'"
proof -
  have fun_eq: "(if offset = 0 then tool_pairing_balanced_before else tool_pairing_balanced_after) = balanced_at offset"
    using off by (cases offset) (auto simp: tool_pairing_balanced_before_def tool_pairing_balanced_after_def)
  obtain s c r where b: "balanced_at offset (cp_session st) (cp_cache st) seq = (s, c, r)"
    by (cases "balanced_at offset (cp_session st) (cp_cache st) seq") auto
  have "session_ok (cp_session st)" "cache_ok (cp_session st) (cp_cache st)" using ok by (simp_all add: compactor_ok_def)
  from balanced_at_step [OF this off b] folded_fold_surface [OF f]
  have r: "r = balance_spec (cp_log st) (fs_nodes fs) offset seq" and s: "session_ok s" "ses_log s = cp_log st" "cache_ok s c"
    by auto
  have "compactor_ok j (st\<lparr> cp_session := s, cp_cache := c \<rparr>)" using ok s by (simp add: compactor_ok_def)
  then show thesis
    using that [of "st\<lparr> cp_session := s, cp_cache := c \<rparr>"] s(2) b r unfolding cp_balanced_def fun_eq
    by (cases "balance_spec (cp_log st) (fs_nodes fs) offset seq") (auto simp: reads_def spec_result_def)
qed

lemma cp_measure_ok:
  assumes ok: "compactor_ok j st" and m: "cp_measure j st = (st', r)" and f: "folded (cp_log st) fs reps"
  shows "reads j st st' \<and> cp_session st' = cp_session st
    \<and> (\<forall>v. r = Inr v \<longrightarrow> me_nodes v = priced j (cp_log st) (fs_nodes fs))"
proof -
  obtain mt q where sy: "meter_sync j (cp_log st) (cp_meter st) (drop (mt_consumed (cp_meter st)) (cp_log st)) = (mt, q)"
    by (cases "meter_sync j (cp_log st) (cp_meter st) (drop (mt_consumed (cp_meter st)) (cp_log st))") auto
  have inv: "meter_inv j (cp_log st) mt" and c: "q = None \<Longrightarrow> mt_consumed mt = length (cp_log st)"
    using meter_inv_read [OF _ sy] ok by (simp_all add: compactor_ok_def)
  have st': "st' = st\<lparr> cp_meter := mt \<rparr>" and r: "r = (case q of Some x \<Rightarrow> Inl (MeterBroken x) | None \<Rightarrow> Inr (measurement_of j None mt))"
    using m sy by (auto simp: cp_measure_def meter_measure_def split: option.splits)
  have nodes: "mt_surface mt = priced j (cp_log st) (fs_nodes fs)" if "q = None"
    using inv c [OF that] f by (auto simp: meter_inv_def meter_ok_def folded_def)
  have "me_nodes (measurement_of j None mt) = mt_surface mt"
    by (simp add: measurement_of_def Let_def split_beta)
  with nodes r st' inv ok show ?thesis
    by (auto simp: reads_def compactor_ok_def split: option.splits)
qed

lemma cp_append_ok:
  assumes ok: "compactor_ok (ce_lengths env) st" and a: "cp_append env d op srcs st = (st', r)"
  shows "compactor_ok (ce_lengths env) st'
    \<and> (case r of Inl _ \<Rightarrow> cp_log st' = cp_log st
       | Inr e \<Rightarrow> cp_log st' = cp_log st @ [e]
           \<and> e = make_event (length (cp_log st)) (ce_clock env (length (cp_log st))) d op srcs False)"
proof -
  let ?now = "ce_clock env (length (cp_log st))"
  obtain s q where q: "append_event False (ce_veto env) ?now (cp_session st) d op srcs False = (s, q)"
    by (cases "append_event False (ce_veto env) ?now (cp_session st) d op srcs False") auto
  have s: "session_ok s" using append_event_ok [OF _ q] ok by (simp add: compactor_ok_def)
  from q show ?thesis
  proof (cases rule: append_event_cases)
    case (refused m x)
    then have "ses_log s = cp_log st @ []" by simp
    from compactor_ok_log [OF ok s this] refused a q show ?thesis by (auto simp: cp_append_def)
  next
    case (logged m e)
    then have "ses_log s = cp_log st @ [e]" by simp
    from compactor_ok_log [OF ok s this] logged a q show ?thesis by (auto simp: cp_append_def)
  qed
qed

section \<open>The selected region\<close>

text \<open>A selection describes a contiguous span of \<open>ns\<close> no tool call crosses the edges of.\<close>

definition region_ok :: "session_event list \<Rightarrow> nat list \<Rightarrow> surface_selection \<Rightarrow> bool" where
  "region_ok evs ns sel \<longleftrightarrow>
     index_of (sel_start sel) ns = Some (sel_start_idx sel) \<and> index_of (sel_end sel) ns = Some (sel_end_idx sel)
     \<and> sel_start_idx sel \<le> sel_end_idx sel
     \<and> sel_shadowed sel = take (sel_end_idx sel + 1 - sel_start_idx sel) (drop (sel_start_idx sel) ns)
     \<and> first_unpaired evs ns = None
     \<and> open_calls evs (take (sel_start_idx sel) ns) = 0 \<and> open_calls evs (take (sel_end_idx sel + 1) ns) = 0"

lemma spec_result_True: "spec_result (balance_spec evs ns offset seq) = Inr b \<Longrightarrow> index_of seq ns = Some i \<Longrightarrow>
    first_unpaired evs ns = None \<and> b = (open_calls evs (take (i + offset) ns) = 0)"
  by (auto simp: spec_result_def balance_spec_def split: option.splits)

lemma validate_surface_region_ok:
  assumes ok: "compactor_ok j st" and f: "folded (cp_log st) fs reps"
    and v: "validate_surface_region st a b = (st', r)"
  shows "reads j st st' \<and> (\<forall>sel. r = Inr sel \<longrightarrow> region_ok (cp_log st) (fs_nodes fs) sel \<and> sel_start sel = a \<and> sel_end sel = b)"
proof -
  obtain st1 where s1: "cp_surface st = (st1, Inr (fs_nodes fs))" and r1: "reads j st st1"
    by (rule cp_surface_ok [OF ok f])
  have ok1: "compactor_ok j st1" and l1: "cp_log st1 = cp_log st" using r1 by (simp_all add: reads_def)
  let ?ns = "fs_nodes fs" and ?l = "cp_log st"
  show ?thesis
  proof (cases "\<exists>i k. index_of a ?ns = Some i \<and> index_of b ?ns = Some k \<and> i \<le> k")
    case False
    with v s1 r1 show ?thesis
      by (auto simp: validate_surface_region_def reads_def simp del: index_of_None split: option.splits if_splits)
  next
    case True
    then obtain i k where idx: "index_of a ?ns = Some i" "index_of b ?ns = Some k" and le: "i \<le> k" by blast
    from idx have nth: "?ns ! i = a" "?ns ! k = b" by (simp_all add: index_of_Some)
    obtain st2 where b2: "cp_balanced 0 st1 a = (st2, spec_result (balance_spec ?l ?ns 0 a))" and r2: "reads j st1 st2"
      by (rule cp_balanced_ok [OF ok1, unfolded l1, OF f, of 0 a]) auto
    have ok2: "compactor_ok j st2" and l2: "cp_log st2 = ?l" using r2 l1 by (simp_all add: reads_def)
    obtain st3 where b3: "cp_balanced 1 st2 b = (st3, spec_result (balance_spec ?l ?ns 1 b))" and r3: "reads j st2 st3"
      by (rule cp_balanced_ok [OF ok2, unfolded l2, OF f, of 1 b]) auto
    have read: "reads j st st2" "reads j st st3" using r2 r3 l1 l2 by (simp_all add: reads_def)
    consider (before) x where "spec_result (balance_spec ?l ?ns 0 a) = Inl x" | (cut) "spec_result (balance_spec ?l ?ns 0 a) = Inr False"
      | (on) "spec_result (balance_spec ?l ?ns 0 a) = Inr True" by (cases "spec_result (balance_spec ?l ?ns 0 a)") auto
    then show ?thesis
    proof cases
      case on
      have "first_unpaired ?l ?ns = None" "open_calls ?l (take i ?ns) = 0" using spec_result_True [OF on idx(1)] by simp_all
      moreover have "open_calls ?l (take (k + 1) ?ns) = 0" if "spec_result (balance_spec ?l ?ns 1 b) = Inr True"
        using spec_result_True [OF that idx(2)] by simp
      ultimately show ?thesis
        using v s1 idx le b2 b3 on read nth
        by (auto simp: validate_surface_region_def region_ok_def simp del: One_nat_def split: sum.splits if_splits)
    qed (use v s1 idx le b2 read nth in \<open>auto simp: validate_surface_region_def\<close>)
  qed
qed


lemma open_calls_longer: "\<forall>n \<in> set ns. n < length evs \<Longrightarrow> open_calls (evs @ ds) ns = open_calls evs ns"
  unfolding open_calls_def by (intro arg_cong [of _ _ sum_list] map_cong refl) (simp add: nth_append)

lemma first_unpaired_None: "first_unpaired evs ns = None \<longleftrightarrow> (\<forall>p. prefix p ns \<longrightarrow> 0 \<le> open_calls evs p)"
proof -
  have "first_unpaired evs ns = None \<longleftrightarrow> (\<forall>i < length ns. 0 \<le> open_calls evs (take (Suc i) ns))"
    unfolding first_unpaired_def find_None_iff by (auto simp: not_less) (metis linorder_not_le)
  also have "\<dots> \<longleftrightarrow> (\<forall>p. prefix p ns \<longrightarrow> 0 \<le> open_calls evs p)"
  proof (intro iffI allI impI)
    fix p assume all: "\<forall>i < length ns. 0 \<le> open_calls evs (take (Suc i) ns)" and p: "prefix p ns"
    then have eq: "p = take (length p) ns" and le: "length p \<le> length ns"
      by (auto simp: prefix_def)
    show "0 \<le> open_calls evs p"
    proof (cases "length p")
      case (Suc i)
      with all le eq show ?thesis by (metis Suc_le_eq)
    qed simp
  qed (simp add: take_is_prefix)
  finally show ?thesis .
qed

lemma region_ok_longer:
  assumes "region_ok evs ns sel" and "\<forall>n \<in> set ns. n < length evs"
  shows "region_ok (evs @ ds) ns sel"
proof -
  have "open_calls (evs @ ds) p = open_calls evs p" if "set p \<subseteq> set ns" for p
    using open_calls_longer assms(2) that by blast
  then show ?thesis
    using assms(1) set_take_subset set_mono_prefix unfolding region_ok_def first_unpaired_None by metis
qed

lemma region_split:
  assumes "region_ok evs ns sel"
  obtains before after where "ns = before @ sel_shadowed sel @ after" and "length before = sel_start_idx sel"
    and "take (sel_start_idx sel) ns = before" and "take (sel_end_idx sel + 1) ns = before @ sel_shadowed sel"
    and "list_splice (sel_start_idx sel) (sel_end_idx sel - sel_start_idx sel + 1) [x] ns = before @ [x] @ after"
    and "open_calls evs before = 0" and "open_calls evs (sel_shadowed sel) = 0"
proof -
  let ?i = "sel_start_idx sel" and ?k = "sel_end_idx sel"
  from assms have le: "?i \<le> ?k" "?k < length ns"
    and sh: "sel_shadowed sel = take (?k + 1 - ?i) (drop ?i ns)"
    and bal: "open_calls evs (take ?i ns) = 0" "open_calls evs (take (?k + 1) ns) = 0"
    by (auto simp: region_ok_def dest: index_of_less)
  have n: "?k + 1 - ?i = ?k - ?i + 1" using le by simp
  have sh': "sel_shadowed sel = take (?k - ?i + 1) (drop ?i ns)" using sh n by simp
  have split: "ns = take ?i ns @ sel_shadowed sel @ drop (?i + (?k - ?i + 1)) ns"
    unfolding sh' by (rule split_three) (use le in simp)
  have tk: "take (?k + 1) ns = take ?i ns @ sel_shadowed sel"
    unfolding sh using le take_add [of ?i "?k + 1 - ?i" ns] by simp
  show thesis
    by (rule that [OF split _ refl tk]) (use le bal tk in \<open>simp_all add: list_splice_def\<close>)
qed

section \<open>Selecting a range\<close>

lemma keep_from_spec:
  "keep_from ns retain acc n = i \<Longrightarrow> n \<le> length ns \<Longrightarrow>
     i = 0 \<or> i < n \<and> retain \<le> acc + sum_list (map tn_tokens (drop i (take n ns)))"
proof (induction ns retain acc n rule: keep_from.induct)
  case (1 ns retain acc)
  then show ?case by simp
next
  case (2 ns retain acc n)
  have tk: "take (Suc n) ns = take n ns @ [ns ! n]" using 2(3) by (simp add: take_Suc_conv_app_nth)
  show ?case
  proof (cases "retain \<le> acc + tn_tokens (ns ! n)")
    case True
    with 2(2,3) tk show ?thesis by (auto simp: Let_def)
  next
    case False
    then have "keep_from ns retain (acc + tn_tokens (ns ! n)) n = i" using 2(2) by (simp add: Let_def)
    from 2(1) [OF refl False this] 2(3) tk show ?thesis by (auto simp: add.assoc)
  qed
qed

lemma balanced_cut_ok:
  assumes "compactor_ok j st" and "folded (cp_log st) fs reps"
    and "balanced_cut (fs_nodes fs) i st = (st', r)" and "i < length (fs_nodes fs)"
  shows "reads j st st' \<and> (\<forall>c. r = Inr c \<longrightarrow> c \<le> i
    \<and> (c = 0 \<or> first_unpaired (cp_log st) (fs_nodes fs) = None \<and> open_calls (cp_log st) (take c (fs_nodes fs)) = 0))"
  using assms
proof (induction i arbitrary: st)
  case 0
  then show ?case by (auto simp: reads_def)
next
  case (Suc i)
  let ?ns = "fs_nodes fs" and ?l = "cp_log st"
  have idx: "index_of (?ns ! Suc i) ?ns = Some (Suc i)"
    using index_of_nth_distinct folded_distinct Suc.prems(2,4) by blast
  obtain st1 where b: "cp_balanced 0 st (?ns ! Suc i) = (st1, spec_result (balance_spec ?l ?ns 0 (?ns ! Suc i)))"
    and r1: "reads j st st1"
    by (rule cp_balanced_ok [OF Suc.prems(1,2), of 0]) auto
  have ok1: "compactor_ok j st1" and l1: "cp_log st1 = ?l" using r1 by (simp_all add: reads_def)
  show ?case
  proof (cases "spec_result (balance_spec ?l ?ns 0 (?ns ! Suc i))")
    case (Inl x)
    with b r1 Suc.prems(3) show ?thesis by auto
  next
    case (Inr v)
    note v = spec_result_True [OF Inr idx]
    show ?thesis
    proof (cases v)
      case True
      with b r1 Suc.prems(3) Inr v show ?thesis by auto
    next
      case False
      with b Inr Suc.prems(3) have "balanced_cut ?ns i st1 = (st', r)" by simp
      from Suc.IH [OF ok1 _ this] Suc.prems(2,4) l1 r1 show ?thesis by (auto simp: reads_def)
    qed
  qed
qed

lemma cp_balanced_errors: "snd (cp_balanced offset st seq) \<noteq> Inl MeterMismatch"
  by (auto simp: cp_balanced_def split: prod.splits sum.splits)

lemma balanced_cut_errors: "balanced_cut ns i st = (st', r) \<Longrightarrow> r \<noteq> Inl MeterMismatch"
proof (induction i arbitrary: st)
  case 0
  then show ?case by auto
next
  case (Suc i)
  then show ?case using cp_balanced_errors [of 0 st "ns ! Suc i"] by (auto split: prod.splits sum.splits if_splits)
qed

lemma select_range_ok:
  assumes ok: "compactor_ok j st" and f: "folded (cp_log st) fs reps"
    and m: "me_nodes m = priced j (cp_log st) (fs_nodes fs)" and sel: "select_compactable_range st m retain = (st', r)"
  shows "reads j st st' \<and> r \<noteq> Inl MeterMismatch \<and> (\<forall>a b. r = Inr (Some (a, b)) \<longrightarrow>
     (\<exists>front tail. fs_nodes fs = front @ tail \<and> front \<noteq> [] \<and> tail \<noteq> [] \<and> a = hd front \<and> b = last front
        \<and> first_unpaired (cp_log st) (fs_nodes fs) = None \<and> open_calls (cp_log st) front = 0
        \<and> int retain \<le> surface_price j (cp_log st) tail))"
proof (cases "fs_nodes fs = []")
  case True
  with sel m ok show ?thesis by (auto simp: select_compactable_range_def priced_def reads_def)
next
  case False
  let ?ns = "fs_nodes fs" and ?l = "cp_log st"
  obtain st1 where s1: "cp_surface st = (st1, Inr ?ns)" and r1: "reads j st st1" by (rule cp_surface_ok [OF ok f])
  have ok1: "compactor_ok j st1" and l1: "cp_log st1 = ?l" using r1 by (simp_all add: reads_def)
  have len: "length (me_nodes m) = length ?ns" and seqs: "map tn_seq (me_nodes m) = ?ns"
    using m by (simp_all add: priced_def comp_def)
  have ne: "me_nodes m \<noteq> []" using len False by auto
  let ?k = "keep_from (me_nodes m) retain 0 (length ?ns)"
  show ?thesis
  proof (cases "?k = 0")
    case True
    with sel s1 r1 len seqs ne show ?thesis by (auto simp: select_compactable_range_def Let_def)
  next
    case k: False
    with keep_from_spec [OF refl, of "length ?ns" "me_nodes m" retain 0] len
    have kl: "?k < length ?ns" and price: "retain \<le> sum_list (map tn_tokens (drop ?k (me_nodes m)))" by auto
    obtain st2 c where cut: "balanced_cut ?ns ?k st1 = (st2, c)" by (cases "balanced_cut ?ns ?k st1") auto
    note c = balanced_cut_ok [OF ok1 _ cut kl, unfolded l1, OF f]
    have r2: "reads j st st2" using c r1 l1 by (simp add: reads_def)
    have st': "st' = st2 \<and> r = (case c of Inl x \<Rightarrow> Inl x
        | Inr i \<Rightarrow> if i = 0 then Inr None else Inr (Some (?ns ! 0, ?ns ! (i - 1))))"
      using sel s1 len seqs ne k cut by (auto simp: select_compactable_range_def Let_def split: sum.splits if_splits)
    have "c \<noteq> Inl MeterMismatch"
      using balanced_cut_errors [of ?ns ?k st1 st2] cut by auto
    moreover have "\<exists>front tail. ?ns = front @ tail \<and> front \<noteq> [] \<and> tail \<noteq> [] \<and> ?ns ! 0 = hd front \<and> ?ns ! (i - 1) = last front
        \<and> first_unpaired ?l ?ns = None \<and> open_calls ?l front = 0 \<and> int retain \<le> surface_price j ?l tail"
      if i: "c = Inr i" "i \<noteq> 0" for i
    proof -
      have le: "i \<le> ?k" and pair: "first_unpaired ?l ?ns = None" "open_calls ?l (take i ?ns) = 0" using c i by auto
      have "sum_list (map tn_tokens (drop ?k (me_nodes m))) \<le> sum_list (map tn_tokens (drop i (me_nodes m)))"
        using le append_take_drop_id [of "?k - i" "drop i (me_nodes m)"]
        by (metis (no_types, lifting) drop_drop le_add2 le_add_diff_inverse2 map_append sum_list.append)
      moreover have "int (sum_list (map f xs)) = sum_list (map (\<lambda>x. int (f x)) xs)" for f and xs :: "nat list"
        by (induction xs) simp_all
      then have "int (sum_list (map tn_tokens (drop i (me_nodes m)))) = surface_price j ?l (drop i ?ns)"
        unfolding m priced_def surface_price_def drop_map by (simp add: comp_def)
      ultimately have "int retain \<le> surface_price j ?l (drop i ?ns)" using price by linarith
      moreover have ne': "?ns \<noteq> []" and ti: "take i ?ns \<noteq> []" using i le kl by auto
      moreover have "?ns ! 0 = hd (take i ?ns)" using ne' ti by (simp add: hd_conv_nth)
      moreover have "?ns ! (i - 1) = last (take i ?ns)" using ti i le kl by (simp add: last_conv_nth)
      ultimately show ?thesis using pair i le kl
        by - (rule exI [of _ "take i ?ns"], rule exI [of _ "drop i ?ns"], simp)
    qed
    ultimately show ?thesis using st' r2 by (auto split: sum.splits if_splits)
  qed
qed


section \<open>From the start record to the summarizer\<close>

definition prepared_ok :: "json_lengths \<Rightarrow> session_event list \<Rightarrow> prepared_compaction \<Rightarrow> bool" where
  "prepared_ok j evs prep \<longleftrightarrow> (\<exists>ns. (\<forall>n \<in> set ns. n < length evs) \<and> me_nodes (pr_measurement prep) = priced j evs ns
     \<and> region_ok evs ns (pr_selection prep)
     \<and> pr_nodes prep = priced j evs (sel_shadowed (pr_selection prep))
     \<and> pr_token_count prep = surface_price j evs (sel_shadowed (pr_selection prep)))"

lemma priced_longer:
  assumes "\<forall>n \<in> set ns. n < length evs"
  shows "priced j (evs @ ds) ns = priced j evs ns" and "surface_price j (evs @ ds) ns = surface_price j evs ns"
  using assms unfolding priced_def surface_price_def
  by (auto intro!: arg_cong [of _ _ sum_list] simp: nth_append)

lemma region_shadowed_subset: "region_ok evs ns sel \<Longrightarrow> set (sel_shadowed sel) \<subseteq> set ns"
  unfolding region_ok_def by (metis order_trans set_drop_subset set_take_subset)

lemma prepared_ok_longer:
  assumes "prepared_ok j evs prep"
  shows "prepared_ok j (evs @ ds) prep"
proof -
  from assms obtain ns where ns: "\<forall>n \<in> set ns. n < length evs" and m: "me_nodes (pr_measurement prep) = priced j evs ns"
    and reg: "region_ok evs ns (pr_selection prep)"
    and rest: "pr_nodes prep = priced j evs (sel_shadowed (pr_selection prep))"
      "pr_token_count prep = surface_price j evs (sel_shadowed (pr_selection prep))"
    by (auto simp: prepared_ok_def)
  have sh: "\<forall>n \<in> set (sel_shadowed (pr_selection prep)). n < length evs"
    using region_shadowed_subset [OF reg] ns by blast
  show ?thesis
    unfolding prepared_ok_def using ns m rest priced_longer [OF ns] priced_longer [OF sh] region_ok_longer [OF reg ns]
    by (intro exI [of _ ns]) auto
qed

lemma cp_append_plain:
  assumes "compactor_ok (ce_lengths env) st" and "cp_append env d None None st = (st', Inr e)"
    and "folded (cp_log st) fs reps" and "\<not> is_surface_eligible_type (data_type d)"
  shows "compactor_ok (ce_lengths env) st' \<and> cp_log st' = cp_log st @ [e] \<and> ev_data e = d
    \<and> ev_seq e = length (cp_log st) \<and> folded (cp_log st @ [e]) fs reps"
  using cp_append_ok [OF assms(1,2)] folded_plain [OF assms(3,4)] by (auto simp: make_event_def)

lemma compaction_types [simp]:
  "\<not> is_surface_eligible_type (data_type (CompactionStart l))"
  "\<not> is_surface_eligible_type (data_type (CompactionEnd l x))"
  "\<not> is_surface_eligible_type (data_type (summary_record env life prep r))"
  "is_surface_eligible_type (data_type (UserMessage m))"
  by (simp_all add: is_surface_eligible_type_def surface_event_types_def summary_record_def Let_def)

lemma compaction_open_ok:
  assumes ok: "compactor_ok (ce_lengths env) st" and f: "folded (cp_log st) fs reps"
    and op: "compaction_open env opts aborted uuid a b st = (st', r)"
  shows "compactor_ok (ce_lengths env) st' \<and> (case r of
      Inl _ \<Rightarrow> cp_log st' = cp_log st
    | Inr (e, life, sel) \<Rightarrow> cp_log st' = cp_log st @ [e] \<and> ev_data e = CompactionStart life \<and> ev_seq e = length (cp_log st)
        \<and> folded (cp_log st') fs reps \<and> region_ok (cp_log st) (fs_nodes fs) sel
        \<and> assert_compaction_inactive (inspect_compaction_entry_state (cp_log st)) = Inr ())"
proof (cases "\<not> to_current_turn opts \<and> aborted")
  case True
  with op ok show ?thesis by (auto simp: compaction_open_def)
next
  case False
  obtain st1 q where v: "validate_surface_region st a b = (st1, q)" by (cases "validate_surface_region st a b") auto
  note vok = validate_surface_region_ok [OF ok f v]
  have ok1: "compactor_ok (ce_lengths env) st1" and l1: "cp_log st1 = cp_log st" using vok by (simp_all add: reads_def)
  show ?thesis
  proof (cases q)
    case (Inl x)
    with op v False ok1 l1 show ?thesis by (auto simp: compaction_open_def)
  next
    case (Inr sel)
    have reg: "region_ok (cp_log st) (fs_nodes fs) sel" using vok Inr by simp
    let ?en = "inspect_compaction_entry_state (cp_log st)"
    show ?thesis
    proof (cases "bind_res (assert_compaction_inactive ?en) (\<lambda>_. compaction_owner opts ?en)")
      case (Inl x)
      with op v False Inr ok1 l1 \<open>q = Inr sel\<close> show ?thesis by (auto simp: compaction_open_def Let_def)
    next
      case (Inr turn)
      let ?life = "\<lparr> cl_id = uuid, cl_source_command = to_command opts, cl_turn = turn \<rparr>"
      obtain st2 y where ap: "cp_append env (CompactionStart ?life) None None st1 = (st2, y)"
        by (cases "cp_append env (CompactionStart ?life) None None st1") auto
      have r: "st' = st2 \<and> r = (case y of Inl x \<Rightarrow> Inl (Raised x) | Inr e \<Rightarrow> Inr (e, ?life, sel))"
        using op v False Inr ap l1 \<open>q = Inr sel\<close> by (auto simp: compaction_open_def Let_def split: sum.splits)
      show ?thesis
      proof (cases y)
        case (Inl x)
        with r cp_append_ok [OF ok1 ap] l1 show ?thesis by simp
      next
        case (Inr e)
        from cp_append_plain [OF ok1 ap [unfolded Inr] _ compaction_types(1), unfolded l1, OF f]
        have "compactor_ok (ce_lengths env) st2" "cp_log st2 = cp_log st @ [e]" "ev_data e = CompactionStart ?life"
          "ev_seq e = length (cp_log st)" "folded (cp_log st @ [e]) fs reps" by auto
        moreover have "assert_compaction_inactive ?en = Inr ()"
          using \<open>bind_res _ _ = Inr turn\<close> by (cases "assert_compaction_inactive ?en") auto
        ultimately show ?thesis using r Inr reg by simp
      qed
    qed
  qed
qed

lemma prepare_compaction_ok:
  assumes ok: "compactor_ok (ce_lengths env) st" and f: "folded (cp_log st) fs reps"
    and reg: "region_ok (cp_log st) (fs_nodes fs) sel" and p: "prepare_compaction env sel st = (st', r)"
  shows "reads (ce_lengths env) st st'
    \<and> (\<forall>prep. r = Inr prep \<longrightarrow> prepared_ok (ce_lengths env) (cp_log st) prep \<and> pr_selection prep = sel)"
proof -
  let ?j = "ce_lengths env" and ?ns = "fs_nodes fs"
  obtain st1 q where m: "cp_measure ?j st = (st1, q)" by (cases "cp_measure ?j st") auto
  note mok = cp_measure_ok [OF ok m f]
  show ?thesis
  proof (cases q)
    case (Inl x)
    with p m mok show ?thesis by (auto simp: prepare_compaction_def)
  next
    case (Inr v)
    have nodes: "me_nodes v = priced ?j (cp_log st) ?ns" using mok Inr by simp
    let ?selected = "take (sel_end_idx sel + 1 - sel_start_idx sel) (drop (sel_start_idx sel) (me_nodes v))"
    have selected: "?selected = priced ?j (cp_log st) (sel_shadowed sel)"
      using reg unfolding nodes priced_def region_ok_def by (simp add: take_map drop_map)
    obtain s h where h: "request_header (cp_session st1) = (s, h)" by (cases "request_header (cp_session st1)") auto
    have ok1: "compactor_ok ?j st1" "cp_log st1 = cp_log st" using mok by (simp_all add: reads_def)
    have s: "session_ok s" "ses_log s = cp_log st1"
      using request_header_ok [of "cp_session st1"] ok1(1) h
      by (auto simp: compactor_ok_def request_header_def Let_def split: if_splits)
    have "compactor_ok ?j (set_session s st1)" using compactor_ok_log [OF ok1(1) s(1), of "[]"] s(2) by simp
    with p m Inr h s(2) ok1(2) have st': "reads ?j st st'"
      by (auto simp: prepare_compaction_def build_summarization_input_def Let_def reads_def split: if_splits)
        (use mok in \<open>simp_all add: reads_def\<close>)
    have "prepared_ok ?j (cp_log st) prep \<and> pr_selection prep = sel" if "r = Inr prep" for prep
    proof -
      have prep: "pr_selection prep = sel" "pr_measurement prep = v" "pr_nodes prep = ?selected"
        "pr_token_count prep = node_tokens ?selected"
        using p m Inr h that by (auto simp: prepare_compaction_def build_summarization_input_def Let_def split: if_splits)
      have "\<forall>n \<in> set ?ns. n < length (cp_log st)" using folded_nodes(1) [OF f] by blast
      with prep nodes reg selected show ?thesis unfolding prepared_ok_def by auto
    qed
    with st' show ?thesis by blast
  qed
qed

lemma close_failed_ok:
  assumes "compactor_ok (ce_lengths env) st" and "close_failed env life failure st = (st', oc)"
  shows "compactor_ok (ce_lengths env) st' \<and> (\<exists>x. oc_result oc = Inl x)
    \<and> (if oc_closed oc then \<exists>e. cp_log st' = cp_log st @ [e] \<and> ev_data e = CompactionEnd life (Some (ce_chain env (fst failure)))
       else cp_log st' = cp_log st)"
proof -
  obtain st1 y where a: "cp_append env (CompactionEnd life (Some (ce_chain env (fst failure)))) None None st = (st1, y)"
    by (cases "cp_append env (CompactionEnd life (Some (ce_chain env (fst failure)))) None None st") auto
  from cp_append_ok [OF assms(1) a] assms(2) a show ?thesis
    by (cases y) (auto simp: close_failed_def make_event_def)
qed

lemma close_committed_ok:
  assumes "compactor_ok (ce_lengths env) st" and "close_committed env start_event life prep k st = (st', oc)"
  shows "compactor_ok (ce_lengths env) st'
    \<and> (if oc_closed oc then (\<exists>x. oc_result oc = Inr x) \<and> (\<exists>e. cp_log st' = cp_log st @ [e] \<and> ev_data e = CompactionEnd life None
           \<and> (\<forall>fs reps. folded (cp_log st) fs reps \<longrightarrow> folded (cp_log st') fs reps))
       else cp_log st' = cp_log st \<and> (\<exists>x. oc_result oc = Inl x))"
proof -
  obtain st1 y where a: "cp_append env (CompactionEnd life None) None None st = (st1, y)"
    by (cases "cp_append env (CompactionEnd life None) None None st") auto
  show ?thesis
  proof (cases y)
    case (Inl x)
    with cp_append_ok [OF assms(1) a] assms(2) a show ?thesis by (auto simp: close_committed_def)
  next
    case (Inr e)
    have f: "folded (cp_log st1) fs reps" if "folded (cp_log st) fs reps" for fs reps
      using cp_append_plain [OF assms(1) a [unfolded Inr] that compaction_types(2)] by auto
    from Inr cp_append_ok [OF assms(1) a] have ap: "compactor_ok (ce_lengths env) st1" "cp_log st1 = cp_log st @ [e]"
      "ev_data e = CompactionEnd life None" by (simp_all add: make_event_def)
    have "st' = st1" "oc_closed oc" "\<exists>x. oc_result oc = Inr x"
      using assms(2) a Inr by (simp_all add: close_committed_def prod_eq_iff split: prod.splits) (auto simp: close_committed_def)
    with ap f show ?thesis by auto
  qed
qed

end
