(* ===== verification/Compaction_Commit.thy ===== *)
theory Compaction_Commit
  imports Compaction_Run Result_Pruner
begin

text \<open>
  The second half of a compaction transaction and the theorems about whole transactions: what holds of the
  span when the summarizer answers, what the two records of a commit do to the surface, its price and
  its pairing, how often a bracket is closed, and what the start record excludes.
\<close>

section \<open>The two halves of a transaction\<close>

lemma compaction_begin_ok:
  assumes ok: "compactor_ok (ce_lengths env) st" and b: "compaction_begin env opts aborted uuid a b st = (st', Inr (Inr (e, life, prep)))"
  shows "compactor_ok (ce_lengths env) st' \<and> cp_log st' = cp_log st @ [e] \<and> ev_data e = CompactionStart life
    \<and> ev_seq e = length (cp_log st) \<and> prepared_ok (ce_lengths env) (cp_log st') prep
    \<and> assert_compaction_inactive (inspect_compaction_entry_state (cp_log st)) = Inr ()"
proof -
  from ok obtain fs reps where f: "folded (cp_log st) fs reps"
    using session_ok_folded by (auto simp: compactor_ok_def)
  obtain st1 q where op: "compaction_open env opts aborted uuid a b st = (st1, q)"
    by (cases "compaction_open env opts aborted uuid a b st") auto
  note o = compaction_open_ok [OF ok f op]
  from b op obtain e' life' sel where q: "q = Inr (e', life', sel)"
    by (auto simp: compaction_begin_def split: sum.splits prod.splits)
  obtain st2 p where p: "prepare_compaction env sel st1 = (st2, p)" by (cases "prepare_compaction env sel st1") auto
  have eqs: "p = Inr prep" "e' = e" "life' = life" "st2 = st'"
    using b op q p by (auto simp: compaction_begin_def split: sum.splits prod.splits)
  have ok1: "compactor_ok (ce_lengths env) st1" and l1: "cp_log st1 = cp_log st @ [e]" and f1: "folded (cp_log st1) fs reps"
    using o q eqs by auto
  have "\<forall>n \<in> set (fs_nodes fs). n < length (cp_log st)" using folded_nodes(1) [OF f] by blast
  then have reg: "region_ok (cp_log st1) (fs_nodes fs) sel"
    using o q region_ok_longer unfolding l1 by simp
  note pc = prepare_compaction_ok [OF ok1 f1 reg p]
  then show ?thesis using o q eqs l1 by (auto simp: reads_def)
qed

text \<open>When the log has only grown, a stable span is still one contiguous, balanced part of the surface, at its first price.\<close>

lemma priced_nodes: "priced j evs ns = priced j evs' ms \<Longrightarrow> ns = ms"
  by (metis priced_simps(3))

lemma assert_stable_ok:
  assumes ok: "compactor_ok (ce_lengths env) st" and f: "folded (cp_log st) fs reps"
    and prep: "prepared_ok (ce_lengths env) evs prep" and longer: "cp_log st = evs @ ds"
    and a: "assert_stable env opts prep st = (st', r)"
  shows "reads (ce_lengths env) st st' \<and> (r = Inr () \<longrightarrow> (\<exists>now. region_ok (cp_log st) (fs_nodes fs) now
      \<and> sel_start now = sel_start (pr_selection prep) \<and> sel_end now = sel_end (pr_selection prep)
      \<and> sel_shadowed now = sel_shadowed (pr_selection prep)))"
proof (cases "to_whole_surface opts")
  case True
  let ?j = "ce_lengths env"
  obtain st1 q where m: "cp_measure ?j st = (st1, q)" by (cases "cp_measure ?j st") auto
  note mok = cp_measure_ok [OF ok m f]
  have "st' = st1"
    using a m True by (cases q) (auto simp: assert_stable_def assert_whole_surface_unchanged_def split: if_splits)
  with mok have st': "reads ?j st st'" by simp
  obtain ns where ns: "\<forall>n \<in> set ns. n < length evs" "me_nodes (pr_measurement prep) = priced ?j evs ns"
    "region_ok evs ns (pr_selection prep)" using prep by (auto simp: prepared_ok_def)
  have "region_ok (cp_log st) (fs_nodes fs) (pr_selection prep)" if finished: "r = Inr ()"
  proof -
    obtain v where "q = Inr v" "me_nodes v = me_nodes (pr_measurement prep)"
      using a m True finished by (auto simp: assert_stable_def assert_whole_surface_unchanged_def split: sum.splits if_splits)
    then have "fs_nodes fs = ns" using mok ns(2) priced_nodes by metis
    with region_ok_longer [OF ns(3,1)] longer show ?thesis by simp
  qed
  with st' show ?thesis by blast
next
  case False
  let ?sel = "pr_selection prep"
  obtain st1 q where v: "validate_surface_region st (sel_start ?sel) (sel_end ?sel) = (st1, q)"
    by (cases "validate_surface_region st (sel_start ?sel) (sel_end ?sel)") auto
  note vok = validate_surface_region_ok [OF ok f v]
  have ok1: "compactor_ok (ce_lengths env) st1" and l1: "cp_log st1 = cp_log st" using vok by (simp_all add: reads_def)
  obtain st2 p where m: "cp_measure (ce_lengths env) st1 = (st2, p)" by (cases "cp_measure (ce_lengths env) st1") auto
  have r2: "reads (ce_lengths env) st st2" using cp_measure_ok [OF ok1 m, unfolded l1, OF f] l1 by (simp add: reads_def)
  from a v m False have "st' = st1 \<or> st' = st2"
    by (auto simp: assert_stable_def assert_selected_span_stable_def Let_def split: sum.splits if_splits)
  moreover have "\<exists>now. q = Inr now \<and> sel_shadowed now = sel_shadowed ?sel" if "r = Inr ()"
    using a v m False that
    by (auto simp: assert_stable_def assert_selected_span_stable_def Let_def split: sum.splits if_splits)
  ultimately show ?thesis using vok r2 by auto
qed

section \<open>The commit\<close>

lemma metering_claim_summary:
  "metering_claim (make_event k now (summary_record env life prep r) None None ign)
     = Some \<lparr> cm_start = int (sel_start (pr_selection prep)), cm_end = int (sel_end (pr_selection prep)),
              cm_tokens = pr_token_count prep \<rparr>"
proof -
  have skip: "map_of (opt_member k v @ xs) k' = map_of xs k'" if "k \<noteq> k'" for k v xs k'
    using that by (simp add: opt_member_def split: option.split)
  have flag: "map_of ((if b then [(''llmStreamCall'', x)] else []) @ xs) k' = map_of xs k'"
    if "k' \<noteq> ''llmStreamCall''" for b x xs k' using that by simp
  obtain ps where rec: "summary_record env life prep r = OtherEvent ''compaction/summary'' (JObj ps)"
    and range: "map_of ps ''shadowedRange'' = Some (JObj [(''start'', num_of (sel_start (pr_selection prep))),
        (''end'', num_of (sel_end (pr_selection prep)))])"
    and count: "map_of ps ''shadowedTokenCount'' = Some (JNum (of_int (pr_token_count prep)))"
    by (simp only: summary_record_def Let_def append_Cons append_Nil)
      (simp del: map_of_append add: skip flag)
  show ?thesis
    by (simp add: metering_claim_def make_event_def rec claim_of_def obj_int_def num_of_def range count)
qed

lemma commit_body_ok:
  assumes ok: "compactor_ok (ce_lengths env) st" and f: "folded (cp_log st) fs reps"
    and reg: "region_ok (cp_log st) (fs_nodes fs) now" and sel: "sel_start now = sel_start (pr_selection prep)"
      "sel_end now = sel_end (pr_selection prep)" "sel_shadowed now = sel_shadowed (pr_selection prep)"
    and start: "ev_seq e0 < length (cp_log st)" "ev_seq e0 \<notin> set (fs_nodes fs)"
    and small: "int (length (cp_log st)) + 2 \<le> max_safe"
    and c: "commit_compaction_body env e0 life prep res st = (st', Inr k)"
  obtains e1 e2 fs' where "compactor_ok (ce_lengths env) st'" and "k = length (cp_log st)" and "cp_log st' = cp_log st @ [e1, e2]"
    and "metering_claim e1 = Some \<lparr> cm_start = int (sel_start (pr_selection prep)), cm_end = int (sel_end (pr_selection prep)),
           cm_tokens = pr_token_count prep \<rparr>"
    and "ev_data e2 = UserMessage (snd res)"
    and "folded (cp_log st') fs' (reps @ [\<lparr> rep_seq = length (cp_log st) + 1, rep_start = sel_start (pr_selection prep),
           rep_end = sel_end (pr_selection prep), rep_shadowed = sel_shadowed (pr_selection prep) \<rparr>])"
    and "fs_nodes fs' = list_splice (sel_start_idx now) (sel_end_idx now - sel_start_idx now + 1) [length (cp_log st) + 1] (fs_nodes fs)"
proof -
  let ?l = "cp_log st" and ?d = "summary_record env life prep (fst res)" and ?sel = "pr_selection prep"
  let ?srcs = "\<lambda>e1. [ev_seq e0, ev_seq e1] @ sel_shadowed ?sel"
  obtain st1 q where a1: "cp_append env ?d None None st = (st1, q)" by (cases "cp_append env ?d None None st") auto
  from c a1 obtain e1 where q: "q = Inr e1" by (cases q) (simp_all add: commit_compaction_body_def)
  note p1 = cp_append_plain [OF ok a1 [unfolded q] f compaction_types(3)]
  have e1: "e1 = make_event (length ?l) (ce_clock env (length ?l)) ?d None None False"
    using cp_append_ok [OF ok a1] q by simp
  have ok1: "compactor_ok (ce_lengths env) st1" and l1: "cp_log st1 = ?l @ [e1]" and s1: "ev_seq e1 = length ?l"
    and f1: "folded (cp_log st1) fs reps" using p1 by auto
  let ?op = "op_replace (sel_start ?sel) (sel_end ?sel)"
  obtain st2 q2 where a2': "cp_append env (UserMessage (snd res)) (Some ?op) (Some (seqs_json (?srcs e1))) st1 = (st2, q2)"
    by (cases "cp_append env (UserMessage (snd res)) (Some ?op) (Some (seqs_json (?srcs e1))) st1") auto
  have "(case (st2, q2) of (st2, Inl x) \<Rightarrow> (st2, Inl x) | (st2, Inr _) \<Rightarrow> (st2, Inr (ev_seq e1))) = (st', Inr k)"
    using c unfolding commit_compaction_body_def Let_def a1 q prod.case sum.case a2' .
  then obtain e2 where q2: "q2 = Inr e2" and k: "k = ev_seq e1" and "st2 = st'" by (cases q2) simp_all
  note a2 = a2' [unfolded this(3)]
  have lt: "sel_start_idx now \<le> sel_end_idx now" and idx: "index_of (sel_start ?sel) (fs_nodes fs) = Some (sel_start_idx now)"
    "index_of (sel_end ?sel) (fs_nodes fs) = Some (sel_end_idx now)" using reg sel by (simp_all add: region_ok_def)
  have sh: "sel_shadowed ?sel = take (sel_end_idx now - sel_start_idx now + 1) (drop (sel_start_idx now) (fs_nodes fs))"
    using reg sel lt by (simp add: region_ok_def Suc_diff_le)
  have sub: "set (sel_shadowed ?sel) \<subseteq> set (fs_nodes fs)" using region_shadowed_subset [OF reg] sel by simp
  have bound: "n < length ?l" if "n \<in> set (fs_nodes fs)" for n using folded_nodes(1) [OF f that] .
  have dist: "distinct (sel_shadowed ?sel)" unfolding sh using folded_distinct [OF f] by simp
  let ?e2 = "make_event (length (cp_log st1)) (ce_clock env (length (cp_log st1))) (UserMessage (snd res)) (Some ?op)
      (Some (seqs_json (?srcs e1))) False"
  have e2: "e2 = ?e2" "compactor_ok (ce_lengths env) st'" "cp_log st' = cp_log st1 @ [e2]"
    using cp_append_ok [OF ok1 a2] q2 by auto
  have srcs: "distinct (?srcs e1)" "\<forall>n \<in> set (?srcs e1). n < length (cp_log st1)"
    using dist start sub bound s1 unfolding l1 by (auto simp: less_Suc_eq)
  have small': "int (length (cp_log st1)) \<le> max_safe" using small l1 by simp
  have rw: "assert_tool_result_rewrite ?e2 xs (cp_log st1) 0 = Inr ()" for xs
    by (simp add: assert_tool_result_rewrite_def make_event_def)
  have f2: "folded (cp_log st1 @ [?e2])
     (fs\<lparr> fs_nodes := list_splice (sel_start_idx now) (sel_end_idx now - sel_start_idx now + 1) [length (cp_log st1)] (fs_nodes fs),
          fs_generation := fs_generation fs + 1 \<rparr>)
     (reps @ [\<lparr> rep_seq = length (cp_log st1), rep_start = sel_start ?sel, rep_end = sel_end ?sel,
        rep_shadowed = take (sel_end_idx now - sel_start_idx now + 1) (drop (sel_start_idx now) (fs_nodes fs)) \<rparr>])"
    by (rule folded_replace [OF f1 compaction_types(4) idx lt srcs _ _ small' rw]) (use sh in auto)
  have claim: "metering_claim e1 = Some \<lparr> cm_start = int (sel_start ?sel), cm_end = int (sel_end ?sel),
      cm_tokens = pr_token_count prep \<rparr>" unfolding e1 by (rule metering_claim_summary)
  have l2: "cp_log st' = ?l @ [e1, e2]" using e2(3) l1 by simp
  have len: "length (cp_log st1) = length ?l + 1" using l1 by simp
  show thesis
    by (rule that [OF e2(2) _ l2 claim _ f2 [folded e2(1), folded e2(3), folded sh, unfolded len]])
      (use k s1 e2(1) in \<open>simp_all add: make_event_def\<close>)
qed


section \<open>Reachable states\<close>

lemma assert_stable_reads:
  assumes ok: "compactor_ok (ce_lengths env) st" and a: "assert_stable env opts prep st = (st', r)"
  shows "reads (ce_lengths env) st st'"
proof -
  let ?j = "ce_lengths env"
  from ok obtain fs reps where f: "folded (cp_log st) fs reps" using session_ok_folded by (auto simp: compactor_ok_def)
  show ?thesis
  proof (cases "to_whole_surface opts")
    case True
    obtain st1 q where m: "cp_measure ?j st = (st1, q)" by (cases "cp_measure ?j st") auto
    have "st' = st1"
      using a m True by (cases q) (auto simp: assert_stable_def assert_whole_surface_unchanged_def split: if_splits)
    with cp_measure_ok [OF ok m f] show ?thesis by simp
  next
    case False
    let ?sel = "pr_selection prep"
    obtain st1 q where v: "validate_surface_region st (sel_start ?sel) (sel_end ?sel) = (st1, q)"
      by (cases "validate_surface_region st (sel_start ?sel) (sel_end ?sel)") auto
    have r1: "reads ?j st st1" using validate_surface_region_ok [OF ok f v] by simp
    then have ok1: "compactor_ok ?j st1" and l1: "cp_log st1 = cp_log st" by (simp_all add: reads_def)
    obtain st2 p where m: "cp_measure ?j st1 = (st2, p)" by (cases "cp_measure ?j st1") auto
    have r2: "reads ?j st st2" using cp_measure_ok [OF ok1 m, unfolded l1, OF f] l1 by (simp add: reads_def)
    from a v m False have "st' = st1 \<or> st' = st2"
      by (auto simp: assert_stable_def assert_selected_span_stable_def Let_def split: sum.splits if_splits)
    with r1 r2 show ?thesis by auto
  qed
qed

lemma compaction_resume_cases:
  assumes "compaction_resume env opts aborted uuid e0 life prep answer st = (st', oc)"
  obtains (failed) st1 failure where "close_failed env life failure st1 = (st', oc)"
      and "st1 = st \<or> st1 = fst (assert_stable env opts prep st)"
    | (broken) st1 st2 res failure where "assert_stable env opts prep st = (st1, Inr ())"
      and "commit_compaction_body env e0 life prep res st1 = (st2, Inl (fst failure))" and "close_failed env life failure st2 = (st', oc)"
      and "snd failure = CommitStage"
    | (committed) st1 st2 res k where "summarized_compaction env uuid life prep answer = Inr res"
      and "assert_stable env opts prep st = (st1, Inr ())"
      and "commit_compaction_body env e0 life prep res st1 = (st2, Inr k)" and "close_committed env e0 life prep k st2 = (st', oc)"
proof (cases "summarized_compaction env uuid life prep answer")
  case (Inl x)
  with assms failed show thesis by (simp add: compaction_resume_def)
next
  case (Inr res)
  show thesis
  proof (cases "\<not> to_current_turn opts \<and> aborted")
    case True
    with assms Inr failed show thesis by (simp add: compaction_resume_def)
  next
    case False
    obtain st1 q where a: "assert_stable env opts prep st = (st1, q)" by (cases "assert_stable env opts prep st") auto
    show thesis
    proof (cases q)
      case (Inl x)
      with assms Inr False a failed show thesis by (simp add: compaction_resume_def)
    next
      case (Inr u)
      with a have a': "assert_stable env opts prep st = (st1, Inr ())" by simp
      obtain st2 p where c: "commit_compaction_body env e0 life prep res st1 = (st2, p)"
        by (cases "commit_compaction_body env e0 life prep res st1") auto
      show thesis
      proof (cases p)
        case (Inl x)
        have "close_failed env life (x, CommitStage) st2 = (st', oc)"
          using assms \<open>summarized_compaction _ _ _ _ _ = _\<close> False a' c Inl by (simp add: compaction_resume_def)
        with a' c Inl broken [of st1 res st2 "(x, CommitStage)"] show thesis by simp
      next
        case (Inr k)
        have "close_committed env e0 life prep k st2 = (st', oc)"
          using assms \<open>summarized_compaction _ _ _ _ _ = _\<close> False a' c Inr by (simp add: compaction_resume_def)
        with a' c Inr \<open>summarized_compaction _ _ _ _ _ = _\<close> committed show thesis by blast
      qed
    qed
  qed
qed

lemma commit_body_keeps:
  assumes ok: "compactor_ok (ce_lengths env) st" and c: "commit_compaction_body env e0 life prep res st = (st', r)"
  shows "compactor_ok (ce_lengths env) st' \<and> (\<exists>ds. cp_log st' = cp_log st @ ds
    \<and> (\<forall>e \<in> set ds. \<forall>l x. ev_data e \<noteq> CompactionEnd l x))"
proof -
  let ?d = "summary_record env life prep (fst res)" and ?sel = "pr_selection prep"
  obtain st1 q where a1: "cp_append env ?d None None st = (st1, q)" by (cases "cp_append env ?d None None st") auto
  note p1 = cp_append_ok [OF ok a1]
  have d: "?d \<noteq> CompactionEnd l x" for l x by (simp add: summary_record_def Let_def)
  show ?thesis
  proof (cases q)
    case (Inl x)
    with c a1 p1 show ?thesis by (simp add: commit_compaction_body_def)
  next
    case (Inr e1)
    let ?op = "Some (op_replace (sel_start ?sel) (sel_end ?sel))"
    let ?srcs = "Some (seqs_json ([ev_seq e0, ev_seq e1] @ sel_shadowed ?sel))"
    obtain st2 q2 where a2: "cp_append env (UserMessage (snd res)) ?op ?srcs st1 = (st2, q2)"
      by (cases "cp_append env (UserMessage (snd res)) ?op ?srcs st1") auto
    have ok1: "compactor_ok (ce_lengths env) st1" and l1: "cp_log st1 = cp_log st @ [e1]" and e1: "ev_data e1 = ?d"
      using p1 Inr by (simp_all add: make_event_def)
    have "(case (st2, q2) of (st2, Inl x) \<Rightarrow> (st2, Inl x) | (st2, Inr _) \<Rightarrow> (st2, Inr (ev_seq e1))) = (st', r)"
      using c unfolding commit_compaction_body_def Let_def a1 Inr prod.case sum.case a2 .
    then have st': "st' = st2" by (cases q2) simp_all
    from cp_append_ok [OF ok1 a2] l1 e1 d show ?thesis unfolding st'
      by (cases q2) (auto simp: make_event_def)
  qed
qed

lemma commit_body_errors_kept: "close_failed env life failure st = (st', oc) \<Longrightarrow> \<exists>x. oc_result oc = Inl x"
  by (auto simp: close_failed_def split: prod.splits sum.splits)

definition is_compaction_end :: "session_event \<Rightarrow> bool" where
  "is_compaction_end e = (case ev_data e of CompactionEnd _ _ \<Rightarrow> True | _ \<Rightarrow> False)"

lemma is_compaction_end_iff: "is_compaction_end e \<longleftrightarrow> (\<exists>l x. ev_data e = CompactionEnd l x)"
  by (simp add: is_compaction_end_def split: event_data.split)

text \<open>What one resumption appends: anything but end records, then the end record when the bracket closes.\<close>

definition closes_once :: "compaction_lifecycle \<Rightarrow> compaction_outcome \<Rightarrow> session_event list \<Rightarrow> bool" where
  "closes_once life oc ds \<longleftrightarrow>
     (if oc_closed oc
      then ds \<noteq> [] \<and> list_all (\<lambda>e. \<not> is_compaction_end e) (butlast ds)
        \<and> (\<exists>x. ev_data (last ds) = CompactionEnd life x \<and> (x = None \<longleftrightarrow> is_ok (oc_result oc)))
      else list_all (\<lambda>e. \<not> is_compaction_end e) ds \<and> \<not> is_ok (oc_result oc))"

lemma close_failed_once:
  assumes ok: "compactor_ok (ce_lengths env) st" and c: "close_failed env life failure st = (st', oc)"
    and ds: "list_all (\<lambda>e. \<not> is_compaction_end e) ds"
  shows "compactor_ok (ce_lengths env) st' \<and> (\<exists>es. cp_log st' = cp_log st @ es \<and> closes_once life oc (ds @ es))"
proof -
  note k = close_failed_ok [OF ok c]
  from k obtain x where x: "oc_result oc = Inl x" by blast
  show ?thesis
  proof (cases "oc_closed oc")
    case True
    then show ?thesis using k x ds by (auto simp: closes_once_def is_ok_def)
  next
    case False
    then show ?thesis using k x ds by (auto simp: closes_once_def is_ok_def)
  qed
qed

lemma compaction_resume_ok:
  assumes ok: "compactor_ok (ce_lengths env) st" and r: "compaction_resume env opts aborted uuid e0 life prep answer st = (st', oc)"
  shows "compactor_ok (ce_lengths env) st' \<and> (\<exists>ds. cp_log st' = cp_log st @ ds \<and> closes_once life oc ds)"
  using r
proof (cases rule: compaction_resume_cases)
  case (failed st1 failure)
  have "reads (ce_lengths env) st st1"
    using failed(2) assert_stable_reads [OF ok, of opts prep] ok by (cases "assert_stable env opts prep st") (auto simp: reads_def)
  with close_failed_once [OF _ failed(1), of "[]"] show ?thesis by (simp add: reads_def)
next
  case (broken st1 st2 res failure)
  have r1: "reads (ce_lengths env) st st1" by (rule assert_stable_reads [OF ok broken(1)])
  then have "compactor_ok (ce_lengths env) st1" "cp_log st1 = cp_log st" by (simp_all add: reads_def)
  with commit_body_keeps [OF _ broken(2)] obtain ds where ok2: "compactor_ok (ce_lengths env) st2"
    and l2: "cp_log st2 = cp_log st @ ds" and ds: "list_all (\<lambda>e. \<not> is_compaction_end e) ds"
    by (auto simp: list_all_iff is_compaction_end_iff)
  from close_failed_once [OF ok2 broken(3) ds] l2 show ?thesis by auto
next
  case (committed st1 st2 res k)
  have r1: "reads (ce_lengths env) st st1" by (rule assert_stable_reads [OF ok committed(2)])
  then have "compactor_ok (ce_lengths env) st1" "cp_log st1 = cp_log st" by (simp_all add: reads_def)
  with commit_body_keeps [OF _ committed(3)] obtain ds where ok2: "compactor_ok (ce_lengths env) st2"
    and l2: "cp_log st2 = cp_log st @ ds" and ds: "list_all (\<lambda>e. \<not> is_compaction_end e) ds"
    by (auto simp: list_all_iff is_compaction_end_iff)
  note k = close_committed_ok [OF ok2 committed(4)]
  show ?thesis
  proof (cases "oc_closed oc")
    case True
    with k l2 ds show ?thesis by (auto simp: closes_once_def is_ok_def)
  next
    case False
    with k l2 ds show ?thesis by (auto simp: closes_once_def is_ok_def)
  qed
qed

lemma compaction_begin_keeps:
  assumes ok: "compactor_ok (ce_lengths env) st"
  shows "compactor_ok (ce_lengths env) (fst (compaction_begin env opts aborted uuid a b st))
    \<and> prefix (cp_log st) (cp_log (fst (compaction_begin env opts aborted uuid a b st)))"
proof -
  from ok obtain fs reps where f: "folded (cp_log st) fs reps"
    using session_ok_folded by (auto simp: compactor_ok_def)
  obtain st1 q where op: "compaction_open env opts aborted uuid a b st = (st1, q)"
    by (cases "compaction_open env opts aborted uuid a b st") auto
  note o = compaction_open_ok [OF ok f op]
  show ?thesis
  proof (cases q)
    case (Inl x)
    with o op show ?thesis by (simp add: compaction_begin_def)
  next
    case (Inr t)
    then obtain e life sel where t: "q = Inr (e, life, sel)" by (cases t) auto
    have ok1: "compactor_ok (ce_lengths env) st1" and l1: "cp_log st1 = cp_log st @ [e]" and f1: "folded (cp_log st1) fs reps"
      and reg: "region_ok (cp_log st) (fs_nodes fs) sel" using o t by auto
    have "region_ok (cp_log st1) (fs_nodes fs) sel"
      unfolding l1 by (rule region_ok_longer [OF reg]) (use folded_nodes(1) [OF f] in blast)
    moreover obtain st2 p where p: "prepare_compaction env sel st1 = (st2, p)" by (cases "prepare_compaction env sel st1") auto
    ultimately have ok2: "compactor_ok (ce_lengths env) st2" and l2: "cp_log st2 = cp_log st @ [e]"
      using prepare_compaction_ok [OF ok1 f1] l1 by (simp_all add: reads_def)
    show ?thesis
    proof (cases p)
      case (Inl x)
      obtain st3 oc where c: "close_failed env life (x, SummaryStage) st2 = (st3, oc)"
        by (cases "close_failed env life (x, SummaryStage) st2") auto
      with close_failed_ok [OF ok2 c] op t p Inl l2 show ?thesis by (auto simp: compaction_begin_def split: if_splits)
    qed (use op t p ok2 l2 in \<open>simp add: compaction_begin_def\<close>)
  qed
qed

text \<open>
  The states a compactor reaches: it starts on a session of the store with nothing cached, and
  anything may append to the log, read the meter, the pairing, the surface and the header, prune long results,
  begin a transaction or resume one.
\<close>

inductive compactor_run :: "compaction_env \<Rightarrow> compactor \<Rightarrow> bool" for env where
  fresh: "session_run s \<Longrightarrow> compactor_run env \<lparr> cp_session = s, cp_cache = None, cp_meter = new_meter_state \<rparr>"
| logged: "compactor_run env st \<Longrightarrow> compactor_run env (fst (cp_append env d op srcs st))"
| measured: "compactor_run env st \<Longrightarrow> compactor_run env (fst (cp_measure (ce_lengths env) st))"
| paired: "compactor_run env st \<Longrightarrow> offset \<le> 1 \<Longrightarrow> compactor_run env (fst (cp_balanced offset st seq))"
| surveyed: "compactor_run env st \<Longrightarrow> compactor_run env (fst (cp_surface st))"
| header_read: "compactor_run env st \<Longrightarrow> compactor_run env (set_session (fst (request_header (cp_session st))) st)"
| pruned: "compactor_run env st \<Longrightarrow>
    compactor_run env (set_session (fst (prune_session (ce_lengths env) (ce_veto env) (ce_clock env) cfg (cp_session st))) st)"
| begun: "compactor_run env st \<Longrightarrow> compactor_run env (fst (compaction_begin env opts aborted uuid a b st))"
| resumed: "compactor_run env st \<Longrightarrow>
    compactor_run env (fst (compaction_resume env opts aborted uuid e life prep answer st))"

lemma compactor_ok_folded:
  assumes "compactor_ok j st"
  obtains fs reps where "folded (cp_log st) fs reps"
  using assms session_ok_folded by (auto simp: compactor_ok_def)

lemma header_kept:
  assumes "compactor_ok j st"
  shows "compactor_ok j (set_session (fst (request_header (cp_session st))) st)
    \<and> ses_log (fst (request_header (cp_session st))) = cp_log st"
proof -
  obtain s h where h: "request_header (cp_session st) = (s, h)" by (cases "request_header (cp_session st)") auto
  have s: "session_ok s" "ses_log s = cp_log st"
    using request_header_ok [of "cp_session st"] assms h
    by (auto simp: compactor_ok_def request_header_def Let_def split: if_splits)
  from compactor_ok_log [OF assms s(1), of "[]"] h s show ?thesis by simp
qed

lemma append_step:
  assumes "session_ok s" and "append_event False veto now s d op srcs ign = (s', r)"
  shows "session_ok s' \<and> prefix (ses_log s) (ses_log s')"
proof -
  obtain ds where "ses_log (fst (append_event False veto now s d op srcs ign)) = ses_log s @ ds"
    by (rule append_event_extends)
  with append_event_ok [OF assms] assms(2) show ?thesis by simp
qed

lemma prune_loop_keeps:
  "session_ok s \<Longrightarrow> prune_loop j veto clock cfg s cs = (s', r) \<Longrightarrow> session_ok s' \<and> prefix (ses_log s) (ses_log s')"
proof (induction cs arbitrary: s s' r)
  case Nil
  then show ?case by simp
next
  case (Cons c cs)
  obtain n d where c: "c = (n, d)" by (cases c) auto
  show ?case
  proof (cases "\<exists>content. prune_content cfg (trm_content (tr_message d)) = Inr (Some content)")
    case False
    then consider x where "prune_content cfg (trm_content (tr_message d)) = Inl x"
      | "prune_content cfg (trm_content (tr_message d)) = Inr None"
      by (cases "prune_content cfg (trm_content (tr_message d))") (auto simp: not_Some_eq)
    then show ?thesis using Cons c by cases (auto simp: Let_def)
  next
    case True
    then obtain content where content: "prune_content cfg (trm_content (tr_message d)) = Inr (Some content)" by blast
    let ?price = "estimate_message j (message_of_tool_result (tr_message d))"
    obtain s1 q1 where a1: "append_event False veto (clock (length (ses_log s))) s (prune_record n ?price) None None False = (s1, q1)"
      by (cases "append_event False veto (clock (length (ses_log s))) s (prune_record n ?price) None None False") auto
    note k1 = append_step [OF Cons.prems(1) a1]
    show ?thesis
    proof (cases q1)
      case (Inl x)
      with Cons.prems(2) content a1 c k1 show ?thesis by (simp add: Let_def)
    next
      case (Inr e1)
      let ?ap = "append_event False veto (clock (length (ses_log s1))) s1 (ToolResult (with_content d content))
          (Some (op_replace n n)) (Some (seqs_json [n])) False"
      obtain s2 q2 where a2: "?ap = (s2, q2)" by (cases ?ap) auto
      have ok1: "session_ok s1" using k1 by simp
      note k2 = append_step [OF ok1 a2]
      show ?thesis
      proof (cases q2)
        case (Inl x)
        with Cons.prems(2) content a1 Inr a2 c k1 k2 show ?thesis by (auto simp: Let_def intro: prefix_order.trans)
      next
        case (Inr e2)
        obtain s3 q3 where a3: "prune_loop j veto clock cfg s2 cs = (s3, q3)" by (cases "prune_loop j veto clock cfg s2 cs") auto
        have "s' = s3" using Cons.prems(2) content a1 \<open>q1 = Inr e1\<close> a2 Inr a3 c
          by (cases q3) (auto simp: Let_def)
        with Cons.IH [OF _ a3] k1 k2 show ?thesis by (auto intro: prefix_order.trans)
      qed
    qed
  qed
qed

lemma prune_session_keeps:
  assumes "session_ok s" and "prune_session j veto clock cfg s = (s', r)"
  shows "session_ok s' \<and> prefix (ses_log s) (ses_log s')"
proof -
  obtain fs reps where f: "folded (ses_log s) fs reps" by (rule session_ok_folded [OF assms(1)])
  obtain s1 where s1: "session_surface s = (s1, Inr (fs_nodes fs, fs_generation fs))" and ok: "session_ok s1" "ses_log s1 = ses_log s"
    by (rule session_surface_ok [OF assms(1) f])
  obtain s2 q where l: "prune_loop j veto clock cfg s1 (prune_candidates (ses_log s1) (fs_nodes fs)) = (s2, q)"
    by (cases "prune_loop j veto clock cfg s1 (prune_candidates (ses_log s1) (fs_nodes fs))") auto
  have "s' = s2" using assms(2) s1 l by (cases q) (auto simp: prune_session_def)
  with prune_loop_keeps [OF ok(1) l] ok(2) show ?thesis by simp
qed

lemma compactor_run_ok: "compactor_run env st \<Longrightarrow> compactor_ok (ce_lengths env) st"
proof (induction rule: compactor_run.induct)
  case (fresh s)
  have ok: "session_ok s" by (rule session_run_ok [OF fresh])
  then have "meter_run (ce_lengths env) ([] @ ses_log s) new_meter_state"
    by (intro meter_run.grown meter_run.started) (simp add: session_ok_def)
  then show ?case using ok meter_run_inv by (fastforce simp: compactor_ok_def cache_ok_def)
next
  case (logged st d op srcs)
  then show ?case using cp_append_ok [OF logged.IH] by (metis prod.collapse)
next
  case (measured st)
  obtain fs reps where "folded (cp_log st) fs reps" by (rule compactor_ok_folded [OF measured.IH])
  then show ?case using cp_measure_ok [OF measured.IH] by (metis prod.collapse reads_def)
next
  case (paired st offset seq)
  obtain fs reps where f: "folded (cp_log st) fs reps" by (rule compactor_ok_folded [OF paired.IH])
  obtain st' where "cp_balanced offset st seq = (st', spec_result (balance_spec (cp_log st) (fs_nodes fs) offset seq))"
    and "reads (ce_lengths env) st st'" by (rule cp_balanced_ok [OF paired.IH f paired.hyps(2)])
  then show ?case by (simp add: reads_def)
next
  case (surveyed st)
  obtain fs reps where f: "folded (cp_log st) fs reps" by (rule compactor_ok_folded [OF surveyed.IH])
  obtain st' where "cp_surface st = (st', Inr (fs_nodes fs))" and "reads (ce_lengths env) st st'"
    by (rule cp_surface_ok [OF surveyed.IH f])
  then show ?case by (simp add: reads_def)
next
  case (header_read st)
  then show ?case using header_kept [OF header_read.IH] by simp
next
  case (pruned st cfg)
  obtain s r where p: "prune_session (ce_lengths env) (ce_veto env) (ce_clock env) cfg (cp_session st) = (s, r)"
    by (cases "prune_session (ce_lengths env) (ce_veto env) (ce_clock env) cfg (cp_session st)") auto
  obtain ds where "session_ok s" "ses_log s = cp_log st @ ds"
    using prune_session_keeps [OF _ p] pruned.IH by (auto simp: compactor_ok_def prefix_def)
  from compactor_ok_log [OF pruned.IH this] p show ?case by simp
next
  case (begun st opts aborted uuid a b)
  then show ?case using compaction_begin_keeps by blast
next
  case (resumed st opts aborted uuid e life prep answer)
  then show ?case using compaction_resume_ok by (metis prod.collapse)
qed

section \<open>Committed transactions\<close>

lemma event_price_user: "ev_data e = UserMessage m \<Longrightarrow> event_price j e = estimate_message j m"
  by (simp add: event_price_def derive_event_message_def)

lemma surface_price_longer:
  "\<forall>n \<in> set ns. n < length evs \<Longrightarrow> surface_price j (evs @ ds) ns = surface_price j evs ns"
  using priced_longer(2) .

lemma committed_compaction:
  assumes ok0: "compactor_ok (ce_lengths env) st0"
    and b: "compaction_begin env opts aborted uuid a b st0 = (st1, Inr (Inr (e0, life, prep)))"
    and ok: "compactor_ok (ce_lengths env) st" and longer: "cp_log st = cp_log st1 @ ds"
    and small: "int (length (cp_log st)) + 2 \<le> max_safe"
    and r: "compaction_resume env opts aborted' uuid' e0 life prep answer st = (st', oc)" "oc_result oc = Inr res"
  obtains before after fs reps fs' e1 e2 e3 where "folded (cp_log st) fs reps"
    and "fs_nodes fs = before @ cr_shadowed res @ after" and "cp_log st' = cp_log st @ [e1, e2, e3]"
    and "folded (cp_log st') fs' (reps @ [\<lparr> rep_seq = length (cp_log st) + 1, rep_start = sel_start (pr_selection prep),
           rep_end = sel_end (pr_selection prep), rep_shadowed = cr_shadowed res \<rparr>])"
    and "fs_nodes fs' = before @ [length (cp_log st) + 1] @ after"
    and "metering_claim e1 = Some \<lparr> cm_start = int (sel_start (pr_selection prep)), cm_end = int (sel_end (pr_selection prep)),
           cm_tokens = surface_price (ce_lengths env) (cp_log st) (cr_shadowed res) \<rparr>"
    and "\<exists>bs. ev_data e2 = UserMessage (checkpoint_message uuid' life bs)"
    and "int (event_price (ce_lengths env) e2) < surface_price (ce_lengths env) (cp_log st) (cr_shadowed res)"
    and "first_unpaired (cp_log st) (fs_nodes fs) = None" and "open_calls (cp_log st) before = 0"
    and "open_calls (cp_log st) (cr_shadowed res) = 0"
proof -
  let ?j = "ce_lengths env" and ?l = "cp_log st" and ?sel = "pr_selection prep"
  note bo = compaction_begin_ok [OF ok0 b]
  then have prep: "prepared_ok ?j (cp_log st1) prep" and l1: "cp_log st1 = cp_log st0 @ [e0]"
    and e0: "ev_data e0 = CompactionStart life" "ev_seq e0 = length (cp_log st0)" by auto
  obtain fs reps where f: "folded ?l fs reps" by (rule compactor_ok_folded [OF ok])
  from r(1) show thesis
  proof (cases rule: compaction_resume_cases)
    case (failed st2 failure)
    with commit_body_errors_kept [OF failed(1)] r(2) show thesis by auto
  next
    case (broken st2 st3 res' failure)
    with commit_body_errors_kept [OF broken(3)] r(2) show thesis by auto
  next
    case (committed st2 st3 summarized k)
    obtain now where reads: "reads ?j st st2" and reg: "region_ok ?l (fs_nodes fs) now"
      and sel: "sel_start now = sel_start ?sel" "sel_end now = sel_end ?sel" "sel_shadowed now = sel_shadowed ?sel"
      using assert_stable_ok [OF ok f prep longer committed(2)] by blast
    have ok2: "compactor_ok ?j st2" and l2: "cp_log st2 = ?l" using reads by (simp_all add: reads_def)
    have at0: "?l ! ev_seq e0 = e0" "ev_seq e0 < length ?l" using longer l1 e0(2) by (simp_all add: nth_append)
    have "ev_seq e0 \<notin> set (fs_nodes fs)"
      using folded_nodes(3) [OF f, of "ev_seq e0"] at0 e0(1)
      by (auto simp: is_surface_event_def is_surface_eligible_type_def surface_event_types_def)
    from commit_body_ok [OF ok2, unfolded l2, OF f reg sel at0(2) this small committed(3)]
    obtain e1 e2 fs' where ok3: "compactor_ok ?j st3" and k: "k = length ?l" and l3: "cp_log st3 = ?l @ [e1, e2]"
      and claim: "metering_claim e1 = Some \<lparr> cm_start = int (sel_start ?sel), cm_end = int (sel_end ?sel),
           cm_tokens = pr_token_count prep \<rparr>"
      and e2: "ev_data e2 = UserMessage (snd summarized)"
      and f3: "folded (cp_log st3) fs' (reps @ [\<lparr> rep_seq = length ?l + 1, rep_start = sel_start ?sel,
           rep_end = sel_end ?sel, rep_shadowed = sel_shadowed ?sel \<rparr>])"
      and n3: "fs_nodes fs' = list_splice (sel_start_idx now) (sel_end_idx now - sel_start_idx now + 1) [length ?l + 1] (fs_nodes fs)"
      by blast
    have res: "cr_shadowed res = sel_shadowed ?sel"
      using committed(4) r(2) by (auto simp: close_committed_def split: sum.splits prod.splits)
    obtain before after where split: "fs_nodes fs = before @ sel_shadowed now @ after"
      and spliced: "list_splice (sel_start_idx now) (sel_end_idx now - sel_start_idx now + 1) [length ?l + 1] (fs_nodes fs)
          = before @ [length ?l + 1] @ after"
      and bal: "open_calls ?l before = 0" "open_calls ?l (sel_shadowed now) = 0"
      by (rule region_split [OF reg, of "length ?l + 1"])
    note cc = close_committed_ok [OF ok3 committed(4)]
    from cc r(2) have closed: "oc_closed oc" by (auto split: if_splits)
    with cc obtain e3 where l4: "cp_log st' = ?l @ [e1, e2, e3]"
      and f4: "\<And>fs reps. folded (cp_log st3) fs reps \<Longrightarrow> folded (cp_log st') fs reps" using l3 by auto
    have price: "pr_token_count prep = surface_price ?j ?l (sel_shadowed ?sel)"
      using prepared_ok_longer [OF prep, of ds] longer by (auto simp: prepared_ok_def)
    obtain sr :: summary_result where msg: "snd summarized = checkpoint_message uuid' life (sr_summary sr)"
      and less: "int (estimate_message ?j (snd summarized)) < pr_token_count prep"
    proof (cases answer)
      case (Inr sr)
      show thesis by (rule that [of sr]) (use committed(1) Inr in \<open>auto simp: summarized_compaction_def Let_def split: if_splits\<close>)
    qed (use committed(1) in \<open>simp add: summarized_compaction_def\<close>)
    have paired: "first_unpaired ?l (fs_nodes fs) = None" using reg by (simp add: region_ok_def)
    have cp: "\<exists>bs. ev_data e2 = UserMessage (checkpoint_message uuid' life bs)" using e2 msg by auto
    have less': "int (event_price ?j e2) < surface_price ?j ?l (sel_shadowed ?sel)"
      using less price event_price_user [OF e2] by simp
    show thesis
      by (rule that [OF f split [unfolded sel(3), folded res] l4 f4 [OF f3, folded res] _ claim [unfolded price, folded res] cp
              less' [folded res] paired bal(1) bal(2) [unfolded sel(3), folded res]])
        (use n3 spliced in simp)
  qed
qed

end
