(* ===== verification/Compaction_Claims.thy ===== *)
theory Compaction_Claims
  imports Compaction_Commit
begin

text \<open>
  The theorems about whole compaction transactions, from the start record to the end record, with
  a log that other parties may extend while the summarizer is awaited.
\<close>

section \<open>A sample transaction\<close>

definition image_user :: "string \<Rightarrow> message" where
  "image_user i = create_user_message i [ImageBlock JNull] SrcUser"

definition compact_log :: "session_event list" where
  "compact_log =
     (let call = create_assistant_message ''a1'' [ToolCallBlock ''c1'' ''read'' ''x''] ''p'' ''m'' None;
          answer = \<lparr> trm_id = ''t1'', trm_call_id = ''c1'', trm_block_call_id = ''c1'',
                     trm_content = [ImageBlock JNull], trm_is_error = None \<rparr>
      in [make_event 0 1 (UserMessage (image_user ''u1'')) (Some op_append) None False,
          make_event 1 1 (TurnStart 1) None None False,
          make_event 2 1 (StepStart 1 1) None None False,
          make_event 3 1 (AssistantMessage 1 1 call None) (Some op_append) None False,
          make_event 4 1 (ToolResult \<lparr> tr_turn = 1, tr_step = 1, tr_message = answer, tr_error = None,
             tr_meta = None \<rparr>) (Some op_append) None False,
          make_event 5 1 (StepEnd 1 1) None None False,
          make_event 6 1 (TurnEnd 1 EndCompleted) None None False,
          make_event 7 1 (UserMessage (image_user ''u2'')) (Some op_append) None False])"

definition compact_session :: session where
  "compact_session = (case new_session (\<lambda>_. True) 20 ModeSnapshot ''s1'' (Some compact_log) (Some sample_header) of
      Inr s \<Rightarrow> s | Inl _ \<Rightarrow> sample_session)"

definition compact_env :: compaction_env where
  "compact_env = \<lparr> ce_lengths = \<lparr> jl_block = (\<lambda>_. 300), jl_tools = length \<rparr>, ce_veto = (\<lambda>_. None), ce_clock = int,
     ce_chain = (\<lambda>_. ''failed''), ce_blocks = (\<lambda>_. JNull), ce_usage = (\<lambda>_. JNull) \<rparr>"

definition compact_state :: compactor where
  "compact_state = \<lparr> cp_session = compact_session, cp_cache = None, cp_meter = new_meter_state \<rparr>"

definition compact_opts :: transaction_options where
  "compact_opts = \<lparr> to_current_turn = False, to_whole_surface = False, to_command = None, to_flush = False \<rparr>"

definition compact_summary :: summary_result where
  "compact_summary = \<lparr> sr_summary = [TextBlock ''short''], sr_provider = ''p'', sr_model = ''m'', sr_max_tokens = None,
     sr_usage = None, sr_raw_output = None, sr_llm_call = True \<rparr>"

definition compact_begun :: "compactor \<times> (compaction_failure
    + (compaction_outcome + session_event \<times> compaction_lifecycle \<times> prepared_compaction))" where
  "compact_begun = compaction_begin compact_env compact_opts False ''k1'' 0 4 compact_state"

definition compact_started :: "session_event \<times> compaction_lifecycle \<times> prepared_compaction" where
  "compact_started = (case compact_begun of (_, Inr (Inr t)) \<Rightarrow> t | _ \<Rightarrow> undefined)"

definition compact_resumed :: "compactor \<times> compaction_outcome" where
  "compact_resumed = (case compact_started of (e, life, prep) \<Rightarrow>
     compaction_resume compact_env compact_opts False ''k2'' e life prep (Inr compact_summary) (fst compact_begun))"

lemma compact_values:
  "(case compact_begun of (_, Inr (Inr _)) \<Rightarrow> True | _ \<Rightarrow> False)"
  "(case oc_result (snd compact_resumed) of Inr r \<Rightarrow> cr_shadowed r = [0, 3, 4] | Inl _ \<Rightarrow> False)"
  "length (cp_log (fst compact_begun)) = 10"
  "fold_surface (cp_log (fst compact_begun)) = Inr ([0, 3, 4, 7], [])"
  by code_simp+

lemma compact_state_run: "compactor_run compact_env compact_state"
proof -
  have "is_ok (new_session (\<lambda>_. True) 20 ModeSnapshot ''s1'' (Some compact_log) (Some sample_header))" by code_simp
  then have "session_run compact_session"
    by (auto simp: compact_session_def is_ok_iff intro: session_run.created)
  then show ?thesis unfolding compact_state_def by (rule compactor_run.fresh)
qed

lemma compact_sample:
  obtains e0 life prep res where
    "compaction_begin compact_env compact_opts False ''k1'' 0 4 compact_state = (fst compact_begun, Inr (Inr (e0, life, prep)))"
    and "compaction_resume compact_env compact_opts False ''k2'' e0 life prep (Inr compact_summary) (fst compact_begun)
      = (fst compact_resumed, snd compact_resumed)"
    and "oc_result (snd compact_resumed) = Inr res" and "compactor_run compact_env (fst compact_begun)"
    and "cr_shadowed res = [0, 3, 4]"
proof -
  obtain st q where q: "compact_begun = (st, q)" by (cases compact_begun) auto
  from compact_values(1) [unfolded q] obtain t where "q = Inr (Inr t)"
    by (cases q) (simp_all split: sum.splits)
  then have b: "compact_begun = (fst compact_begun, Inr (Inr compact_started))" unfolding compact_started_def q by simp
  obtain e0 life prep where t: "compact_started = (e0, life, prep)" by (cases compact_started) auto
  obtain res where r: "oc_result (snd compact_resumed) = Inr res" "cr_shadowed res = [0, 3, 4]"
    using compact_values(2) by (cases "oc_result (snd compact_resumed)") auto
  have "compactor_run compact_env (fst compact_begun)"
    unfolding compact_begun_def by (rule compactor_run.begun [OF compact_state_run])
  moreover have "compaction_resume compact_env compact_opts False ''k2'' e0 life prep (Inr compact_summary) (fst compact_begun)
      = (fst compact_resumed, snd compact_resumed)" by (simp add: compact_resumed_def t)
  moreover have "compaction_begin compact_env compact_opts False ''k1'' 0 4 compact_state
      = (fst compact_begun, Inr (Inr (e0, life, prep)))" using b unfolding t by (simp add: compact_begun_def)
  ultimately show thesis using that r by blast
qed

section \<open>What a commit does to the surface\<close>

text \<open>
  C23: a transaction that reports a result has put one checkpoint in the place of the selected span, and
  only that: three records are appended, the nodes before and after the span stay, and the price of
  the surface strictly falls; whatever was appended while the summarizer ran.
\<close>

theorem compaction_shrinks_surface:
  assumes "compactor_run env st0"
    and "compaction_begin env opts aborted uuid a b st0 = (st1, Inr (Inr (e0, life, prep)))"
    and "compactor_run env st" and "prefix (cp_log st1) (cp_log st)" and "int (length (cp_log st)) + 2 \<le> max_safe"
    and "compaction_resume env opts aborted' uuid' e0 life prep answer st = (st', oc)" and "oc_result oc = Inr res"
  shows "\<exists>before after reps reps'. fold_surface (cp_log st) = Inr (before @ cr_shadowed res @ after, reps)
     \<and> fold_surface (cp_log st') = Inr (before @ [length (cp_log st) + 1] @ after, reps')
     \<and> length (cp_log st') = length (cp_log st) + 3 \<and> prefix (cp_log st) (cp_log st')
     \<and> (\<exists>bs. ev_data (cp_log st' ! (length (cp_log st) + 1)) = UserMessage (checkpoint_message uuid' life bs))
     \<and> surface_price (ce_lengths env) (cp_log st') (before @ [length (cp_log st) + 1] @ after)
         < surface_price (ce_lengths env) (cp_log st) (before @ cr_shadowed res @ after)"
proof -
  let ?l = "cp_log st" and ?j = "ce_lengths env"
  from assms(4) obtain ds where ds: "?l = cp_log st1 @ ds" by (auto simp: prefix_def)
  from committed_compaction [OF compactor_run_ok [OF assms(1)] assms(2) compactor_run_ok [OF assms(3)] ds assms(5-7)]
  obtain before after fs reps fs' e1 e2 e3 reps' where f: "folded ?l fs reps" and n: "fs_nodes fs = before @ cr_shadowed res @ after"
    and l: "cp_log st' = ?l @ [e1, e2, e3]" and f': "folded (cp_log st') fs' reps'"
    and n': "fs_nodes fs' = before @ [length ?l + 1] @ after"
    and e2: "\<exists>bs. ev_data e2 = UserMessage (checkpoint_message uuid' life bs)"
    and less: "int (event_price ?j e2) < surface_price ?j ?l (cr_shadowed res)" by metis
  have "\<forall>n \<in> set (fs_nodes fs). n < length ?l" using folded_nodes(1) [OF f] by blast
  then have "surface_price ?j (cp_log st') before = surface_price ?j ?l before"
    "surface_price ?j (cp_log st') after = surface_price ?j ?l after"
    unfolding l n by (simp_all add: surface_price_longer)
  moreover have second: "cp_log st' ! (length ?l + 1) = e2" unfolding l by (simp add: nth_append)
  ultimately have "surface_price ?j (cp_log st') (before @ [length ?l + 1] @ after)
      < surface_price ?j ?l (before @ cr_shadowed res @ after)" using less by simp
  moreover have "length (cp_log st') = length ?l + 3" "prefix ?l (cp_log st')" using l by simp_all
  ultimately show ?thesis
    using folded_fold_surface [OF f, unfolded n] folded_fold_surface [OF f', unfolded n'] e2 [folded second] by blast
qed

theorem compaction_shrinks_surface_witness:
  "\<exists>nodes reps. fold_surface (cp_log (fst compact_resumed)) = Inr (nodes, reps) \<and> nodes = [11, 7]
     \<and> surface_price (ce_lengths compact_env) (cp_log (fst compact_resumed)) nodes
         < surface_price (ce_lengths compact_env) (cp_log (fst compact_begun)) [0, 3, 4, 7]"
proof -
  obtain e0 life prep res where s: "compaction_begin compact_env compact_opts False ''k1'' 0 4 compact_state
      = (fst compact_begun, Inr (Inr (e0, life, prep)))"
    "compaction_resume compact_env compact_opts False ''k2'' e0 life prep (Inr compact_summary) (fst compact_begun)
      = (fst compact_resumed, snd compact_resumed)" "oc_result (snd compact_resumed) = Inr res"
    "compactor_run compact_env (fst compact_begun)" "cr_shadowed res = [0, 3, 4]" by (rule compact_sample)
  have small: "int (length (cp_log (fst compact_begun))) + 2 \<le> max_safe" by (simp add: compact_values(3) max_safe_def)
  from compaction_shrinks_surface [OF compact_state_run s(1,4) prefix_order.order_refl small s(2,3)]
  obtain before after reps0 reps where "fold_surface (cp_log (fst compact_begun)) = Inr (before @ cr_shadowed res @ after, reps0)"
    and n: "fold_surface (cp_log (fst compact_resumed)) = Inr (before @ [length (cp_log (fst compact_begun)) + 1] @ after, reps)"
    and p: "surface_price (ce_lengths compact_env) (cp_log (fst compact_resumed))
        (before @ [length (cp_log (fst compact_begun)) + 1] @ after)
      < surface_price (ce_lengths compact_env) (cp_log (fst compact_begun)) (before @ cr_shadowed res @ after)"
    by blast
  then have nodes: "before @ [0, 3, 4] @ after = [0, 3, 4, 7]" using compact_values(4) s(5) by simp
  then have b: "before = []" by (auto simp: append_eq_Cons_conv)
  with nodes have "after = [7]" by simp
  with b n p compact_values(3) s(5) show ?thesis by simp
qed


text \<open>
  A committed transaction states the price of what it replaced: on a fully metered log, every replacement
  of the new log is metered again, so the running projection of the token total stays exact.
\<close>

theorem compaction_stays_metered:
  assumes "compactor_run env st0"
    and "compaction_begin env opts aborted uuid a b st0 = (st1, Inr (Inr (e0, life, prep)))"
    and "compactor_run env st" and "prefix (cp_log st1) (cp_log st)" and "int (length (cp_log st)) + 2 \<le> max_safe"
    and "compaction_resume env opts aborted' uuid' e0 life prep answer st = (st', oc)" and "oc_result oc = Inr res"
    and "fold_surface (cp_log st) = Inr (nodes, reps)" and "fully_metered (ce_lengths env) (cp_log st) reps"
  shows "\<exists>nodes' reps'. fold_surface (cp_log st') = Inr (nodes', reps') \<and> length reps' = length reps + 1
     \<and> fully_metered (ce_lengths env) (cp_log st') reps'"
proof -
  let ?l = "cp_log st" and ?j = "ce_lengths env" and ?sel = "pr_selection prep"
  let ?rep = "\<lparr> rep_seq = length ?l + 1, rep_start = sel_start ?sel, rep_end = sel_end ?sel, rep_shadowed = cr_shadowed res \<rparr>"
  from assms(4) obtain ds where ds: "?l = cp_log st1 @ ds" by (auto simp: prefix_def)
  from committed_compaction [OF compactor_run_ok [OF assms(1)] assms(2) compactor_run_ok [OF assms(3)] ds assms(5-7)]
  obtain before after fs reps0 fs' e1 e2 e3 where f: "folded ?l fs reps0" and n: "fs_nodes fs = before @ cr_shadowed res @ after"
    and l: "cp_log st' = ?l @ [e1, e2, e3]" and f': "folded (cp_log st') fs' (reps0 @ [?rep])"
    and claim: "metering_claim e1 = Some \<lparr> cm_start = int (sel_start ?sel), cm_end = int (sel_end ?sel),
           cm_tokens = surface_price ?j ?l (cr_shadowed res) \<rparr>" by metis
  have "reps0 = reps" using folded_fold_surface [OF f] assms(8) by simp
  moreover have "\<forall>n \<in> set (cr_shadowed res). n < length ?l" using folded_nodes(1) [OF f] n by simp
  then have "surface_price ?j (cp_log st') (cr_shadowed res) = surface_price ?j ?l (cr_shadowed res)"
    unfolding l by (rule surface_price_longer)
  moreover have "cp_log st' ! length ?l = e1" using l by simp
  ultimately have "fully_metered ?j (cp_log st') (reps @ [?rep])"
    using fully_metered_longer [OF f, of ?j "[e1, e2, e3]"] assms(9) claim l by (simp add: fully_metered_def)
  with folded_fold_surface [OF f'] \<open>reps0 = reps\<close> show ?thesis by auto
qed

lemma compact_small: "int (length (cp_log (fst compact_begun))) + 2 \<le> max_safe"
  by (simp add: compact_values(3) max_safe_def)

theorem compaction_stays_metered_witness:
  "\<exists>nodes reps. fold_surface (cp_log (fst compact_resumed)) = Inr (nodes, reps) \<and> length reps = 1
     \<and> fully_metered (ce_lengths compact_env) (cp_log (fst compact_resumed)) reps"
proof -
  obtain e0 life prep res where s: "compaction_begin compact_env compact_opts False ''k1'' 0 4 compact_state
      = (fst compact_begun, Inr (Inr (e0, life, prep)))"
    "compaction_resume compact_env compact_opts False ''k2'' e0 life prep (Inr compact_summary) (fst compact_begun)
      = (fst compact_resumed, snd compact_resumed)" "oc_result (snd compact_resumed) = Inr res"
    "compactor_run compact_env (fst compact_begun)" by (rule compact_sample)
  have "fully_metered (ce_lengths compact_env) (cp_log (fst compact_begun)) []" by (simp add: fully_metered_def)
  from compaction_stays_metered [OF compact_state_run s(1,4) prefix_order.order_refl compact_small s(2,3) compact_values(4) this]
  show ?thesis by auto
qed

section \<open>Pairing after a commit\<close>

lemma first_unpaired_spliced:
  assumes "first_unpaired evs (before @ mid @ after) = None" and "open_calls evs before = 0" and "open_calls evs mid = 0"
    and "open_calls evs' mid' = 0" and "length mid' = 1"
    and same: "\<And>p. set p \<subseteq> set before \<union> set after \<Longrightarrow> open_calls evs' p = open_calls evs p"
  shows "first_unpaired evs' (before @ mid' @ after) = None"
  unfolding first_unpaired_None
proof (intro allI impI)
  fix p assume p: "prefix p (before @ mid' @ after)"
  have old: "0 \<le> open_calls evs q" if "prefix q (before @ mid @ after)" for q
    using assms(1) that by (simp add: first_unpaired_None)
  have "prefix p before \<or> (\<exists>q. p = before @ q \<and> prefix q (mid' @ after))"
    using p by (simp only: prefix_append [of p before])
  then consider "prefix p before" | q where "p = before @ q" "prefix q (mid' @ after)" "q \<noteq> []"
    by (metis append_Nil2 prefix_order.order_refl)
  then show "0 \<le> open_calls evs' p"
  proof cases
    case 1
    then have "prefix p (before @ mid @ after)" and "set p \<subseteq> set before \<union> set after"
      by (auto dest: set_mono_prefix)
    with old same show ?thesis by simp
  next
    case 2
    then obtain r where q: "q = mid' @ r" and r: "prefix r after"
      using assms(5) by (cases mid') (auto simp: prefix_Cons)
    have sub: "set r \<subseteq> set before \<union> set after" using set_mono_prefix [OF r] by blast
    have "prefix (before @ mid @ r) (before @ mid @ after)" using r by simp
    from old [OF this] assms(2,3) have "0 \<le> open_calls evs r" by simp
    with 2 q assms(2,4) same [OF sub] same [of before] show ?thesis by simp
  qed
qed

lemma index_of_behind: "x \<notin> set xs \<Longrightarrow> index_of x (xs @ ys) = map_option (\<lambda>i. length xs + i) (index_of x ys)"
  by (simp add: index_of_append index_of_None [THEN iffD2])

text \<open>
  C24: a committed transaction breaks no pairing: every cut next to a node outside the span has the balance it had,
  no result of the new surface lacks its call, and no cut around the checkpoint is inside a call.
\<close>

theorem compaction_keeps_pairing:
  assumes "compactor_run env st0"
    and "compaction_begin env opts aborted uuid a b st0 = (st1, Inr (Inr (e0, life, prep)))"
    and "compactor_run env st" and "prefix (cp_log st1) (cp_log st)" and "int (length (cp_log st)) + 2 \<le> max_safe"
    and "compaction_resume env opts aborted' uuid' e0 life prep answer st = (st', oc)" and "oc_result oc = Inr res"
  shows "\<exists>before after reps reps'. fold_surface (cp_log st) = Inr (before @ cr_shadowed res @ after, reps)
     \<and> fold_surface (cp_log st') = Inr (before @ [length (cp_log st) + 1] @ after, reps')
     \<and> list_all (\<lambda>n. balance_spec (cp_log st') (before @ [length (cp_log st) + 1] @ after) 0 n
                        = balance_spec (cp_log st) (before @ cr_shadowed res @ after) 0 n
                    \<and> balance_spec (cp_log st') (before @ [length (cp_log st) + 1] @ after) 1 n
                        = balance_spec (cp_log st) (before @ cr_shadowed res @ after) 1 n) (before @ after)
     \<and> balance_spec (cp_log st') (before @ [length (cp_log st) + 1] @ after) 0 (length (cp_log st) + 1) = Inr True
     \<and> balance_spec (cp_log st') (before @ [length (cp_log st) + 1] @ after) 1 (length (cp_log st) + 1) = Inr True"
proof -
  let ?l = "cp_log st" and ?l' = "cp_log st'" and ?k = "length (cp_log st) + 1"
  from assms(4) obtain ds where ds: "?l = cp_log st1 @ ds" by (auto simp: prefix_def)
  from committed_compaction [OF compactor_run_ok [OF assms(1)] assms(2) compactor_run_ok [OF assms(3)] ds assms(5-7)]
  obtain before after fs reps fs' e1 e2 e3 reps' where f: "folded ?l fs reps" and n: "fs_nodes fs = before @ cr_shadowed res @ after"
    and l: "?l' = ?l @ [e1, e2, e3]" and f': "folded ?l' fs' reps'" and n': "fs_nodes fs' = before @ [?k] @ after"
    and e2: "\<exists>bs. ev_data e2 = UserMessage (checkpoint_message uuid' life bs)"
    and un: "first_unpaired ?l (fs_nodes fs) = None" and bal: "open_calls ?l before = 0" "open_calls ?l (cr_shadowed res) = 0"
    by metis
  have bound: "\<forall>n \<in> set (fs_nodes fs). n < length ?l" using folded_nodes(1) [OF f] by blast
  have same: "open_calls ?l' p = open_calls ?l p" if "set p \<subseteq> set before \<union> set after" for p
    unfolding l by (rule open_calls_longer) (use that bound n in auto)
  have "?l' ! ?k = e2" unfolding l by (simp add: nth_append)
  then have k: "open_calls ?l' [?k] = 0" using e2 by (auto simp: event_delta_def)
  have un': "first_unpaired ?l' (before @ [?k] @ after) = None"
    by (rule first_unpaired_spliced [OF un [unfolded n] bal k _ same]) simp_all
  have dist: "distinct (before @ cr_shadowed res @ after)" using folded_distinct [OF f] n by simp
  have dist': "distinct (before @ [?k] @ after)" using folded_distinct [OF f'] n' by simp
  have cut: "balance_spec ?l' (before @ [?k] @ after) off n = balance_spec ?l (before @ cr_shadowed res @ after) off n"
    if off: "off \<le> 1" and m: "n \<in> set (before @ after)" for off n
  proof (cases "index_of n before")
    case (Some i)
    then have i: "i < length before" by (rule index_of_less)
    have "index_of n (before @ [?k] @ after) = Some i" "index_of n (before @ cr_shadowed res @ after) = Some i"
      using Some by (simp_all add: index_of_append)
    moreover have "i + off - length before = 0" "i + off - (length before + length (cr_shadowed res)) = 0" using i off by simp_all
    moreover have "open_calls ?l' (take (i + off) before) = open_calls ?l (take (i + off) before)"
      by (rule same) (meson le_supI1 set_take_subset)
    ultimately show ?thesis using un' un [unfolded n] by (simp add: balance_spec_def)
  next
    case None
    then have "n \<in> set after" using m by simp
    then obtain i where i: "index_of n after = Some i" by (cases "index_of n after") simp_all
    have "n \<noteq> ?k" "n \<notin> set (cr_shadowed res)" using \<open>n \<in> set after\<close> dist dist' by auto
    then have "index_of n (before @ [?k] @ after) = Some (length before + (1 + i))"
      "index_of n (before @ cr_shadowed res @ after) = Some (length before + (length (cr_shadowed res) + i))"
      using None i by (simp_all add: index_of_behind)
    moreover have "open_calls ?l' (take (i + off) after) = open_calls ?l (take (i + off) after)"
      by (rule same) (meson le_supI2 set_take_subset)
    ultimately show ?thesis using un' un [unfolded n] bal k same [of before] by (simp add: balance_spec_def)
  qed
  have "index_of ?k (before @ [?k] @ after) = Some (length before)"
    using dist' by (simp add: index_of_behind)
  then have "balance_spec ?l' (before @ [?k] @ after) off ?k = Inr True" if "off \<le> 1" for off
    using that un' bal k same [of before] by (cases off) (simp_all add: balance_spec_def)
  with cut show ?thesis
    using folded_fold_surface [OF f, unfolded n] folded_fold_surface [OF f', unfolded n']
    by (intro exI [of _ before] exI [of _ after] exI [of _ reps] exI [of _ reps']) (simp add: list_all_iff)
qed

theorem compaction_keeps_pairing_witness:
  "balance_spec (cp_log (fst compact_resumed)) [11, 7] 1 11 = Inr True
     \<and> balance_spec (cp_log (fst compact_resumed)) [11, 7] 0 7 = balance_spec (cp_log (fst compact_begun)) [0, 3, 4, 7] 0 7"
proof -
  obtain e0 life prep res where s: "compaction_begin compact_env compact_opts False ''k1'' 0 4 compact_state
      = (fst compact_begun, Inr (Inr (e0, life, prep)))"
    "compaction_resume compact_env compact_opts False ''k2'' e0 life prep (Inr compact_summary) (fst compact_begun)
      = (fst compact_resumed, snd compact_resumed)" "oc_result (snd compact_resumed) = Inr res"
    "compactor_run compact_env (fst compact_begun)" "cr_shadowed res = [0, 3, 4]" by (rule compact_sample)
  from compaction_keeps_pairing [OF compact_state_run s(1,4) prefix_order.order_refl compact_small s(2,3)]
  obtain before after reps0 where nodes: "fold_surface (cp_log (fst compact_begun)) = Inr (before @ cr_shadowed res @ after, reps0)"
    and bal: "list_all (\<lambda>n. balance_spec (cp_log (fst compact_resumed)) (before @ [length (cp_log (fst compact_begun)) + 1] @ after) 0 n
                        = balance_spec (cp_log (fst compact_begun)) (before @ cr_shadowed res @ after) 0 n
                    \<and> balance_spec (cp_log (fst compact_resumed)) (before @ [length (cp_log (fst compact_begun)) + 1] @ after) 1 n
                        = balance_spec (cp_log (fst compact_begun)) (before @ cr_shadowed res @ after) 1 n) (before @ after)"
    and cp: "balance_spec (cp_log (fst compact_resumed)) (before @ [length (cp_log (fst compact_begun)) + 1] @ after) 1
        (length (cp_log (fst compact_begun)) + 1) = Inr True" by blast
  from nodes have nodes: "before @ [0, 3, 4] @ after = [0, 3, 4, 7]" using compact_values(4) s(5) by simp
  then have b: "before = []" by (auto simp: append_eq_Cons_conv)
  with nodes have "after = [7]" by simp
  with b bal cp compact_values(3) s(5) show ?thesis by simp
qed

section \<open>The bracket of a transaction\<close>

text \<open>
  C25: after the summarizer answers, in any way and on any reachable state, the bracket is closed at most once: the
  records appended hold no end record but the last, which is there exactly when the outcome says so
  and carries an error exactly when the outcome is one; without it the outcome is an error.
\<close>

theorem compaction_closes_once:
  assumes "compactor_run env st"
    and "compaction_resume env opts aborted uuid e0 life prep answer st = (st', oc)"
  shows "\<exists>ds. cp_log st' = cp_log st @ ds
     \<and> (if oc_closed oc
        then ds \<noteq> [] \<and> list_all (\<lambda>e. \<not> is_compaction_end e) (butlast ds)
          \<and> (\<exists>x. ev_data (last ds) = CompactionEnd life x \<and> (x = None \<longleftrightarrow> is_ok (oc_result oc)))
        else list_all (\<lambda>e. \<not> is_compaction_end e) ds \<and> \<not> is_ok (oc_result oc))"
  using compaction_resume_ok [OF compactor_run_ok [OF assms(1)] assms(2)] by (auto simp: closes_once_def)

definition compact_refused :: "compactor \<times> compaction_outcome" where
  "compact_refused = (case compact_started of (e, life, prep) \<Rightarrow>
     compaction_resume compact_env compact_opts False ''k2'' e life prep (Inl ''offline'') (fst compact_begun))"

theorem compaction_closes_once_witness:
  "\<exists>ds x. cp_log (fst compact_refused) = cp_log (fst compact_begun) @ ds \<and> \<not> is_ok (oc_result (snd compact_refused))
     \<and> ds \<noteq> [] \<and> ev_data (last ds) = CompactionEnd (fst (snd compact_started)) (Some x)"
proof -
  have vals: "oc_closed (snd compact_refused)" "\<not> is_ok (oc_result (snd compact_refused))" by code_simp+
  have run: "compactor_run compact_env (fst compact_begun)"
    unfolding compact_begun_def by (rule compactor_run.begun [OF compact_state_run])
  obtain e0 life prep where t: "compact_started = (e0, life, prep)" by (cases compact_started) auto
  then have r: "compaction_resume compact_env compact_opts False ''k2'' e0 life prep (Inl ''offline'') (fst compact_begun)
      = (fst compact_refused, snd compact_refused)" unfolding compact_refused_def t by simp
  from compaction_closes_once [OF run r] vals obtain ds x where ds: "cp_log (fst compact_refused) = cp_log (fst compact_begun) @ ds"
    "ds \<noteq> []" "ev_data (last ds) = CompactionEnd life x" "x \<noteq> None" by auto
  then obtain m where "x = Some m" by blast
  with ds vals(2) show ?thesis unfolding t by auto
qed

text \<open>The scan from the newest event reads off the last bracket record, the last seed and the last turn record.\<close>

definition is_compaction_start :: "session_event \<Rightarrow> bool" where
  "is_compaction_start e = (case ev_data e of CompactionStart _ \<Rightarrow> True | _ \<Rightarrow> False)"

lemma inspect_entry_unmatched:
  "en_unmatched (inspect_entry tk ek en es) =
     (if ek then en_unmatched en
      else case find (\<lambda>e. is_compaction_start e \<or> is_compaction_end e) es of
          Some e \<Rightarrow> if is_compaction_start e then Some e else en_unmatched en
        | None \<Rightarrow> en_unmatched en)"
proof (induction es arbitrary: tk ek en)
  case Nil
  then show ?case by simp
next
  case (Cons e es)
  show ?case
    by (cases "ev_data e")
      (simp_all add: Cons.IH Let_def is_compaction_start_def [of e] is_compaction_end_def [of e] split: option.split)
qed

lemma seqs_nth: "map ev_seq l = [0 ..< length l] \<Longrightarrow> i < length l \<Longrightarrow> ev_seq (l ! i) = i"
  by (metis add_0 nth_map nth_upt)

lemma inspect_entry_seed:
  "en_end_seed (inspect_entry tk ek en es) =
     (case en_end_seed en of Some k \<Rightarrow> Some k | None \<Rightarrow> map_option ev_seq (find (\<lambda>e. ev_data e = EndSeed) es))"
proof (induction es arbitrary: tk ek en)
  case Nil
  then show ?case by (simp split: option.split)
next
  case (Cons e es)
  show ?case
    by (cases "ev_data e") (auto simp: Cons.IH Let_def split: option.splits)
qed

lemma find_append: "find P (us @ vs) = (case find P us of Some e \<Rightarrow> Some e | None \<Rightarrow> find P vs)"
  by (induction us) auto

lemma find_found: "find P xs = Some d \<Longrightarrow> P d \<and> d \<in> set xs"
  by (induction xs) (auto split: if_splits)

lemma started_not_inactive:
  assumes "is_compaction_start e" and "list_all (\<lambda>d. \<not> is_compaction_end d \<and> ev_data d \<noteq> EndSeed) ds"
    and seqs: "map ev_seq (evs @ [e] @ ds) = [0 ..< length (evs @ [e] @ ds)]"
  shows "assert_compaction_inactive (inspect_compaction_entry_state (evs @ [e] @ ds)) = Inl (Manual Busy)"
proof -
  let ?l = "evs @ [e] @ ds" and ?P = "\<lambda>e. is_compaction_start e \<or> is_compaction_end e"
  have nth: "ev_seq (?l ! i) = i" if "i < length ?l" for i
    by (rule seqs_nth [OF seqs that])
  have e: "ev_seq e = length evs" using nth [of "length evs"] by simp
  have "\<exists>d. find ?P (rev ?l) = Some d \<and> is_compaction_start d \<and> d \<in> set (e # ds)"
  proof (cases "find ?P (rev ds)")
    case None
    then show ?thesis using assms(1) by (simp add: find_append)
  next
    case (Some d)
    then have "?P d" "d \<in> set ds" using find_found [OF Some] by simp_all
    then show ?thesis using Some assms(2)
      by (auto simp: find_append list_all_iff)
  qed
  then obtain d where d: "en_unmatched (inspect_compaction_entry_state ?l) = Some d" "d \<in> set (e # ds)"
    by (auto simp: inspect_compaction_entry_state_def inspect_entry_unmatched)
  obtain i where i: "i < length (e # ds)" "(e # ds) ! i = d" using d(2) unfolding in_set_conv_nth by blast
  then have "?l ! (length evs + i) = d" by (simp add: nth_append)
  with nth [of "length evs + i"] i(1) have dseq: "length evs \<le> ev_seq d" by simp
  have "find (\<lambda>e. ev_data e = EndSeed) (rev ?l) = find (\<lambda>e. ev_data e = EndSeed) (rev evs)"
  proof -
    have "find (\<lambda>e. ev_data e = EndSeed) (rev ([e] @ ds)) = None"
      using assms(1,2) by (auto simp: find_None_iff list_all_iff is_compaction_start_def)
    then show ?thesis unfolding rev_append [of evs "[e] @ ds"] find_append by simp
  qed
  moreover have "ev_seq x < length evs" if "find (\<lambda>e. ev_data e = EndSeed) (rev evs) = Some x" for x
  proof -
    from find_found [OF that] have "x \<in> set evs" by simp
    then obtain i where "i < length evs" "evs ! i = x" by (auto simp: in_set_conv_nth)
    with nth [of i] show ?thesis by (simp add: nth_append)
  qed
  ultimately have "case en_end_seed (inspect_compaction_entry_state ?l) of None \<Rightarrow> True | Some k \<Rightarrow> k < length evs"
    by (simp add: inspect_compaction_entry_state_def inspect_entry_seed split: option.split)
  with d(1) dseq show ?thesis by (auto simp: assert_compaction_inactive_def split: option.splits)
qed

text \<open>
  C26: once a transaction has begun, no other one begins on any reachable extension of the log without an end
  record or a new seed: the check answers busy, and an attempt fails and leaves the log as it is.
\<close>

theorem compaction_lock:
  assumes "compactor_run env st0"
    and "compaction_begin env opts aborted uuid a b st0 = (st1, Inr (Inr (e0, life, prep)))"
    and "compactor_run env st" and "cp_log st = cp_log st1 @ ds"
    and "list_all (\<lambda>d. \<not> is_compaction_end d \<and> ev_data d \<noteq> EndSeed) ds"
  shows "assert_no_active_compaction (cp_session st) = Inl (Manual Busy)
     \<and> (\<exists>st' x. compaction_begin env opts' aborted' uuid' a' b' st = (st', Inl x) \<and> cp_log st' = cp_log st)"
proof -
  note b = compaction_begin_ok [OF compactor_run_ok [OF assms(1)] assms(2)]
  have l: "cp_log st = cp_log st0 @ [e0] @ ds" and e0: "is_compaction_start e0" using b assms(4) by (simp_all add: is_compaction_start_def)
  have ok: "compactor_ok (ce_lengths env) st" by (rule compactor_run_ok [OF assms(3)])
  then have "map ev_seq (cp_log st) = [0 ..< length (cp_log st)]"
    using log_accepted_seqs by (simp add: compactor_ok_def session_ok_def)
  from started_not_inactive [OF e0 assms(5) this [unfolded l]] have busy:
    "assert_compaction_inactive (inspect_compaction_entry_state (cp_log st)) = Inl (Manual Busy)" unfolding l .
  obtain fs reps where f: "folded (cp_log st) fs reps" by (rule compactor_ok_folded [OF ok])
  obtain st2 q where op: "compaction_open env opts' aborted' uuid' a' b' st = (st2, q)"
    by (cases "compaction_open env opts' aborted' uuid' a' b' st") auto
  note o = compaction_open_ok [OF ok f op]
  then have "\<exists>x. q = Inl x" using busy by (cases q) auto
  with o op busy show ?thesis by (auto simp: assert_no_active_compaction_def compaction_begin_def)
qed

theorem compaction_lock_witness:
  "assert_no_active_compaction (cp_session (fst compact_begun)) = Inl (Manual Busy)
     \<and> (\<exists>st' x. compaction_begin compact_env compact_opts False ''k9'' 7 7 (fst compact_begun) = (st', Inl x)
          \<and> cp_log st' = cp_log (fst compact_begun))"
proof -
  obtain e0 life prep where s: "compaction_begin compact_env compact_opts False ''k1'' 0 4 compact_state
      = (fst compact_begun, Inr (Inr (e0, life, prep)))" and run: "compactor_run compact_env (fst compact_begun)"
    by (rule compact_sample)
  show ?thesis by (rule compaction_lock [OF compact_state_run s run, of "[]"]) simp_all
qed

section \<open>The selected range\<close>

lemma validate_accepts:
  assumes ok: "compactor_ok j st" and f: "folded (cp_log st) fs reps" and n: "fs_nodes fs = front @ tail" "front \<noteq> []"
    and un: "first_unpaired (cp_log st) (fs_nodes fs) = None" and bal: "open_calls (cp_log st) front = 0"
  shows "is_ok (snd (validate_surface_region st (hd front) (last front)))"
proof -
  let ?ns = "fs_nodes fs" and ?l = "cp_log st" and ?a = "hd front" and ?b = "last front" and ?k = "length front - 1"
  have dist: "distinct ?ns" by (rule folded_distinct [OF f])
  have ia: "index_of ?a ?ns = Some 0" using n by (cases front) simp_all
  have "?ns ! ?k = ?b" "?k < length ?ns" using n by (cases front; simp add: nth_append last_conv_nth)+
  then have ib: "index_of ?b ?ns = Some ?k" using index_of_nth_distinct [OF dist] by metis
  have nth: "?ns ! 0 = ?a" "?ns ! ?k = ?b" using index_of_Some [OF ia] index_of_Some [OF ib] by simp_all
  have k1: "?k + 1 = length front" using n(2) by (simp add: Suc_leI)
  have ba: "spec_result (balance_spec ?l ?ns 0 ?a) = Inr True" using un ia by (simp add: spec_result_def balance_spec_def)
  have bb: "spec_result (balance_spec ?l ?ns 1 ?b) = Inr True"
    using un ib bal k1 n(1) by (simp add: spec_result_def balance_spec_def)
  obtain st1 where s1: "cp_surface st = (st1, Inr ?ns)" and "reads j st st1" by (rule cp_surface_ok [OF ok f])
  then have ok1: "compactor_ok j st1" and l1: "cp_log st1 = ?l" by (simp_all add: reads_def)
  obtain st2 where b2: "cp_balanced 0 st1 ?a = (st2, spec_result (balance_spec ?l ?ns 0 ?a))" and "reads j st1 st2"
    by (rule cp_balanced_ok [OF ok1, unfolded l1, OF f, of 0 ?a]) simp
  then have ok2: "compactor_ok j st2" and l2: "cp_log st2 = ?l" using l1 by (simp_all add: reads_def)
  obtain st3 where b3: "cp_balanced 1 st2 ?b = (st3, spec_result (balance_spec ?l ?ns 1 ?b))"
    by (rule cp_balanced_ok [OF ok2, unfolded l2, OF f, of 1 ?b]) simp
  show ?thesis
    using s1 ia ib nth b2 [unfolded ba] b3 [unfolded bb] by (simp add: validate_surface_region_def is_ok_def)
qed

text \<open>
  C27: the range the policy selects from a fresh measurement starts the surface, ends where no tool call is open,
  leaves after it nodes worth at least the tokens to retain, and is one the transaction accepts.
\<close>

theorem selected_range_accepted:
  assumes "compactor_run env st" and "cp_measure (ce_lengths env) st = (st1, Inr m)"
    and "select_compactable_range st1 m retain = (st2, Inr (Some (a, b)))"
  shows "\<exists>front tail reps. fold_surface (cp_log st) = Inr (front @ tail, reps) \<and> front \<noteq> [] \<and> tail \<noteq> []
     \<and> a = hd front \<and> b = last front \<and> open_calls (cp_log st) front = 0
     \<and> int retain \<le> surface_price (ce_lengths env) (cp_log st) tail
     \<and> is_ok (snd (validate_surface_region st2 a b))"
proof -
  let ?l = "cp_log st" and ?j = "ce_lengths env"
  have ok: "compactor_ok ?j st" by (rule compactor_run_ok [OF assms(1)])
  obtain fs reps where f: "folded ?l fs reps" by (rule compactor_ok_folded [OF ok])
  note mok = cp_measure_ok [OF ok assms(2) f]
  then have ok1: "compactor_ok ?j st1" and l1: "cp_log st1 = ?l" and m: "me_nodes m = priced ?j ?l (fs_nodes fs)"
    by (simp_all add: reads_def)
  from select_range_ok [OF ok1 _ _ assms(3), unfolded l1, OF f m]
  obtain front tail where ok2: "compactor_ok ?j st2" and l2: "cp_log st2 = ?l"
    and n: "fs_nodes fs = front @ tail" "front \<noteq> []" "tail \<noteq> []" "a = hd front" "b = last front"
    and un: "first_unpaired ?l (fs_nodes fs) = None" "open_calls ?l front = 0"
    and price: "int retain \<le> surface_price ?j ?l tail" unfolding reads_def l1 by blast
  have "is_ok (snd (validate_surface_region st2 a b))"
    using validate_accepts [OF ok2, unfolded l2, OF f n(1,2) un] n(4,5) by simp
  with folded_fold_surface [OF f] n un(2) price show ?thesis by auto
qed

definition compact_measured :: "compactor \<times> (compaction_error + token_measurement)" where
  "compact_measured = cp_measure (ce_lengths compact_env) compact_state"

definition compact_selected :: "compactor \<times> (compaction_error + (nat \<times> nat) option)" where
  "compact_selected = (case compact_measured of
       (st, Inr m) \<Rightarrow> select_compactable_range st m 50 | (st, Inl x) \<Rightarrow> (st, Inl x))"

theorem selected_range_accepted_witness:
  "snd compact_selected = Inr (Some (0, 4)) \<and> is_ok (snd (validate_surface_region (fst compact_selected) 0 4))"
proof -
  have vals: "is_ok (snd compact_measured)" "snd compact_selected = Inr (Some (0, 4))" by code_simp+
  then obtain m where m: "cp_measure (ce_lengths compact_env) compact_state = (fst compact_measured, Inr m)"
    unfolding compact_measured_def by (metis is_ok_iff prod.collapse)
  then have "compact_selected = select_compactable_range (fst compact_measured) m 50"
    unfolding compact_selected_def by (subst compact_measured_def) (simp add: m)
  with vals(2) have "select_compactable_range (fst compact_measured) m 50 = (fst compact_selected, Inr (Some (0, 4)))"
    by (metis prod.collapse)
  from selected_range_accepted [OF compact_state_run m this] vals(2) show ?thesis by blast
qed

end
