(* ===== verification/Compaction_Policy.thy ===== *)
theory Compaction_Policy
  imports Llm_Types "HOL-Library.Log_Nat"
begin

text \<open>
  The policy of the compaction backend, \<^verbatim>\<open>packages/compaction/compaction-basic/src/config.ts\<close>: validation
  of the untrusted configuration, the override for one provider and model, and the budgets for one context
  window. A budget is the floor of a product of two doubles, so the product is rounded as IEEE 754 does
  (to 53 bits, ties to even; the exponent is not bounded below, which the floor cannot tell).
\<close>

section \<open>Products of doubles\<close>

definition round_half_even :: "rat \<Rightarrow> int" where
  "round_half_even y = (let f = \<lfloor>y\<rfloor>; d = y - of_int f in
     if d < 1 / 2 then f else if d > 1 / 2 then f + 1 else if even f then f else f + 1)"

definition double_exponent :: "rat \<Rightarrow> int" where
  "double_exponent x = (case quotient_of x of (p, q) \<Rightarrow>
     let k = bitlen p - bitlen q in if 2 powi k \<le> x then k else k - 1)"

definition double_round :: "rat \<Rightarrow> rat" where
  "double_round x =
     (if x \<le> 0 then 0
      else let unit = 2 powi (double_exponent x - 52) in of_int (round_half_even (x / unit)) * unit)"

lemma round_half_even_le: "y \<le> of_int n \<Longrightarrow> round_half_even y \<le> n"
proof -
  assume y: "y \<le> of_int n"
  have "\<lfloor>y\<rfloor> \<le> n" using y by linarith
  moreover have "\<lfloor>y\<rfloor> + 1 \<le> n" if "y - of_int \<lfloor>y\<rfloor> \<noteq> 0"
  proof -
    have "of_int \<lfloor>y\<rfloor> < y" using that of_int_floor_le [of y] by linarith
    then show ?thesis using y by linarith
  qed
  ultimately show ?thesis by (auto simp: round_half_even_def Let_def)
qed

lemma double_exponent_le:
  assumes "0 < x"
  shows "2 powi double_exponent x \<le> x"
proof -
  obtain p q where pq: "quotient_of x = (p, q)" by (cases "quotient_of x") auto
  have q: "0 < q" by (rule quotient_of_denom_pos [OF pq])
  have x: "x = of_int p / of_int q" by (rule quotient_of_div [OF pq])
  have p: "0 < p" using assms q unfolding x by (simp add: zero_less_divide_iff)
  have bp: "1 \<le> bitlen p" "1 \<le> bitlen q" using p q by (simp_all add: bitlen_alt_def)
  have lo: "2 powi (bitlen p - 1) \<le> (of_int p :: rat)"
  proof -
    have "(2::int) ^ nat (bitlen p - 1) \<le> p" using bitlen_bounds [OF p] by simp
    then have "(of_int (2 ^ nat (bitlen p - 1)) :: rat) \<le> of_int p" by (simp only: of_int_le_iff)
    then show ?thesis using bp by (simp add: power_int_def)
  qed
  have hi: "(of_int q :: rat) < 2 powi (bitlen q)"
  proof -
    have "q < (2::int) ^ nat (bitlen q)" using bitlen_bounds [OF q] by simp
    then have "(of_int q :: rat) < of_int (2 ^ nat (bitlen q))" by (simp only: of_int_less_iff)
    then show ?thesis using bp by (simp add: power_int_def)
  qed
  have "2 powi (bitlen p - bitlen q - 1) = 2 powi (bitlen p - 1) / (2 powi (bitlen q) :: rat)"
    by (simp add: power_int_diff)
  also have "\<dots> \<le> of_int p / of_int q"
    by (rule frac_le) (use lo hi p q in \<open>simp_all add: less_imp_le\<close>)
  finally have "2 powi (bitlen p - bitlen q - 1) \<le> x" unfolding x .
  then show ?thesis by (simp add: double_exponent_def pq Let_def)
qed

lemma double_round_le:
  assumes "x \<le> of_int w" and "0 \<le> w" and "w < 2 ^ 53"
  shows "double_round x \<le> of_int w"
proof (cases "x \<le> 0")
  case True
  then show ?thesis using assms(2) by (simp add: double_round_def)
next
  case False
  let ?u = "double_exponent x - 52"
  have "2 powi double_exponent x \<le> x" using double_exponent_le False by simp
  also have "\<dots> < 2 powi 53" using assms(1,3) order_le_less_trans [OF assms(1), of "of_int (2 ^ 53)"] by simp
  finally have "(2::rat) powi double_exponent x < 2 powi 53" .
  then have "double_exponent x < 53" by (rule power_int_le_imp_less_exp [rotated]) simp_all
  then have u: "?u \<le> 0" by simp
  define unit :: rat where "unit = 2 powi ?u"
  have pos: "0 < unit" by (simp add: unit_def)
  have inv: "1 / unit = of_int (2 ^ nat (- ?u))"
    using u by (simp add: unit_def power_int_def field_simps)
  have scaled: "of_int w / unit = of_int (w * 2 ^ nat (- ?u))"
  proof -
    have "of_int w / unit = of_int w * (1 / unit)" by simp
    then show ?thesis unfolding inv by simp
  qed
  have "x / unit \<le> of_int w / unit" using assms(1) pos by (simp add: divide_right_mono)
  also note scaled
  finally have "round_half_even (x / unit) \<le> w * 2 ^ nat (- ?u)" by (rule round_half_even_le)
  then have "(of_int (round_half_even (x / unit)) :: rat) \<le> of_int (w * 2 ^ nat (- ?u))" by (simp only: of_int_le_iff)
  also note scaled [symmetric]
  finally have "of_int (round_half_even (x / unit)) * unit \<le> of_int w" using pos by (simp add: field_simps)
  then show ?thesis using False by (simp add: double_round_def Let_def unit_def)
qed

lemma double_round_nonneg: "0 \<le> double_round x"
proof -
  have "0 \<le> round_half_even y" if "0 \<le> y" for y :: rat
    using that by (auto simp: round_half_even_def Let_def)
  then show ?thesis by (simp add: double_round_def Let_def)
qed

section \<open>Configuration\<close>

datatype compaction_policy_error =
    NotAnArray
  | NotAnObject
  | UnknownKey string
  | BadRatio string
  | BadInteger string
  | BadString string
  | BadAuto
  | TwoRetentions
  | HalfTarget
  | RetainsTooMuch
  | DuplicatePolicy string string

text \<open>Errors name the scope they are about: the top level, or one entry of the policy table.\<close>

type_synonym policy_failure = "nat option \<times> compaction_policy_error"

record policy_config =
  po_threshold :: "rat option"
  po_retain_ratio :: "rat option"
  po_retain_tokens :: "int option"
  po_target :: "(string \<times> string) option"
  po_max_tokens :: "int option"
  po_retries :: "int option"
  po_overflow :: "int option"

record model_policy =
  mp_provider :: string
  mp_model :: string
  mp_policy :: policy_config

datatype retention = RetainRatio rat | RetainTokens int

record resolved_policy =
  rp_threshold :: rat
  rp_retention :: retention
  rp_target :: "string \<times> string"
  rp_max_tokens :: int
  rp_retries :: int
  rp_overflow :: int

record resolved_config =
  rc_defaults :: resolved_policy
  rc_models :: "model_policy list"
  rc_auto :: bool

definition policy_config_keys :: "string list" where
  "policy_config_keys = [''thresholdRatio'', ''retainRatio'', ''retainTokens'', ''summarizationProvider'',
     ''summarizationModel'', ''maxTokens'', ''compactionRetries'', ''maxOverflowRetries'']"

definition basic_compact_config_keys :: "string list" where
  "basic_compact_config_keys = policy_config_keys @ [''modelPolicies'', ''auto'']"

definition model_policy_keys :: "string list" where
  "model_policy_keys = [''provider'', ''model''] @ policy_config_keys"

definition validate_config_keys :: "string list \<Rightarrow> (string \<times> json) list \<Rightarrow> compaction_policy_error + unit" where
  "validate_config_keys keys config = (case find (\<lambda>k. k \<notin> set keys) (map fst config) of
       Some k \<Rightarrow> Inl (UnknownKey k) | None \<Rightarrow> Inr ())"

text \<open>A double of the configuration is a rational; the asserts see any JSON value.\<close>

definition assert_ratio :: "string \<Rightarrow> json option \<Rightarrow> compaction_policy_error + rat option" where
  "assert_ratio k v = (case v of
       None \<Rightarrow> Inr None
     | Some (JNum r) \<Rightarrow> if r \<le> 0 \<or> r > 1 then Inl (BadRatio k) else Inr (Some r)
     | Some _ \<Rightarrow> Inl (BadRatio k))"

definition assert_integer :: "int \<Rightarrow> string \<Rightarrow> json option \<Rightarrow> compaction_policy_error + int option" where
  "assert_integer least k v = (case v of
       None \<Rightarrow> Inr None
     | Some (JNum r) \<Rightarrow> if of_int \<lfloor>r\<rfloor> = r \<and> least \<le> \<lfloor>r\<rfloor> then Inr (Some \<lfloor>r\<rfloor>) else Inl (BadInteger k)
     | Some _ \<Rightarrow> Inl (BadInteger k))"

definition assert_string :: "string \<Rightarrow> json option \<Rightarrow> compaction_policy_error + string option" where
  "assert_string k v = (case v of
       None \<Rightarrow> Inr None | Some (JStr t) \<Rightarrow> Inr (Some t) | Some _ \<Rightarrow> Inl (BadString k))"

definition assert_non_empty_string :: "string \<Rightarrow> json option \<Rightarrow> compaction_policy_error + string" where
  "assert_non_empty_string k v = (case v of
       Some (JStr t) \<Rightarrow> if t = [] then Inl (BadString k) else Inr t | _ \<Rightarrow> Inl (BadString k))"

definition validate_summarization_pair :: "(string \<times> json) list \<Rightarrow> compaction_policy_error + (string \<times> string) option" where
  "validate_summarization_pair config =
     bind_res (assert_string ''summarizationProvider'' (map_of config ''summarizationProvider'')) (\<lambda>provider.
     bind_res (assert_string ''summarizationModel'' (map_of config ''summarizationModel'')) (\<lambda>model.
       (case (provider, model) of
          (None, None) \<Rightarrow> Inr None
        | (Some p, Some m) \<Rightarrow> if (p = []) \<noteq> (m = []) then Inl HalfTarget else Inr (Some (p, m))
        | _ \<Rightarrow> Inl HalfTarget)))"

definition validate_policy :: "(string \<times> json) list \<Rightarrow> compaction_policy_error + policy_config" where
  "validate_policy config =
     bind_res (assert_ratio ''thresholdRatio'' (map_of config ''thresholdRatio'')) (\<lambda>threshold.
     bind_res (assert_ratio ''retainRatio'' (map_of config ''retainRatio'')) (\<lambda>ratio.
     bind_res (assert_integer 0 ''retainTokens'' (map_of config ''retainTokens'')) (\<lambda>tokens.
     if ratio \<noteq> None \<and> tokens \<noteq> None then Inl TwoRetentions
     else
     bind_res (assert_integer 1 ''maxTokens'' (map_of config ''maxTokens'')) (\<lambda>max_tokens.
     bind_res (assert_integer 0 ''compactionRetries'' (map_of config ''compactionRetries'')) (\<lambda>retries.
     bind_res (assert_integer 0 ''maxOverflowRetries'' (map_of config ''maxOverflowRetries'')) (\<lambda>overflow.
     bind_res (validate_summarization_pair config) (\<lambda>target.
       Inr \<lparr> po_threshold = threshold, po_retain_ratio = ratio, po_retain_tokens = tokens, po_target = target,
             po_max_tokens = max_tokens, po_retries = retries, po_overflow = overflow \<rparr>)))))))"

definition resolve_retention :: "policy_config \<Rightarrow> retention \<Rightarrow> retention" where
  "resolve_retention config fallback = (case po_retain_tokens config of
       Some n \<Rightarrow> RetainTokens n
     | None \<Rightarrow> (case po_retain_ratio config of Some r \<Rightarrow> RetainRatio r | None \<Rightarrow> fallback))"

definition validate_ratio_retention :: "rat \<Rightarrow> retention \<Rightarrow> compaction_policy_error + unit" where
  "validate_ratio_retention threshold ret = (case ret of
       RetainRatio r \<Rightarrow> if r \<ge> threshold then Inl RetainsTooMuch else Inr ()
     | RetainTokens _ \<Rightarrow> Inr ())"

definition assert_model_policy :: "json \<Rightarrow> compaction_policy_error + model_policy" where
  "assert_model_policy source = (case source of
       JObj config \<Rightarrow>
         bind_res (validate_config_keys model_policy_keys config) (\<lambda>_.
         bind_res (assert_non_empty_string ''provider'' (map_of config ''provider'')) (\<lambda>provider.
         bind_res (assert_non_empty_string ''model'' (map_of config ''model'')) (\<lambda>model.
         bind_res (validate_policy config) (\<lambda>policy.
           Inr \<lparr> mp_provider = provider, mp_model = model, mp_policy = policy \<rparr>))))
     | _ \<Rightarrow> Inl NotAnObject)"

fun resolve_policy_entries ::
  "nat \<Rightarrow> string set \<Rightarrow> json list \<Rightarrow> policy_failure + model_policy list" where
  "resolve_policy_entries i seen [] = Inr []"
| "resolve_policy_entries i seen (source # rest) = (case assert_model_policy source of
       Inl x \<Rightarrow> Inl (Some i, x)
     | Inr p \<Rightarrow>
         let key = mp_provider p @ [CHR 0x00] @ mp_model p in
         if key \<in> seen then Inl (Some i, DuplicatePolicy (mp_provider p) (mp_model p))
         else bind_res (resolve_policy_entries (i + 1) (insert key seen) rest) (\<lambda>ps. Inr (p # ps)))"

definition resolve_model_policies :: "json option \<Rightarrow> policy_failure + model_policy list" where
  "resolve_model_policies configured = (case configured of
       None \<Rightarrow> Inr []
     | Some (JArr xs) \<Rightarrow> resolve_policy_entries 0 {} xs
     | Some _ \<Rightarrow> Inl (None, NotAnArray))"

fun check_model_retentions :: "rat \<Rightarrow> retention \<Rightarrow> nat \<Rightarrow> model_policy list \<Rightarrow> policy_failure + unit" where
  "check_model_retentions threshold ret i [] = Inr ()"
| "check_model_retentions threshold ret i (p # ps) =
     (case validate_ratio_retention
             (case po_threshold (mp_policy p) of Some t \<Rightarrow> t | None \<Rightarrow> threshold) (resolve_retention (mp_policy p) ret) of
        Inl x \<Rightarrow> Inl (Some i, x)
      | Inr _ \<Rightarrow> check_model_retentions threshold ret (i + 1) ps)"

definition or_inherited :: "'a option \<Rightarrow> 'a \<Rightarrow> 'a" where
  "or_inherited v d = (case v of Some x \<Rightarrow> x | None \<Rightarrow> d)"

text \<open>The two default ratios are the doubles nearest to 0.8 and 0.16.\<close>

definition default_threshold_ratio :: rat where
  "default_threshold_ratio = double_round (4 / 5)"

definition default_retain_ratio :: rat where
  "default_retain_ratio = double_round (4 / 25)"

definition at_top :: "compaction_policy_error + 'a \<Rightarrow> policy_failure + 'a" where
  "at_top r = (case r of Inl x \<Rightarrow> Inl (None, x) | Inr v \<Rightarrow> Inr v)"

definition resolve_compaction_config :: "(string \<times> json) list \<Rightarrow> policy_failure + resolved_config" where
  "resolve_compaction_config config =
     bind_res (at_top (validate_config_keys basic_compact_config_keys config)) (\<lambda>_.
     bind_res (at_top (validate_policy config)) (\<lambda>policy.
     bind_res (case map_of config ''auto'' of
         None \<Rightarrow> Inr True | Some (JBool b) \<Rightarrow> Inr b | Some _ \<Rightarrow> Inl (None, BadAuto)) (\<lambda>auto_flag.
     let threshold = or_inherited (po_threshold policy) default_threshold_ratio;
         ret = resolve_retention policy (RetainRatio default_retain_ratio) in
     bind_res (at_top (validate_ratio_retention threshold ret)) (\<lambda>_.
     bind_res (resolve_model_policies (map_of config ''modelPolicies'')) (\<lambda>models.
     bind_res (check_model_retentions threshold ret 0 models) (\<lambda>_.
       Inr \<lparr> rc_defaults =
               \<lparr> rp_threshold = threshold, rp_retention = ret, rp_target = or_inherited (po_target policy) ([], []),
                 rp_max_tokens = or_inherited (po_max_tokens policy) 8192, rp_retries = or_inherited (po_retries policy) 1,
                 rp_overflow = or_inherited (po_overflow policy) 1 \<rparr>,
             rc_models = models, rc_auto = auto_flag \<rparr>))))))"

section \<open>The policy of one target and its budgets\<close>

definition no_override :: policy_config where
  "no_override = \<lparr> po_threshold = None, po_retain_ratio = None, po_retain_tokens = None, po_target = None,
     po_max_tokens = None, po_retries = None, po_overflow = None \<rparr>"

definition resolve_target_policy :: "resolved_config \<Rightarrow> string \<times> string \<Rightarrow> resolved_policy" where
  "resolve_target_policy config target =
     (let override = (case find (\<lambda>p. mp_provider p = fst target \<and> mp_model p = snd target) (rc_models config) of
            Some p \<Rightarrow> mp_policy p | None \<Rightarrow> no_override);
          d = rc_defaults config
      in \<lparr> rp_threshold = or_inherited (po_threshold override) (rp_threshold d),
           rp_retention = resolve_retention override (rp_retention d),
           rp_target = or_inherited (po_target override) (rp_target d),
           rp_max_tokens = or_inherited (po_max_tokens override) (rp_max_tokens d),
           rp_retries = or_inherited (po_retries override) (rp_retries d),
           rp_overflow = or_inherited (po_overflow override) (rp_overflow d) \<rparr>)"

datatype spec_error = BadWindow rat | RetainsPastThreshold int int

record compact_spec =
  sp_threshold :: int
  sp_retain :: int
  sp_policy :: resolved_policy

definition resolve_compact_spec :: "resolved_policy \<Rightarrow> rat \<Rightarrow> spec_error + compact_spec" where
  "resolve_compact_spec policy window =
     (if of_int \<lfloor>window\<rfloor> \<noteq> window \<or> window \<le> 0 then Inl (BadWindow window)
      else let threshold = \<lfloor>double_round (window * rp_threshold policy)\<rfloor>;
               retain = (case rp_retention policy of
                  RetainTokens n \<Rightarrow> n | RetainRatio r \<Rightarrow> \<lfloor>double_round (window * r)\<rfloor>)
        in if retain \<ge> threshold then Inl (RetainsPastThreshold retain threshold)
           else Inr \<lparr> sp_threshold = threshold, sp_retain = retain, sp_policy = policy \<rparr>)"

section \<open>Accepted configurations\<close>

text \<open>What every later use of a policy relies on.\<close>

definition retention_ok :: "rat \<Rightarrow> retention \<Rightarrow> bool" where
  "retention_ok threshold ret = (case ret of RetainRatio r \<Rightarrow> 0 < r \<and> r < threshold | RetainTokens n \<Rightarrow> 0 \<le> n)"

definition compaction_policy_ok :: "resolved_policy \<Rightarrow> bool" where
  "compaction_policy_ok p \<longleftrightarrow> 0 < rp_threshold p \<and> rp_threshold p \<le> 1 \<and> retention_ok (rp_threshold p) (rp_retention p)
     \<and> (fst (rp_target p) = [] \<longleftrightarrow> snd (rp_target p) = []) \<and> 0 < rp_max_tokens p \<and> 0 \<le> rp_retries p \<and> 0 \<le> rp_overflow p"

definition config_fields_ok :: "policy_config \<Rightarrow> bool" where
  "config_fields_ok p \<longleftrightarrow> pred_option (\<lambda>r. 0 < r \<and> r \<le> 1) (po_threshold p) \<and> pred_option (\<lambda>r. 0 < r) (po_retain_ratio p)
     \<and> pred_option (\<lambda>n. 0 \<le> n) (po_retain_tokens p) \<and> pred_option (\<lambda>(a, b). a = [] \<longleftrightarrow> b = []) (po_target p)
     \<and> pred_option (\<lambda>n. 0 < n) (po_max_tokens p) \<and> pred_option (\<lambda>n. 0 \<le> n) (po_retries p)
     \<and> pred_option (\<lambda>n. 0 \<le> n) (po_overflow p)"

lemma assert_ratio_ok: "assert_ratio k v = Inr r \<Longrightarrow> pred_option (\<lambda>r. 0 < r \<and> r \<le> 1) r"
  by (auto simp: assert_ratio_def split: option.splits json.splits if_splits)

lemma assert_integer_ok: "assert_integer least k v = Inr r \<Longrightarrow> pred_option (\<lambda>n. least \<le> n) r"
  by (auto simp: assert_integer_def split: option.splits json.splits if_splits)

lemma summarization_pair_ok:
  assumes "validate_summarization_pair c = Inr t"
  shows "pred_option (\<lambda>(a, b). (a = []) = (b = [])) t"
proof -
  from assms obtain p m where "(case (p, m) of (None, None) \<Rightarrow> Inr None
      | (Some p, Some m) \<Rightarrow> if (p = []) \<noteq> (m = []) then Inl HalfTarget else Inr (Some (p, m)) | _ \<Rightarrow> Inl HalfTarget) = Inr t"
    unfolding validate_summarization_pair_def bind_res_Inr_iff by blast
  then show ?thesis by (cases p; cases m; cases t) (auto split: if_split_asm)
qed

lemma validate_policy_ok:
  assumes "validate_policy c = Inr p"
  shows "config_fields_ok p"
proof -
  from assms obtain t r n m k v g where
    ratios: "assert_ratio ''thresholdRatio'' (map_of c ''thresholdRatio'') = Inr t"
      "assert_ratio ''retainRatio'' (map_of c ''retainRatio'') = Inr r"
    and ints: "assert_integer 0 ''retainTokens'' (map_of c ''retainTokens'') = Inr n"
      "assert_integer 1 ''maxTokens'' (map_of c ''maxTokens'') = Inr m"
      "assert_integer 0 ''compactionRetries'' (map_of c ''compactionRetries'') = Inr k"
      "assert_integer 0 ''maxOverflowRetries'' (map_of c ''maxOverflowRetries'') = Inr v"
    and pair: "validate_summarization_pair c = Inr g"
    and p: "p = \<lparr> po_threshold = t, po_retain_ratio = r, po_retain_tokens = n, po_target = g,
             po_max_tokens = m, po_retries = k, po_overflow = v \<rparr>"
    by (auto simp: validate_policy_def split: if_split_asm)
  have r: "pred_option (\<lambda>r. 0 < r) r" using assert_ratio_ok [OF ratios(2)] by (cases r) simp_all
  have m: "pred_option (\<lambda>n. 0 < n) m" using assert_integer_ok [OF ints(2)] by (cases m) simp_all
  show ?thesis
    unfolding config_fields_ok_def p
    using assert_ratio_ok [OF ratios(1)] r m ints [THEN assert_integer_ok] summarization_pair_ok [OF pair] by simp
qed

lemma resolve_policy_entries_ok:
  "resolve_policy_entries i seen xs = Inr ps \<Longrightarrow> list_all (\<lambda>p. config_fields_ok (mp_policy p)) ps"
proof (induction i seen xs arbitrary: ps rule: resolve_policy_entries.induct)
  case (2 i seen source rest)
  then obtain p where a: "assert_model_policy source = Inr p"
    by (cases "assert_model_policy source") auto
  then have "config_fields_ok (mp_policy p)"
    by (auto simp: assert_model_policy_def validate_policy_ok split: json.splits)
  with 2 a show ?case by (auto simp: Let_def split: if_split_asm)
qed simp

lemma check_model_retentions_ok:
  "check_model_retentions threshold ret i ps = Inr () \<Longrightarrow> p \<in> set ps \<Longrightarrow>
     validate_ratio_retention (or_inherited (po_threshold (mp_policy p)) threshold) (resolve_retention (mp_policy p) ret) = Inr ()"
  by (induction threshold ret i ps rule: check_model_retentions.induct)
    (auto simp: or_inherited_def split: sum.splits)

text \<open>Merging an override keeps the fields good when its retention passed the check.\<close>

lemma merged_retention_ok:
  assumes "config_fields_ok p" and "0 < threshold" and "retention_ok threshold' ret"
    and "validate_ratio_retention threshold (resolve_retention p ret) = Inr ()"
  shows "retention_ok threshold (resolve_retention p ret)"
  using assms
  by (cases "po_retain_tokens p"; cases "po_retain_ratio p"; cases ret)
    (auto simp: config_fields_ok_def resolve_retention_def retention_ok_def validate_ratio_retention_def split: if_split_asm)

lemma merged_policy_ok:
  assumes d: "compaction_policy_ok d" and p: "config_fields_ok p"
    and v: "validate_ratio_retention (or_inherited (po_threshold p) (rp_threshold d)) (resolve_retention p (rp_retention d)) = Inr ()"
  shows "compaction_policy_ok \<lparr> rp_threshold = or_inherited (po_threshold p) (rp_threshold d), rp_retention = resolve_retention p (rp_retention d),
      rp_target = or_inherited (po_target p) (rp_target d), rp_max_tokens = or_inherited (po_max_tokens p) (rp_max_tokens d),
      rp_retries = or_inherited (po_retries p) (rp_retries d), rp_overflow = or_inherited (po_overflow p) (rp_overflow d) \<rparr>"
proof -
  let ?t = "or_inherited (po_threshold p) (rp_threshold d)"
  have t: "0 < ?t" "?t \<le> 1" using d p by (cases "po_threshold p"; simp add: compaction_policy_ok_def config_fields_ok_def or_inherited_def)+
  have "retention_ok ?t (resolve_retention p (rp_retention d))"
    by (rule merged_retention_ok [OF p t(1) _ v, of "rp_threshold d"]) (use d in \<open>simp add: compaction_policy_ok_def\<close>)
  moreover have "fst (or_inherited (po_target p) (rp_target d)) = [] \<longleftrightarrow> snd (or_inherited (po_target p) (rp_target d)) = []"
    using d p by (cases "po_target p") (auto simp: compaction_policy_ok_def config_fields_ok_def or_inherited_def)
  moreover have "0 < or_inherited (po_max_tokens p) (rp_max_tokens d)" "0 \<le> or_inherited (po_retries p) (rp_retries d)"
    "0 \<le> or_inherited (po_overflow p) (rp_overflow d)"
    using d p by (cases "po_max_tokens p"; cases "po_retries p"; cases "po_overflow p";
        simp add: compaction_policy_ok_def config_fields_ok_def or_inherited_def)+
  ultimately show ?thesis using t by (simp add: compaction_policy_ok_def)
qed

definition built_in_policy :: resolved_policy where
  "built_in_policy = \<lparr> rp_threshold = default_threshold_ratio, rp_retention = RetainRatio default_retain_ratio,
     rp_target = ([], []), rp_max_tokens = 8192, rp_retries = 1, rp_overflow = 1 \<rparr>"

lemma built_in_policy_ok: "compaction_policy_ok built_in_policy"
  by code_simp

lemma at_top_Inr [simp]: "at_top r = Inr v \<longleftrightarrow> r = Inr v"
  by (simp add: at_top_def split: sum.split)

lemma resolved_config_ok:
  assumes "resolve_compaction_config raw = Inr cfg"
  shows "compaction_policy_ok (rc_defaults cfg)"
    and "\<And>p. p \<in> set (rc_models cfg) \<Longrightarrow> config_fields_ok (mp_policy p)"
    and "\<And>p. p \<in> set (rc_models cfg) \<Longrightarrow>
      validate_ratio_retention (or_inherited (po_threshold (mp_policy p)) (rp_threshold (rc_defaults cfg)))
        (resolve_retention (mp_policy p) (rp_retention (rc_defaults cfg))) = Inr ()"
proof -
  from assms obtain policy models auto_flag where v: "validate_policy raw = Inr policy"
    and top: "validate_ratio_retention (or_inherited (po_threshold policy) default_threshold_ratio)
        (resolve_retention policy (RetainRatio default_retain_ratio)) = Inr ()"
    and models: "resolve_model_policies (map_of raw ''modelPolicies'') = Inr models"
    and checks: "check_model_retentions (or_inherited (po_threshold policy) default_threshold_ratio)
        (resolve_retention policy (RetainRatio default_retain_ratio)) 0 models = Inr ()"
    and cfg: "cfg = \<lparr> rc_defaults =
               \<lparr> rp_threshold = or_inherited (po_threshold policy) default_threshold_ratio,
                 rp_retention = resolve_retention policy (RetainRatio default_retain_ratio),
                 rp_target = or_inherited (po_target policy) ([], []),
                 rp_max_tokens = or_inherited (po_max_tokens policy) 8192, rp_retries = or_inherited (po_retries policy) 1,
                 rp_overflow = or_inherited (po_overflow policy) 1 \<rparr>,
             rc_models = models, rc_auto = auto_flag \<rparr>"
    unfolding resolve_compaction_config_def Let_def bind_res_Inr_iff at_top_Inr by fastforce
  show "compaction_policy_ok (rc_defaults cfg)"
    using merged_policy_ok [OF built_in_policy_ok validate_policy_ok [OF v]] top by (simp add: built_in_policy_def cfg)
  have "list_all (\<lambda>p. config_fields_ok (mp_policy p)) models"
    using models resolve_policy_entries_ok by (auto simp: resolve_model_policies_def split: option.splits json.splits)
  then show "config_fields_ok (mp_policy p)" if "p \<in> set (rc_models cfg)" for p
    using that by (simp add: cfg list_all_iff)
  show "validate_ratio_retention (or_inherited (po_threshold (mp_policy p)) (rp_threshold (rc_defaults cfg)))
      (resolve_retention (mp_policy p) (rp_retention (rc_defaults cfg))) = Inr ()" if "p \<in> set (rc_models cfg)" for p
    using check_model_retentions_ok [OF checks, of p] that by (simp add: cfg)
qed

lemma target_policy_ok:
  assumes "resolve_compaction_config raw = Inr cfg"
  shows "compaction_policy_ok (resolve_target_policy cfg target)"
proof -
  note c = resolved_config_ok [OF assms]
  show ?thesis
  proof (cases "find (\<lambda>p. mp_provider p = fst target \<and> mp_model p = snd target) (rc_models cfg)")
    case None
    have "config_fields_ok no_override" by (simp add: config_fields_ok_def no_override_def)
    moreover have "resolve_target_policy cfg target = rc_defaults cfg"
      using None by (simp add: resolve_target_policy_def no_override_def or_inherited_def resolve_retention_def Let_def)
    ultimately show ?thesis using c(1) by simp
  next
    case (Some p)
    then have "p \<in> set (rc_models cfg)" by (auto simp: find_Some_iff)
    with merged_policy_ok [OF c(1) c(2) c(3)] Some show ?thesis by (simp add: resolve_target_policy_def Let_def)
  qed
qed

text \<open>
  C28: every policy an accepted configuration resolves to, for any provider and model, is well formed: a
  threshold in (0, 1], exactly one form of retention and a retained ratio below the threshold, a summary
  route that is a whole pair or none, and counters in range; overrides and defaults included.
\<close>

theorem resolved_policy_well_formed:
  assumes "resolve_compaction_config raw = Inr cfg"
  shows "compaction_policy_ok (resolve_target_policy cfg target)"
  by (rule target_policy_ok [OF assms])

definition sample_policies :: "(string \<times> json) list" where
  "sample_policies = [(''retainTokens'', JNum 1000), (''modelPolicies'', JArr [JObj [(''provider'', JStr ''p''),
     (''model'', JStr ''m''), (''thresholdRatio'', JNum (1 / 2)), (''retainRatio'', JNum (1 / 8))]])]"

definition sample_resolved :: resolved_config where
  "sample_resolved = \<lparr> rc_defaults = built_in_policy\<lparr> rp_retention := RetainTokens 1000 \<rparr>,
     rc_models = [\<lparr> mp_provider = ''p'', mp_model = ''m'', mp_policy = no_override\<lparr> po_threshold := Some (1 / 2),
        po_retain_ratio := Some (1 / 8) \<rparr> \<rparr>], rc_auto = True \<rparr>"

lemmas policy_resolution = resolve_compaction_config_def validate_config_keys_def basic_compact_config_keys_def
  policy_config_keys_def model_policy_keys_def validate_policy_def validate_summarization_pair_def assert_ratio_def
  assert_integer_def assert_string_def assert_non_empty_string_def resolve_retention_def validate_ratio_retention_def
  resolve_model_policies_def assert_model_policy_def at_top_def or_inherited_def

lemma sample_resolved: "resolve_compaction_config sample_policies = Inr sample_resolved"
  by (simp add: policy_resolution sample_policies_def sample_resolved_def built_in_policy_def no_override_def)

lemma sample_target: "resolve_target_policy sample_resolved (''p'', ''m'')
    = built_in_policy\<lparr> rp_threshold := 1 / 2, rp_retention := RetainRatio (1 / 8) \<rparr>"
  by (simp add: resolve_target_policy_def sample_resolved_def or_inherited_def resolve_retention_def no_override_def
      built_in_policy_def)

theorem resolved_policy_well_formed_witness:
  "compaction_policy_ok (resolve_target_policy sample_resolved (''p'', ''m''))
     \<and> rp_threshold (resolve_target_policy sample_resolved (''p'', ''m'')) = 1 / 2"
  using resolved_policy_well_formed [OF sample_resolved, of "(''p'', ''m'')"] by (simp add: sample_target)

text \<open>
  C29: for a context window in the exact range of doubles, the budgets of an accepted configuration satisfy
  0 <= retained < threshold <= window, with the products rounded as the machine does.
\<close>

theorem compact_spec_budgets:
  assumes "resolve_compaction_config raw = Inr cfg" and "window < 2 ^ 53"
    and "resolve_compact_spec (resolve_target_policy cfg target) window = Inr spec"
  shows "0 \<le> sp_retain spec \<and> sp_retain spec < sp_threshold spec \<and> of_int (sp_threshold spec) \<le> window"
proof -
  let ?p = "resolve_target_policy cfg target"
  note p = target_policy_ok [OF assms(1), of target]
  from assms(3) obtain w where w: "window = of_int w" "0 < w"
    and t: "sp_threshold spec = \<lfloor>double_round (window * rp_threshold ?p)\<rfloor>"
    and r: "sp_retain spec = (case rp_retention ?p of RetainTokens n \<Rightarrow> n | RetainRatio r \<Rightarrow> \<lfloor>double_round (window * r)\<rfloor>)"
    and less: "sp_retain spec < sp_threshold spec"
    by (auto simp: resolve_compact_spec_def Let_def not_le split: if_split_asm)
  have "window * rp_threshold ?p \<le> of_int w" using w p by (simp add: compaction_policy_ok_def mult_left_le)
  then have "double_round (window * rp_threshold ?p) \<le> of_int w"
    by (rule double_round_le) (use w assms(2) in simp_all)
  then have "of_int (sp_threshold spec) \<le> window" unfolding t w(1) by linarith
  moreover have "0 \<le> sp_retain spec"
    using p double_round_nonneg by (auto simp: r compaction_policy_ok_def retention_ok_def split: retention.splits)
  ultimately show ?thesis using less by simp
qed

theorem compact_spec_budgets_witness:
  "\<exists>spec. resolve_compact_spec (resolve_target_policy sample_resolved (''p'', ''m'')) 1000 = Inr spec
     \<and> sp_retain spec = 125 \<and> of_int (sp_threshold spec) \<le> (1000 :: rat)"
proof -
  let ?p = "built_in_policy\<lparr> rp_threshold := 1 / 2, rp_retention := RetainRatio (1 / 8) \<rparr>"
  have vals: "\<lfloor>double_round (1000 * (1 / 2))\<rfloor> = 500" "\<lfloor>double_round (1000 * (1 / 8))\<rfloor> = 125" by code_simp+
  have s: "resolve_compact_spec (resolve_target_policy sample_resolved (''p'', ''m'')) 1000
      = Inr \<lparr> sp_threshold = 500, sp_retain = 125, sp_policy = ?p \<rparr>"
    unfolding sample_target resolve_compact_spec_def Let_def using vals by simp
  from compact_spec_budgets [OF sample_resolved _ s] s show ?thesis by simp
qed

end
