(* ===== verification/Compaction_Auto.thy ===== *)
theory Compaction_Auto
  imports Compaction_Claims Compaction_Policy
begin

text \<open>
  The compaction backend, \<^verbatim>\<open>packages/compaction/compaction-basic/src/index.ts\<close>: automatic compaction under
  pressure or after a context overflow, cut at its awaits (the capacity of the routed model, the
  summarizer), the decision about the failed request, and a manual compaction. The transactions
  are those of the theory \<open>Compaction\<close>, the pass over long results that of \<open>Result_Pruner\<close>.
\<close>

section \<open>Definitions\<close>

datatype compaction_trigger = Pressure | ContextOverflow

datatype auto_error =
    MissingCapacity "string \<times> string"
  | BadSpec "string \<times> string" spec_error
  | AutoFailure compaction_failure
  | PruneFailed prune_error
  | InfoFailed string
  | StillAboveThreshold

text \<open>The transaction a call is waiting in: its start record, its identity and what was prepared.\<close>

type_synonym pending_compaction = "session_event \<times> compaction_lifecycle \<times> prepared_compaction"

datatype auto_point =
    AtModelInfo "string \<times> string" resolved_policy token_measurement
  | AtSummary compact_spec nat pending_compaction
  | AtOverflowSummary pending_compaction
  | Finished "auto_error + compaction_result option"

record auto_env =
  au_env :: compaction_env
  au_config :: resolved_config
  au_pruner :: "prune_config option"
  au_uuid :: "nat \<Rightarrow> string"

definition auto_options :: transaction_options where
  "auto_options = \<lparr> to_current_turn = True, to_whole_surface = True, to_command = None, to_flush = False \<rparr>"

definition routed_target :: "compactor \<Rightarrow> compactor \<times> (string \<times> string) option" where
  "routed_target st = (case request_header (cp_session st) of (s, h) \<Rightarrow>
     (set_session s st, case h of
        None \<Rightarrow> None
      | Some e \<Rightarrow> if cfg_provider (eh_config e) = [] \<or> cfg_model (eh_config e) = [] then None
                  else Some (cfg_provider (eh_config e), cfg_model (eh_config e))))"

definition prune_and_measure ::
  "auto_env \<Rightarrow> token_measurement \<Rightarrow> compactor \<Rightarrow> compactor \<times> (auto_error + token_measurement)" where
  "prune_and_measure env m st = (case au_pruner env of
       None \<Rightarrow> (st, Inr m)
     | Some cfg \<Rightarrow>
         let e = au_env env in
         (case prune_session (ce_lengths e) (ce_veto e) (ce_clock e) cfg (cp_session st) of
            (s, Inl x) \<Rightarrow> (set_session s st, Inl (PruneFailed x))
          | (s, Inr _) \<Rightarrow> (case cp_measure (ce_lengths e) (set_session s st) of
              (st', Inl x) \<Rightarrow> (st', Inl (AutoFailure (Raised x)))
            | (st', Inr m') \<Rightarrow> (st', Inr m'))))"

text \<open>\<open>compactRegion\<close> up to its await: the wait for the summarizer, or the failure already settled.\<close>

definition begin_region ::
  "auto_env \<Rightarrow> nat \<times> nat \<Rightarrow> (pending_compaction \<Rightarrow> auto_point) \<Rightarrow> compactor \<Rightarrow> compactor \<times> auto_point" where
  "begin_region env extent wait st =
     (case compaction_begin (au_env env) auto_options False (au_uuid env (length (cp_log st))) (fst extent) (snd extent) st of
        (st', Inl x) \<Rightarrow> (st', Finished (Inl (AutoFailure x)))
      | (st', Inr (Inl oc)) \<Rightarrow>
          (st', Finished (case settle_compaction auto_options False False oc of
             Inl x \<Rightarrow> Inl (AutoFailure x) | Inr r \<Rightarrow> Inr (Some r)))
      | (st', Inr (Inr p)) \<Rightarrow> (st', wait p))"

definition end_region ::
  "auto_env \<Rightarrow> pending_compaction \<Rightarrow> string + summary_result \<Rightarrow> compactor
     \<Rightarrow> compactor \<times> (compaction_failure + compaction_result)" where
  "end_region env p answer st = (case p of (e, life, prep) \<Rightarrow>
     (case compaction_resume (au_env env) auto_options False (au_uuid env (length (cp_log st))) e life prep answer st of
        (st', oc) \<Rightarrow> (st', settle_compaction auto_options False False oc)))"

text \<open>One turn of the retry loop, from its head to its await.\<close>

definition pressure_attempt ::
  "auto_env \<Rightarrow> compact_spec \<Rightarrow> nat \<Rightarrow> compaction_result option \<Rightarrow> token_measurement \<Rightarrow> compactor
     \<Rightarrow> compactor \<times> auto_point" where
  "pressure_attempt env spec attempt result m st =
     (if int attempt > rp_retries (sp_policy spec) then (st, Finished (Inl StillAboveThreshold))
      else case select_compactable_range st m (nat (sp_retain spec)) of
          (st1, Inl x) \<Rightarrow> (st1, Finished (Inl (AutoFailure (Raised x))))
        | (st1, Inr None) \<Rightarrow>
            (st1, Finished (if result = None then Inr None else Inl StillAboveThreshold))
        | (st1, Inr (Some extent)) \<Rightarrow> begin_region env extent (AtSummary spec attempt) st1)"

definition compact_if_needed :: "auto_env \<Rightarrow> compaction_trigger \<Rightarrow> compactor \<Rightarrow> compactor \<times> auto_point" where
  "compact_if_needed env trigger st = (case routed_target st of
       (st1, None) \<Rightarrow> (st1, Finished (Inr None))
     | (st1, Some target) \<Rightarrow>
         let policy = resolve_target_policy (au_config env) target in
         (case cp_measure (ce_lengths (au_env env)) st1 of
            (st2, Inl x) \<Rightarrow> (st2, Finished (Inl (AutoFailure (Raised x))))
          | (st2, Inr m) \<Rightarrow>
              (case trigger of
                 Pressure \<Rightarrow> (st2, AtModelInfo target policy m)
               | ContextOverflow \<Rightarrow>
                   (case prune_and_measure env m st2 of
                      (st3, Inl x) \<Rightarrow> (st3, Finished (Inl x))
                    | (st3, Inr m') \<Rightarrow>
                        (case select_compactable_range st3 m' 0 of
                           (st4, Inl x) \<Rightarrow> (st4, Finished (Inl (AutoFailure (Raised x))))
                         | (st4, Inr None) \<Rightarrow> (st4, Finished (Inr None))
                         | (st4, Inr (Some extent)) \<Rightarrow> begin_region env extent AtOverflowSummary st4)))))"

text \<open>The answers: the capacity of the routed model, if the adapter states one, and the summarizer's.\<close>

datatype auto_answer = ModelInfo "string + rat option" | Summarized "string + summary_result"

definition after_model_info ::
  "auto_env \<Rightarrow> string + rat option \<Rightarrow> string \<times> string \<Rightarrow> resolved_policy \<Rightarrow> token_measurement \<Rightarrow> compactor
     \<Rightarrow> compactor \<times> auto_point" where
  "after_model_info env answer target policy m st = (case answer of
       Inl x \<Rightarrow> (st, Finished (Inl (InfoFailed x)))
     | Inr capacity \<Rightarrow>
         (case assert_no_active_compaction (cp_session st) of
            Inl x \<Rightarrow> (st, Finished (Inl (AutoFailure x)))
          | Inr _ \<Rightarrow>
              (case capacity of
                 None \<Rightarrow> (st, Finished (Inl (MissingCapacity target)))
               | Some window \<Rightarrow>
                   (case resolve_compact_spec policy window of
                      Inl x \<Rightarrow> (st, Finished (Inl (BadSpec target x)))
                    | Inr spec \<Rightarrow>
                        if me_total m < sp_threshold spec then (st, Finished (Inr None))
                        else (case prune_and_measure env m st of
                            (st1, Inl x) \<Rightarrow> (st1, Finished (Inl x))
                          | (st1, Inr m1) \<Rightarrow>
                              if me_total m1 < sp_threshold spec then (st1, Finished (Inr None))
                              else pressure_attempt env spec 0 None m1 st1)))))"

definition after_summary ::
  "auto_env \<Rightarrow> string + summary_result \<Rightarrow> compact_spec \<Rightarrow> nat \<Rightarrow> pending_compaction \<Rightarrow> compactor
     \<Rightarrow> compactor \<times> auto_point" where
  "after_summary env answer spec attempt p st = (case end_region env p answer st of
       (st1, Inl x) \<Rightarrow> (st1, Finished (Inl (AutoFailure x)))
     | (st1, Inr r) \<Rightarrow> (case cp_measure (ce_lengths (au_env env)) st1 of
         (st2, Inl x) \<Rightarrow> (st2, Finished (Inl (AutoFailure (Raised x))))
       | (st2, Inr m) \<Rightarrow>
           if me_total m < sp_threshold spec then (st2, Finished (Inr (Some r)))
           else pressure_attempt env spec (attempt + 1) (Some r) m st2))"

fun auto_resume :: "auto_env \<Rightarrow> auto_answer \<Rightarrow> auto_point \<Rightarrow> compactor \<Rightarrow> compactor \<times> auto_point" where
  "auto_resume env (ModelInfo v) (AtModelInfo target policy m) st = after_model_info env v target policy m st"
| "auto_resume env (Summarized v) (AtSummary spec attempt p) st = after_summary env v spec attempt p st"
| "auto_resume env (Summarized v) (AtOverflowSummary p) st = (case end_region env p v st of
       (st1, Inl x) \<Rightarrow> (st1, Finished (Inl (AutoFailure x)))
     | (st1, Inr r) \<Rightarrow> (st1, Finished (Inr (Some r))))"
| "auto_resume env v pc st = (st, pc)"

section \<open>The failed request\<close>

text \<open>
  \<^verbatim>\<open>agent/request-error\<close>: whether recovery starts, and what is answered once the call has finished. The
  handler answers \<open>True\<close> for a retry and passes the error on otherwise.
\<close>

definition context_window_exceeded :: string where
  "context_window_exceeded = ''CONTEXT_WINDOW_EXCEEDED''"

definition overflow_admits ::
  "auto_env \<Rightarrow> string \<Rightarrow> bool \<Rightarrow> nat \<Rightarrow> compactor \<Rightarrow> compactor \<times> bool" where
  "overflow_admits env code aborted retries st =
     (if code \<noteq> context_window_exceeded \<or> aborted then (st, False)
      else case routed_target st of
          (st1, None) \<Rightarrow> (st1, False)
        | (st1, Some target) \<Rightarrow>
            (st1, int retries < rp_overflow (resolve_target_policy (au_config env) target)))"

definition overflow_decides ::
  "nat \<Rightarrow> bool \<Rightarrow> nat \<Rightarrow> nat \<Rightarrow> auto_error + compaction_result option \<Rightarrow> nat \<times> bool" where
  "overflow_decides generation aborted generation_now retries outcome =
     (case outcome of
        Inl _ \<Rightarrow> if \<not> aborted \<and> generation_now > generation then (retries + 1, True) else (retries, False)
      | Inr _ \<Rightarrow> if aborted \<or> generation_now \<le> generation then (retries, False) else (retries + 1, True))"

text \<open>The count of an agent starts over when it goes idle and with every assistant message of its session.\<close>

datatype overflow_notice = WentIdle | AssistantAnswered | RetryCounted nat

fun overflow_count :: "nat \<Rightarrow> overflow_notice \<Rightarrow> nat" where
  "overflow_count n WentIdle = 0"
| "overflow_count n AssistantAnswered = 0"
| "overflow_count n (RetryCounted k) = k"

text \<open>A target whose pressure configuration is broken is reported once; any other failure every time.\<close>

definition target_key :: "string \<times> string \<Rightarrow> string" where
  "target_key target = fst target @ ''/'' @ snd target"

definition pressure_warning :: "string set \<Rightarrow> auto_error \<Rightarrow> string set \<times> bool" where
  "pressure_warning warned x =
     (let once = (\<lambda>target. if target_key target \<in> warned then (warned, False)
                           else (insert (target_key target) warned, True)) in
      case x of
        MissingCapacity target \<Rightarrow> once target
      | BadSpec target _ \<Rightarrow> once target
      | _ \<Rightarrow> (warned, True))"

section \<open>Manual compaction\<close>

definition manual_options :: "string option \<Rightarrow> transaction_options" where
  "manual_options command = \<lparr> to_current_turn = False, to_whole_surface = False, to_command = command, to_flush = True \<rparr>"

datatype manual_point =
    AtManualSummary pending_compaction
  | ManualDone "compaction_failure + compaction_result option"

text \<open>
  How a failure of the maintenance operation leaves \<^verbatim>\<open>compactNow\<close>: cancelled when the agent's own signal is
  the one that aborted the operation, the abort when either did, else the failure itself.
\<close>

definition manual_failure :: "bool \<Rightarrow> bool \<Rightarrow> compaction_failure \<Rightarrow> compaction_failure" where
  "manual_failure agent_aborted_first aborted x =
     (if agent_aborted_first then Manual Cancelled
      else if aborted then Raised AbortedCompaction else x)"

text \<open>
  Up to the summarizer. \<open>admitted\<close>: the agent is idle and takes the maintenance operation. The signal of
  the operation is read twice: \<open>aborted\<close> before the commit, and together with \<open>late\<close>, an abort that lands
  during the awaited flush, when the operation ends.
\<close>

definition compact_now ::
  "auto_env \<Rightarrow> string option \<Rightarrow> bool \<Rightarrow> bool \<Rightarrow> bool \<Rightarrow> bool \<Rightarrow> bool \<Rightarrow> compactor \<Rightarrow> compactor \<times> manual_point" where
  "compact_now env command signal_aborted admitted agent_aborted_first aborted late st =
     (if signal_aborted then (st, ManualDone (Inl (Raised AbortedCompaction)))
      else if \<not> admitted then (st, ManualDone (Inl (Manual Busy)))
      else let failed = (\<lambda>x. ManualDone (Inl (manual_failure agent_aborted_first aborted x))) in
        if aborted then (st, failed (Raised AbortedCompaction))
        else (case cp_measure (ce_lengths (au_env env)) st of
            (st1, Inl x) \<Rightarrow> (st1, failed (Raised x))
          | (st1, Inr m) \<Rightarrow>
              (case select_compactable_range st1 m 0 of
                 (st2, Inl x) \<Rightarrow> (st2, failed (Raised x))
               | (st2, Inr None) \<Rightarrow> (st2, ManualDone (Inr None))
               | (st2, Inr (Some extent)) \<Rightarrow>
                   (case compaction_begin (au_env env) (manual_options command) aborted
                           (au_uuid env (length (cp_log st2))) (fst extent) (snd extent) st2 of
                      (st3, Inl x) \<Rightarrow> (st3, failed x)
                    | (st3, Inr (Inl oc)) \<Rightarrow>
                        (st3, case settle_compaction (manual_options command) (aborted \<or> late) False oc of
                           Inl x \<Rightarrow> ManualDone (Inl (manual_failure agent_aborted_first (aborted \<or> late) x))
                         | Inr r \<Rightarrow> ManualDone (Inr (Some r)))
                    | (st3, Inr (Inr p)) \<Rightarrow> (st3, AtManualSummary p)))))"

definition manual_resume ::
  "auto_env \<Rightarrow> string option \<Rightarrow> bool \<Rightarrow> bool \<Rightarrow> bool \<Rightarrow> bool \<Rightarrow> pending_compaction \<Rightarrow> string + summary_result \<Rightarrow> compactor
     \<Rightarrow> compactor \<times> (compaction_failure + compaction_result option)" where
  "manual_resume env command agent_aborted_first aborted late flush_failed p answer st = (case p of (e, life, prep) \<Rightarrow>
     (case compaction_resume (au_env env) (manual_options command) aborted (au_uuid env (length (cp_log st)))
             e life prep answer st of
        (st', oc) \<Rightarrow> (st', case settle_compaction (manual_options command) (aborted \<or> late) flush_failed oc of
           Inl x \<Rightarrow> Inl (manual_failure agent_aborted_first (aborted \<or> late) x) | Inr r \<Rightarrow> Inr (Some r))))"

text \<open>The human command, \<^verbatim>\<open>packages/compaction/command-compact/src/index.ts\<close>; a failure it does not expect is thrown on.\<close>

datatype command_result = CommandError string | CommandSuccess string "nat option"

definition compact_usage :: string where
  "compact_usage = ''Usage: /compact (no arguments)''"

fun expected_failure :: "manual_code \<Rightarrow> command_result" where
  "expected_failure Busy = CommandError ''Compaction is unavailable because this process has an active compaction, or the agent is not idle.''"
| "expected_failure Cancelled = CommandError ''Compaction cancelled.''"
| "expected_failure Changed = CommandError ''The history selected for compaction changed before it could be replaced. The conversation is unchanged; the attempt is recorded in the session log.''"
| "expected_failure Summary = CommandError ''Compaction could not produce a useful summary. The conversation is unchanged; the attempt is recorded in the session log.''"
| "expected_failure Commit = CommandError ''Compaction did not finish cleanly; some session history may have changed. Inspect the current session state before retrying.''"
| "expected_failure Persistence = CommandError ''Compaction finished, but the session could not be saved.''"

definition execute_compact ::
  "string \<Rightarrow> bool \<Rightarrow> compaction_failure + compaction_result option \<Rightarrow> compaction_failure + command_result" where
  "execute_compact raw aborted outcome =
     (if list_ex (\<lambda>c. \<not> js_space c) raw then Inr (CommandError compact_usage)
      else case outcome of
          Inr None \<Rightarrow> Inr (CommandSuccess ''No compactable history yet.'' None)
        | Inr (Some r) \<Rightarrow> Inr (CommandSuccess
            (''Compacted '' @ show_nat (length (cr_shadowed r)) @ '' history items (~'' @ show_int (cr_tokens r) @ '' tokens).'')
            (Some (cr_summary_seq r)))
        | Inl x \<Rightarrow>
            if aborted then Inr (CommandError ''Compaction cancelled.'')
            else (case x of Manual code \<Rightarrow> Inr (expected_failure code) | Raised _ \<Rightarrow> Inl x))"

end
