(* ===== verification/Compaction_Auto_Run.thy ===== *)
theory Compaction_Auto_Run
  imports Compaction_Auto
begin

text \<open>
  What the compaction backend guarantees over one call, whatever happens to the session at its awaits:
  the number of summaries it asks for, what its answer says about the pressure, and that an
  overflow it recovers from is retried.
\<close>

section \<open>Every step only extends the log\<close>

definition grows :: "compaction_env \<Rightarrow> compactor \<Rightarrow> compactor \<Rightarrow> bool" where
  "grows env st st' \<longleftrightarrow> compactor_run env st' \<and> prefix (cp_log st) (cp_log st')"

lemma grows_trans: "grows env st st1 \<Longrightarrow> grows env st1 st2 \<Longrightarrow> grows env st st2"
  by (auto simp: grows_def intro: prefix_order.trans)

lemma grows_run: "grows env st st' \<Longrightarrow> compactor_run env st'"
  by (simp add: grows_def)

lemma surface_grows:
  assumes "compactor_run env st" and "cp_surface st = (st', r)"
  shows "grows env st st'"
proof -
  note ok = compactor_run_ok [OF assms(1)]
  obtain fs reps where f: "folded (cp_log st) fs reps" by (rule compactor_ok_folded [OF ok])
  obtain st1 where "cp_surface st = (st1, Inr (fs_nodes fs))" "reads (ce_lengths env) st st1" by (rule cp_surface_ok [OF ok f])
  with assms compactor_run.surveyed [OF assms(1)] show ?thesis by (auto simp: grows_def reads_def)
qed

lemma balanced_grows:
  assumes "compactor_run env st" and "cp_balanced offset st seq = (st', r)" and "offset \<le> 1"
  shows "grows env st st'"
proof -
  note ok = compactor_run_ok [OF assms(1)]
  obtain fs reps where f: "folded (cp_log st) fs reps" by (rule compactor_ok_folded [OF ok])
  obtain st1 where "cp_balanced offset st seq = (st1, spec_result (balance_spec (cp_log st) (fs_nodes fs) offset seq))"
    "reads (ce_lengths env) st st1" by (rule cp_balanced_ok [OF ok f assms(3)])
  with assms compactor_run.paired [OF assms(1,3), of seq] show ?thesis by (auto simp: grows_def reads_def)
qed

lemma cut_grows: "compactor_run env st \<Longrightarrow> balanced_cut ns i st = (st', r) \<Longrightarrow> grows env st st'"
proof (induction i arbitrary: st)
  case 0
  then show ?case by (simp add: grows_def)
next
  case (Suc i)
  obtain st1 q where b: "cp_balanced 0 st (ns ! Suc i) = (st1, q)" by (cases "cp_balanced 0 st (ns ! Suc i)") auto
  note g = balanced_grows [OF Suc.prems(1) b]
  show ?case
  proof (cases q)
    case (Inr v)
    show ?thesis
    proof (cases v)
      case False
      with Suc.prems(2) b Inr have "balanced_cut ns i st1 = (st', r)" by simp
      from grows_trans [OF g Suc.IH [OF grows_run [OF g] this]] show ?thesis by simp
    qed (use Suc.prems(2) b Inr g in simp)
  qed (use Suc.prems(2) b g in simp)
qed

lemma select_grows:
  assumes "compactor_run env st" and "select_compactable_range st m retain = (st', r)"
  shows "grows env st st'"
proof (cases "length (me_nodes m) = 0")
  case True
  with assms show ?thesis by (simp add: select_compactable_range_def grows_def)
next
  case False
  obtain st1 q where s: "cp_surface st = (st1, q)" by (cases "cp_surface st") auto
  note g = surface_grows [OF assms(1) s]
  let ?k = "keep_from (me_nodes m) retain 0 (length (me_nodes m))"
  show ?thesis
  proof (cases "\<exists>ns. q = Inr ns \<and> ns = map tn_seq (me_nodes m) \<and> ?k \<noteq> 0")
    case True
    then obtain ns where ns: "q = Inr ns" "ns = map tn_seq (me_nodes m)" "?k \<noteq> 0" by blast
    obtain st2 c where c: "balanced_cut ns ?k st1 = (st2, c)" by (cases "balanced_cut ns ?k st1") auto
    have "st' = st2"
      using assms(2) False s ns c by (auto simp: select_compactable_range_def Let_def split: sum.splits if_splits)
    with grows_trans [OF g cut_grows [OF grows_run [OF g] c]] show ?thesis by simp
  next
    case no: False
    have "st' = st1"
      using assms(2) False s no by (cases q) (auto simp: select_compactable_range_def Let_def split: if_splits)
    with g show ?thesis by simp
  qed
qed

lemma measure_grows:
  assumes "compactor_run env st" and "cp_measure (ce_lengths env) st = (st', r)"
  shows "grows env st st'"
proof -
  note ok = compactor_run_ok [OF assms(1)]
  obtain fs reps where f: "folded (cp_log st) fs reps" by (rule compactor_ok_folded [OF ok])
  from cp_measure_ok [OF ok assms(2) f] compactor_run.measured [OF assms(1)] assms(2)
  show ?thesis by (simp add: grows_def reads_def)
qed

lemma target_grows:
  assumes "compactor_run env st" and "routed_target st = (st', r)"
  shows "grows env st st'"
  using header_kept [OF compactor_run_ok [OF assms(1)]] compactor_run.header_read [OF assms(1)] assms(2)
  by (auto simp: routed_target_def grows_def split: prod.splits)

lemma prune_grows:
  assumes run: "compactor_run (au_env env) st" and "prune_and_measure env m st = (st', r)"
  shows "grows (au_env env) st st'"
proof (cases "au_pruner env")
  case None
  with assms show ?thesis by (simp add: prune_and_measure_def grows_def)
next
  case (Some cfg)
  let ?e = "au_env env"
  let ?p = "prune_session (ce_lengths ?e) (ce_veto ?e) (ce_clock ?e) cfg (cp_session st)"
  obtain s q where p: "?p = (s, q)" by (cases ?p) auto
  have "session_ok (cp_session st)" using compactor_run_ok [OF run] by (simp add: compactor_ok_def)
  from prune_session_keeps [OF this p] compactor_run.pruned [OF run, of cfg] p
  have g: "grows ?e st (set_session s st)" by (simp add: grows_def)
  show ?thesis
  proof (cases q)
    case (Inl x)
    with assms(2) Some p g show ?thesis by (simp add: prune_and_measure_def)
  next
    case (Inr v)
    obtain st1 y where m: "cp_measure (ce_lengths ?e) (set_session s st) = (st1, y)"
      by (cases "cp_measure (ce_lengths ?e) (set_session s st)") auto
    have "st' = st1" using assms(2) Some p Inr m by (cases y) (simp_all add: prune_and_measure_def)
    with grows_trans [OF g measure_grows [OF grows_run [OF g] m]] show ?thesis by simp
  qed
qed

lemma begin_grows:
  assumes "compactor_run env st" and "compaction_begin env opts aborted uuid a b st = (st', r)"
  shows "grows env st st'"
  using compaction_begin_keeps [OF compactor_run_ok [OF assms(1)], of opts aborted uuid a b]
    compactor_run.begun [OF assms(1), of opts aborted uuid a b] assms(2) by (simp add: grows_def)

lemma resume_grows:
  assumes "compactor_run env st" and "compaction_resume env opts aborted uuid e life prep answer st = (st', r)"
  shows "grows env st st'"
  using compaction_resume_ok [OF compactor_run_ok [OF assms(1)] assms(2)]
    compactor_run.resumed [OF assms(1), of opts aborted uuid e life prep answer] assms(2) by (auto simp: grows_def)

section \<open>One call and its awaits\<close>

text \<open>Whether the call waits for the summarizer.\<close>

definition awaits_summary :: "auto_point \<Rightarrow> bool" where
  "awaits_summary pc = (case pc of AtSummary _ _ _ \<Rightarrow> True | AtOverflowSummary _ \<Rightarrow> True | _ \<Rightarrow> False)"

text \<open>
  A call, the capacity of the routed model it has been told and the number of summaries it has been
  answered: at each await the session may become any reachable extension of what it was.
\<close>

definition told_capacity :: "string + rat option \<Rightarrow> rat option" where
  "told_capacity v = (case v of Inl _ \<Rightarrow> None | Inr c \<Rightarrow> c)"

inductive auto_run ::
  "auto_env \<Rightarrow> compaction_trigger \<Rightarrow> compactor \<Rightarrow> rat option \<Rightarrow> nat \<Rightarrow> auto_point \<Rightarrow> compactor \<Rightarrow> bool"
  for env trigger st0 where
  called: "compact_if_needed env trigger st0 = (st, pc) \<Longrightarrow> auto_run env trigger st0 None 0 pc st"
| informed: "auto_run env trigger st0 cap n (AtModelInfo target policy m) st \<Longrightarrow> grows (au_env env) st st1
    \<Longrightarrow> auto_resume env (ModelInfo v) (AtModelInfo target policy m) st1 = (st', pc')
    \<Longrightarrow> auto_run env trigger st0 (told_capacity v) n pc' st'"
| summarized: "auto_run env trigger st0 cap n pc st \<Longrightarrow> awaits_summary pc \<Longrightarrow> grows (au_env env) st st1
    \<Longrightarrow> auto_resume env (Summarized v) pc st1 = (st', pc') \<Longrightarrow> auto_run env trigger st0 cap (n + 1) pc' st'"

text \<open>The budgets in use are those the policy of the routed model gives for the capacity that was told.\<close>

definition spec_of :: "auto_env \<Rightarrow> compactor \<Rightarrow> rat option \<Rightarrow> compact_spec \<Rightarrow> bool" where
  "spec_of env st0 cap spec \<longleftrightarrow> (\<exists>target window. snd (routed_target st0) = Some target \<and> cap = Some window
     \<and> resolve_compact_spec (resolve_target_policy (au_config env) target) window = Inr spec)"

lemma spec_of_policy:
  assumes "spec_of env st0 cap spec"
  obtains target where "snd (routed_target st0) = Some target"
    and "sp_policy spec = resolve_target_policy (au_config env) target"
  using assms by (auto simp: spec_of_def resolve_compact_spec_def Let_def split: if_split_asm)

definition began :: "auto_env \<Rightarrow> compactor \<Rightarrow> compactor \<Rightarrow> pending_compaction \<Rightarrow> bool" where
  "began env st0 st p \<longleftrightarrow> (\<exists>stb uuid a b. grows (au_env env) st0 stb
     \<and> compaction_begin (au_env env) auto_options False uuid a b stb = (st, Inr (Inr p)))"

text \<open>A finished call: how many summaries it took, and what a reported result says of the pressure.\<close>

definition finished_ok ::
  "auto_env \<Rightarrow> compaction_trigger \<Rightarrow> compactor \<Rightarrow> rat option \<Rightarrow> nat
     \<Rightarrow> auto_error + compaction_result option \<Rightarrow> compactor \<Rightarrow> bool" where
  "finished_ok env trigger st0 cap n out st \<longleftrightarrow>
     (case snd (routed_target st0) of
        None \<Rightarrow> n = 0 \<and> out = Inr None
      | Some target \<Rightarrow> int n \<le> 1 + rp_retries (resolve_target_policy (au_config env) target))
     \<and> (\<forall>r. out = Inr (Some r) \<longrightarrow> 1 \<le> n \<and> (trigger = Pressure \<longrightarrow> (\<exists>spec m. spec_of env st0 cap spec
           \<and> snd (cp_measure (ce_lengths (au_env env)) st) = Inr m \<and> me_total m < sp_threshold spec)))"

definition auto_inv ::
  "auto_env \<Rightarrow> compaction_trigger \<Rightarrow> compactor \<Rightarrow> rat option \<Rightarrow> nat \<Rightarrow> auto_point \<Rightarrow> compactor \<Rightarrow> bool" where
  "auto_inv env trigger st0 cap n pc st \<longleftrightarrow> grows (au_env env) st0 st \<and> (case pc of
       AtModelInfo target policy m \<Rightarrow> n = 0 \<and> trigger = Pressure \<and> snd (routed_target st0) = Some target
         \<and> policy = resolve_target_policy (au_config env) target
     | AtSummary spec k p \<Rightarrow> n = k \<and> trigger = Pressure \<and> spec_of env st0 cap spec \<and> int k \<le> rp_retries (sp_policy spec)
         \<and> began env st0 st p
     | AtOverflowSummary p \<Rightarrow> n = 0 \<and> trigger = ContextOverflow \<and> snd (routed_target st0) \<noteq> None \<and> began env st0 st p
     | Finished out \<Rightarrow> finished_ok env trigger st0 cap n out st)"

lemma close_failed_settles: "close_failed env life failure st = (st', oc) \<Longrightarrow> settle_compaction auto_options False False oc
    = Inl (Raised (fst (projl (oc_result oc))))"
  by (auto simp: close_failed_def settle_compaction_def auto_options_def split: prod.splits sum.splits)

lemma begin_region_cases:
  assumes run: "compactor_run (au_env env) st" and b: "begin_region env extent wait st = (st', pc)"
  shows "grows (au_env env) st st' \<and> ((\<exists>x. pc = Finished (Inl x)) \<or> (\<exists>p. pc = wait p
    \<and> compaction_begin (au_env env) auto_options False (au_uuid env (length (cp_log st))) (fst extent) (snd extent) st
        = (st', Inr (Inr p))))"
proof -
  let ?b = "compaction_begin (au_env env) auto_options False (au_uuid env (length (cp_log st))) (fst extent) (snd extent) st"
  obtain st1 q where q: "?b = (st1, q)" by (cases ?b) auto
  note g = begin_grows [OF run q]
  have st': "st' = st1" using b q by (cases q rule: sum.exhaust) (auto simp: begin_region_def split: sum.splits)
  consider x where "q = Inl x" | oc where "q = Inr (Inl oc)" | p where "q = Inr (Inr p)" by (metis sum.exhaust)
  then show ?thesis
  proof cases
    case (2 oc)
    then obtain life failure st2 where "close_failed (au_env env) life failure st2 = (st1, oc)"
      using q by (auto simp: compaction_begin_def split: prod.splits sum.splits)
    from close_failed_settles [OF this] b q 2
    have "pc = Finished (Inl (AutoFailure (Raised (fst (projl (oc_result oc))))))" by (simp add: begin_region_def)
    with g st' show ?thesis by blast
  qed (use b q g st' in \<open>auto simp: begin_region_def\<close>)
qed

lemma finished_failed:
  assumes "snd (routed_target st0) = Some target" and "int n \<le> 1 + rp_retries (resolve_target_policy (au_config env) target)"
  shows "finished_ok env trigger st0 cap n (Inl x) st" and "finished_ok env trigger st0 cap n (Inr None) st"
  using assms by (simp_all add: finished_ok_def)

lemma pressure_attempt_inv:
  assumes g: "grows (au_env env) st0 st" and spec: "spec_of env st0 cap spec"
    and n: "int attempt \<le> 1 + rp_retries (sp_policy spec)" and a: "pressure_attempt env spec attempt result m st = (st', pc)"
  shows "auto_inv env Pressure st0 cap attempt pc st'"
proof -
  obtain target where t: "snd (routed_target st0) = Some target" "sp_policy spec = resolve_target_policy (au_config env) target"
    by (rule spec_of_policy [OF spec])
  note fin = finished_failed [OF t(1), of attempt env, folded t(2), OF n]
  show ?thesis
  proof (cases "int attempt > rp_retries (sp_policy spec)")
    case True
    with a g fin show ?thesis by (auto simp: pressure_attempt_def auto_inv_def)
  next
    case False
    obtain st1 q where s: "select_compactable_range st m (nat (sp_retain spec)) = (st1, q)"
      by (cases "select_compactable_range st m (nat (sp_retain spec))") auto
    note g1 = select_grows [OF grows_run [OF g] s]
    note g01 = grows_trans [OF g g1]
    consider x where "q = Inl x" | "q = Inr None" | extent where "q = Inr (Some extent)" by (metis option.exhaust sum.exhaust)
    then show ?thesis
    proof cases
      case (3 extent)
      with a False s have "begin_region env extent (AtSummary spec attempt) st1 = (st', pc)" by (simp add: pressure_attempt_def)
      note b = begin_region_cases [OF grows_run [OF g1] this]
      then have g': "grows (au_env env) st0 st'" using grows_trans [OF g01] by blast
      from b consider x where "pc = Finished (Inl x)" | p where "pc = AtSummary spec attempt p" "began env st0 st' p"
        using g01 unfolding began_def by blast
      then show ?thesis using g' fin spec False by cases (auto simp: auto_inv_def)
    qed (use a False s g01 fin in \<open>auto simp: pressure_attempt_def auto_inv_def\<close>)
  qed
qed

lemma end_region_grows:
  assumes "compactor_run (au_env env) st" and "end_region env p answer st = (st', r)"
  shows "grows (au_env env) st st'"
proof -
  obtain e life prep where p: "p = (e, life, prep)" by (cases p) auto
  let ?r = "compaction_resume (au_env env) auto_options False (au_uuid env (length (cp_log st))) e life prep answer st"
  obtain st1 oc where "?r = (st1, oc)" by (cases ?r) auto
  with resume_grows [OF assms(1) this] assms(2) p show ?thesis by (simp add: end_region_def)
qed

text \<open>Measuring twice gives the same.\<close>

lemma measured_again:
  assumes ok: "compactor_ok j st" and m: "cp_measure j st = (st', Inr m)"
  shows "snd (cp_measure j st') = Inr m"
proof -
  obtain mt q where sy: "meter_sync j (cp_log st) (cp_meter st) (drop (mt_consumed (cp_meter st)) (cp_log st)) = (mt, q)"
    by (cases "meter_sync j (cp_log st) (cp_meter st) (drop (mt_consumed (cp_meter st)) (cp_log st))") auto
  have q: "q = None" and st': "st' = st\<lparr> cp_meter := mt \<rparr>" and m': "m = measurement_of j None mt"
    using m sy by (auto simp: cp_measure_def meter_measure_def split: option.splits)
  have "mt_consumed mt = length (cp_log st)"
    using meter_inv_read [OF _ sy] ok q by (simp add: compactor_ok_def)
  then show ?thesis by (simp add: cp_measure_def meter_measure_def st' m')
qed

lemma compact_if_needed_inv:
  assumes run: "compactor_run (au_env env) st0" and cfg: "\<And>t. compaction_policy_ok (resolve_target_policy (au_config env) t)"
    and c: "compact_if_needed env trigger st0 = (st', pc)"
  shows "auto_inv env trigger st0 None 0 pc st'"
proof -
  obtain st1 t where t: "routed_target st0 = (st1, t)" by (cases "routed_target st0") auto
  note g1 = target_grows [OF run t]
  show ?thesis
  proof (cases t)
    case None
    with c t g1 show ?thesis by (auto simp: compact_if_needed_def auto_inv_def finished_ok_def)
  next
    case (Some target)
    have r0: "0 \<le> rp_retries (resolve_target_policy (au_config env) target)" using cfg by (simp add: compaction_policy_ok_def)
    have n0: "int 0 \<le> 1 + rp_retries (resolve_target_policy (au_config env) target)" using r0 by simp
    have snd: "snd (routed_target st0) = Some target" using t Some by simp
    note fin = finished_failed [OF snd n0]
    obtain st2 q where m: "cp_measure (ce_lengths (au_env env)) st1 = (st2, q)"
      by (cases "cp_measure (ce_lengths (au_env env)) st1") auto
    note g2 = grows_trans [OF g1 measure_grows [OF grows_run [OF g1] m]]
    show ?thesis
    proof (cases q)
      case (Inl x)
      with c t Some m g2 fin show ?thesis by (auto simp: compact_if_needed_def auto_inv_def Let_def)
    next
      case (Inr v)
      show ?thesis
      proof (cases trigger)
        case Pressure
        with c t Some m Inr g2 snd show ?thesis by (auto simp: compact_if_needed_def auto_inv_def Let_def)
      next
        case ContextOverflow
        obtain st3 u where pm: "prune_and_measure env v st2 = (st3, u)" by (cases "prune_and_measure env v st2") auto
        note g3 = grows_trans [OF g2 prune_grows [OF grows_run [OF g2] pm]]
        show ?thesis
        proof (cases u)
          case (Inl x)
          with c t Some m Inr ContextOverflow pm g3 fin show ?thesis by (auto simp: compact_if_needed_def auto_inv_def Let_def)
        next
          case (Inr v')
          obtain st4 y where s: "select_compactable_range st3 v' 0 = (st4, y)" by (cases "select_compactable_range st3 v' 0") auto
          note g4 = grows_trans [OF g3 select_grows [OF grows_run [OF g3] s]]
          have c': "(case (st4, y) of (st4, Inl x) \<Rightarrow> (st4, Finished (Inl (AutoFailure (Raised x))))
              | (st4, Inr None) \<Rightarrow> (st4, Finished (Inr None))
              | (st4, Inr (Some extent)) \<Rightarrow> begin_region env extent AtOverflowSummary st4) = (st', pc)"
            using c t Some m \<open>q = Inr v\<close> ContextOverflow pm Inr s by (simp add: compact_if_needed_def Let_def)
          consider x where "y = Inl x" | "y = Inr None" | extent where "y = Inr (Some extent)" by (metis option.exhaust sum.exhaust)
          then show ?thesis
          proof cases
            case (3 extent)
            with c' have "begin_region env extent AtOverflowSummary st4 = (st', pc)" by simp
            note b = begin_region_cases [OF grows_run [OF g4] this]
            then have g': "grows (au_env env) st0 st'" using grows_trans [OF g4] by blast
            from b consider x where "pc = Finished (Inl x)" | p where "pc = AtOverflowSummary p" "began env st0 st' p"
              using g4 unfolding began_def by blast
            then show ?thesis using g' fin snd ContextOverflow by cases (auto simp: auto_inv_def)
          qed (use c' g4 fin in \<open>auto simp: auto_inv_def\<close>)
        qed
      qed
    qed
  qed
qed

lemma after_model_info_inv:
  assumes g: "grows (au_env env) st0 st" and t: "snd (routed_target st0) = Some target"
    and cfg: "\<And>t. compaction_policy_ok (resolve_target_policy (au_config env) t)"
    and a: "after_model_info env answer target (resolve_target_policy (au_config env) target) m st = (st', pc)"
  shows "auto_inv env Pressure st0 (told_capacity answer) 0 pc st'"
proof -
  let ?policy = "resolve_target_policy (au_config env) target"
  have r0: "0 \<le> rp_retries ?policy" using cfg by (simp add: compaction_policy_ok_def)
  have n0: "int 0 \<le> 1 + rp_retries ?policy" using r0 by simp
  note fin = finished_failed [OF t n0]
  have stay: ?thesis if "st' = st" "pc = Finished out" "(\<exists>x. out = Inl x) \<or> out = Inr None" for out
    using that g fin by (auto simp: auto_inv_def)
  show ?thesis
  proof (cases "\<exists>window spec. answer = Inr (Some window) \<and> resolve_compact_spec ?policy window = Inr spec
      \<and> assert_no_active_compaction (cp_session st) = Inr () \<and> \<not> me_total m < sp_threshold spec")
    case False
    then have "\<exists>out. st' = st \<and> pc = Finished out \<and> ((\<exists>x. out = Inl x) \<or> out = Inr None)"
      using a by (auto simp: after_model_info_def not_less split: sum.splits option.splits if_split_asm)
    with stay show ?thesis by blast
  next
    case True
    then obtain window spec where w: "answer = Inr (Some window)" "resolve_compact_spec ?policy window = Inr spec"
      "assert_no_active_compaction (cp_session st) = Inr ()" "\<not> me_total m < sp_threshold spec" by blast
    have spec: "spec_of env st0 (told_capacity answer) spec" using t w(1,2) by (auto simp: spec_of_def told_capacity_def)
    have pol: "sp_policy spec = ?policy" using w(2) by (auto simp: resolve_compact_spec_def Let_def split: if_split_asm)
    obtain st1 q where pm: "prune_and_measure env m st = (st1, q)" by (cases "prune_and_measure env m st") auto
    note g1 = grows_trans [OF g prune_grows [OF grows_run [OF g] pm]]
    show ?thesis
    proof (cases "\<exists>m1. q = Inr m1 \<and> \<not> me_total m1 < sp_threshold spec")
      case True
      then obtain m1 where "pressure_attempt env spec 0 None m1 st1 = (st', pc)"
        using a w pm by (auto simp: after_model_info_def)
      from pressure_attempt_inv [OF g1 spec _ this] n0 pol show ?thesis by simp
    next
      case False
      with a w pm g1 fin show ?thesis
        by (cases q) (auto simp: after_model_info_def auto_inv_def)
    qed
  qed
qed

lemma after_summary_inv:
  assumes g: "grows (au_env env) st0 st" and spec: "spec_of env st0 cap spec" and k: "int k \<le> rp_retries (sp_policy spec)"
    and a: "after_summary env answer spec k p st = (st', pc)"
  shows "auto_inv env Pressure st0 cap (k + 1) pc st'"
proof -
  obtain target where t: "snd (routed_target st0) = Some target" "sp_policy spec = resolve_target_policy (au_config env) target"
    by (rule spec_of_policy [OF spec])
  have n: "int (k + 1) \<le> 1 + rp_retries (sp_policy spec)" using k by simp
  note fin = finished_failed [OF t(1), of "k + 1" env, folded t(2), OF n]
  obtain st1 q where e: "end_region env p answer st = (st1, q)" by (cases "end_region env p answer st") auto
  note g1 = grows_trans [OF g end_region_grows [OF grows_run [OF g] e]]
  show ?thesis
  proof (cases q)
    case (Inl x)
    with a e g1 fin show ?thesis by (auto simp: after_summary_def auto_inv_def)
  next
    case (Inr r)
    obtain st2 u where m: "cp_measure (ce_lengths (au_env env)) st1 = (st2, u)"
      by (cases "cp_measure (ce_lengths (au_env env)) st1") auto
    note g2 = grows_trans [OF g1 measure_grows [OF grows_run [OF g1] m]]
    show ?thesis
    proof (cases u)
      case (Inl x)
      with a e Inr m g2 fin show ?thesis by (auto simp: after_summary_def auto_inv_def \<open>q = Inr r\<close>)
    next
      case (Inr v)
      show ?thesis
      proof (cases "me_total v < sp_threshold spec")
        case True
        have "snd (cp_measure (ce_lengths (au_env env)) st2) = Inr v"
          by (rule measured_again [OF compactor_run_ok [OF grows_run [OF g1]] m [unfolded Inr]])
        then have "finished_ok env Pressure st0 cap (k + 1) (Inr (Some r)) st2"
          using True spec t n by (auto simp: finished_ok_def)
        with a e \<open>q = Inr r\<close> m Inr True g2 show ?thesis by (auto simp: after_summary_def auto_inv_def)
      next
        case False
        with a e \<open>q = Inr r\<close> m Inr have "pressure_attempt env spec (k + 1) (Some r) v st2 = (st', pc)"
          by (simp add: after_summary_def)
        from pressure_attempt_inv [OF g2 spec n this] show ?thesis .
      qed
    qed
  qed
qed

lemma auto_run_inv:
  assumes "auto_run env trigger st0 cap n pc st" and run: "compactor_run (au_env env) st0"
    and cfg: "\<And>t. compaction_policy_ok (resolve_target_policy (au_config env) t)"
  shows "auto_inv env trigger st0 cap n pc st"
  using assms(1)
proof (induction rule: auto_run.induct)
  case (called st pc)
  from compact_if_needed_inv [OF run cfg called] show ?case .
next
  case (informed cap n target policy m st st1 v st' pc')
  from informed.IH have i: "n = 0" "trigger = Pressure" "snd (routed_target st0) = Some target"
    "policy = resolve_target_policy (au_config env) target" "grows (au_env env) st0 st" by (auto simp: auto_inv_def)
  from informed.hyps(3) i(4) have "after_model_info env v target (resolve_target_policy (au_config env) target) m st1 = (st', pc')"
    by simp
  from after_model_info_inv [OF grows_trans [OF i(5) informed.hyps(2)] i(3) cfg this] i show ?case by simp
next
  case (summarized cap n pc st st1 v st' pc')
  show ?case
  proof (cases pc)
    case (AtSummary spec k p)
    with summarized.IH have i: "n = k" "trigger = Pressure" "spec_of env st0 cap spec" "int k \<le> rp_retries (sp_policy spec)"
      "grows (au_env env) st0 st" by (auto simp: auto_inv_def)
    from summarized.hyps(4) AtSummary have "after_summary env v spec k p st1 = (st', pc')" by simp
    from after_summary_inv [OF grows_trans [OF i(5) summarized.hyps(3)] i(3,4) this] i show ?thesis by simp
  next
    case (AtOverflowSummary p)
    with summarized.IH have i: "n = 0" "trigger = ContextOverflow" "snd (routed_target st0) \<noteq> None" "grows (au_env env) st0 st"
      by (auto simp: auto_inv_def)
    then obtain target where t: "snd (routed_target st0) = Some target" by blast
    have n1: "int (n + 1) \<le> 1 + rp_retries (resolve_target_policy (au_config env) target)"
      using cfg [of target] i(1) by (simp add: compaction_policy_ok_def)
    obtain st2 q where e: "end_region env p v st1 = (st2, q)" by (cases "end_region env p v st1") auto
    note g1 = grows_trans [OF i(4) summarized.hyps(3)]
    note g2 = grows_trans [OF g1 end_region_grows [OF grows_run [OF g1] e]]
    show ?thesis
      using summarized.hyps(4) AtOverflowSummary e g2 i(1,2) t n1
      by (cases q) (auto simp: auto_inv_def finished_ok_def)
  qed (use summarized.hyps(2) in \<open>simp_all add: awaits_summary_def\<close>)
qed


section \<open>Generations\<close>




section \<open>The guarantees of a call\<close>

text \<open>
  C30: one call asks for at most one summary more than the configured retries, whatever the answers are and
  whatever happens to the session in between; without a routed model it asks for none.
\<close>

theorem auto_summaries_bounded:
  assumes "resolve_compaction_config raw = Inr (au_config env)" and "compactor_run (au_env env) st0"
    and "auto_run env trigger st0 cap n pc st"
  shows "case snd (routed_target st0) of
      None \<Rightarrow> n = 0 \<and> \<not> awaits_summary pc
    | Some target \<Rightarrow> int n + (if awaits_summary pc then 1 else 0)
        \<le> 1 + rp_retries (resolve_target_policy (au_config env) target)"
proof -
  have cfg: "compaction_policy_ok (resolve_target_policy (au_config env) t)" for t by (rule target_policy_ok [OF assms(1)])
  note inv = auto_run_inv [OF assms(3,2) cfg]
  show ?thesis
  proof (cases pc)
    case (AtSummary spec k p)
    with inv have k: "n = k" "int k \<le> rp_retries (sp_policy spec)" and spec: "spec_of env st0 cap spec"
      by (auto simp: auto_inv_def)
    obtain target where "snd (routed_target st0) = Some target" "sp_policy spec = resolve_target_policy (au_config env) target"
      by (rule spec_of_policy [OF spec])
    with k AtSummary show ?thesis by (simp add: awaits_summary_def)
  next
    case (AtOverflowSummary p)
    with inv obtain target where "n = 0" "snd (routed_target st0) = Some target" by (auto simp: auto_inv_def)
    with cfg [of target] AtOverflowSummary show ?thesis by (simp add: awaits_summary_def compaction_policy_ok_def)
  next
    case (AtModelInfo target policy m)
    with inv cfg [of target] show ?thesis by (auto simp: auto_inv_def awaits_summary_def compaction_policy_ok_def)
  next
    case (Finished out)
    with inv show ?thesis by (auto simp: auto_inv_def finished_ok_def awaits_summary_def split: option.splits)
  qed
qed

text \<open>
  C31: when a call made under pressure reports a result, it has been told a capacity, and the session it
  leaves measures below the threshold that the policy of its routed model gives for exactly that capacity.
\<close>

theorem auto_result_below_threshold:
  assumes "resolve_compaction_config raw = Inr (au_config env)" and "compactor_run (au_env env) st0"
    and "auto_run env Pressure st0 cap n (Finished (Inr (Some r))) st"
  shows "\<exists>target window spec m. snd (routed_target st0) = Some target \<and> cap = Some window
     \<and> resolve_compact_spec (resolve_target_policy (au_config env) target) window = Inr spec
     \<and> snd (cp_measure (ce_lengths (au_env env)) st) = Inr m \<and> me_total m < sp_threshold spec"
proof -
  have cfg: "compaction_policy_ok (resolve_target_policy (au_config env) t)" for t by (rule target_policy_ok [OF assms(1)])
  from auto_run_inv [OF assms(3,2) cfg] obtain spec m where "spec_of env st0 cap spec"
    and "snd (cp_measure (ce_lengths (au_env env)) st) = Inr m" "me_total m < sp_threshold spec"
    by (auto simp: auto_inv_def finished_ok_def)
  then show ?thesis unfolding spec_of_def by blast
qed



section \<open>A sample call\<close>

definition auto_header :: epoch_header where
  "auto_header = \<lparr> eh_config = \<lparr> cfg_provider = ''p'', cfg_model = ''m'', cfg_reasoning_effort = None, cfg_temperature = None,
     cfg_max_tokens = None, cfg_stop = None \<rparr>, eh_adapter_defaults = None, eh_system = None, eh_tools = None \<rparr>"

definition auto_log :: "session_event list" where
  "auto_log = compact_log @
     [make_event 8 1 (RequestHeader auto_header ''start'') None None False, make_event 9 1 (TurnStart 2) None None False]"

definition auto_session :: session where
  "auto_session = (case new_session (\<lambda>_. True) 20 ModeSnapshot ''s1'' (Some auto_log) (Some sample_header) of
      Inr s \<Rightarrow> s | Inl _ \<Rightarrow> sample_session)"

definition auto_state :: compactor where
  "auto_state = \<lparr> cp_session = auto_session, cp_cache = None, cp_meter = new_meter_state \<rparr>"

definition auto_sample :: auto_env where
  "auto_sample = \<lparr> au_env = compact_env, au_config = sample_resolved, au_pruner = None, au_uuid = (\<lambda>_. ''k'') \<rparr>"

definition overflow_called :: "compactor \<times> auto_point" where
  "overflow_called = compact_if_needed auto_sample ContextOverflow auto_state"


definition pressure_called :: "compactor \<times> auto_point" where
  "pressure_called = compact_if_needed auto_sample Pressure auto_state"

definition pressure_informed :: "compactor \<times> auto_point" where
  "pressure_informed = auto_resume auto_sample (ModelInfo (Inr (Some 480))) (snd pressure_called) (fst pressure_called)"

definition pressure_ended :: "compactor \<times> auto_point" where
  "pressure_ended = auto_resume auto_sample (Summarized (Inr compact_summary)) (snd pressure_informed) (fst pressure_informed)"

lemma overflow_values:
  "(case snd overflow_called of AtOverflowSummary _ \<Rightarrow> True | _ \<Rightarrow> False)"
  by code_simp


lemma pressure_values:
  "(case snd pressure_called of AtModelInfo _ _ _ \<Rightarrow> True | _ \<Rightarrow> False)"
  "(case snd pressure_informed of AtSummary _ _ _ \<Rightarrow> True | _ \<Rightarrow> False)"
  by code_simp+

lemma pressure_result:
  "(case snd pressure_ended of Finished (Inr (Some _)) \<Rightarrow> True | _ \<Rightarrow> False)"
  by code_simp

lemma auto_target: "snd (routed_target auto_state) = Some (''p'', ''m'')"
  by code_simp

lemma auto_state_run: "compactor_run (au_env auto_sample) auto_state"
proof -
  have "is_ok (new_session (\<lambda>_. True) 20 ModeSnapshot ''s1'' (Some auto_log) (Some sample_header))" by code_simp
  then have "session_run auto_session"
    by (auto simp: auto_session_def is_ok_iff intro: session_run.created)
  then show ?thesis unfolding auto_state_def by (rule compactor_run.fresh)
qed

lemma auto_sample_config: "resolve_compaction_config sample_policies = Inr (au_config auto_sample)"
  by (simp add: sample_resolved auto_sample_def)

lemma overflow_started:
  obtains p where "auto_run auto_sample ContextOverflow auto_state None 0 (AtOverflowSummary p) (fst overflow_called)"
    and "snd overflow_called = AtOverflowSummary p" and "grows (au_env auto_sample) (fst overflow_called) (fst overflow_called)"
proof -
  from overflow_values obtain p where p: "snd overflow_called = AtOverflowSummary p" by (auto split: auto_point.splits)
  have "compact_if_needed auto_sample ContextOverflow auto_state = (fst overflow_called, AtOverflowSummary p)"
    unfolding p [symmetric] overflow_called_def by simp
  then have run: "auto_run auto_sample ContextOverflow auto_state None 0 (AtOverflowSummary p) (fst overflow_called)"
    by (rule auto_run.called)
  have "compaction_policy_ok (resolve_target_policy (au_config auto_sample) t)" for t by (rule target_policy_ok [OF auto_sample_config])
  from auto_run_inv [OF run auto_state_run this] have "grows (au_env auto_sample) (fst overflow_called) (fst overflow_called)"
    by (simp add: auto_inv_def grows_def)
  with run p that show thesis by blast
qed

theorem auto_summaries_bounded_witness:
  "\<exists>p. auto_run auto_sample ContextOverflow auto_state None 0 (AtOverflowSummary p) (fst overflow_called)
     \<and> int 0 + 1 \<le> 1 + rp_retries (resolve_target_policy sample_resolved (''p'', ''m''))"
proof -
  obtain p where r: "auto_run auto_sample ContextOverflow auto_state None 0 (AtOverflowSummary p) (fst overflow_called)"
    by (rule overflow_started)
  from auto_summaries_bounded [OF auto_sample_config auto_state_run r] auto_target
  have "int 0 + 1 \<le> 1 + rp_retries (resolve_target_policy sample_resolved (''p'', ''m''))"
    by (simp add: awaits_summary_def auto_sample_def)
  with r show ?thesis by blast
qed

theorem auto_result_below_threshold_witness:
  "\<exists>r m spec. snd pressure_ended = Finished (Inr (Some r))
     \<and> resolve_compact_spec (resolve_target_policy sample_resolved (''p'', ''m'')) 480 = Inr spec
     \<and> snd (cp_measure (ce_lengths compact_env) (fst pressure_ended)) = Inr m \<and> me_total m < sp_threshold spec"
proof -
  from pressure_values(1) obtain target policy m where c: "snd pressure_called = AtModelInfo target policy m"
    by (auto split: auto_point.splits)
  from pressure_values(2) obtain spec k p where i: "snd pressure_informed = AtSummary spec k p"
    by (auto split: auto_point.splits)
  from pressure_result obtain r where f: "snd pressure_ended = Finished (Inr (Some r))"
    by (auto split: auto_point.splits sum.splits option.splits)
  have refl: "grows (au_env auto_sample) st st" if "auto_run auto_sample Pressure auto_state cap n pc st" for cap n pc st
  proof -
    have "compaction_policy_ok (resolve_target_policy (au_config auto_sample) t)" for t by (rule target_policy_ok [OF auto_sample_config])
    from auto_run_inv [OF that auto_state_run this] show ?thesis by (simp add: auto_inv_def grows_def)
  qed
  have "compact_if_needed auto_sample Pressure auto_state = (fst pressure_called, AtModelInfo target policy m)"
    unfolding c [symmetric] pressure_called_def by simp
  then have r0: "auto_run auto_sample Pressure auto_state None 0 (AtModelInfo target policy m) (fst pressure_called)"
    by (rule auto_run.called)
  have "auto_resume auto_sample (ModelInfo (Inr (Some 480))) (AtModelInfo target policy m) (fst pressure_called)
      = (fst pressure_informed, AtSummary spec k p)"
    unfolding c [symmetric] i [symmetric] pressure_informed_def by (rule prod.collapse [symmetric])
  from auto_run.informed [OF r0 refl [OF r0] this]
  have r1: "auto_run auto_sample Pressure auto_state (Some 480) 0 (AtSummary spec k p) (fst pressure_informed)"
    by (simp add: told_capacity_def)
  have "auto_resume auto_sample (Summarized (Inr compact_summary)) (AtSummary spec k p) (fst pressure_informed)
      = (fst pressure_ended, Finished (Inr (Some r)))"
    unfolding i [symmetric] f [symmetric] pressure_ended_def by (rule prod.collapse [symmetric])
  from auto_run.summarized [OF r1 _ refl [OF r1] this]
  have "auto_run auto_sample Pressure auto_state (Some 480) (0 + 1) (Finished (Inr (Some r))) (fst pressure_ended)"
    by (simp add: awaits_summary_def)
  from auto_result_below_threshold [OF auto_sample_config auto_state_run this] auto_target f
  show ?thesis by (auto simp: auto_sample_def)
qed



section \<open>What a manual failure tells\<close>

lemma close_failed_surface:
  assumes ok: "compactor_ok (ce_lengths env) st" and f: "folded (cp_log st) fs reps"
    and c: "close_failed env life failure st = (st', oc)" and stage: "oc_result oc = Inl (x, SummaryStage)"
  shows "\<exists>e. cp_log st' = cp_log st @ [e] \<and> ev_data e = CompactionEnd life (Some (ce_chain env (fst failure)))
    \<and> folded (cp_log st') fs reps"
proof -
  let ?d = "CompactionEnd life (Some (ce_chain env (fst failure)))"
  obtain st1 y where a: "cp_append env ?d None None st = (st1, y)" by (cases "cp_append env ?d None None st") auto
  with c stage obtain e where e: "y = Inr e" "st' = st1" by (cases y) (auto simp: close_failed_def)
  from cp_append_plain [OF ok a [unfolded e(1)] f compaction_types(2)] e(2) show ?thesis by simp
qed

lemma throw_at_commit: "throw_manual_failure (x, CommitStage) = Manual Commit"
  by (cases x) (simp_all add: throw_manual_failure_def)

lemma settled_summary_stage:
  assumes "settle_compaction (manual_options command) aborted flush_failed oc = Inl (Manual c)" and "c = Changed \<or> c = Summary"
  shows "\<exists>x. oc_result oc = Inl (x, SummaryStage)"
  using assms
  by (cases "oc_result oc")
    (auto simp: settle_compaction_def manual_options_def throw_at_commit split: if_splits intro: commit_stage.exhaust)

text \<open>
  C33: when a manual compaction fails as changed or as without a useful summary, the report that the conversation is
  unchanged and that the attempt is recorded is true: the surface is the one the summarizer left, and the
  one record added is the end of the bracket with an error.
\<close>

theorem manual_failure_truthful:
  assumes "compactor_run (au_env env) st"
    and "manual_resume env command agent_first aborted late flush_failed (e0, life, prep) answer st = (st', Inl (Manual c))"
    and "c = Changed \<or> c = Summary" and "fold_surface (cp_log st) = Inr (nodes, reps)"
  shows "fold_surface (cp_log st') = Inr (nodes, reps)
     \<and> (\<exists>e x. cp_log st' = cp_log st @ [e] \<and> ev_data e = CompactionEnd life (Some x))"
proof -
  let ?e = "au_env env" and ?o = "manual_options command"
  let ?r = "compaction_resume ?e ?o aborted (au_uuid env (length (cp_log st))) e0 life prep answer st"
  obtain st1 oc where r: "?r = (st1, oc)" by (cases ?r) auto
  have st': "st' = st1" and s: "settle_compaction ?o (aborted \<or> late) flush_failed oc = Inl (Manual c)"
    using assms(2,3) r by (auto simp: manual_resume_def manual_failure_def split: sum.splits if_splits)
  obtain x where x: "oc_result oc = Inl (x, SummaryStage)" using settled_summary_stage [OF s assms(3)] by blast
  note ok = compactor_run_ok [OF assms(1)]
  from assms(4) obtain fs where f: "folded (cp_log st) fs reps" and n: "fs_nodes fs = nodes" by (rule fold_surface_folded)
  from r show ?thesis
  proof (cases rule: compaction_resume_cases)
    case (failed st2 failure)
    have "reads (ce_lengths ?e) st st2"
      using failed(2) assert_stable_reads [OF ok, of ?o prep] ok
      by (cases "assert_stable ?e ?o prep st") (auto simp: reads_def)
    then have "compactor_ok (ce_lengths ?e) st2" "cp_log st2 = cp_log st" by (simp_all add: reads_def)
    from close_failed_surface [OF this(1) f [folded this(2)] failed(1) x] this(2) n folded_fold_surface st'
    show ?thesis by fastforce
  next
    case (broken st2 st3 res failure)
    have "oc_result oc = Inl failure \<or> (\<exists>y. oc_result oc = Inl (y, CommitStage))"
      using broken(3) by (auto simp: close_failed_def split: prod.splits sum.splits)
    then show ?thesis using x broken(4) by auto
  next
    case (committed st2 st3 res k)
    then have "\<exists>y. oc_result oc = Inl (y, CommitStage) \<or> is_ok (oc_result oc)"
      by (auto simp: close_committed_def is_ok_def split: prod.splits sum.splits)
    with x show ?thesis by auto
  qed
qed


definition manual_called :: "compactor \<times> manual_point" where
  "manual_called = compact_now auto_sample None False True False False False compact_state"

definition manual_ended :: "compactor \<times> (compaction_failure + compaction_result option)" where
  "manual_ended = (case snd manual_called of
      AtManualSummary p \<Rightarrow> manual_resume auto_sample None False False False False p (Inl ''offline'') (fst manual_called)
    | ManualDone x \<Rightarrow> (fst manual_called, x))"

lemma manual_started:
  "(case snd manual_called of AtManualSummary _ \<Rightarrow> True | _ \<Rightarrow> False)"
  "fold_surface (cp_log (fst manual_called)) = Inr ([0, 3, 4, 7], [])"
  by code_simp+

lemma manual_result: "snd manual_ended = Inl (Manual Summary)"
  by code_simp

theorem manual_failure_truthful_witness:
  "fold_surface (cp_log (fst manual_ended)) = Inr ([0, 3, 4, 7], []) \<and> snd manual_ended = Inl (Manual Summary)
     \<and> length (cp_log (fst manual_ended)) = length (cp_log (fst manual_called)) + 1"
proof -
  from manual_started(1) obtain e0 life prep where p: "snd manual_called = AtManualSummary (e0, life, prep)"
    by (cases "snd manual_called") auto
  have r: "manual_resume auto_sample None False False False False (e0, life, prep) (Inl ''offline'') (fst manual_called)
      = (fst manual_ended, Inl (Manual Summary))"
    using manual_result by (simp add: manual_ended_def p prod_eq_iff)
  have run: "compactor_run (au_env auto_sample) (fst manual_called)"
  proof -
    let ?e = "au_env auto_sample"
    have env: "?e = compact_env" by (simp add: auto_sample_def)
    obtain st1 q where m: "cp_measure (ce_lengths compact_env) compact_state = (st1, q)"
      by (cases "cp_measure (ce_lengths compact_env) compact_state") auto
    have r1: "compactor_run compact_env st1" using measure_grows [OF compact_state_run m] by (rule grows_run)
    from p m obtain v where v: "q = Inr v" by (cases q) (auto simp: manual_called_def compact_now_def auto_sample_def)
    obtain st2 y where s: "select_compactable_range st1 v 0 = (st2, y)" by (cases "select_compactable_range st1 v 0") auto
    have r2: "compactor_run compact_env st2" using select_grows [OF r1 s] by (rule grows_run)
    from p m v s obtain extent where y: "y = Inr (Some extent)"
      by (cases y rule: sum.exhaust) (auto simp: manual_called_def compact_now_def auto_sample_def split: option.splits)
    let ?b = "compaction_begin compact_env (manual_options None) False ''k'' (fst extent) (snd extent) st2"
    obtain st3 z where b: "?b = (st3, z)" by (cases ?b) auto
    have "fst manual_called = st3"
      using m v s y b by (cases z rule: sum.exhaust) (auto simp: manual_called_def compact_now_def auto_sample_def split: sum.splits)
    with begin_grows [OF r2 b] env show ?thesis by (simp add: grows_def)
  qed
  from manual_failure_truthful [OF run r _ manual_started(2)] manual_result show ?thesis by auto
qed

end
