(* ===== verification/Goal_Fold.thy ===== *)
theory Goal_Fold
  imports Log_Append "HOL-Library.List_Lexorder" "HOL-Library.Char_ord"
begin

text \<open>
  The durable goal of a session (\<^verbatim>\<open>packages/goal/goal/src/{types,domain,fold}.ts\<close> and the projection of
  \<^verbatim>\<open>index.ts\<close>): the strict decoder of one \<^verbatim>\<open>goal/change\<close> payload, the transition rules, the replay of a
  log, and the lenient last-wins projection. A replay either rejects the log with the error the code
  throws or gives the one current goal. Rounds, revisions and times are integers, as the decoder only
  lets safe integers through; a source of kind \<^verbatim>\<open>goal\<close> always is an \<open>SrcGoal\<close>.
\<close>

section \<open>Data\<close>

definition goal_change_version :: rat where
  "goal_change_version = 1"

datatype goal_phase = GoalActive | GoalPaused | GoalBlocked | GoalComplete

datatype goal_operation = OpCreate | OpEdit | OpPause | OpResume | OpComplete | OpBlock | OpClear

record goal_ref =
  gr_id :: string
  gr_revision :: int

record block_reason =
  br_code :: string
  br_message :: string

record goal_snapshot = goal_ref +
  gs_objective :: string
  gs_phase :: goal_phase
  gs_reason :: "block_reason option"
  gs_max_rounds :: int

record snapshot_change =
  sc_operation :: goal_operation
  sc_goal :: goal_snapshot
  sc_rounds :: int
  sc_created_at :: int
  sc_updated_at :: int

datatype goal_change =
    ChangeSnapshot snapshot_change
  | ChangeClear goal_ref int

datatype goal_replay_error =
    NotPositive string
  | NotNonNegative string
  | BadReasonKeys
  | BadReasonCode
  | BadReasonMessage
  | GoalNotRecord
  | BadGoalId
  | BadGoalObjective
  | BadGoalPhase
  | BadGoalKeys goal_phase
  | BadTombstoneKeys
  | BadTombstoneId
  | BadChangeVersion "json option"
  | BadClearKeys
  | BadChangeOperation
  | BadSnapshotKeys
  | UpdatedBeforeCreated
  | BadGoalSource
  | DefinitionChanged goal_operation
  | RevisionSkipped goal_operation
  | GoalLacksUpdatedAt
  | CountersChanged goal_operation
  | EditChangesPhase
  | BadPhaseTransition goal_operation
  | NoCurrentGoal goal_operation
  | ClearBeforeUpdate
  | CreateNotFresh
  | UnknownGoalOperation
  | BadChangeKind nat
  | RoundNotAdmitted nat

section \<open>The strict decoder\<close>

text \<open>\<^verbatim>\<open>Object.keys(value).sort().join(',')\<close>.\<close>

fun join_comma :: "string list \<Rightarrow> string" where
  "join_comma [] = []"
| "join_comma [k] = k"
| "join_comma (k # ks) = k @ '','' @ join_comma ks"

definition joined_keys :: "(string \<times> json) list \<Rightarrow> string" where
  "joined_keys ps = join_comma (sort (map fst ps))"

text \<open>\<^verbatim>\<open>/^[a-z][a-z0-9]*(?:-[a-z0-9]+)*$/\<close>: the flag says that the last character was no dash.\<close>

definition lower_char :: "char \<Rightarrow> bool" where
  "lower_char c \<longleftrightarrow> CHR ''a'' \<le> c \<and> c \<le> CHR ''z''"

definition digit_char :: "char \<Rightarrow> bool" where
  "digit_char c \<longleftrightarrow> CHR ''0'' \<le> c \<and> c \<le> CHR ''9''"

fun kebab_rest :: "bool \<Rightarrow> string \<Rightarrow> bool" where
  "kebab_rest b [] = b"
| "kebab_rest b (c # cs) =
     (if lower_char c \<or> digit_char c then kebab_rest True cs
      else c = CHR ''-'' \<and> b \<and> kebab_rest False cs)"

definition lower_kebab :: "string \<Rightarrow> bool" where
  "lower_kebab s = (case s of [] \<Rightarrow> False | c # cs \<Rightarrow> lower_char c \<and> kebab_rest True cs)"

definition normalized :: "string \<Rightarrow> bool" where
  "normalized s \<longleftrightarrow> js_trim s \<noteq> [] \<and> js_trim s = s"

definition positive_integer :: "string \<Rightarrow> json option \<Rightarrow> goal_replay_error + int" where
  "positive_integer field v = (case v of
       Some (JNum r) \<Rightarrow> if safe_num r \<and> 1 \<le> r then Inr \<lfloor>r\<rfloor> else Inl (NotPositive field)
     | _ \<Rightarrow> Inl (NotPositive field))"

definition non_negative_integer :: "string \<Rightarrow> json option \<Rightarrow> goal_replay_error + int" where
  "non_negative_integer field v = (case v of
       Some (JNum r) \<Rightarrow> if safe_num r \<and> 0 \<le> r then Inr \<lfloor>r\<rfloor> else Inl (NotNonNegative field)
     | _ \<Rightarrow> Inl (NotNonNegative field))"

definition decode_block_reason :: "json option \<Rightarrow> goal_replay_error + block_reason" where
  "decode_block_reason v = (case v of
       Some (JObj ps) \<Rightarrow>
         if joined_keys ps \<noteq> ''code,message'' then Inl BadReasonKeys
         else (case (map_of ps ''code'', map_of ps ''message'') of
             (Some (JStr code), m) \<Rightarrow>
               if \<not> lower_kebab code then Inl BadReasonCode
               else (case m of
                   Some (JStr msg) \<Rightarrow>
                     if normalized msg then Inr \<lparr> br_code = code, br_message = msg \<rparr> else Inl BadReasonMessage
                 | _ \<Rightarrow> Inl BadReasonMessage)
           | _ \<Rightarrow> Inl BadReasonCode)
     | _ \<Rightarrow> Inl BadReasonKeys)"

definition phase_name :: "goal_phase \<Rightarrow> string" where
  "phase_name p = (case p of GoalActive \<Rightarrow> ''active'' | GoalPaused \<Rightarrow> ''paused''
     | GoalBlocked \<Rightarrow> ''blocked'' | GoalComplete \<Rightarrow> ''complete'')"

definition goal_phases :: "goal_phase list" where
  "goal_phases = [GoalActive, GoalPaused, GoalBlocked, GoalComplete]"

definition phase_of :: "json option \<Rightarrow> goal_phase option" where
  "phase_of v = (case v of Some (JStr s) \<Rightarrow> find (\<lambda>p. phase_name p = s) goal_phases | _ \<Rightarrow> None)"

definition snapshot_keys :: "goal_phase \<Rightarrow> string" where
  "snapshot_keys p = (if p = GoalBlocked then ''blockedReason,id,maxGoalRounds,objective,phase,revision''
     else ''id,maxGoalRounds,objective,phase,revision'')"

definition decode_snapshot :: "json option \<Rightarrow> goal_replay_error + goal_snapshot" where
  "decode_snapshot v = (case v of
       Some (JObj ps) \<Rightarrow>
         (case map_of ps ''id'' of
            Some (JStr i) \<Rightarrow>
              if i = [] then Inl BadGoalId
              else (case map_of ps ''objective'' of
                  Some (JStr objective) \<Rightarrow>
                    if \<not> normalized objective then Inl BadGoalObjective
                    else (case phase_of (map_of ps ''phase'') of
                        None \<Rightarrow> Inl BadGoalPhase
                      | Some p \<Rightarrow>
                          if joined_keys ps \<noteq> snapshot_keys p then Inl (BadGoalKeys p)
                          else
                            bind_res (positive_integer ''goal.revision'' (map_of ps ''revision'')) (\<lambda>r.
                            bind_res (positive_integer ''goal.maxGoalRounds'' (map_of ps ''maxGoalRounds'')) (\<lambda>cap.
                            bind_res (if p = GoalBlocked
                                then map_sum id Some (decode_block_reason (map_of ps ''blockedReason''))
                                else Inr None) (\<lambda>reason.
                            Inr \<lparr> gr_id = i, gr_revision = r, gs_objective = objective, gs_phase = p,
                                  gs_reason = reason, gs_max_rounds = cap \<rparr>))))
                | _ \<Rightarrow> Inl BadGoalObjective)
          | _ \<Rightarrow> Inl BadGoalId)
     | _ \<Rightarrow> Inl GoalNotRecord)"

definition decode_ref :: "json option \<Rightarrow> goal_replay_error + goal_ref" where
  "decode_ref v = (case v of
       Some (JObj ps) \<Rightarrow>
         if joined_keys ps \<noteq> ''id,revision'' then Inl BadTombstoneKeys
         else (case map_of ps ''id'' of
             Some (JStr i) \<Rightarrow>
               if i = [] then Inl BadTombstoneId
               else bind_res (positive_integer ''cleared.revision'' (map_of ps ''revision'')) (\<lambda>r.
                 Inr \<lparr> gr_id = i, gr_revision = r \<rparr>)
           | _ \<Rightarrow> Inl BadTombstoneId)
     | _ \<Rightarrow> Inl BadTombstoneKeys)"

definition operation_name :: "goal_operation \<Rightarrow> string" where
  "operation_name p = (case p of OpCreate \<Rightarrow> ''create'' | OpEdit \<Rightarrow> ''edit'' | OpPause \<Rightarrow> ''pause''
     | OpResume \<Rightarrow> ''resume'' | OpComplete \<Rightarrow> ''complete'' | OpBlock \<Rightarrow> ''block'' | OpClear \<Rightarrow> ''clear'')"

definition snapshot_operations :: "goal_operation list" where
  "snapshot_operations = [OpCreate, OpEdit, OpPause, OpResume, OpComplete, OpBlock]"

definition operation_of :: "json option \<Rightarrow> goal_operation option" where
  "operation_of v = (case v of
       Some (JStr s) \<Rightarrow> find (\<lambda>p. operation_name p = s) snapshot_operations | _ \<Rightarrow> None)"

definition decode_goal_change :: "json \<Rightarrow> goal_replay_error + goal_change option" where
  "decode_goal_change v = (case v of
       JObj ps \<Rightarrow>
         if map_of ps ''kind'' \<noteq> Some (JStr ''goal/change'') then Inr None
         else if map_of ps ''version'' \<noteq> Some (JNum goal_change_version)
         then Inl (BadChangeVersion (map_of ps ''version''))
         else if map_of ps ''operation'' = Some (JStr ''clear'') then
           (if joined_keys ps \<noteq> ''cleared,clearedAt,kind,operation,version'' then Inl BadClearKeys
            else bind_res (decode_ref (map_of ps ''cleared'')) (\<lambda>r.
              bind_res (non_negative_integer ''clearedAt'' (map_of ps ''clearedAt'')) (\<lambda>t.
              Inr (Some (ChangeClear r t)))))
         else (case operation_of (map_of ps ''operation'') of
             None \<Rightarrow> Inl BadChangeOperation
           | Some oper \<Rightarrow>
               if joined_keys ps \<noteq> ''createdAt,goal,kind,operation,roundsStarted,updatedAt,version''
               then Inl BadSnapshotKeys
               else
                 bind_res (non_negative_integer ''createdAt'' (map_of ps ''createdAt'')) (\<lambda>created.
                 bind_res (non_negative_integer ''updatedAt'' (map_of ps ''updatedAt'')) (\<lambda>updated.
                 if updated < created then Inl UpdatedBeforeCreated
                 else
                   bind_res (decode_snapshot (map_of ps ''goal'')) (\<lambda>g.
                   bind_res (non_negative_integer ''roundsStarted'' (map_of ps ''roundsStarted'')) (\<lambda>n.
                   Inr (Some (ChangeSnapshot \<lparr> sc_operation = oper, sc_goal = g, sc_rounds = n,
                     sc_created_at = created, sc_updated_at = updated \<rparr>)))))))
     | _ \<Rightarrow> Inr None)"

section \<open>The replay fold\<close>

record folded_goal =
  gf_goal :: "goal_snapshot option"
  gf_rounds :: int
  gf_created_at :: "int option"
  gf_updated_at :: "int option"
  gf_last_ref :: "goal_ref option"

record goal_fold_state = folded_goal +
  gf_seen :: "string set"

definition empty_goal_fold :: goal_fold_state where
  "empty_goal_fold = \<lparr> gf_goal = None, gf_rounds = 0, gf_created_at = None, gf_updated_at = None,
     gf_last_ref = None, gf_seen = {} \<rparr>"

definition goal_source :: "message_source \<Rightarrow> goal_replay_error + (string \<times> int \<times> int) option" where
  "goal_source src = (case src of
       SrcGoal i r n \<Rightarrow>
         if i = [] \<or> \<not> safe_num r \<or> r < 1 \<or> \<not> safe_num n \<or> n < 1 then Inl BadGoalSource
         else Inr (Some (i, \<lfloor>r\<rfloor>, \<lfloor>n\<rfloor>))
     | _ \<Rightarrow> Inr None)"

definition require_same_definition ::
  "goal_snapshot \<Rightarrow> goal_snapshot \<Rightarrow> goal_operation \<Rightarrow> goal_replay_error + unit" where
  "require_same_definition current new oper =
     guard_res (gs_objective new = gs_objective current \<and> gs_max_rounds new = gs_max_rounds current)
       (DefinitionChanged oper)"

definition require_next_revision ::
  "goal_snapshot \<Rightarrow> goal_ref \<Rightarrow> goal_operation \<Rightarrow> goal_replay_error + unit" where
  "require_next_revision current new oper =
     guard_res (gr_id new = gr_id current \<and> gr_revision new = gr_revision current + 1) (RevisionSkipped oper)"

definition validate_operation ::
  "int \<Rightarrow> goal_operation \<Rightarrow> goal_snapshot \<Rightarrow> goal_snapshot \<Rightarrow> goal_replay_error + unit" where
  "validate_operation rounds oper new current =
     (let same = require_same_definition current new oper;
          rule = (\<lambda>ok. bind_res same (\<lambda>_. guard_res ok (BadPhaseTransition oper)))
      in case oper of
        OpEdit \<Rightarrow> guard_res (gs_phase new = gs_phase current \<and> gs_reason new = gs_reason current) EditChangesPhase
      | OpPause \<Rightarrow> rule (gs_phase current = GoalActive \<and> gs_phase new = GoalPaused)
      | OpResume \<Rightarrow> rule (gs_phase current \<in> {GoalActive, GoalPaused, GoalBlocked} \<and> gs_phase new = GoalActive
          \<and> rounds < gs_max_rounds new)
      | OpComplete \<Rightarrow> rule (gs_phase current \<noteq> GoalComplete \<and> gs_phase new = GoalComplete)
      | OpBlock \<Rightarrow> rule (gs_phase current = GoalActive \<and> gs_phase new = GoalBlocked)
      | _ \<Rightarrow> Inl UnknownGoalOperation)"

definition validate_snapshot_transition ::
  "goal_fold_state \<Rightarrow> snapshot_change \<Rightarrow> goal_snapshot \<Rightarrow> goal_replay_error + unit" where
  "validate_snapshot_transition st c current =
     bind_res (require_next_revision current (goal_ref.truncate (sc_goal c)) (sc_operation c)) (\<lambda>_.
     case gf_updated_at st of
       None \<Rightarrow> Inl GoalLacksUpdatedAt
     | Some updated \<Rightarrow>
         if Some (sc_created_at c) \<noteq> gf_created_at st \<or> sc_updated_at c < updated \<or> sc_rounds c \<noteq> gf_rounds st
         then Inl (CountersChanged (sc_operation c))
         else validate_operation (gf_rounds st) (sc_operation c) (sc_goal c) current)"

definition goal_change_ref :: "goal_change \<Rightarrow> goal_ref" where
  "goal_change_ref c = (case c of ChangeClear r _ \<Rightarrow> r | ChangeSnapshot s \<Rightarrow> goal_ref.truncate (sc_goal s))"

definition goal_change_operation :: "goal_change \<Rightarrow> goal_operation" where
  "goal_change_operation c = (case c of ChangeClear _ _ \<Rightarrow> OpClear | ChangeSnapshot s \<Rightarrow> sc_operation s)"

definition install_snapshot :: "goal_fold_state \<Rightarrow> snapshot_change \<Rightarrow> goal_fold_state" where
  "install_snapshot st c = st\<lparr> gf_goal := Some (sc_goal c), gf_rounds := sc_rounds c,
     gf_created_at := Some (sc_created_at c), gf_updated_at := Some (sc_updated_at c),
     gf_last_ref := Some (goal_change_ref (ChangeSnapshot c)) \<rparr>"

definition apply_goal_change :: "goal_fold_state \<Rightarrow> goal_change \<Rightarrow> goal_replay_error + goal_fold_state" where
  "apply_goal_change st change = (case change of
       ChangeClear r t \<Rightarrow>
         (case gf_goal st of
            None \<Rightarrow> Inl (NoCurrentGoal OpClear)
          | Some current \<Rightarrow>
              bind_res (require_next_revision current r OpClear) (\<lambda>_.
              case gf_updated_at st of
                None \<Rightarrow> Inl GoalLacksUpdatedAt
              | Some updated \<Rightarrow>
                  if t < updated then Inl ClearBeforeUpdate
                  else Inr (st\<lparr> gf_goal := None, gf_rounds := 0, gf_created_at := None,
                    gf_updated_at := None, gf_last_ref := Some r \<rparr>)))
     | ChangeSnapshot c \<Rightarrow>
         if sc_operation c = OpCreate then
           (if gr_revision (sc_goal c) \<noteq> 1 \<or> gs_phase (sc_goal c) \<noteq> GoalActive \<or> sc_rounds c \<noteq> 0
              \<or> (case gf_goal st of None \<Rightarrow> False | Some g \<Rightarrow> gs_phase g \<noteq> GoalComplete)
              \<or> gr_id (sc_goal c) \<in> gf_seen st
            then Inl CreateNotFresh
            else Inr (install_snapshot (st\<lparr> gf_seen := insert (gr_id (sc_goal c)) (gf_seen st) \<rparr>) c))
         else (case gf_goal st of
             None \<Rightarrow> Inl (NoCurrentGoal (sc_operation c))
           | Some current \<Rightarrow>
               bind_res (validate_snapshot_transition st c current) (\<lambda>_. Inr (install_snapshot st c))))"

definition apply_goal_event :: "goal_fold_state \<Rightarrow> session_event \<Rightarrow> goal_replay_error + goal_fold_state" where
  "apply_goal_event st e = (case ev_data e of
       GoalChange j \<Rightarrow>
         bind_res (decode_goal_change j) (\<lambda>c. case c of
             None \<Rightarrow> Inl (BadChangeKind (ev_seq e))
           | Some change \<Rightarrow> apply_goal_change st change)
     | UserMessage m \<Rightarrow>
         bind_res (goal_source (message_source m)) (\<lambda>src. case src of
             None \<Rightarrow> Inr st
           | Some (i, r, n) \<Rightarrow>
               (case gf_goal st of
                  None \<Rightarrow> Inl (RoundNotAdmitted (ev_seq e))
                | Some current \<Rightarrow>
                    if gs_phase current \<noteq> GoalActive \<or> i \<noteq> gr_id current \<or> r \<noteq> gr_revision current
                       \<or> n \<noteq> gf_rounds st + 1 \<or> gs_max_rounds current < n
                    then Inl (RoundNotAdmitted (ev_seq e))
                    else Inr (st\<lparr> gf_rounds := n \<rparr>)))
     | _ \<Rightarrow> Inr st)"

definition goal_fold_from :: "goal_fold_state \<Rightarrow> session_event list \<Rightarrow> goal_replay_error + goal_fold_state" where
  "goal_fold_from = run_fold apply_goal_event"

definition fold_goal :: "session_event list \<Rightarrow> goal_replay_error + folded_goal" where
  "fold_goal evs = bind_res (goal_fold_from empty_goal_fold evs) (\<lambda>st. Inr (folded_goal.truncate st))"

section \<open>The projection\<close>

record goal_projection =
  gp_goal :: goal_snapshot
  gp_rounds :: int
  gp_created_at :: int
  gp_updated_at :: int

definition apply_goal_projection :: "goal_projection option \<Rightarrow> session_event \<Rightarrow> goal_projection option" where
  "apply_goal_projection st e = (case ev_data e of
       GoalChange j \<Rightarrow>
         (case decode_goal_change j of
            Inr (Some (ChangeClear _ _)) \<Rightarrow> None
          | Inr (Some (ChangeSnapshot c)) \<Rightarrow>
              Some \<lparr> gp_goal = sc_goal c, gp_rounds = sc_rounds c, gp_created_at = sc_created_at c,
                     gp_updated_at = sc_updated_at c \<rparr>
          | _ \<Rightarrow> st)
     | _ \<Rightarrow> st)"

section \<open>Well-formed changes and their payloads\<close>

definition positive_safe :: "int \<Rightarrow> bool" where
  "positive_safe n \<longleftrightarrow> 1 \<le> n \<and> n \<le> max_safe"

definition non_negative_safe :: "int \<Rightarrow> bool" where
  "non_negative_safe n \<longleftrightarrow> 0 \<le> n \<and> n \<le> max_safe"

definition block_reason_ok :: "block_reason \<Rightarrow> bool" where
  "block_reason_ok r \<longleftrightarrow> lower_kebab (br_code r) \<and> normalized (br_message r)"

definition snapshot_ok :: "goal_snapshot \<Rightarrow> bool" where
  "snapshot_ok g \<longleftrightarrow> gr_id g \<noteq> [] \<and> positive_safe (gr_revision g) \<and> normalized (gs_objective g)
     \<and> positive_safe (gs_max_rounds g) \<and> (gs_phase g = GoalBlocked \<longleftrightarrow> gs_reason g \<noteq> None)
     \<and> pred_option block_reason_ok (gs_reason g)"

definition snapshot_change_ok :: "snapshot_change \<Rightarrow> bool" where
  "snapshot_change_ok c \<longleftrightarrow> sc_operation c \<noteq> OpClear \<and> snapshot_ok (sc_goal c) \<and> non_negative_safe (sc_rounds c)
     \<and> 0 \<le> sc_created_at c \<and> sc_created_at c \<le> sc_updated_at c \<and> sc_updated_at c \<le> max_safe"

definition goal_change_ok :: "goal_change \<Rightarrow> bool" where
  "goal_change_ok change = (case change of
       ChangeClear r t \<Rightarrow> gr_id r \<noteq> [] \<and> positive_safe (gr_revision r) \<and> non_negative_safe t
     | ChangeSnapshot c \<Rightarrow> snapshot_change_ok c)"

definition int_json :: "int \<Rightarrow> json" where
  "int_json n = JNum (of_int n)"

definition reason_json :: "block_reason \<Rightarrow> json" where
  "reason_json r = JObj [(''code'', JStr (br_code r)), (''message'', JStr (br_message r))]"

definition snapshot_json :: "goal_snapshot \<Rightarrow> json" where
  "snapshot_json g = JObj ([(''id'', JStr (gr_id g)), (''revision'', int_json (gr_revision g)),
       (''objective'', JStr (gs_objective g)), (''phase'', JStr (phase_name (gs_phase g))),
       (''maxGoalRounds'', int_json (gs_max_rounds g))]
     @ (case gs_reason g of None \<Rightarrow> [] | Some r \<Rightarrow> [(''blockedReason'', reason_json r)]))"

definition goal_change_json :: "goal_change \<Rightarrow> json" where
  "goal_change_json change = (case change of
       ChangeClear r t \<Rightarrow>
         JObj [(''kind'', JStr ''goal/change''), (''version'', JNum goal_change_version),
           (''operation'', JStr (operation_name OpClear)),
           (''cleared'', JObj [(''id'', JStr (gr_id r)), (''revision'', int_json (gr_revision r))]),
           (''clearedAt'', int_json t)]
     | ChangeSnapshot c \<Rightarrow>
         JObj [(''kind'', JStr ''goal/change''), (''version'', JNum goal_change_version),
           (''operation'', JStr (operation_name (sc_operation c))), (''goal'', snapshot_json (sc_goal c)),
           (''roundsStarted'', int_json (sc_rounds c)), (''createdAt'', int_json (sc_created_at c)),
           (''updatedAt'', int_json (sc_updated_at c))])"

subsection \<open>Scalars\<close>

lemma positive_integer_Inr: "positive_integer f v = Inr n \<Longrightarrow> positive_safe n \<and> v = Some (int_json n)"
  by (auto simp: positive_integer_def positive_safe_def int_json_def safe_num_def safe_int_def le_floor_iff
      split: option.splits json.splits if_splits)

lemma non_negative_integer_Inr: "non_negative_integer f v = Inr n \<Longrightarrow> non_negative_safe n \<and> v = Some (int_json n)"
  by (auto simp: non_negative_integer_def non_negative_safe_def int_json_def safe_num_def safe_int_def
      split: option.splits json.splits if_splits)

lemma positive_integer_json [simp]: "positive_safe n \<Longrightarrow> positive_integer f (Some (int_json n)) = Inr n"
  by (simp add: positive_integer_def positive_safe_def int_json_def safe_int_def max_safe_def)

lemma non_negative_integer_json [simp]: "non_negative_safe n \<Longrightarrow> non_negative_integer f (Some (int_json n)) = Inr n"
  by (simp add: non_negative_integer_def non_negative_safe_def int_json_def safe_int_def max_safe_def)

lemma phase_of_name [simp]: "phase_of (Some (JStr (phase_name p))) = Some p"
  by (cases p) (simp_all add: phase_of_def goal_phases_def phase_name_def)

lemma operation_of_name: "operation_of (Some (JStr (operation_name p))) = (if p = OpClear then None else Some p)"
  by (cases p) (simp_all add: operation_of_def snapshot_operations_def operation_name_def)

lemma operation_of_not_clear: "operation_of v = Some p \<Longrightarrow> p \<noteq> OpClear"
  by (auto simp: operation_of_def snapshot_operations_def split: option.splits json.splits if_splits)

subsection \<open>Only well-formed changes are decoded\<close>

lemma decode_block_reason_ok: "decode_block_reason v = Inr r \<Longrightarrow> block_reason_ok r"
  by (auto simp: decode_block_reason_def block_reason_ok_def split: option.splits json.splits if_splits)

lemma decode_snapshot_ok:
  assumes "decode_snapshot v = Inr g"
  shows "snapshot_ok g"
proof -
  obtain ps where v: "v = Some (JObj ps)"
    using assms by (auto simp: decode_snapshot_def split: option.splits json.splits)
  obtain p reason where p: "p = gs_phase g" "reason = gs_reason g" by simp
  have "gr_id g \<noteq> [] \<and> normalized (gs_objective g)
      \<and> positive_integer ''goal.revision'' (map_of ps ''revision'') = Inr (gr_revision g)
      \<and> positive_integer ''goal.maxGoalRounds'' (map_of ps ''maxGoalRounds'') = Inr (gs_max_rounds g)
      \<and> (if p = GoalBlocked then map_sum id Some (decode_block_reason (map_of ps ''blockedReason'')) else Inr None)
          = Inr reason"
    using assms unfolding v p by (auto simp: decode_snapshot_def split: option.splits json.splits if_split_asm)
  moreover have "pred_option block_reason_ok reason \<and> (p = GoalBlocked \<longleftrightarrow> reason \<noteq> None)"
    if "(if p = GoalBlocked then map_sum id Some (decode_block_reason w) else Inr None) = Inr reason" for w
    using that decode_block_reason_ok by (cases "decode_block_reason w") (auto split: if_split_asm)
  ultimately show ?thesis using positive_integer_Inr by (auto simp: snapshot_ok_def p)
qed

lemma decode_ref_ok: "decode_ref v = Inr r \<Longrightarrow> gr_id r \<noteq> [] \<and> positive_safe (gr_revision r)"
  by (auto simp: decode_ref_def dest: positive_integer_Inr split: option.splits json.splits if_splits)

lemma decode_goal_change_ok:
  assumes "decode_goal_change v = Inr (Some c)"
  shows "goal_change_ok c"
proof -
  obtain ps where v: "v = JObj ps" using assms by (cases v) (simp_all add: decode_goal_change_def)
  show ?thesis
  proof (cases c)
    case (ChangeClear r t)
    then have "decode_ref (map_of ps ''cleared'') = Inr r"
      "non_negative_integer ''clearedAt'' (map_of ps ''clearedAt'') = Inr t"
      using assms by (auto simp: v decode_goal_change_def split: if_splits option.splits)
    with ChangeClear show ?thesis
      using decode_ref_ok non_negative_integer_Inr by (fastforce simp: goal_change_ok_def)
  next
    case (ChangeSnapshot s)
    then have "operation_of (map_of ps ''operation'') = Some (sc_operation s)"
      "decode_snapshot (map_of ps ''goal'') = Inr (sc_goal s)"
      "non_negative_integer ''roundsStarted'' (map_of ps ''roundsStarted'') = Inr (sc_rounds s)"
      "non_negative_integer ''createdAt'' (map_of ps ''createdAt'') = Inr (sc_created_at s)"
      "non_negative_integer ''updatedAt'' (map_of ps ''updatedAt'') = Inr (sc_updated_at s)"
      "sc_created_at s \<le> sc_updated_at s"
      using assms by (auto simp: v decode_goal_change_def split: if_splits option.splits)
    then show ?thesis
      using operation_of_not_clear decode_snapshot_ok non_negative_integer_Inr
      by (fastforce simp: ChangeSnapshot goal_change_ok_def snapshot_change_ok_def non_negative_safe_def)
  qed
qed

subsection \<open>A well-formed change is read back\<close>

lemma joined_keys_payload:
  "joined_keys [(''code'', a), (''message'', b)] = ''code,message''"
  "joined_keys [(''id'', a), (''revision'', b)] = ''id,revision''"
  "joined_keys [(''id'', a), (''revision'', b), (''objective'', c), (''phase'', d), (''maxGoalRounds'', e)]
     = ''id,maxGoalRounds,objective,phase,revision''"
  "joined_keys [(''id'', a), (''revision'', b), (''objective'', c), (''phase'', d), (''maxGoalRounds'', e),
     (''blockedReason'', f)] = ''blockedReason,id,maxGoalRounds,objective,phase,revision''"
  "joined_keys [(''kind'', a), (''version'', b), (''operation'', c), (''cleared'', d), (''clearedAt'', e)]
     = ''cleared,clearedAt,kind,operation,version''"
  "joined_keys [(''kind'', a), (''version'', b), (''operation'', c), (''goal'', d), (''roundsStarted'', e),
     (''createdAt'', f), (''updatedAt'', g)] = ''createdAt,goal,kind,operation,roundsStarted,updatedAt,version''"
  by (simp_all add: joined_keys_def less_eq_char_def less_char_def)

lemma decode_block_reason_json: "block_reason_ok r \<Longrightarrow> decode_block_reason (Some (reason_json r)) = Inr r"
  by (simp add: decode_block_reason_def reason_json_def block_reason_ok_def joined_keys_payload)

lemma decode_snapshot_json: "snapshot_ok g \<Longrightarrow> decode_snapshot (Some (snapshot_json g)) = Inr g"
  by (cases "gs_reason g")
    (simp_all add: decode_snapshot_def snapshot_json_def snapshot_ok_def joined_keys_payload snapshot_keys_def
      decode_block_reason_json)

lemma decode_goal_change_json:
  assumes "goal_change_ok c"
  shows "decode_goal_change (goal_change_json c) = Inr (Some c)"
proof (cases c)
  case (ChangeClear r t)
  with assms show ?thesis
    by (simp add: decode_goal_change_def goal_change_json_def goal_change_ok_def joined_keys_payload decode_ref_def
        operation_name_def)
next
  case (ChangeSnapshot s)
  with assms have ok: "snapshot_change_ok s" by (simp add: goal_change_ok_def)
  then have times: "non_negative_safe (sc_created_at s)" "non_negative_safe (sc_updated_at s)"
    by (simp_all add: snapshot_change_ok_def non_negative_safe_def)
  have name: "operation_name (sc_operation s) \<noteq> ''clear''"
    using ok by (cases "sc_operation s") (simp_all add: operation_name_def snapshot_change_ok_def)
  show ?thesis
    using ok times name
    by (simp add: ChangeSnapshot decode_goal_change_def goal_change_json_def snapshot_change_ok_def joined_keys_payload
        operation_of_name decode_snapshot_json)
qed

text \<open>
  C34: a \<^verbatim>\<open>goal/change\<close> payload is read back as the change it was written for exactly when that change is
  well formed, and whatever payload the strict decoder accepts, from whatever writer, is well formed: an id,
  a positive safe revision and round cap, a trimmed objective, a blocked reason exactly in the blocked phase,
  ordered times.
\<close>

theorem goal_change_round_trip:
  "(decode_goal_change (goal_change_json c) = Inr (Some c) \<longleftrightarrow> goal_change_ok c)
   \<and> (decode_goal_change j = Inr (Some d) \<longrightarrow> goal_change_ok d)"
  using decode_goal_change_json decode_goal_change_ok by blast

end
