(* ===== verification/Goal_History.thy ===== *)
theory Goal_History
  imports Goal_Fold
begin

text \<open>
  What an accepted log says of its goals: for every goal id the revisions written are 1, 2, 3, \<dots> and so are the
  rounds admitted, a retired id never comes back, and the lenient projection shows the goal the strict replay
  ends with. The elimination rule \<open>apply_goal_eventE\<close> lists the five kinds of accepted event.
\<close>

section \<open>The goal events of a log\<close>

definition change_of :: "session_event \<Rightarrow> goal_change option" where
  "change_of e = (case ev_data e of
       GoalChange j \<Rightarrow> (case decode_goal_change j of Inr c \<Rightarrow> c | Inl _ \<Rightarrow> None) | _ \<Rightarrow> None)"

definition round_of :: "session_event \<Rightarrow> (string \<times> int \<times> int) option" where
  "round_of e = (case ev_data e of
       UserMessage m \<Rightarrow> (case goal_source (message_source m) of Inr r \<Rightarrow> r | Inl _ \<Rightarrow> None) | _ \<Rightarrow> None)"

definition log_refs :: "session_event list \<Rightarrow> goal_ref list" where
  "log_refs evs = map goal_change_ref (List.map_filter change_of evs)"

definition revisions_of :: "string \<Rightarrow> session_event list \<Rightarrow> int list" where
  "revisions_of i evs = map gr_revision (filter (\<lambda>r. gr_id r = i) (log_refs evs))"

definition rounds_of :: "string \<Rightarrow> session_event list \<Rightarrow> int list" where
  "rounds_of i evs = map (snd \<circ> snd) (filter (\<lambda>r. fst r = i) (List.map_filter round_of evs))"

definition rounds_since_change :: "session_event list \<Rightarrow> nat" where
  "rounds_since_change evs = length (List.map_filter round_of (takeWhile (\<lambda>e. change_of e = None) (rev evs)))"

lemma revisions_of_Nil [simp]: "revisions_of i [] = []"
  by (simp add: revisions_of_def log_refs_def)

lemma rounds_of_Nil [simp]: "rounds_of i [] = []"
  by (simp add: rounds_of_def)

lemma rounds_since_change_Nil [simp]: "rounds_since_change [] = 0"
  by (simp add: rounds_since_change_def)

lemma revisions_of_snoc: "revisions_of i (evs @ [e]) = revisions_of i evs @ (case change_of e of
     Some c \<Rightarrow> if gr_id (goal_change_ref c) = i then [gr_revision (goal_change_ref c)] else [] | None \<Rightarrow> [])"
  by (simp add: revisions_of_def log_refs_def map_filter_snoc split: option.split)

lemma rounds_of_snoc: "rounds_of i (evs @ [e]) = rounds_of i evs @ (case round_of e of
     Some (j, _, n) \<Rightarrow> if j = i then [n] else [] | None \<Rightarrow> [])"
  by (simp add: rounds_of_def map_filter_snoc split: option.split)

lemma rounds_since_change_snoc: "rounds_since_change (evs @ [e]) =
     (if change_of e \<noteq> None then 0 else rounds_since_change evs + (if round_of e = None then 0 else 1))"
  by (simp add: rounds_since_change_def split: option.split)

lemma int_upto_snoc: "0 \<le> (n::int) \<Longrightarrow> [1..n + 1] = [1..n] @ [n + 1]"
  by (subst upto_rec2) simp_all

section \<open>The accepted events\<close>

lemma goal_source_Inr:
  "goal_source src = Inr (Some (i, r, n)) \<Longrightarrow> i \<noteq> [] \<and> positive_safe r \<and> positive_safe n
     \<and> src = SrcGoal i (of_int r) (of_int n)"
  by (auto simp: goal_source_def positive_safe_def safe_num_def safe_int_def le_floor_iff
      split: message_source.splits if_splits)

lemma round_of_safe: "round_of e = Some (i, r, n) \<Longrightarrow> positive_safe n"
  by (auto simp: round_of_def dest: goal_source_Inr split: event_data.splits sum.splits)

lemma apply_goal_eventE [consumes 1, case_names other round create update clear]:
  assumes "apply_goal_event st e = Inr st'"
  obtains
    "change_of e = None" "round_of e = None" "st' = st"
  | g where "change_of e = None" "round_of e = Some (gr_id g, gr_revision g, gf_rounds st + 1)"
      "gf_goal st = Some g" "gs_phase g = GoalActive" "gf_rounds st + 1 \<le> gs_max_rounds g"
      "st' = st\<lparr> gf_rounds := gf_rounds st + 1 \<rparr>"
  | c where "change_of e = Some (ChangeSnapshot c)" "round_of e = None" "snapshot_change_ok c"
      "sc_operation c = OpCreate" "gr_revision (sc_goal c) = 1" "gs_phase (sc_goal c) = GoalActive"
      "sc_rounds c = 0" "\<forall>g. gf_goal st = Some g \<longrightarrow> gs_phase g = GoalComplete" "gr_id (sc_goal c) \<notin> gf_seen st"
      "st' = install_snapshot (st\<lparr> gf_seen := insert (gr_id (sc_goal c)) (gf_seen st) \<rparr>) c"
  | c g where "change_of e = Some (ChangeSnapshot c)" "round_of e = None" "snapshot_change_ok c"
      "sc_operation c \<noteq> OpCreate" "gf_goal st = Some g" "validate_snapshot_transition st c g = Inr ()"
      "st' = install_snapshot st c"
  | r t g u where "change_of e = Some (ChangeClear r t)" "round_of e = None" "goal_change_ok (ChangeClear r t)"
      "gf_goal st = Some g" "gr_id r = gr_id g" "gr_revision r = gr_revision g + 1" "gf_updated_at st = Some u" "u \<le> t"
      "st' = st\<lparr> gf_goal := None, gf_rounds := 0, gf_created_at := None, gf_updated_at := None,
         gf_last_ref := Some r \<rparr>"
proof (cases "ev_data e")
  case (UserMessage m)
  then obtain src where src: "goal_source (message_source m) = Inr src"
    using assms by (auto simp: apply_goal_event_def)
  show thesis
  proof (cases src)
    case None
    with UserMessage src assms that(1) show thesis
      by (simp add: apply_goal_event_def change_of_def round_of_def)
  next
    case (Some r)
    with UserMessage src assms that(2) show thesis
      by (auto simp: apply_goal_event_def change_of_def round_of_def split: prod.splits option.splits if_splits)
  qed
next
  case (GoalChange j)
  then obtain change where dec: "decode_goal_change j = Inr (Some change)"
    and ap: "apply_goal_change st change = Inr st'"
    using assms by (auto simp: apply_goal_event_def split: option.splits)
  from GoalChange dec have ch: "change_of e = Some change" and ro: "round_of e = None"
    by (simp_all add: change_of_def round_of_def)
  note ok = decode_goal_change_ok [OF dec]
  show thesis
  proof (cases change)
    case (ChangeClear r t)
    with ap ch ro ok that(5) show thesis
      by (auto simp: apply_goal_change_def require_next_revision_def split: option.splits if_splits)
  next
    case (ChangeSnapshot c)
    with ok have "snapshot_change_ok c" by (simp add: goal_change_ok_def)
    with ChangeSnapshot ap ch ro that(3,4) show thesis
      by (cases "sc_operation c = OpCreate") (auto simp: apply_goal_change_def split: option.splits if_splits)
  qed
qed (use assms that(1) in \<open>simp_all add: apply_goal_event_def change_of_def round_of_def\<close>)

lemma validate_snapshot_transition_Inr:
  assumes "validate_snapshot_transition st c g = Inr ()"
  obtains u where "gr_id (sc_goal c) = gr_id g" and "gr_revision (sc_goal c) = gr_revision g + 1"
    and "gf_updated_at st = Some u" and "u \<le> sc_updated_at c" and "gf_created_at st = Some (sc_created_at c)"
    and "sc_rounds c = gf_rounds st" and "validate_operation (gf_rounds st) (sc_operation c) (sc_goal c) g = Inr ()"
  using assms
  by (auto simp: validate_snapshot_transition_def require_next_revision_def goal_ref.truncate_def
      split: option.splits if_splits)

section \<open>The invariant of the replay\<close>

definition current_goal_ok :: "session_event list \<Rightarrow> goal_fold_state \<Rightarrow> goal_snapshot \<Rightarrow> bool" where
  "current_goal_ok evs st g \<longleftrightarrow> snapshot_ok g \<and> gr_id g \<in> gf_seen st \<and> non_negative_safe (gf_rounds st)
     \<and> gf_last_ref st = Some (goal_ref.truncate g)
     \<and> (\<exists>c u. gf_created_at st = Some c \<and> gf_updated_at st = Some u \<and> 0 \<le> c \<and> c \<le> u \<and> u \<le> max_safe)
     \<and> revisions_of (gr_id g) evs = [1..gr_revision g] \<and> rounds_of (gr_id g) evs = [1..gf_rounds st]"

definition goal_inv :: "session_event list \<Rightarrow> goal_fold_state \<Rightarrow> bool" where
  "goal_inv evs st \<longleftrightarrow>
     (case gf_goal st of
        None \<Rightarrow> gf_rounds st = 0 \<and> gf_created_at st = None \<and> gf_updated_at st = None
      | Some g \<Rightarrow> current_goal_ok evs st g)
     \<and> (\<forall>i. i \<notin> gf_seen st \<longrightarrow> revisions_of i evs = [] \<and> rounds_of i evs = [])
     \<and> (\<forall>i. \<exists>k. revisions_of i evs = [1..k]) \<and> (\<forall>i. \<exists>n. rounds_of i evs = [1..n])"

lemma goal_inv_current: "goal_inv evs st \<Longrightarrow> gf_goal st = Some g \<Longrightarrow> current_goal_ok evs st g"
  by (simp add: goal_inv_def)

lemma goal_inv_step:
  assumes inv: "goal_inv evs st" and step: "apply_goal_event st e = Inr st'"
  shows "goal_inv (evs @ [e]) st'"
  using step
proof (cases rule: apply_goal_eventE)
  case other
  with inv show ?thesis
    by (simp add: goal_inv_def current_goal_ok_def revisions_of_snoc rounds_of_snoc split: option.split_asm)
next
  case (round g)
  from goal_inv_current [OF inv round(3)]
  have g: "rounds_of (gr_id g) evs = [1..gf_rounds st]" "0 \<le> gf_rounds st" "gr_id g \<in> gf_seen st"
    by (simp_all add: current_goal_ok_def non_negative_safe_def)
  have safe: "non_negative_safe (gf_rounds st + 1)"
    using round_of_safe [OF round(2)] by (simp add: positive_safe_def non_negative_safe_def)
  have rounds: "rounds_of i (evs @ [e]) = (if i = gr_id g then [1..gf_rounds st + 1] else rounds_of i evs)" for i
    using g round(2) by (simp add: rounds_of_snoc int_upto_snoc)
  have revs: "revisions_of i (evs @ [e]) = revisions_of i evs" for i
    using round(1) by (simp add: revisions_of_snoc)
  show ?thesis
    using inv round g(2,3) safe unfolding goal_inv_def rounds revs
    by (auto simp: current_goal_ok_def rounds revs)
next
  case (create c)
  let ?i = "gr_id (sc_goal c)"
  have none: "revisions_of ?i evs = []" "rounds_of ?i evs = []" using inv create(9) by (simp_all add: goal_inv_def)
  have revs: "revisions_of i (evs @ [e]) = (if i = ?i then [1] else revisions_of i evs)" for i
    using none create(1,5) by (simp add: revisions_of_snoc goal_change_ref_def goal_ref.truncate_def)
  have rounds: "rounds_of i (evs @ [e]) = rounds_of i evs" for i using create(2) by (simp add: rounds_of_snoc)
  have one: "\<exists>k. [1] = [1..k]" by (rule exI [of _ 1]) simp
  show ?thesis
    using inv create none one unfolding goal_inv_def rounds revs
    by (auto simp: current_goal_ok_def rounds revs install_snapshot_def goal_change_ref_def snapshot_change_ok_def)
next
  case (update c g)
  from update(6) obtain u where v: "gr_id (sc_goal c) = gr_id g" "gr_revision (sc_goal c) = gr_revision g + 1"
    "gf_updated_at st = Some u" "u \<le> sc_updated_at c" "gf_created_at st = Some (sc_created_at c)"
    "sc_rounds c = gf_rounds st" by (rule validate_snapshot_transition_Inr)
  from goal_inv_current [OF inv update(5)]
  have g: "revisions_of (gr_id g) evs = [1..gr_revision g]" "1 \<le> gr_revision g" "gr_id g \<in> gf_seen st"
    by (simp_all add: current_goal_ok_def snapshot_ok_def positive_safe_def)
  have revs: "revisions_of i (evs @ [e]) = (if i = gr_id g then [1..gr_revision g + 1] else revisions_of i evs)" for i
    using g update(1) v by (simp add: revisions_of_snoc goal_change_ref_def goal_ref.truncate_def int_upto_snoc)
  have rounds: "rounds_of i (evs @ [e]) = rounds_of i evs" for i using update(2) by (simp add: rounds_of_snoc)
  show ?thesis
    using inv update v g unfolding goal_inv_def rounds revs
    by (auto simp: current_goal_ok_def rounds revs install_snapshot_def goal_change_ref_def snapshot_change_ok_def)
next
  case (clear r t g u)
  from goal_inv_current [OF inv clear(4)]
  have g: "revisions_of (gr_id g) evs = [1..gr_revision g]" "1 \<le> gr_revision g" "gr_id g \<in> gf_seen st"
    by (simp_all add: current_goal_ok_def snapshot_ok_def positive_safe_def)
  have revs: "revisions_of i (evs @ [e]) = (if i = gr_id g then [1..gr_revision g + 1] else revisions_of i evs)" for i
    using g clear(1,5,6) by (simp add: revisions_of_snoc goal_change_ref_def int_upto_snoc)
  have rounds: "rounds_of i (evs @ [e]) = rounds_of i evs" for i using clear(2) by (simp add: rounds_of_snoc)
  show ?thesis using inv clear g unfolding goal_inv_def rounds revs by auto
qed

lemma goal_inv_empty: "goal_inv [] empty_goal_fold"
  by (auto simp: goal_inv_def empty_goal_fold_def intro: exI [of _ 0])

interpretation goal_replay: fold_invariant apply_goal_event empty_goal_fold goal_inv
  by unfold_locales (rule goal_inv_empty, rule goal_inv_step)

lemma goal_fold_inv: "goal_fold_from empty_goal_fold evs = Inr st \<Longrightarrow> goal_inv evs st"
  unfolding goal_fold_from_def by (rule goal_replay.run_inv)

section \<open>One linear history per goal\<close>

lemma distinct_by_key:
  assumes "\<And>k. distinct (map g (filter (\<lambda>x. f x = k) xs))" and "\<And>x y. f x = f y \<Longrightarrow> g x = g y \<Longrightarrow> x = y"
  shows "distinct xs"
  using assms(1)
proof (induction xs)
  case Nil
  then show ?case by simp
next
  case (Cons x xs)
  have "distinct (map g (filter (\<lambda>y. f y = k) xs))" for k
    using Cons.prems [of k] by (simp split: if_splits)
  moreover have "x \<notin> set xs" using Cons.prems [of "f x"] by force
  ultimately show ?case using Cons.IH by simp
qed

lemma goal_inv_distinct_refs: "goal_inv evs st \<Longrightarrow> distinct (log_refs evs)"
proof (rule distinct_by_key [where f = gr_id and g = gr_revision])
  fix k
  assume "goal_inv evs st"
  then obtain n where "revisions_of k evs = [1..n]" unfolding goal_inv_def by metis
  then show "distinct (map gr_revision (filter (\<lambda>r. gr_id r = k) (log_refs evs)))"
    by (simp add: revisions_of_def [symmetric])
qed simp

text \<open>A log with a created goal, two rounds, an edit, a third round and the completion.\<close>

definition sample_goal :: goal_snapshot where
  "sample_goal = \<lparr> gr_id = ''goal-1'', gr_revision = 1, gs_objective = ''ship'', gs_phase = GoalActive,
     gs_reason = None, gs_max_rounds = 5 \<rparr>"

definition sample_create :: snapshot_change where
  "sample_create = \<lparr> sc_operation = OpCreate, sc_goal = sample_goal, sc_rounds = 0,
     sc_created_at = 10, sc_updated_at = 10 \<rparr>"

definition sample_edit :: snapshot_change where
  "sample_edit = \<lparr> sc_operation = OpEdit, sc_goal = sample_goal\<lparr> gr_revision := 2, gs_max_rounds := 3 \<rparr>,
     sc_rounds = 2, sc_created_at = 10, sc_updated_at = 12 \<rparr>"

definition sample_complete :: snapshot_change where
  "sample_complete = \<lparr> sc_operation = OpComplete,
     sc_goal = sample_goal\<lparr> gr_revision := 3, gs_max_rounds := 3, gs_phase := GoalComplete \<rparr>,
     sc_rounds = 3, sc_created_at = 10, sc_updated_at = 14 \<rparr>"

definition sample_round :: "rat \<Rightarrow> rat \<Rightarrow> event_data" where
  "sample_round r n = UserMessage (create_user_message ''m'' [] (SrcGoal ''goal-1'' r n))"

definition sample_goal_log :: "session_event list" where
  "sample_goal_log =
     [make_event 0 10 (GoalChange (goal_change_json (ChangeSnapshot sample_create))) None None False,
      make_event 1 11 (sample_round 1 1) (Some op_append) None False,
      make_event 2 11 (sample_round 1 2) (Some op_append) None False,
      make_event 3 12 (GoalChange (goal_change_json (ChangeSnapshot sample_edit))) None None False,
      make_event 4 13 (sample_round 2 3) (Some op_append) None False]"

definition sample_goal_state :: goal_fold_state where
  "sample_goal_state = \<lparr> gf_goal = Some (sc_goal sample_edit), gf_rounds = 3, gf_created_at = Some 10,
     gf_updated_at = Some 12, gf_last_ref = Some \<lparr> gr_id = ''goal-1'', gr_revision = 2 \<rparr>, gf_seen = {''goal-1''} \<rparr>"

lemma sample_changes_ok:
  "goal_change_ok (ChangeSnapshot sample_create)" "goal_change_ok (ChangeSnapshot sample_edit)"
  "goal_change_ok (ChangeSnapshot sample_complete)"
  by (simp_all add: goal_change_ok_def snapshot_change_ok_def snapshot_ok_def positive_safe_def non_negative_safe_def
      max_safe_def normalized_def js_trim_def js_space_def sample_create_def sample_edit_def sample_complete_def
      sample_goal_def)

lemma apply_goal_event_change:
  "goal_change_ok c \<Longrightarrow> apply_goal_event st (make_event n t (GoalChange (goal_change_json c)) op srcs ign) = apply_goal_change st c"
  by (simp add: apply_goal_event_def make_event_def decode_goal_change_json)

lemma apply_sample_create: "apply_goal_change empty_goal_fold (ChangeSnapshot sample_create)
    = Inr (install_snapshot (empty_goal_fold\<lparr> gf_seen := {''goal-1''} \<rparr>) sample_create)"
  by (simp add: sample_create_def sample_goal_def apply_goal_change_def empty_goal_fold_def)

lemma apply_sample_edit: "gf_goal st = Some sample_goal \<Longrightarrow> gf_rounds st = 2 \<Longrightarrow> gf_created_at st = Some 10 \<Longrightarrow>
    gf_updated_at st = Some 10 \<Longrightarrow> apply_goal_change st (ChangeSnapshot sample_edit) = Inr (install_snapshot st sample_edit)"
  by (simp add: sample_edit_def sample_goal_def apply_goal_change_def validate_snapshot_transition_def
      require_next_revision_def validate_operation_def goal_ref.truncate_def)

lemma apply_sample_round:
  assumes "gf_goal st = Some g" and "gs_phase g = GoalActive" and "gr_id g = ''goal-1''" and "gr_revision g = r"
    and "gf_rounds st + 1 = k" and "k \<le> gs_max_rounds g" and "positive_safe r" and "positive_safe k"
  shows "apply_goal_event st (make_event n t (sample_round (of_int r) (of_int k)) op srcs ign) = Inr (st\<lparr> gf_rounds := k \<rparr>)"
proof -
  have "goal_source (SrcGoal ''goal-1'' (of_int r) (of_int k)) = Inr (Some (''goal-1'', r, k))"
    using assms(7,8) by (simp add: goal_source_def positive_safe_def safe_int_def max_safe_def)
  with assms show ?thesis
    by (simp add: apply_goal_event_def make_event_def sample_round_def create_user_message_def)
qed

lemma sample_fields:
  "sc_goal sample_create = sample_goal" "sc_rounds sample_create = 0" "sc_created_at sample_create = 10"
  "sc_updated_at sample_create = 10" "sc_rounds sample_edit = 2" "sc_created_at sample_edit = 10"
  "sc_updated_at sample_edit = 12" "gs_phase sample_goal = GoalActive" "gr_id sample_goal = ''goal-1''"
  "gr_revision sample_goal = 1" "gs_max_rounds sample_goal = 5" "gs_phase (sc_goal sample_edit) = GoalActive"
  "gr_id (sc_goal sample_edit) = ''goal-1''" "gr_revision (sc_goal sample_edit) = 2" "gs_max_rounds (sc_goal sample_edit) = 3"
  by (simp_all add: sample_create_def sample_edit_def sample_goal_def)

lemma sample_goal_replay: "goal_fold_from empty_goal_fold sample_goal_log = Inr sample_goal_state"
proof -
  have round: "apply_goal_event st (make_event n t (sample_round 1 1) op srcs ign) = Inr (st\<lparr> gf_rounds := 1 \<rparr>)"
    "apply_goal_event st' (make_event n t (sample_round 1 2) op srcs ign) = Inr (st'\<lparr> gf_rounds := 2 \<rparr>)"
    "apply_goal_event st'' (make_event n t (sample_round 2 3) op srcs ign) = Inr (st''\<lparr> gf_rounds := 3 \<rparr>)"
    if "gf_goal st = Some sample_goal" "gf_rounds st = 0" "gf_goal st' = Some sample_goal" "gf_rounds st' = 1"
      "gf_goal st'' = Some (sc_goal sample_edit)" "gf_rounds st'' = 2" for st st' st'' n t op srcs ign
    using that apply_sample_round [of st _ 1 1] apply_sample_round [of st' _ 1 2] apply_sample_round [of st'' _ 2 3]
    by (simp_all add: sample_fields positive_safe_def max_safe_def)
  define s1 where "s1 = install_snapshot (empty_goal_fold\<lparr> gf_seen := {''goal-1''} \<rparr>) sample_create"
  define s2 where "s2 = install_snapshot (s1\<lparr> gf_rounds := 2 \<rparr>) sample_edit"
  have s1: "gf_goal s1 = Some sample_goal" "gf_rounds s1 = 0" "gf_created_at s1 = Some 10" "gf_updated_at s1 = Some 10"
    by (simp_all add: s1_def install_snapshot_def sample_fields)
  have s2: "gf_goal s2 = Some (sc_goal sample_edit)" "gf_rounds s2 = 2"
    by (simp_all add: s2_def install_snapshot_def sample_fields)
  have "apply_goal_change (s1\<lparr> gf_rounds := 2 \<rparr>) (ChangeSnapshot sample_edit) = Inr s2"
    unfolding s2_def by (rule apply_sample_edit) (simp_all add: s1)
  with round(1) [of s1 "s1\<lparr> gf_rounds := 1 \<rparr>" s2] round(2) [of s1 "s1\<lparr> gf_rounds := 1 \<rparr>" s2]
    round(3) [of s1 "s1\<lparr> gf_rounds := 1 \<rparr>" s2] apply_sample_create
  have "goal_fold_from empty_goal_fold sample_goal_log = Inr (s2\<lparr> gf_rounds := 3 \<rparr>)"
    by (simp add: goal_fold_from_def sample_goal_log_def apply_goal_event_change sample_changes_ok s1 s2 s1_def [symmetric])
  then show ?thesis
    by (simp add: s2_def s1_def install_snapshot_def sample_goal_state_def empty_goal_fold_def goal_change_ref_def
        goal_ref.truncate_def sample_fields)
qed

text \<open>
  C35: in every log the strict replay accepts, the revisions written for each goal id are exactly 1, 2, 3, \<dots> in
  this order and so are the rounds admitted for it; the current goal stands at the last revision and the last
  round of its id. No (id, revision) pair is written twice, so a compare-and-set ref names one state for ever.
\<close>

theorem goal_history_linear:
  assumes "goal_fold_from empty_goal_fold evs = Inr st"
  shows "(\<exists>k n. revisions_of i evs = [1..k] \<and> rounds_of i evs = [1..n]
      \<and> (\<forall>g. gf_goal st = Some g \<longrightarrow> gr_id g = i \<longrightarrow> k = gr_revision g \<and> n = gf_rounds st))
    \<and> distinct (log_refs evs)"
proof -
  note inv = goal_fold_inv [OF assms]
  have "\<exists>k n. revisions_of i evs = [1..k] \<and> rounds_of i evs = [1..n]
      \<and> (\<forall>g. gf_goal st = Some g \<longrightarrow> gr_id g = i \<longrightarrow> k = gr_revision g \<and> n = gf_rounds st)"
  proof (cases "\<exists>g. gf_goal st = Some g \<and> gr_id g = i")
    case True
    with goal_inv_current [OF inv] show ?thesis by (auto simp: current_goal_ok_def)
  next
    case False
    with inv show ?thesis unfolding goal_inv_def by metis
  qed
  with goal_inv_distinct_refs [OF inv] show ?thesis by simp
qed

theorem goal_history_linear_witness:
  "\<exists>k n. revisions_of ''goal-1'' sample_goal_log = [1..k] \<and> rounds_of ''goal-1'' sample_goal_log = [1..n]
     \<and> k = 2 \<and> n = 3"
  using goal_history_linear [OF sample_goal_replay, of "''goal-1''"]
  by (auto simp: sample_goal_state_def sample_edit_def sample_goal_def)

theorem goal_change_round_trip_witness:
  "decode_goal_change (goal_change_json (ChangeSnapshot sample_edit)) = Inr (Some (ChangeSnapshot sample_edit))
   \<and> goal_change_ok (ChangeSnapshot sample_edit)"
  using goal_change_round_trip [of "ChangeSnapshot sample_edit" "goal_change_json (ChangeSnapshot sample_edit)"
      "ChangeSnapshot sample_edit"] sample_changes_ok(2) by blast

section \<open>The projection\<close>

definition projected_goal :: "session_event list \<Rightarrow> goal_projection option" where
  "projected_goal = foldl apply_goal_projection None"

definition projection_of :: "goal_fold_state \<Rightarrow> nat \<Rightarrow> goal_projection option" where
  "projection_of st unseen = (case (gf_goal st, gf_created_at st, gf_updated_at st) of
       (Some g, Some c, Some u) \<Rightarrow>
         Some \<lparr> gp_goal = g, gp_rounds = gf_rounds st - int unseen, gp_created_at = c, gp_updated_at = u \<rparr>
     | _ \<Rightarrow> None)"

lemma apply_goal_projection_change: "apply_goal_projection p e = (case change_of e of
     None \<Rightarrow> p
   | Some (ChangeClear _ _) \<Rightarrow> None
   | Some (ChangeSnapshot c) \<Rightarrow> Some \<lparr> gp_goal = sc_goal c, gp_rounds = sc_rounds c,
       gp_created_at = sc_created_at c, gp_updated_at = sc_updated_at c \<rparr>)"
  by (simp add: apply_goal_projection_def change_of_def split: event_data.split sum.split option.split)

interpretation goal_projected: fold_invariant apply_goal_event empty_goal_fold
  "\<lambda>evs st. projected_goal evs = projection_of st (rounds_since_change evs)"
proof unfold_locales
  show "projected_goal [] = projection_of empty_goal_fold (rounds_since_change [])"
    by (simp add: projected_goal_def projection_of_def empty_goal_fold_def)
next
  fix evs st e st'
  assume inv: "projected_goal evs = projection_of st (rounds_since_change evs)"
    and step: "apply_goal_event st e = Inr st'"
  have "projected_goal (evs @ [e]) = apply_goal_projection (projected_goal evs) e" by (simp add: projected_goal_def)
  with step inv show "projected_goal (evs @ [e]) = projection_of st' (rounds_since_change (evs @ [e]))"
    by (cases rule: apply_goal_eventE)
      (simp_all add: apply_goal_projection_change rounds_since_change_snoc projection_of_def install_snapshot_def
        split: option.split)
qed

text \<open>
  Over a log the strict replay accepts, the lenient last-wins projection shows exactly the goal and the times
  of the strict replay, and nothing when there is none; its round counter is behind by the rounds admitted since
  the last change, which the projection does not read.
\<close>

theorem goal_projection_agrees:
  assumes "goal_fold_from empty_goal_fold evs = Inr st"
  shows "foldl apply_goal_projection None evs = (case gf_goal st of
      None \<Rightarrow> None
    | Some g \<Rightarrow> Some \<lparr> gp_goal = g, gp_rounds = gf_rounds st - int (rounds_since_change evs),
        gp_created_at = the (gf_created_at st), gp_updated_at = the (gf_updated_at st) \<rparr>)"
proof -
  have "foldl apply_goal_projection None evs = projection_of st (rounds_since_change evs)"
    using goal_projected.run_inv [OF assms [unfolded goal_fold_from_def]] by (simp add: projected_goal_def)
  with goal_fold_inv [OF assms] show ?thesis
    by (auto simp: projection_of_def goal_inv_def current_goal_ok_def split: option.split)
qed

theorem goal_projection_agrees_witness:
  "map_option gp_rounds (foldl apply_goal_projection None sample_goal_log) = Some 2"
proof -
  have "rounds_since_change sample_goal_log = 1"
    by (simp add: rounds_since_change_def sample_goal_log_def change_of_def round_of_def make_event_def sample_round_def
        decode_goal_change_json sample_changes_ok create_user_message_def goal_source_def safe_num_def safe_int_def
        max_safe_def)
  then show ?thesis using goal_projection_agrees [OF sample_goal_replay] by (simp add: sample_goal_state_def)
qed

text \<open>A message attributed to round zero of a goal is no valid goal record: the replay rejects the log.\<close>

lemma goal_round_zero_rejected:
  "ev_data e = UserMessage m \<Longrightarrow> message_source m = SrcGoal i r 0 \<Longrightarrow> apply_goal_event st e = Inl BadGoalSource"
  by (simp add: apply_goal_event_def goal_source_def)

end
