(* ===== verification/Goal_Service.thy ===== *)
theory Goal_Service
  imports Goal_History
begin

text \<open>
  The goal service (\<^verbatim>\<open>packages/goal/goal/src/index.ts\<close>): a cache of the strict replay per session, the
  process-local activation, and the compare-and-set mutations that append one \<^verbatim>\<open>goal/change\<close> event each.
  An operation takes what it reads of its environment (the live-agent check, the clock, a drawn uuid, the
  state of the store entry, the dispatch checks) and returns the new world beside its result, because a
  failed operation may still have caught the cache up. Notifications are collected in the order emitted;
  observers of the session and of \<^verbatim>\<open>goal/changed\<close> are contained and do not appear.
\<close>

section \<open>State\<close>

datatype goal_activation = Armed | Disarmed

record goal_cache =
  gc_state :: goal_fold_state
  gc_activation :: goal_activation
  gc_observed :: nat
  gc_pending :: "(nat \<times> goal_activation) option"

record goal_view = goal_snapshot +
  gv_rounds :: int
  gv_created_at :: int
  gv_updated_at :: int
  gv_activation :: goal_activation

record goal_changed =
  gn_operation :: goal_operation
  gn_ref :: goal_ref
  gn_goal :: "goal_view option"

record goal_world =
  gw_session :: session
  gw_cache :: "goal_cache option"
  gw_emitted :: "goal_changed list"

record goal_env =
  ge_live :: bool
  ge_now :: int
  ge_append_now :: int
  ge_uuid :: string
  ge_appending :: bool
  ge_veto :: "session_event \<Rightarrow> string option"
  ge_default_rounds :: int

datatype goal_error =
    AgentNotLive
  | GoalNotFound
  | GoalAlreadyExists string goal_phase
  | StaleRevision goal_ref goal_ref
  | InvalidObjective
  | InvalidMaxRounds
  | InvalidBlockReason
  | InvalidEdit
  | InvalidTransition goal_operation goal_phase
  | AlreadyArmed
  | RoundsExhausted int

datatype goal_failure =
    GoalRejected goal_error
  | GoalReplayFailed goal_replay_error
  | GoalAppendFailed session_error
  | GoalCacheBroken

type_synonym 'a goal_action = "goal_world \<Rightarrow> goal_world \<times> (goal_failure + 'a)"

definition goal_bind :: "'a goal_action \<Rightarrow> ('a \<Rightarrow> 'b goal_action) \<Rightarrow> 'b goal_action" where
  "goal_bind f g w = (case f w of (w', Inl x) \<Rightarrow> (w', Inl x) | (w', Inr a) \<Rightarrow> g a w')"

definition goal_lift :: "goal_error + 'a \<Rightarrow> 'a goal_action" where
  "goal_lift r w = (w, map_sum GoalRejected id r)"

section \<open>Requests\<close>

definition resolve_max_rounds :: "js_number \<Rightarrow> goal_error + int" where
  "resolve_max_rounds v = (case v of
       Fin r \<Rightarrow> if safe_num r \<and> 1 \<le> r then Inr \<lfloor>r\<rfloor> else Inl InvalidMaxRounds
     | _ \<Rightarrow> Inl InvalidMaxRounds)"

definition resolve_objective :: "string \<Rightarrow> goal_error + string" where
  "resolve_objective s = (if js_trim s = [] then Inl InvalidObjective else Inr (js_trim s))"

text \<open>The service's own default is validated once, by its constructor.\<close>

definition resolve_goal_defaults :: "js_number option \<Rightarrow> goal_error + int" where
  "resolve_goal_defaults cap = resolve_max_rounds (case cap of Some c \<Rightarrow> c | None \<Rightarrow> Fin 256)"

definition resolve_create :: "string \<Rightarrow> js_number option \<Rightarrow> int \<Rightarrow> goal_error + string \<times> int" where
  "resolve_create objective cap dflt =
     bind_res (resolve_objective objective) (\<lambda>obj.
     bind_res (resolve_max_rounds (case cap of Some c \<Rightarrow> c | None \<Rightarrow> Fin (of_int dflt))) (\<lambda>n. Inr (obj, n)))"

definition resolve_block_reason :: "json \<Rightarrow> goal_error + block_reason" where
  "resolve_block_reason v = (case (obj_get v ''code'', obj_get v ''message'') of
       (Some (JStr code), Some (JStr msg)) \<Rightarrow>
         if lower_kebab code \<and> js_trim msg \<noteq> []
         then Inr \<lparr> br_code = code, br_message = js_trim msg \<rparr> else Inl InvalidBlockReason
     | _ \<Rightarrow> Inl InvalidBlockReason)"

section \<open>The cache\<close>

definition new_goal_cache :: "session_event list \<Rightarrow> goal_fold_state \<Rightarrow> goal_cache" where
  "new_goal_cache evs st = \<lparr> gc_state = st, gc_activation = Disarmed, gc_observed = length evs, gc_pending = None \<rparr>"

definition cache_of :: "goal_cache goal_action" where
  "cache_of w = (case gw_cache w of
       Some c \<Rightarrow> (w, Inr c)
     | None \<Rightarrow>
         (case goal_fold_from empty_goal_fold (ses_log (gw_session w)) of
            Inl x \<Rightarrow> (w, Inl (GoalReplayFailed x))
          | Inr st \<Rightarrow>
              (let c = new_goal_cache (ses_log (gw_session w)) st in (w\<lparr> gw_cache := Some c \<rparr>, Inr c))))"

definition observe_event :: "goal_cache \<Rightarrow> session_event \<Rightarrow> goal_replay_error + goal_cache" where
  "observe_event c e = bind_res (apply_goal_event (gc_state c) e) (\<lambda>st.
     Inr (c\<lparr> gc_state := st,
       gc_activation := (case ev_data e of
           GoalChange _ \<Rightarrow> (case gc_pending c of
               Some (n, a) \<Rightarrow> if n = ev_seq e then a else Disarmed | None \<Rightarrow> Disarmed)
         | _ \<Rightarrow> gc_activation c),
       gc_observed := Suc (gc_observed c) \<rparr>))"

fun observe_events :: "goal_cache \<Rightarrow> session_event list \<Rightarrow> goal_cache \<times> goal_replay_error option" where
  "observe_events c [] = (c, None)"
| "observe_events c (e # es) = (case observe_event c e of
       Inl x \<Rightarrow> (c, Some x) | Inr c' \<Rightarrow> observe_events c' es)"

definition sync_cache :: "goal_cache \<Rightarrow> goal_cache goal_action" where
  "sync_cache c w = (case observe_events c (drop (gc_observed c) (ses_log (gw_session w))) of
       (c', Some x) \<Rightarrow> (w\<lparr> gw_cache := Some c' \<rparr>, Inl (GoalReplayFailed x))
     | (c', None) \<Rightarrow> (w\<lparr> gw_cache := Some c' \<rparr>, Inr c'))"

definition cache_view :: "goal_cache \<Rightarrow> goal_failure + goal_view option" where
  "cache_view c = (case gf_goal (gc_state c) of
       None \<Rightarrow> Inr None
     | Some g \<Rightarrow>
         (case (gf_created_at (gc_state c), gf_updated_at (gc_state c)) of
            (Some created, Some updated) \<Rightarrow>
              Inr (Some (goal_snapshot.extend g (goal_view.fields (gf_rounds (gc_state c)) created updated
                (gc_activation c))))
          | _ \<Rightarrow> Inl GoalCacheBroken))"

definition prepare_goal :: "goal_env \<Rightarrow> goal_cache goal_action" where
  "prepare_goal env = goal_bind (goal_lift (guard_res (ge_live env) AgentNotLive))
     (\<lambda>_. goal_bind cache_of sync_cache)"

definition get_goal :: "goal_env \<Rightarrow> goal_view option goal_action" where
  "get_goal env = goal_bind (prepare_goal env) (\<lambda>c w. (w, cache_view c))"

definition disarm_goal :: "goal_env \<Rightarrow> goal_view option goal_action" where
  "disarm_goal env = goal_bind (prepare_goal env) (\<lambda>c w.
     (let c' = c\<lparr> gc_activation := Disarmed \<rparr> in (w\<lparr> gw_cache := Some c' \<rparr>, cache_view c')))"

text \<open>The \<^verbatim>\<open>agent/session-start\<close> listener disarms without catching up.\<close>

definition session_start_goal :: "unit goal_action" where
  "session_start_goal = goal_bind cache_of (\<lambda>c w.
     (w\<lparr> gw_cache := Some (c\<lparr> gc_activation := Disarmed \<rparr>) \<rparr>, Inr ()))"

section \<open>Mutations\<close>

definition expect_current :: "goal_cache \<Rightarrow> goal_ref \<Rightarrow> goal_error + goal_snapshot" where
  "expect_current c r = (case gf_goal (gc_state c) of
       None \<Rightarrow> Inl GoalNotFound
     | Some g \<Rightarrow>
         if gr_id r \<noteq> gr_id g \<or> gr_revision r \<noteq> gr_revision g
         then Inl (StaleRevision r (goal_ref.truncate g)) else Inr g)"

definition commit_goal :: "goal_env \<Rightarrow> goal_cache \<Rightarrow> goal_change \<Rightarrow> goal_activation \<Rightarrow> goal_cache goal_action" where
  "commit_goal env c change act w =
     (let pending = c\<lparr> gc_pending := Some (length (ses_log (gw_session w)), act) \<rparr>;
          settle = (\<lambda>w. w\<lparr> gw_cache := map_option (gc_pending_update (\<lambda>_. None)) (gw_cache w) \<rparr>)
      in case append_event (ge_appending env) (ge_veto env) (ge_append_now env) (gw_session w)
            (GoalChange (goal_change_json change)) None None False of
          (s, Inl x) \<Rightarrow> (settle (w\<lparr> gw_session := s \<rparr>), Inl (GoalAppendFailed x))
        | (s, Inr _) \<Rightarrow>
            (case sync_cache pending (w\<lparr> gw_session := s, gw_cache := Some pending \<rparr>) of
               (w', Inl x) \<Rightarrow> (settle w', Inl x)
             | (w', Inr c') \<Rightarrow>
                 (let c'' = c'\<lparr> gc_pending := None \<rparr> in
                  (case cache_view c'' of
                     Inl x \<Rightarrow> (settle w', Inl x)
                   | Inr view \<Rightarrow>
                       (settle w'\<lparr> gw_emitted := gw_emitted w' @
                          [\<lparr> gn_operation = goal_change_operation change, gn_ref = goal_change_ref change,
                             gn_goal = view \<rparr>] \<rparr>, Inr c'')))))"

definition commit_snapshot :: "goal_env \<Rightarrow> goal_cache \<Rightarrow> snapshot_change \<Rightarrow> goal_activation \<Rightarrow> goal_view goal_action" where
  "commit_snapshot env c change act =
     goal_bind (commit_goal env c (ChangeSnapshot change) act) (\<lambda>c' w. (w, case cache_view c' of
         Inl x \<Rightarrow> Inl x | Inr None \<Rightarrow> Inl GoalCacheBroken | Inr (Some v) \<Rightarrow> Inr v))"

definition next_mutation_time :: "goal_env \<Rightarrow> goal_cache \<Rightarrow> goal_failure + int" where
  "next_mutation_time env c = (case gf_updated_at (gc_state c) of
       None \<Rightarrow> Inl GoalCacheBroken | Some u \<Rightarrow> Inr (max (ge_now env) u))"

definition commit_current ::
  "goal_env \<Rightarrow> goal_cache \<Rightarrow> goal_operation \<Rightarrow> goal_snapshot \<Rightarrow> goal_activation \<Rightarrow> goal_view goal_action" where
  "commit_current env c oper g act w =
     (case bind_res (case gf_created_at (gc_state c) of None \<Rightarrow> Inl GoalCacheBroken | Some t \<Rightarrow> Inr t)
         (\<lambda>created. bind_res (next_mutation_time env c) (\<lambda>t. Inr (created, t))) of
        Inl x \<Rightarrow> (w, Inl x)
      | Inr (created, t) \<Rightarrow>
          commit_snapshot env c \<lparr> sc_operation = oper, sc_goal = g, sc_rounds = gf_rounds (gc_state c),
            sc_created_at = created, sc_updated_at = t \<rparr> act w)"

definition with_phase :: "goal_snapshot \<Rightarrow> goal_phase \<Rightarrow> goal_snapshot" where
  "with_phase g p = \<lparr> gr_id = gr_id g, gr_revision = gr_revision g + 1, gs_objective = gs_objective g,
     gs_phase = p, gs_reason = None, gs_max_rounds = gs_max_rounds g \<rparr>"

definition create_goal :: "goal_env \<Rightarrow> string \<Rightarrow> js_number option \<Rightarrow> goal_view goal_action" where
  "create_goal env objective cap =
     goal_bind (goal_lift (resolve_create objective cap (ge_default_rounds env))) (\<lambda>(obj, n).
     goal_bind (prepare_goal env) (\<lambda>c.
     goal_bind (goal_lift (case gf_goal (gc_state c) of
         None \<Rightarrow> Inr ()
       | Some g \<Rightarrow> guard_res (gs_phase g = GoalComplete) (GoalAlreadyExists (gr_id g) (gs_phase g)))) (\<lambda>_.
     commit_snapshot env c
       \<lparr> sc_operation = OpCreate,
         sc_goal = \<lparr> gr_id = ''goal-'' @ ge_uuid env, gr_revision = 1, gs_objective = obj, gs_phase = GoalActive,
           gs_reason = None, gs_max_rounds = n \<rparr>,
         sc_rounds = 0, sc_created_at = ge_now env, sc_updated_at = ge_now env \<rparr> Armed)))"

definition edit_goal ::
  "goal_env \<Rightarrow> goal_ref \<Rightarrow> string option \<Rightarrow> js_number option \<Rightarrow> goal_view goal_action" where
  "edit_goal env r objective cap =
     goal_bind (prepare_goal env) (\<lambda>c.
     goal_bind (goal_lift (expect_current c r)) (\<lambda>g.
     goal_bind (goal_lift (guard_res (objective \<noteq> None \<or> cap \<noteq> None) InvalidEdit)) (\<lambda>_.
     goal_bind (goal_lift (case objective of None \<Rightarrow> Inr (gs_objective g) | Some s \<Rightarrow> resolve_objective s)) (\<lambda>obj.
     goal_bind (goal_lift (case cap of None \<Rightarrow> Inr (gs_max_rounds g) | Some v \<Rightarrow> resolve_max_rounds v)) (\<lambda>n.
     commit_current env c OpEdit
       (g\<lparr> gr_revision := gr_revision g + 1, gs_objective := obj, gs_max_rounds := n \<rparr>) (gc_activation c))))))"

definition transition_goal ::
  "goal_env \<Rightarrow> goal_ref \<Rightarrow> goal_operation \<Rightarrow> goal_phase list \<Rightarrow> goal_phase \<Rightarrow> goal_activation \<Rightarrow> goal_view goal_action" where
  "transition_goal env r oper allowed p act =
     goal_bind (prepare_goal env) (\<lambda>c.
     goal_bind (goal_lift (expect_current c r)) (\<lambda>g.
     goal_bind (goal_lift (guard_res (gs_phase g \<in> set allowed) (InvalidTransition oper (gs_phase g)))) (\<lambda>_.
     commit_current env c oper (with_phase g p) act)))"

definition pause_goal :: "goal_env \<Rightarrow> goal_ref \<Rightarrow> goal_view goal_action" where
  "pause_goal env r = transition_goal env r OpPause [GoalActive] GoalPaused Disarmed"

definition resume_goal :: "goal_env \<Rightarrow> goal_ref \<Rightarrow> goal_view goal_action" where
  "resume_goal env r =
     goal_bind (prepare_goal env) (\<lambda>c.
     goal_bind (goal_lift (expect_current c r)) (\<lambda>g.
     goal_bind (goal_lift (guard_res (gs_phase g \<in> {GoalActive, GoalPaused, GoalBlocked})
        (InvalidTransition OpResume (gs_phase g)))) (\<lambda>_.
     goal_bind (goal_lift (guard_res (\<not> (gs_phase g = GoalActive \<and> gc_activation c = Armed)) AlreadyArmed)) (\<lambda>_.
     goal_bind (goal_lift (guard_res (gf_rounds (gc_state c) < gs_max_rounds g)
        (RoundsExhausted (gs_max_rounds g)))) (\<lambda>_.
     commit_current env c OpResume (with_phase g GoalActive) Armed)))))"

definition complete_goal :: "goal_env \<Rightarrow> goal_ref \<Rightarrow> goal_view goal_action" where
  "complete_goal env r =
     transition_goal env r OpComplete [GoalActive, GoalPaused, GoalBlocked] GoalComplete Disarmed"

definition block_goal :: "goal_env \<Rightarrow> goal_ref \<Rightarrow> json \<Rightarrow> goal_view goal_action" where
  "block_goal env r reason =
     goal_bind (prepare_goal env) (\<lambda>c.
     goal_bind (goal_lift (expect_current c r)) (\<lambda>g.
     goal_bind (goal_lift (guard_res (gs_phase g = GoalActive) (InvalidTransition OpBlock (gs_phase g)))) (\<lambda>_.
     goal_bind (goal_lift (resolve_block_reason reason)) (\<lambda>why.
     commit_current env c OpBlock ((with_phase g GoalBlocked)\<lparr> gs_reason := Some why \<rparr>) Disarmed))))"

definition clear_goal :: "goal_env \<Rightarrow> goal_ref \<Rightarrow> goal_ref goal_action" where
  "clear_goal env r =
     goal_bind (prepare_goal env) (\<lambda>c.
     goal_bind (goal_lift (expect_current c r)) (\<lambda>g.
     goal_bind (\<lambda>w. (w, next_mutation_time env c)) (\<lambda>t.
     let tombstone = \<lparr> gr_id = gr_id g, gr_revision = gr_revision g + 1 \<rparr> in
     goal_bind (commit_goal env c (ChangeClear tombstone t) Disarmed) (\<lambda>_ w. (w, Inr tombstone)))))"

definition remote_create_goal :: "goal_env \<Rightarrow> string \<Rightarrow> js_number option \<Rightarrow> goal_ref goal_action" where
  "remote_create_goal env objective cap =
     goal_bind (create_goal env objective cap) (\<lambda>v w. (w, Inr \<lparr> gr_id = gr_id v, gr_revision = gr_revision v \<rparr>))"

end
