(* ===== verification/Goal_Register.thy ===== *)
theory Goal_Register
  imports Goal_Service
begin

text \<open>
  What the goal service promises: a compare-and-set register. \<open>goal_decide\<close> is the abstract operation on the
  current goal, its counters and the activation, with no log, cache or encoding in it; the service refines it:
  the decided change is appended as one event, is accepted by the strict replay, and the cache ends with the
  state of that replay. \<open>goal_world_ok\<close> is the invariant of the worlds the operations run in.
\<close>

section \<open>Abstract specification\<close>

datatype goal_request =
    ReqCreate string "js_number option"
  | ReqEdit goal_ref "string option" "js_number option"
  | ReqPause goal_ref
  | ReqResume goal_ref
  | ReqComplete goal_ref
  | ReqBlock goal_ref json
  | ReqClear goal_ref

datatype goal_reply = ReplyView goal_view | ReplyTombstone goal_ref

definition goal_current :: "goal_fold_state \<Rightarrow> goal_ref \<Rightarrow> goal_error + goal_snapshot" where
  "goal_current st r = (case gf_goal st of
       None \<Rightarrow> Inl GoalNotFound
     | Some g \<Rightarrow> if goal_ref.truncate g = r then Inr g else Inl (StaleRevision r (goal_ref.truncate g)))"

definition next_revision ::
  "goal_env \<Rightarrow> goal_fold_state \<Rightarrow> goal_operation \<Rightarrow> goal_snapshot \<Rightarrow> goal_change" where
  "next_revision env st oper g = ChangeSnapshot \<lparr> sc_operation = oper, sc_goal = g, sc_rounds = gf_rounds st,
     sc_created_at = the (gf_created_at st), sc_updated_at = max (ge_now env) (the (gf_updated_at st)) \<rparr>"

definition phase_change ::
  "goal_env \<Rightarrow> goal_fold_state \<Rightarrow> goal_ref \<Rightarrow> goal_operation \<Rightarrow> goal_phase set \<Rightarrow> goal_phase
     \<Rightarrow> goal_error + goal_change \<times> goal_activation" where
  "phase_change env st r oper allowed p = bind_res (goal_current st r) (\<lambda>g.
     if gs_phase g \<in> allowed then Inr (next_revision env st oper (with_phase g p), Disarmed)
     else Inl (InvalidTransition oper (gs_phase g)))"

fun goal_decide ::
  "goal_env \<Rightarrow> goal_fold_state \<Rightarrow> goal_activation \<Rightarrow> goal_request \<Rightarrow> goal_error + goal_change \<times> goal_activation" where
  "goal_decide env st act (ReqCreate objective cap) =
     bind_res (resolve_create objective cap (ge_default_rounds env)) (\<lambda>(obj, n).
       case gf_goal st of
         Some g \<Rightarrow>
           if gs_phase g \<noteq> GoalComplete then Inl (GoalAlreadyExists (gr_id g) (gs_phase g))
           else Inr (ChangeSnapshot \<lparr> sc_operation = OpCreate, sc_goal = \<lparr> gr_id = ''goal-'' @ ge_uuid env,
             gr_revision = 1, gs_objective = obj, gs_phase = GoalActive, gs_reason = None, gs_max_rounds = n \<rparr>,
             sc_rounds = 0, sc_created_at = ge_now env, sc_updated_at = ge_now env \<rparr>, Armed)
       | None \<Rightarrow> Inr (ChangeSnapshot \<lparr> sc_operation = OpCreate, sc_goal = \<lparr> gr_id = ''goal-'' @ ge_uuid env,
             gr_revision = 1, gs_objective = obj, gs_phase = GoalActive, gs_reason = None, gs_max_rounds = n \<rparr>,
             sc_rounds = 0, sc_created_at = ge_now env, sc_updated_at = ge_now env \<rparr>, Armed))"
| "goal_decide env st act (ReqEdit r objective cap) = bind_res (goal_current st r) (\<lambda>g.
     if objective = None \<and> cap = None then Inl InvalidEdit
     else bind_res (case objective of None \<Rightarrow> Inr (gs_objective g) | Some s \<Rightarrow> resolve_objective s) (\<lambda>obj.
       bind_res (case cap of None \<Rightarrow> Inr (gs_max_rounds g) | Some v \<Rightarrow> resolve_max_rounds v) (\<lambda>n.
         Inr (next_revision env st OpEdit
           (g\<lparr> gr_revision := gr_revision g + 1, gs_objective := obj, gs_max_rounds := n \<rparr>), act))))"
| "goal_decide env st act (ReqPause r) = phase_change env st r OpPause {GoalActive} GoalPaused"
| "goal_decide env st act (ReqResume r) = bind_res (goal_current st r) (\<lambda>g.
     if gs_phase g = GoalComplete then Inl (InvalidTransition OpResume (gs_phase g))
     else if gs_phase g = GoalActive \<and> act = Armed then Inl AlreadyArmed
     else if gs_max_rounds g \<le> gf_rounds st then Inl (RoundsExhausted (gs_max_rounds g))
     else Inr (next_revision env st OpResume (with_phase g GoalActive), Armed))"
| "goal_decide env st act (ReqComplete r) = phase_change env st r OpComplete (- {GoalComplete}) GoalComplete"
| "goal_decide env st act (ReqBlock r reason) = bind_res (goal_current st r) (\<lambda>g.
     if gs_phase g \<noteq> GoalActive then Inl (InvalidTransition OpBlock (gs_phase g))
     else bind_res (resolve_block_reason reason) (\<lambda>why.
       Inr (next_revision env st OpBlock ((with_phase g GoalBlocked)\<lparr> gs_reason := Some why \<rparr>), Disarmed)))"
| "goal_decide env st act (ReqClear r) = bind_res (goal_current st r) (\<lambda>g.
     Inr (ChangeClear \<lparr> gr_id = gr_id g, gr_revision = gr_revision g + 1 \<rparr>
       (max (ge_now env) (the (gf_updated_at st))), Disarmed))"

section \<open>The service behind one entry\<close>

definition as_view :: "goal_view goal_action \<Rightarrow> goal_reply goal_action" where
  "as_view f = goal_bind f (\<lambda>v w. (w, Inr (ReplyView v)))"

fun call_goal :: "goal_env \<Rightarrow> goal_request \<Rightarrow> goal_reply goal_action" where
  "call_goal env (ReqCreate objective cap) = as_view (create_goal env objective cap)"
| "call_goal env (ReqEdit r objective cap) = as_view (edit_goal env r objective cap)"
| "call_goal env (ReqPause r) = as_view (pause_goal env r)"
| "call_goal env (ReqResume r) = as_view (resume_goal env r)"
| "call_goal env (ReqComplete r) = as_view (complete_goal env r)"
| "call_goal env (ReqBlock r reason) = as_view (block_goal env r reason)"
| "call_goal env (ReqClear r) = goal_bind (clear_goal env r) (\<lambda>t w. (w, Inr (ReplyTombstone t)))"

section \<open>The cache follows the log\<close>

text \<open>An armed goal is active, and its current revision was written by this service instance.\<close>

definition armed_for :: "goal_changed list \<Rightarrow> goal_fold_state \<Rightarrow> goal_activation \<Rightarrow> bool" where
  "armed_for em st act \<longleftrightarrow> (act = Armed \<longrightarrow> (\<exists>g n. gf_goal st = Some g \<and> gs_phase g = GoalActive
     \<and> n \<in> set em \<and> gn_ref n = goal_ref.truncate g \<and> gn_operation n \<in> {OpCreate, OpEdit, OpResume}))"

definition goal_cache_ok :: "goal_changed list \<Rightarrow> session_event list \<Rightarrow> goal_cache \<Rightarrow> bool" where
  "goal_cache_ok em evs c \<longleftrightarrow> gc_observed c \<le> length evs \<and> gc_pending c = None
     \<and> goal_fold_from empty_goal_fold (take (gc_observed c) evs) = Inr (gc_state c)
     \<and> armed_for em (gc_state c) (gc_activation c)"

definition goal_world_ok :: "goal_world \<Rightarrow> bool" where
  "goal_world_ok w \<longleftrightarrow> session_ok (gw_session w)
     \<and> pred_option (goal_cache_ok (gw_emitted w) (ses_log (gw_session w))) (gw_cache w)"

abbreviation gw_log :: "goal_world \<Rightarrow> session_event list" where
  "gw_log w \<equiv> ses_log (gw_session w)"

text \<open>The activation the cache has after catching up.\<close>

definition activation_step :: "(nat \<times> goal_activation) option \<Rightarrow> goal_activation \<Rightarrow> session_event \<Rightarrow> goal_activation" where
  "activation_step pending a e = (case ev_data e of
       GoalChange _ \<Rightarrow> (case pending of Some (n, b) \<Rightarrow> if n = ev_seq e then b else Disarmed | None \<Rightarrow> Disarmed)
     | _ \<Rightarrow> a)"

definition effective_activation :: "goal_world \<Rightarrow> goal_activation" where
  "effective_activation w = (case gw_cache w of
       None \<Rightarrow> Disarmed
     | Some c \<Rightarrow> foldl (activation_step None) (gc_activation c) (drop (gc_observed c) (gw_log w)))"

lemma observe_event_fold: "observe_event c e = bind_res (apply_goal_event (gc_state c) e) (\<lambda>st.
    Inr (c\<lparr> gc_state := st, gc_activation := activation_step (gc_pending c) (gc_activation c) e,
      gc_observed := Suc (gc_observed c) \<rparr>))"
  by (simp add: observe_event_def activation_step_def)

lemma observe_events_fold:
  "goal_fold_from (gc_state c) es = Inr st \<Longrightarrow> observe_events c es =
     (c\<lparr> gc_state := st, gc_activation := foldl (activation_step (gc_pending c)) (gc_activation c) es,
        gc_observed := gc_observed c + length es \<rparr>, None)"
proof (induction es arbitrary: c)
  case Nil
  then show ?case by (simp add: goal_fold_from_def)
next
  case (Cons e es)
  then obtain st1 where "apply_goal_event (gc_state c) e = Inr st1" "goal_fold_from st1 es = Inr st"
    by (auto simp: goal_fold_from_def split: sum.splits)
  with Cons.IH show ?case by (simp add: observe_event_fold)
qed

lemma observe_events_error:
  "goal_fold_from (gc_state c) es = Inl x \<Longrightarrow> \<exists>k st. k < length es
     \<and> goal_fold_from (gc_state c) (take k es) = Inr st \<and> observe_events c es =
     (c\<lparr> gc_state := st, gc_activation := foldl (activation_step (gc_pending c)) (gc_activation c) (take k es),
        gc_observed := gc_observed c + k \<rparr>, Some x)"
proof (induction es arbitrary: c)
  case Nil
  then show ?case by (simp add: goal_fold_from_def)
next
  case (Cons e es)
  show ?case
  proof (cases "apply_goal_event (gc_state c) e")
    case (Inl y)
    with Cons.prems show ?thesis
      by (intro exI [of _ 0]) (simp add: goal_fold_from_def observe_event_fold)
  next
    case (Inr st1)
    let ?c = "c\<lparr> gc_state := st1, gc_activation := activation_step (gc_pending c) (gc_activation c) e,
      gc_observed := Suc (gc_observed c) \<rparr>"
    from Inr Cons.prems have "goal_fold_from (gc_state ?c) es = Inl x" by (simp add: goal_fold_from_def)
    from Cons.IH [OF this] obtain k st where k: "k < length es" "goal_fold_from st1 (take k es) = Inr st"
      "observe_events ?c es = (?c\<lparr> gc_state := st,
         gc_activation := foldl (activation_step (gc_pending c)) (activation_step (gc_pending c) (gc_activation c) e) (take k es),
         gc_observed := Suc (gc_observed c) + k \<rparr>, Some x)" by auto
    with Inr show ?thesis
      by (intro exI [of _ "Suc k"] exI [of _ st]) (simp add: goal_fold_from_def observe_event_fold)
  qed
qed

lemma armed_for_step:
  assumes "armed_for em st a" and "apply_goal_event st e = Inr st'"
  shows "armed_for em st' (activation_step None a e)"
  using assms(2)
proof (cases rule: apply_goal_eventE)
  case other
  with assms(1) show ?thesis by (auto simp: armed_for_def activation_step_def split: event_data.splits)
next
  case (round g)
  with assms(1) show ?thesis by (auto simp: armed_for_def activation_step_def split: event_data.splits)
qed (auto simp: armed_for_def activation_step_def change_of_def split: event_data.splits)

lemma armed_for_run:
  "goal_fold_from st es = Inr st' \<Longrightarrow> armed_for em st a \<Longrightarrow> armed_for em st' (foldl (activation_step None) a es)"
proof (induction es arbitrary: st a)
  case Nil
  then show ?case by (simp add: goal_fold_from_def)
next
  case (Cons e es)
  then obtain st1 where "apply_goal_event st e = Inr st1" "goal_fold_from st1 es = Inr st'"
    by (auto simp: goal_fold_from_def split: sum.splits)
  with Cons armed_for_step show ?case by auto
qed

text \<open>The cache as an incremental view of the replay.\<close>

interpretation goal_view_cache: incremental_view
  "goal_fold_from empty_goal_fold" "\<lambda>r es. bind_res r (\<lambda>st. goal_fold_from st es)"
  by unfold_locales (simp add: goal_fold_from_def run_fold_append)

lemma goal_cache_catch_up:
  "goal_cache_ok em evs c \<Longrightarrow> goal_fold_from (gc_state c) (drop (gc_observed c) evs) = goal_fold_from empty_goal_fold evs"
  using goal_view_cache.catch_up [of "gc_observed c" evs] by (simp add: goal_cache_ok_def)

lemma goal_cache_ok_observed:
  assumes ok: "goal_cache_ok em evs c" and run: "goal_fold_from (gc_state c) (take k (drop (gc_observed c) evs)) = Inr st"
    and k: "k \<le> length evs - gc_observed c"
  shows "goal_cache_ok em evs (c\<lparr> gc_state := st,
     gc_activation := foldl (activation_step None) (gc_activation c) (take k (drop (gc_observed c) evs)),
     gc_observed := gc_observed c + k \<rparr>)"
proof -
  have "goal_fold_from empty_goal_fold (take (gc_observed c + k) evs) = Inr st"
    using ok run unfolding goal_cache_ok_def goal_fold_from_def by (simp add: take_add run_fold_append)
  with ok armed_for_run [OF run] k show ?thesis by (auto simp: goal_cache_ok_def)
qed

definition synced_cache :: "session_event list \<Rightarrow> goal_fold_state \<Rightarrow> goal_activation \<Rightarrow> goal_cache" where
  "synced_cache evs st act = \<lparr> gc_state = st, gc_activation = act, gc_observed = length evs, gc_pending = None \<rparr>"

lemma synced_cache_fields [simp]:
  "gc_state (synced_cache evs st act) = st" "gc_activation (synced_cache evs st act) = act"
  "gc_observed (synced_cache evs st act) = length evs" "gc_pending (synced_cache evs st act) = None"
  by (simp_all add: synced_cache_def)

lemma synced_cache_ok:
  "goal_fold_from empty_goal_fold evs = Inr st \<Longrightarrow> armed_for em st act \<Longrightarrow> goal_cache_ok em evs (synced_cache evs st act)"
  by (simp add: goal_cache_ok_def)

lemma effective_armed_active:
  assumes "goal_world_ok w" and "goal_fold_from empty_goal_fold (gw_log w) = Inr st"
  shows "armed_for (gw_emitted w) st (effective_activation w)"
proof (cases "gw_cache w")
  case None
  then show ?thesis by (simp add: effective_activation_def armed_for_def)
next
  case (Some c)
  with assms(1) have ok: "goal_cache_ok (gw_emitted w) (gw_log w) c" by (simp add: goal_world_ok_def)
  with goal_cache_catch_up [OF ok] assms(2) armed_for_run Some show ?thesis
    by (auto simp: effective_activation_def goal_cache_ok_def)
qed

lemma prepare_goal_synced:
  assumes ok: "goal_world_ok w" and live: "ge_live env" and st: "goal_fold_from empty_goal_fold (gw_log w) = Inr st"
  shows "prepare_goal env w = (w\<lparr> gw_cache := Some (synced_cache (gw_log w) st (effective_activation w)) \<rparr>,
     Inr (synced_cache (gw_log w) st (effective_activation w)))"
proof (cases "gw_cache w")
  case None
  with live st show ?thesis
    by (simp add: prepare_goal_def goal_bind_def goal_lift_def cache_of_def sync_cache_def new_goal_cache_def
        synced_cache_def effective_activation_def Let_def)
next
  case (Some c)
  with ok have c: "goal_cache_ok (gw_emitted w) (gw_log w) c" by (simp add: goal_world_ok_def)
  have "observe_events c (drop (gc_observed c) (gw_log w)) = (synced_cache (gw_log w) st (effective_activation w), None)"
    using observe_events_fold [of c "drop (gc_observed c) (gw_log w)" st] goal_cache_catch_up [OF c] st c Some
    by (simp add: synced_cache_def effective_activation_def goal_cache_ok_def)
  with Some live show ?thesis
    by (simp add: prepare_goal_def goal_bind_def goal_lift_def cache_of_def sync_cache_def)
qed

lemma prepare_goal_broken:
  assumes ok: "goal_world_ok w" and live: "ge_live env" and x: "goal_fold_from empty_goal_fold (gw_log w) = Inl x"
  shows "\<exists>w'. prepare_goal env w = (w', Inl (GoalReplayFailed x)) \<and> gw_session w' = gw_session w
     \<and> gw_emitted w' = gw_emitted w \<and> goal_world_ok w'"
proof (cases "gw_cache w")
  case None
  with live x ok show ?thesis by (simp add: prepare_goal_def goal_bind_def goal_lift_def cache_of_def)
next
  case (Some c)
  let ?es = "drop (gc_observed c) (gw_log w)"
  from Some ok have c: "goal_cache_ok (gw_emitted w) (gw_log w) c" by (simp add: goal_world_ok_def)
  from goal_cache_catch_up [OF c] x have "goal_fold_from (gc_state c) ?es = Inl x" by simp
  from observe_events_error [OF this] obtain k st where k: "k < length ?es" "goal_fold_from (gc_state c) (take k ?es) = Inr st"
    "observe_events c ?es = (c\<lparr> gc_state := st, gc_activation := foldl (activation_step None) (gc_activation c) (take k ?es),
        gc_observed := gc_observed c + k \<rparr>, Some x)" using c by (auto simp: goal_cache_ok_def)
  with goal_cache_ok_observed [OF c k(2)] Some live ok show ?thesis
    by (simp add: prepare_goal_def goal_bind_def goal_lift_def cache_of_def sync_cache_def goal_world_ok_def)
qed

text \<open>What \<open>cache_view\<close> shows of a replayed state.\<close>

definition goal_view_of :: "goal_fold_state \<Rightarrow> goal_activation \<Rightarrow> goal_view option" where
  "goal_view_of st act = map_option (\<lambda>g. goal_snapshot.extend g
     (goal_view.fields (gf_rounds st) (the (gf_created_at st)) (the (gf_updated_at st)) act)) (gf_goal st)"

lemma cache_view_synced: "goal_inv evs st \<Longrightarrow> cache_view (synced_cache ds st act) = Inr (goal_view_of st act)"
  by (cases "gf_goal st") (auto simp: cache_view_def goal_view_of_def goal_inv_def current_goal_ok_def)

section \<open>One committed change\<close>

definition change_event :: "goal_env \<Rightarrow> goal_world \<Rightarrow> goal_change \<Rightarrow> session_event" where
  "change_event env w change =
     make_event (length (gw_log w)) (ge_append_now env) (GoalChange (goal_change_json change)) None None False"

definition notice_of :: "goal_change \<Rightarrow> goal_fold_state \<Rightarrow> goal_activation \<Rightarrow> goal_changed" where
  "notice_of change st act = \<lparr> gn_operation = goal_change_operation change, gn_ref = goal_change_ref change,
     gn_goal = goal_view_of st act \<rparr>"

lemma commit_goal_lands:
  assumes ok: "session_ok (gw_session w)" and app: "\<not> ge_appending env"
    and veto: "ge_veto env (change_event env w change) = None" and wf: "goal_change_ok change"
    and st: "goal_fold_from empty_goal_fold (gw_log w) = Inr st" and ap: "apply_goal_change st change = Inr st'"
  obtains s where "session_ok s" and "ses_log s = gw_log w @ [change_event env w change]"
    and "goal_fold_from empty_goal_fold (ses_log s) = Inr st'"
    and "commit_goal env (synced_cache (gw_log w) st act) change a
        (w\<lparr> gw_cache := Some (synced_cache (gw_log w) st act) \<rparr>)
      = (w\<lparr> gw_session := s, gw_cache := Some (synced_cache (ses_log s) st' a),
           gw_emitted := gw_emitted w @ [notice_of change st' a] \<rparr>, Inr (synced_cache (ses_log s) st' a))"
proof -
  let ?e = "change_event env w change"
  obtain nodes reps where f: "folded (gw_log w) nodes reps" using session_ok_folded [OF ok] .
  have f': "folded (gw_log w @ [?e]) nodes reps"
    unfolding change_event_def by (rule folded_plain [OF f]) (simp add: is_surface_eligible_type_def surface_event_types_def)
  obtain s where app_s: "append_event False (ge_veto env) (ge_append_now env) (gw_session w)
      (GoalChange (goal_change_json change)) None None False = (s, Inr ?e)"
    and s: "session_ok s" "ses_log s = gw_log w @ [?e]"
    unfolding change_event_def
    by (rule append_event_lands [where veto = "ge_veto env", OF ok _ veto [unfolded change_event_def] f' [unfolded change_event_def]])
      (simp add: assert_supported_request_header_def)
  have step: "apply_goal_event st ?e = Inr st'"
    using apply_goal_event_change [OF wf] ap by (simp add: change_event_def)
  then have run: "goal_fold_from empty_goal_fold (ses_log s) = Inr st'"
    using st by (simp add: s goal_fold_from_def run_fold_snoc)
  let ?p = "(synced_cache (gw_log w) st act)\<lparr> gc_pending := Some (length (gw_log w), a) \<rparr>"
  have obs: "observe_events ?p [?e] = ((synced_cache (ses_log s) st' a)\<lparr> gc_pending := Some (length (gw_log w), a) \<rparr>, None)"
    using step by (simp add: observe_event_fold activation_step_def s synced_cache_def) (simp add: change_event_def make_event_def)
  have view: "cache_view (synced_cache (ses_log s) st' a) = Inr (goal_view_of st' a)"
    by (rule cache_view_synced [OF goal_fold_inv [OF run]])
  have settled: "c\<lparr> gc_pending := Some p, gc_pending := None \<rparr> = c\<lparr> gc_pending := None \<rparr>"
    "(synced_cache (ses_log s) st' a)\<lparr> gc_pending := None \<rparr> = synced_cache (ses_log s) st' a" for c p
    by (simp_all add: synced_cache_def)
  have new: "drop (length (gw_log w)) (ses_log s) = [?e]" by (simp add: s)
  have "commit_goal env (synced_cache (gw_log w) st act) change a (w\<lparr> gw_cache := Some (synced_cache (gw_log w) st act) \<rparr>)
      = (w\<lparr> gw_session := s, gw_cache := Some (synced_cache (ses_log s) st' a),
           gw_emitted := gw_emitted w @ [notice_of change st' a] \<rparr>, Inr (synced_cache (ses_log s) st' a))"
    using app
    by (simp add: commit_goal_def sync_cache_def app_s obs view settled new Let_def notice_of_def del: observe_events.simps)
  with that s run show thesis by blast
qed

section \<open>Every operation is a decision and one commit\<close>

definition settle_reply ::
  "goal_change \<Rightarrow> goal_world \<times> (goal_failure + goal_cache) \<Rightarrow> goal_world \<times> (goal_failure + goal_reply)" where
  "settle_reply ch p = (case p of
       (w, Inl x) \<Rightarrow> (w, Inl x)
     | (w, Inr c) \<Rightarrow>
         (case ch of
            ChangeClear r _ \<Rightarrow> (w, Inr (ReplyTombstone r))
          | ChangeSnapshot _ \<Rightarrow>
              (case cache_view c of
                 Inl x \<Rightarrow> (w, Inl x) | Inr None \<Rightarrow> (w, Inl GoalCacheBroken) | Inr (Some v) \<Rightarrow> (w, Inr (ReplyView v)))))"

lemma goal_bind_prepared:
  "prepare_goal env w = (w1, Inr c) \<Longrightarrow> goal_bind (prepare_goal env) f w = f c w1"
  by (simp add: goal_bind_def)

lemma goal_bind_lift: "goal_bind (goal_lift r) f w = (case r of Inl x \<Rightarrow> (w, Inl (GoalRejected x)) | Inr a \<Rightarrow> f a w)"
  by (simp add: goal_bind_def goal_lift_def split: sum.split)

lemma as_view_commit:
  "goal_bind (commit_snapshot env c s a) (\<lambda>v w. (w, Inr (ReplyView v))) w =
     settle_reply (ChangeSnapshot s) (commit_goal env c (ChangeSnapshot s) a w)"
  by (simp add: commit_snapshot_def goal_bind_def settle_reply_def split: prod.split sum.split option.split)

lemma goal_bind_assoc: "goal_bind (goal_bind f g) h w = goal_bind f (\<lambda>a. goal_bind (g a) h) w"
  by (simp add: goal_bind_def split: prod.split sum.split)

lemma commit_current_synced:
  assumes "goal_inv evs st" and "gf_goal st = Some g"
  shows "goal_bind (commit_current env (synced_cache ds st act) oper h a) (\<lambda>v w. (w, Inr (ReplyView v))) w =
    settle_reply (next_revision env st oper h) (commit_goal env (synced_cache ds st act) (next_revision env st oper h) a w)"
proof -
  obtain t u where t: "gf_created_at st = Some t" "gf_updated_at st = Some u"
    using goal_inv_current [OF assms] by (auto simp: current_goal_ok_def)
  show ?thesis
    by (simp add: commit_current_def next_mutation_time_def t next_revision_def as_view_commit [symmetric] goal_bind_def)
qed

lemma expect_current_synced: "expect_current (synced_cache ds st act) r = goal_current st r"
  by (auto simp: expect_current_def goal_current_def goal_ref.truncate_def split: option.split)

lemma goal_current_Inr: "goal_current st r = Inr g \<longleftrightarrow> gf_goal st = Some g \<and> goal_ref.truncate g = r"
  by (auto simp: goal_current_def split: option.split)

lemmas goal_calls = as_view_def goal_bind_assoc goal_bind_prepared goal_bind_lift expect_current_synced

lemma transition_goal_decide:
  assumes prep: "prepare_goal env w = (w1, Inr (synced_cache ds st act))" and inv: "goal_inv evs st"
  shows "as_view (transition_goal env r oper allowed p Disarmed) w = (case phase_change env st r oper (set allowed) p of
      Inl x \<Rightarrow> (w1, Inl (GoalRejected x))
    | Inr (ch, a) \<Rightarrow> settle_reply ch (commit_goal env (synced_cache ds st act) ch a w1))"
proof (cases "goal_current st r")
  case (Inr g)
  then have g: "gf_goal st = Some g" by (simp add: goal_current_Inr)
  show ?thesis
    by (simp add: transition_goal_def phase_change_def goal_calls prep Inr commit_current_synced [OF inv g] guard_res_def)
qed (simp add: transition_goal_def phase_change_def goal_calls prep)

lemma call_goal_decide:
  assumes prep: "prepare_goal env w = (w1, Inr (synced_cache ds st act))" and inv: "goal_inv evs st"
  shows "case goal_decide env st act req of
      Inl x \<Rightarrow> call_goal env req w \<in> {(w, Inl (GoalRejected x)), (w1, Inl (GoalRejected x))}
    | Inr (ch, a) \<Rightarrow> call_goal env req w = settle_reply ch (commit_goal env (synced_cache ds st act) ch a w1)"
proof (cases req)
  case (ReqCreate objective cap)
  show ?thesis
  proof (cases "resolve_create objective cap (ge_default_rounds env)")
    case (Inr p)
    then show ?thesis
      by (cases p) (simp add: ReqCreate create_goal_def goal_calls prep as_view_commit guard_res_def split: option.split)
  qed (simp add: ReqCreate create_goal_def goal_calls)
next
  case (ReqEdit r objective cap)
  show ?thesis
  proof (cases "goal_current st r")
    case (Inr g)
    then have g: "gf_goal st = Some g" by (simp add: goal_current_Inr)
    show ?thesis
      by (simp add: ReqEdit edit_goal_def goal_calls prep Inr commit_current_synced [OF inv g] guard_res_def
          bind_res_def split: sum.split)
  qed (simp add: ReqEdit edit_goal_def goal_calls prep)
next
  case (ReqPause r)
  show ?thesis
    using transition_goal_decide [OF prep inv, of r OpPause "[GoalActive]" GoalPaused]
    by (simp add: ReqPause pause_goal_def split: sum.split)
next
  case (ReqResume r)
  show ?thesis
  proof (cases "goal_current st r")
    case (Inr g)
    then have g: "gf_goal st = Some g" by (simp add: goal_current_Inr)
    show ?thesis
      by (cases "gs_phase g") (auto simp add: ReqResume resume_goal_def goal_calls prep Inr commit_current_synced [OF inv g]
          guard_res_def)
  qed (simp add: ReqResume resume_goal_def goal_calls prep)
next
  case (ReqComplete r)
  have "set [GoalActive, GoalPaused, GoalBlocked] = - {GoalComplete}"
    by (auto intro: goal_phase.exhaust)
  with transition_goal_decide [OF prep inv, of r OpComplete "[GoalActive, GoalPaused, GoalBlocked]" GoalComplete]
  show ?thesis by (simp add: ReqComplete complete_goal_def split: sum.split)
next
  case (ReqBlock r reason)
  show ?thesis
  proof (cases "goal_current st r")
    case (Inr g)
    then have g: "gf_goal st = Some g" by (simp add: goal_current_Inr)
    show ?thesis
      by (simp add: ReqBlock block_goal_def goal_calls prep Inr commit_current_synced [OF inv g] guard_res_def
          bind_res_def split: sum.split)
  qed (simp add: ReqBlock block_goal_def goal_calls prep)
next
  case (ReqClear r)
  show ?thesis
  proof (cases "goal_current st r")
    case (Inr g)
    then have g: "gf_goal st = Some g" by (simp add: goal_current_Inr)
    obtain u where u: "gf_updated_at st = Some u"
      using goal_inv_current [OF inv g] by (auto simp: current_goal_ok_def)
    show ?thesis
      by (simp add: ReqClear clear_goal_def goal_calls prep Inr next_mutation_time_def u)
        (simp add: goal_bind_def next_mutation_time_def u settle_reply_def Let_def split: prod.split sum.split)
  qed (simp add: ReqClear clear_goal_def goal_calls prep)
qed

end
