(* ===== verification/Goal_Refines.thy ===== *)
theory Goal_Refines
  imports Goal_Register
begin

text \<open>
  The service refines the register: every change \<open>goal_decide\<close> makes is accepted by the strict replay, so an
  operation with a usable session succeeds exactly when the register does; and over any run of the service beside
  other writers of the session the cache is the replay of what it has read and arms only its own active goal.
\<close>

section \<open>Decided changes are accepted\<close>

definition goal_env_ok :: "goal_env \<Rightarrow> goal_fold_state \<Rightarrow> bool" where
  "goal_env_ok env st \<longleftrightarrow> non_negative_safe (ge_now env) \<and> positive_safe (ge_default_rounds env)
     \<and> ''goal-'' @ ge_uuid env \<notin> gf_seen st \<and> (\<forall>g. gf_goal st = Some g \<longrightarrow> gr_revision g < max_safe)"

lemma resolve_max_rounds_ok: "resolve_max_rounds v = Inr n \<Longrightarrow> positive_safe n"
  by (auto simp: resolve_max_rounds_def positive_safe_def safe_num_def safe_int_def le_floor_iff
      split: js_number.splits if_splits)

lemma resolve_objective_ok: "resolve_objective s = Inr t \<Longrightarrow> normalized t"
  by (auto simp: resolve_objective_def normalized_def split: if_splits)

lemma resolve_block_reason_ok: "resolve_block_reason v = Inr r \<Longrightarrow> block_reason_ok r"
  by (auto simp: resolve_block_reason_def block_reason_ok_def normalized_def split: option.splits json.splits if_splits)

lemma resolve_create_ok: "resolve_create s cap d = Inr (obj, n) \<Longrightarrow> normalized obj \<and> positive_safe n"
  by (auto simp: resolve_create_def dest: resolve_objective_ok resolve_max_rounds_ok)

lemma with_phase_fields [simp]:
  "gr_id (with_phase g p) = gr_id g" "gr_revision (with_phase g p) = gr_revision g + 1"
  "gs_objective (with_phase g p) = gs_objective g" "gs_phase (with_phase g p) = p" "gs_reason (with_phase g p) = None"
  "gs_max_rounds (with_phase g p) = gs_max_rounds g"
  by (simp_all add: with_phase_def)

lemma next_revision_accepted:
  assumes inv: "goal_inv evs st" and env: "goal_env_ok env st" and g: "gf_goal st = Some g"
    and h: "gr_id h = gr_id g" "gr_revision h = gr_revision g + 1" "snapshot_ok (h\<lparr> gr_revision := gr_revision g \<rparr>)"
    and oper: "oper \<notin> {OpCreate, OpClear}" and rule: "validate_operation (gf_rounds st) oper h g = Inr ()"
  shows "goal_change_ok (next_revision env st oper h)"
    and "\<exists>st'. apply_goal_change st (next_revision env st oper h) = Inr st' \<and> gf_goal st' = Some h"
proof -
  obtain t u where t: "gf_created_at st = Some t" "gf_updated_at st = Some u" "0 \<le> t" "t \<le> u" "u \<le> max_safe"
    and n: "non_negative_safe (gf_rounds st)" "positive_safe (gr_revision g)"
    using goal_inv_current [OF inv g] by (auto simp: current_goal_ok_def snapshot_ok_def)
  have rev: "positive_safe (gr_revision h)" using n(2) env g h(2) by (simp add: goal_env_ok_def positive_safe_def)
  show "goal_change_ok (next_revision env st oper h)"
    using h(1,3) rev oper t n env
    by (auto simp: next_revision_def goal_change_ok_def snapshot_change_ok_def snapshot_ok_def non_negative_safe_def
        goal_env_ok_def)
  show "\<exists>st'. apply_goal_change st (next_revision env st oper h) = Inr st' \<and> gf_goal st' = Some h"
    using g oper h(1,2) rule t
    by (simp add: next_revision_def apply_goal_change_def validate_snapshot_transition_def require_next_revision_def
        goal_ref.truncate_def install_snapshot_def)
qed

lemma goal_decide_accepted:
  assumes inv: "goal_inv evs st" and env: "goal_env_ok env st"
    and dec: "goal_decide env st act req = Inr (ch, a)"
  shows "goal_change_ok ch \<and> (\<exists>st'. apply_goal_change st ch = Inr st'
     \<and> (\<forall>s. ch = ChangeSnapshot s \<longrightarrow> gf_goal st' = Some (sc_goal s)))"
proof -
  have revised: ?thesis if "ch = next_revision env st oper h" "gf_goal st = Some g" "gr_id h = gr_id g"
    "gr_revision h = gr_revision g + 1" "snapshot_ok (h\<lparr> gr_revision := gr_revision g \<rparr>)"
    "oper \<notin> {OpCreate, OpClear}" "validate_operation (gf_rounds st) oper h g = Inr ()" for oper h g
    using next_revision_accepted [OF inv env that(2-)] that(1) by (auto simp: next_revision_def)
  have snap: "snapshot_ok g" if "gf_goal st = Some g" for g
    using goal_inv_current [OF inv that] by (simp add: current_goal_ok_def)
  have turned: "snapshot_ok ((with_phase g p)\<lparr> gr_revision := gr_revision g \<rparr>)"
    if "gf_goal st = Some g" "p \<noteq> GoalBlocked" for g p
    using snap [OF that(1)] that(2) by (simp add: snapshot_ok_def)
  have phased: ?thesis if ph: "phase_change env st r oper allowed p = Inr (ch, a)" "p \<noteq> GoalBlocked"
    "oper \<notin> {OpCreate, OpClear}"
    "\<And>g. gs_phase g \<in> allowed \<Longrightarrow> validate_operation (gf_rounds st) oper (with_phase g p) g = Inr ()" for r oper allowed p
  proof -
    obtain g where g: "gf_goal st = Some g" "gs_phase g \<in> allowed" and ch: "ch = next_revision env st oper (with_phase g p)"
      using ph(1) by (auto simp: phase_change_def goal_current_Inr split: if_splits)
    show ?thesis by (rule revised [OF ch g(1)]) (use ph(2-) g turned [OF g(1)] in auto)
  qed
  note rules = validate_operation_def require_same_definition_def
  show ?thesis
  proof (cases req)
    case (ReqCreate objective cap)
    with dec obtain obj n where r: "resolve_create objective cap (ge_default_rounds env) = Inr (obj, n)" by auto
    with dec ReqCreate have "ch = ChangeSnapshot \<lparr> sc_operation = OpCreate, sc_goal = \<lparr> gr_id = ''goal-'' @ ge_uuid env,
         gr_revision = 1, gs_objective = obj, gs_phase = GoalActive, gs_reason = None, gs_max_rounds = n \<rparr>,
         sc_rounds = 0, sc_created_at = ge_now env, sc_updated_at = ge_now env \<rparr>"
      and "\<forall>g. gf_goal st = Some g \<longrightarrow> gs_phase g = GoalComplete"
      by (auto split: option.splits if_splits)
    with resolve_create_ok [OF r] env show ?thesis
      by (auto simp: goal_change_ok_def snapshot_change_ok_def snapshot_ok_def goal_env_ok_def apply_goal_change_def
          positive_safe_def non_negative_safe_def max_safe_def install_snapshot_def split: option.split)
  next
    case (ReqEdit r objective cap)
    with dec obtain g obj n where g: "gf_goal st = Some g"
      and obj: "(case objective of None \<Rightarrow> Inr (gs_objective g) | Some s \<Rightarrow> resolve_objective s) = Inr obj"
      and n: "(case cap of None \<Rightarrow> Inr (gs_max_rounds g) | Some v \<Rightarrow> resolve_max_rounds v) = Inr n"
      and ch: "ch = next_revision env st OpEdit
        (g\<lparr> gr_revision := gr_revision g + 1, gs_objective := obj, gs_max_rounds := n \<rparr>)"
      by (auto simp: goal_current_Inr split: if_splits)
    have "normalized obj" "positive_safe n"
      using obj n snap [OF g] resolve_objective_ok resolve_max_rounds_ok
      by (auto simp: snapshot_ok_def split: option.splits)
    with snap [OF g] show ?thesis
      by (intro revised [OF ch g]) (simp_all add: snapshot_ok_def rules)
  next
    case (ReqPause r)
    with dec show ?thesis by (intro phased [of r OpPause "{GoalActive}" GoalPaused]) (simp_all add: rules)
  next
    case (ReqResume r)
    with dec obtain g where g: "gf_goal st = Some g" "gs_phase g \<noteq> GoalComplete" "gf_rounds st < gs_max_rounds g"
      and ch: "ch = next_revision env st OpResume (with_phase g GoalActive)"
      by (auto simp: goal_current_Inr not_le split: if_splits)
    then show ?thesis
      by (intro revised [OF ch g(1)] turned) (cases "gs_phase g"; simp add: rules)+
  next
    case (ReqComplete r)
    with dec show ?thesis by (intro phased [of r OpComplete "- {GoalComplete}" GoalComplete]) (simp_all add: rules)
  next
    case (ReqBlock r reason)
    with dec obtain g why where g: "gf_goal st = Some g" "gs_phase g = GoalActive"
      and why: "resolve_block_reason reason = Inr why"
      and ch: "ch = next_revision env st OpBlock ((with_phase g GoalBlocked)\<lparr> gs_reason := Some why \<rparr>)"
      by (auto simp: goal_current_Inr split: if_splits)
    with snap [OF g(1)] resolve_block_reason_ok [OF why] show ?thesis
      by (intro revised [OF ch g(1)]) (simp_all add: snapshot_ok_def rules)
  next
    case (ReqClear r)
    with dec obtain g where g: "gf_goal st = Some g"
      and ch: "ch = ChangeClear \<lparr> gr_id = gr_id g, gr_revision = gr_revision g + 1 \<rparr>
        (max (ge_now env) (the (gf_updated_at st)))" by (auto simp: goal_current_Inr)
    obtain u where "gf_updated_at st = Some u" "u \<le> max_safe"
      using goal_inv_current [OF inv g] by (auto simp: current_goal_ok_def)
    with g env snap [OF g] show ?thesis
      by (auto simp: ch goal_change_ok_def apply_goal_change_def require_next_revision_def goal_env_ok_def snapshot_ok_def
          positive_safe_def non_negative_safe_def)
  qed
qed

section \<open>The register is refined\<close>

lemma settle_reply_world [simp]: "fst (settle_reply ch p) = fst p"
  by (simp add: settle_reply_def split: prod.split sum.split option.split goal_change.split)

lemma effective_synced [simp]:
  "gw_cache w = Some (synced_cache (gw_log w) st a) \<Longrightarrow> effective_activation w = a"
  by (simp add: effective_activation_def)

lemma goal_view_of_Some: "gf_goal st = Some g \<Longrightarrow> \<exists>v. goal_view_of st a = Some v"
  by (simp add: goal_view_of_def)

definition reply_of :: "goal_change \<Rightarrow> goal_fold_state \<Rightarrow> goal_activation \<Rightarrow> goal_reply" where
  "reply_of ch st a = (case ch of ChangeClear r _ \<Rightarrow> ReplyTombstone r | ChangeSnapshot _ \<Rightarrow> ReplyView (the (goal_view_of st a)))"

lemma call_goal_refines:
  assumes ok: "goal_world_ok w" and live: "ge_live env" and app: "\<not> ge_appending env"
    and veto: "\<forall>e. ge_veto env e = None"
    and st: "goal_fold_from empty_goal_fold (ses_log (gw_session w)) = Inr st" and env: "goal_env_ok env st"
  shows "case goal_decide env st (effective_activation w) req of
      Inl x \<Rightarrow> \<exists>w'. call_goal env req w = (w', Inl (GoalRejected x)) \<and> gw_session w' = gw_session w
        \<and> gw_emitted w' = gw_emitted w
    | Inr (ch, a) \<Rightarrow> \<exists>w' st'. call_goal env req w = (w', Inr (reply_of ch st' a))
        \<and> apply_goal_change st ch = Inr st'
        \<and> ses_log (gw_session w') = ses_log (gw_session w) @ [change_event env w ch]
        \<and> goal_fold_from empty_goal_fold (ses_log (gw_session w')) = Inr st'
        \<and> effective_activation w' = a \<and> gw_emitted w' = gw_emitted w @ [notice_of ch st' a]"
proof -
  let ?act = "effective_activation w" and ?c = "synced_cache (gw_log w) st (effective_activation w)"
  note prep = prepare_goal_synced [OF ok live st] and inv = goal_fold_inv [OF st]
  note call = call_goal_decide [OF prep inv, of req]
  show ?thesis
  proof (cases "goal_decide env st ?act req")
    case (Inl x)
    with call show ?thesis by auto
  next
    case (Inr p)
    then obtain ch a where dec: "goal_decide env st ?act req = Inr (ch, a)" by (cases p) auto
    from goal_decide_accepted [OF inv env dec] obtain st' where wf: "goal_change_ok ch"
      and ap: "apply_goal_change st ch = Inr st'" and g: "\<forall>s. ch = ChangeSnapshot s \<longrightarrow> gf_goal st' = Some (sc_goal s)"
      by blast
    have sok: "session_ok (gw_session w)" using ok by (simp add: goal_world_ok_def)
    obtain s where s: "session_ok s" "ses_log s = gw_log w @ [change_event env w ch]"
      "goal_fold_from empty_goal_fold (ses_log s) = Inr st'"
      "commit_goal env ?c ch a (w\<lparr> gw_cache := Some ?c \<rparr>)
        = (w\<lparr> gw_session := s, gw_cache := Some (synced_cache (ses_log s) st' a),
             gw_emitted := gw_emitted w @ [notice_of ch st' a] \<rparr>, Inr (synced_cache (ses_log s) st' a))"
      by (rule commit_goal_lands [OF sok app _ wf st ap]) (use veto in auto)
    have "settle_reply ch (w', Inr (synced_cache (ses_log s) st' a)) = (w', Inr (reply_of ch st' a))" for w'
      using g cache_view_synced [OF goal_fold_inv [OF s(3)], of "ses_log s" a]
      by (auto simp: settle_reply_def reply_of_def goal_view_of_def split: goal_change.split)
    with call s ap show ?thesis by (simp add: dec)
  qed
qed

text \<open>
  C36: over any log the strict replay accepts, whatever the cache has seen of it, a goal operation is one step of
  the compare-and-set register. Where the register refuses, the operation fails with the same error and leaves the
  session and the notifications alone; where it decides a change, exactly one event is appended, the strict replay
  accepts the longer log, its state is the register's next state, the activation is the one decided, one
  notification is emitted and the reply shows the new goal.
\<close>

theorem goal_service_refines:
  assumes ok: "goal_world_ok w" and live: "ge_live env" and app: "\<not> ge_appending env"
    and veto: "\<forall>e. ge_veto env e = None"
    and st: "goal_fold_from empty_goal_fold (ses_log (gw_session w)) = Inr st" and env: "goal_env_ok env st"
  shows "case goal_decide env st (effective_activation w) req of
      Inl x \<Rightarrow> \<exists>w'. call_goal env req w = (w', Inl (GoalRejected x)) \<and> gw_session w' = gw_session w
        \<and> gw_emitted w' = gw_emitted w
    | Inr (ch, a) \<Rightarrow> \<exists>w' st'. call_goal env req w = (w', Inr (reply_of ch st' a))
        \<and> apply_goal_change st ch = Inr st'
        \<and> ses_log (gw_session w') = ses_log (gw_session w) @ [change_event env w ch]
        \<and> goal_fold_from empty_goal_fold (ses_log (gw_session w')) = Inr st'
        \<and> effective_activation w' = a \<and> gw_emitted w' = gw_emitted w @ [notice_of ch st' a]"
  using assms by (rule call_goal_refines)

definition sample_goal_env :: goal_env where
  "sample_goal_env = \<lparr> ge_live = True, ge_now = 20, ge_append_now = 21, ge_uuid = ''u'', ge_appending = False,
     ge_veto = (\<lambda>_. None), ge_default_rounds = 256 \<rparr>"

definition sample_goal_world :: goal_world where
  "sample_goal_world = \<lparr> gw_session = fresh_session sample_header [] (new_surface_manager 0), gw_cache = None, gw_emitted = [] \<rparr>"

lemma sample_goal_world_ok: "goal_world_ok sample_goal_world"
  using fresh_session_ok [OF manager_ok_new [of 0 "[]"], of sample_header]
  by (simp add: goal_world_ok_def sample_goal_world_def new_surface_manager_def)

lemma sample_world_replay:
  "goal_fold_from empty_goal_fold (ses_log (gw_session sample_goal_world)) = Inr empty_goal_fold"
  by (simp add: sample_goal_world_def fresh_session_def goal_fold_from_def)

lemma sample_env_ok: "goal_env_ok sample_goal_env empty_goal_fold"
  by (simp add: goal_env_ok_def sample_goal_env_def empty_goal_fold_def non_negative_safe_def positive_safe_def max_safe_def)

lemma sample_decide: "goal_decide sample_goal_env empty_goal_fold act (ReqCreate '' ship '' None) =
   Inr (ChangeSnapshot \<lparr> sc_operation = OpCreate, sc_goal = \<lparr> gr_id = ''goal-u'', gr_revision = 1,
          gs_objective = ''ship'', gs_phase = GoalActive, gs_reason = None, gs_max_rounds = 256 \<rparr>,
          sc_rounds = 0, sc_created_at = 20, sc_updated_at = 20 \<rparr>, Armed)"
  by (simp add: sample_goal_env_def empty_goal_fold_def resolve_create_def resolve_objective_def js_trim_def js_space_def
      resolve_max_rounds_def safe_num_def safe_int_def max_safe_def)

lemma sample_goal_created:
  "\<exists>w' r. call_goal sample_goal_env (ReqCreate '' ship '' None) sample_goal_world = (w', r)
     \<and> effective_activation w' = Armed"
  using call_goal_refines [OF sample_goal_world_ok _ _ _ sample_world_replay sample_env_ok, of "ReqCreate '' ship '' None"]
  unfolding sample_decide by (auto simp: sample_goal_env_def)

theorem goal_service_refines_witness:
  "\<exists>w' v. call_goal sample_goal_env (ReqCreate '' ship '' None) sample_goal_world = (w', Inr (ReplyView v))
     \<and> gs_objective v = ''ship'' \<and> gr_revision v = 1 \<and> gv_activation v = Armed
     \<and> map gn_operation (gw_emitted w') = [OpCreate]"
  using goal_service_refines [OF sample_goal_world_ok _ _ _ sample_world_replay sample_env_ok, of "ReqCreate '' ship '' None"]
  unfolding sample_decide
  by (auto simp: sample_goal_env_def reply_of_def goal_view_of_def apply_goal_change_def empty_goal_fold_def
      install_snapshot_def goal_snapshot.defs goal_view.defs notice_of_def goal_change_operation_def sample_goal_world_def)

end
