(* ===== verification/Goal_Run.thy ===== *)
theory Goal_Run
  imports Goal_Refines
begin

text \<open>
  Runs of the goal service: its operations, failing or not, in any environment, between appends of other writers
  to the same session (\<open>goal_run\<close>, one rule per kind of step). Along every run the cache is the replay of the
  prefix it has read, and an armed goal is active at a revision this service wrote itself.
\<close>

section \<open>Only the written change is read back\<close>

lemma int_json_inject [simp]: "int_json m = int_json n \<longleftrightarrow> m = n"
  by (simp add: int_json_def)

lemma positive_integer_json_Inr: "positive_integer f (Some (int_json n)) = Inr m \<Longrightarrow> m = n"
  by (drule positive_integer_Inr) simp

lemma non_negative_integer_json_Inr: "non_negative_integer f (Some (int_json n)) = Inr m \<Longrightarrow> m = n"
  by (drule non_negative_integer_Inr) simp

lemma decode_block_reason_json_Inr: "decode_block_reason (Some (reason_json r)) = Inr q \<Longrightarrow> q = r"
  by (auto simp: decode_block_reason_def reason_json_def split: if_splits)

lemma decode_snapshot_json_Inr:
  assumes "decode_snapshot (Some (snapshot_json h)) = Inr g"
  shows "g = h"
proof (cases "gs_reason h")
  case None
  with assms show ?thesis
    by (auto simp: decode_snapshot_def snapshot_json_def joined_keys_payload snapshot_keys_def
        dest!: positive_integer_json_Inr split: if_splits)
next
  case (Some r)
  with assms show ?thesis
    by (cases "decode_block_reason (Some (reason_json r))")
      (auto simp: decode_snapshot_def snapshot_json_def joined_keys_payload snapshot_keys_def
        dest!: positive_integer_json_Inr dest: decode_block_reason_json_Inr split: if_splits)
qed

lemma decode_snapshot_change_Inr:
  assumes "decode_goal_change (goal_change_json (ChangeSnapshot c)) = Inr (Some d)"
  shows "d = ChangeSnapshot c"
proof (cases "sc_operation c = OpClear")
  case True
  with assms show ?thesis
    by (simp add: decode_goal_change_def goal_change_json_def operation_name_def joined_keys_payload)
next
  case False
  then have "operation_name (sc_operation c) \<noteq> ''clear''"
    by (cases "sc_operation c") (simp_all add: operation_name_def)
  with assms False show ?thesis
    by (auto simp: decode_goal_change_def goal_change_json_def joined_keys_payload operation_of_name
        dest!: non_negative_integer_json_Inr decode_snapshot_json_Inr split: if_splits)
qed

section \<open>Arming\<close>

lemma goal_decide_armed:
  assumes "goal_decide env st act req = Inr (ch, Armed)" and "armed_for em st act"
  obtains c where "ch = ChangeSnapshot c" and "gs_phase (sc_goal c) = GoalActive"
    and "sc_operation c \<in> {OpCreate, OpEdit, OpResume}"
proof (cases req)
  case (ReqCreate objective cap)
  with assms(1) show thesis by (auto split: option.splits if_splits intro: that)
next
  case (ReqEdit r objective cap)
  with assms obtain g obj n where "gf_goal st = Some g" "act = Armed" and ch: "ch = next_revision env st OpEdit
        (g\<lparr> gr_revision := gr_revision g + 1, gs_objective := obj, gs_max_rounds := n \<rparr>)"
    by (auto simp: goal_current_Inr split: if_splits)
  with assms(2) have "gs_phase g = GoalActive" by (auto simp: armed_for_def)
  with ch show thesis by (auto simp: next_revision_def intro: that)
next
  case (ReqResume r)
  with assms(1) show thesis by (auto simp: next_revision_def split: if_splits intro: that)
qed (use assms(1) in \<open>auto simp: phase_change_def split: if_splits\<close>)

lemma armed_for_Disarmed [simp]: "armed_for em st Disarmed"
  by (simp add: armed_for_def)

lemma armed_for_mono: "armed_for em st a \<Longrightarrow> armed_for (em @ ns) st a"
  by (auto simp: armed_for_def)

lemma apply_goal_change_snapshot: "apply_goal_change st (ChangeSnapshot c) = Inr st' \<Longrightarrow> gf_goal st' = Some (sc_goal c)"
  by (auto simp: apply_goal_change_def install_snapshot_def split: if_splits option.splits)

section \<open>Every operation keeps the world\<close>

lemma goal_cache_ok_longer: "goal_cache_ok em evs c \<Longrightarrow> goal_cache_ok em (evs @ ds) c"
  by (simp add: goal_cache_ok_def)

lemma commit_goal_keeps:
  assumes ok: "session_ok (gw_session w)" and st: "goal_fold_from empty_goal_fold (gw_log w) = Inr st"
    and act: "armed_for (gw_emitted w) st act" and dec: "goal_decide env st act req = Inr (ch, a)"
    and commit: "commit_goal env (synced_cache (gw_log w) st act) ch a
      (w\<lparr> gw_cache := Some (synced_cache (gw_log w) st act) \<rparr>) = (w', r)"
  shows "goal_world_ok w'"
proof -
  let ?c = "synced_cache (gw_log w) st act"
  obtain s x where a: "append_event (ge_appending env) (ge_veto env) (ge_append_now env) (gw_session w)
      (GoalChange (goal_change_json ch)) None None False = (s, x)" by fastforce
  note s = append_event_ok [OF ok a]
  have settled: "c\<lparr> gc_pending := Some p, gc_pending := None \<rparr> = c\<lparr> gc_pending := None \<rparr>"
    "?c\<lparr> gc_pending := None \<rparr> = ?c" for c p by (simp_all add: synced_cache_def)
  have old: "goal_cache_ok (gw_emitted w) (gw_log w) ?c" by (rule synced_cache_ok [OF st act])
  from a show ?thesis
  proof (cases rule: append_event_cases)
    case (refused m y)
    with a commit s old show ?thesis
      by (auto simp: commit_goal_def Let_def goal_world_ok_def settled)
  next
    case (logged m e)
    let ?p = "?c\<lparr> gc_pending := Some (length (gw_log w), a) \<rparr>"
    have new: "drop (length (gw_log w)) (ses_log s) = [e]" and len: "ses_log s = gw_log w @ [e]" using logged by simp_all
    have e: "ev_data e = GoalChange (goal_change_json ch)" "ev_seq e = length (gw_log w)"
      using logged(1) by (simp_all add: make_event_def)
    show ?thesis
    proof (cases "apply_goal_event st e")
      case (Inl y)
      then have obs: "observe_events ?p [e] = (?p, Some y)" by (simp add: observe_event_fold)
      have "goal_cache_ok (gw_emitted w) (ses_log s) ?c" unfolding len by (rule goal_cache_ok_longer [OF old])
      with commit s show ?thesis
        by (auto simp: commit_goal_def Let_def a logged(2) sync_cache_def new obs goal_world_ok_def settled
            simp del: observe_events.simps)
    next
      case (Inr st')
      then have run: "goal_fold_from empty_goal_fold (ses_log s) = Inr st'"
        using st by (simp add: len goal_fold_from_def run_fold_snoc)
      have obs: "observe_events ?p [e] = ((synced_cache (ses_log s) st' a)\<lparr> gc_pending := Some (length (gw_log w), a) \<rparr>, None)"
        using Inr by (simp add: observe_event_fold activation_step_def len synced_cache_def e)
      have view: "cache_view (synced_cache (ses_log s) st' a) = Inr (goal_view_of st' a)"
        by (rule cache_view_synced [OF goal_fold_inv [OF run]])
      have settled': "(synced_cache (ses_log s) st' a)\<lparr> gc_pending := None \<rparr> = synced_cache (ses_log s) st' a"
        by (simp add: synced_cache_def)
      have w': "w' = w\<lparr> gw_session := s, gw_cache := Some (synced_cache (ses_log s) st' a),
           gw_emitted := gw_emitted w @ [notice_of ch st' a] \<rparr>"
        using commit by (simp add: commit_goal_def sync_cache_def a logged(2) obs view settled settled' new Let_def
            notice_of_def del: observe_events.simps)
      have "armed_for (gw_emitted w @ [notice_of ch st' a]) st' a"
      proof (cases a)
        case Armed
        with dec act obtain c where c: "ch = ChangeSnapshot c" "gs_phase (sc_goal c) = GoalActive"
          "sc_operation c \<in> {OpCreate, OpEdit, OpResume}" by (auto elim: goal_decide_armed)
        from Inr e(1) obtain d where "decode_goal_change (goal_change_json ch) = Inr (Some d)" "apply_goal_change st d = Inr st'"
          by (auto simp: apply_goal_event_def split: option.splits)
        with c decode_snapshot_change_Inr apply_goal_change_snapshot have "gf_goal st' = Some (sc_goal c)" by blast
        moreover have "gn_ref (notice_of ch st' a) = goal_ref.truncate (sc_goal c)"
          "gn_operation (notice_of ch st' a) = sc_operation c"
          by (simp_all add: notice_of_def goal_change_ref_def goal_change_operation_def c(1))
        ultimately show ?thesis
          using c(2,3) unfolding armed_for_def by (intro impI exI [of _ "sc_goal c"] exI [of _ "notice_of ch st' a"]) simp
      qed simp
      with s run show ?thesis by (auto simp: w' goal_world_ok_def intro: synced_cache_ok)
    qed
  qed
qed

lemma synced_world_ok:
  assumes "goal_world_ok w" and "goal_fold_from empty_goal_fold (gw_log w) = Inr st"
  shows "goal_world_ok (w\<lparr> gw_cache := Some (synced_cache (gw_log w) st (effective_activation w)) \<rparr>)"
  using assms synced_cache_ok effective_armed_active by (auto simp: goal_world_ok_def)

lemma prepare_goal_cases:
  assumes ok: "goal_world_ok w"
  obtains (failed) w1 x where "prepare_goal env w = (w1, Inl x)" and "goal_world_ok w1"
  | (ready) st where "ge_live env" and "goal_fold_from empty_goal_fold (gw_log w) = Inr st"
      and "prepare_goal env w = (w\<lparr> gw_cache := Some (synced_cache (gw_log w) st (effective_activation w)) \<rparr>,
        Inr (synced_cache (gw_log w) st (effective_activation w)))"
proof (cases "ge_live env")
  case False
  then have "prepare_goal env w = (w, Inl (GoalRejected AgentNotLive))"
    by (simp add: prepare_goal_def goal_bind_def goal_lift_def)
  with ok failed show thesis by blast
next
  case True
  show thesis
  proof (cases "goal_fold_from empty_goal_fold (gw_log w)")
    case (Inl x)
    with prepare_goal_broken [OF ok True] failed show thesis by blast
  next
    case (Inr st)
    with prepare_goal_synced [OF ok True] True ready show thesis by blast
  qed
qed

lemma call_goal_unprepared:
  "prepare_goal env w = (w1, Inl x) \<Longrightarrow> fst (call_goal env req w) \<in> {w, w1}"
  by (cases req)
    (simp_all add: as_view_def create_goal_def edit_goal_def pause_goal_def resume_goal_def complete_goal_def block_goal_def
      clear_goal_def transition_goal_def goal_bind_def goal_lift_def split: sum.split prod.split)

lemma call_goal_keeps:
  assumes ok: "goal_world_ok w"
  shows "goal_world_ok (fst (call_goal env req w))"
  using ok
proof (cases rule: prepare_goal_cases [of w env])
  case (failed w1 x)
  with call_goal_unprepared [OF failed(1), of req] ok show ?thesis by auto
next
  case (ready st)
  note inv = goal_fold_inv [OF ready(2)] and w1 = synced_world_ok [OF ok ready(2)]
  note call = call_goal_decide [OF ready(3) inv, of req]
  show ?thesis
  proof (cases "goal_decide env st (effective_activation w) req")
    case (Inl x)
    with call ok w1 show ?thesis by auto
  next
    case (Inr p)
    then obtain ch a where dec: "goal_decide env st (effective_activation w) req = Inr (ch, a)" by (cases p) auto
    have "goal_world_ok (fst (commit_goal env (synced_cache (gw_log w) st (effective_activation w)) ch a
        (w\<lparr> gw_cache := Some (synced_cache (gw_log w) st (effective_activation w)) \<rparr>)))"
      by (rule commit_goal_keeps [OF _ ready(2) effective_armed_active [OF ok ready(2)] dec prod.collapse [symmetric]])
        (use ok in \<open>simp add: goal_world_ok_def\<close>)
    with call show ?thesis by (simp add: dec)
  qed
qed

lemma get_goal_keeps: "goal_world_ok w \<Longrightarrow> goal_world_ok (fst (get_goal env w))"
  by (rule prepare_goal_cases [of w env])
    (simp_all add: get_goal_def goal_bind_def synced_world_ok)

lemma disarm_goal_keeps:
  assumes ok: "goal_world_ok w"
  shows "goal_world_ok (fst (disarm_goal env w))"
  using ok
proof (cases rule: prepare_goal_cases [of w env])
  case (ready st)
  have "goal_cache_ok (gw_emitted w) (gw_log w) (synced_cache (gw_log w) st Disarmed)"
    by (rule synced_cache_ok [OF ready(2)]) simp
  with ready ok show ?thesis
    by (simp add: disarm_goal_def goal_bind_def Let_def goal_world_ok_def synced_cache_def)
qed (simp add: disarm_goal_def goal_bind_def)

lemma session_start_goal_keeps:
  assumes ok: "goal_world_ok w"
  shows "goal_world_ok (fst (session_start_goal w))"
proof (cases "gw_cache w")
  case None
  then show ?thesis
    using ok synced_cache_ok [of "gw_log w"]
    by (cases "goal_fold_from empty_goal_fold (gw_log w)")
      (simp_all add: session_start_goal_def goal_bind_def cache_of_def new_goal_cache_def Let_def goal_world_ok_def
        goal_cache_ok_def)
next
  case (Some c)
  with ok show ?thesis
    by (simp add: session_start_goal_def goal_bind_def cache_of_def goal_world_ok_def goal_cache_ok_def)
qed

lemma foreign_append_keeps:
  assumes ok: "goal_world_ok w" and a: "append_event appending veto now (gw_session w) d op srcs ign = (s, r)"
  shows "goal_world_ok (w\<lparr> gw_session := s \<rparr>)"
proof -
  obtain ds where "ses_log s = gw_log w @ ds"
    using append_event_extends [of appending veto now "gw_session w" d op srcs ign] a by auto
  with ok append_event_ok [OF _ a] goal_cache_ok_longer show ?thesis
    by (cases "gw_cache w") (auto simp: goal_world_ok_def)
qed

section \<open>Runs\<close>

inductive goal_run :: "goal_world \<Rightarrow> bool" where
  started: "session_ok s \<Longrightarrow> goal_run \<lparr> gw_session = s, gw_cache = None, gw_emitted = [] \<rparr>"
| called: "goal_run w \<Longrightarrow> call_goal env req w = (w', r) \<Longrightarrow> goal_run w'"
| read: "goal_run w \<Longrightarrow> get_goal env w = (w', v) \<Longrightarrow> goal_run w'"
| disarmed: "goal_run w \<Longrightarrow> disarm_goal env w = (w', v) \<Longrightarrow> goal_run w'"
| restarted: "goal_run w \<Longrightarrow> session_start_goal w = (w', u) \<Longrightarrow> goal_run w'"
| foreign: "goal_run w \<Longrightarrow> append_event appending veto now (gw_session w) d op srcs ign = (s, r) \<Longrightarrow>
    goal_run (w\<lparr> gw_session := s \<rparr>)"

lemma goal_run_ok: "goal_run w \<Longrightarrow> goal_world_ok w"
proof (induction rule: goal_run.induct)
  case (called w env req w' r)
  with call_goal_keeps [of w env req] show ?case by simp
next
  case (read w env w' v)
  with get_goal_keeps [of w env] show ?case by simp
next
  case (disarmed w env w' v)
  with disarm_goal_keeps [of w env] show ?case by simp
next
  case (restarted w w' u)
  with session_start_goal_keeps [of w] show ?case by simp
next
  case (foreign w appending veto now d op srcs ign s r)
  with foreign_append_keeps show ?case by blast
qed (simp add: goal_world_ok_def)

text \<open>
  C37: after any interleaving of goal operations, failing ones included, with foreign appends to the session, the
  cache holds exactly the strict replay of the events it has read and no activation is left pending; and whenever it
  is armed its goal is active at a revision that this service committed itself by a create, an edit or a resume.
  Another writer's goal change therefore never inherits authority to continue.
\<close>

theorem goal_cache_follows_log:
  assumes "goal_run w" and "gw_cache w = Some c"
  shows "goal_fold_from empty_goal_fold (take (gc_observed c) (ses_log (gw_session w))) = Inr (gc_state c)
    \<and> gc_pending c = None
    \<and> (gc_activation c = Armed \<longrightarrow> (\<exists>g n. gf_goal (gc_state c) = Some g \<and> gs_phase g = GoalActive
        \<and> n \<in> set (gw_emitted w) \<and> gn_ref n = goal_ref.truncate g \<and> gn_operation n \<in> {OpCreate, OpEdit, OpResume}))"
  using goal_run_ok [OF assms(1)] assms(2) by (simp add: goal_world_ok_def goal_cache_ok_def armed_for_def)

theorem goal_cache_follows_log_witness:
  "\<exists>w c g n. goal_run w \<and> gw_cache w = Some c \<and> gf_goal (gc_state c) = Some g \<and> gs_phase g = GoalActive
     \<and> n \<in> set (gw_emitted w) \<and> gn_ref n = goal_ref.truncate g"
proof -
  have start: "goal_run sample_goal_world"
    unfolding sample_goal_world_def
    by (rule goal_run.started) (use sample_goal_world_ok in \<open>simp add: goal_world_ok_def sample_goal_world_def\<close>)
  obtain w' r where w': "call_goal sample_goal_env (ReqCreate '' ship '' None) sample_goal_world = (w', r)"
    and armed: "effective_activation w' = Armed" using sample_goal_created by blast
  have run: "goal_run w'" by (rule goal_run.called [OF start w'])
  have "goal_run (fst (get_goal sample_goal_env w'))" by (rule goal_run.read [OF run prod.collapse [symmetric]])
  moreover have "\<exists>c. gw_cache (fst (get_goal sample_goal_env w')) = Some c \<and> gc_activation c = Armed"
    if "goal_fold_from empty_goal_fold (gw_log w') = Inr st" for st
    using prepare_goal_synced [OF goal_run_ok [OF run] _ that, of sample_goal_env] armed
    by (simp add: get_goal_def goal_bind_def sample_goal_env_def)
  moreover obtain st where "goal_fold_from empty_goal_fold (gw_log w') = Inr st"
    using call_goal_refines [OF sample_goal_world_ok _ _ _ sample_world_replay sample_env_ok, of "ReqCreate '' ship '' None"] w'
    unfolding sample_decide by (auto simp: sample_goal_env_def)
  ultimately show ?thesis using goal_cache_follows_log [of "fst (get_goal sample_goal_env w')"] by blast
qed

end
