(* ===== verification/Goal_Driver.thy ===== *)
theory Goal_Driver
  imports Goal_Run
begin

text \<open>
  The goal-round driver (\<^verbatim>\<open>packages/goal/goal-round-driver/src\<close>): the state kept per agent, the listeners,
  one pass of \<^verbatim>\<open>drive\<close> cut at its checkpoint and at \<^verbatim>\<open>followup\<close>, and the pre-step fence cut at the other
  listeners of the step. Handlers are functions of the driver's world; what they read of the agent is the record
  \<open>driver_env\<close>. A requested pass is started by the environment at any later point, which covers every order in
  which the loop of \<^verbatim>\<open>requestDrive\<close>, nested triggers and suspended passes can run. Warnings are not modelled.
\<close>

section \<open>State\<close>

datatype attempt_phase = AttemptQueued | AttemptClaimed | AttemptAdmitted

record round_attempt =
  ra_goal :: string
  ra_revision :: int
  ra_round :: int
  ra_message :: message_id
  ra_content :: "content_block list"
  ra_phase :: attempt_phase
  ra_cancelled :: bool
  ra_stale :: bool

record driver_state =
  ds_attempt :: "round_attempt option"
  ds_competing :: bool
  ds_checkpoint :: bool
  ds_requested :: bool
  ds_stopping :: bool

record driver_world =
  dw_goals :: goal_world
  dw_driver :: driver_state

record driver_env =
  de_goal :: goal_env
  de_active :: bool
  de_idle :: bool
  de_message_id :: message_id

definition new_driver_state :: driver_state where
  "new_driver_state = \<lparr> ds_attempt = None, ds_competing = False, ds_checkpoint = False, ds_requested = False,
     ds_stopping = False \<rparr>"

section \<open>Rounds and reservations\<close>

definition goal_round_source :: "message_source \<Rightarrow> (string \<times> rat \<times> rat) option" where
  "goal_round_source src = (case src of SrcGoal i r n \<Rightarrow> if 0 < n then Some (i, r, n) else None | _ \<Rightarrow> None)"

definition same_round :: "string \<times> rat \<times> rat \<Rightarrow> round_attempt \<Rightarrow> bool" where
  "same_round src a \<longleftrightarrow> src = (ra_goal a, of_int (ra_revision a), of_int (ra_round a))"

definition same_queued :: "content_block list \<Rightarrow> message_source \<Rightarrow> round_attempt \<Rightarrow> bool" where
  "same_queued content src a \<longleftrightarrow> (case goal_round_source src of
       Some r \<Rightarrow> same_round r a \<and> content = ra_content a | None \<Rightarrow> False)"

definition view_ref :: "goal_view \<Rightarrow> goal_ref" where
  "view_ref v = \<lparr> gr_id = gr_id v, gr_revision = gr_revision v \<rparr>"

text \<open>\<^verbatim>\<open>JSON.stringify\<close> of a string.\<close>

definition hex_digit :: "nat \<Rightarrow> char" where
  "hex_digit n = char_of (if n < 10 then 48 + n else 87 + n)"

definition json_escape :: "char \<Rightarrow> string" where
  "json_escape c = (let n = (of_char c :: nat) in
     if c = CHR 0x22 then [CHR 0x5C, CHR 0x22]
     else if c = CHR 0x5C then [CHR 0x5C, CHR 0x5C]
     else if n = 8 then [CHR 0x5C, CHR ''b'']
     else if n = 9 then [CHR 0x5C, CHR ''t'']
     else if n = 10 then [CHR 0x5C, CHR ''n'']
     else if n = 12 then [CHR 0x5C, CHR ''f'']
     else if n = 13 then [CHR 0x5C, CHR ''r'']
     else if n < 32 then [CHR 0x5C, CHR ''u'', CHR ''0'', CHR ''0'', hex_digit (n div 16), hex_digit (n mod 16)]
     else [c])"

definition json_string :: "string \<Rightarrow> string" where
  "json_string s = [CHR 0x22] @ concat (map json_escape s) @ [CHR 0x22]"

definition render_goal_round_prompt :: "goal_view \<Rightarrow> int \<Rightarrow> content_block list" where
  "render_goal_round_prompt v n = [TextBlock (''<goal_round>'' @ [CHR 0x0A]
     @ ''Objective: '' @ json_string (gs_objective v) @ [CHR 0x0A]
     @ ''Round: '' @ show_nat (nat n) @ ''/'' @ show_nat (nat (gs_max_rounds v)) @ [CHR 0x0A, CHR 0x0A]
     @ ''Continue working toward the objective in this same session. Treat the current workspace, ''
     @ ''tool results, and durable session state as authoritative; inspect them instead of assuming ''
     @ ''earlier narration is still current. Make concrete progress and verify the result. Before ''
     @ ''claiming completion, gather evidence that the whole objective is achieved, read the current ''
     @ ''goal, and mark it complete. If work remains, leave the goal active for the next round. Follow ''
     @ ''the configured goal-tool policy before reporting a blocker.'' @ [CHR 0x0A]
     @ ''</goal_round>'')]"

section \<open>Reading and writing the goal\<close>

definition on_goals :: "'a goal_action \<Rightarrow> driver_world \<Rightarrow> driver_world \<times> (goal_failure + 'a)" where
  "on_goals f w = (case f (dw_goals w) of (g, r) \<Rightarrow> (w\<lparr> dw_goals := g \<rparr>, r))"

definition set_driver :: "(driver_state \<Rightarrow> driver_state) \<Rightarrow> driver_world \<Rightarrow> driver_world" where
  "set_driver f w = w\<lparr> dw_driver := f (dw_driver w) \<rparr>"

definition current_goal :: "driver_env \<Rightarrow> goal_view option goal_action" where
  "current_goal env g = (if ge_live (de_goal env) then get_goal (de_goal env) g else (g, Inr None))"

definition request_drive :: "driver_world \<Rightarrow> driver_world" where
  "request_drive = set_driver (\<lambda>d. if ds_stopping d then d else d\<lparr> ds_requested := True \<rparr>)"

text \<open>The \<^verbatim>\<open>goal/changed\<close> listener, which also runs inside the driver's own mutations.\<close>

definition on_goal_changed :: "driver_world \<Rightarrow> driver_world" where
  "on_goal_changed w = request_drive (set_driver (\<lambda>d. d\<lparr> ds_checkpoint := True \<rparr>) w)"

definition mutate_goal :: "driver_env \<Rightarrow> goal_request \<Rightarrow> driver_world \<Rightarrow> driver_world \<times> (goal_failure + goal_reply)" where
  "mutate_goal env req w = (case on_goals (call_goal (de_goal env) req) w of
       (w', Inl x) \<Rightarrow> (w', Inl x)
     | (w', Inr v) \<Rightarrow> (on_goal_changed w', Inr v))"

definition disarm_driver :: "driver_env \<Rightarrow> driver_world \<Rightarrow> driver_world" where
  "disarm_driver env w = (case on_goals (current_goal env) w of
       (w', Inr (Some v)) \<Rightarrow>
         if gv_activation v = Armed then fst (on_goals (disarm_goal (de_goal env)) w') else w'
     | (w', _) \<Rightarrow> w')"

definition ready_to_drive :: "driver_env \<Rightarrow> driver_world \<Rightarrow> bool" where
  "ready_to_drive env w \<longleftrightarrow> de_active env \<and> \<not> ds_stopping (dw_driver w) \<and> ge_live (de_goal env) \<and> de_idle env
     \<and> \<not> ds_competing (dw_driver w)"

definition ready_after_checkpoint :: "driver_env \<Rightarrow> driver_world \<Rightarrow> bool" where
  "ready_after_checkpoint env w \<longleftrightarrow> ready_to_drive env w \<and> \<not> ds_checkpoint (dw_driver w)"

definition block_request :: "goal_view \<Rightarrow> string \<Rightarrow> string \<Rightarrow> goal_request" where
  "block_request v code msg = ReqBlock (view_ref v) (JObj [(''code'', JStr code), (''message'', JStr msg)])"

definition restore_other_claimed ::
  "message list \<Rightarrow> message list \<Rightarrow> message list \<Rightarrow> message_id \<Rightarrow> message list" where
  "restore_other_claimed next_step next_turn messages mid =
     foldr (\<lambda>m step. if message_id m \<in> message_id ` set step \<or> message_id m \<in> message_id ` set next_turn then step
              else m # step)
       (filter (\<lambda>m. message_id m \<noteq> mid \<and> (case message_source m of SrcGoal _ _ n \<Rightarrow> n \<noteq> 0 | _ \<Rightarrow> True)) messages) next_step"

section \<open>One pass\<close>

datatype drive_point =
    DriveDone
  | DriveFlush
  | DriveFollowup goal_view message

text \<open>A mutation that throws is caught by the loop of \<^verbatim>\<open>requestDrive\<close>, which disarms.\<close>

definition settle_mutation :: "driver_env \<Rightarrow> driver_world \<times> (goal_failure + goal_reply) \<Rightarrow> driver_world" where
  "settle_mutation env p = (case p of (w, Inl _) \<Rightarrow> disarm_driver env w | (w, Inr _) \<Rightarrow> w)"

definition round_limit_text :: "goal_view \<Rightarrow> string" where
  "round_limit_text v = ''Goal reached its configured limit of '' @ show_nat (nat (gs_max_rounds v)) @ '' rounds.''"

definition drive_rest :: "driver_env \<Rightarrow> driver_world \<Rightarrow> driver_world \<times> drive_point" where
  "drive_rest env w =
     (if ds_attempt (dw_driver w) \<noteq> None
      then (set_driver (\<lambda>d. d\<lparr> ds_attempt := None, ds_checkpoint := True, ds_requested := True \<rparr>) w, DriveDone)
      else case on_goals (current_goal env) w of
          (w', Inl _) \<Rightarrow> (disarm_driver env w', DriveDone)
        | (w', Inr None) \<Rightarrow> (w', DriveDone)
        | (w', Inr (Some v)) \<Rightarrow>
            if gs_phase v \<noteq> GoalActive \<or> gv_activation v \<noteq> Armed then (w', DriveDone)
            else if gs_max_rounds v \<le> gv_rounds v
            then (settle_mutation env (mutate_goal env (block_request v ''round-limit'' (round_limit_text v)) w'), DriveDone)
            else
              let n = gv_rounds v + 1; content = render_goal_round_prompt v n;
                  m = create_user_message (de_message_id env) content (SrcGoal (gr_id v) (of_int (gr_revision v)) (of_int n));
                  a = \<lparr> ra_goal = gr_id v, ra_revision = gr_revision v, ra_round = n, ra_message = message_id m,
                        ra_content = content, ra_phase = AttemptQueued, ra_cancelled = False, ra_stale = False \<rparr>
              in (set_driver (\<lambda>d. d\<lparr> ds_attempt := Some a \<rparr>) w', DriveFollowup v m))"

definition drive_begin :: "driver_env \<Rightarrow> driver_world \<Rightarrow> driver_world \<times> drive_point" where
  "drive_begin env w =
     (if \<not> ready_to_drive env w then (w, DriveDone)
      else if ds_checkpoint (dw_driver w) then (set_driver (\<lambda>d. d\<lparr> ds_checkpoint := False \<rparr>) w, DriveFlush)
      else drive_rest env w)"

definition drive_flushed :: "driver_env \<Rightarrow> bool \<Rightarrow> driver_world \<Rightarrow> driver_world \<times> drive_point" where
  "drive_flushed env ok w =
     (if \<not> ok then (disarm_driver env w, DriveDone)
      else if \<not> ready_after_checkpoint env w then (w, DriveDone)
      else drive_rest env w)"

definition drive_followup_failed :: "driver_env \<Rightarrow> goal_view \<Rightarrow> string \<Rightarrow> driver_world \<Rightarrow> driver_world" where
  "drive_followup_failed env v why w =
     (case on_goals (current_goal env) (set_driver (\<lambda>d. d\<lparr> ds_attempt := None \<rparr>) w) of
        (w', Inl _) \<Rightarrow> disarm_driver env w'
      | (w', Inr None) \<Rightarrow> w'
      | (w', Inr (Some u)) \<Rightarrow>
          if view_ref u = view_ref v \<and> gs_phase u = GoalActive \<and> gv_activation u = Armed
          then settle_mutation env (mutate_goal env (block_request u ''queue-failed''
             (''Could not queue goal round '' @ show_nat (nat (gv_rounds v + 1)) @ '': '' @ why)) w')
          else w')"

text \<open>One turn of the loop body: the request is consumed before the pass starts.\<close>

definition drive_pass :: "driver_env \<Rightarrow> driver_world \<Rightarrow> driver_world \<times> drive_point" where
  "drive_pass env w =
     (if ds_requested (dw_driver w) \<and> \<not> ds_stopping (dw_driver w)
      then drive_begin env (set_driver (\<lambda>d. d\<lparr> ds_requested := False \<rparr>) w) else (w, DriveDone))"

section \<open>Listeners\<close>

definition on_session_start :: "driver_world \<Rightarrow> driver_world" where
  "on_session_start = set_driver (\<lambda>d. d\<lparr> ds_attempt := None, ds_competing := False, ds_checkpoint := False \<rparr>)"

definition attempt_dropped :: "round_attempt \<Rightarrow> bool" where
  "attempt_dropped a \<longleftrightarrow> ra_phase a \<in> {AttemptQueued, AttemptClaimed} \<or> ra_cancelled a"

text \<open>
  The \<^verbatim>\<open>agent/status\<close> listener. A read that throws ends the listener before it requests a pass; a pause that
  throws disarms.
\<close>

definition on_idle :: "driver_env \<Rightarrow> driver_world \<Rightarrow> driver_world" where
  "on_idle env w =
     (let w1 = set_driver (\<lambda>d. d\<lparr> ds_competing := False \<rparr>) w in
      case on_goals (current_goal env) w1 of
        (w2, Inl _) \<Rightarrow> w2
      | (w2, Inr g) \<Rightarrow>
          request_drive (case (ds_attempt (dw_driver w2), g) of
              (Some a, Some v) \<Rightarrow>
                if attempt_dropped a \<and> gs_phase v = GoalActive \<and> gv_activation v = Armed
                then settle_mutation env (mutate_goal env (ReqPause (view_ref v))
                       (set_driver (\<lambda>d. d\<lparr> ds_attempt := None \<rparr>) w2))
                else w2
            | _ \<Rightarrow> w2))"

definition update_attempt :: "(round_attempt \<Rightarrow> round_attempt) \<Rightarrow> driver_state \<Rightarrow> driver_state" where
  "update_attempt f d = d\<lparr> ds_attempt := map_option f (ds_attempt d) \<rparr>"

definition queued_attempt :: "message \<Rightarrow> driver_state \<Rightarrow> bool" where
  "queued_attempt m d \<longleftrightarrow> (case ds_attempt d of
       Some a \<Rightarrow> same_queued (message_content m) (message_source m) a | None \<Rightarrow> False)"

definition on_inserted :: "bool \<Rightarrow> message \<Rightarrow> driver_state \<Rightarrow> driver_state" where
  "on_inserted in_next_turn m d =
     (if \<not> in_next_turn \<or> queued_attempt m d then d
      else update_attempt (\<lambda>a. if ra_phase a = AttemptQueued then a\<lparr> ra_stale := True \<rparr> else a) (d\<lparr> ds_competing := True \<rparr>))"

definition on_claimed :: "message \<Rightarrow> driver_state \<Rightarrow> driver_state" where
  "on_claimed m d = (if queued_attempt m d then update_attempt (\<lambda>a. a\<lparr> ra_phase := AttemptClaimed \<rparr>) d else d)"

definition on_discarded :: "message \<Rightarrow> driver_state \<Rightarrow> driver_state" where
  "on_discarded m d = (if queued_attempt m d then update_attempt (\<lambda>a. a\<lparr> ra_cancelled := True \<rparr>) d else d)"

definition on_session_event :: "driver_env \<Rightarrow> session_event \<Rightarrow> driver_world \<Rightarrow> driver_world" where
  "on_session_event env e w = (case ev_data e of
       UserMessage m \<Rightarrow>
         set_driver (update_attempt (\<lambda>a. if message_id m = ra_message a then a\<lparr> ra_phase := AttemptAdmitted \<rparr> else a)) w
     | TurnEnd _ EndMaxTokens \<Rightarrow> disarm_driver env w
     | TurnEnd _ (EndAborted _) \<Rightarrow>
         (case ds_attempt (dw_driver w) of
            Some a \<Rightarrow>
              if ra_phase a \<in> {AttemptClaimed, AttemptAdmitted}
              then set_driver (update_attempt (\<lambda>a. a\<lparr> ra_cancelled := True \<rparr>)) w else disarm_driver env w
          | None \<Rightarrow> disarm_driver env w)
     | _ \<Rightarrow> w)"

text \<open>The effect's disposer, up to its waits.\<close>

definition on_stop :: "driver_env \<Rightarrow> driver_world \<Rightarrow> driver_world" where
  "on_stop env w = set_driver (update_attempt (\<lambda>a. a\<lparr> ra_stale := True \<rparr>))
     (disarm_driver env (set_driver (\<lambda>d. d\<lparr> ds_stopping := True \<rparr>) w))"

section \<open>The pre-step fence\<close>

text \<open>\<open>None\<close>: the goal could not be read.\<close>

definition valid_reservation :: "driver_env \<Rightarrow> message \<Rightarrow> driver_world \<Rightarrow> driver_world \<times> bool option" where
  "valid_reservation env m w = (case on_goals (current_goal env) w of
       (w', Inl _) \<Rightarrow> (w', None)
     | (w', Inr g) \<Rightarrow>
         (w', Some (de_active env \<and> \<not> ds_stopping (dw_driver w')
           \<and> (case (ds_attempt (dw_driver w'), g, goal_round_source (message_source m)) of
                (Some a, Some v, Some (i, r, n)) \<Rightarrow>
                  ra_phase a = AttemptClaimed \<and> \<not> ra_stale a \<and> same_queued (message_content m) (message_source m) a
                  \<and> gr_id v = i \<and> of_int (gr_revision v) = r \<and> gs_phase v = GoalActive \<and> gv_activation v = Armed
                  \<and> n = of_int (gv_rounds v + 1)
              | _ \<Rightarrow> False))))"

definition checked_reservation :: "driver_env \<Rightarrow> message \<Rightarrow> driver_world \<Rightarrow> driver_world \<times> bool" where
  "checked_reservation env m w = (case valid_reservation env m w of
       (w', Some b) \<Rightarrow> (w', b) | (w', None) \<Rightarrow> (disarm_driver env w', False))"

datatype fence_point =
    FencePass
  | FenceReject "message list"
  | FenceWait message

definition submitted_round :: "message list \<Rightarrow> message option" where
  "submitted_round ms = find (\<lambda>m. goal_round_source (message_source m) \<noteq> None) ms"

definition fence_begin ::
  "driver_env \<Rightarrow> message list \<Rightarrow> message list \<Rightarrow> message list \<Rightarrow> driver_world \<Rightarrow> driver_world \<times> fence_point" where
  "fence_begin env next_step next_turn ms w = (case submitted_round ms of
       None \<Rightarrow> (w, FencePass)
     | Some m \<Rightarrow>
         (case checked_reservation env m w of
            (w', True) \<Rightarrow> (w', FenceWait m)
          | (w', False) \<Rightarrow>
              (request_drive (set_driver (\<lambda>d. case (ds_attempt d, goal_round_source (message_source m)) of
                   (Some a, Some src) \<Rightarrow> if same_round src a then d\<lparr> ds_attempt := None \<rparr> else d
                 | _ \<Rightarrow> d) w'),
               FenceReject (restore_other_claimed next_step next_turn ms (message_id m)))))"

datatype next_outcome =
    NextThrew bool
  | NextRejected bool
  | NextEntered bool "message list"

datatype fence_result =
    FenceRethrow
  | FenceRejected "message list"
  | FenceEntered "message list" "message list"

text \<open>
  The boolean of an outcome says whether the signal was aborted meanwhile; a result carries the next-step list the
  fence leaves and, when the step is entered, its messages. A read or a block that throws passes its error on.
\<close>

definition fence_resume ::
  "driver_env \<Rightarrow> message \<Rightarrow> message list \<Rightarrow> message list \<Rightarrow> next_outcome \<Rightarrow> driver_world \<Rightarrow> driver_world \<times> fence_result" where
  "fence_resume env m next_step next_turn outcome w = (case outcome of
       NextThrew aborted \<Rightarrow>
         (if aborted then w else request_drive (set_driver (\<lambda>d. d\<lparr> ds_attempt := None \<rparr>) w), FenceRethrow)
     | NextRejected True \<Rightarrow> (w, FenceRejected next_step)
     | NextRejected False \<Rightarrow>
         (case on_goals (current_goal env) (set_driver (\<lambda>d. d\<lparr> ds_attempt := None \<rparr>) w) of
            (w', Inl _) \<Rightarrow> (w', FenceRethrow)
          | (w', Inr g) \<Rightarrow>
              (case (g, goal_round_source (message_source m)) of
                 (Some v, Some (i, r, _)) \<Rightarrow>
                   if gr_id v = i \<and> of_int (gr_revision v) = r \<and> gs_phase v = GoalActive \<and> gv_activation v = Armed
                   then (case mutate_goal env (block_request v ''prompt-rejected''
                          ''Goal round was rejected before entering its step.'') w' of
                       (w'', Inl _) \<Rightarrow> (w'', FenceRethrow)
                     | (w'', Inr _) \<Rightarrow> (w'', FenceRejected next_step))
                   else (w', FenceRejected next_step)
               | _ \<Rightarrow> (w', FenceRejected next_step)))
     | NextEntered True ms \<Rightarrow> (w, FenceEntered (restore_other_claimed next_step next_turn ms (message_id m)) ms)
     | NextEntered False ms \<Rightarrow>
         (case checked_reservation env m w of
            (w', True) \<Rightarrow> (w', FenceEntered next_step ms)
          | (w', False) \<Rightarrow>
              (request_drive (set_driver (\<lambda>d. d\<lparr> ds_attempt := None \<rparr>) w'),
               FenceRejected (restore_other_claimed next_step next_turn ms (message_id m)))))"

end
