(* ===== verification/Goal_Driver_Run.thy ===== *)
theory Goal_Driver_Run
  imports Goal_Driver
begin

text \<open>
  Runs of the goal-round driver between steps of everything else that touches the goal or the session. The
  reservation in the driver's state always refers to a revision written in the log with room for its round, and
  because a ref names one snapshot for ever, a round the fence lets through is the one the strict replay admits.
\<close>

section \<open>Every operation only extends the log\<close>

definition extends :: "goal_world \<Rightarrow> goal_world \<Rightarrow> bool" where
  "extends w w' \<longleftrightarrow> (\<exists>ds. gw_log w' = gw_log w @ ds)"

lemma extends_refl [simp]: "extends w w"
  by (simp add: extends_def)

lemma extends_trans: "extends u v \<Longrightarrow> extends v w \<Longrightarrow> extends u w"
  by (auto simp: extends_def)

lemma extends_same: "gw_session w' = gw_session w \<Longrightarrow> extends w w'"
  by (simp add: extends_def)

definition extending :: "'a goal_action \<Rightarrow> bool" where
  "extending f \<longleftrightarrow> (\<forall>w. extends w (fst (f w)))"

lemma extending_bind: "extending f \<Longrightarrow> (\<And>a. extending (g a)) \<Longrightarrow> extending (goal_bind f g)"
proof -
  assume f: "extending f" and g: "\<And>a. extending (g a)"
  have "extends w (fst (goal_bind f g w))" for w
  proof (cases "f w")
    case (Pair w' r)
    moreover have "extends w w'" using f Pair by (auto simp: extending_def dest: spec [of _ w])
    moreover have "extends w' (fst (g a w'))" for a using g by (simp add: extending_def)
    ultimately show ?thesis by (cases r) (auto simp: goal_bind_def intro: extends_trans)
  qed
  then show ?thesis by (simp add: extending_def)
qed

lemma extending_lift: "extending (goal_lift r)"
  by (simp add: extending_def goal_lift_def)

lemma extending_result: "extending (\<lambda>w. (w, r))"
  by (simp add: extending_def)

lemma extending_result': "extending (\<lambda>w. (w, f w))"
  by (simp add: extending_def)

lemma extending_cache_of: "extending cache_of"
  by (auto simp: extending_def cache_of_def Let_def intro!: extends_same split: option.split sum.split)

lemma extending_sync_cache: "extending (sync_cache c)"
  by (auto simp: extending_def sync_cache_def intro!: extends_same split: prod.split option.split)

lemma extending_commit_goal: "extending (commit_goal env c ch a)"
proof -
  have "extends w (fst (commit_goal env c ch a w))" for w
  proof (cases "append_event (ge_appending env) (ge_veto env) (ge_append_now env) (gw_session w)
            (GoalChange (goal_change_json ch)) None None False")
    case (Pair s r)
    then obtain ds where "ses_log s = gw_log w @ ds"
      using append_event_extends [of "ge_appending env" "ge_veto env" "ge_append_now env" "gw_session w"
          "GoalChange (goal_change_json ch)" None None False] by auto
    with Pair show ?thesis
      by (auto simp: commit_goal_def sync_cache_def Let_def extends_def split: sum.split prod.split option.split)
  qed
  then show ?thesis by (simp add: extending_def)
qed

lemma extending_prepare: "extending (prepare_goal env)"
  unfolding prepare_goal_def by (intro extending_bind extending_lift extending_cache_of extending_sync_cache)

lemma extending_commit_current: "extending (commit_current env c oper g a)"
proof -
  have "extending (commit_snapshot env c s a)" for s
    unfolding commit_snapshot_def by (intro extending_bind extending_commit_goal extending_result')
  then show ?thesis by (auto simp: extending_def commit_current_def split: sum.split)
qed

lemma extending_commit_snapshot: "extending (commit_snapshot env c s a)"
  unfolding commit_snapshot_def by (intro extending_bind extending_commit_goal extending_result')

lemmas extending_intros = extending_bind extending_lift extending_prepare extending_commit_current extending_commit_snapshot
  extending_commit_goal extending_result

lemma extending_get: "extending (get_goal env)"
  unfolding get_goal_def by (intro extending_intros)

lemma extending_disarm: "extending (disarm_goal env)"
proof -
  have "extending (\<lambda>w. let c' = c\<lparr> gc_activation := Disarmed \<rparr> in (w\<lparr> gw_cache := Some c' \<rparr>, cache_view c'))" for c
    by (simp add: extending_def Let_def extends_same)
  then show ?thesis unfolding disarm_goal_def by (intro extending_bind extending_prepare)
qed

lemma extending_transition: "extending (transition_goal env r oper allowed p a)"
  unfolding transition_goal_def by (intro extending_intros)

lemma extending_create: "extending (create_goal env objective cap)"
  unfolding create_goal_def by (intro extending_bind extending_lift) (auto intro!: extending_intros)

lemma extending_call: "extending (call_goal env req)"
  by (cases req)
    (auto simp: as_view_def edit_goal_def pause_goal_def resume_goal_def complete_goal_def block_goal_def clear_goal_def
      Let_def intro!: extending_intros extending_transition extending_create)

section \<open>The current goal is in the log\<close>

definition written :: "session_event list \<Rightarrow> goal_snapshot \<Rightarrow> bool" where
  "written evs g \<longleftrightarrow> (\<exists>c. ChangeSnapshot c \<in> set (List.map_filter change_of evs) \<and> sc_goal c = g)"

lemma written_longer: "written evs g \<Longrightarrow> written (evs @ ds) g"
  by (auto simp: written_def map_filter_append)

interpretation current_written: fold_invariant apply_goal_event empty_goal_fold
  "\<lambda>evs st. \<forall>g. gf_goal st = Some g \<longrightarrow> written evs g"
proof unfold_locales
  fix evs st e st'
  assume inv: "\<forall>g. gf_goal st = Some g \<longrightarrow> written evs g" and step: "apply_goal_event st e = Inr st'"
  have new: "written (evs @ [e]) (sc_goal c)" if "change_of e = Some (ChangeSnapshot c)" for c
    using that by (auto simp: written_def map_filter_snoc)
  from step show "\<forall>g. gf_goal st' = Some g \<longrightarrow> written (evs @ [e]) g"
    by (cases rule: apply_goal_eventE) (use inv new in \<open>auto simp: install_snapshot_def intro: written_longer\<close>)
qed (simp add: empty_goal_fold_def)

lemma written_unique:
  assumes "goal_fold_from empty_goal_fold evs = Inr st" and "written evs g" and "written evs h"
    and "gr_id g = gr_id h" and "gr_revision g = gr_revision h"
  shows "g = h"
proof -
  let ?cs = "List.map_filter change_of evs"
  have "inj_on goal_change_ref (set ?cs)"
    using goal_inv_distinct_refs [OF goal_fold_inv [OF assms(1)]] by (simp add: log_refs_def distinct_map)
  moreover obtain c d where "ChangeSnapshot c \<in> set ?cs" "sc_goal c = g" "ChangeSnapshot d \<in> set ?cs" "sc_goal d = h"
    using assms(2,3) by (auto simp: written_def)
  moreover have "goal_change_ref (ChangeSnapshot c) = goal_change_ref (ChangeSnapshot d)"
    using assms(4,5) calculation by (simp add: goal_change_ref_def goal_ref.truncate_def)
  ultimately show ?thesis by (auto dest: inj_onD)
qed

section \<open>What a read shows\<close>

lemma get_goal_shows:
  assumes ok: "goal_world_ok g" and get: "get_goal env g = (g', Inr (Some v))"
  obtains st s where "goal_fold_from empty_goal_fold (gw_log g) = Inr st" and "gf_goal st = Some s"
    and "gw_session g' = gw_session g" and "effective_activation g' = gv_activation v"
    and "gr_id v = gr_id s" and "gr_revision v = gr_revision s" and "gs_phase v = gs_phase s"
    and "gs_max_rounds v = gs_max_rounds s" and "gv_rounds v = gf_rounds st"
  using ok
proof (cases rule: prepare_goal_cases [of g env])
  case (failed w1 x)
  with get show thesis by (simp add: get_goal_def goal_bind_def)
next
  case (ready st)
  with get have g': "g' = g\<lparr> gw_cache := Some (synced_cache (gw_log g) st (effective_activation g)) \<rparr>"
    and v: "goal_view_of st (effective_activation g) = Some v"
    using cache_view_synced [OF goal_fold_inv [OF ready(2)]] by (auto simp: get_goal_def goal_bind_def)
  from v obtain s where s: "gf_goal st = Some s" "v = goal_snapshot.extend s
      (goal_view.fields (gf_rounds st) (the (gf_created_at st)) (the (gf_updated_at st)) (effective_activation g))"
    by (auto simp: goal_view_of_def)
  show thesis
    by (rule that [OF ready(2) s(1)]) (simp_all add: g' s(2) goal_snapshot.defs goal_view.defs)
qed

section \<open>The driver's invariant\<close>

definition attempt_backed :: "session_event list \<Rightarrow> round_attempt \<Rightarrow> bool" where
  "attempt_backed evs a \<longleftrightarrow> (\<exists>g. written evs g \<and> gr_id g = ra_goal a \<and> gr_revision g = ra_revision a
     \<and> ra_round a \<le> gs_max_rounds g)"

definition driver_ok :: "driver_world \<Rightarrow> bool" where
  "driver_ok w \<longleftrightarrow> goal_run (dw_goals w)
     \<and> pred_option (attempt_backed (gw_log (dw_goals w))) (ds_attempt (dw_driver w))"

lemma attempt_backed_longer: "attempt_backed evs a \<Longrightarrow> attempt_backed (evs @ ds) a"
  by (auto simp: attempt_backed_def intro: written_longer)

lemma driver_ok_goals:
  assumes "driver_ok w" and "goal_run g" and "extends (dw_goals w) g"
  shows "driver_ok (w\<lparr> dw_goals := g \<rparr>)"
  using assms attempt_backed_longer
  by (cases "ds_attempt (dw_driver w)") (auto simp: driver_ok_def extends_def)

definition running :: "'a goal_action \<Rightarrow> bool" where
  "running f \<longleftrightarrow> extending f \<and> (\<forall>w. goal_run w \<longrightarrow> goal_run (fst (f w)))"

lemma running_get: "running (get_goal env)"
  by (auto simp: running_def extending_get intro: goal_run.read [OF _ prod.collapse [symmetric]])

lemma running_disarm: "running (disarm_goal env)"
  by (auto simp: running_def extending_disarm intro: goal_run.disarmed [OF _ prod.collapse [symmetric]])

lemma running_call: "running (call_goal env req)"
  by (auto simp: running_def extending_call intro: goal_run.called [OF _ prod.collapse [symmetric]])

lemma running_current: "running (current_goal env)"
  using running_get [of "de_goal env"] by (simp add: running_def current_goal_def extending_def)

lemma on_goals_keeps: "running f \<Longrightarrow> driver_ok w \<Longrightarrow> driver_ok (fst (on_goals f w))"
  using driver_ok_goals [of w "fst (f (dw_goals w))"]
  by (auto simp: on_goals_def running_def extending_def driver_ok_def split: prod.split)

lemma on_goals_driver [simp]: "dw_driver (fst (on_goals f w)) = dw_driver w"
  by (simp add: on_goals_def split: prod.split)

definition same_reservation :: "round_attempt \<Rightarrow> round_attempt \<Rightarrow> bool" where
  "same_reservation a b \<longleftrightarrow> ra_goal a = ra_goal b \<and> ra_revision a = ra_revision b \<and> ra_round a = ra_round b"

definition tame :: "(driver_state \<Rightarrow> driver_state) \<Rightarrow> bool" where
  "tame f \<longleftrightarrow> (\<forall>d a. ds_attempt (f d) = Some a \<longrightarrow> (\<exists>b. ds_attempt d = Some b \<and> same_reservation b a))"

lemma set_driver_keeps: "tame f \<Longrightarrow> driver_ok w \<Longrightarrow> driver_ok (set_driver f w)"
  by (cases "ds_attempt (f (dw_driver w))")
    (fastforce simp: tame_def driver_ok_def set_driver_def attempt_backed_def same_reservation_def)+

lemma tame_update_attempt: "(\<And>a. same_reservation a (f a)) \<Longrightarrow> tame (update_attempt f)"
  by (auto simp: tame_def update_attempt_def)

lemma same_reservation_refl [simp]: "same_reservation a a"
  by (simp add: same_reservation_def)

lemma request_drive_keeps: "driver_ok w \<Longrightarrow> driver_ok (request_drive w)"
  unfolding request_drive_def by (rule set_driver_keeps) (auto simp: tame_def)

lemma on_goal_changed_keeps: "driver_ok w \<Longrightarrow> driver_ok (on_goal_changed w)"
  unfolding on_goal_changed_def by (intro request_drive_keeps set_driver_keeps) (auto simp: tame_def)

lemma mutate_goal_keeps: "driver_ok w \<Longrightarrow> driver_ok (fst (mutate_goal env req w))"
  using on_goals_keeps [OF running_call [of "de_goal env" req], of w] on_goal_changed_keeps
  by (auto simp: mutate_goal_def split: prod.split sum.split)

lemma disarm_driver_keeps: "driver_ok w \<Longrightarrow> driver_ok (disarm_driver env w)"
proof -
  assume "driver_ok w"
  then have "driver_ok (fst (on_goals (current_goal env) w))" by (rule on_goals_keeps [OF running_current])
  then show ?thesis
    using on_goals_keeps [OF running_disarm [of "de_goal env"]]
    by (auto simp: disarm_driver_def split: prod.split sum.split option.split)
qed

lemma settle_mutation_keeps: "driver_ok (fst p) \<Longrightarrow> driver_ok (settle_mutation env p)"
  by (auto simp: settle_mutation_def disarm_driver_keeps split: prod.split sum.split)

section \<open>Runs\<close>

datatype driver_event =
    EvDisarm
  | EvGoalChanged
  | EvSessionStart
  | EvIdle
  | EvInserted bool message
  | EvClaimed message
  | EvDiscarded message
  | EvSession session_event
  | EvStop
  | EvPass
  | EvFlushed bool
  | EvFollowupFailed goal_view string
  | EvFence "message list" "message list" "message list"
  | EvFenceNext message "message list" "message list" next_outcome

fun driver_handle :: "driver_env \<Rightarrow> driver_event \<Rightarrow> driver_world \<Rightarrow> driver_world" where
  "driver_handle env EvDisarm w = disarm_driver env w"
| "driver_handle env EvGoalChanged w = on_goal_changed w"
| "driver_handle env EvSessionStart w = on_session_start w"
| "driver_handle env EvIdle w = on_idle env w"
| "driver_handle env (EvInserted b m) w = set_driver (on_inserted b m) w"
| "driver_handle env (EvClaimed m) w = set_driver (on_claimed m) w"
| "driver_handle env (EvDiscarded m) w = set_driver (on_discarded m) w"
| "driver_handle env (EvSession e) w = on_session_event env e w"
| "driver_handle env EvStop w = on_stop env w"
| "driver_handle env EvPass w = fst (drive_pass env w)"
| "driver_handle env (EvFlushed ok) w = fst (drive_flushed env ok w)"
| "driver_handle env (EvFollowupFailed v why) w = drive_followup_failed env v why w"
| "driver_handle env (EvFence ns nt ms) w = fst (fence_begin env ns nt ms w)"
| "driver_handle env (EvFenceNext m ns nt outcome) w = fst (fence_resume env m ns nt outcome w)"

inductive driver_run :: "driver_world \<Rightarrow> bool" where
  installed: "goal_run g \<Longrightarrow> driver_run \<lparr> dw_goals = g, dw_driver = new_driver_state \<rparr>"
| others: "driver_run w \<Longrightarrow> goal_run g \<Longrightarrow> extends (dw_goals w) g \<Longrightarrow> driver_run (w\<lparr> dw_goals := g \<rparr>)"
| handled: "driver_run w \<Longrightarrow> driver_run (driver_handle env ev w)"

lemma drop_attempt_keeps:
  "driver_ok w \<Longrightarrow> driver_ok (set_driver (\<lambda>d. d\<lparr> ds_attempt := None \<rparr>) w)"
  "driver_ok w \<Longrightarrow> driver_ok (set_driver (\<lambda>d. d\<lparr> ds_attempt := None, ds_checkpoint := b, ds_requested := r \<rparr>) w)"
  "driver_ok w \<Longrightarrow> driver_ok (set_driver (\<lambda>d. d\<lparr> ds_attempt := None, ds_competing := b, ds_checkpoint := r \<rparr>) w)"
  "driver_ok w \<Longrightarrow> driver_ok (set_driver (\<lambda>d. d\<lparr> ds_checkpoint := b \<rparr>) w)"
  "driver_ok w \<Longrightarrow> driver_ok (set_driver (\<lambda>d. d\<lparr> ds_requested := b \<rparr>) w)"
  "driver_ok w \<Longrightarrow> driver_ok (set_driver (\<lambda>d. d\<lparr> ds_stopping := b \<rparr>) w)"
  "driver_ok w \<Longrightarrow> driver_ok (set_driver (\<lambda>d. d\<lparr> ds_competing := b \<rparr>) w)"
  by (rule set_driver_keeps; simp add: tame_def)+

text \<open>A reservation made from a view read just before is backed by the log.\<close>

lemma reservation_backed:
  assumes ok: "driver_ok w" and read: "on_goals (current_goal env) w = (w', Inr (Some v))" and room: "gv_rounds v < gs_max_rounds v"
    and a: "ra_goal a = gr_id v" "ra_revision a = gr_revision v" "ra_round a = gv_rounds v + 1"
  shows "driver_ok (set_driver (\<lambda>d. d\<lparr> ds_attempt := Some a \<rparr>) w')"
proof -
  from read obtain g' where get: "get_goal (de_goal env) (dw_goals w) = (g', Inr (Some v))" and w': "w' = w\<lparr> dw_goals := g' \<rparr>"
    by (auto simp: on_goals_def current_goal_def split: prod.splits if_splits)
  have world: "goal_world_ok (dw_goals w)" using ok goal_run_ok by (simp add: driver_ok_def)
  from get_goal_shows [OF world get] obtain st s where s: "goal_fold_from empty_goal_fold (gw_log (dw_goals w)) = Inr st"
    "gf_goal st = Some s" "gw_session g' = gw_session (dw_goals w)" "gr_id v = gr_id s" "gr_revision v = gr_revision s"
    "gs_max_rounds v = gs_max_rounds s" by metis
  have "written (gw_log (dw_goals w)) s"
    using current_written.run_inv [OF s(1) [unfolded goal_fold_from_def]] s(2) by simp
  with s room a have "attempt_backed (gw_log (dw_goals w')) a" by (auto simp: attempt_backed_def w')
  moreover have "driver_ok w'" using on_goals_keeps [OF running_current ok, of env] read by simp
  ultimately show ?thesis by (simp add: driver_ok_def set_driver_def)
qed

lemma drive_rest_keeps:
  assumes ok: "driver_ok w"
  shows "driver_ok (fst (drive_rest env w))"
proof (cases "ds_attempt (dw_driver w)")
  case (Some a)
  with drop_attempt_keeps(2) [OF ok] show ?thesis by (simp add: drive_rest_def)
next
  case None
  obtain w' r where read: "on_goals (current_goal env) w = (w', r)" by fastforce
  with on_goals_keeps [OF running_current ok, of env] have ok': "driver_ok w'" by simp
  show ?thesis
  proof (cases r)
    case (Inl x)
    with None read disarm_driver_keeps [OF ok'] show ?thesis by (simp add: drive_rest_def)
  next
    case (Inr g)
    show ?thesis
    proof (cases g)
      case None
      with \<open>ds_attempt (dw_driver w) = None\<close> read Inr ok' show ?thesis by (simp add: drive_rest_def)
    next
      case (Some v)
      have reserve: "driver_ok (set_driver (\<lambda>d. d\<lparr> ds_attempt := Some \<lparr> ra_goal = gr_id v, ra_revision = gr_revision v,
          ra_round = gv_rounds v + 1, ra_message = i, ra_content = c, ra_phase = AttemptQueued, ra_cancelled = False,
          ra_stale = False \<rparr> \<rparr>) w')" if "gv_rounds v < gs_max_rounds v" for i c
        using reservation_backed [OF ok _ that] read Inr Some by simp
      show ?thesis
        using None read Inr Some ok' reserve settle_mutation_keeps mutate_goal_keeps [OF ok']
        by (simp add: drive_rest_def Let_def)
    qed
  qed
qed

lemma drive_pass_keeps: "driver_ok w \<Longrightarrow> driver_ok (fst (drive_pass env w))"
  by (simp add: drive_pass_def drive_begin_def drop_attempt_keeps drive_rest_keeps)

lemma drive_flushed_keeps: "driver_ok w \<Longrightarrow> driver_ok (fst (drive_flushed env ok w))"
  by (simp add: drive_flushed_def disarm_driver_keeps drive_rest_keeps)

lemma drive_followup_failed_keeps: "driver_ok w \<Longrightarrow> driver_ok (drive_followup_failed env v why w)"
  using on_goals_keeps [OF running_current drop_attempt_keeps(1), of w env]
  by (auto simp: drive_followup_failed_def disarm_driver_keeps settle_mutation_keeps mutate_goal_keeps
      split: prod.split sum.split option.split)

lemma on_idle_keeps:
  assumes ok: "driver_ok w"
  shows "driver_ok (on_idle env w)"
proof -
  let ?w = "set_driver (\<lambda>d. d\<lparr> ds_competing := False \<rparr>) w"
  have "driver_ok (fst (on_goals (current_goal env) ?w))"
    by (rule on_goals_keeps [OF running_current drop_attempt_keeps(7) [OF ok]])
  then show ?thesis
    by (auto simp: on_idle_def Let_def request_drive_keeps settle_mutation_keeps mutate_goal_keeps drop_attempt_keeps
        split: prod.split sum.split option.split)
qed

lemma tame_listeners: "tame (on_inserted b m)" "tame (on_claimed m)" "tame (on_discarded m)"
  by (auto simp: tame_def on_inserted_def on_claimed_def on_discarded_def update_attempt_def same_reservation_def)

lemma on_session_event_keeps: "driver_ok w \<Longrightarrow> driver_ok (on_session_event env e w)"
  by (auto simp: on_session_event_def disarm_driver_keeps same_reservation_def
      intro!: set_driver_keeps tame_update_attempt split: event_data.split turn_end_reason.split option.split)

lemma on_stop_keeps: "driver_ok w \<Longrightarrow> driver_ok (on_stop env w)"
  unfolding on_stop_def
  by (intro set_driver_keeps tame_update_attempt disarm_driver_keeps drop_attempt_keeps) (simp add: same_reservation_def)

lemma checked_reservation_keeps:
  assumes "driver_ok w"
  shows "driver_ok (fst (checked_reservation env m w))"
  using on_goals_keeps [OF running_current assms, of env]
  by (auto simp: checked_reservation_def valid_reservation_def disarm_driver_keeps split: prod.split sum.split)

lemma fence_begin_keeps: "driver_ok w \<Longrightarrow> driver_ok (fst (fence_begin env ns nt ms w))"
  using checked_reservation_keeps [of w env]
  by (auto simp: fence_begin_def tame_def intro!: request_drive_keeps set_driver_keeps
      split: option.split prod.split bool.split)
    (metis fst_conv)+

lemma fence_resume_keeps:
  assumes ok: "driver_ok w"
  shows "driver_ok (fst (fence_resume env m ns nt outcome w))"
proof (cases outcome)
  case (NextThrew b)
  with ok show ?thesis by (simp add: fence_resume_def request_drive_keeps drop_attempt_keeps)
next
  case (NextRejected b)
  have "driver_ok (fst (on_goals (current_goal env) (set_driver (\<lambda>d. d\<lparr> ds_attempt := None \<rparr>) w)))"
    by (rule on_goals_keeps [OF running_current drop_attempt_keeps(1) [OF ok]])
  with NextRejected ok show ?thesis
    using mutate_goal_keeps
    by (auto simp: fence_resume_def split: bool.split prod.split sum.split option.split) (metis fst_conv)+
next
  case (NextEntered b ms)
  with ok checked_reservation_keeps [OF ok, of env m] show ?thesis
    by (auto simp: fence_resume_def request_drive_keeps drop_attempt_keeps split: bool.split prod.split)
qed

lemma driver_run_ok: "driver_run w \<Longrightarrow> driver_ok w"
proof (induction rule: driver_run.induct)
  case (installed g)
  then show ?case by (simp add: driver_ok_def new_driver_state_def)
next
  case (others w g)
  then show ?case by (simp add: driver_ok_goals)
next
  case (handled w env ev)
  then show ?case
    by (cases ev)
      (simp_all add: disarm_driver_keeps on_goal_changed_keeps on_idle_keeps on_session_event_keeps on_stop_keeps
        drive_pass_keeps drive_flushed_keeps drive_followup_failed_keeps fence_begin_keeps fence_resume_keeps
        set_driver_keeps tame_listeners on_session_start_def drop_attempt_keeps)
qed

section \<open>What the fence lets through\<close>

lemma checked_reservation_true:
  assumes ok: "driver_ok w" and chk: "checked_reservation env m w = (w', True)"
  obtains st s where "goal_fold_from empty_goal_fold (gw_log (dw_goals w')) = Inr st" and "gf_goal st = Some s"
    and "gs_phase s = GoalActive" and "message_source m = SrcGoal (gr_id s) (of_int (gr_revision s)) (of_int (gf_rounds st + 1))"
    and "gf_rounds st + 1 \<le> gs_max_rounds s" and "effective_activation (dw_goals w') = Armed"
proof -
  from chk obtain v a i r n where read: "on_goals (current_goal env) w = (w', Inr (Some v))"
    and a: "ds_attempt (dw_driver w') = Some a" and src: "goal_round_source (message_source m) = Some (i, r, n)"
    and q: "same_queued (message_content m) (message_source m) a"
    and v: "gr_id v = i" "of_int (gr_revision v) = r" "gs_phase v = GoalActive" "gv_activation v = Armed"
      "n = of_int (gv_rounds v + 1)"
    by (auto simp: checked_reservation_def valid_reservation_def split: prod.splits sum.splits option.splits)
  from read obtain g' where get: "get_goal (de_goal env) (dw_goals w) = (g', Inr (Some v))" and w': "w' = w\<lparr> dw_goals := g' \<rparr>"
    by (auto simp: on_goals_def current_goal_def split: prod.splits if_splits)
  have world: "goal_world_ok (dw_goals w)" using ok goal_run_ok by (simp add: driver_ok_def)
  from get_goal_shows [OF world get] obtain st s where fold: "goal_fold_from empty_goal_fold (gw_log (dw_goals w)) = Inr st"
    and s: "gf_goal st = Some s" "gw_session g' = gw_session (dw_goals w)" "effective_activation g' = gv_activation v"
      "gr_id v = gr_id s" "gr_revision v = gr_revision s" "gs_phase v = gs_phase s" "gv_rounds v = gf_rounds st" by metis
  have "written (gw_log (dw_goals w)) s"
    using current_written.run_inv [OF fold [unfolded goal_fold_from_def]] s(1) by simp
  moreover from ok a w' obtain g where g: "written (gw_log (dw_goals w)) g" "gr_id g = ra_goal a"
    "gr_revision g = ra_revision a" "ra_round a \<le> gs_max_rounds g"
    by (auto simp: driver_ok_def attempt_backed_def)
  moreover have round: "ra_goal a = gr_id s" "ra_revision a = gr_revision s" "ra_round a = gf_rounds st + 1"
    using q src v s by (auto simp: same_queued_def same_round_def simp flip: of_int_add)
  ultimately have "g = s" using written_unique [OF fold] by simp
  moreover have "message_source m = SrcGoal (gr_id s) (of_int (gr_revision s)) (of_int (gf_rounds st + 1))"
    using src v s by (auto simp: goal_round_source_def split: message_source.splits if_splits)
  ultimately show thesis using that [of st s] fold s v g(4) round by (simp add: w')
qed

text \<open>
  C38: whatever happened to the goal, the inbox and the session before, a goal round that the pre-step fence lets
  into its step is exactly the next round of the current goal: the goal is active and armed at the revision the round
  was made for, the round stays within the cap of that revision, and the strict replay accepts the message that is
  about to be logged, so an autonomous round can never make the session unreadable.
\<close>

theorem goal_round_admission_safe:
  assumes "driver_run w" and "fence_resume env m ns nt (NextEntered False ms) w = (w', FenceEntered ns' ms')"
  shows "\<exists>st s. goal_fold_from empty_goal_fold (ses_log (gw_session (dw_goals w'))) = Inr st
      \<and> gf_goal st = Some s \<and> gs_phase s = GoalActive \<and> effective_activation (dw_goals w') = Armed
      \<and> gf_rounds st + 1 \<le> gs_max_rounds s
      \<and> apply_goal_event st (make_event q now (UserMessage m) op srcs ign) = Inr (st\<lparr> gf_rounds := gf_rounds st + 1 \<rparr>)"
proof -
  from assms(2) have "checked_reservation env m w = (w', True)"
    by (auto simp: fence_resume_def split: prod.splits bool.splits)
  from checked_reservation_true [OF driver_run_ok [OF assms(1)] this] obtain st s where
    st: "goal_fold_from empty_goal_fold (gw_log (dw_goals w')) = Inr st" and s: "gf_goal st = Some s" "gs_phase s = GoalActive"
    and src: "message_source m = SrcGoal (gr_id s) (of_int (gr_revision s)) (of_int (gf_rounds st + 1))"
    and cap: "gf_rounds st + 1 \<le> gs_max_rounds s" and armed: "effective_activation (dw_goals w') = Armed" by metis
  have cur: "snapshot_ok s" "non_negative_safe (gf_rounds st)"
    using goal_inv_current [OF goal_fold_inv [OF st] s(1)] by (simp_all add: current_goal_ok_def)
  then have "positive_safe (gr_revision s)" "positive_safe (gf_rounds st + 1)" "gr_id s \<noteq> []"
    using cap by (auto simp: snapshot_ok_def positive_safe_def non_negative_safe_def)
  then have "goal_source (SrcGoal (gr_id s) (of_int (gr_revision s)) (of_int (gf_rounds st + 1)))
      = Inr (Some (gr_id s, gr_revision s, gf_rounds st + 1))"
    unfolding goal_source_def positive_safe_def safe_num_of_int message_source.case safe_int_def
    by (simp add: max_safe_def del: of_int_add)
  then have "apply_goal_event st (make_event q now (UserMessage m) op srcs ign) = Inr (st\<lparr> gf_rounds := gf_rounds st + 1 \<rparr>)"
    using s cap by (simp add: apply_goal_event_def make_event_def src del: of_int_add)
  with st s cap armed show ?thesis by blast
qed

text \<open>A run that reserves round one of a fresh goal, sees it claimed and lets it in.\<close>

definition sample_driver_env :: driver_env where
  "sample_driver_env = \<lparr> de_goal = sample_goal_env, de_active = True, de_idle = True, de_message_id = ''r1'' \<rparr>"

definition sample_driver_start :: driver_world where
  "sample_driver_start = \<lparr> dw_goals = sample_goal_world, dw_driver = new_driver_state \<rparr>"

definition sample_driver_created :: driver_world where
  "sample_driver_created = sample_driver_start\<lparr>
     dw_goals := fst (call_goal sample_goal_env (ReqCreate '' ship '' None) sample_goal_world) \<rparr>"

definition sample_flushed :: driver_world where
  "sample_flushed = driver_handle sample_driver_env EvPass (driver_handle sample_driver_env EvGoalChanged sample_driver_created)"

definition sample_reserved :: "driver_world \<times> drive_point" where
  "sample_reserved = drive_flushed sample_driver_env True sample_flushed"

definition sample_round_message :: message where
  "sample_round_message = (case snd sample_reserved of DriveFollowup _ m \<Rightarrow> m | _ \<Rightarrow> create_user_message [] [] SrcUser)"

definition sample_claimed :: driver_world where
  "sample_claimed = driver_handle sample_driver_env (EvClaimed sample_round_message)
     (driver_handle sample_driver_env (EvInserted True sample_round_message) (fst sample_reserved))"

lemma sample_driver_run: "driver_run sample_claimed"
proof -
  have g: "goal_run sample_goal_world"
    unfolding sample_goal_world_def
    by (rule goal_run.started) (use sample_goal_world_ok in \<open>simp add: goal_world_ok_def sample_goal_world_def\<close>)
  have "driver_run sample_driver_created"
    unfolding sample_driver_created_def
  proof (rule driver_run.others)
    show "driver_run sample_driver_start" unfolding sample_driver_start_def by (rule driver_run.installed [OF g])
    show "goal_run (fst (call_goal sample_goal_env (ReqCreate '' ship '' None) sample_goal_world))"
      using running_call [of sample_goal_env "ReqCreate '' ship '' None"] g by (simp add: running_def)
    show "extends (dw_goals sample_driver_start) (fst (call_goal sample_goal_env (ReqCreate '' ship '' None) sample_goal_world))"
      using extending_call [of sample_goal_env "ReqCreate '' ship '' None"]
      by (simp add: extending_def sample_driver_start_def)
  qed
  then have "driver_run sample_flushed" unfolding sample_flushed_def by (intro driver_run.handled)
  then have "driver_run (driver_handle sample_driver_env (EvFlushed True) sample_flushed)" by (rule driver_run.handled)
  then show ?thesis unfolding sample_claimed_def by (intro driver_run.handled) (simp add: sample_reserved_def)
qed

lemma sample_round_entered:
  "snd (fence_resume sample_driver_env sample_round_message [] [] (NextEntered False []) sample_claimed) = FenceEntered [] []"
  by code_simp

theorem goal_round_admission_safe_witness:
  "\<exists>(w :: driver_world) st. goal_fold_from empty_goal_fold (ses_log (gw_session (dw_goals w))) = Inr st \<and> is_ok (apply_goal_event st
     (make_event 1 30 (UserMessage sample_round_message) (Some op_append) None False))"
proof -
  obtain w' where "fence_resume sample_driver_env sample_round_message [] [] (NextEntered False []) sample_claimed
      = (w', FenceEntered [] [])"
    using sample_round_entered by (metis prod.collapse)
  from goal_round_admission_safe [OF sample_driver_run this, of 1 30 "Some op_append" None False] obtain st where
    "goal_fold_from empty_goal_fold (gw_log (dw_goals w')) = Inr st" and "apply_goal_event st
      (make_event 1 30 (UserMessage sample_round_message) (Some op_append) None False) = Inr (st\<lparr> gf_rounds := gf_rounds st + 1 \<rparr>)"
    by blast
  then show ?thesis by (intro exI [of _ w'] exI [of _ st]) simp
qed

end
