(* ===== verification/Goal_Front.thy ===== *)
theory Goal_Front
  imports Goal_Driver_Run
begin

text \<open>
  The two callers of the goal service: the \<^verbatim>\<open>/goal\<close> command of a human
  (\<^verbatim>\<open>packages/goal/command-goal/src/index.ts\<close>) and the tools of the model with their authority checks
  (\<^verbatim>\<open>packages/goal/tool-goal/src\<close>). Both read the goal and act on the ref they read in one tick. The agent
  registry's answers are arguments; the one character outside the model's alphabet, the ellipsis, is one too.
\<close>

section \<open>The command\<close>

definition goal_usage :: string where
  "goal_usage = ''Usage: /goal [<objective>|clear|edit <objective>|pause|resume]''"

datatype goal_command =
    ShowGoal
  | CreateGoal string
  | EditGoal string
  | InvalidEditGoal
  | PauseGoal
  | ResumeGoal
  | ClearGoal

definition lower_latin :: "char \<Rightarrow> char" where
  "lower_latin c = (let n = (of_char c :: nat) in
     if 65 \<le> n \<and> n \<le> 90 \<or> 192 \<le> n \<and> n \<le> 222 \<and> n \<noteq> 215 then char_of (n + 32) else c)"

definition parse_goal_command :: "string \<Rightarrow> goal_command" where
  "parse_goal_command raw =
     (let input = js_trim raw; control = map lower_latin input in
      if input = [] then ShowGoal
      else if control = ''clear'' then ClearGoal
      else if control = ''pause'' then PauseGoal
      else if control = ''resume'' then ResumeGoal
      else if control = ''edit'' then InvalidEditGoal
      else if take 4 control = ''edit'' \<and> 4 < length input \<and> js_space (input ! 4)
      then EditGoal (js_trim (drop 4 input))
      else CreateGoal input)"

datatype goal_command_result = GoalText string | GoalCommandError string

datatype goal_command_failure = CommandThrew goal_failure | BlockedWithoutReason

definition command_hint :: "goal_view \<Rightarrow> string" where
  "command_hint v = (case gs_phase v of
       GoalActive \<Rightarrow> if gv_activation v = Armed then ''/goal edit <objective>, /goal pause, /goal clear''
         else ''/goal edit <objective>, /goal resume, /goal clear''
     | GoalComplete \<Rightarrow> ''/goal <objective>, /goal clear''
     | _ \<Rightarrow> ''/goal edit <objective>, /goal resume, /goal clear'')"

definition activation_name :: "goal_activation \<Rightarrow> string" where
  "activation_name a = (case a of Armed \<Rightarrow> ''armed'' | Disarmed \<Rightarrow> ''disarmed'')"

fun join_lines :: "string list \<Rightarrow> string" where
  "join_lines [] = []"
| "join_lines [l] = l"
| "join_lines (l # ls) = l @ [CHR 0x0A] @ join_lines ls"

definition render_goal :: "string \<Rightarrow> goal_view \<Rightarrow> goal_command_failure + goal_command_result" where
  "render_goal title v =
     (if gs_phase v = GoalBlocked \<and> gs_reason v = None then Inl BlockedWithoutReason
      else Inr (GoalText (join_lines ([title, ''Status: '' @ phase_name (gs_phase v)]
        @ (case (if gs_phase v = GoalBlocked then gs_reason v else None) of
             None \<Rightarrow> [] | Some r \<Rightarrow> [''Blocker: '' @ br_code r @ '': '' @ br_message r])
        @ [''Objective: '' @ gs_objective v,
           ''Rounds: '' @ show_nat (nat (gv_rounds v)) @ ''/'' @ show_nat (nat (gs_max_rounds v)),
           ''Activation: '' @ activation_name (gv_activation v), [], ''Commands: '' @ command_hint v]))))"

definition missing_goal :: "string \<Rightarrow> goal_command_result" where
  "missing_goal action = GoalCommandError (''No goal is currently set; /goal '' @ action @ '' requires one. '' @ goal_usage)"

definition not_valid_now :: goal_command_result where
  "not_valid_now = GoalCommandError
     ''The goal command is not valid for the current state. Run /goal to view available commands.''"

text \<open>A domain error becomes the stable error text; any other failure is rethrown.\<close>

definition settle_command ::
  "goal_world \<times> (goal_failure + 'a) \<Rightarrow> ('a \<Rightarrow> goal_command_failure + goal_command_result)
     \<Rightarrow> goal_world \<times> (goal_command_failure + goal_command_result)" where
  "settle_command p f = (case p of
       (w, Inl (GoalRejected _)) \<Rightarrow> (w, Inr not_valid_now)
     | (w, Inl x) \<Rightarrow> (w, Inl (CommandThrew x))
     | (w, Inr a) \<Rightarrow> (w, f a))"

definition already_set :: "goal_view \<Rightarrow> goal_command_result" where
  "already_set v = GoalCommandError (''A goal is already '' @ phase_name (gs_phase v)
     @ ''. Use /goal edit <objective> to change it or /goal clear before replacing it.'')"

definition execute_goal_command ::
  "goal_env \<Rightarrow> string \<Rightarrow> goal_world \<Rightarrow> goal_world \<times> (goal_command_failure + goal_command_result)" where
  "execute_goal_command env raw w =
     (case get_goal env w of
        (w1, Inl x) \<Rightarrow> settle_command (w1, Inl x :: goal_failure + unit) (\<lambda>_. Inr not_valid_now)
      | (w1, Inr current) \<Rightarrow>
          (case parse_goal_command raw of
             ShowGoal \<Rightarrow>
               (w1, case current of
                   None \<Rightarrow> Inr (GoalText (''No goal is currently set.'' @ [CHR 0x0A] @ goal_usage))
                 | Some v \<Rightarrow> render_goal ''Goal'' v)
           | InvalidEditGoal \<Rightarrow>
               (w1, Inr (GoalCommandError (''Goal editing requires a replacement objective.'' @ [CHR 0x0A] @ goal_usage)))
           | CreateGoal objective \<Rightarrow>
               (case current of
                  Some v \<Rightarrow>
                    if gs_phase v \<noteq> GoalComplete then (w1, Inr (already_set v))
                    else settle_command (create_goal env objective None w1) (render_goal ''Goal created'')
                | None \<Rightarrow> settle_command (create_goal env objective None w1) (render_goal ''Goal created''))
           | EditGoal objective \<Rightarrow>
               (case current of
                  None \<Rightarrow> (w1, Inr (missing_goal ''edit''))
                | Some v \<Rightarrow>
                    if gs_phase v = GoalComplete
                    then settle_command (create_goal env objective None w1) (render_goal ''Goal created'')
                    else settle_command (edit_goal env (view_ref v) (Some objective) None w1) (render_goal ''Goal updated''))
           | PauseGoal \<Rightarrow>
               (case current of
                  None \<Rightarrow> (w1, Inr (missing_goal ''pause''))
                | Some v \<Rightarrow> settle_command (pause_goal env (view_ref v) w1) (render_goal ''Goal paused''))
           | ResumeGoal \<Rightarrow>
               (case current of
                  None \<Rightarrow> (w1, Inr (missing_goal ''resume''))
                | Some v \<Rightarrow> settle_command (resume_goal env (view_ref v) w1) (render_goal ''Goal resumed''))
           | ClearGoal \<Rightarrow>
               (case current of
                  None \<Rightarrow> (w1, Inr (GoalText ''No goal to clear.''))
                | Some v \<Rightarrow> settle_command (clear_goal env (view_ref v) w1) (\<lambda>_. Inr (GoalText ''Goal cleared.'')))))"

section \<open>Authority of the tools\<close>

datatype goal_tool_error =
    ToolAgentRequired
  | ToolDriverRequired
  | ToolAuthorityRequired
  | ToolInvalidUpdate
  | ToolBlockThreshold int int
  | ToolGoalFailed goal_failure

record tool_caller =
  tc_agent :: bool
  tc_live :: bool
  tc_running :: bool
  tc_initiator :: bool
  tc_root :: bool

text \<open>The scan runs from the end of the log; the events after the start are returned.\<close>

fun open_turn_scan :: "session_event list \<Rightarrow> session_event list \<Rightarrow> goal_tool_error + session_event list" where
  "open_turn_scan acc [] = Inl ToolDriverRequired"
| "open_turn_scan acc (e # es) = (case ev_data e of
       TurnEnd _ _ \<Rightarrow> Inl ToolDriverRequired
     | TurnStart _ \<Rightarrow> Inr acc
     | _ \<Rightarrow> open_turn_scan (e # acc) es)"

definition open_goal_turn :: "session_event list \<Rightarrow> goal_tool_error + session_event list" where
  "open_goal_turn evs = open_turn_scan [] (rev evs)"

definition goal_tool_execution :: "tool_caller \<Rightarrow> session_event list \<Rightarrow> goal_tool_error + session_event list" where
  "goal_tool_execution c evs =
     (if \<not> tc_agent c then Inl ToolAgentRequired
      else if \<not> tc_live c \<or> \<not> tc_running c \<or> \<not> tc_initiator c then Inl ToolDriverRequired
      else open_goal_turn evs)"

definition human_event :: "session_event \<Rightarrow> bool" where
  "human_event e \<longleftrightarrow> (case ev_data e of UserMessage m \<Rightarrow> message_source m = SrcUser | _ \<Rightarrow> False)"

definition has_direct_human_input :: "tool_caller \<Rightarrow> session_event list \<Rightarrow> bool" where
  "has_direct_human_input c evs \<longleftrightarrow> tc_root c \<and> list_ex human_event evs"

definition matching_round_event :: "goal_view \<Rightarrow> session_event \<Rightarrow> bool" where
  "matching_round_event v e \<longleftrightarrow> (case ev_data e of
       UserMessage m \<Rightarrow> message_source m = SrcGoal (gr_id v) (of_int (gr_revision v)) (of_int (gv_rounds v))
     | _ \<Rightarrow> False)"

definition is_matching_goal_round :: "session_event list \<Rightarrow> goal_view \<Rightarrow> bool" where
  "is_matching_goal_round evs v \<longleftrightarrow> list_ex (matching_round_event v) evs"

datatype goal_authority = DirectHuman | GoalRound goal_view

definition require_direct_human :: "tool_caller \<Rightarrow> session_event list \<Rightarrow> goal_tool_error + unit" where
  "require_direct_human c evs = guard_res (has_direct_human_input c evs) ToolAuthorityRequired"

definition completion_authority ::
  "goal_env \<Rightarrow> tool_caller \<Rightarrow> session_event list \<Rightarrow> goal_world \<Rightarrow> goal_world \<times> (goal_tool_error + goal_authority)" where
  "completion_authority env c evs w =
     (if has_direct_human_input c evs then (w, Inr DirectHuman)
      else case get_goal env w of
          (w1, Inl x) \<Rightarrow> (w1, Inl (ToolGoalFailed x))
        | (w1, Inr (Some v)) \<Rightarrow>
            (w1, if is_matching_goal_round evs v then Inr (GoalRound v) else Inl ToolAuthorityRequired)
        | (w1, Inr None) \<Rightarrow> (w1, Inl ToolAuthorityRequired))"

section \<open>The tools\<close>

definition resolve_goal_tool :: "js_number option \<Rightarrow> int option" where
  "resolve_goal_tool v = (case v of
       None \<Rightarrow> Some 3
     | Some (Fin r) \<Rightarrow> if safe_num r \<and> 1 \<le> r then Some \<lfloor>r\<rfloor> else None
     | _ \<Rightarrow> None)"

datatype update_action = UpdEdit | UpdPause | UpdResume | UpdComplete | UpdBlocked

record update_args =
  ua_goal_id :: string
  ua_revision :: js_number
  ua_action :: update_action
  ua_objective :: "string option"
  ua_max_rounds :: "js_number option"
  ua_blocked_reason :: "string option"

definition has_text :: "string option \<Rightarrow> bool" where
  "has_text v \<longleftrightarrow> v \<noteq> None \<and> v \<noteq> Some []"

definition has_round_cap :: "js_number option \<Rightarrow> bool" where
  "has_round_cap v \<longleftrightarrow> v \<noteq> None \<and> v \<noteq> Some (Fin 0)"

definition tool_goal_ref :: "string \<Rightarrow> js_number \<Rightarrow> goal_tool_error + goal_ref" where
  "tool_goal_ref i v = (case v of
       Fin r \<Rightarrow> if i = [] \<or> i \<noteq> js_trim i \<or> \<not> safe_num r \<or> r < 1 then Inl ToolInvalidUpdate
         else Inr \<lparr> gr_id = i, gr_revision = \<lfloor>r\<rfloor> \<rparr>
     | _ \<Rightarrow> Inl ToolInvalidUpdate)"

definition render_wrapup_context :: "string \<Rightarrow> string option \<Rightarrow> content_block list" where
  "render_wrapup_context objective blocked =
     (let nl = [CHR 0x0A]; heading = ''Objective: '' @ json_string objective @ nl;
          grounding = ''Report only what earlier rounds and tool results in this session actually establish; ''
            @ ''when a detail is not in the session, say so instead of inventing it. ''
      in [TextBlock (case blocked of
            None \<Rightarrow> ''<goal_complete>'' @ nl @ heading
              @ ''The goal is marked complete and this autonomous run is ending. Write the closing ''
              @ ''message to the user now: state the outcome, summarize what was done and how it was ''
              @ ''verified, and point to the concrete results (files, commits, or other artifacts). ''
              @ grounding
              @ ''Note anything the user should review or do next. Address the user directly. Do not ''
              @ ''call any more tools in this run; further work waits for the user'' @ [CHR 0x27] @ ''s next instruction.'' @ nl
              @ ''</goal_complete>''
          | Some reason \<Rightarrow> ''<goal_blocked>'' @ nl @ heading @ ''Blocked: '' @ json_string reason @ nl
              @ ''The goal is marked blocked and this autonomous run is ending. Write the closing ''
              @ ''message to the user now: state what has been completed so far, describe the concrete ''
              @ ''blocking condition and what you tried, and say exactly what you need from the user to ''
              @ ''continue. '' @ grounding
              @ ''Address the user directly. Do not call any more tools in this run; further work ''
              @ ''waits for the user'' @ [CHR 0x27] @ ''s next instruction.'' @ nl
              @ ''</goal_blocked>'')])"

definition context_summary_max_chars :: nat where
  "context_summary_max_chars = 120"

definition bound_context_summary :: "char \<Rightarrow> string \<Rightarrow> string" where
  "bound_context_summary ellipsis s = (if length s \<le> context_summary_max_chars then s
     else take (context_summary_max_chars - 1) s @ [ellipsis])"

definition lift_tool :: "goal_tool_error + 'a \<Rightarrow> goal_world \<Rightarrow> ('a \<Rightarrow> goal_world \<times> (goal_tool_error + 'b))
    \<Rightarrow> goal_world \<times> (goal_tool_error + 'b)" where
  "lift_tool r w f = (case r of Inl x \<Rightarrow> (w, Inl x) | Inr a \<Rightarrow> f a)"

definition tool_of :: "goal_world \<times> (goal_failure + 'a) \<Rightarrow> goal_world \<times> (goal_tool_error + 'a)" where
  "tool_of p = (case p of (w, r) \<Rightarrow> (w, map_sum ToolGoalFailed id r))"

text \<open>A successful call shows the goal; the messages are the contexts it defers.\<close>

definition get_goal_tool ::
  "goal_env \<Rightarrow> tool_caller \<Rightarrow> goal_world \<Rightarrow> goal_world \<times> (goal_tool_error + goal_view option)" where
  "get_goal_tool env c w = lift_tool (goal_tool_execution c (gw_log w)) w (\<lambda>_. tool_of (get_goal env w))"

definition create_goal_tool ::
  "goal_env \<Rightarrow> tool_caller \<Rightarrow> string \<Rightarrow> js_number option \<Rightarrow> goal_world \<Rightarrow> goal_world \<times> (goal_tool_error + goal_view)" where
  "create_goal_tool env c objective cap w =
     lift_tool (goal_tool_execution c (gw_log w)) w (\<lambda>evs.
     lift_tool (require_direct_human c evs) w (\<lambda>_. tool_of (create_goal env objective cap w)))"

definition wrapup_message :: "message_id \<Rightarrow> char \<Rightarrow> goal_view \<Rightarrow> update_args \<Rightarrow> message" where
  "wrapup_message uuid ellipsis v a = create_user_message uuid
     (render_wrapup_context (gs_objective v)
        (if ua_action a = UpdComplete then None else ua_blocked_reason a))
     (SrcPlugin ''tool-goal''
        (Notice (bound_context_summary ellipsis
          ((if ua_action a = UpdComplete then ''complete'' else ''blocked'') @ '': '' @ gs_objective v))) [])"

definition finish_goal_tool ::
  "goal_env \<Rightarrow> tool_caller \<Rightarrow> int \<Rightarrow> message_id \<Rightarrow> char \<Rightarrow> session_event list \<Rightarrow> goal_ref \<Rightarrow> update_args \<Rightarrow> goal_world
     \<Rightarrow> goal_world \<times> (goal_tool_error + goal_view \<times> message list)" where
  "finish_goal_tool env c least uuid ellipsis evs r a w =
     (case completion_authority env c evs w of
        (w1, Inl x) \<Rightarrow> (w1, Inl x)
      | (w1, Inr authority) \<Rightarrow>
          if has_text (ua_objective a) \<or> has_round_cap (ua_max_rounds a) then (w1, Inl ToolInvalidUpdate)
          else if ua_action a = UpdComplete \<and> has_text (ua_blocked_reason a) then (w1, Inl ToolInvalidUpdate)
          else if ua_action a = UpdBlocked \<and> (case ua_blocked_reason a of None \<Rightarrow> True | Some s \<Rightarrow> js_trim s = [])
          then (w1, Inl ToolInvalidUpdate)
          else (case (ua_action a, authority) of
              (UpdBlocked, GoalRound v) \<Rightarrow>
                lift_tool (guard_res (least \<le> gv_rounds v) (ToolBlockThreshold least (gv_rounds v))) w1
            | _ \<Rightarrow> lift_tool (Inr ()) w1) (\<lambda>_.
              case tool_of (if ua_action a = UpdComplete then complete_goal env r w1
                  else block_goal env r (JObj [(''code'', JStr ''model-reported''),
                    (''message'', JStr (case ua_blocked_reason a of Some s \<Rightarrow> s | None \<Rightarrow> []))]) w1) of
                (w2, Inl x) \<Rightarrow> (w2, Inl x)
              | (w2, Inr v) \<Rightarrow>
                  (w2, Inr (v, case authority of GoalRound _ \<Rightarrow> [wrapup_message uuid ellipsis v a] | DirectHuman \<Rightarrow> []))))"

definition update_goal_tool ::
  "goal_env \<Rightarrow> tool_caller \<Rightarrow> int \<Rightarrow> message_id \<Rightarrow> char \<Rightarrow> update_args \<Rightarrow> goal_world
     \<Rightarrow> goal_world \<times> (goal_tool_error + goal_view \<times> message list)" where
  "update_goal_tool env c least uuid ellipsis a w =
     lift_tool (goal_tool_execution c (gw_log w)) w (\<lambda>evs.
     lift_tool (tool_goal_ref (ua_goal_id a) (ua_revision a)) w (\<lambda>r.
     case ua_action a of
       UpdEdit \<Rightarrow>
         lift_tool (require_direct_human c evs) w (\<lambda>_.
         lift_tool (guard_res (\<not> has_text (ua_blocked_reason a)) ToolInvalidUpdate) w (\<lambda>_.
         case tool_of (edit_goal env r (if has_text (ua_objective a) then ua_objective a else None)
                 (if has_round_cap (ua_max_rounds a) then ua_max_rounds a else None) w) of
           (w1, Inl x) \<Rightarrow> (w1, Inl x) | (w1, Inr v) \<Rightarrow> (w1, Inr (v, []))))
     | UpdComplete \<Rightarrow> finish_goal_tool env c least uuid ellipsis evs r a w
     | UpdBlocked \<Rightarrow> finish_goal_tool env c least uuid ellipsis evs r a w
     | _ \<Rightarrow>
         lift_tool (require_direct_human c evs) w (\<lambda>_.
         lift_tool (guard_res (\<not> has_text (ua_objective a) \<and> \<not> has_round_cap (ua_max_rounds a)
             \<and> \<not> has_text (ua_blocked_reason a)) ToolInvalidUpdate) w (\<lambda>_.
         case tool_of (if ua_action a = UpdPause then pause_goal env r w else resume_goal env r w) of
           (w1, Inl x) \<Rightarrow> (w1, Inl x) | (w1, Inr v) \<Rightarrow> (w1, Inr (v, []))))))"

section \<open>The command tells the truth\<close>

definition goal_usable :: "goal_env \<Rightarrow> goal_world \<Rightarrow> bool" where
  "goal_usable env w \<longleftrightarrow> goal_world_ok w \<and> ge_live env \<and> \<not> ge_appending env \<and> (\<forall>e. ge_veto env e = None)
     \<and> (\<exists>st. goal_fold_from empty_goal_fold (gw_log w) = Inr st \<and> goal_env_ok env st)"

definition view_whole :: "goal_view \<Rightarrow> bool" where
  "view_whole v \<longleftrightarrow> (gs_phase v = GoalBlocked \<longleftrightarrow> gs_reason v \<noteq> None)"

lemma goal_view_whole: "goal_inv evs st \<Longrightarrow> goal_view_of st a = Some v \<Longrightarrow> view_whole v"
  by (auto simp: goal_view_of_def goal_inv_def current_goal_ok_def snapshot_ok_def view_whole_def
      goal_snapshot.defs goal_view.defs)

lemma usable_call:
  assumes u: "goal_usable env w" and call: "call_goal env req w = (w', r)"
  shows "(\<exists>x. r = Inl (GoalRejected x) \<and> gw_log w' = gw_log w)
    \<or> (\<exists>p e. r = Inr p \<and> gw_log w' = gw_log w @ [e] \<and> (\<forall>v. p = ReplyView v \<longrightarrow> view_whole v))"
proof -
  from u obtain st where st: "goal_fold_from empty_goal_fold (gw_log w) = Inr st" "goal_env_ok env st"
    and w: "goal_world_ok w" "ge_live env" "\<not> ge_appending env" "\<forall>e. ge_veto env e = None"
    by (auto simp: goal_usable_def)
  note ref = call_goal_refines [OF w st, of req]
  show ?thesis
  proof (cases "goal_decide env st (effective_activation w) req")
    case (Inl x)
    with ref call show ?thesis by auto
  next
    case (Inr d)
    then obtain ch a where d: "goal_decide env st (effective_activation w) req = Inr (ch, a)" by (cases d) auto
    with ref call obtain st' where r: "r = Inr (reply_of ch st' a)" "gw_log w' = gw_log w @ [change_event env w ch]"
      and run: "goal_fold_from empty_goal_fold (gw_log w') = Inr st'" and ap: "apply_goal_change st ch = Inr st'" by auto
    have "view_whole v" if "reply_of ch st' a = ReplyView v" for v
    proof -
      from that obtain c where c: "ch = ChangeSnapshot c" by (cases ch) (auto simp: reply_of_def)
      with goal_view_of_Some [OF apply_goal_change_snapshot [OF ap [unfolded c]], of a] that
      have "goal_view_of st' a = Some v" by (auto simp: reply_of_def)
      then show ?thesis by (rule goal_view_whole [OF goal_fold_inv [OF run]])
    qed
    with r show ?thesis by blast
  qed
qed

lemma usable_view:
  assumes u: "goal_usable env w" and call: "call_goal env req w = as_view f w" and f: "f w = (w', r)"
  shows "(\<exists>x. r = Inl (GoalRejected x) \<and> gw_log w' = gw_log w)
    \<or> (\<exists>v e. r = Inr v \<and> gw_log w' = gw_log w @ [e] \<and> view_whole v)"
proof -
  have "call_goal env req w = (w', map_sum id ReplyView r)"
    using call f by (cases r) (simp_all add: as_view_def goal_bind_def)
  from usable_call [OF u this] show ?thesis by (cases r) auto
qed

definition truthful ::
  "session_event list \<Rightarrow> goal_world \<times> (goal_command_failure + goal_command_result) \<Rightarrow> bool" where
  "truthful evs p \<longleftrightarrow> (\<exists>out. snd p = Inr out \<and> (case out of
       GoalCommandError _ \<Rightarrow> gw_log (fst p) = evs
     | GoalText _ \<Rightarrow> \<exists>e. gw_log (fst p) = evs @ [e]))"

lemma truthful_view:
  assumes u: "goal_usable env w" and call: "call_goal env req w = as_view f w"
  shows "truthful (gw_log w) (settle_command (f w) (render_goal title))"
proof -
  obtain w' r where f: "f w = (w', r)" by fastforce
  from usable_view [OF u call f] show ?thesis
    by (auto simp: f truthful_def settle_command_def render_goal_def not_valid_now_def view_whole_def)
qed

lemma truthful_clear:
  assumes u: "goal_usable env w"
  shows "truthful (gw_log w) (settle_command (clear_goal env r w) (\<lambda>_. Inr (GoalText t)))"
proof -
  obtain w' x where f: "clear_goal env r w = (w', x)" by fastforce
  then have "call_goal env (ReqClear r) w = (w', map_sum id ReplyTombstone x)"
    by (cases x) (simp_all add: goal_bind_def)
  from usable_call [OF u this] show ?thesis
    by (cases x) (auto simp: f truthful_def settle_command_def not_valid_now_def)
qed

lemma usable_get:
  assumes u: "goal_usable env w"
  obtains w1 g where "get_goal env w = (w1, Inr g)" and "goal_usable env w1" and "gw_session w1 = gw_session w"
    and "pred_option view_whole g"
proof -
  from u obtain st where st: "goal_fold_from empty_goal_fold (gw_log w) = Inr st" "goal_env_ok env st"
    and w: "goal_world_ok w" "ge_live env" by (auto simp: goal_usable_def)
  let ?w = "w\<lparr> gw_cache := Some (synced_cache (gw_log w) st (effective_activation w)) \<rparr>"
  have "get_goal env w = (?w, Inr (goal_view_of st (effective_activation w)))"
    by (simp add: get_goal_def goal_bind_def prepare_goal_synced [OF w st(1)] cache_view_synced [OF goal_fold_inv [OF st(1)]])
  moreover have "goal_usable env ?w" using u synced_world_ok [OF w(1) st(1)] st by (auto simp: goal_usable_def)
  moreover have "pred_option view_whole (goal_view_of st (effective_activation w))"
    using goal_view_whole [OF goal_fold_inv [OF st(1)]] by (cases "goal_view_of st (effective_activation w)") auto
  ultimately show thesis using that by simp
qed

text \<open>
  C39: on a session the goal service can write, the \<^verbatim>\<open>/goal\<close> command always answers: an error text means the session
  is untouched, the success text of a command that changes the goal means exactly one event was logged, and showing
  the goal, or clearing when there is none, changes nothing.
\<close>

theorem goal_command_truthful:
  assumes "goal_usable env w"
  shows "case execute_goal_command env raw w of
      (w', Inl x) \<Rightarrow> False
    | (w', Inr (GoalCommandError t)) \<Rightarrow> ses_log (gw_session w') = ses_log (gw_session w)
    | (w', Inr (GoalText t)) \<Rightarrow>
        if parse_goal_command raw = ShowGoal \<or> parse_goal_command raw = ClearGoal \<and> t = ''No goal to clear.''
        then ses_log (gw_session w') = ses_log (gw_session w)
        else \<exists>e. ses_log (gw_session w') = ses_log (gw_session w) @ [e]"
proof -
  from assms obtain w1 g where get: "get_goal env w = (w1, Inr g)" and u: "goal_usable env w1"
    and same: "gw_session w1 = gw_session w" and whole: "pred_option view_whole g" by (rule usable_get)
  note view = truthful_view [OF u]
  have told: ?thesis if "truthful (gw_log w1) (execute_goal_command env raw w)" "parse_goal_command raw \<noteq> ShowGoal"
    "parse_goal_command raw \<noteq> ClearGoal"
  proof -
    from that(1) obtain w' out where "execute_goal_command env raw w = (w', Inr out)"
      "case out of GoalCommandError _ \<Rightarrow> gw_log w' = gw_log w1 | GoalText _ \<Rightarrow> \<exists>e. gw_log w' = gw_log w1 @ [e]"
      by (cases "execute_goal_command env raw w") (auto simp: truthful_def cong: goal_command_result.case_cong)
    with same that(2,3) show ?thesis by (cases out) auto
  qed
  have refused: "truthful (gw_log w1) (w1, Inr (GoalCommandError t))" for t by (simp add: truthful_def)
  show ?thesis
  proof (cases "parse_goal_command raw")
    case ShowGoal
    with get same whole show ?thesis
      by (cases g) (auto simp: execute_goal_command_def render_goal_def view_whole_def)
  next
    case (CreateGoal objective)
    show ?thesis
      by (rule told, cases g)
        (simp_all add: CreateGoal execute_goal_command_def get already_set_def refused
          view [of "ReqCreate objective None" "create_goal env objective None"])
  next
    case (EditGoal objective)
    show ?thesis
      by (rule told, cases g)
        (simp_all add: EditGoal execute_goal_command_def get missing_goal_def refused
          view [of "ReqCreate objective None" "create_goal env objective None"]
          view [of "ReqEdit r (Some objective) None" "edit_goal env r (Some objective) None" for r])
  next
    case PauseGoal
    show ?thesis
      by (rule told, cases g)
        (simp_all add: PauseGoal execute_goal_command_def get missing_goal_def refused
          view [of "ReqPause r" "pause_goal env r" for r])
  next
    case ResumeGoal
    show ?thesis
      by (rule told, cases g)
        (simp_all add: ResumeGoal execute_goal_command_def get missing_goal_def refused
          view [of "ReqResume r" "resume_goal env r" for r])
  next
    case ClearGoal
    show ?thesis
    proof (cases g)
      case (Some v)
      have "truthful (gw_log w1) (settle_command (clear_goal env (view_ref v) w1) (\<lambda>_. Inr (GoalText ''Goal cleared.'')))"
        by (rule truthful_clear [OF u])
      moreover have "\<exists>out. snd p = Inr out \<and> (out = GoalText ''Goal cleared.'' \<or> out = not_valid_now)"
        if "p = settle_command q (\<lambda>_. Inr (GoalText ''Goal cleared.''))" "truthful (gw_log w1) p" for p and q :: "goal_world \<times> (goal_failure + goal_ref)"
        using that by (auto simp: settle_command_def truthful_def split: prod.splits sum.splits goal_failure.splits)
      ultimately show ?thesis
        using Some ClearGoal get same
        by (fastforce simp: execute_goal_command_def truthful_def not_valid_now_def split: prod.splits)
    qed (use ClearGoal get same in \<open>simp add: execute_goal_command_def\<close>)
  qed (use get same in \<open>simp add: execute_goal_command_def\<close>)
qed

lemma sample_usable: "goal_usable sample_goal_env sample_goal_world"
  using sample_goal_world_ok sample_world_replay sample_env_ok
  by (auto simp: goal_usable_def sample_goal_env_def)

theorem goal_command_truthful_witness:
  "parse_goal_command '' Edit  ship '' = EditGoal ''ship''
   \<and> (case execute_goal_command sample_goal_env '' ship '' sample_goal_world of
        (w', Inr (GoalText t)) \<Rightarrow> \<exists>e. ses_log (gw_session w') = [e] | _ \<Rightarrow> True)"
proof -
  have parse: "parse_goal_command '' Edit  ship '' = EditGoal ''ship''" "parse_goal_command '' ship '' = CreateGoal ''ship''"
    by code_simp+
  have empty: "ses_log (gw_session sample_goal_world) = []" by (simp add: sample_goal_world_def fresh_session_def)
  show ?thesis
    using goal_command_truthful [OF sample_usable, of "'' ship ''"] parse
    by (auto simp: empty split: prod.splits sum.splits goal_command_result.splits)
qed

section \<open>The tools need authority\<close>

lemma goal_turn_scan_Inr:
  "open_turn_scan acc es = Inr ds \<Longrightarrow> \<exists>pre e post t. rev es = pre @ e # post \<and> ev_data e = TurnStart t
     \<and> ds = post @ acc \<and> (\<forall>d \<in> set post. \<forall>n r. ev_data d \<noteq> TurnStart n \<and> ev_data d \<noteq> TurnEnd n r)"
proof (induction es arbitrary: acc)
  case Nil
  then show ?case by simp
next
  case (Cons e es)
  show ?case
  proof (cases "\<exists>t. ev_data e = TurnStart t")
    case True
    with Cons.prems show ?thesis by (intro exI [of _ "rev es"] exI [of _ e] exI [of _ "[]"]) auto
  next
    case False
    with Cons.prems have scan: "open_turn_scan (e # acc) es = Inr ds" and other: "\<forall>n r. ev_data e \<noteq> TurnEnd n r"
      by (auto split: event_data.splits)
    from Cons.IH [OF scan] obtain pre f post t where "rev es = pre @ f # post" "ev_data f = TurnStart t"
      "ds = post @ e # acc" "\<forall>d \<in> set post. \<forall>n r. ev_data d \<noteq> TurnStart n \<and> ev_data d \<noteq> TurnEnd n r" by blast
    with False other show ?thesis
      by (intro exI [of _ pre] exI [of _ f] exI [of _ "post @ [e]"] exI [of _ t]) auto
  qed
qed

definition in_open_turn :: "session_event list \<Rightarrow> session_event \<Rightarrow> bool" where
  "in_open_turn evs d \<longleftrightarrow> (\<exists>pre e post t. evs = pre @ e # post \<and> ev_data e = TurnStart t \<and> d \<in> set post
     \<and> (\<forall>f \<in> set post. \<forall>n r. ev_data f \<noteq> TurnStart n \<and> ev_data f \<noteq> TurnEnd n r))"

lemma open_goal_turn_Inr: "open_goal_turn evs = Inr ds \<Longrightarrow> d \<in> set ds \<Longrightarrow> in_open_turn evs d"
  by (drule goal_turn_scan_Inr [of "[]" "rev evs", folded open_goal_turn_def]) (auto simp: in_open_turn_def)

lemma prepare_goal_session: "gw_session (fst (prepare_goal env w)) = gw_session w"
  by (auto simp: prepare_goal_def goal_bind_def goal_lift_def cache_of_def sync_cache_def Let_def
      split: sum.split prod.split option.split)

lemma get_goal_session: "gw_session (fst (get_goal env w)) = gw_session w"
  using prepare_goal_session [of env w] by (auto simp: get_goal_def goal_bind_def split: sum.split prod.split)

definition human_authority :: "tool_caller \<Rightarrow> session_event list \<Rightarrow> bool" where
  "human_authority c evs \<longleftrightarrow> tc_root c \<and> (\<exists>d. in_open_turn evs d \<and> human_event d)"

definition round_authority :: "goal_env \<Rightarrow> session_event list \<Rightarrow> int \<Rightarrow> update_args \<Rightarrow> goal_world \<Rightarrow> bool" where
  "round_authority env evs least a w \<longleftrightarrow> ua_action a \<in> {UpdComplete, UpdBlocked}
     \<and> (\<exists>v d. snd (get_goal env w) = Inr (Some v) \<and> in_open_turn evs d \<and> matching_round_event v d
        \<and> (ua_action a = UpdBlocked \<longrightarrow> least \<le> gv_rounds v))"

lemma goal_tool_execution_Inr:
  "goal_tool_execution c evs = Inr ds \<Longrightarrow> tc_agent c \<and> tc_live c \<and> tc_running c \<and> tc_initiator c \<and> open_goal_turn evs = Inr ds"
  by (simp add: goal_tool_execution_def split: if_splits)

lemma has_direct_human_authority:
  "open_goal_turn evs = Inr ds \<Longrightarrow> has_direct_human_input c ds \<Longrightarrow> human_authority c evs"
  by (auto simp: has_direct_human_input_def human_authority_def list_ex_iff dest: open_goal_turn_Inr)

lemma finish_goal_tool_authority:
  assumes "open_goal_turn (gw_log w) = Inr evs" and "finish_goal_tool env c least uuid ell evs r a w = (w', out)"
    and "gw_log w' \<noteq> gw_log w" and "ua_action a \<in> {UpdComplete, UpdBlocked}"
  shows "human_authority c (gw_log w) \<or> round_authority env (gw_log w) least a w"
proof (cases "has_direct_human_input c evs")
  case True
  with assms(1) has_direct_human_authority show ?thesis by blast
next
  case False
  obtain w1 g where get: "get_goal env w = (w1, g)" by fastforce
  with get_goal_session [of env w] have same: "gw_log w1 = gw_log w" by simp
  show ?thesis
  proof (cases "\<exists>v. g = Inr (Some v) \<and> is_matching_goal_round evs v")
    case True
    then obtain v where v: "g = Inr (Some v)" "is_matching_goal_round evs v" by blast
    then have "completion_authority env c evs w = (w1, Inr (GoalRound v))"
      using False get by (simp add: completion_authority_def)
    with assms(2-4) same have "ua_action a = UpdBlocked \<longrightarrow> least \<le> gv_rounds v"
      by (auto simp: finish_goal_tool_def lift_tool_def guard_res_def split: if_splits)
    moreover from v(2) assms(1) obtain d where "in_open_turn (gw_log w) d" "matching_round_event v d"
      by (auto simp: is_matching_goal_round_def list_ex_iff dest: open_goal_turn_Inr)
    ultimately show ?thesis using v(1) get assms(4) by (auto simp: round_authority_def)
  next
    case no_match: False
    then have "fst (completion_authority env c evs w) = w1" "\<exists>x. snd (completion_authority env c evs w) = Inl x"
      using False get by (auto simp: completion_authority_def split: sum.split option.split)
    then obtain x where "completion_authority env c evs w = (w1, Inl x)" by (metis prod.collapse)
    with assms(2,3) same show ?thesis by (simp add: finish_goal_tool_def)
  qed
qed

text \<open>
  C40: an update through the model's tool changes the session only for the live calling agent inside its own running
  turn, and only when that open turn holds a human message to a root agent, or, for complete and blocked alone, the
  very round message that is the goal's current round; without a human, blocked also needs the configured number of
  rounds. In every other case the log stays as it is.
\<close>

theorem goal_tool_authority:
  assumes "update_goal_tool env c least uuid ell a w = (w', out)"
    and "ses_log (gw_session w') \<noteq> ses_log (gw_session w)"
  shows "tc_agent c \<and> tc_live c \<and> tc_running c \<and> tc_initiator c
    \<and> (human_authority c (ses_log (gw_session w)) \<or> round_authority env (ses_log (gw_session w)) least a w)"
proof -
  from assms obtain evs where ex: "goal_tool_execution c (gw_log w) = Inr evs"
    by (auto simp: update_goal_tool_def lift_tool_def split: sum.splits)
  note caller = goal_tool_execution_Inr [OF ex]
  from assms ex obtain r where r: "tool_goal_ref (ua_goal_id a) (ua_revision a) = Inr r"
    by (auto simp: update_goal_tool_def lift_tool_def split: sum.splits)
  have human: "human_authority c (gw_log w)" if "require_direct_human c evs = Inr ()"
    using that caller has_direct_human_authority by (auto simp: require_direct_human_def)
  have "human_authority c (gw_log w) \<or> round_authority env (gw_log w) least a w"
  proof (cases "ua_action a \<in> {UpdComplete, UpdBlocked}")
    case True
    with assms(1) ex r have "finish_goal_tool env c least uuid ell evs r a w = (w', out)"
      by (auto simp: update_goal_tool_def lift_tool_def)
    from finish_goal_tool_authority [OF _ this] caller assms(2) True show ?thesis by blast
  next
    case False
    with assms ex r have "require_direct_human c evs = Inr ()"
      by (cases "require_direct_human c evs"; cases "ua_action a") (auto simp: update_goal_tool_def lift_tool_def)
    with human show ?thesis by simp
  qed
  with caller show ?thesis by simp
qed

text \<open>A human turn in which the model pauses the goal it created.\<close>

definition sample_turn_session :: session where
  "sample_turn_session =
     fst (append_detached 3 (fst (append_detached 2 (fresh_session sample_header [] (new_surface_manager 0)) (TurnStart 1) None None False))
       (UserMessage (create_user_message ''h'' [TextBlock ''go''] SrcUser)) (Some op_append) None False)"

definition sample_tool_world :: goal_world where
  "sample_tool_world = fst (call_goal sample_goal_env (ReqCreate ''ship'' None)
     \<lparr> gw_session = sample_turn_session, gw_cache = None, gw_emitted = [] \<rparr>)"

definition sample_caller :: tool_caller where
  "sample_caller = \<lparr> tc_agent = True, tc_live = True, tc_running = True, tc_initiator = True, tc_root = True \<rparr>"

definition sample_update :: update_args where
  "sample_update = \<lparr> ua_goal_id = ''goal-u'', ua_revision = Fin 1, ua_action = UpdPause, ua_objective = None,
     ua_max_rounds = None, ua_blocked_reason = None \<rparr>"

lemma sample_tool_changes:
  "length (gw_log (fst (update_goal_tool sample_goal_env sample_caller 3 ''w'' CHR ''.'' sample_update sample_tool_world))) = 4"
  "length (gw_log sample_tool_world) = 3"
  by code_simp+

theorem goal_tool_authority_witness:
  "human_authority sample_caller (ses_log (gw_session sample_tool_world))
   \<or> round_authority sample_goal_env (ses_log (gw_session sample_tool_world)) 3 sample_update sample_tool_world"
proof -
  have "gw_log (fst (update_goal_tool sample_goal_env sample_caller 3 ''w'' CHR ''.'' sample_update sample_tool_world))
      \<noteq> gw_log sample_tool_world"
    using sample_tool_changes by (metis numeral_eq_iff semiring_norm(89) num.distinct)
  with goal_tool_authority [OF prod.collapse [symmetric]] show ?thesis by blast
qed

end
