(* ===== verification/Spec2Isabelle.thy ===== *)
theory Spec2Isabelle
  imports Repair Store_Run Chunk_Round_Trip Inbox Consumed_Work Assembler Retry Tool_Order Agent_Frame
    Token_Projection Result_Pruner Compaction_Auto_Run Goal_Front
begin

text \<open>
  A verification development of the agent harness under \<^verbatim>\<open>packages/\<close>: the session log and what is
  derived from it, the agent driver that writes it, and the services between them. The program is an
  event-sourced agent. Every fact about a conversation is an event of a session log; the history sent
  to a model, the request header, the pending input and the retained runtime context are folds over
  that log, cached incrementally; a driver takes turns and steps over queued input, streams a model
  answer into the log, runs the tools it asks for and records every boundary it crosses.

  Parts and their theories.
  \<^item> \<open>Prelude\<close>: results with an error value, folds that may fail, array splices, lossless JSON values,
    JavaScript numbers, and the interface locales \<open>fold_invariant\<close> and \<open>incremental_view\<close>.
  \<^item> \<open>Llm_Types\<close>, \<open>Session_Types\<close>: the vocabularies of \<^verbatim>\<open>llm/llm\<close> (\<^verbatim>\<open>types.ts\<close>, \<^verbatim>\<open>message.ts\<close>) and of
    \<^verbatim>\<open>core/session\<close> (\<^verbatim>\<open>types.ts\<close>): messages, stream chunks, events, headers.
  \<^item> \<open>Surface\<close>: \<^verbatim>\<open>core/session/src/surface.ts\<close>, the nodes of the log that form the model history, the
    full fold and the incremental manager. Each event has one position; a replacement shadows a
    contiguous range it cites. The manager is shown to refine the fold.
  \<^item> \<open>Request_Header\<close>: \<^verbatim>\<open>core/session/src/request-header.ts\<close>, canonical form and comparison.
  \<^item> \<open>Session_Log\<close>, \<open>Session_Run\<close>: \<^verbatim>\<open>core/session/src/index.ts\<close>, one session: construction from a seed,
    \<open>append_event\<close> (\<^verbatim>\<open>append\<close>), the caches \<open>request_header\<close>, \<open>request_context\<close>, \<open>derive_messages\<close>.
    \<open>session_ok\<close> is the invariant; \<open>session_run\<close> the reachable sessions.
  \<^item> \<open>Trace\<close>: \<^verbatim>\<open>core/session/src/invariant.ts\<close>, the relational checks on turns, steps and tool calls.
  \<^item> \<open>Repair\<close>: \<^verbatim>\<open>core/session/src/repair.ts\<close>, the records that close an interrupted turn.
  \<^item> \<open>Session_Store\<close>, \<open>Store_Run\<close>: the store of live sessions, fork seeds, prepared sessions and their
    one settlement.
  \<^item> \<open>Chunk_Rows\<close>, \<open>Chunk_Round_Trip\<close>: the packed rows in which runs of stream chunks are stored.
  \<^item> \<open>Inbox\<close>, \<open>Consumed_Work\<close>: \<^verbatim>\<open>core/agent\<close>, the pending input and the account of the input a turn took.
  \<^item> \<open>Assembler\<close>: \<^verbatim>\<open>llm/llm/src/assembler.ts\<close>, from stream chunks to the blocks of a message.
  \<^item> \<open>Retry\<close>: \<^verbatim>\<open>llm/llm-retry\<close>, policies, backoff, the retry records and their own validation.
  \<^item> \<open>Scope\<close>, \<open>System_Prompt\<close>: \<^verbatim>\<open>core/scope\<close> and \<^verbatim>\<open>core/system-prompt\<close>, scoped registrations and the
    assembly and interpolation of the prompt.
  \<^item> \<open>Runtime_Context\<close>: \<^verbatim>\<open>core/agent-loop/src/runtime-context.ts\<close>, when a context snapshot is proposed.
  \<^item> \<open>Tool_Calls\<close>, \<open>Tool_Order\<close>: \<^verbatim>\<open>core/agent-loop/src/tool-calls.ts\<close>, the scheduler of one step's calls.
  \<^item> \<open>Agent_Loop\<close>, \<open>Agent_Frame\<close>: \<^verbatim>\<open>core/agent-loop/src/agent.ts\<close>, the driver.
  \<^item> \<open>Log_Append\<close>: what one accepted append does to the surface; the base of the two rewriting services.
  \<^item> \<open>Token_Meter\<close>, \<open>Token_Projection\<close>: \<^verbatim>\<open>llm/token-meter\<close>, prices, the priced surface, usage anchors, and
    the constant-space projections of usage, pressure and composition.
  \<^item> \<open>Tool_Pairing\<close>: \<^verbatim>\<open>compaction/compaction/src/tool-pairing.ts\<close>, which cuts of the surface no call crosses.
  \<^item> \<open>Result_Pruner\<close>: \<^verbatim>\<open>compaction/compaction-tool-result-pruner\<close>, the model-free pass over long results.
  \<^item> \<open>Compaction\<close>, \<open>Compaction_Run\<close>, \<open>Compaction_Commit\<close>, \<open>Compaction_Claims\<close>:
    \<^verbatim>\<open>compaction/compaction-basic/src/region.ts\<close> and \<^verbatim>\<open>summarizer.ts\<close>, the transaction that puts a summary in the
    place of a span: definitions, what its two halves keep, the commit, and the theorems about whole
    transactions. \<open>compactor\<close> holds the session with the pairing cache and the meter.
  \<^item> \<open>Compaction_Policy\<close>, \<open>Compaction_Auto\<close>, \<open>Compaction_Auto_Run\<close>: \<^verbatim>\<open>compaction-basic/src/config.ts\<close>, \<^verbatim>\<open>index.ts\<close> and
    \<^verbatim>\<open>command-compact\<close>, the policy of a model, the calls that compact under pressure, after an overflow or by
    hand, and what they report.
  \<^item> \<open>Goal_Fold\<close>, \<open>Goal_History\<close>: \<^verbatim>\<open>goal/goal/src/fold.ts\<close>, the decoder and the replay of the durable goal, and what
    an accepted log says of it.
  \<^item> \<open>Goal_Service\<close>, \<open>Goal_Register\<close>, \<open>Goal_Refines\<close>, \<open>Goal_Run\<close>: \<^verbatim>\<open>goal/goal/src/index.ts\<close>, the service over the
    log with its cache and activation; the compare-and-set register it refines; its runs beside other writers.
  \<^item> \<open>Goal_Driver\<close>, \<open>Goal_Driver_Run\<close>: \<^verbatim>\<open>goal-round-driver\<close>, the autonomous rounds of a goal and their fence.
  \<^item> \<open>Goal_Front\<close>: \<^verbatim>\<open>command-goal\<close> and \<^verbatim>\<open>tool-goal\<close>, the command of a human and the tools of the model.
  How they interact. The driver claims input from the inbox, which commits each splice as an event of
  the session; it asks the prompt registry for an assembly, derives the history and the header from
  the session, streams chunks into the session and the assembler, and hands planned calls to the
  scheduler, which appends calls, results and contexts to the same inbox and session. So the state of
  one run is nested: \<open>agent\<close> holds an \<open>agent_inbox\<close>, which holds the \<open>session\<close>; a \<open>tool_run\<close> works on
  the inbox it was started with and gives it back. The retry executor answers a failed request; the
  repair and the store act on sessions without a driver.

  Conventions. A function that may throw returns \<open>'x + 'a\<close>, paired with the state where a throw leaves
  it changed. Code between two awaits is one definition; an await is a constructor (\<open>run_pc\<close>,
  \<open>loop_pc\<close>) that carries the locals that live across it, and the answer of the awaited service is an
  input, so every theorem holds for every answer and every order of resumption. Clock readings, fresh
  ids, random samples and dispatch verdicts are arguments. Numbers are unbounded integers where the
  code only compares and adds small counters, with \<open>safe_int\<close> where it checks safe integers; finite
  doubles are rationals. Strings are lists of characters.

  Bounds. \<open>mint_id\<close> gets one attempt more than there are live sessions: the ids it tries are distinct,
  so one of them is free. A tool run is measured by its remaining work, at most \<open>6 * n + 7\<close> for \<open>n\<close>
  planned calls. Interpolation recurses on the length of the text. Walks along scope links are
  partial functions, shown to end on every reachable link map.

  What the lemma groups show: refinement of a full replay by each incremental cache (surface manager,
  derived messages, header, inbox); all-or-nothing appends and splices; what an accepted log
  looks like (surface conservation, consecutive turns, answered calls, valid retry records); exactness
  of the encodings (rows, assembled blocks, interpolation); and the discipline of the driver (framed
  log, requests derived from the log, cancellation, ordered and bounded tool runs).

  Not modelled. Code whose behaviour is input and output of another system: the LLM adapters and
  their wire formats, subprocess, terminal and sandbox drivers, file system and web tools, MCP, LSP and
  ACP bridges, persistence back ends (SQLite, JSONL, HTTP), the Python and native services. Code that
  renders: the web client and its slots, the command line. Generated catalogues and the typed-RPC
  generator. The Cordis plugin runtime itself (fibres, dispatch modes, disposal order) is outside the
  repository's own sources; its listeners appear only as the answers and verdicts above. Listeners that
  call back synchronously into the component that notifies them are not modelled, except the refused
  append from inside a publication. Component entries of the manifest give the reason part by part.
\<close>

end
